(* ===== verification/Prelude.thy ===== *)
theory Prelude
  imports Main "HOL-Library.Word" "HOL-Library.Char_ord" "HOL-Library.List_Lexorder" "HOL-Library.Sublist"
begin

text \<open>
  The notions every component of mito shares: bytes and strings, the fragments of
  \<^verbatim>\<open>std::string\<close> and \<^verbatim>\<open>std::filesystem::path\<close> that the code calls, decimal
  parsing and printing, and the cancellation flag.

  A \<^verbatim>\<open>std::string\<close> is a \<^typ>\<open>string\<close> (a list of bytes); the order of
  \<^theory_text>\<open>Char_ord\<close> and \<^theory_text>\<open>List_Lexorder\<close> is the byte-wise order of
  \<^verbatim>\<open>std::string::compare\<close>.  Positions are \<^typ>\<open>nat\<close>, and
  \<^verbatim>\<open>std::string::npos\<close> is \<^term>\<open>None\<close>.
\<close>

named_theorems str_simps "rewriting of the string operations"
named_theorems plan_simps "unfolding of the planners"

type_synonym byte = "8 word"
type_synonym crc32 = "32 word"

section \<open>Strings\<close>

text \<open>\<^verbatim>\<open>starts_with\<close> of url_parser.cpp, and \<^verbatim>\<open>s.compare(0, p.size(), p) == 0\<close>.\<close>

definition starts_with :: "string \<Rightarrow> string \<Rightarrow> bool" where
  "starts_with s p \<longleftrightarrow> length p \<le> length s \<and> take (length p) s = p"

lemma starts_with_append [simp]: "starts_with (p @ s) p"
  by (simp add: starts_with_def)

lemma starts_with_iff_prefix [str_simps]: "starts_with s p \<longleftrightarrow> prefix p s"
  by (auto simp: starts_with_def prefix_def) (metis append_take_drop_id)

lemma starts_with_Nil [simp]: "starts_with s []"
  by (simp add: starts_with_def)

lemma starts_with_refl [simp]: "starts_with s s"
  by (simp add: starts_with_def)

lemma starts_withD: "starts_with s p \<Longrightarrow> s = p @ drop (length p) s"
  by (metis append_take_drop_id starts_with_def)

lemma starts_with_trans: "starts_with a b \<Longrightarrow> starts_with b c \<Longrightarrow> starts_with a c"
  by (simp add: starts_with_iff_prefix)

text \<open>\<^verbatim>\<open>s.find(c)\<close> and \<^verbatim>\<open>s.rfind(c)\<close>.\<close>

fun find_char :: "char \<Rightarrow> string \<Rightarrow> nat option" where
  "find_char c [] = None"
| "find_char c (x # xs) = (if x = c then Some 0 else map_option Suc (find_char c xs))"

definition rfind_char :: "char \<Rightarrow> string \<Rightarrow> nat option" where
  "rfind_char c s = map_option (\<lambda>i. length s - 1 - i) (find_char c (rev s))"

lemma find_char_None_iff [simp]: "find_char c s = None \<longleftrightarrow> c \<notin> set s"
  by (induction s) auto

lemma find_char_notin [simp]: "c \<notin> set s \<Longrightarrow> find_char c s = None"
  by simp

lemma find_char_Some_iff:
  "find_char c s = Some i \<longleftrightarrow> i < length s \<and> s ! i = c \<and> c \<notin> set (take i s)"
proof (induction s arbitrary: i)
  case Nil
  then show ?case by simp
next
  case (Cons x xs)
  show ?case by (cases i) (auto simp: Cons.IH)
qed

lemma find_char_append_Cons [simp]: "c \<notin> set xs \<Longrightarrow> find_char c (xs @ c # ys) = Some (length xs)"
  by (induction xs) auto

lemma rfind_char_None_iff [simp]: "rfind_char c s = None \<longleftrightarrow> c \<notin> set s"
  by (simp add: rfind_char_def)

lemma rfind_char_notin [simp]: "c \<notin> set s \<Longrightarrow> rfind_char c s = None"
  by simp

lemma rfind_char_append_Cons [simp]:
  assumes "c \<notin> set ys"
  shows "rfind_char c (xs @ c # ys) = Some (length xs)"
proof -
  have "find_char c (rev ys @ c # rev xs) = Some (length (rev ys))"
    using assms by (intro find_char_append_Cons) simp
  then show ?thesis by (simp add: rfind_char_def)
qed

lemma rfind_char_Some_split:
  assumes "rfind_char c s = Some i"
  shows "s = take i s @ c # drop (Suc i) s \<and> c \<notin> set (drop (Suc i) s) \<and> i < length s"
proof -
  from assms have "c \<in> set s"
    by (metis option.distinct(1) rfind_char_None_iff)
  then obtain xs ys where s: "s = xs @ c # ys" "c \<notin> set ys"
    using split_list_last by metis
  with assms have "i = length xs" by simp
  with s show ?thesis by simp
qed

lemma rfind_char_less: "rfind_char c s = Some i \<Longrightarrow> i < length s"
  using rfind_char_Some_split by blast

lemma rfind_char_append_notin [simp]:
  assumes "c \<notin> set ys"
  shows "rfind_char c (xs @ ys) = rfind_char c xs"
proof (cases "c \<in> set xs")
  case True
  then obtain us vs where "xs = us @ c # vs" "c \<notin> set vs"
    using split_list_last by metis
  with assms rfind_char_append_Cons [of c "vs @ ys" us] show ?thesis by simp
next
  case False
  with assms show ?thesis by (metis UnE rfind_char_None_iff set_append)
qed

text \<open>\<^verbatim>\<open>s.find(p)\<close> for a string \<open>p\<close>.\<close>

fun find_str :: "string \<Rightarrow> string \<Rightarrow> nat option" where
  "find_str p [] = (if p = [] then Some 0 else None)"
| "find_str p (x # xs) = (if starts_with (x # xs) p then Some 0 else map_option Suc (find_str p xs))"

lemma find_str_Some:
  "find_str p s = Some i \<Longrightarrow> i \<le> length s \<and> starts_with (drop i s) p"
  by (induction s arbitrary: i) (auto split: if_splits)

lemma find_str_0_iff: "find_str p s = Some 0 \<longleftrightarrow> starts_with s p"
  by (cases s) (auto simp: starts_with_def)

text \<open>\<^verbatim>\<open>!s.empty() && s.back() == c\<close>.\<close>

definition ends_with_char :: "char \<Rightarrow> string \<Rightarrow> bool" where
  "ends_with_char c s \<longleftrightarrow> s \<noteq> [] \<and> last s = c"

text \<open>
  The directory normalisation repeated all over the code:
  \<^verbatim>\<open>if (!p.empty() && p.back() != '/') p += '/';\<close>
\<close>

definition with_slash :: "string \<Rightarrow> string" where
  "with_slash p = (if p \<noteq> [] \<and> last p \<noteq> CHR ''/'' then p @ ''/'' else p)"

lemma with_slash_Nil [simp]: "with_slash [] = []"
  by (simp add: with_slash_def)

lemma with_slash_slash [simp]: "with_slash (p @ ''/'') = p @ ''/''"
  by (simp add: with_slash_def)

lemma with_slash_idem [simp]: "with_slash (with_slash p) = with_slash p"
  by (simp add: with_slash_def)

lemma with_slash_eq_Nil [simp]: "with_slash p = [] \<longleftrightarrow> p = []"
  by (simp add: with_slash_def)

lemma last_with_slash: "p \<noteq> [] \<Longrightarrow> last (with_slash p) = CHR ''/''"
  by (simp add: with_slash_def)

lemma takeWhile_neq_notin [simp]: "c \<notin> set w \<Longrightarrow> takeWhile (\<lambda>x. x \<noteq> c) w = w"
  by (induction w) auto

text \<open>Splitting at a separator, the components of a path.\<close>

fun split_at :: "char \<Rightarrow> string \<Rightarrow> string list" where
  "split_at c [] = [[]]"
| "split_at c (x # xs) =
     (if x = c then [] # split_at c xs
      else (case split_at c xs of [] \<Rightarrow> [[x]] | w # ws \<Rightarrow> (x # w) # ws))"

lemma split_at_not_Nil [simp]: "split_at c s \<noteq> []"
  by (induction s) (auto split: list.splits)

lemma split_at_no_sep [simp]: "c \<notin> set w \<Longrightarrow> split_at c w = [w]"
  by (induction w) auto

lemma split_at_append [simp]: "c \<notin> set w \<Longrightarrow> split_at c (w @ c # s) = w # split_at c s"
  by (induction w) auto

section \<open>Decimal numbers\<close>

text \<open>\<^verbatim>\<open>std::isdigit\<close> and \<^verbatim>\<open>std::isspace\<close> in the C locale.\<close>

definition is_digit :: "char \<Rightarrow> bool" where
  "is_digit c \<longleftrightarrow> 48 \<le> (of_char c :: nat) \<and> (of_char c :: nat) \<le> 57"

definition is_space :: "char \<Rightarrow> bool" where
  "is_space c \<longleftrightarrow> (of_char c :: nat) = 32 \<or> (9 \<le> (of_char c :: nat) \<and> (of_char c :: nat) \<le> 13)"

definition digit_char :: "nat \<Rightarrow> char" where
  "digit_char d = char_of (48 + d)"

definition digit_val :: "char \<Rightarrow> nat" where
  "digit_val c = of_char c - 48"

text \<open>\<^verbatim>\<open>std::to_string\<close> of an unsigned value and the value of a digit string.\<close>

fun show_nat :: "nat \<Rightarrow> string" where
  "show_nat n = (if n < 10 then [digit_char n] else show_nat (n div 10) @ [digit_char (n mod 10)])"

declare show_nat.simps [simp del]

definition digits_val :: "string \<Rightarrow> nat" where
  "digits_val s = foldl (\<lambda>a c. 10 * a + digit_val c) 0 s"

lemma of_char_digit_char: "d < 10 \<Longrightarrow> (of_char (digit_char d) :: nat) = 48 + d"
  by (simp add: digit_char_def)

lemma is_digit_digit_char [simp]: "d < 10 \<Longrightarrow> is_digit (digit_char d)"
  by (simp add: is_digit_def of_char_digit_char)

lemma digit_val_digit_char [simp]: "d < 10 \<Longrightarrow> digit_val (digit_char d) = d"
  by (simp add: digit_val_def of_char_digit_char)

lemma digits_val_snoc [simp]: "digits_val (s @ [c]) = 10 * digits_val s + digit_val c"
  by (simp add: digits_val_def)

lemma digits_val_Nil [simp]: "digits_val [] = 0"
  by (simp add: digits_val_def)

lemma show_nat_not_Nil [simp]: "show_nat n \<noteq> []"
  by (subst show_nat.simps) simp

lemma show_nat_digits: "\<forall>c \<in> set (show_nat n). is_digit c"
proof (induction n rule: show_nat.induct)
  case (1 n)
  then show ?case
    by (cases "n < 10") (auto simp: show_nat.simps [of n])
qed

lemma digits_val_show_nat [simp]: "digits_val (show_nat n) = n"
proof (induction n rule: show_nat.induct)
  case (1 n)
  show ?case
  proof (cases "n < 10")
    case True
    then show ?thesis by (subst show_nat.simps) (simp add: digits_val_def)
  next
    case False
    with 1 show ?thesis by (subst show_nat.simps) simp
  qed
qed

lemma show_nat_inject [simp]: "show_nat m = show_nat n \<longleftrightarrow> m = n"
  by (metis digits_val_show_nat)

lemma length_show_nat_le: "n < 10 ^ k \<Longrightarrow> 0 < k \<Longrightarrow> length (show_nat n) \<le> k"
proof (induction n arbitrary: k rule: show_nat.induct)
  case (1 n)
  show ?case
  proof (cases "n < 10")
    case True
    then show ?thesis using 1 by (subst show_nat.simps) simp
  next
    case False
    with 1 obtain j where k: "k = Suc j" and j: "0 < j"
      by (cases k; cases "k - 1") auto
    with 1 have "n div 10 < 10 ^ j"
      by (simp add: div_less_iff_less_mult mult.commute)
    with 1 False j have "length (show_nat (n div 10)) \<le> j" by blast
    with False k show ?thesis by (subst show_nat.simps) simp
  qed
qed

definition show_int :: "int \<Rightarrow> string" where
  "show_int n = (if n < 0 then ''-'' @ show_nat (nat (- n)) else show_nat (nat n))"

lemma not_digit_notin_show_nat: "\<not> is_digit c \<Longrightarrow> c \<notin> set (show_nat n)"
  using show_nat_digits by blast

text \<open>
  \<^verbatim>\<open>std::stoi\<close> and \<^verbatim>\<open>std::stoll\<close> for a range \<open>[lo, hi]\<close>: skip white space, an optional sign, the
  longest run of digits; the rest is ignored.  \<^term>\<open>None\<close> is the exception, either
  \<^verbatim>\<open>std::invalid_argument\<close> (no digits) or \<^verbatim>\<open>std::out_of_range\<close>.
\<close>

definition sto_int :: "int \<Rightarrow> int \<Rightarrow> string \<Rightarrow> int option" where
  "sto_int lo hi s =
     (let t = dropWhile is_space s;
          neg = (t \<noteq> [] \<and> hd t = CHR ''-'');
          u = (if t \<noteq> [] \<and> (hd t = CHR ''-'' \<or> hd t = CHR ''+'') then tl t else t);
          ds = takeWhile is_digit u;
          v = (if neg then - int (digits_val ds) else int (digits_val ds))
      in if ds = [] then None else if lo \<le> v \<and> v \<le> hi then Some v else None)"

definition int64_max :: int where
  "int64_max = 2 ^ 63 - 1"

definition stoi :: "string \<Rightarrow> int option" where
  "stoi s = sto_int (- (2 ^ 31)) (2 ^ 31 - 1) s"

definition stoll :: "string \<Rightarrow> int option" where
  "stoll s = sto_int (- (2 ^ 63)) int64_max s"

lemma digit_not_space_sign:
  "is_digit c \<Longrightarrow> \<not> is_space c \<and> c \<noteq> CHR ''-'' \<and> c \<noteq> CHR ''+''"
  by (auto simp: is_digit_def is_space_def)

lemma sto_int_digits:
  assumes "s \<noteq> []" "\<forall>c \<in> set s. is_digit c"
  shows "sto_int lo hi s =
    (if lo \<le> int (digits_val s) \<and> int (digits_val s) \<le> hi then Some (int (digits_val s)) else None)"
proof -
  from assms have "is_digit (hd s)" by auto
  then have h: "\<not> is_space (hd s)" "hd s \<noteq> CHR ''-''" "hd s \<noteq> CHR ''+''"
    using digit_not_space_sign by blast+
  with assms(1) have d: "dropWhile is_space s = s" by (cases s) auto
  have t: "takeWhile is_digit s = s"
    using assms(2) by simp
  show ?thesis
    unfolding sto_int_def d Let_def using assms(1) h by (simp add: t)
qed

lemma stoi_range: "stoi s = Some v \<Longrightarrow> - (2 ^ 31) \<le> v \<and> v \<le> 2 ^ 31 - 1"
  by (auto simp: stoi_def sto_int_def Let_def split: if_splits)

section \<open>The cancellation flag\<close>

text \<open>
  \<^verbatim>\<open>std::atomic<bool> cancelled\<close> is set by a signal handler at any moment and never cleared
  during a run.  What a run can observe of it is at which of its loads the flag first reads
  true: \<^term>\<open>None\<close> is never, \<^term>\<open>Some n\<close> is after \<open>n\<close> loads.  A load is \<open>poll\<close>.
\<close>

type_synonym cancel = "nat option"

fun poll :: "cancel \<Rightarrow> bool \<times> cancel" where
  "poll None = (False, None)"
| "poll (Some 0) = (True, Some 0)"
| "poll (Some (Suc n)) = (False, Some n)"

lemma poll_sticky: "poll c = (True, c') \<Longrightarrow> c' = Some 0"
  by (cases c rule: poll.cases) auto

lemma poll_True_iff: "fst (poll c) \<longleftrightarrow> c = Some 0"
  by (cases c rule: poll.cases) auto

section \<open>Lists\<close>

text \<open>Chunks: a vector cut into pieces of a fixed size, the last one possibly shorter.\<close>

definition slice :: "nat \<Rightarrow> nat \<Rightarrow> 'a list \<Rightarrow> 'a list" where
  "slice i n xs = take n (drop i xs)"

lemma length_slice [simp]: "length (slice i n xs) = min n (length xs - i)"
  by (simp add: slice_def)

lemma slice_whole [simp]: "length xs \<le> n \<Longrightarrow> slice 0 n xs = xs"
  by (simp add: slice_def)

text \<open>\<open>(n + d - 1) / d\<close>, the count of chunks of a size.\<close>

definition ceil_div :: "int \<Rightarrow> int \<Rightarrow> int" where
  "ceil_div n d = (n + d - 1) div d"

lemma ceil_div_bounds:
  assumes "0 < d"
  shows "n \<le> ceil_div n d * d" "ceil_div n d * d < n + d"
proof -
  have e: "ceil_div n d * d = n + d - 1 - (n + d - 1) mod d"
    unfolding ceil_div_def by (simp add: minus_mod_eq_div_mult)
  have "0 \<le> (n + d - 1) mod d" "(n + d - 1) mod d < d" using assms by auto
  with e show "n \<le> ceil_div n d * d" "ceil_div n d * d < n + d" by linarith+
qed

lemma ceil_div_nonneg: "0 < d \<Longrightarrow> 0 \<le> n \<Longrightarrow> 0 \<le> ceil_div n d"
  by (simp add: ceil_div_def pos_imp_zdiv_nonneg_iff)

lemma ceil_div_0 [simp]: "0 < d \<Longrightarrow> ceil_div 0 d = 0"
  by (simp add: ceil_div_def)

lemma ceil_div_pos: "0 < d \<Longrightarrow> 0 < n \<Longrightarrow> 0 < ceil_div n d"
  by (simp add: ceil_div_def pos_imp_zdiv_pos_iff)

lemma ceil_div_less_iff:
  assumes "0 < d"
  shows "i < ceil_div n d \<longleftrightarrow> i * d < n"
proof
  assume "i < ceil_div n d"
  then have "(i + 1) * d \<le> ceil_div n d * d" using assms by simp
  with ceil_div_bounds(2) [OF assms, of n] show "i * d < n" by (simp add: algebra_simps)
next
  assume "i * d < n"
  with ceil_div_bounds(1) [OF assms, of n] have "i * d < ceil_div n d * d" by simp
  with assms show "i < ceil_div n d" by simp
qed

end
