(* ===== verification/Core_Types.thy ===== *)
theory Core_Types
  imports Prelude
begin

text \<open>
  The data of comparison_task.h, sync_types.h, directory_comparison.h, s3_interface.h, rm_types.h,
  leftovers_types.h and constants.h: structs as records, enums as datatypes, defaults as a
  \<open>default_\<close> constant.  Elapsed times and log output are not kept.
\<close>

section \<open>Constants\<close>

definition CHUNK_SIZE :: int where "CHUNK_SIZE = 8 * 1024 * 1024"
definition BLOCK_SIZE :: int where "BLOCK_SIZE = 64 * 1024"
definition DIFF_UPLOAD_THRESHOLD :: int where "DIFF_UPLOAD_THRESHOLD = 8 * 1024 * 1024"
definition MAX_RETRIES :: nat where "MAX_RETRIES = 3"
definition kMaxSinglePutBytes :: int where "kMaxSinglePutBytes = 5 * 1024 * 1024 * 1024"
definition kMaxMultipartParts :: nat where "kMaxMultipartParts = 10000"

lemma chunk_constants_pos [simp]: "0 < CHUNK_SIZE" "0 < BLOCK_SIZE"
  by (simp_all add: CHUNK_SIZE_def BLOCK_SIZE_def)

section \<open>Sources\<close>

datatype source_type = Local | S3

record file_source =
  fs_type :: source_type
  fs_path :: string
  fs_bucket :: string
  fs_region :: string
  fs_profile :: string
  fs_endpoint :: string

definition default_file_source :: file_source where
  "default_file_source = \<lparr>fs_type = Local, fs_path = [], fs_bucket = [], fs_region = [],
     fs_profile = [], fs_endpoint = []\<rparr>"

lemma default_file_source_sel [simp]:
  "fs_type default_file_source = Local" "fs_path default_file_source = []"
  "fs_bucket default_file_source = []" "fs_region default_file_source = []"
  "fs_profile default_file_source = []" "fs_endpoint default_file_source = []"
  by (simp_all add: default_file_source_def)

text \<open>\<^verbatim>\<open>should_reuse_s3_client\<close>: one client serves two S3 sources of equal region and profile.\<close>

definition should_reuse_s3_client :: "file_source \<Rightarrow> file_source \<Rightarrow> bool" where
  "should_reuse_s3_client a b \<longleftrightarrow>
     fs_type a = S3 \<and> fs_type b = S3 \<and> fs_region a = fs_region b \<and> fs_profile a = fs_profile b"

section \<open>Synchronisation\<close>

datatype sync_action = Skip | Upload | UploadDiff | Download | DownloadDiff | Copy | Delete

datatype sync_direction = DirUpload | DirDownload | S3ToS3 | LocalToLocal

record sync_file_entry =
  se_path :: string
  se_action :: sync_action
  se_local_size :: int
  se_s3_size :: int
  se_dest_size :: int
  se_local_mtime :: int

definition default_sync_file_entry :: sync_file_entry where
  "default_sync_file_entry = \<lparr>se_path = [], se_action = Skip, se_local_size = -1, se_s3_size = -1,
     se_dest_size = -1, se_local_mtime = 0\<rparr>"

record sync_config =
  sc_direction :: sync_direction
  sc_local_path :: string
  sc_dest_local_path :: string
  sc_source :: file_source
  sc_destination :: file_source
  sc_delete_orphans :: bool
  sc_dry_run :: bool
  sc_max_threads :: int

text \<open>One enumerated file: path relative to the root, size, modification time (0 is unknown).\<close>

record directory_entry =
  de_path :: string
  de_size :: int
  de_mtime :: int

section \<open>The S3 interface's data\<close>

record s3_part_result =
  pr_etag :: string
  pr_checksum :: string

definition part_ok :: "s3_part_result \<Rightarrow> bool" where
  "part_ok r \<longleftrightarrow> pr_etag r \<noteq> []"

definition no_part :: s3_part_result where
  "no_part = \<lparr>pr_etag = [], pr_checksum = []\<rparr>"

lemma part_ok_no_part [simp]: "\<not> part_ok no_part"
  by (simp add: part_ok_def no_part_def)

record s3_object_info =
  oi_key :: string
  oi_size :: int
  oi_last_modified :: int

record s3_list_result =
  lr_objects :: "s3_object_info list"
  lr_common_prefixes :: "string list"
  lr_next_token :: string
  lr_is_truncated :: bool
  lr_success :: bool
  lr_error :: string

definition empty_list_result :: s3_list_result where
  "empty_list_result = \<lparr>lr_objects = [], lr_common_prefixes = [], lr_next_token = [],
     lr_is_truncated = False, lr_success = False, lr_error = []\<rparr>"

record s3_upload_info =
  ui_key :: string
  ui_upload_id :: string
  ui_initiated :: int

record s3_uploads_result =
  ur_uploads :: "s3_upload_info list"
  ur_next_key_marker :: string
  ur_next_upload_id_marker :: string
  ur_is_truncated :: bool
  ur_success :: bool
  ur_error :: string

definition empty_uploads_result :: s3_uploads_result where
  "empty_uploads_result = \<lparr>ur_uploads = [], ur_next_key_marker = [], ur_next_upload_id_marker = [],
     ur_is_truncated = False, ur_success = False, ur_error = []\<rparr>"

datatype s3_presence = Exists | NotFound | Unknown

section \<open>Removal and leftovers\<close>

record rm_config =
  rc_bucket :: string
  rc_prefix :: string
  rc_region :: string
  rc_endpoint :: string
  rc_recursive :: bool
  rc_force :: bool
  rc_batch :: bool
  rc_max_threads :: nat
  rc_max_retries :: nat

record rm_result =
  rr_success :: bool
  rr_objects_deleted :: nat
  rr_objects_failed :: nat
  rr_bytes_freed :: int
  rr_failed_keys :: "string list"
  rr_error :: string
  rr_warnings :: "string list"

definition default_rm_result :: rm_result where
  "default_rm_result = \<lparr>rr_success = False, rr_objects_deleted = 0, rr_objects_failed = 0,
     rr_bytes_freed = 0, rr_failed_keys = [], rr_error = [], rr_warnings = []\<rparr>"

record leftovers_config =
  lc_bucket :: string
  lc_region :: string
  lc_endpoint :: string
  lc_prefix :: string
  lc_older_than :: int
  lc_abort_uploads :: bool

record leftovers_result =
  lo_success :: bool
  lo_uploads_listed :: nat
  lo_uploads_aborted :: nat
  lo_abort_failures :: nat
  lo_error :: string

definition default_leftovers_result :: leftovers_result where
  "default_leftovers_result = \<lparr>lo_success = False, lo_uploads_listed = 0, lo_uploads_aborted = 0,
     lo_abort_failures = 0, lo_error = []\<rparr>"

section \<open>The operating system's errors\<close>

text \<open>The values of \<^verbatim>\<open>errno\<close> the program tells apart; the rest are \<open>OtherError\<close>.\<close>

datatype errno = ENOENT | ESRCH | ELOOP | ENOTDIR | ENAMETOOLONG | EACCES | EEXIST | EINTR | OtherError nat

end
