(* ===== verification/Parsing.thy ===== *)
theory Parsing
  imports Core_Types
begin

text \<open>
  The parsers: S3 URLs (url_parser.cpp), durations (duration_parse.cpp), and the names of the
  temporary files a sync writes (constants.h and sync_task.cpp).
\<close>

section \<open>S3 URLs\<close>

text \<open>
  \<^verbatim>\<open>parse_s3_url\<close>.  The three output parameters are a triple (bucket, key, region), passed in and
  returned: a failing call may already have written the region, and region is left alone when the
  URL names none.
\<close>

definition parse_s3_url ::
  "string \<Rightarrow> string \<times> string \<times> string \<Rightarrow> bool \<times> string \<times> string \<times> string" where
  "parse_s3_url url out =
     (let (b0, k0, r0) = out in
      if \<not> starts_with url ''s3://'' then (False, b0, k0, r0)
      else
        let rest0 = drop 5 url;
            (region, rest) =
              (case rfind_char CHR ''@'' rest0 of
                 None \<Rightarrow> (r0, rest0)
               | Some at_pos \<Rightarrow>
                   (case find_char CHR ''/'' rest0 of
                      None \<Rightarrow> (r0, rest0)
                    | Some slash_pos \<Rightarrow>
                        if at_pos > 0 \<and> at_pos > slash_pos
                        then (drop (at_pos + 1) rest0, take at_pos rest0) else (r0, rest0)))
        in (case find_char CHR ''/'' rest of
              None \<Rightarrow> (False, b0, k0, region)
            | Some slash_pos \<Rightarrow>
                if slash_pos = 0 then (False, b0, k0, region)
                else let bucket = take slash_pos rest; key = drop (slash_pos + 1) rest
                     in (key \<noteq> [], bucket, key, region)))"

definition s3_url :: "string \<Rightarrow> string \<Rightarrow> string" where
  "s3_url b k = ''s3://'' @ b @ ''/'' @ k"

lemma parse_s3_url_plain:
  assumes "b \<noteq> []" "CHR ''/'' \<notin> set b" "CHR ''@'' \<notin> set k"
  shows "parse_s3_url (s3_url b k) (b0, k0, r0) = (k \<noteq> [], b, k, r0)"
proof -
  let ?rest = "b @ CHR ''/'' # k"
  have sl: "find_char CHR ''/'' ?rest = Some (length b)" using assms(2) by simp
  have at: "rfind_char CHR ''@'' ?rest = rfind_char CHR ''@'' b"
    using assms(3) by (intro rfind_char_append_notin) simp
  show ?thesis
  proof (cases "rfind_char CHR ''@'' b")
    case None
    then show ?thesis
      using assms(1) sl at
      by (simp add: parse_s3_url_def s3_url_def starts_with_def Let_def)
  next
    case (Some i)
    then have "\<not> length b < i" using rfind_char_less by fastforce
    then show ?thesis
      using assms(1) sl at Some by (simp add: parse_s3_url_def s3_url_def starts_with_def Let_def)
  qed
qed

lemma parse_s3_url_region:
  assumes "b \<noteq> []" "CHR ''/'' \<notin> set b" "CHR ''@'' \<notin> set r"
  shows "parse_s3_url (s3_url b k @ ''@'' @ r) (b0, k0, r0) = (k \<noteq> [], b, k, r)"
proof -
  let ?rest = "(b @ CHR ''/'' # k) @ CHR ''@'' # r"
  have at: "rfind_char CHR ''@'' ?rest = Some (length (b @ CHR ''/'' # k))"
    using assms(3) by (rule rfind_char_append_Cons)
  have sl: "find_char CHR ''/'' (b @ CHR ''/'' # zs) = Some (length b)" for zs
    using assms(2) by simp
  show ?thesis
    using assms(1) at sl [of k] sl [of "k @ CHR ''@'' # r"]
    by (simp add: parse_s3_url_def s3_url_def starts_with_def Let_def)
qed

lemma parse_s3_url_True_shape:
  assumes "parse_s3_url url (b0, k0, r0) = (True, b, k, r)"
  shows "b \<noteq> [] \<and> CHR ''/'' \<notin> set b \<and> k \<noteq> [] \<and>
    (url = s3_url b k \<and> CHR ''@'' \<notin> set k \<and> r = r0 \<or>
     url = s3_url b k @ ''@'' @ r \<and> CHR ''@'' \<notin> set r)"
proof -
  from assms have sw: "starts_with url ''s3://''"
    by (auto simp: parse_s3_url_def split: if_splits)
  then obtain rest where url: "url = ''s3://'' @ rest"
    using starts_withD by blast
  have "CHR ''/'' \<in> set rest"
  proof (rule ccontr)
    assume a: "CHR ''/'' \<notin> set rest"
    then have "find_char CHR ''/'' rest = None" by simp
    with assms show False
      by (cases "rfind_char CHR ''@'' rest")
         (simp_all add: parse_s3_url_def url Let_def starts_with_def)
  qed
  then obtain b1 t where rest: "rest = b1 @ CHR ''/'' # t" and b1: "CHR ''/'' \<notin> set b1"
    using split_list_first by metis
  show ?thesis
  proof (cases "CHR ''@'' \<in> set t")
    case False
    have "parse_s3_url (s3_url b1 t) (b0, k0, r0) = (True, b, k, r)"
      using assms by (simp add: url rest s3_url_def)
    moreover have "b1 \<noteq> []"
    proof
      assume "b1 = []"
      with assms url rest False show False
        by (simp add: parse_s3_url_def starts_with_def Let_def)
    qed
    ultimately show ?thesis
      using parse_s3_url_plain [OF _ b1 False, of b0 k0 r0] b1 False
      by (auto simp: url rest s3_url_def)
  next
    case True
    then obtain k1 r1 where t: "t = k1 @ CHR ''@'' # r1" and r1: "CHR ''@'' \<notin> set r1"
      using split_list_last by metis
    have eq: "parse_s3_url (s3_url b1 k1 @ ''@'' @ r1) (b0, k0, r0) = (True, b, k, r)"
      using assms by (simp add: url rest t s3_url_def)
    have "b1 \<noteq> []"
    proof
      assume e: "b1 = []"
      have "rfind_char CHR ''@'' ((CHR ''/'' # k1) @ CHR ''@'' # r1) = Some (length (CHR ''/'' # k1))"
        using r1 by (rule rfind_char_append_Cons)
      with e eq show False
        by (auto simp: parse_s3_url_def s3_url_def starts_with_def Let_def)
    qed
    then show ?thesis
      using parse_s3_url_region [OF _ b1 r1, of k1 b0 k0 r0] eq b1 r1
      by (auto simp: url rest t s3_url_def)
  qed
qed

text \<open>
  \<^verbatim>\<open>parse_s3_url\<close> accepts exactly \<^verbatim>\<open>s3://bucket/key\<close> and \<^verbatim>\<open>s3://bucket/key@region\<close> with a
  non-empty slash-free bucket and a non-empty key, where the region is what follows the last
  \<^verbatim>\<open>@\<close> behind the bucket, and returns the parts the URL was built from; without a region the
  caller's region is kept.
\<close>

theorem parse_s3_url_exact:
  "parse_s3_url url (b0, k0, r0) = (True, b, k, r) \<longleftrightarrow>
     b \<noteq> [] \<and> CHR ''/'' \<notin> set b \<and> k \<noteq> [] \<and>
     (url = s3_url b k \<and> CHR ''@'' \<notin> set k \<and> r = r0 \<or>
      url = s3_url b k @ ''@'' @ r \<and> CHR ''@'' \<notin> set r)"
  using parse_s3_url_True_shape [of url b0 k0 r0 b k r]
    parse_s3_url_plain [of b k b0 k0 r0] parse_s3_url_region [of b r k b0 k0 r0]
  by auto

text \<open>\<^verbatim>\<open>parse_source\<close>, with the error string it fills in.\<close>

definition url_error :: "string \<Rightarrow> string" where
  "url_error arg = ''Invalid S3 URL format: '' @ arg @
     '' (expected s3://bucket/key or s3://bucket/key@region)''"

definition parse_source :: "string \<Rightarrow> string \<Rightarrow> file_source \<times> string" where
  "parse_source arg default_region =
     (if starts_with arg ''s3://'' then
        let (ok, b, k, r) = parse_s3_url arg ([], [], []);
            err = (if ok then [] else url_error arg);
            r' = (if r = [] \<and> default_region \<noteq> [] then default_region else r)
        in (default_file_source\<lparr>fs_type := S3, fs_bucket := b, fs_path := k, fs_region := r'\<rparr>, err)
      else (default_file_source\<lparr>fs_type := Local, fs_path := arg\<rparr>, []))"

lemma url_error_not_Nil [simp]: "url_error a \<noteq> []"
  by (simp add: url_error_def)

lemma parse_source_type: "fs_type (fst (parse_source arg d)) = S3 \<longleftrightarrow> starts_with arg ''s3://''"
  by (simp add: parse_source_def split: prod.splits)

lemma parse_source_ok_S3:
  assumes "parse_source arg [] = (src, [])" "fs_type src = S3"
  shows "fs_bucket src \<noteq> [] \<and> fs_path src \<noteq> [] \<and> fs_profile src = [] \<and> fs_endpoint src = []"
proof -
  obtain ok b k r where p: "parse_s3_url arg ([], [], []) = (ok, b, k, r)"
    by (metis surj_pair)
  from assms have "starts_with arg ''s3://''" using parse_source_type [of arg "[]"] by simp
  with assms p have "ok" and src: "src = default_file_source\<lparr>fs_type := S3, fs_bucket := b,
      fs_path := k, fs_region := r\<rparr>"
    by (auto simp: parse_source_def split: if_splits)
  with p parse_s3_url_True_shape [of arg "[]" "[]" "[]" b k r] show ?thesis by simp
qed

section \<open>Durations\<close>

definition unit_multiplier :: "char \<Rightarrow> int option" where
  "unit_multiplier u =
     (if u = CHR ''s'' then Some 1 else if u = CHR ''m'' then Some 60
      else if u = CHR ''h'' then Some 3600 else if u = CHR ''d'' then Some 86400 else None)"

text \<open>\<^verbatim>\<open>parse_duration\<close>: \<^term>\<open>None\<close> is \<^verbatim>\<open>std::nullopt\<close>, a duration is its seconds.\<close>

definition parse_duration :: "string \<Rightarrow> int option" where
  "parse_duration str =
     (if str = [] then None
      else let i = length (takeWhile is_digit str) in
        if i = 0 \<or> i \<ge> length str then None
        else let unit = str ! i in
          if i + 1 \<noteq> length str then None
          else (case stoll (take i str) of
                  None \<Rightarrow> None
                | Some value \<Rightarrow>
                    if value < 0 then None
                    else (case unit_multiplier unit of
                            None \<Rightarrow> None
                          | Some multiplier \<Rightarrow>
                              if value > int64_max div multiplier then None
                              else Some (value * multiplier))))"

lemma unit_multiplier_pos: "unit_multiplier u = Some m \<Longrightarrow> 1 \<le> m"
  by (auto simp: unit_multiplier_def split: if_splits)

lemma unit_multiplier_not_digit: "unit_multiplier u = Some m \<Longrightarrow> \<not> is_digit u"
  by (auto simp: unit_multiplier_def is_digit_def split: if_splits)

lemma le_div_iff_mult_le: "1 \<le> (m::int) \<Longrightarrow> v \<le> k div m \<longleftrightarrow> v * m \<le> k"
proof
  assume m: "1 \<le> m" and "v \<le> k div m"
  then have "v * m \<le> (k div m) * m" by simp
  also have "\<dots> \<le> k" using m by (simp add: minus_mod_eq_div_mult [symmetric])
  finally show "v * m \<le> k" .
next
  assume m: "1 \<le> m" and "v * m \<le> k"
  then have "(v * m) div m \<le> k div m" by (intro zdiv_mono1) auto
  with m show "v \<le> k div m" by simp
qed

lemma parse_duration_iff:
  "parse_duration s = Some v \<longleftrightarrow>
     (\<exists>ds u m. s = ds @ [u] \<and> ds \<noteq> [] \<and> list_all is_digit ds \<and>
        unit_multiplier u = Some m \<and> v = int (digits_val ds) * m \<and> v \<le> int64_max)"
  (is "?L \<longleftrightarrow> ?R")
proof
  assume L: ?L
  let ?i = "length (takeWhile is_digit s)"
  from L obtain val m where i: "?i \<noteq> 0" "?i < length s" "?i + 1 = length s"
    and sv: "stoll (take ?i s) = Some val" and m: "unit_multiplier (s ! ?i) = Some m"
    and v: "v = val * m" and le: "val \<le> int64_max div m"
    by (auto simp: parse_duration_def Let_def split: if_splits option.splits)
  let ?ds = "takeWhile is_digit s"
  have tk: "take ?i s = ?ds" by (rule takeWhile_eq_take [symmetric])
  have dg: "\<forall>c \<in> set ?ds. is_digit c" by (auto dest: set_takeWhileD)
  have ne: "?ds \<noteq> []" using i(1) by (metis list.size(3))
  have "s = ?ds @ [s ! ?i]"
    using i tk by (metis Suc_eq_plus1 append_take_drop_id drop_all take_Suc_conv_app_nth le_refl
        append_Nil2)
  moreover have "val = int (digits_val ?ds)"
    using sv sto_int_digits [OF ne dg] by (auto simp: tk stoll_def split: if_splits)
  moreover have "v \<le> int64_max"
    using le v le_div_iff_mult_le [OF unit_multiplier_pos [OF m]] by simp
  ultimately show ?R using m v ne dg by (auto simp: list_all_iff)
next
  assume ?R
  then obtain ds u m where s: "s = ds @ [u]" and ne: "ds \<noteq> []" and dg: "\<forall>c \<in> set ds. is_digit c"
    and m: "unit_multiplier u = Some m" and v: "v = int (digits_val ds) * m" "v \<le> int64_max"
    by (auto simp: list_all_iff)
  have tw: "takeWhile is_digit s = ds"
    using dg unit_multiplier_not_digit [OF m] by (simp add: s)
  have m1: "1 \<le> m" using unit_multiplier_pos [OF m] .
  have le: "int (digits_val ds) \<le> int64_max div m"
    using v le_div_iff_mult_le [OF m1] by simp
  have "int (digits_val ds) \<le> int (digits_val ds) * m"
    using mult_left_mono [OF m1, of "int (digits_val ds)"] by simp
  then have "stoll ds = Some (int (digits_val ds))"
    using v sto_int_digits [OF ne dg] by (simp add: stoll_def)
  then show ?L
    using ne le m v by (simp add: parse_duration_def tw Let_def) (simp add: s)
qed

text \<open>
  a duration is a non-empty run of digits and one unit letter; its value is digits times
  unit, and a value above the largest 64-bit signed integer is refused instead of wrapping.
\<close>

theorem parse_duration_exact:
  "parse_duration s = Some v \<longleftrightarrow>
     (\<exists>ds u m. s = ds @ [u] \<and> ds \<noteq> [] \<and> list_all is_digit ds \<and>
        unit_multiplier u = Some m \<and> v = int (digits_val ds) * m \<and> v \<le> int64_max)"
  by (rule parse_duration_iff)

section \<open>Temporary file names\<close>

definition kTempSuffix :: string where
  "kTempSuffix = ''.mito-tmp''"

text \<open>\<^verbatim>\<open>is_sync_temp_name\<close> and \<^verbatim>\<open>parse_sync_temp_pid\<close>; \<^term>\<open>None\<close> is \<^verbatim>\<open>false\<close>.\<close>

definition is_sync_temp_name :: "string \<Rightarrow> bool" where
  "is_sync_temp_name filename \<longleftrightarrow>
     length filename > length kTempSuffix \<and> hd filename = CHR ''.'' \<and>
     drop (length filename - length kTempSuffix) filename = kTempSuffix"

definition pid_max :: nat where
  "pid_max = 2 ^ 31 - 1"

definition parse_sync_temp_pid :: "string \<Rightarrow> nat option" where
  "parse_sync_temp_pid filename =
     (if \<not> is_sync_temp_name filename then None
      else let body = take (length filename - length kTempSuffix) filename in
        if length body < 2 \<or> hd body \<noteq> CHR ''.'' then None
        else (case rfind_char CHR ''-'' body of
                None \<Rightarrow> None
              | Some counter_dash \<Rightarrow>
                  if counter_dash + 1 = length body then None
                  else (case rfind_char CHR ''-'' (take counter_dash body) of
                          None \<Rightarrow> None
                        | Some pid_dash \<Rightarrow>
                            if pid_dash \<le> 1 \<or> pid_dash + 1 = counter_dash then None
                            else
                              let pid_part = slice (pid_dash + 1) (counter_dash - pid_dash - 1) body;
                                  counter_part = drop (counter_dash + 1) body
                              in if \<not> list_all is_digit pid_part \<or> \<not> list_all is_digit counter_part
                                 then None
                                 else let parsed = digits_val pid_part in
                                   if parsed > 2 ^ 64 - 1 then None
                                   else if parsed = 0 \<or> parsed > pid_max then None
                                   else Some parsed)))"

text \<open>
  \<^verbatim>\<open>AtomicFileWriter::make_temp_name\<close>, with the process id and the counter's value as arguments
  and the target's file name cut to what \<^verbatim>\<open>NAME_MAX\<close> leaves.
\<close>

definition temp_name_suffix :: "nat \<Rightarrow> nat \<Rightarrow> string" where
  "temp_name_suffix pid counter = ''-'' @ show_nat pid @ ''-'' @ show_nat counter @ kTempSuffix"

definition make_temp_name :: "nat \<Rightarrow> nat \<Rightarrow> string \<Rightarrow> string" where
  "make_temp_name pid counter target_filename =
     (let suffix = temp_name_suffix pid counter;
          budget = 255 - length suffix - 1
      in ''.'' @ take budget target_filename @ suffix)"

lemma length_temp_name_suffix:
  assumes "pid \<le> pid_max" "counter < 2 ^ 64"
  shows "length (temp_name_suffix pid counter) \<le> 41"
proof -
  have "length (show_nat pid) \<le> 10"
    using assms(1) by (intro length_show_nat_le) (auto simp: pid_max_def)
  moreover have "length (show_nat counter) \<le> 20"
    using assms(2) by (intro length_show_nat_le) auto
  ultimately show ?thesis by (simp add: temp_name_suffix_def kTempSuffix_def)
qed

lemma parse_sync_temp_pid_parts:
  assumes "stem \<noteq> []" "0 < pid" "pid \<le> pid_max"
  shows "parse_sync_temp_pid (''.'' @ stem @ temp_name_suffix pid counter) = Some pid"
proof -
  let ?b1 = "CHR ''.'' # stem"
  let ?b2 = "?b1 @ CHR ''-'' # show_nat pid"
  let ?body = "?b2 @ CHR ''-'' # show_nat counter"
  let ?f = "?body @ kTempSuffix"
  have f: "''.'' @ stem @ temp_name_suffix pid counter = ?f"
    by (simp add: temp_name_suffix_def)
  have dash: "CHR ''-'' \<notin> set (show_nat n)" for n
    by (rule not_digit_notin_show_nat) (simp add: is_digit_def)
  have r1: "rfind_char CHR ''-'' ?body = Some (length ?b2)"
    by (rule rfind_char_append_Cons [OF dash])
  have r2: "rfind_char CHR ''-'' ?b2 = Some (length ?b1)"
    by (rule rfind_char_append_Cons [OF dash])
  have body: "take (length ?f - length kTempSuffix) ?f = ?body"
    by (metis add_diff_cancel_right' append_eq_conv_conj length_append)
  have t: "take (length ?b2) ?body = ?b2" by (metis append_eq_conv_conj)
  have pid_part: "slice (length ?b1 + 1) (length ?b2 - length ?b1 - 1) ?body = show_nat pid"
    by (simp add: slice_def)
  have counter_part: "drop (length ?b2 + 1) ?body = show_nat counter" by simp
  have digits: "list_all is_digit (show_nat n)" for n
    using show_nat_digits by (simp add: list_all_iff)
  have tail: "drop (length ?f - length kTempSuffix) ?f = kTempSuffix"
    by (metis add_diff_cancel_right' append_eq_conv_conj length_append)
  have "length ?f > length kTempSuffix \<and> hd ?f = CHR ''.''" by simp
  with tail have is_tmp: "is_sync_temp_name ?f" by (simp only: is_sync_temp_name_def simp_thms)
  have len: "\<not> length ?body < 2" "hd ?body = CHR ''.''" "length ?b2 + 1 \<noteq> length ?body"
    "\<not> length ?b1 \<le> 1" "length ?b1 + 1 \<noteq> length ?b2"
    using assms(1) by (simp_all add: Suc_le_eq)
  have bound: "\<not> pid > 2 ^ 64 - 1" "\<not> pid > pid_max" "pid \<noteq> 0"
    using assms(2,3) by (auto simp: pid_max_def)
  show ?thesis
    unfolding f parse_sync_temp_pid_def Let_def body r1 option.case t r2 pid_part counter_part
      digits_val_show_nat
    using is_tmp len digits bound by (simp only: if_False if_True simp_thms)
qed

text \<open>
  a temporary name carries its owner: the sweep reads back from the name the process id that
  \<^verbatim>\<open>make_temp_name\<close> put into it, whatever the target's name (dashes and dots included) and however
  much of it had to be cut, and the name never exceeds the 255 bytes of \<^verbatim>\<open>NAME_MAX\<close>.
\<close>

theorem temp_name_roundtrip:
  assumes "filename \<noteq> []" "0 < pid" "pid \<le> pid_max" "counter < 2 ^ 64"
  shows "parse_sync_temp_pid (make_temp_name pid counter filename) = Some pid \<and>
         length (make_temp_name pid counter filename) \<le> 255"
proof -
  have l: "length (temp_name_suffix pid counter) \<le> 41"
    using assms(3,4) by (rule length_temp_name_suffix)
  let ?budget = "255 - length (temp_name_suffix pid counter) - 1"
  have "take ?budget filename \<noteq> []" using l assms(1) by simp
  then have "parse_sync_temp_pid (make_temp_name pid counter filename) = Some pid"
    using assms(2,3) unfolding make_temp_name_def Let_def by (rule parse_sync_temp_pid_parts)
  moreover have "length (make_temp_name pid counter filename) \<le> 255"
    using l by (simp add: make_temp_name_def Let_def)
  ultimately show ?thesis by blast
qed

theorem temp_name_roundtrip_witness:
  "parse_sync_temp_pid (make_temp_name 4711 3 ''a-1.tar'') = Some 4711 \<and>
   length (make_temp_name 4711 3 ''a-1.tar'') \<le> 255"
  by (rule temp_name_roundtrip) (simp_all add: pid_max_def)

end
