(* ===== verification/Cli.thy ===== *)
theory Cli
  imports Parsing
begin

text \<open>
  The command line parsers of cli_args.cpp and \<^verbatim>\<open>apply_sync_profiles\<close> of sync_task.cpp.  A parser is a
  loop over the arguments; one iteration is a step function on the options, which either returns
  from the parser (\<^term>\<open>Inl\<close>, the early returns on an error) or goes on and says whether it also
  consumed the next argument (\<^verbatim>\<open>argv[++i]\<close>).
\<close>

datatype sub_command = NoCommand | Diff | Sync | Rm | Stats | Leftovers

definition wants_version :: "string list \<Rightarrow> bool" where
  "wants_version argv =
     (if length argv < 2 then False else argv ! 1 = ''--version'' \<or> argv ! 1 = ''-V'')"

definition detect_subcommand :: "string list \<Rightarrow> sub_command" where
  "detect_subcommand argv =
     (if length argv < 2 then NoCommand
      else let arg = argv ! 1 in
        if arg = ''diff'' then Diff else if arg = ''sync'' then Sync
        else if arg = ''rm'' then Rm else if arg = ''stats'' then Stats
        else if arg = ''leftovers'' then Leftovers else NoCommand)"

text \<open>The two sources a profile flag can land on, by direction.\<close>

definition set_profile :: "string \<Rightarrow> file_source \<Rightarrow> file_source" where
  "set_profile p s = (if p \<noteq> [] then s\<lparr>fs_profile := p\<rparr> else s)"

fun apply_sync_profiles ::
  "sync_direction \<Rightarrow> string \<Rightarrow> string \<Rightarrow> file_source \<Rightarrow> file_source \<Rightarrow> file_source \<times> file_source" where
  "apply_sync_profiles S3ToS3 source_profile dest_profile s3_source s3_dest =
     (set_profile source_profile s3_source, set_profile dest_profile s3_dest)"
| "apply_sync_profiles DirUpload source_profile dest_profile s3_source s3_dest =
     (set_profile dest_profile s3_source, s3_dest)"
| "apply_sync_profiles DirDownload source_profile dest_profile s3_source s3_dest =
     (set_profile source_profile s3_source, s3_dest)"
| "apply_sync_profiles LocalToLocal source_profile dest_profile s3_source s3_dest =
     (s3_source, s3_dest)"

definition set_endpoint :: "string \<Rightarrow> file_source \<Rightarrow> file_source" where
  "set_endpoint e s = (if e \<noteq> [] \<and> fs_type s = S3 then s\<lparr>fs_endpoint := e\<rparr> else s)"

text \<open>\<^verbatim>\<open>arg[0] == '-'\<close>; on an empty argument \<^verbatim>\<open>arg[0]\<close> is the terminating zero.\<close>

definition is_option :: "string \<Rightarrow> bool" where
  "is_option arg \<longleftrightarrow> arg \<noteq> [] \<and> hd arg = CHR ''-''"

text \<open>
  The case-insensitive test for an S3 URL that the sync parser makes on a positional argument
  (\<^verbatim>\<open>std::tolower\<close> in the C locale on the two letters).
\<close>

definition looks_like_s3 :: "string \<Rightarrow> bool" where
  "looks_like_s3 arg \<longleftrightarrow>
     length arg \<ge> 5 \<and> (arg ! 0 = CHR ''s'' \<or> arg ! 0 = CHR ''S'') \<and> arg ! 1 = CHR ''3'' \<and>
     arg ! 2 = CHR '':'' \<and> arg ! 3 = CHR ''/'' \<and> arg ! 4 = CHR ''/''"

section \<open>sync\<close>

record sync_cli =
  so_help :: bool
  so_error :: bool
  so_debug :: bool
  so_verbose :: bool
  so_quiet :: bool
  so_allow_unverified_ranges :: bool
  so_delete_orphans :: bool
  so_dry_run :: bool
  so_num_threads :: int
  so_local_path :: string
  so_s3_source :: file_source
  so_s3_dest :: file_source
  so_source_profile :: string
  so_dest_profile :: string
  so_endpoint_url :: string
  so_direction :: sync_direction
  so_has_local :: bool
  so_has_s3_source :: bool
  so_has_s3_dest :: bool
  so_error_message :: string

definition default_sync_cli :: sync_cli where
  "default_sync_cli = \<lparr>so_help = False, so_error = False, so_debug = False, so_verbose = False,
     so_quiet = False, so_allow_unverified_ranges = False, so_delete_orphans = False,
     so_dry_run = False, so_num_threads = 256, so_local_path = [],
     so_s3_source = default_file_source, so_s3_dest = default_file_source,
     so_source_profile = [], so_dest_profile = [], so_endpoint_url = [],
     so_direction = DirUpload, so_has_local = False, so_has_s3_source = False,
     so_has_s3_dest = False, so_error_message = []\<rparr>"

definition sync_fail :: "sync_cli \<Rightarrow> string \<Rightarrow> sync_cli + (sync_cli \<times> bool)" where
  "sync_fail opts msg = Inl (opts\<lparr>so_error := True, so_error_message := msg\<rparr>)"

text \<open>The branch for a positional argument (lines 79 to 141).\<close>

definition sync_positional :: "sync_cli \<Rightarrow> string \<Rightarrow> sync_cli + (sync_cli \<times> bool)" where
  "sync_positional opts arg =
     (let is_s3 = looks_like_s3 arg;
          (src, parse_error) = parse_source arg []
      in if \<not> so_has_local opts \<and> \<not> so_has_s3_source opts then
           (if is_s3 then
              (if parse_error \<noteq> [] then sync_fail (opts\<lparr>so_s3_source := src\<rparr>) parse_error
               else Inr (opts\<lparr>so_s3_source := src, so_has_s3_source := True,
                              so_direction := DirDownload\<rparr>, False))
            else Inr (opts\<lparr>so_local_path := arg, so_has_local := True,
                           so_direction := DirUpload\<rparr>, False))
         else if so_has_local opts \<and> \<not> so_has_s3_source opts then
           (if \<not> is_s3 then
              sync_fail opts ''Second argument must be an S3 URL (s3://bucket/prefix/)''
            else if parse_error \<noteq> [] then sync_fail (opts\<lparr>so_s3_source := src\<rparr>) parse_error
            else Inr (opts\<lparr>so_s3_source := src, so_has_s3_source := True\<rparr>, False))
         else if so_has_s3_source opts \<and> \<not> so_has_local opts \<and> \<not> so_has_s3_dest opts then
           (if is_s3 then
              (if parse_error \<noteq> [] then sync_fail (opts\<lparr>so_s3_dest := src\<rparr>) parse_error
               else Inr (opts\<lparr>so_s3_dest := src, so_has_s3_dest := True,
                              so_direction := S3ToS3\<rparr>, False))
            else Inr (opts\<lparr>so_local_path := arg, so_has_local := True\<rparr>, False))
         else sync_fail opts ''Too many arguments'')"

definition sync_step ::
  "sync_cli \<Rightarrow> string \<Rightarrow> string option \<Rightarrow> sync_cli + (sync_cli \<times> bool)" where
  "sync_step opts arg nxt =
     (if arg = ''-h'' \<or> arg = ''--help'' then Inr (opts\<lparr>so_help := True\<rparr>, False)
      else if arg = ''-d'' \<or> arg = ''--debug'' then Inr (opts\<lparr>so_debug := True\<rparr>, False)
      else if arg = ''-v'' \<or> arg = ''--verbose'' then Inr (opts\<lparr>so_verbose := True\<rparr>, False)
      else if arg = ''-q'' \<or> arg = ''--quiet'' then Inr (opts\<lparr>so_quiet := True\<rparr>, False)
      else if arg = ''--allow-unverified-ranges''
        then Inr (opts\<lparr>so_allow_unverified_ranges := True\<rparr>, False)
      else if arg = ''--delete'' then Inr (opts\<lparr>so_delete_orphans := True\<rparr>, False)
      else if arg = ''--dry-run'' then Inr (opts\<lparr>so_dry_run := True\<rparr>, False)
      else if arg = ''-t'' \<or> arg = ''--threads'' then
        (case nxt of
           None \<Rightarrow> sync_fail opts ''--threads requires a number argument''
         | Some v \<Rightarrow>
             (case stoi v of
                None \<Rightarrow> sync_fail opts ''--threads requires a valid number''
              | Some n \<Rightarrow>
                  if n < 1 then sync_fail (opts\<lparr>so_num_threads := n\<rparr>) ''--threads must be at least 1''
                  else Inr (opts\<lparr>so_num_threads := n\<rparr>, True)))
      else if arg = ''--source-profile'' then
        (case nxt of None \<Rightarrow> sync_fail opts ''--source-profile requires a profile name''
         | Some v \<Rightarrow> Inr (opts\<lparr>so_source_profile := v\<rparr>, True))
      else if arg = ''--dest-profile'' then
        (case nxt of None \<Rightarrow> sync_fail opts ''--dest-profile requires a profile name''
         | Some v \<Rightarrow> Inr (opts\<lparr>so_dest_profile := v\<rparr>, True))
      else if arg = ''--endpoint-url'' then
        (case nxt of None \<Rightarrow> sync_fail opts ''--endpoint-url requires a URL''
         | Some v \<Rightarrow> Inr (opts\<lparr>so_endpoint_url := v\<rparr>, True))
      else if is_option arg then sync_fail opts (''Unknown option: '' @ arg)
      else sync_positional opts arg)"

definition next_arg :: "string list \<Rightarrow> string option" where
  "next_arg as = (case as of [] \<Rightarrow> None | a # _ \<Rightarrow> Some a)"

function sync_loop :: "sync_cli \<Rightarrow> string list \<Rightarrow> sync_cli + sync_cli" where
  "sync_loop opts [] = Inr opts"
| "sync_loop opts (arg # args) =
     (case sync_step opts arg (next_arg args) of
        Inl r \<Rightarrow> Inl r
      | Inr (opts', consumed) \<Rightarrow> sync_loop opts' (if consumed then tl args else args))"
  by pat_completeness auto
termination
  by (relation "measure (\<lambda>(opts, args). length args)") auto

text \<open>What \<^verbatim>\<open>parse_sync_args\<close> does once the direction is final.\<close>

definition sync_finish :: "sync_cli \<Rightarrow> sync_cli" where
  "sync_finish opts =
     (let (src, dst) = apply_sync_profiles (so_direction opts) (so_source_profile opts)
                         (so_dest_profile opts) (so_s3_source opts) (so_s3_dest opts)
      in opts\<lparr>so_s3_source := set_endpoint (so_endpoint_url opts) src,
              so_s3_dest := set_endpoint (so_endpoint_url opts) dst\<rparr>)"

definition parse_sync_args :: "string list \<Rightarrow> sync_cli" where
  "parse_sync_args argv =
     (case sync_loop default_sync_cli (drop 2 argv) of Inl r \<Rightarrow> r | Inr opts \<Rightarrow> sync_finish opts)"

text \<open>
  What the loop keeps: no error so far, a usable thread count, and a direction that agrees with
  which positional arguments were seen.
\<close>

definition sync_cli_inv :: "sync_cli \<Rightarrow> bool" where
  "sync_cli_inv o1 \<longleftrightarrow>
     \<not> so_error o1 \<and> 1 \<le> so_num_threads o1 \<and> so_num_threads o1 < 2 ^ 31 \<and>
     (so_has_s3_dest o1 \<longleftrightarrow> so_direction o1 = S3ToS3) \<and>
     (so_has_s3_dest o1 \<longrightarrow> so_has_s3_source o1 \<and> \<not> so_has_local o1) \<and>
     (so_direction o1 = DirUpload \<longrightarrow> so_has_s3_source o1 \<longrightarrow> so_has_local o1) \<and>
     (so_direction o1 = DirDownload \<longrightarrow> so_has_s3_source o1) \<and>
     so_direction o1 \<noteq> LocalToLocal"

lemma sync_cli_inv_default: "sync_cli_inv default_sync_cli"
  by (simp add: sync_cli_inv_def default_sync_cli_def)

lemma if_eq_drop:
  "(if (arg :: string) = u then x else y) = r \<Longrightarrow> (x = r \<Longrightarrow> Q) \<Longrightarrow> (y = r \<Longrightarrow> Q) \<Longrightarrow> Q"
  by (cases "arg = u") simp_all

lemma if_eq2_drop:
  "(if (arg :: string) = u \<or> arg = v then x else y) = r \<Longrightarrow> (x = r \<Longrightarrow> Q) \<Longrightarrow> (y = r \<Longrightarrow> Q) \<Longrightarrow> Q"
  by (cases "arg = u \<or> arg = v") simp_all

lemma if_option_drop:
  "(if is_option arg then x else y) = r \<Longrightarrow> (x = r \<Longrightarrow> Q) \<Longrightarrow> (y = r \<Longrightarrow> Q) \<Longrightarrow> Q"
  by (cases "is_option arg") simp_all

lemma option_case_drop:
  "(case v of None \<Rightarrow> x | Some w \<Rightarrow> f w) = r \<Longrightarrow> (x = r \<Longrightarrow> Q) \<Longrightarrow> (\<And>w. v = Some w \<Longrightarrow> f w = r \<Longrightarrow> Q) \<Longrightarrow> Q"
  by (cases v) simp_all

text \<open>The dispatch on the option name, for proofs that do not depend on which option it was.\<close>

lemmas dispatch_elims = if_eq_drop if_eq2_drop if_option_drop option_case_drop

lemma sync_fail_simps [simp]:
  "sync_fail o1 msg \<noteq> Inr r" "sync_fail o1 msg = Inl o2 \<longleftrightarrow> o2 = o1\<lparr>so_error := True, so_error_message := msg\<rparr>"
  by (auto simp: sync_fail_def)

lemma sync_cli_inv_simps:
  "sync_cli_inv (o1\<lparr>so_s3_source := src, so_has_s3_source := True, so_direction := DirDownload\<rparr>) \<longleftrightarrow>
     \<not> so_error o1 \<and> 1 \<le> so_num_threads o1 \<and> so_num_threads o1 < 2 ^ 31 \<and> \<not> so_has_s3_dest o1"
  "sync_cli_inv (o1\<lparr>so_local_path := arg, so_has_local := True, so_direction := DirUpload\<rparr>) \<longleftrightarrow>
     \<not> so_error o1 \<and> 1 \<le> so_num_threads o1 \<and> so_num_threads o1 < 2 ^ 31 \<and> \<not> so_has_s3_dest o1"
  "sync_cli_inv (o1\<lparr>so_s3_dest := src, so_has_s3_dest := True, so_direction := S3ToS3\<rparr>) \<longleftrightarrow>
     \<not> so_error o1 \<and> 1 \<le> so_num_threads o1 \<and> so_num_threads o1 < 2 ^ 31 \<and>
     so_has_s3_source o1 \<and> \<not> so_has_local o1"
  by (simp_all add: sync_cli_inv_def, blast+)

lemma if_keep:
  "(if P then x else y) = r \<Longrightarrow> (P \<Longrightarrow> x = r \<Longrightarrow> Q) \<Longrightarrow> (\<not> P \<Longrightarrow> y = r \<Longrightarrow> Q) \<Longrightarrow> Q"
  by (cases P) simp_all

lemma sync_positional_inv:
  assumes "sync_cli_inv o1" "sync_positional o1 arg = Inr (o2, c)"
  shows "sync_cli_inv o2"
proof -
  obtain src err where p: "parse_source arg [] = (src, err)" by fastforce
  note pos = assms(2) [unfolded sync_positional_def p Let_def prod.case]
  note inv = assms(1) [unfolded sync_cli_inv_def]
  have add_source: "sync_cli_inv (o1\<lparr>so_s3_source := src, so_has_s3_source := True\<rparr>)" if "so_has_local o1"
    using inv that by (simp add: sync_cli_inv_def) blast
  have add_local: "sync_cli_inv (o1\<lparr>so_local_path := arg, so_has_local := True\<rparr>)" if "so_direction o1 \<noteq> S3ToS3"
    using inv that by (simp add: sync_cli_inv_def)
  show ?thesis
    using pos
    by (elim if_keep; simp only: sum.inject sum.distinct prod.inject sync_fail_simps; elim conjE; hypsubst;
        simp only: sync_cli_inv_simps add_source add_local inv) (use inv add_source add_local in blast)+
qed

lemma sync_cli_inv_flags:
  "sync_cli_inv (o1\<lparr>so_help := b\<rparr>) = sync_cli_inv o1"
  "sync_cli_inv (o1\<lparr>so_debug := b\<rparr>) = sync_cli_inv o1"
  "sync_cli_inv (o1\<lparr>so_verbose := b\<rparr>) = sync_cli_inv o1"
  "sync_cli_inv (o1\<lparr>so_quiet := b\<rparr>) = sync_cli_inv o1"
  "sync_cli_inv (o1\<lparr>so_allow_unverified_ranges := b\<rparr>) = sync_cli_inv o1"
  "sync_cli_inv (o1\<lparr>so_delete_orphans := b\<rparr>) = sync_cli_inv o1"
  "sync_cli_inv (o1\<lparr>so_dry_run := b\<rparr>) = sync_cli_inv o1"
  "sync_cli_inv (o1\<lparr>so_source_profile := w\<rparr>) = sync_cli_inv o1"
  "sync_cli_inv (o1\<lparr>so_dest_profile := w\<rparr>) = sync_cli_inv o1"
  "sync_cli_inv (o1\<lparr>so_endpoint_url := w\<rparr>) = sync_cli_inv o1"
  by (simp_all add: sync_cli_inv_def)

lemma sync_cli_inv_threads:
  assumes "sync_cli_inv o1" "stoi v = Some n" "\<not> n < 1"
  shows "sync_cli_inv (o1\<lparr>so_num_threads := n\<rparr>)"
  using assms(1,3) stoi_range [OF assms(2)] by (simp add: sync_cli_inv_def)

lemma sync_step_inv:
  assumes "sync_cli_inv o1" "sync_step o1 arg nxt = Inr (o2, c)"
  shows "sync_cli_inv o2"
  using assms(2) [unfolded sync_step_def]
  by (elim dispatch_elims if_keep; simp only: sum.inject sum.distinct prod.inject sync_fail_simps
           sync_positional_inv [OF assms(1)] HOL.simp_thms; elim conjE; hypsubst;
      simp only: sync_cli_inv_flags assms(1) sync_cli_inv_threads [OF assms(1)] HOL.simp_thms)

lemma sync_loop_inv: "sync_cli_inv o1 \<Longrightarrow> sync_loop o1 args = Inr o2 \<Longrightarrow> sync_cli_inv o2"
  by (induction o1 args rule: sync_loop.induct)
     (auto split: sum.splits prod.splits dest: sync_step_inv)

lemma sync_positional_Inl_error: "sync_positional o1 arg = Inl o2 \<Longrightarrow> so_error o2"
  unfolding sync_positional_def Let_def
  by (cases "parse_source arg []") (simp only: prod.case split: if_split_asm; simp)

lemma sync_step_Inl_error: "sync_step o1 arg nxt = Inl o2 \<Longrightarrow> so_error o2"
  unfolding sync_step_def
  by (elim dispatch_elims; simp add: sync_positional_Inl_error split: if_split_asm)

lemma sync_loop_Inl_error: "sync_loop o1 args = Inl o2 \<Longrightarrow> so_error o2"
  by (induction o1 args rule: sync_loop.induct)
     (auto split: sum.splits prod.splits if_splits dest: sync_step_Inl_error)

lemma sync_finish_keeps [simp]:
  "so_error (sync_finish o1) = so_error o1" "so_num_threads (sync_finish o1) = so_num_threads o1"
  "so_direction (sync_finish o1) = so_direction o1" "so_has_local (sync_finish o1) = so_has_local o1"
  "so_has_s3_source (sync_finish o1) = so_has_s3_source o1"
  "so_has_s3_dest (sync_finish o1) = so_has_s3_dest o1"
  by (simp_all add: sync_finish_def split: prod.splits)


section \<open>rm\<close>

record rm_cli =
  ro_help :: bool
  ro_error :: bool
  ro_recursive :: bool
  ro_force :: bool
  ro_quiet :: bool
  ro_verbose :: bool
  ro_batch :: bool
  ro_num_threads :: int
  ro_s3_url :: string
  ro_bucket :: string
  ro_prefix :: string
  ro_region :: string
  ro_endpoint_url :: string
  ro_error_message :: string

definition default_rm_cli :: rm_cli where
  "default_rm_cli = \<lparr>ro_help = False, ro_error = False, ro_recursive = False, ro_force = False,
     ro_quiet = False, ro_verbose = False, ro_batch = False, ro_num_threads = 256,
     ro_s3_url = [], ro_bucket = [], ro_prefix = [], ro_region = [], ro_endpoint_url = [],
     ro_error_message = []\<rparr>"

definition rm_fail :: "rm_cli \<Rightarrow> string \<Rightarrow> rm_cli + (rm_cli \<times> bool)" where
  "rm_fail opts msg = Inl (opts\<lparr>ro_error := True, ro_error_message := msg\<rparr>)"

lemma rm_fail_simps [simp]:
  "rm_fail o1 msg \<noteq> Inr r" "rm_fail o1 msg = Inl o2 \<longleftrightarrow> o2 = o1\<lparr>ro_error := True, ro_error_message := msg\<rparr>"
  by (auto simp: rm_fail_def)

definition rm_positional :: "rm_cli \<Rightarrow> string \<Rightarrow> rm_cli + (rm_cli \<times> bool)" where
  "rm_positional opts arg =
     (if ro_s3_url opts = [] then
        let (src, parse_error) = parse_source arg [] in
        if parse_error \<noteq> [] \<or> fs_type src \<noteq> S3
        then rm_fail (opts\<lparr>ro_s3_url := arg\<rparr>) (''Invalid S3 URL: '' @ arg)
        else Inr (opts\<lparr>ro_s3_url := arg, ro_bucket := fs_bucket src, ro_prefix := fs_path src,
                       ro_region := fs_region src\<rparr>, False)
      else rm_fail opts ''Too many arguments'')"

definition rm_step :: "rm_cli \<Rightarrow> string \<Rightarrow> string option \<Rightarrow> rm_cli + (rm_cli \<times> bool)" where
  "rm_step opts arg nxt =
     (if arg = ''-h'' \<or> arg = ''--help'' then Inr (opts\<lparr>ro_help := True\<rparr>, False)
      else if arg = ''-r'' \<or> arg = ''--recursive'' then Inr (opts\<lparr>ro_recursive := True\<rparr>, False)
      else if arg = ''-f'' \<or> arg = ''--force'' then Inr (opts\<lparr>ro_force := True\<rparr>, False)
      else if arg = ''-q'' \<or> arg = ''--quiet'' then Inr (opts\<lparr>ro_quiet := True\<rparr>, False)
      else if arg = ''-v'' \<or> arg = ''--verbose'' then Inr (opts\<lparr>ro_verbose := True\<rparr>, False)
      else if arg = ''-t'' \<or> arg = ''--threads'' then
        (case nxt of
           None \<Rightarrow> rm_fail opts ''--threads requires a number''
         | Some v \<Rightarrow>
             (case stoi v of
                None \<Rightarrow> rm_fail opts ''--threads requires a valid number''
              | Some n \<Rightarrow>
                  if n < 1 then rm_fail (opts\<lparr>ro_num_threads := n\<rparr>) ''--threads must be at least 1''
                  else Inr (opts\<lparr>ro_num_threads := n\<rparr>, True)))
      else if arg = ''-rf'' \<or> arg = ''-fr''
        then Inr (opts\<lparr>ro_recursive := True, ro_force := True\<rparr>, False)
      else if arg = ''--endpoint-url'' then
        (case nxt of None \<Rightarrow> rm_fail opts ''--endpoint-url requires a URL''
         | Some v \<Rightarrow> Inr (opts\<lparr>ro_endpoint_url := v\<rparr>, True))
      else if arg = ''--batch'' then Inr (opts\<lparr>ro_batch := True\<rparr>, False)
      else if is_option arg then rm_fail opts (''Unknown option: '' @ arg)
      else rm_positional opts arg)"

function rm_loop :: "rm_cli \<Rightarrow> string list \<Rightarrow> rm_cli + rm_cli" where
  "rm_loop opts [] = Inr opts"
| "rm_loop opts (arg # args) =
     (case rm_step opts arg (next_arg args) of
        Inl r \<Rightarrow> Inl r
      | Inr (opts', consumed) \<Rightarrow> rm_loop opts' (if consumed then tl args else args))"
  by pat_completeness auto
termination
  by (relation "measure (\<lambda>(opts, args). length args)") auto

definition parse_rm_args :: "string list \<Rightarrow> rm_cli" where
  "parse_rm_args argv =
     (case rm_loop default_rm_cli (drop 2 argv) of Inl r \<Rightarrow> r | Inr opts \<Rightarrow> opts)"

definition rm_cli_inv :: "rm_cli \<Rightarrow> bool" where
  "rm_cli_inv o1 \<longleftrightarrow> \<not> ro_error o1 \<and> 1 \<le> ro_num_threads o1 \<and> ro_num_threads o1 < 2 ^ 31 \<and>
     (ro_s3_url o1 = [] \<or>
      starts_with (ro_s3_url o1) ''s3://'' \<and> ro_bucket o1 \<noteq> [] \<and> ro_prefix o1 \<noteq> [])"

lemma rm_positional_inv:
  assumes "rm_cli_inv o1" "rm_positional o1 arg = Inr (o2, c)"
  shows "rm_cli_inv o2"
proof -
  obtain src err where p: "parse_source arg [] = (src, err)" by fastforce
  from assms(2) p have ok: "err = []" "fs_type src = S3"
    and o2: "o2 = o1\<lparr>ro_s3_url := arg, ro_bucket := fs_bucket src, ro_prefix := fs_path src,
                     ro_region := fs_region src\<rparr>"
    by (auto simp: rm_positional_def rm_fail_def split: if_splits)
  have "fs_bucket src \<noteq> []" "fs_path src \<noteq> []" "starts_with arg ''s3://''"
    using parse_source_ok_S3 [of arg src] parse_source_type [of arg "[]"] p ok by auto
  with assms(1) show ?thesis by (simp add: rm_cli_inv_def o2)
qed

lemma rm_cli_inv_flags:
  "rm_cli_inv (o1\<lparr>ro_help := b\<rparr>) = rm_cli_inv o1"
  "rm_cli_inv (o1\<lparr>ro_recursive := b\<rparr>) = rm_cli_inv o1"
  "rm_cli_inv (o1\<lparr>ro_force := b\<rparr>) = rm_cli_inv o1"
  "rm_cli_inv (o1\<lparr>ro_quiet := b\<rparr>) = rm_cli_inv o1"
  "rm_cli_inv (o1\<lparr>ro_verbose := b\<rparr>) = rm_cli_inv o1"
  "rm_cli_inv (o1\<lparr>ro_batch := b\<rparr>) = rm_cli_inv o1"
  "rm_cli_inv (o1\<lparr>ro_recursive := b, ro_force := b'\<rparr>) = rm_cli_inv o1"
  "rm_cli_inv (o1\<lparr>ro_endpoint_url := w\<rparr>) = rm_cli_inv o1"
  by (simp_all add: rm_cli_inv_def)

lemma rm_cli_inv_threads:
  assumes "rm_cli_inv o1" "stoi v = Some n" "\<not> n < 1"
  shows "rm_cli_inv (o1\<lparr>ro_num_threads := n\<rparr>)"
  using assms(1,3) stoi_range [OF assms(2)] by (simp add: rm_cli_inv_def)

lemma rm_step_inv:
  assumes "rm_cli_inv o1" "rm_step o1 arg nxt = Inr (o2, c)"
  shows "rm_cli_inv o2"
  using assms(2) [unfolded rm_step_def]
  by (elim dispatch_elims if_keep; simp only: sum.inject sum.distinct prod.inject rm_fail_simps
           rm_positional_inv [OF assms(1)] HOL.simp_thms; elim conjE; hypsubst;
      simp only: rm_cli_inv_flags assms(1) rm_cli_inv_threads [OF assms(1)] HOL.simp_thms)

lemma rm_loop_inv: "rm_cli_inv o1 \<Longrightarrow> rm_loop o1 args = Inr o2 \<Longrightarrow> rm_cli_inv o2"
  by (induction o1 args rule: rm_loop.induct)
     (auto split: sum.splits prod.splits dest: rm_step_inv)

lemma rm_positional_Inl_error: "rm_positional o1 arg = Inl o2 \<Longrightarrow> ro_error o2"
  unfolding rm_positional_def Let_def
  by (cases "parse_source arg []") (simp only: prod.case split: if_split_asm; simp)

lemma rm_step_Inl_error: "rm_step o1 arg nxt = Inl o2 \<Longrightarrow> ro_error o2"
  unfolding rm_step_def
  by (elim dispatch_elims; simp add: rm_positional_Inl_error split: if_split_asm)

lemma rm_loop_Inl_error: "rm_loop o1 args = Inl o2 \<Longrightarrow> ro_error o2"
  by (induction o1 args rule: rm_loop.induct)
     (auto split: sum.splits prod.splits if_splits dest: rm_step_Inl_error)


section \<open>diff\<close>

record diff_cli =
  co_help :: bool
  co_error :: bool
  co_debug :: bool
  co_verbose :: bool
  co_quiet :: bool
  co_allow_unverified_ranges :: bool
  co_ramp_up :: bool
  co_directory_mode :: bool
  co_num_threads :: int
  co_parallel_discovery :: bool
  co_parallel_discovery_workers :: int
  co_output_file :: string
  co_source_a :: file_source
  co_source_b :: file_source
  co_source_profile :: string
  co_dest_profile :: string
  co_endpoint_url :: string
  co_has_source_a :: bool
  co_has_source_b :: bool
  co_error_message :: string

definition default_diff_cli :: diff_cli where
  "default_diff_cli = \<lparr>co_help = False, co_error = False, co_debug = False, co_verbose = False,
     co_quiet = False, co_allow_unverified_ranges = False, co_ramp_up = False,
     co_directory_mode = False, co_num_threads = 1024, co_parallel_discovery = True,
     co_parallel_discovery_workers = 128, co_output_file = [], co_source_a = default_file_source,
     co_source_b = default_file_source, co_source_profile = [], co_dest_profile = [],
     co_endpoint_url = [], co_has_source_a = False, co_has_source_b = False,
     co_error_message = []\<rparr>"

definition diff_fail :: "diff_cli \<Rightarrow> string \<Rightarrow> diff_cli + (diff_cli \<times> bool)" where
  "diff_fail opts msg = Inl (opts\<lparr>co_error := True, co_error_message := msg\<rparr>)"

lemma diff_fail_simps [simp]:
  "diff_fail o1 msg \<noteq> Inr r" "diff_fail o1 msg = Inl o2 \<longleftrightarrow> o2 = o1\<lparr>co_error := True, co_error_message := msg\<rparr>"
  by (auto simp: diff_fail_def)

definition diff_positional :: "diff_cli \<Rightarrow> string \<Rightarrow> diff_cli + (diff_cli \<times> bool)" where
  "diff_positional opts arg =
     (let (source, parse_error) = parse_source arg [] in
      if parse_error \<noteq> [] then diff_fail opts parse_error
      else if \<not> co_has_source_a opts
        then Inr (opts\<lparr>co_source_a := source, co_has_source_a := True\<rparr>, False)
      else if \<not> co_has_source_b opts
        then Inr (opts\<lparr>co_source_b := source, co_has_source_b := True\<rparr>, False)
      else diff_fail opts ''Too many sources specified (expected 2)'')"

definition diff_step :: "diff_cli \<Rightarrow> string \<Rightarrow> string option \<Rightarrow> diff_cli + (diff_cli \<times> bool)" where
  "diff_step opts arg nxt =
     (if arg = ''-h'' \<or> arg = ''--help'' then Inr (opts\<lparr>co_help := True\<rparr>, False)
      else if arg = ''-d'' \<or> arg = ''--debug'' then Inr (opts\<lparr>co_debug := True\<rparr>, False)
      else if arg = ''-t'' \<or> arg = ''--threads'' then
        (case nxt of
           None \<Rightarrow> diff_fail opts ''--threads requires a number argument''
         | Some v \<Rightarrow>
             (case stoi v of
                None \<Rightarrow> diff_fail opts ''--threads requires a valid number''
              | Some n \<Rightarrow>
                  if n < 0 then diff_fail (opts\<lparr>co_num_threads := n\<rparr>) ''--threads must be non-negative''
                  else Inr (opts\<lparr>co_num_threads := n\<rparr>, True)))
      else if arg = ''-r'' \<or> arg = ''--ramp-up'' then Inr (opts\<lparr>co_ramp_up := True\<rparr>, False)
      else if arg = ''--allow-unverified-ranges''
        then Inr (opts\<lparr>co_allow_unverified_ranges := True\<rparr>, False)
      else if arg = ''-D'' \<or> arg = ''--directory'' then Inr (opts\<lparr>co_directory_mode := True\<rparr>, False)
      else if arg = ''-q'' \<or> arg = ''--quiet'' then Inr (opts\<lparr>co_quiet := True\<rparr>, False)
      else if arg = ''-v'' \<or> arg = ''--verbose'' then Inr (opts\<lparr>co_verbose := True\<rparr>, False)
      else if arg = ''-P'' \<or> arg = ''--parallel-discovery''
        then Inr (opts\<lparr>co_parallel_discovery := True\<rparr>, False)
      else if arg = ''--no-parallel-discovery'' then Inr (opts\<lparr>co_parallel_discovery := False\<rparr>, False)
      else if arg = ''--parallel-discovery-workers'' then
        (case nxt of
           None \<Rightarrow> diff_fail opts ''--parallel-discovery-workers requires a number argument''
         | Some v \<Rightarrow>
             (case stoi v of
                None \<Rightarrow> diff_fail opts ''--parallel-discovery-workers requires a valid number''
              | Some n \<Rightarrow>
                  if n < 1 \<or> n > 128
                  then diff_fail (opts\<lparr>co_parallel_discovery_workers := n\<rparr>)
                         ''--parallel-discovery-workers must be 1-128''
                  else Inr (opts\<lparr>co_parallel_discovery_workers := n\<rparr>, True)))
      else if arg = ''-o'' \<or> arg = ''--output'' then
        (case nxt of None \<Rightarrow> diff_fail opts ''--output requires a filename argument''
         | Some v \<Rightarrow> Inr (opts\<lparr>co_output_file := v\<rparr>, True))
      else if arg = ''--source-profile'' then
        (case nxt of None \<Rightarrow> diff_fail opts ''--source-profile requires a profile name''
         | Some v \<Rightarrow> Inr (opts\<lparr>co_source_profile := v\<rparr>, True))
      else if arg = ''--dest-profile'' then
        (case nxt of None \<Rightarrow> diff_fail opts ''--dest-profile requires a profile name''
         | Some v \<Rightarrow> Inr (opts\<lparr>co_dest_profile := v\<rparr>, True))
      else if arg = ''--endpoint-url'' then
        (case nxt of None \<Rightarrow> diff_fail opts ''--endpoint-url requires a URL''
         | Some v \<Rightarrow> Inr (opts\<lparr>co_endpoint_url := v\<rparr>, True))
      else if is_option arg then diff_fail opts (''Unknown option: '' @ arg)
      else diff_positional opts arg)"

function diff_loop :: "diff_cli \<Rightarrow> string list \<Rightarrow> diff_cli + diff_cli" where
  "diff_loop opts [] = Inr opts"
| "diff_loop opts (arg # args) =
     (case diff_step opts arg (next_arg args) of
        Inl r \<Rightarrow> Inl r
      | Inr (opts', consumed) \<Rightarrow> diff_loop opts' (if consumed then tl args else args))"
  by pat_completeness auto
termination
  by (relation "measure (\<lambda>(opts, args). length args)") auto

text \<open>The profiles and the endpoint land on the sides that are on S3 (lines 333 to 347).\<close>

definition set_s3_profile :: "string \<Rightarrow> file_source \<Rightarrow> file_source" where
  "set_s3_profile p s = (if p \<noteq> [] \<and> fs_type s = S3 then s\<lparr>fs_profile := p\<rparr> else s)"

definition diff_finish :: "diff_cli \<Rightarrow> diff_cli" where
  "diff_finish opts = opts\<lparr>
     co_source_a := set_endpoint (co_endpoint_url opts)
       (set_s3_profile (co_source_profile opts) (co_source_a opts)),
     co_source_b := set_endpoint (co_endpoint_url opts)
       (set_s3_profile (co_dest_profile opts) (co_source_b opts))\<rparr>"

definition parse_args :: "string list \<Rightarrow> diff_cli" where
  "parse_args argv =
     (case diff_loop default_diff_cli (drop 1 argv) of Inl r \<Rightarrow> r | Inr opts \<Rightarrow> diff_finish opts)"

text \<open>
  What a command line without an error gives: counts in their ranges, a second source only after a
  first, and every source that was named is one that \<^verbatim>\<open>parse_source\<close> accepted, so an S3 side has a
  bucket and a key.
\<close>

definition source_ok :: "file_source \<Rightarrow> bool" where
  "source_ok s \<longleftrightarrow> (fs_type s = S3 \<longrightarrow> fs_bucket s \<noteq> [] \<and> fs_path s \<noteq> [])"

definition diff_cli_inv :: "diff_cli \<Rightarrow> bool" where
  "diff_cli_inv o1 \<longleftrightarrow>
     \<not> co_error o1 \<and> 0 \<le> co_num_threads o1 \<and> co_num_threads o1 < 2 ^ 31 \<and>
     1 \<le> co_parallel_discovery_workers o1 \<and> co_parallel_discovery_workers o1 \<le> 128 \<and>
     (co_has_source_b o1 \<longrightarrow> co_has_source_a o1) \<and>
     source_ok (co_source_a o1) \<and> source_ok (co_source_b o1)"

lemma source_ok_parse_source: "parse_source arg [] = (src, []) \<Longrightarrow> source_ok src"
  using parse_source_ok_S3 [of arg src] by (auto simp: source_ok_def)

lemma source_ok_setters [simp]:
  "source_ok (set_s3_profile p s) = source_ok s" "source_ok (set_endpoint e s) = source_ok s"
  by (simp_all add: source_ok_def set_s3_profile_def set_endpoint_def)

lemma diff_positional_inv:
  assumes "diff_cli_inv o1" "diff_positional o1 arg = Inr (o2, c)"
  shows "diff_cli_inv o2"
proof -
  obtain src err where p: "parse_source arg [] = (src, err)" by fastforce
  from assms(2) p have ok: "err = []"
    and o2: "o2 = o1\<lparr>co_source_a := src, co_has_source_a := True\<rparr> \<or>
             co_has_source_a o1 \<and> o2 = o1\<lparr>co_source_b := src, co_has_source_b := True\<rparr>"
    by (auto simp: diff_positional_def split: if_splits)
  from p ok have "source_ok src" by (simp add: source_ok_parse_source)
  with assms(1) o2 show ?thesis by (auto simp: diff_cli_inv_def)
qed

lemma diff_cli_inv_flags:
  "diff_cli_inv (o1\<lparr>co_help := b\<rparr>) = diff_cli_inv o1"
  "diff_cli_inv (o1\<lparr>co_debug := b\<rparr>) = diff_cli_inv o1"
  "diff_cli_inv (o1\<lparr>co_verbose := b\<rparr>) = diff_cli_inv o1"
  "diff_cli_inv (o1\<lparr>co_quiet := b\<rparr>) = diff_cli_inv o1"
  "diff_cli_inv (o1\<lparr>co_allow_unverified_ranges := b\<rparr>) = diff_cli_inv o1"
  "diff_cli_inv (o1\<lparr>co_ramp_up := b\<rparr>) = diff_cli_inv o1"
  "diff_cli_inv (o1\<lparr>co_directory_mode := b\<rparr>) = diff_cli_inv o1"
  "diff_cli_inv (o1\<lparr>co_parallel_discovery := b\<rparr>) = diff_cli_inv o1"
  "diff_cli_inv (o1\<lparr>co_output_file := w\<rparr>) = diff_cli_inv o1"
  "diff_cli_inv (o1\<lparr>co_source_profile := w\<rparr>) = diff_cli_inv o1"
  "diff_cli_inv (o1\<lparr>co_dest_profile := w\<rparr>) = diff_cli_inv o1"
  "diff_cli_inv (o1\<lparr>co_endpoint_url := w\<rparr>) = diff_cli_inv o1"
  by (simp_all add: diff_cli_inv_def)

lemma diff_cli_inv_counts:
  "diff_cli_inv o1 \<Longrightarrow> stoi v = Some n \<Longrightarrow> \<not> n < 0 \<Longrightarrow> diff_cli_inv (o1\<lparr>co_num_threads := n\<rparr>)"
  "diff_cli_inv o1 \<Longrightarrow> \<not> (m < 1 \<or> m > 128) \<Longrightarrow> diff_cli_inv (o1\<lparr>co_parallel_discovery_workers := m\<rparr>)"
  using stoi_range [of v n] by (simp_all add: diff_cli_inv_def)

lemma diff_step_inv:
  assumes "diff_cli_inv o1" "diff_step o1 arg nxt = Inr (o2, c)"
  shows "diff_cli_inv o2"
  using assms(2) [unfolded diff_step_def]
  by (elim dispatch_elims if_keep; simp only: sum.inject sum.distinct prod.inject diff_fail_simps
           diff_positional_inv [OF assms(1)] HOL.simp_thms; elim conjE; hypsubst;
      simp only: diff_cli_inv_flags assms(1) diff_cli_inv_counts [OF assms(1)] HOL.simp_thms)

lemma diff_loop_inv: "diff_cli_inv o1 \<Longrightarrow> diff_loop o1 args = Inr o2 \<Longrightarrow> diff_cli_inv o2"
  by (induction o1 args rule: diff_loop.induct)
     (auto split: sum.splits prod.splits dest: diff_step_inv)

lemma diff_positional_Inl_error: "diff_positional o1 arg = Inl o2 \<Longrightarrow> co_error o2"
  unfolding diff_positional_def Let_def
  by (cases "parse_source arg []") (simp only: prod.case split: if_split_asm; simp)

lemma diff_step_Inl_error: "diff_step o1 arg nxt = Inl o2 \<Longrightarrow> co_error o2"
  unfolding diff_step_def
  by (elim dispatch_elims; simp add: diff_positional_Inl_error split: if_split_asm)

lemma diff_loop_Inl_error: "diff_loop o1 args = Inl o2 \<Longrightarrow> co_error o2"
  by (induction o1 args rule: diff_loop.induct)
     (auto split: sum.splits prod.splits if_splits dest: diff_step_Inl_error)

lemma parse_args_consistent: "co_error (parse_args argv) \<or> diff_cli_inv (parse_args argv)"
proof (cases "diff_loop default_diff_cli (drop 1 argv)")
  case (Inl o1)
  then show ?thesis using diff_loop_Inl_error by (auto simp: parse_args_def)
next
  case (Inr o1)
  have "diff_cli_inv default_diff_cli"
    by (simp add: diff_cli_inv_def default_diff_cli_def source_ok_def default_file_source_def)
  with Inr have "diff_cli_inv o1" using diff_loop_inv by blast
  then have "diff_cli_inv (diff_finish o1)" by (simp add: diff_cli_inv_def diff_finish_def)
  with Inr show ?thesis by (simp add: parse_args_def)
qed

end
