(* ===== verification/S3_Interface.thy ===== *)
theory S3_Interface
  imports Core_Types
begin

text \<open>
  \<^verbatim>\<open>IS3Client\<close> of s3_interface.h: the virtual functions of the class as a record of
  state-passing functions over the state \<open>'s\<close> of whatever stands behind the client (the service and
  the adapter).  \<^verbatim>\<open>GetObjectRangeInto\<close> returns the buffer it leaves behind; a
  \<^verbatim>\<open>cancelled\<close> pointer is a \<^typ>\<open>cancel\<close> passed and returned; \<^verbatim>\<open>PutObjectFromFile\<close> is also given
  the file system it opens its path in; progress callbacks and thread counts are left out.

  The laws a caller may rely on are the locales \<open>object_store\<close> and \<open>paged_store\<close>; theory
  \<^verbatim>\<open>S3_Mock\<close> interprets both on the in-memory client of the repository.
\<close>

record 's s3_client =
  GetObjectSize :: "string \<Rightarrow> string \<Rightarrow> 's \<Rightarrow> int \<times> 's"
  CheckObjectPresence :: "string \<Rightarrow> string \<Rightarrow> 's \<Rightarrow> s3_presence \<times> 's"
  GetObjectRange :: "string \<Rightarrow> string \<Rightarrow> int \<Rightarrow> int \<Rightarrow> 's \<Rightarrow> byte list \<times> 's"
  GetObjectRangeInto :: "string \<Rightarrow> string \<Rightarrow> int \<Rightarrow> int \<Rightarrow> 's \<Rightarrow> (bool \<times> byte list) \<times> 's"
  ListObjects :: "string \<Rightarrow> string \<Rightarrow> string \<Rightarrow> string \<Rightarrow> int \<Rightarrow> 's \<Rightarrow> s3_list_result \<times> 's"
  PutObject :: "string \<Rightarrow> string \<Rightarrow> byte list \<Rightarrow> 's \<Rightarrow> bool \<times> 's"
  PutObjectWithCRC32 :: "string \<Rightarrow> string \<Rightarrow> byte list \<Rightarrow> crc32 \<Rightarrow> 's \<Rightarrow> bool \<times> 's"
  PutObjectFromFile ::
    "string \<Rightarrow> string \<Rightarrow> string \<Rightarrow> (string \<Rightarrow> byte list option) \<Rightarrow> 's \<Rightarrow> bool \<times> 's"
  DeleteObject :: "string \<Rightarrow> string \<Rightarrow> 's \<Rightarrow> bool \<times> 's"
  CopyObject ::
    "string \<Rightarrow> string \<Rightarrow> string \<Rightarrow> string \<Rightarrow> int \<Rightarrow> cancel \<Rightarrow> 's \<Rightarrow> (bool \<times> cancel) \<times> 's"
  DeleteObjects :: "string \<Rightarrow> string list \<Rightarrow> 's \<Rightarrow> string list \<times> 's"
  GetChunkCRC32s :: "string \<Rightarrow> string \<Rightarrow> int \<Rightarrow> int list \<Rightarrow> int \<Rightarrow> 's \<Rightarrow> crc32 list \<times> 's"
  CreateMultipartUpload :: "string \<Rightarrow> string \<Rightarrow> 's \<Rightarrow> string \<times> 's"
  UploadPart ::
    "string \<Rightarrow> string \<Rightarrow> string \<Rightarrow> int \<Rightarrow> byte list \<Rightarrow> crc32 \<Rightarrow> 's \<Rightarrow> s3_part_result \<times> 's"
  UploadPartCopy ::
    "string \<Rightarrow> string \<Rightarrow> string \<Rightarrow> int \<Rightarrow> string \<Rightarrow> string \<Rightarrow> int \<Rightarrow> int \<Rightarrow> 's \<Rightarrow> s3_part_result \<times> 's"
  CompleteMultipartUpload ::
    "string \<Rightarrow> string \<Rightarrow> string \<Rightarrow> (int \<times> s3_part_result) list \<Rightarrow> 's \<Rightarrow> bool \<times> 's"
  AbortMultipartUpload :: "string \<Rightarrow> string \<Rightarrow> string \<Rightarrow> 's \<Rightarrow> bool \<times> 's"
  ListMultipartUploads ::
    "string \<Rightarrow> string \<Rightarrow> string \<Rightarrow> string \<Rightarrow> int \<Rightarrow> 's \<Rightarrow> s3_uploads_result \<times> 's"

text \<open>
  \<^verbatim>\<open>CreateS3Client(region, endpoint, max_connections, profile)\<close>, a parameter; \<^term>\<open>None\<close> is the null
  pointer.
\<close>

type_synonym 's client_factory = "string \<Rightarrow> string \<Rightarrow> int \<Rightarrow> string \<Rightarrow> 's s3_client option"

section \<open>What a client may rely on\<close>

text \<open>
  \<open>objects s\<close> is the content of the store: bucket and key to the object's bytes.  The laws are the
  ones S3 documents and s3_interface.h states: reads do not write; a range read is exactly the
  requested bytes or a failure; a reported success is the write asked for; a reported failure may
  have been applied or not, but touches nothing else.
\<close>

type_synonym store_view = "string \<times> string \<rightharpoonup> byte list"

text \<open>A change of the store that only removes objects, and only among those of \<open>P\<close>.\<close>

definition only_removed :: "(string \<times> string \<Rightarrow> bool) \<Rightarrow> store_view \<Rightarrow> store_view \<Rightarrow> bool" where
  "only_removed P v v' \<longleftrightarrow> (\<forall>x. v' x = v x \<or> v' x = None \<and> P x)"

lemma only_removed_refl [simp]: "only_removed P v v"
  by (simp add: only_removed_def)

lemma only_removed_trans [trans]: "only_removed P u v \<Longrightarrow> only_removed P v w \<Longrightarrow> only_removed P u w"
  unfolding only_removed_def by metis

lemma only_removed_mono: "only_removed P v v' \<Longrightarrow> (\<And>x. P x \<Longrightarrow> Q x) \<Longrightarrow> only_removed Q v v'"
  unfolding only_removed_def by blast

lemma only_removed_None: "only_removed P v v' \<Longrightarrow> v x = None \<Longrightarrow> v' x = None"
  unfolding only_removed_def by metis

lemma only_removed_upd [simp]: "P x \<Longrightarrow> only_removed P v (v(x := None))"
  by (simp add: only_removed_def)

definition keys_in :: "string \<Rightarrow> string list \<Rightarrow> string \<times> string \<Rightarrow> bool" where
  "keys_in b ks x \<longleftrightarrow> fst x = b \<and> snd x \<in> set ks"

lemma keys_in_Pair [simp]: "keys_in b ks (b', k) \<longleftrightarrow> b' = b \<and> k \<in> set ks"
  by (simp add: keys_in_def)

lemma keys_in_mono: "keys_in b ks x \<Longrightarrow> set ks \<subseteq> set ks' \<Longrightarrow> keys_in b ks' x"
  by (auto simp: keys_in_def)

text \<open>
  A copy names its source as \<^verbatim>\<open>bucket/key\<close> and may be told the size of the source, which decides how it
  is done and how many bytes are copied.  What it then promises it promises of a bucket name without
  a slash and of a size that is not given, not above the limit of one request, or true.
\<close>

definition copy_request_ok :: "string \<Rightarrow> int \<Rightarrow> byte list option \<Rightarrow> bool" where
  "copy_request_ok b n v \<longleftrightarrow> CHR ''/'' \<notin> set b \<and>
     (case v of None \<Rightarrow> True | Some d \<Rightarrow> n \<le> kMaxSinglePutBytes \<or> n = int (length d))"

lemma copy_request_small: "CHR ''/'' \<notin> set b \<Longrightarrow> n \<le> kMaxSinglePutBytes \<Longrightarrow> copy_request_ok b n v"
  by (simp add: copy_request_ok_def split: option.splits)

locale object_store =
  fixes client :: "'s s3_client" and objects :: "'s \<Rightarrow> store_view"
  assumes size_reads: "GetObjectSize client b k s = (n, s') \<Longrightarrow> objects s' = objects s"
    and size_value: "GetObjectSize client b k s = (n, s') \<Longrightarrow> n \<noteq> -1 \<Longrightarrow>
                       \<exists>d. objects s (b, k) = Some d \<and> n = int (length d)"
    and presence_reads: "CheckObjectPresence client b k s = (q, s') \<Longrightarrow> objects s' = objects s"
    and presence_not_found: "CheckObjectPresence client b k s = (NotFound, s') \<Longrightarrow> objects s (b, k) = None"
    and presence_exists: "CheckObjectPresence client b k s = (Exists, s') \<Longrightarrow> objects s (b, k) \<noteq> None"
    and range_reads: "GetObjectRange client b k i j s = (d, s') \<Longrightarrow> objects s' = objects s"
    and range_value: "GetObjectRange client b k i j s = (d, s') \<Longrightarrow> d \<noteq> [] \<Longrightarrow>
                        \<exists>x. objects s (b, k) = Some x \<and> 0 \<le> i \<and> i \<le> j \<and> j < int (length x) \<and>
                            d = slice (nat i) (nat (j - i + 1)) x"
    and range_into: "GetObjectRangeInto client b k i j s = ((ok, d), s') \<Longrightarrow>
                       \<exists>d'. GetObjectRange client b k i j s = (d', s') \<and> d = d' \<and> (ok \<longleftrightarrow> d' \<noteq> [])"
    and list_keeps: "ListObjects client b p dl t n s = (r, s') \<Longrightarrow> objects s' = objects s"
    and delete_batch: "DeleteObjects client b ks s = (failed, s') \<Longrightarrow>
          set failed \<subseteq> set ks \<and> length failed \<le> length ks \<and>
          (\<forall>k. k \<in> set ks \<longrightarrow> k \<notin> set failed \<longrightarrow> objects s' (b, k) = None) \<and>
          only_removed (keys_in b ks) (objects s) (objects s')"
    and put_ok: "PutObject client b k d s = (True, s') \<Longrightarrow> objects s' = (objects s)((b, k) \<mapsto> d)"
    and put_failed: "PutObject client b k d s = (False, s') \<Longrightarrow>
                       objects s' = objects s \<or> objects s' = (objects s)((b, k) \<mapsto> d)"
    and put_file_ok: "PutObjectFromFile client b k p f s = (True, s') \<Longrightarrow>
                       \<exists>d. f p = Some d \<and> objects s' = (objects s)((b, k) \<mapsto> d)"
    and put_file_failed: "PutObjectFromFile client b k p f s = (False, s') \<Longrightarrow>
                       objects s' = objects s \<or>
                       (\<exists>d. f p = Some d \<and> objects s' = (objects s)((b, k) \<mapsto> d))"
    and delete_ok: "DeleteObject client b k s = (True, s') \<Longrightarrow> objects s' = (objects s)((b, k) := None)"
    and delete_failed: "DeleteObject client b k s = (False, s') \<Longrightarrow>
                       objects s' = objects s \<or> objects s' = (objects s)((b, k) := None)"
    and copy_elsewhere: "CopyObject client b k b' k' n c s = ((ok, c'), s') \<Longrightarrow> x \<noteq> (b', k') \<Longrightarrow>
                       objects s' x = objects s x"
    and copy_ok: "CopyObject client b k b' k' n c s = ((True, c'), s') \<Longrightarrow> copy_request_ok b n (objects s (b, k)) \<Longrightarrow>
                       \<exists>d. objects s (b, k) = Some d \<and> objects s' = (objects s)((b', k') \<mapsto> d)"
    and copy_failed: "CopyObject client b k b' k' n c s = ((False, c'), s') \<Longrightarrow> copy_request_ok b n (objects s (b, k)) \<Longrightarrow>
                       objects s' = objects s \<or>
                       (\<exists>d. objects s (b, k) = Some d \<and> objects s' = (objects s)((b', k') \<mapsto> d))"
begin

lemma range_into_value:
  assumes "GetObjectRangeInto client b k i j s = ((True, d), s')"
  shows "\<exists>x. objects s (b, k) = Some x \<and> 0 \<le> i \<and> i \<le> j \<and> j < int (length x) \<and>
             d = slice (nat i) (nat (j - i + 1)) x"
  using range_into [OF assms] range_value by blast

lemma range_length:
  assumes "GetObjectRange client b k i j s = (d, s')" "d \<noteq> []"
  shows "int (length d) = j - i + 1"
  using range_value [OF assms] by fastforce

lemma put_elsewhere:
  assumes "PutObject client b k d s = (ok, s')" "(b', k') \<noteq> (b, k)"
  shows "objects s' (b', k') = objects s (b', k')"
  using assms put_ok [of b k d s s'] put_failed [of b k d s s'] by (cases ok) auto

lemma delete_elsewhere:
  assumes "DeleteObject client b k s = (ok, s')" "(b', k') \<noteq> (b, k)"
  shows "objects s' (b', k') = objects s (b', k')"
  using assms delete_ok [of b k s s'] delete_failed [of b k s s'] by (cases ok) auto

lemma delete_never_creates:
  assumes "DeleteObject client b k s = (ok, s')" "objects s x = None"
  shows "objects s' x = None"
  using assms delete_ok [of b k s s'] delete_failed [of b k s s'] by (cases ok) auto

end

text \<open>
  Pagination: \<open>remaining s b p t\<close> is what a listing without delimiter still has to return from the
  continuation token \<open>t\<close> on.  A page returns a prefix of it, and a truncated page is not empty and
  carries the token of the rest.
\<close>

locale paged_store =
  fixes client :: "'s s3_client"
    and valid_store :: "'s \<Rightarrow> bool"
    and remaining :: "'s \<Rightarrow> string \<Rightarrow> string \<Rightarrow> string \<Rightarrow> s3_object_info list"
  assumes list_reads: "ListObjects client b p [] t n s = (r, s') \<Longrightarrow> valid_store s \<Longrightarrow>
          valid_store s' \<and> remaining s' = remaining s"
    and list_page: "ListObjects client b p [] t n s = (r, s') \<Longrightarrow> valid_store s \<Longrightarrow> lr_success r \<Longrightarrow> 0 < n \<Longrightarrow>
          remaining s b p t =
            lr_objects r @ (if lr_is_truncated r then remaining s b p (lr_next_token r) else [])"
    and list_truncated: "ListObjects client b p [] t n s = (r, s') \<Longrightarrow> valid_store s \<Longrightarrow> 0 < n \<Longrightarrow>
          lr_is_truncated r \<Longrightarrow> lr_next_token r \<noteq> [] \<and> lr_objects r \<noteq> []"
    and list_last: "ListObjects client b p [] t n s = (r, s') \<Longrightarrow> valid_store s \<Longrightarrow> 0 < n \<Longrightarrow>
          lr_success r \<Longrightarrow> \<not> lr_is_truncated r \<Longrightarrow> lr_next_token r = []"
begin

lemma page_shrinks:
  assumes "ListObjects client b p [] t n s = (r, s')" "valid_store s" "lr_success r" "0 < n"
    and "lr_is_truncated r"
  shows "length (remaining s b p (lr_next_token r)) < length (remaining s b p t)"
  using list_page [OF assms(1-4)] list_truncated [OF assms(1,2,4,5)] assms(5) by simp

end

end
