(* ===== verification/Checksums.thy ===== *)
theory Checksums
  imports Core_Types
begin

unbundle bit_operations_syntax

text \<open>
  crc32_hw.cpp and crc32_chunks.cpp.  The CRC itself is computed by zlib-ng (\<^verbatim>\<open>zng_crc32_z\<close>), which
  is a parameter \<open>z\<close>; what the code relies on is that it chains over concatenation, the locale
  \<open>chaining_crc\<close>.  A file being read is a parameter too: \<open>rd off n\<close> is what \<^verbatim>\<open>pread\<close> of \<open>n\<close> bytes at
  \<open>off\<close> delivers, at most \<open>n\<close> bytes, possibly fewer, and nothing at the end of the file or on an
  error.
\<close>

type_synonym zng_crc = "crc32 \<Rightarrow> byte list \<Rightarrow> crc32"
type_synonym pread = "int \<Rightarrow> int \<Rightarrow> byte list"

definition crc32_hw :: "zng_crc \<Rightarrow> byte list \<Rightarrow> crc32" where
  "crc32_hw z bytes = z 0 bytes"

definition crc32_hw_update :: "zng_crc \<Rightarrow> crc32 \<Rightarrow> byte list \<Rightarrow> crc32" where
  "crc32_hw_update z crc bytes = z crc bytes"

text \<open>The bytes one \<^verbatim>\<open>pread\<close> returns, and the loop that reads a block in full.\<close>

definition pread_at_most :: "pread \<Rightarrow> int \<Rightarrow> int \<Rightarrow> byte list" where
  "pread_at_most rd off n = take (nat n) (rd off n)"

function read_fully :: "pread \<Rightarrow> int \<Rightarrow> int \<Rightarrow> byte list option" where
  "read_fully rd off want =
     (if want \<le> 0 then Some []
      else let b = pread_at_most rd off want in
        if b = [] then None
        else map_option ((@) b) (read_fully rd (off + int (length b)) (want - int (length b))))"
  by pat_completeness auto
termination
proof (relation "measure (\<lambda>(rd, off, want). nat want)", goal_cases)
  case (2 rd off want b)
  then have "0 < length b" by simp
  with 2(1) show ?case by simp
qed simp

declare read_fully.simps [simp del]

definition kBlock :: int where "kBlock = 256 * 1024"

text \<open>The CRC of one chunk, block by block; \<^term>\<open>None\<close> is \<^verbatim>\<open>chunk_failed\<close>.\<close>

function crc_blocks :: "zng_crc \<Rightarrow> pread \<Rightarrow> int \<Rightarrow> int \<Rightarrow> crc32 \<Rightarrow> crc32 option" where
  "crc_blocks z rd off len crc =
     (if len \<le> 0 then Some crc
      else let want = min kBlock len in
        case read_fully rd off want of
          None \<Rightarrow> None
        | Some b \<Rightarrow> crc_blocks z rd (off + want) (len - want) (crc32_hw_update z crc b))"
  by pat_completeness auto
termination
  by (relation "measure (\<lambda>(z, rd, off, len, crc). nat len)") (auto simp: kBlock_def)

declare crc_blocks.simps [simp del]

definition chunk_length :: "int \<Rightarrow> int \<Rightarrow> int \<Rightarrow> int" where
  "chunk_length filesize chunk_size chunk_id =
     (let offset = chunk_id * chunk_size in
      if offset + chunk_size \<le> filesize then chunk_size else filesize - offset)"

definition compute_chunk_crc :: "zng_crc \<Rightarrow> pread \<Rightarrow> int \<Rightarrow> int \<Rightarrow> int \<Rightarrow> crc32 option" where
  "compute_chunk_crc z rd filesize chunk_size chunk_id =
     (let num_chunks = ceil_div filesize chunk_size in
      if chunk_id < 0 \<or> chunk_id \<ge> num_chunks then None
      else let offset = chunk_id * chunk_size;
               len = chunk_length filesize chunk_size chunk_id
           in if len \<le> 0 then None else crc_blocks z rd offset len 0)"

text \<open>
  \<^verbatim>\<open>compute_crc32_chunks_boost_asio\<close>.  \<open>filesize\<close> is what \<^verbatim>\<open>lseek\<close> reports, \<^term>\<open>None\<close> when the file
  cannot be opened or sized.  Each task writes its own slot of the results, so the order in which the
  pool runs them does not matter; the empty list is the failure value.
\<close>

definition all_or_nothing :: "'a option list \<Rightarrow> 'a list" where
  "all_or_nothing rs = (if list_all (\<lambda>r. r \<noteq> None) rs then map the rs else [])"

definition compute_crc32_chunks ::
  "zng_crc \<Rightarrow> pread \<Rightarrow> int option \<Rightarrow> int list \<Rightarrow> int \<Rightarrow> crc32 list" where
  "compute_crc32_chunks z rd filesize chunk_ids chunk_size0 =
     (let chunk_size = (if chunk_size0 \<le> 0 then CHUNK_SIZE else chunk_size0) in
      case filesize of
        None \<Rightarrow> []
      | Some fsize \<Rightarrow>
          if fsize = 0 then []
          else let num_chunks = ceil_div fsize chunk_size;
                   chunks_to_process = (if chunk_ids = [] then [0 .. num_chunks - 1] else chunk_ids)
               in all_or_nothing (map (compute_chunk_crc z rd fsize chunk_size) chunks_to_process))"

section \<open>What the chunk CRCs are\<close>

text \<open>The bytes of a chunk, and the file reads that \<^verbatim>\<open>pread\<close> promises for a file that does not change.\<close>

definition chunk_bytes :: "int \<Rightarrow> byte list \<Rightarrow> int \<Rightarrow> byte list" where
  "chunk_bytes chunk_size content i = slice (nat (i * chunk_size)) (nat chunk_size) content"

definition reads_file :: "pread \<Rightarrow> byte list \<Rightarrow> bool" where
  "reads_file rd content \<longleftrightarrow>
     (\<forall>off n. 0 \<le> off \<longrightarrow> 0 < n \<longrightarrow> off < int (length content) \<longrightarrow>
        rd off n \<noteq> [] \<and> prefix (rd off n) (drop (nat off) content))"

definition pread_of :: "byte list \<Rightarrow> pread" where
  "pread_of content off n = slice (nat off) (nat n) content"

lemma reads_file_pread_of: "reads_file (pread_of content) content"
  by (auto simp: reads_file_def pread_of_def slice_def take_is_prefix)

lemma pread_at_most_prefix:
  assumes "reads_file rd content" "0 \<le> off" "0 < n" "off < int (length content)"
  shows "\<exists>m. 0 < m \<and> m \<le> nat n \<and> m \<le> length content - nat off \<and>
             pread_at_most rd off n = slice (nat off) m content"
proof -
  from assms have ne: "rd off n \<noteq> []" and pre: "prefix (rd off n) (drop (nat off) content)"
    unfolding reads_file_def by auto
  define m where "m = min (nat n) (length (rd off n))"
  from pre have "rd off n = take (length (rd off n)) (drop (nat off) content)"
    by (metis append_eq_conv_conj prefix_def)
  then have "pread_at_most rd off n = slice (nat off) m content"
    unfolding pread_at_most_def m_def slice_def by (metis take_take)
  moreover have "m \<le> length content - nat off"
    using prefix_length_le [OF pre] by (simp add: m_def)
  moreover have "0 < m" using ne assms(3) by (simp add: m_def)
  ultimately show ?thesis using m_def by (intro exI [of _ m]) simp
qed

lemma slice_append: "slice i m xs @ slice (i + m) k xs = slice i (m + k) xs"
  unfolding slice_def by (subst take_add) (simp add: add.commute)

lemma read_fully_ok:
  assumes "reads_file rd content" "0 \<le> off" "off + want \<le> int (length content)"
  shows "read_fully rd off want = Some (slice (nat off) (nat want) content)"
  using assms(2,3)
proof (induction want arbitrary: off rule: measure_induct_rule [of nat])
  case (less want)
  show ?case
  proof (cases "want \<le> 0")
    case True
    then show ?thesis by (simp add: read_fully.simps [of rd off want] slice_def)
  next
    case False
    with less.prems have "0 < want" "off < int (length content)" by linarith+
    with assms(1) less.prems obtain m where m: "0 < m" "m \<le> nat want" "m \<le> length content - nat off"
      and b: "pread_at_most rd off want = slice (nat off) m content"
      using pread_at_most_prefix by meson
    have len: "length (slice (nat off) m content) = m" using m(3) by simp
    have ne: "slice (nat off) m content \<noteq> []" using m(1) len by force
    have "read_fully rd (off + int m) (want - int m) =
          Some (slice (nat (off + int m)) (nat (want - int m)) content)"
      using less.prems m(1) \<open>0 < want\<close> by (intro less.IH) auto
    moreover have "nat (off + int m) = nat off + m" "m + nat (want - int m) = nat want"
      using less.prems m by auto
    ultimately show ?thesis
      using False ne len slice_append [of "nat off" m content "nat (want - int m)"]
      by (simp add: read_fully.simps [of rd off want] b Let_def)
  qed
qed

text \<open>What the code relies on of zlib-ng: feeding it piecewise is feeding it the concatenation.\<close>

locale chaining_crc =
  fixes z :: zng_crc
  assumes chain: "z (z c xs) ys = z c (xs @ ys)"
    and empty: "z c [] = c"
begin

lemma crc_blocks_ok:
  assumes "reads_file rd content" "0 \<le> off" "off + len \<le> int (length content)"
  shows "crc_blocks z rd off len c = Some (z c (slice (nat off) (nat len) content))"
  using assms(2,3)
proof (induction len arbitrary: off c rule: measure_induct_rule [of nat])
  case (less len)
  show ?case
  proof (cases "len \<le> 0")
    case True
    then show ?thesis by (simp add: crc_blocks.simps [of z rd off len] slice_def empty)
  next
    case False
    let ?w = "min kBlock len"
    have w: "0 < ?w" using False by (simp add: kBlock_def)
    have rd: "read_fully rd off ?w = Some (slice (nat off) (nat ?w) content)"
      using less.prems by (intro read_fully_ok [OF assms(1)]) auto
    have "crc_blocks z rd (off + ?w) (len - ?w) c' =
          Some (z c' (slice (nat (off + ?w)) (nat (len - ?w)) content))" for c'
      using less.prems w False by (intro less.IH) auto
    moreover have "nat (off + ?w) = nat off + nat ?w" "nat ?w + nat (len - ?w) = nat len"
      using less.prems w False by auto
    ultimately show ?thesis
      using False rd slice_append [of "nat off" "nat ?w" content "nat (len - ?w)"]
      by (simp add: crc_blocks.simps [of z rd off len] Let_def crc32_hw_update_def chain)
  qed
qed

lemma compute_chunk_crc_ok:
  assumes "reads_file rd content" "0 < cs" "0 \<le> i" "i < ceil_div (int (length content)) cs"
  shows "compute_chunk_crc z rd (int (length content)) cs i = Some (z 0 (chunk_bytes cs content i))"
proof -
  let ?n = "int (length content)"
  have lt: "i * cs < ?n" using assms(2,4) ceil_div_less_iff by blast
  have len: "0 < chunk_length ?n cs i" "i * cs + chunk_length ?n cs i \<le> ?n"
    using lt assms(2) by (auto simp: chunk_length_def Let_def)
  have "slice (nat (i * cs)) (nat (chunk_length ?n cs i)) content = chunk_bytes cs content i"
    using lt assms(2,3) by (auto simp: chunk_length_def chunk_bytes_def slice_def Let_def)
  with len assms(2-4) show ?thesis
    by (simp add: compute_chunk_crc_def Let_def crc_blocks_ok [OF assms(1)])
qed

lemma compute_chunk_crc_bad_id:
  "i < 0 \<or> ceil_div n cs \<le> i \<Longrightarrow> compute_chunk_crc z rd n cs i = None"
  by (auto simp: compute_chunk_crc_def)

end

lemma all_or_nothing_Some [simp]: "all_or_nothing (map (\<lambda>x. Some (f x)) xs) = map f xs"
  by (simp add: all_or_nothing_def list_all_iff comp_def)

lemma all_or_nothing_None: "None \<in> set rs \<Longrightarrow> all_or_nothing rs = []"
  by (auto simp: all_or_nothing_def list_all_iff)

text \<open>
  The checksum zlib-ng documents, IEEE CRC-32 with the reflected polynomial, has the law: it is the
  instance the code runs with.
\<close>

definition crc32_bit :: "crc32 \<Rightarrow> crc32" where
  "crc32_bit r = (if bit r 0 then drop_bit 1 r XOR 0xEDB88320 else drop_bit 1 r)"

definition crc32_byte :: "crc32 \<Rightarrow> byte \<Rightarrow> crc32" where
  "crc32_byte r b = (crc32_bit ^^ 8) (r XOR ucast b)"

definition ieee_crc32 :: zng_crc where
  "ieee_crc32 c xs = NOT (foldl crc32_byte (NOT c) xs)"

interpretation ieee: chaining_crc ieee_crc32
  by unfold_locales (simp_all add: ieee_crc32_def)

lemma compute_crc32_chunks_all:
  assumes "chaining_crc z" "reads_file rd content" "0 < cs" "content \<noteq> []"
    and "list_all (\<lambda>i. 0 \<le> i \<and> i * cs < int (length content)) ids"
  shows "compute_crc32_chunks z rd (Some (int (length content))) ids cs =
         map (\<lambda>i. crc32_hw z (chunk_bytes cs content i))
             (if ids = [] then [0 .. ceil_div (int (length content)) cs - 1] else ids)"
proof -
  let ?n = "int (length content)"
  let ?ids = "if ids = [] then [0 .. ceil_div ?n cs - 1] else ids"
  have "compute_chunk_crc z rd ?n cs i = Some (crc32_hw z (chunk_bytes cs content i))"
    if "i \<in> set ?ids" for i
  proof -
    have "0 \<le> i" "i < ceil_div ?n cs"
      using that assms(5) ceil_div_less_iff [OF assms(3), of i ?n]
      by (auto simp: list_all_iff split: if_splits)
    then show ?thesis
      using chaining_crc.compute_chunk_crc_ok [OF assms(1-3)] by (simp add: crc32_hw_def)
  qed
  then have "map (compute_chunk_crc z rd ?n cs) ?ids =
             map (\<lambda>i. Some (crc32_hw z (chunk_bytes cs content i))) ?ids"
    by (intro map_cong refl)
  then have "all_or_nothing (map (compute_chunk_crc z rd ?n cs) ?ids) =
             map (\<lambda>i. crc32_hw z (chunk_bytes cs content i)) ?ids"
    by (simp only: all_or_nothing_Some)
  with assms(3,4) show ?thesis by (simp add: compute_crc32_chunks_def Let_def split: if_splits)
qed

lemma compute_crc32_chunks_id:
  assumes "chaining_crc z" "reads_file rd content" "0 < cs" "content \<noteq> []"
  shows "compute_crc32_chunks z rd (Some (int (length content))) [] cs =
         map (\<lambda>i. crc32_hw z (chunk_bytes cs content i)) [0 .. ceil_div (int (length content)) cs - 1]"
  using compute_crc32_chunks_all [OF assms, of "[]"] by simp

text \<open>
  for a file that does not change while it is read, however short the individual reads are, the
  chunk checksums are exactly the checksums of the chunks' bytes, in the order the chunks were
  asked for (every chunk when none was named).
\<close>

theorem compute_crc32_chunks_exact:
  assumes "chaining_crc z" "reads_file rd content" "0 < cs" "content \<noteq> []"
    and "list_all (\<lambda>i. 0 \<le> i \<and> i * cs < int (length content)) ids"
  shows "compute_crc32_chunks z rd (Some (int (length content))) ids cs =
         map (\<lambda>i. crc32_hw z (chunk_bytes cs content i))
             (if ids = [] then [0 .. ceil_div (int (length content)) cs - 1] else ids)"
  by (rule compute_crc32_chunks_all [OF assms])

theorem compute_crc32_chunks_exact_witness:
  "compute_crc32_chunks ieee_crc32 (pread_of [1, 2, 3]) (Some (int (length [1, 2, 3 :: byte]))) [1, 0] 2 =
   map (\<lambda>i. crc32_hw ieee_crc32 (chunk_bytes 2 [1, 2, 3] i)) (if [1, 0 :: int] = [] then [0 .. ceil_div (int (length [1, 2, 3 :: byte])) 2 - 1] else [1, 0])"
  by (rule compute_crc32_chunks_exact)
     (simp_all add: ieee.chaining_crc_axioms reads_file_pread_of)

text \<open>
  One chunk that cannot be read, or whose id names no chunk, discards the whole result: the
  caller never sees a fabricated checksum beside real ones.
\<close>

theorem compute_crc32_chunks_no_partial_result:
  "length (compute_crc32_chunks z rd (Some n) ids cs) = 0 \<or>
   (let cs' = if cs \<le> 0 then CHUNK_SIZE else cs;
        ids' = if ids = [] then [0 .. ceil_div n cs' - 1] else ids
    in map Some (compute_crc32_chunks z rd (Some n) ids cs) = map (compute_chunk_crc z rd n cs') ids')"
  by (auto simp: compute_crc32_chunks_def Let_def all_or_nothing_def list_all_iff)

end
