(* ===== verification/S3_Mock.thy ===== *)
theory S3_Mock
  imports S3_Interface Checksums "HOL-Library.AList" "HOL-Library.Product_Lexorder"
begin

text \<open>
  \<^verbatim>\<open>MockS3Client\<close> of s3_mock.h, the repository's in-memory S3: its maps as association lists where
  the code iterates over them and as functions where it only looks keys up.  Its laws are those of
  the locales of theory \<^verbatim>\<open>S3_Interface\<close>, which it interprets.  The concurrency counters and the
  delete hook, which only tests read, are left out, and the clock is a field.
\<close>

datatype mock_method = MGetObjectSize | MCheckObjectPresence | MGetObjectRange | MGetChunkCRC32s
  | MPutObject | MDeleteObject | MCopyObject | MListObjects

fun S3MockMethodToString :: "mock_method \<Rightarrow> string" where
  "S3MockMethodToString MGetObjectSize = ''GetObjectSize''"
| "S3MockMethodToString MCheckObjectPresence = ''CheckObjectPresence''"
| "S3MockMethodToString MGetObjectRange = ''GetObjectRange''"
| "S3MockMethodToString MGetChunkCRC32s = ''GetChunkCRC32s''"
| "S3MockMethodToString MPutObject = ''PutObject''"
| "S3MockMethodToString MDeleteObject = ''DeleteObject''"
| "S3MockMethodToString MCopyObject = ''CopyObject''"
| "S3MockMethodToString MListObjects = ''ListObjects''"

record mock_upload =
  mu_bucket :: string
  mu_key :: string
  mu_initiated :: int
  mu_parts :: "int \<rightharpoonup> byte list"

type_synonym mock_objects = "(string \<times> byte list) list"

record mock =
  mk_buckets :: "(string \<times> mock_objects) list"
  mk_mtimes :: "string \<rightharpoonup> int"
  mk_applies_but_fails :: "string list"
  mk_failures :: "string list"
  mk_transient :: "string \<rightharpoonup> int \<times> bool"
  mk_call_counts :: "string \<Rightarrow> nat"
  mk_uploads :: "(string \<times> mock_upload) list"
  mk_next_upload_id :: nat
  mk_batch_rate_limit :: nat
  mk_delete_rate_limit :: nat
  mk_now :: int

definition empty_mock :: mock where
  "empty_mock = \<lparr>mk_buckets = [], mk_mtimes = Map.empty, mk_applies_but_fails = [], mk_failures = [],
     mk_transient = Map.empty, mk_call_counts = (\<lambda>_. 0), mk_uploads = [], mk_next_upload_id = 1,
     mk_batch_rate_limit = 0, mk_delete_rate_limit = 0, mk_now = 0\<rparr>"

definition object_name :: "string \<Rightarrow> string \<Rightarrow> string" where
  "object_name bucket key = bucket @ ''/'' @ key"

definition failure_key :: "string \<Rightarrow> string \<Rightarrow> mock_method \<Rightarrow> string" where
  "failure_key bucket key m = object_name bucket key @ ''/'' @ S3MockMethodToString m"

section \<open>Error injection\<close>

definition SetFailure :: "string \<Rightarrow> string \<Rightarrow> mock_method \<Rightarrow> mock \<Rightarrow> mock" where
  "SetFailure bucket key m s = s\<lparr>mk_failures := List.insert (failure_key bucket key m) (mk_failures s)\<rparr>"

definition SetTransientFailure ::
  "string \<Rightarrow> string \<Rightarrow> mock_method \<Rightarrow> int \<Rightarrow> bool \<Rightarrow> mock \<Rightarrow> mock" where
  "SetTransientFailure bucket key m fail_count retryable s =
     s\<lparr>mk_transient := (mk_transient s)(failure_key bucket key m \<mapsto> (fail_count, retryable))\<rparr>"

definition ClearFailure :: "string \<Rightarrow> string \<Rightarrow> mock_method \<Rightarrow> mock \<Rightarrow> mock" where
  "ClearFailure bucket key m s =
     s\<lparr>mk_failures := removeAll (failure_key bucket key m) (mk_failures s),
       mk_transient := (mk_transient s)(failure_key bucket key m := None)\<rparr>"

definition ClearAllFailures :: "mock \<Rightarrow> mock" where
  "ClearAllFailures s = s\<lparr>mk_failures := [], mk_transient := Map.empty, mk_call_counts := (\<lambda>_. 0),
                           mk_applies_but_fails := []\<rparr>"

definition SetObjectMtime :: "string \<Rightarrow> string \<Rightarrow> int \<Rightarrow> mock \<Rightarrow> mock" where
  "SetObjectMtime bucket key mtime s =
     s\<lparr>mk_mtimes := (mk_mtimes s)(object_name bucket key \<mapsto> mtime)\<rparr>"

definition SetDeleteAppliesButReportsFailure :: "string \<Rightarrow> string \<Rightarrow> mock \<Rightarrow> mock" where
  "SetDeleteAppliesButReportsFailure bucket key s =
     s\<lparr>mk_applies_but_fails := List.insert (object_name bucket key) (mk_applies_but_fails s)\<rparr>"

definition count_call :: "string \<Rightarrow> mock \<Rightarrow> mock" where
  "count_call k s = s\<lparr>mk_call_counts := (mk_call_counts s)(k := mk_call_counts s k + 1)\<rparr>"

text \<open>A transient failure fails this call and counts down.\<close>

definition transient_failure :: "string \<Rightarrow> mock \<Rightarrow> bool \<times> mock" where
  "transient_failure k s =
     (case mk_transient s k of
        None \<Rightarrow> (False, s)
      | Some (remaining, retryable) \<Rightarrow>
          if remaining > 0
          then (True, s\<lparr>mk_transient := (mk_transient s)(k \<mapsto> (remaining - 1, retryable))\<rparr>)
          else (False, s))"

text \<open>The prologue of most calls: count the call, then a permanent, then a transient failure.\<close>

definition injected_failure :: "string \<Rightarrow> mock \<Rightarrow> bool \<times> mock" where
  "injected_failure k s =
     (let s = count_call k s in
      if List.member (mk_failures s) k then (True, s) else transient_failure k s)"

section \<open>Objects\<close>

definition lookup_object :: "mock \<Rightarrow> string \<Rightarrow> string \<Rightarrow> byte list option" where
  "lookup_object s bucket key =
     (case map_of (mk_buckets s) bucket of None \<Rightarrow> None | Some objs \<Rightarrow> map_of objs key)"

definition store_object :: "string \<Rightarrow> string \<Rightarrow> byte list \<Rightarrow> mock \<Rightarrow> mock" where
  "store_object bucket key bytes s =
     (let objs = (case map_of (mk_buckets s) bucket of None \<Rightarrow> [] | Some objs \<Rightarrow> objs) in
      s\<lparr>mk_buckets := AList.update bucket (AList.update key bytes objs) (mk_buckets s),
        mk_mtimes := (mk_mtimes s)(object_name bucket key \<mapsto> mk_now s)\<rparr>)"

definition erase_object :: "string \<Rightarrow> string \<Rightarrow> mock \<Rightarrow> mock" where
  "erase_object bucket key s =
     (case map_of (mk_buckets s) bucket of
        None \<Rightarrow> s
      | Some objs \<Rightarrow> s\<lparr>mk_buckets := AList.update bucket (AList.delete key objs) (mk_buckets s)\<rparr>)"

definition mock_GetObjectSize :: "string \<Rightarrow> string \<Rightarrow> mock \<Rightarrow> int \<times> mock" where
  "mock_GetObjectSize bucket key s =
     (let (fails, s) = injected_failure (failure_key bucket key MGetObjectSize) s in
      if fails then (-1, s)
      else case map_of (mk_buckets s) bucket of
             None \<Rightarrow> (-1, s)
           | Some objs \<Rightarrow> (case map_of objs key of None \<Rightarrow> (-1, s) | Some d \<Rightarrow> (int (length d), s)))"

definition mock_CheckObjectPresence :: "string \<Rightarrow> string \<Rightarrow> mock \<Rightarrow> s3_presence \<times> mock" where
  "mock_CheckObjectPresence bucket key s =
     (let own_key = failure_key bucket key MCheckObjectPresence;
          s = count_call own_key s in
      if List.member (mk_failures s) own_key then (Unknown, s)
      else let (fails, s) = transient_failure own_key s in
        if fails then (Unknown, s)
        else if List.member (mk_failures s) (failure_key bucket key MGetObjectSize) then (Unknown, s)
        else case map_of (mk_buckets s) bucket of
               None \<Rightarrow> (Unknown, s)
             | Some objs \<Rightarrow> (case map_of objs key of None \<Rightarrow> (NotFound, s) | Some _ \<Rightarrow> (Exists, s)))"

definition mock_GetObjectRange :: "string \<Rightarrow> string \<Rightarrow> int \<Rightarrow> int \<Rightarrow> mock \<Rightarrow> byte list \<times> mock" where
  "mock_GetObjectRange bucket key start end1 s =
     (let (fails, s) = injected_failure (failure_key bucket key MGetObjectRange) s in
      if fails then ([], s)
      else case map_of (mk_buckets s) bucket of
             None \<Rightarrow> ([], s)
           | Some objs \<Rightarrow>
               (case map_of objs key of
                  None \<Rightarrow> ([], s)
                | Some d \<Rightarrow>
                    if start < 0 \<or> end1 < start \<or> end1 \<ge> int (length d) then ([], s)
                    else (slice (nat start) (nat (end1 - start + 1)) d, s)))"

definition mock_GetObjectRangeInto ::
  "string \<Rightarrow> string \<Rightarrow> int \<Rightarrow> int \<Rightarrow> mock \<Rightarrow> (bool \<times> byte list) \<times> mock" where
  "mock_GetObjectRangeInto bucket key start end1 s =
     (let (d, s) = mock_GetObjectRange bucket key start end1 s in
      if d = [] then ((False, []), s) else ((True, d), s))"

definition mock_PutObject :: "string \<Rightarrow> string \<Rightarrow> byte list \<Rightarrow> mock \<Rightarrow> bool \<times> mock" where
  "mock_PutObject bucket key bytes s =
     (let (fails, s) = injected_failure (failure_key bucket key MPutObject) s in
      if fails then (False, s)
      else if map_of (mk_buckets s) bucket = None then (False, s)
      else (True, store_object bucket key bytes s))"

definition mock_PutObjectWithCRC32 ::
  "string \<Rightarrow> string \<Rightarrow> byte list \<Rightarrow> crc32 \<Rightarrow> mock \<Rightarrow> bool \<times> mock" where
  "mock_PutObjectWithCRC32 bucket key bytes crc s = mock_PutObject bucket key bytes s"

definition mock_PutObjectFromFile ::
  "string \<Rightarrow> string \<Rightarrow> string \<Rightarrow> (string \<Rightarrow> byte list option) \<Rightarrow> mock \<Rightarrow> bool \<times> mock" where
  "mock_PutObjectFromFile bucket key file_path file s =
     (case file file_path of
        None \<Rightarrow> (False, s)
      | Some bytes \<Rightarrow>
          if int (length bytes) > kMaxSinglePutBytes then (False, s)
          else mock_PutObject bucket key bytes s)"

definition mock_DeleteObject :: "string \<Rightarrow> string \<Rightarrow> mock \<Rightarrow> bool \<times> mock" where
  "mock_DeleteObject bucket key s =
     (let k = failure_key bucket key MDeleteObject;
          s = count_call k s in
      if List.member (mk_applies_but_fails s) (object_name bucket key) then
        (False, (erase_object bucket key s)
                  \<lparr>mk_mtimes := (mk_mtimes s)(object_name bucket key := None)\<rparr>)
      else if mk_delete_rate_limit s > 0 then
        (False, s\<lparr>mk_delete_rate_limit := mk_delete_rate_limit s - 1\<rparr>)
      else if List.member (mk_failures s) k then (False, s)
      else let (fails, s) = transient_failure k s in
        if fails then (False, s)
        else case map_of (mk_buckets s) bucket of
               None \<Rightarrow> (False, s)
             | Some _ \<Rightarrow> (True, erase_object bucket key s))"

definition mock_CopyObject ::
  "string \<Rightarrow> string \<Rightarrow> string \<Rightarrow> string \<Rightarrow> int \<Rightarrow> cancel \<Rightarrow> mock \<Rightarrow> (bool \<times> cancel) \<times> mock" where
  "mock_CopyObject source_bucket source_key dest_bucket dest_key src_size cancelled s =
     (let (stop, cancelled) = poll cancelled in
      if stop then ((False, cancelled), s)
      else let (fails, s) = injected_failure (failure_key dest_bucket dest_key MCopyObject) s in
        if fails then ((False, cancelled), s)
        else case map_of (mk_buckets s) source_bucket of
               None \<Rightarrow> ((False, cancelled), s)
             | Some objs \<Rightarrow>
                 (case map_of objs source_key of
                    None \<Rightarrow> ((False, cancelled), s)
                  | Some d \<Rightarrow>
                      if map_of (mk_buckets s) dest_bucket = None then ((False, cancelled), s)
                      else ((True, cancelled), store_object dest_bucket dest_key d s)))"

text \<open>One key of \<^verbatim>\<open>DeleteObjects\<close>, then the call; \<^verbatim>\<open>bucket_it\<close> is valid in the loop.\<close>

definition mock_delete_one :: "string \<Rightarrow> string \<Rightarrow> mock \<Rightarrow> bool \<times> mock" where
  "mock_delete_one bucket key s =
     (let k = failure_key bucket key MDeleteObject in
      if List.member (mk_applies_but_fails s) (object_name bucket key) then
        (False, (erase_object bucket key s)
                  \<lparr>mk_mtimes := (mk_mtimes s)(object_name bucket key := None)\<rparr>)
      else if List.member (mk_failures s) k then (False, s)
      else let (fails, s) = transient_failure k s in
        if fails then (False, s) else (True, erase_object bucket key s))"

fun mock_delete_loop :: "string \<Rightarrow> string list \<Rightarrow> mock \<Rightarrow> string list \<times> mock" where
  "mock_delete_loop bucket [] s = ([], s)"
| "mock_delete_loop bucket (key # keys) s =
     (let (ok, s) = mock_delete_one bucket key s;
          (failed, s) = mock_delete_loop bucket keys s
      in (if ok then failed else key # failed, s))"

definition mock_DeleteObjects :: "string \<Rightarrow> string list \<Rightarrow> mock \<Rightarrow> string list \<times> mock" where
  "mock_DeleteObjects bucket keys s =
     (if mk_batch_rate_limit s > 0
      then (keys, s\<lparr>mk_batch_rate_limit := mk_batch_rate_limit s - 1\<rparr>)
      else if map_of (mk_buckets s) bucket = None then (keys, s)
      else mock_delete_loop bucket keys s)"

definition mock_CreateBucket :: "string \<Rightarrow> mock \<Rightarrow> bool \<times> mock" where
  "mock_CreateBucket bucket s =
     (True, case map_of (mk_buckets s) bucket of
              None \<Rightarrow> s\<lparr>mk_buckets := AList.update bucket [] (mk_buckets s)\<rparr> | Some _ \<Rightarrow> s)"

section \<open>Listing\<close>

definition token_prefix :: string where "token_prefix = ''mock_token:''"

definition get_mtime_unlocked :: "mock \<Rightarrow> string \<Rightarrow> string \<Rightarrow> int" where
  "get_mtime_unlocked s bucket key =
     (case mk_mtimes s (object_name bucket key) of None \<Rightarrow> 0 | Some t \<Rightarrow> t)"

definition object_info :: "mock \<Rightarrow> string \<Rightarrow> string \<times> byte list \<Rightarrow> s3_object_info" where
  "object_info s bucket = (\<lambda>(key, d).
     \<lparr>oi_key = key, oi_size = int (length d), oi_last_modified = get_mtime_unlocked s bucket key\<rparr>)"

text \<open>
  The loop over the sorted keys.  Its variables are \<^verbatim>\<open>past_token\<close>, \<^verbatim>\<open>prefixes_seen\<close> (the common
  prefixes so far), \<^verbatim>\<open>count\<close> and the result.
\<close>

fun list_loop ::
  "(string \<Rightarrow> s3_object_info) \<Rightarrow> string \<Rightarrow> string \<Rightarrow> string \<Rightarrow> int \<Rightarrow> string list \<Rightarrow> bool \<Rightarrow> int \<Rightarrow>
   s3_list_result \<Rightarrow> s3_list_result" where
  "list_loop info pre delimiter start_after max_keys [] past_token count1 r = r"
| "list_loop info pre delimiter start_after max_keys (key # keys) past_token count1 r =
     (let continue = list_loop info pre delimiter start_after max_keys keys;
          past_token' = (past_token \<or> start_after < key) in
      if \<not> past_token' then continue False count1 r
      else if pre \<noteq> [] \<and> \<not> starts_with key pre then continue True count1 r
      else case (if delimiter \<noteq> [] then find_str delimiter (drop (length pre) key) else None) of
        Some i \<Rightarrow>
          (let common_prefix = take (length pre + i + length delimiter) key in
           if List.member (lr_common_prefixes r) common_prefix then continue True count1 r
           else continue True count1
                  (r\<lparr>lr_common_prefixes := lr_common_prefixes r @ [common_prefix]\<rparr>))
      | None \<Rightarrow>
          if count1 \<ge> max_keys
          then r\<lparr>lr_is_truncated := True, lr_next_token := token_prefix @ oi_key (last (lr_objects r))\<rparr>
          else continue True (count1 + 1) (r\<lparr>lr_objects := lr_objects r @ [info key]\<rparr>))"

definition mock_ListObjects ::
  "string \<Rightarrow> string \<Rightarrow> string \<Rightarrow> string \<Rightarrow> int \<Rightarrow> mock \<Rightarrow> s3_list_result \<times> mock" where
  "mock_ListObjects bucket pre delimiter token max_keys s =
     (let failed = (\<lambda>msg. (empty_list_result\<lparr>lr_error := msg\<rparr>, s)) in
      if List.member (mk_failures s) (failure_key bucket pre MListObjects)
        then failed ''Injected ListObjects failure''
      else if max_keys \<le> 0 then failed ''MaxKeys must be positive''
      else case map_of (mk_buckets s) bucket of
        None \<Rightarrow> failed ''Bucket not found''
      | Some objs \<Rightarrow>
          if token \<noteq> [] \<and> \<not> starts_with token token_prefix then failed ''Invalid continuation token''
          else let start_after = (if token = [] then [] else drop (length token_prefix) token);
                   sorted_keys = sort (map fst objs);
                   r = list_loop (\<lambda>k. object_info s bucket (k, the (map_of objs k))) pre delimiter
                         start_after max_keys sorted_keys (start_after = []) 0 empty_list_result
               in (r\<lparr>lr_success := True\<rparr>, s))"

section \<open>Multipart uploads and chunk checksums\<close>

text \<open>
  \<^verbatim>\<open>base64_crc32_impl\<close>: the four bytes of the CRC, big-endian, in base 64 (the SDK's
  \<^verbatim>\<open>HashingUtils::Base64Encode\<close>, a parameter).
\<close>

definition base64_crc32 :: "zng_crc \<Rightarrow> (byte list \<Rightarrow> string) \<Rightarrow> byte list \<Rightarrow> string" where
  "base64_crc32 z base64 d =
     (let crc = crc32_hw z d in
      base64 [ucast (drop_bit 24 crc), ucast (drop_bit 16 crc), ucast (drop_bit 8 crc), ucast crc])"

definition mock_CreateMultipartUpload :: "string \<Rightarrow> string \<Rightarrow> mock \<Rightarrow> string \<times> mock" where
  "mock_CreateMultipartUpload bucket key s =
     (if map_of (mk_buckets s) bucket = None then ([], s)
      else let upload_id = ''mock-upload-'' @ show_nat (mk_next_upload_id s);
               st = \<lparr>mu_bucket = bucket, mu_key = key, mu_initiated = mk_now s, mu_parts = Map.empty\<rparr>
           in (upload_id, s\<lparr>mk_next_upload_id := mk_next_upload_id s + 1,
                            mk_uploads := AList.update upload_id st (mk_uploads s)\<rparr>))"

definition SetUploadInitiatedTime :: "string \<Rightarrow> int \<Rightarrow> mock \<Rightarrow> mock" where
  "SetUploadInitiatedTime upload_id t s =
     (case map_of (mk_uploads s) upload_id of
        None \<Rightarrow> s
      | Some u \<Rightarrow> s\<lparr>mk_uploads := AList.update upload_id (u\<lparr>mu_initiated := t\<rparr>) (mk_uploads s)\<rparr>)"

text \<open>The upload with an id, if it is an upload of this bucket and key.\<close>

definition upload_of :: "string \<Rightarrow> string \<Rightarrow> string \<Rightarrow> mock \<Rightarrow> mock_upload option" where
  "upload_of bucket key upload_id s =
     (case map_of (mk_uploads s) upload_id of
        None \<Rightarrow> None
      | Some u \<Rightarrow> if mu_bucket u \<noteq> bucket \<or> mu_key u \<noteq> key then None else Some u)"

definition store_part :: "string \<Rightarrow> mock_upload \<Rightarrow> int \<Rightarrow> byte list \<Rightarrow> mock \<Rightarrow> mock" where
  "store_part upload_id u part_number d s =
     s\<lparr>mk_uploads := AList.update upload_id (u\<lparr>mu_parts := (mu_parts u)(part_number \<mapsto> d)\<rparr>) (mk_uploads s)\<rparr>"

definition mock_UploadPart ::
  "zng_crc \<Rightarrow> (byte list \<Rightarrow> string) \<Rightarrow> string \<Rightarrow> string \<Rightarrow> string \<Rightarrow> int \<Rightarrow> byte list \<Rightarrow> crc32 \<Rightarrow> mock \<Rightarrow>
   s3_part_result \<times> mock" where
  "mock_UploadPart z base64 bucket key upload_id part_number d crc s =
     (case upload_of bucket key upload_id s of
        None \<Rightarrow> (no_part, s)
      | Some u \<Rightarrow> (\<lparr>pr_etag = [CHR 0x22] @ ''mock-etag-part-'' @ show_int part_number @ [CHR 0x22],
                    pr_checksum = base64_crc32 z base64 d\<rparr>,
                   store_part upload_id u part_number d s))"

definition mock_UploadPartCopy ::
  "zng_crc \<Rightarrow> (byte list \<Rightarrow> string) \<Rightarrow> string \<Rightarrow> string \<Rightarrow> string \<Rightarrow> int \<Rightarrow> string \<Rightarrow> string \<Rightarrow> int \<Rightarrow> int \<Rightarrow>
   mock \<Rightarrow> s3_part_result \<times> mock" where
  "mock_UploadPartCopy z base64 bucket key upload_id part_number source_bucket source_key
       start_byte end_byte s =
     (case upload_of bucket key upload_id s of
        None \<Rightarrow> (no_part, s)
      | Some u \<Rightarrow>
          (case lookup_object s source_bucket source_key of
             None \<Rightarrow> (no_part, s)
           | Some src \<Rightarrow>
               if start_byte < 0 \<or> end_byte \<ge> int (length src) \<or> start_byte > end_byte then (no_part, s)
               else let part = slice (nat start_byte) (nat (end_byte - start_byte + 1)) src
                    in (\<lparr>pr_etag = [CHR 0x22] @ ''mock-etag-copy-part-'' @ show_int part_number @ [CHR 0x22],
                         pr_checksum = base64_crc32 z base64 part\<rparr>,
                        store_part upload_id u part_number part s)))"

text \<open>The bytes of the completed object, part by part; \<^term>\<open>None\<close> when a part is refused.\<close>

fun assemble ::
  "(byte list \<Rightarrow> string) \<Rightarrow> (int \<rightharpoonup> byte list) \<Rightarrow> (int \<times> s3_part_result) list \<Rightarrow> byte list option" where
  "assemble checksum stored [] = Some []"
| "assemble checksum stored ((part_num, r) # parts) =
     (case stored part_num of
        None \<Rightarrow> None
      | Some d \<Rightarrow>
          if pr_checksum r = [] then None
          else if pr_checksum r \<noteq> checksum d then None
          else map_option ((@) d) (assemble checksum stored parts))"

definition mock_CompleteMultipartUpload ::
  "zng_crc \<Rightarrow> (byte list \<Rightarrow> string) \<Rightarrow> string \<Rightarrow> string \<Rightarrow> string \<Rightarrow> (int \<times> s3_part_result) list \<Rightarrow> mock \<Rightarrow>
   bool \<times> mock" where
  "mock_CompleteMultipartUpload z base64 bucket key upload_id parts s =
     (case upload_of bucket key upload_id s of
        None \<Rightarrow> (False, s)
      | Some u \<Rightarrow>
          (case assemble (base64_crc32 z base64) (mu_parts u) parts of
             None \<Rightarrow> (False, s)
           | Some complete_data \<Rightarrow>
               (True, (store_object bucket key complete_data s)
                        \<lparr>mk_uploads := AList.delete upload_id (mk_uploads s)\<rparr>)))"

definition mock_AbortMultipartUpload :: "string \<Rightarrow> string \<Rightarrow> string \<Rightarrow> mock \<Rightarrow> bool \<times> mock" where
  "mock_AbortMultipartUpload bucket key upload_id s =
     (True, s\<lparr>mk_uploads := AList.delete upload_id (mk_uploads s)\<rparr>)"

definition upload_matches ::
  "string \<Rightarrow> string \<Rightarrow> string \<Rightarrow> string \<Rightarrow> string \<times> mock_upload \<Rightarrow> bool" where
  "upload_matches bucket pre key_marker upload_id_marker = (\<lambda>(upload_id, u).
     if mu_bucket u \<noteq> bucket then False
     else if pre \<noteq> [] \<and> \<not> starts_with (mu_key u) pre then False
     else if key_marker \<noteq> [] \<and> mu_key u < key_marker then False
     else if key_marker \<noteq> [] \<and> mu_key u = key_marker \<and> upload_id_marker \<noteq> [] \<and>
             upload_id \<le> upload_id_marker then False
     else True)"

definition mock_ListMultipartUploads ::
  "string \<Rightarrow> string \<Rightarrow> string \<Rightarrow> string \<Rightarrow> int \<Rightarrow> mock \<Rightarrow> s3_uploads_result \<times> mock" where
  "mock_ListMultipartUploads bucket pre key_marker upload_id_marker max_uploads s =
     (if map_of (mk_buckets s) bucket = None
      then (empty_uploads_result\<lparr>ur_error := ''Bucket not found: '' @ bucket\<rparr>, s)
      else let found = map (\<lambda>(upload_id, u). \<lparr>ui_key = mu_key u, ui_upload_id = upload_id,
                                               ui_initiated = mu_initiated u\<rparr>)
                         (filter (upload_matches bucket pre key_marker upload_id_marker) (mk_uploads s));
               matching = sort_key (\<lambda>u. (ui_key u, ui_upload_id u)) found
           in if int (length matching) > max_uploads
              then let page = take (nat max_uploads) matching
                   in (empty_uploads_result
                         \<lparr>ur_uploads := page, ur_is_truncated := True, ur_success := True,
                          ur_next_key_marker := ui_key (last page),
                          ur_next_upload_id_marker := ui_upload_id (last page)\<rparr>, s)
              else (empty_uploads_result\<lparr>ur_uploads := matching, ur_success := True\<rparr>, s))"

definition mock_GetChunkCRC32s ::
  "zng_crc \<Rightarrow> string \<Rightarrow> string \<Rightarrow> int \<Rightarrow> int list \<Rightarrow> int \<Rightarrow> mock \<Rightarrow> crc32 list \<times> mock" where
  "mock_GetChunkCRC32s z bucket key file_size chunk_ids chunk_size0 s =
     (if List.member (mk_failures s) (failure_key bucket key MGetChunkCRC32s) then ([], s)
      else case lookup_object s bucket key of
        None \<Rightarrow> ([], s)
      | Some d \<Rightarrow>
          (let actual_size = int (length d) in
           if file_size \<noteq> actual_size then ([], s)
           else let chunk_size = (if chunk_size0 \<le> 0 then CHUNK_SIZE else chunk_size0);
                    num_chunks = ceil_div actual_size chunk_size;
                    ids = (if chunk_ids = [] then [0 .. num_chunks - 1] else chunk_ids)
                in if chunk_ids \<noteq> [] \<and> list_ex (\<lambda>i. i < 0) chunk_ids then ([], s)
                   else if list_ex (\<lambda>i. i \<ge> num_chunks) ids then ([], s)
                   else (map (\<lambda>i. let start = i * chunk_size;
                                      len = min (start + chunk_size) actual_size - start
                                  in crc32_hw z (slice (nat start) (nat len) d)) ids, s)))"

definition mock_client :: "zng_crc \<Rightarrow> (byte list \<Rightarrow> string) \<Rightarrow> mock s3_client" where
  "mock_client z base64 = \<lparr>
     GetObjectSize = mock_GetObjectSize, CheckObjectPresence = mock_CheckObjectPresence,
     GetObjectRange = mock_GetObjectRange, GetObjectRangeInto = mock_GetObjectRangeInto,
     ListObjects = mock_ListObjects, PutObject = mock_PutObject,
     PutObjectWithCRC32 = mock_PutObjectWithCRC32, PutObjectFromFile = mock_PutObjectFromFile,
     DeleteObject = mock_DeleteObject, CopyObject = mock_CopyObject,
     DeleteObjects = mock_DeleteObjects, GetChunkCRC32s = mock_GetChunkCRC32s z,
     CreateMultipartUpload = mock_CreateMultipartUpload, UploadPart = mock_UploadPart z base64,
     UploadPartCopy = mock_UploadPartCopy z base64,
     CompleteMultipartUpload = mock_CompleteMultipartUpload z base64,
     AbortMultipartUpload = mock_AbortMultipartUpload,
     ListMultipartUploads = mock_ListMultipartUploads\<rparr>"

lemma mock_client_sel [simp]:
  "GetObjectSize (mock_client z base64) = mock_GetObjectSize"
  "CheckObjectPresence (mock_client z base64) = mock_CheckObjectPresence"
  "GetObjectRange (mock_client z base64) = mock_GetObjectRange"
  "GetObjectRangeInto (mock_client z base64) = mock_GetObjectRangeInto"
  "ListObjects (mock_client z base64) = mock_ListObjects"
  "PutObject (mock_client z base64) = mock_PutObject"
  "PutObjectWithCRC32 (mock_client z base64) = mock_PutObjectWithCRC32"
  "PutObjectFromFile (mock_client z base64) = mock_PutObjectFromFile"
  "DeleteObject (mock_client z base64) = mock_DeleteObject"
  "CopyObject (mock_client z base64) = mock_CopyObject"
  "DeleteObjects (mock_client z base64) = mock_DeleteObjects"
  "CreateMultipartUpload (mock_client z base64) = mock_CreateMultipartUpload"
  "AbortMultipartUpload (mock_client z base64) = mock_AbortMultipartUpload"
  "ListMultipartUploads (mock_client z base64) = mock_ListMultipartUploads"
  "UploadPart (mock_client z base64) = mock_UploadPart z base64"
  "UploadPartCopy (mock_client z base64) = mock_UploadPartCopy z base64"
  "CompleteMultipartUpload (mock_client z base64) = mock_CompleteMultipartUpload z base64"
  "GetChunkCRC32s (mock_client z base64) = mock_GetChunkCRC32s z"
  by (simp_all add: mock_client_def)

section \<open>The laws\<close>

definition mock_objects_view :: "mock \<Rightarrow> store_view" where
  "mock_objects_view s = (\<lambda>(b, k). lookup_object s b k)"

lemma mock_view_buckets:
  "mk_buckets s' = mk_buckets s \<Longrightarrow> mock_objects_view s' = mock_objects_view s"
  by (simp add: mock_objects_view_def lookup_object_def fun_eq_iff)

lemma buckets_count_call [simp]: "mk_buckets (count_call k s) = mk_buckets s"
  by (simp add: count_call_def)

lemma buckets_transient_failure: "transient_failure k s = (f, s') \<Longrightarrow> mk_buckets s' = mk_buckets s"
  by (auto simp: transient_failure_def split: option.splits prod.splits if_splits)

lemma buckets_injected_failure: "injected_failure k s = (f, s') \<Longrightarrow> mk_buckets s' = mk_buckets s"
  by (auto simp: injected_failure_def Let_def dest: buckets_transient_failure split: if_splits)

lemma view_store_object:
  "mock_objects_view (store_object b k d s) = (mock_objects_view s)((b, k) \<mapsto> d)"
  by (auto simp: mock_objects_view_def lookup_object_def store_object_def Let_def fun_eq_iff
        update_conv' split: option.splits)

lemma view_erase_object:
  "mock_objects_view (erase_object b k s) = (mock_objects_view s)((b, k) := None)"
  by (auto simp: mock_objects_view_def lookup_object_def erase_object_def fun_eq_iff
        update_conv' delete_conv' split: option.splits)

lemma view_erase_object_mtimes:
  "mock_objects_view ((erase_object b k s)\<lparr>mk_mtimes := m\<rparr>) = (mock_objects_view s)((b, k) := None)"
  using view_erase_object [of b k s] mock_view_buckets [of "(erase_object b k s)\<lparr>mk_mtimes := m\<rparr>" "erase_object b k s"]
  by simp

lemma view_lookup: "mock_objects_view s (b, k) = lookup_object s b k"
  by (simp add: mock_objects_view_def)

lemmas injected_view = buckets_injected_failure [THEN mock_view_buckets]
lemmas transient_view = buckets_transient_failure [THEN mock_view_buckets]

lemma mock_size_law:
  assumes "mock_GetObjectSize b k s = (n, s')"
  shows "mock_objects_view s' = mock_objects_view s \<and>
         (n \<noteq> -1 \<longrightarrow> (\<exists>d. mock_objects_view s (b, k) = Some d \<and> n = int (length d)))"
proof -
  obtain f s1 where i: "injected_failure (failure_key b k MGetObjectSize) s = (f, s1)" by fastforce
  note v = injected_view [OF i]
  from assms show ?thesis
    by (simp add: mock_GetObjectSize_def i v [symmetric] view_lookup lookup_object_def
          split: if_splits option.splits)
qed

lemma mock_presence_law:
  assumes "mock_CheckObjectPresence b k s = (q, s')"
  shows "mock_objects_view s' = mock_objects_view s \<and>
         (q = NotFound \<longrightarrow> mock_objects_view s (b, k) = None) \<and>
         (q = Exists \<longrightarrow> mock_objects_view s (b, k) \<noteq> None)"
proof -
  obtain f s1 where t: "transient_failure (failure_key b k MCheckObjectPresence)
                          (count_call (failure_key b k MCheckObjectPresence) s) = (f, s1)" by fastforce
  have v: "mock_objects_view s1 = mock_objects_view s"
    using transient_view [OF t] mock_view_buckets [OF buckets_count_call] by simp
  have "q = Unknown \<and> mock_objects_view s' = mock_objects_view s \<or>
        s' = s1 \<and> (q = NotFound \<and> lookup_object s1 b k = None \<or> q = Exists \<and> lookup_object s1 b k \<noteq> None)"
    using assms v mock_view_buckets [OF buckets_count_call, of "failure_key b k MCheckObjectPresence" s]
    by (auto simp: mock_CheckObjectPresence_def Let_def t lookup_object_def split: if_splits option.splits)
  then show ?thesis using v by (auto simp flip: view_lookup)
qed

lemma mock_range_law:
  assumes "mock_GetObjectRange b k i j s = (d, s')"
  shows "mock_objects_view s' = mock_objects_view s \<and>
         (d \<noteq> [] \<longrightarrow> (\<exists>x. mock_objects_view s (b, k) = Some x \<and> 0 \<le> i \<and> i \<le> j \<and> j < int (length x) \<and>
                         d = slice (nat i) (nat (j - i + 1)) x))"
proof -
  obtain f s1 where t: "injected_failure (failure_key b k MGetObjectRange) s = (f, s1)" by fastforce
  note v = injected_view [OF t]
  from assms show ?thesis
    by (auto simp: mock_GetObjectRange_def t v [symmetric] view_lookup lookup_object_def
        split: if_splits option.splits)
qed

lemma mock_range_into_law:
  assumes "mock_GetObjectRangeInto b k i j s = ((ok, d), s')"
  shows "mock_GetObjectRange b k i j s = (d, s') \<and> (ok \<longleftrightarrow> d \<noteq> [])"
  using assms by (auto simp: mock_GetObjectRangeInto_def split: prod.splits if_splits)

lemma mock_put_law:
  assumes "mock_PutObject b k d s = (ok, s')"
  shows "mock_objects_view s' = (if ok then (mock_objects_view s)((b, k) \<mapsto> d) else mock_objects_view s)"
proof -
  obtain f s1 where t: "injected_failure (failure_key b k MPutObject) s = (f, s1)" by fastforce
  note v = injected_view [OF t]
  from assms v show ?thesis
    by (auto simp: mock_PutObject_def t view_store_object split: if_splits)
qed

lemma mock_put_file_law:
  assumes "mock_PutObjectFromFile b k p f s = (ok, s')"
  shows "if ok then \<exists>d. f p = Some d \<and> mock_objects_view s' = (mock_objects_view s)((b, k) \<mapsto> d)
         else mock_objects_view s' = mock_objects_view s"
proof (cases "f p")
  case None
  with assms show ?thesis by (simp add: mock_PutObjectFromFile_def)
next
  case (Some d)
  have "\<not> ok \<and> s' = s \<or> mock_PutObject b k d s = (ok, s')"
    using assms unfolding mock_PutObjectFromFile_def Some by (auto split: if_split_asm)
  then show ?thesis
  proof
    assume "mock_PutObject b k d s = (ok, s')"
    from mock_put_law [OF this] Some show ?thesis by (cases ok) simp_all
  qed simp
qed

lemma view_simps:
  "mock_objects_view (s\<lparr>mk_delete_rate_limit := n\<rparr>) = mock_objects_view s"
  "mock_objects_view (count_call k s) = mock_objects_view s"
  by (rule mock_view_buckets; simp)+

lemma view_erase_absent:
  "map_of (mk_buckets s) b = None \<Longrightarrow> mock_objects_view (erase_object b k s) = mock_objects_view s"
  by (simp add: erase_object_def)

lemma mock_delete_law:
  assumes "mock_DeleteObject b k s = (ok, s')"
  shows "if ok then mock_objects_view s' = (mock_objects_view s)((b, k) := None)
         else mock_objects_view s' = mock_objects_view s \<or>
              mock_objects_view s' = (mock_objects_view s)((b, k) := None)"
proof -
  let ?k = "failure_key b k MDeleteObject"
  obtain f s1 where t: "transient_failure ?k (count_call ?k s) = (f, s1)" by fastforce
  note v = transient_view [OF t]
  from assms v show ?thesis
    by (auto simp: mock_DeleteObject_def Let_def t view_simps view_erase_object
        view_erase_object_mtimes split: if_splits option.splits)
qed

lemma mock_copy_law:
  assumes "mock_CopyObject b k b' k' n c s = ((ok, c'), s')"
  shows "if ok then \<exists>d. mock_objects_view s (b, k) = Some d \<and>
                     mock_objects_view s' = (mock_objects_view s)((b', k') \<mapsto> d)
         else mock_objects_view s' = mock_objects_view s"
proof -
  obtain f s1 where t: "injected_failure (failure_key b' k' MCopyObject) s = (f, s1)" by fastforce
  note v = injected_view [OF t]
  have "mock_objects_view s (b, k) = Some d"
    if "map_of (mk_buckets s1) b = Some objs" "map_of objs k = Some d" for objs d
    using that by (simp add: v [symmetric] view_lookup lookup_object_def)
  with assms v show ?thesis
    by (auto simp: mock_CopyObject_def t view_store_object split: if_splits option.splits prod.splits)
qed

lemma mock_list_keeps: "mock_ListObjects b p d t n s = (r, s') \<Longrightarrow> s' = s"
  by (auto simp: mock_ListObjects_def Let_def split: if_splits option.splits)

lemma mock_delete_one_law:
  assumes "mock_delete_one b k s = (ok, s')"
  shows "only_removed (keys_in b [k]) (mock_objects_view s) (mock_objects_view s') \<and>
         (ok \<longrightarrow> mock_objects_view s' (b, k) = None)"
proof -
  obtain f s1 where t: "transient_failure (failure_key b k MDeleteObject) s = (f, s1)" by fastforce
  note v = transient_view [OF t]
  from assms v show ?thesis
    by (auto simp: mock_delete_one_def Let_def t view_erase_object view_erase_object_mtimes split: if_splits)
qed

lemma mock_delete_loop_law:
  "mock_delete_loop b ks s = (failed, s') \<Longrightarrow>
    set failed \<subseteq> set ks \<and> length failed \<le> length ks \<and>
    (\<forall>k. k \<in> set ks \<longrightarrow> k \<notin> set failed \<longrightarrow> mock_objects_view s' (b, k) = None) \<and>
    only_removed (keys_in b ks) (mock_objects_view s) (mock_objects_view s')"
proof (induction ks arbitrary: s failed)
  case (Cons k ks)
  obtain ok s1 where o: "mock_delete_one b k s = (ok, s1)" by fastforce
  obtain fs s2 where l: "mock_delete_loop b ks s1 = (fs, s2)" by fastforce
  from Cons.prems o l have f: "failed = (if ok then fs else k # fs)" and s2: "s2 = s'" by auto
  note one = mock_delete_one_law [OF o]
  note IH = Cons.IH [OF l [unfolded s2]]
  have "only_removed (keys_in b (k # ks)) (mock_objects_view s) (mock_objects_view s1)"
    using one by (auto intro: only_removed_mono keys_in_mono)
  also have "only_removed (keys_in b (k # ks)) (mock_objects_view s1) (mock_objects_view s')"
    using IH by (auto intro: only_removed_mono keys_in_mono)
  finally have removed: "only_removed (keys_in b (k # ks)) (mock_objects_view s) (mock_objects_view s')" .
  have "mock_objects_view s' (b, k) = None" if ok
    using one IH that only_removed_None by blast
  with removed IH f show ?case by auto
qed simp

lemma mock_delete_batch_law:
  assumes "mock_DeleteObjects b ks s = (failed, s')"
  shows "set failed \<subseteq> set ks \<and> length failed \<le> length ks \<and>
    (\<forall>k. k \<in> set ks \<longrightarrow> k \<notin> set failed \<longrightarrow> mock_objects_view s' (b, k) = None) \<and>
    only_removed (keys_in b ks) (mock_objects_view s) (mock_objects_view s')"
proof -
  have "mock_objects_view (s\<lparr>mk_batch_rate_limit := n\<rparr>) = mock_objects_view s" for n
    by (rule mock_view_buckets) simp
  with assms mock_delete_loop_law [of b ks s failed s'] show ?thesis
    by (auto simp: mock_DeleteObjects_def split: if_split_asm)
qed

interpretation mock_store: object_store "mock_client z base64" mock_objects_view for z base64
proof (unfold_locales, goal_cases)
  case (1 b k s n s') then show ?case using mock_size_law by simp
next
  case (2 b k s n s') then show ?case using mock_size_law by simp
next
  case (3 b k s q s') then show ?case using mock_presence_law by simp
next
  case (4 b k s s') then show ?case using mock_presence_law by simp
next
  case (5 b k s s') then show ?case using mock_presence_law by simp
next
  case (6 b k i j s d s') then show ?case using mock_range_law by simp
next
  case (7 b k i j s d s') then show ?case using mock_range_law by simp
next
  case (8 b k i j s ok d s') then show ?case using mock_range_into_law by simp
next
  case (9 b p d t n s r s') then have "s' = s" using mock_list_keeps by simp then show ?case by simp
next
  case (10 b ks s failed s') then show ?case using mock_delete_batch_law by simp
next
  case (11 b k d s s') then show ?case using mock_put_law by fastforce
next
  case (12 b k d s s') then show ?case using mock_put_law by fastforce
next
  case (13 b k p f s s') then show ?case using mock_put_file_law by fastforce
next
  case (14 b k p f s s') then show ?case using mock_put_file_law by fastforce
next
  case (15 b k s s') then show ?case using mock_delete_law by fastforce
next
  case (16 b k s s') then show ?case using mock_delete_law by fastforce
next
  case (17 b k b' k' n c s ok c' s' x)
  have "\<exists>d. mock_objects_view s' = mock_objects_view s \<or> mock_objects_view s' = (mock_objects_view s)((b', k') \<mapsto> d)"
    using 17(1) mock_copy_law [of b k b' k' n c s ok c' s'] by (cases ok) auto
  then show ?case using 17(2) by auto
next
  case (18 b k b' k' n c s c' s') then show ?case using mock_copy_law by fastforce
next
  case (19 b k b' k' n c s c' s') then show ?case using mock_copy_law by fastforce
qed

section \<open>Pages\<close>

text \<open>A bucket is a map, and S3 has no empty key.\<close>

definition mock_valid :: "mock \<Rightarrow> bool" where
  "mock_valid s \<longleftrightarrow> list_all (\<lambda>(b, objs). distinct (map fst objs) \<and> [] \<notin> fst ` set objs) (mk_buckets s)"

definition mock_remaining :: "mock \<Rightarrow> string \<Rightarrow> string \<Rightarrow> string \<Rightarrow> s3_object_info list" where
  "mock_remaining s b p t =
     (case map_of (mk_buckets s) b of
        None \<Rightarrow> []
      | Some objs \<Rightarrow>
          let start_after = (if t = [] then [] else drop (length token_prefix) t) in
          map (\<lambda>k. object_info s b (k, the (map_of objs k)))
            (filter (\<lambda>k. starts_with k p \<and> (start_after = [] \<or> start_after < k)) (sort (map fst objs))))"

lemma list_loop_page:
  assumes "count1 \<le> n"
  shows "list_loop info p [] sa n keys True count1 r =
    (let ks = filter (\<lambda>k. starts_with k p) keys; m = nat (n - count1) in
     if length ks \<le> m then r\<lparr>lr_objects := lr_objects r @ map info ks\<rparr>
     else r\<lparr>lr_objects := lr_objects r @ map info (take m ks), lr_is_truncated := True,
            lr_next_token := token_prefix @ oi_key (last (lr_objects r @ map info (take m ks)))\<rparr>)"
  using assms
proof (induction keys arbitrary: count1 r)
  case Nil
  then show ?case by simp
next
  case (Cons key keys)
  show ?case
  proof (cases "starts_with key p")
    case False
    then have "p \<noteq> []" by auto
    with False Cons show ?thesis by (simp add: Let_def)
  next
    case key: True
    show ?thesis
    proof (cases "count1 = n")
      case True
      with key show ?thesis by (simp add: Let_def)
    next
      case False
      with Cons.prems have "count1 + 1 \<le> n" "nat (n - count1) = Suc (nat (n - (count1 + 1)))" by auto
      with key False Cons.prems show ?thesis
        by (simp add: Cons.IH Let_def del: list_loop.simps(1))
    qed
  qed
qed

lemma list_loop_skip:
  "list_loop info p d sa n keys False count1 r =
   list_loop info p d sa n (dropWhile (\<lambda>k. \<not> sa < k) keys) True count1 r"
  by (induction keys) (simp_all add: Let_def)

lemma dropWhile_sorted:
  "sorted keys \<Longrightarrow> dropWhile (\<lambda>k. \<not> sa < k) keys = filter (\<lambda>k. sa < k) keys"
  for sa :: "'a :: linorder"
proof (induction keys)
  case (Cons a keys)
  show ?case
  proof (cases "sa < a")
    case True
    with Cons.prems have "filter (\<lambda>k. sa < k) keys = keys"
      by (auto simp: filter_id_conv intro: less_le_trans)
    with True show ?thesis by simp
  qed (use Cons in simp)
qed simp

lemma sorted_after_nth:
  "sorted ks \<Longrightarrow> distinct ks \<Longrightarrow> 0 < m \<Longrightarrow> m < length ks \<Longrightarrow>
   filter (\<lambda>k. ks ! (m - 1) < k) ks = drop m ks"
  for ks :: "'a :: linorder list"
proof -
  assume a: "sorted ks" "distinct ks" "0 < m" "m < length ks"
  then have s: "sorted_wrt (<) ks" by (simp add: strict_sorted_iff)
  have "filter (\<lambda>k. ks ! (m - 1) < k) (take m ks) = []"
  proof -
    have "\<not> ks ! (m - 1) < k" if "k \<in> set (take m ks)" for k
    proof -
      from that obtain i where i: "i < m" "k = ks ! i" by (auto simp: in_set_conv_nth)
      then have "ks ! i \<le> ks ! (m - 1)" using a by (intro sorted_nth_mono) auto
      with i show ?thesis by simp
    qed
    then show ?thesis by (simp add: filter_empty_conv)
  qed
  moreover have "filter (\<lambda>k. ks ! (m - 1) < k) (drop m ks) = drop m ks"
  proof -
    have "ks ! (m - 1) < k" if "k \<in> set (drop m ks)" for k
    proof -
      from that obtain i where i: "i < length ks - m" "k = ks ! (m + i)" by (auto simp: in_set_conv_nth)
      with a s show ?thesis by (simp add: sorted_wrt_nth_less)
    qed
    then show ?thesis by (simp add: filter_id_conv)
  qed
  ultimately show ?thesis by (metis append_take_drop_id filter_append self_append_conv2)
qed

text \<open>The loop on the keys of a bucket, from a continuation token on.\<close>

lemma list_loop_bucket:
  fixes info p sa keys
  defines "ks \<equiv> filter (\<lambda>k. starts_with k p \<and> (sa = [] \<or> sa < k)) keys"
  assumes "sorted keys" "0 < n"
  shows "list_loop info p [] sa n keys (sa = []) 0 r =
    (if length ks \<le> nat n then r\<lparr>lr_objects := lr_objects r @ map info ks\<rparr>
     else r\<lparr>lr_objects := lr_objects r @ map info (take (nat n) ks), lr_is_truncated := True,
            lr_next_token := token_prefix @ oi_key (last (lr_objects r @ map info (take (nat n) ks)))\<rparr>)"
proof (cases "sa = []")
  case True
  then show ?thesis using assms(3) by (simp add: list_loop_page ks_def Let_def)
next
  case False
  have "filter (\<lambda>k. starts_with k p) (filter (\<lambda>k. sa < k) keys) = ks"
    using False by (auto simp: ks_def intro: filter_cong)
  then show ?thesis
    using False assms(2,3) by (simp add: list_loop_skip dropWhile_sorted list_loop_page Let_def)
qed

lemma remaining_after_page:
  fixes keys :: "string list" and p :: string
  defines "ks sa \<equiv> filter (\<lambda>k. starts_with k p \<and> (sa = [] \<or> sa < k)) keys"
  assumes "sorted keys" "distinct keys" "[] \<notin> set keys" "0 < m" "m < length (ks sa)"
  shows "ks (last (take m (ks sa))) = drop m (ks sa)"
proof -
  let ?K = "ks sa" and ?l = "ks sa ! (m - 1)"
  have l: "last (take m ?K) = ?l"
    using assms(5,6) by (metis One_nat_def Suc_pred last_snoc less_imp_diff_less take_Suc_conv_app_nth)
  have K: "sorted ?K" "distinct ?K" "set ?K \<subseteq> set keys"
    using assms(2,3) by (auto simp: ks_def sorted_wrt_filter)
  have "?l \<in> set ?K" using assms(6) by simp
  then have "?l \<noteq> []" and sa: "sa = [] \<or> sa < ?l" using K(3) assms(4) by (auto simp: ks_def)
  then have "ks ?l = filter (\<lambda>k. ?l < k) ?K"
    by (auto simp: ks_def intro!: filter_cong)
  with l sorted_after_nth [OF K(1,2) assms(5,6)] show ?thesis by simp
qed

lemma map_of_valid:
  "mock_valid s \<Longrightarrow> map_of (mk_buckets s) b = Some objs \<Longrightarrow> distinct (map fst objs) \<and> [] \<notin> fst ` set objs"
  by (auto simp: mock_valid_def list_all_iff dest!: map_of_SomeD)

lemma oi_key_info [simp]: "oi_key (object_info s b (k, d)) = k"
  by (simp add: object_info_def)

lemma mock_list_page:
  assumes "mock_ListObjects b p [] t n s = (r, s')" "mock_valid s" "0 < n"
  shows "s' = s \<and>
    (lr_success r \<longrightarrow> mock_remaining s b p t =
       lr_objects r @ (if lr_is_truncated r then mock_remaining s b p (lr_next_token r) else [])) \<and>
    (lr_is_truncated r \<longrightarrow> lr_next_token r \<noteq> [] \<and> lr_objects r \<noteq> []) \<and>
    (lr_success r \<longrightarrow> \<not> lr_is_truncated r \<longrightarrow> lr_next_token r = [])"
proof (cases "lr_success r")
  case False
  with assms(1) show ?thesis
    by (auto simp: mock_ListObjects_def Let_def empty_list_result_def split: if_splits option.splits)
next
  case True
  then obtain objs where objs: "map_of (mk_buckets s) b = Some objs" and t: "t = [] \<or> starts_with t token_prefix"
    using assms(1) by (auto simp: mock_ListObjects_def Let_def empty_list_result_def split: if_splits option.splits)
  define sa where "sa = (if t = [] then [] else drop (length token_prefix) t)"
  define keys where "keys = sort (map fst objs)"
  define ks where "ks = (\<lambda>sa. filter (\<lambda>k. starts_with k p \<and> (sa = [] \<or> sa < k)) keys)"
  define info where "info = (\<lambda>k. object_info s b (k, the (map_of objs k)))"
  have rem: "mock_remaining s b p t' =
      map info (ks (if t' = [] then [] else drop (length token_prefix) t'))" for t'
    by (simp add: mock_remaining_def objs ks_def keys_def info_def Let_def)
  have r: "s' = s" "r = (list_loop info p [] sa n keys (sa = []) 0 empty_list_result)\<lparr>lr_success := True\<rparr>"
    using assms(1,3) True objs t
    by (auto simp: mock_ListObjects_def Let_def sa_def keys_def info_def empty_list_result_def split: if_splits)
  have keys: "sorted keys" "distinct keys" "[] \<notin> set keys"
    using map_of_valid [OF assms(2) objs] by (auto simp: keys_def)
  have ks_sa: "filter (\<lambda>k. starts_with k p \<and> (sa = [] \<or> sa < k)) keys = ks sa" by (simp add: ks_def)
  note page = list_loop_bucket [OF keys(1) assms(3), of info p sa empty_list_result, unfolded ks_sa]
  show ?thesis
  proof (cases "length (ks sa) \<le> nat n")
    case True
    then show ?thesis
      using r(1) r(2) [unfolded page] by (simp add: rem sa_def [symmetric] empty_list_result_def)
  next
    case False
    let ?m = "nat n"
    have m: "0 < ?m" "?m < length (ks sa)" using False assms(3) by auto
    have ne: "take ?m (ks sa) \<noteq> []" using m by force
    have last: "oi_key (last (map info (take ?m (ks sa)))) = last (take ?m (ks sa))"
      using ne by (simp add: last_map info_def)
    have "ks (last (take ?m (ks sa))) = drop ?m (ks sa)"
      unfolding ks_def using keys m [unfolded ks_def] by (intro remaining_after_page) auto
    then show ?thesis
      using r(1) r(2) [unfolded page] False ne last
      by (simp add: rem sa_def [symmetric] empty_list_result_def token_prefix_def flip: map_append)
  qed
qed

interpretation mock_pages: paged_store "mock_client z base64" mock_valid mock_remaining for z base64
proof (unfold_locales, goal_cases)
  case (1 b p t n s r s')
  then show ?case by (auto simp: mock_ListObjects_def Let_def split: if_splits option.splits)
next
  case (2 b p t n s r s')
  then show ?case using mock_list_page [of b p t n s r s'] by simp
next
  case (3 b p t n s r s')
  then show ?case using mock_list_page [of b p t n s r s'] by simp
next
  case (4 b p t n s r s')
  then show ?case using mock_list_page [of b p t n s r s'] by simp
qed

end
