(* ===== verification/Leftovers.thy ===== *)
theory Leftovers
  imports S3_Mock
begin

text \<open>
  \<^verbatim>\<open>run_leftovers\<close> of leftovers_task.cpp: page through the multipart uploads of a bucket, filter by
  key prefix and age, list and optionally abort them.  Times are ticks of the system clock
  (nanoseconds); what is printed is left out.
\<close>

definition ticks_per_second :: int where "ticks_per_second = 1000000000"

text \<open>\<^verbatim>\<open>duration_cast<seconds>\<close> truncates toward zero.\<close>

definition to_seconds :: "int \<Rightarrow> int" where
  "to_seconds t = (if t < 0 then - ((- t) div ticks_per_second) else t div ticks_per_second)"

definition leftover_matches :: "leftovers_config \<Rightarrow> int \<Rightarrow> s3_upload_info \<Rightarrow> bool" where
  "leftover_matches cfg now u \<longleftrightarrow>
     (if lc_prefix cfg \<noteq> [] \<and> \<not> starts_with (ui_key u) (lc_prefix cfg) then False
      else if lc_older_than cfg > 0 \<and> to_seconds (now - ui_initiated u) < lc_older_than cfg then False
      else True)"

definition leftover_one ::
  "'s s3_client \<Rightarrow> leftovers_config \<Rightarrow> int \<Rightarrow> s3_upload_info \<Rightarrow> leftovers_result \<Rightarrow> 's \<Rightarrow> leftovers_result \<times> 's" where
  "leftover_one client cfg now u res s =
     (if \<not> leftover_matches cfg now u then (res, s)
      else let res = res\<lparr>lo_uploads_listed := lo_uploads_listed res + 1\<rparr> in
        if lc_abort_uploads cfg then
          (let (ok, s) = AbortMultipartUpload client (lc_bucket cfg) (ui_key u) (ui_upload_id u) s in
           if ok then (res\<lparr>lo_uploads_aborted := lo_uploads_aborted res + 1\<rparr>, s)
           else (res\<lparr>lo_abort_failures := lo_abort_failures res + 1\<rparr>, s))
        else (res, s))"

fun leftover_page ::
  "'s s3_client \<Rightarrow> leftovers_config \<Rightarrow> int \<Rightarrow> s3_upload_info list \<Rightarrow> leftovers_result \<Rightarrow> 's \<Rightarrow>
   leftovers_result \<times> 's" where
  "leftover_page client cfg now [] res s = (res, s)"
| "leftover_page client cfg now (u # us) res s =
     (let (res, s) = leftover_one client cfg now u res s in leftover_page client cfg now us res s)"

text \<open>
  The \<^verbatim>\<open>do\<close> loop.  \<^term>\<open>None\<close> is running out of fuel; a failed page returns from \<^verbatim>\<open>run_leftovers\<close>
  without the final \<^verbatim>\<open>success = true\<close>, a cancellation only leaves the loop.
\<close>

fun leftover_pages ::
  "nat \<Rightarrow> 's s3_client \<Rightarrow> leftovers_config \<Rightarrow> int \<Rightarrow> string \<Rightarrow> string \<Rightarrow> cancel \<Rightarrow> leftovers_result \<Rightarrow> 's \<Rightarrow>
   (leftovers_result \<times> cancel \<times> 's) option" where
  "leftover_pages 0 client cfg now key_marker upload_id_marker cancelled res s = None"
| "leftover_pages (Suc fuel) client cfg now key_marker upload_id_marker cancelled res s =
     (let (stop, cancelled) = poll cancelled in
      if stop then Some (res\<lparr>lo_error := ''Cancelled'', lo_success := True\<rparr>, cancelled, s)
      else let (r, s) = ListMultipartUploads client (lc_bucket cfg) [] key_marker upload_id_marker 1000 s in
        if \<not> ur_success r then Some (res\<lparr>lo_error := ur_error r\<rparr>, cancelled, s)
        else let (res, s) = leftover_page client cfg now (ur_uploads r) res s in
          if \<not> ur_is_truncated r then Some (res\<lparr>lo_success := True\<rparr>, cancelled, s)
          else leftover_pages fuel client cfg now (ur_next_key_marker r) (ur_next_upload_id_marker r)
                 cancelled res s)"

definition run_leftovers ::
  "nat \<Rightarrow> 's client_factory \<Rightarrow> leftovers_config \<Rightarrow> int \<Rightarrow> 's s3_client option \<Rightarrow> cancel \<Rightarrow> 's \<Rightarrow>
   (leftovers_result \<times> cancel \<times> 's) option" where
  "run_leftovers fuel create cfg now injected cancelled s =
     (case (case injected of Some c \<Rightarrow> Some c
            | None \<Rightarrow> create (lc_region cfg) (lc_endpoint cfg) 128 []) of
        None \<Rightarrow> Some (default_leftovers_result\<lparr>lo_error := ''Failed to create S3 client''\<rparr>, cancelled, s)
      | Some client \<Rightarrow> leftover_pages fuel client cfg now [] [] cancelled default_leftovers_result s)"

section \<open>Accounting\<close>

definition leftovers_balanced :: "bool \<Rightarrow> leftovers_result \<Rightarrow> bool" where
  "leftovers_balanced aborting res \<longleftrightarrow>
     (if aborting then lo_uploads_aborted res + lo_abort_failures res = lo_uploads_listed res
      else lo_uploads_aborted res = 0 \<and> lo_abort_failures res = 0)"

lemma leftovers_balanced_simps [simp]:
  "leftovers_balanced a (res\<lparr>lo_error := e\<rparr>) = leftovers_balanced a res"
  "leftovers_balanced a (res\<lparr>lo_success := b\<rparr>) = leftovers_balanced a res"
  "leftovers_balanced a (res\<lparr>lo_error := e, lo_success := b\<rparr>) = leftovers_balanced a res"
  by (simp_all add: leftovers_balanced_def)

lemma leftover_one_balanced:
  "leftover_one client cfg now u res s = (res', s') \<Longrightarrow> leftovers_balanced (lc_abort_uploads cfg) res \<Longrightarrow>
   leftovers_balanced (lc_abort_uploads cfg) res'"
  by (auto simp: leftover_one_def leftovers_balanced_def Let_def split: if_splits prod.splits)

lemma leftover_page_balanced:
  "leftover_page client cfg now us res s = (res', s') \<Longrightarrow> leftovers_balanced (lc_abort_uploads cfg) res \<Longrightarrow>
   leftovers_balanced (lc_abort_uploads cfg) res'"
  by (induction us arbitrary: res s) (auto split: prod.splits dest: leftover_one_balanced)

lemma leftover_pages_balanced:
  "leftover_pages fuel client cfg now k i c res s = Some (res', c', s') \<Longrightarrow>
   leftovers_balanced (lc_abort_uploads cfg) res \<Longrightarrow> leftovers_balanced (lc_abort_uploads cfg) res'"
proof (induction fuel arbitrary: k i c res s)
  case (Suc fuel)
  obtain stop c1 where p: "poll c = (stop, c1)" by fastforce
  obtain r s1 where l: "ListMultipartUploads client (lc_bucket cfg) [] k i 1000 s = (r, s1)" by fastforce
  obtain res1 s2 where g: "leftover_page client cfg now (ur_uploads r) res s1 = (res1, s2)" by fastforce
  note leftover_page_balanced [OF g Suc.prems(2)]
  with Suc p l g show ?case by (auto split: if_splits)
qed simp

text \<open>
  whatever the service answers, every upload that \<^verbatim>\<open>leftovers\<close> reports is accounted for: with
  \<^verbatim>\<open>--abort\<close> it was aborted or counted as a failure, and without it none was touched.
\<close>

theorem leftovers_accounting:
  "case run_leftovers fuel create cfg now injected c s of
     None \<Rightarrow> True
   | Some (res, c', s') \<Rightarrow> leftovers_balanced (lc_abort_uploads cfg) res"
proof -
  have d: "leftovers_balanced a default_leftovers_result" for a
    by (simp add: leftovers_balanced_def default_leftovers_result_def)
  then show ?thesis
    using leftover_pages_balanced [OF _ d]
    by (fastforce simp: run_leftovers_def split: option.splits)
qed

section \<open>What may be touched\<close>

text \<open>The abort of an upload in the mock leaves every other upload where it is.\<close>

lemma mock_abort_other:
  "j \<noteq> i \<Longrightarrow> map_of (mk_uploads (snd (mock_AbortMultipartUpload b k i s))) j = map_of (mk_uploads s) j"
  by (simp add: mock_AbortMultipartUpload_def delete_conv')

definition unmatched_upload :: "leftovers_config \<Rightarrow> int \<Rightarrow> string \<Rightarrow> mock_upload \<Rightarrow> bool" where
  "unmatched_upload cfg now i u \<longleftrightarrow> mu_bucket u \<noteq> lc_bucket cfg \<or>
     \<not> leftover_matches cfg now \<lparr>ui_key = mu_key u, ui_upload_id = i, ui_initiated = mu_initiated u\<rparr>"

lemma mock_uploads_listed:
  assumes "mock_ListMultipartUploads b pre k i n s = (r, s')" "distinct (map fst (mk_uploads s))"
    and "x \<in> set (ur_uploads r)"
  shows "\<exists>u. map_of (mk_uploads s) (ui_upload_id x) = Some u \<and> mu_bucket u = b \<and>
             x = \<lparr>ui_key = mu_key u, ui_upload_id = ui_upload_id x, ui_initiated = mu_initiated u\<rparr>"
proof -
  have "x \<in> (\<lambda>(upload_id, u). \<lparr>ui_key = mu_key u, ui_upload_id = upload_id, ui_initiated = mu_initiated u\<rparr>) `
              set (filter (upload_matches b pre k i) (mk_uploads s))"
    using assms(1,3)
    by (auto simp: mock_ListMultipartUploads_def Let_def empty_uploads_result_def dest!: in_set_takeD
        split: if_splits)
  then obtain j u where "(j, u) \<in> set (mk_uploads s)" "upload_matches b pre k i (j, u)"
    "x = \<lparr>ui_key = mu_key u, ui_upload_id = j, ui_initiated = mu_initiated u\<rparr>" by auto
  with assms(2) show ?thesis by (auto simp: upload_matches_def split: if_splits)
qed

definition has_upload :: "string \<Rightarrow> mock_upload \<Rightarrow> mock \<Rightarrow> bool" where
  "has_upload j u s \<longleftrightarrow> distinct (map fst (mk_uploads s)) \<and> map_of (mk_uploads s) j = Some u"

lemma mock_abort_has_upload:
  assumes "has_upload j u s" "i \<noteq> j"
  shows "has_upload j u (snd (mock_AbortMultipartUpload b k i s))"
  using assms by (simp add: has_upload_def mock_AbortMultipartUpload_def delete_conv' distinct_delete)

lemma mock_page_has_upload:
  assumes "list_all (\<lambda>x. leftover_matches cfg now x \<longrightarrow> ui_upload_id x \<noteq> j) us"
    and "leftover_page (mock_client z base64) cfg now us res s = (res', s')" "has_upload j u s"
  shows "has_upload j u s'"
  using assms
proof (induction us arbitrary: res s)
  case (Cons x us)
  obtain res1 s1 where o: "leftover_one (mock_client z base64) cfg now x res s = (res1, s1)" by fastforce
  have "has_upload j u s1"
    using o Cons.prems(1,3)
      mock_abort_has_upload [OF Cons.prems(3), of "ui_upload_id x" "lc_bucket cfg" "ui_key x"]
    by (auto simp: leftover_one_def Let_def split: if_splits prod.splits)
  with Cons.IH [of res1 s1] Cons.prems(1,2) o show ?case by simp
qed simp

lemma mock_listed_unmatched:
  assumes "mock_ListMultipartUploads (lc_bucket cfg) pre k i n s = (r, s')" "has_upload j u s"
    and "unmatched_upload cfg now j u"
  shows "list_all (\<lambda>x. leftover_matches cfg now x \<longrightarrow> ui_upload_id x \<noteq> j) (ur_uploads r)"
  unfolding list_all_iff
proof (intro ballI impI)
  fix x assume x: "x \<in> set (ur_uploads r)" "leftover_matches cfg now x"
  have "distinct (map fst (mk_uploads s))" using assms(2) by (simp add: has_upload_def)
  from mock_uploads_listed [OF assms(1) this x(1)] obtain u' where
    "map_of (mk_uploads s) (ui_upload_id x) = Some u'" "mu_bucket u' = lc_bucket cfg"
    "x = \<lparr>ui_key = mu_key u', ui_upload_id = ui_upload_id x, ui_initiated = mu_initiated u'\<rparr>" by blast
  with x(2) assms(2,3) show "ui_upload_id x \<noteq> j"
    by (metis has_upload_def option.inject unmatched_upload_def)
qed

lemma mock_pages_has_upload:
  assumes "leftover_pages fuel (mock_client z base64) cfg now k i c res s = Some (res', c', s')"
    and "has_upload j u s" "unmatched_upload cfg now j u"
  shows "has_upload j u s'"
  using assms(1,2)
proof (induction fuel arbitrary: k i c res s)
  case (Suc fuel)
  obtain stop c1 where p: "poll c = (stop, c1)" by fastforce
  obtain r s1 where l: "mock_ListMultipartUploads (lc_bucket cfg) [] k i 1000 s = (r, s1)" by fastforce
  have s1: "s1 = s"
    using l by (auto simp: mock_ListMultipartUploads_def Let_def split: if_splits)
  obtain res1 s2 where g: "leftover_page (mock_client z base64) cfg now (ur_uploads r) res s = (res1, s2)"
    by fastforce
  have "has_upload j u s2"
    by (rule mock_page_has_upload [OF mock_listed_unmatched [OF l Suc.prems(2) assms(3)] g Suc.prems(2)])
  with Suc p l g s1 show ?case by (auto split: if_splits)
qed simp


definition one_upload :: mock where
  "one_upload = empty_mock\<lparr>mk_buckets := [(''b'', [])],
     mk_uploads := [(''u1'', \<lparr>mu_bucket = ''b'', mu_key = ''q'', mu_initiated = 0, mu_parts = Map.empty\<rparr>)]\<rparr>"

definition abort_under_p :: leftovers_config where
  "abort_under_p = \<lparr>lc_bucket = ''b'', lc_region = [], lc_endpoint = [], lc_prefix = ''p'',
     lc_older_than = 0, lc_abort_uploads = True\<rparr>"


text \<open>
  A run cancelled before the first page lists nothing, yet reports success beside the error
  message \<^verbatim>\<open>Cancelled\<close>.
\<close>

theorem leftovers_cancelled_reports_success:
  "run_leftovers (Suc fuel) create cfg now (Some client) (Some 0) s =
   Some (default_leftovers_result\<lparr>lo_error := ''Cancelled'', lo_success := True\<rparr>, Some 0, s)"
  by (simp add: run_leftovers_def)

end
