(* ===== verification/Paths.thy ===== *)
theory Paths
  imports Core_Types
begin

text \<open>
  The path checks of sync_task.cpp that stand between a listed name and a write or a removal, and
  the \<^verbatim>\<open>std::filesystem::path\<close> operations they call.  A path is its string, as on POSIX.
  Resolving a path (\<^verbatim>\<open>fs::canonical\<close>) and asking whether it exists are questions to the operating
  system: they are the parameters \<open>canon\<close> (\<^term>\<open>None\<close> is an error code) and \<open>pexists\<close>.
\<close>

section \<open>Path operations\<close>

text \<open>\<^verbatim>\<open>p / r\<close>, \<^verbatim>\<open>p.filename()\<close> and \<^verbatim>\<open>p.parent_path()\<close>.\<close>

definition path_append :: "string \<Rightarrow> string \<Rightarrow> string" where
  "path_append p r =
     (if r \<noteq> [] \<and> hd r = CHR ''/'' then r
      else if p \<noteq> [] \<and> last p \<noteq> CHR ''/'' then p @ ''/'' @ r else p @ r)"

definition path_filename :: "string \<Rightarrow> string" where
  "path_filename p = rev (takeWhile (\<lambda>c. c \<noteq> CHR ''/'') (rev p))"

definition parent_path :: "string \<Rightarrow> string" where
  "parent_path p =
     (let dir = rev (dropWhile (\<lambda>c. c \<noteq> CHR ''/'') (rev p));
          stripped = rev (dropWhile (\<lambda>c. c = CHR ''/'') (rev dir))
      in if stripped = [] \<and> p \<noteq> [] \<and> hd p = CHR ''/'' then ''/'' else stripped)"

lemma path_append_with_slash:
  "\<not> (r \<noteq> [] \<and> hd r = CHR ''/'') \<Longrightarrow> path_append p r = with_slash p @ r"
  by (auto simp: path_append_def with_slash_def)

lemma parent_path_shorter: "parent_path p = p \<or> length (parent_path p) < length p"
proof -
  define ys where "ys = dropWhile (\<lambda>c. c \<noteq> CHR ''/'') (rev p)"
  define zs where "zs = dropWhile (\<lambda>c. c = CHR ''/'') ys"
  have pp: "parent_path p = (if zs = [] \<and> p \<noteq> [] \<and> hd p = CHR ''/'' then ''/'' else rev zs)"
    by (simp only: parent_path_def Let_def ys_def zs_def rev_rev_ident rev_is_Nil_conv)
  have ys: "length ys \<le> length p"
    unfolding ys_def using length_dropWhile_le [of "\<lambda>c. c \<noteq> CHR ''/''" "rev p"] by simp
  have "ys = [] \<or> hd ys = CHR ''/''"
    unfolding ys_def using hd_dropWhile [of "\<lambda>c. c \<noteq> CHR ''/''" "rev p"] by blast
  then have zs: "zs = [] \<or> length zs < length ys"
    unfolding zs_def using length_dropWhile_le [of "\<lambda>c. c = CHR ''/''" "tl ys"]
    by (cases ys) (simp_all add: less_Suc_eq_le)
  show ?thesis
  proof (cases "zs = [] \<and> p \<noteq> [] \<and> hd p = CHR ''/''")
    case True
    then have "parent_path p = ''/''" using pp by (simp only: if_True simp_thms)
    with True show ?thesis by (cases p; cases "tl p") simp_all
  next
    case False
    then have "parent_path p = rev zs" using pp by (simp only: if_False)
    then have l: "length (parent_path p) = length zs" by simp
    show ?thesis
    proof (cases "p = []")
      case True
      with l zs ys show ?thesis by simp
    next
      case False
      with zs ys have "length zs < length p" by (cases "zs = []") simp_all
      with l show ?thesis by simp
    qed
  qed
qed

section \<open>Relative paths\<close>

definition unify_separators :: "string \<Rightarrow> string" where
  "unify_separators s = map (\<lambda>c. if c = CHR 0x5C then CHR ''/'' else c) s"

text \<open>The loop of \<^verbatim>\<open>validate_relative_path\<close>, on what is left of the path.\<close>

function components_ok :: "string \<Rightarrow> bool" where
  "components_ok rest =
     (if rest = [] then True
      else let component = takeWhile (\<lambda>c. c \<noteq> CHR ''/'') rest;
               rest' = drop (Suc (length component)) rest
           in if component = [] then False
              else if component = ''..'' then False
              else if component = ''.'' then False
              else components_ok rest')"
  by pat_completeness auto
termination
  by (relation "measure length") auto

declare components_ok.simps [simp del]

definition validate_relative_path :: "string \<Rightarrow> bool" where
  "validate_relative_path relative_path =
     (if relative_path = [] then True
      else if hd relative_path = CHR ''/'' \<or> hd relative_path = CHR 0x5C then False
      else components_ok (unify_separators relative_path))"

definition good_component :: "string \<Rightarrow> bool" where
  "good_component c \<longleftrightarrow> c \<noteq> [] \<and> c \<noteq> ''.'' \<and> c \<noteq> ''..''"

lemma components_ok_Nil [simp]: "components_ok []"
  by (simp add: components_ok.simps)

lemma components_ok_last:
  "CHR ''/'' \<notin> set w \<Longrightarrow> components_ok w \<longleftrightarrow> w = [] \<or> good_component w"
  by (subst components_ok.simps) (auto simp: Let_def good_component_def)

lemma components_ok_slash:
  assumes "CHR ''/'' \<notin> set w"
  shows "components_ok (w @ CHR ''/'' # s) \<longleftrightarrow> good_component w \<and> components_ok s"
proof -
  have t: "takeWhile (\<lambda>c. c \<noteq> CHR ''/'') (w @ CHR ''/'' # s) = w"
    using assms by (induction w) auto
  show ?thesis
    by (subst components_ok.simps) (simp add: t Let_def good_component_def)
qed

text \<open>The components that count: a trailing separator adds an empty last one, which is allowed.\<close>

definition path_components :: "string \<Rightarrow> string list" where
  "path_components s =
     (let ws = split_at CHR ''/'' s in if last ws = [] then butlast ws else ws)"

lemma components_ok_iff: "components_ok s \<longleftrightarrow> list_all good_component (path_components s)"
proof (induction s rule: length_induct)
  case (1 s)
  show ?case
  proof (cases "CHR ''/'' \<in> set s")
    case False
    then show ?thesis by (auto simp: components_ok_last path_components_def Let_def)
  next
    case True
    then obtain w t where s: "s = w @ CHR ''/'' # t" and w: "CHR ''/'' \<notin> set w"
      using split_list_first by metis
    have "path_components s = w # path_components t"
      using w by (simp add: s path_components_def Let_def)
    with 1 w show ?thesis by (simp add: s components_ok_slash)
  qed
qed

lemma validate_relative_path_iff:
  "validate_relative_path p \<longleftrightarrow>
     p = [] \<or> p \<noteq> [] \<and> hd p \<noteq> CHR ''/'' \<and> hd p \<noteq> CHR 0x5C \<and>
              list_all good_component (path_components (unify_separators p))"
  by (simp add: validate_relative_path_def components_ok_iff)

lemma unify_split:
  "(CHR 0x5C \<notin> set (hd (split_at CHR ''/'' p)) \<longrightarrow>
      hd (split_at CHR ''/'' (unify_separators p)) = hd (split_at CHR ''/'' p)) \<and>
   (\<forall>c \<in> set (tl (split_at CHR ''/'' p)). CHR 0x5C \<notin> set c \<longrightarrow>
      c \<in> set (tl (split_at CHR ''/'' (unify_separators p))))"
proof (induction p)
  case Nil
  then show ?case by (simp add: unify_separators_def)
next
  case (Cons x xs)
  obtain v vs where v: "split_at CHR ''/'' xs = v # vs"
    by (metis list.exhaust split_at_not_Nil)
  obtain w ws where w: "split_at CHR ''/'' (unify_separators xs) = w # ws"
    by (metis list.exhaust split_at_not_Nil)
  from Cons.IH v w show ?case by (auto simp: unify_separators_def)
qed

lemma unify_split_mem:
  assumes "c \<in> set (split_at CHR ''/'' p)" "CHR 0x5C \<notin> set c"
  shows "c \<in> set (split_at CHR ''/'' (unify_separators p))"
  using unify_split [of p] assms
  by (metis list.collapse list.set_intros(1) set_ConsD list.set_intros(2) split_at_not_Nil)

text \<open>A path that passes has no parent reference among its POSIX components.\<close>

lemma validate_no_parent:
  assumes "validate_relative_path p"
  shows "''..'' \<notin> set (split_at CHR ''/'' p)"
proof
  assume a: "''..'' \<in> set (split_at CHR ''/'' p)"
  then have "p \<noteq> []" by auto
  with assms have ok: "list_all good_component (path_components (unify_separators p))"
    by (simp add: validate_relative_path_iff)
  from a have "''..'' \<in> set (split_at CHR ''/'' (unify_separators p))"
    by (rule unify_split_mem) simp
  then have "''..'' \<in> set (path_components (unify_separators p))"
    by (auto simp: path_components_def Let_def)
       (metis append_butlast_last_id list.distinct(1) rotate1.simps(2) set_rotate1 set_ConsD split_at_not_Nil)
  with ok show False by (auto simp: list_all_iff good_component_def)
qed

text \<open>
  Walking a path from a directory, as the kernel does without symbolic links: \<^verbatim>\<open>..\<close> goes up,
  \<^verbatim>\<open>.\<close> and the empty component stay.  The directory is the list of its components, innermost first.
\<close>

fun walk :: "string list \<Rightarrow> string list \<Rightarrow> string list" where
  "walk d [] = d"
| "walk d (c # cs) =
     walk (if c = ''..'' then tl d else if c = ''.'' \<or> c = [] then d else c # d) cs"

lemma walk_inside: "''..'' \<notin> set cs \<Longrightarrow> suffix d (walk d cs)"
proof (induction cs arbitrary: d)
  case (Cons c cs)
  let ?d = "if c = ''.'' \<or> c = [] then d else c # d"
  have "suffix ?d (walk ?d cs)" using Cons by simp
  moreover have "suffix d ?d" by (simp add: suffix_ConsI)
  ultimately show ?case using Cons.prems suffix_order.trans by auto
qed simp

text \<open>
  C32: no relative path that \<^verbatim>\<open>validate_relative_path\<close> lets through can leave the directory it is
  joined to: from any base directory, no stage of walking its components is outside the base.
\<close>

theorem validated_path_stays_inside:
  assumes "validate_relative_path rel" "prefix cs (split_at CHR ''/'' rel)"
  shows "suffix base (walk base cs)"
proof (rule walk_inside)
  show "''..'' \<notin> set cs"
    using validate_no_parent [OF assms(1)] set_mono_prefix [OF assms(2)] by blast
qed

theorem validated_path_stays_inside_witness:
  "validate_relative_path ''a/..b/c'' \<and> suffix [''dst''] (walk [''dst''] [''a'', ''..b''])"
  using validated_path_stays_inside [of "''a/..b/c''" "[''a'', ''..b'']" "[''dst'']"]
  by (simp add: validate_relative_path_def unify_separators_def components_ok.simps)

section \<open>Targets within a base\<close>

definition validate_target_within_base :: "string \<Rightarrow> string \<Rightarrow> bool" where
  "validate_target_within_base base_path target_path \<longleftrightarrow>
     \<not> (length target_path < length (with_slash base_path) \<or>
        take (length (with_slash base_path)) target_path \<noteq> with_slash base_path)"

lemma validate_target_within_base_iff:
  "validate_target_within_base b t \<longleftrightarrow> starts_with t (with_slash b)"
  by (auto simp: validate_target_within_base_def starts_with_def)

lemma validated_within_base:
  assumes "validate_relative_path rel"
  shows "validate_target_within_base base (path_append base rel)"
proof -
  from assms have "\<not> (rel \<noteq> [] \<and> hd rel = CHR ''/'')"
    by (auto simp: validate_relative_path_def)
  then show ?thesis by (simp add: path_append_with_slash validate_target_within_base_iff)
qed

text \<open>The walk up to the deepest ancestor that resolves, and the containment test on strings.\<close>

function resolve_ancestor :: "(string \<Rightarrow> string option) \<Rightarrow> string \<Rightarrow> string option" where
  "resolve_ancestor canon probe =
     (case canon probe of
        Some c \<Rightarrow> Some c
      | None \<Rightarrow> let up = parent_path probe in
          if up = [] \<or> up = probe then None else resolve_ancestor canon up)"
  by pat_completeness auto
termination
  by (relation "measure (\<lambda>(canon, probe). length probe)") (use parent_path_shorter in auto)

declare resolve_ancestor.simps [simp del]

definition resolves_inside :: "string \<Rightarrow> string \<Rightarrow> bool" where
  "resolves_inside base_s parent_s \<longleftrightarrow>
     parent_s = base_s \<or>
     (base_s = ''/'' \<and> length parent_s > 1 \<and> parent_s ! 0 = CHR ''/'') \<or>
     (length parent_s > length base_s \<and> take (length base_s) parent_s = base_s \<and>
      parent_s ! length base_s = CHR ''/'')"

definition validate_target_resolves_within_base ::
  "(string \<Rightarrow> string option) \<Rightarrow> (string \<Rightarrow> bool) \<Rightarrow> string \<Rightarrow> string \<Rightarrow> bool" where
  "validate_target_resolves_within_base canon pexists base_path target_path =
     (case canon base_path of
        None \<Rightarrow> \<not> pexists base_path
      | Some canonical_base \<Rightarrow>
          (case resolve_ancestor canon (parent_path target_path) of
             None \<Rightarrow> False
           | Some canonical_parent \<Rightarrow> resolves_inside canonical_base canonical_parent))"

lemma resolves_inside_iff:
  assumes "p \<noteq> []" "hd p = CHR ''/''" "b \<noteq> []" "last b \<noteq> CHR ''/'' \<or> b = ''/''"
  shows "resolves_inside b p \<longleftrightarrow> p = b \<or> starts_with p (with_slash b)"
proof (cases "b = ''/''")
  case True
  then show ?thesis
    using assms by (cases p) (auto simp: resolves_inside_def starts_with_def with_slash_def)
next
  case False
  have "starts_with p (b @ ''/'') \<longleftrightarrow>
      length p > length b \<and> take (length b) p = b \<and> p ! length b = CHR ''/''"
    by (auto simp: starts_with_def take_Suc_conv_app_nth Suc_le_eq)
  with False assms show ?thesis by (auto simp: resolves_inside_def with_slash_def)
qed

text \<open>The ancestor found is an ancestor and does resolve.\<close>

inductive ancestor :: "string \<Rightarrow> string \<Rightarrow> bool" where
  ancestor_self: "ancestor p p"
| ancestor_up: "ancestor (parent_path p) a \<Longrightarrow> ancestor p a"

lemma resolve_ancestor_Some:
  "resolve_ancestor canon probe = Some c \<Longrightarrow> \<exists>a. ancestor probe a \<and> canon a = Some c"
proof (induction canon probe rule: resolve_ancestor.induct)
  case (1 canon probe)
  show ?case
  proof (cases "canon probe")
    case None
    with 1 show ?thesis
      by (subst (asm) (2) resolve_ancestor.simps)
         (auto simp: Let_def split: if_splits intro: ancestor.intros)
  next
    case (Some d)
    with 1 show ?thesis
      by (subst (asm) (2) resolve_ancestor.simps) (auto intro: ancestor.intros)
  qed
qed

lemma resolve_ancestor_refines:
  assumes "canon p = Some c"
  shows "resolve_ancestor canon p = Some c"
  using assms by (subst resolve_ancestor.simps) simp

end
