(* ===== verification/Enumerate.thy ===== *)
theory Enumerate
  imports S3_Interface Paths S3_Mock
begin

text \<open>
  Enumeration of directory_comparison.cpp: the flat S3 listing (\<^verbatim>\<open>enumerate_s3_prefix\<close>), the
  level-by-level one (\<^verbatim>\<open>parallel_enumerate_s3_prefix\<close>) and the walk of a local tree
  (\<^verbatim>\<open>parallel_enumerate_local_directory\<close>).  The tasks of a level run in the order in which they
  were posted.  A service that keeps sending continuation tokens keeps the loops going, so they
  take fuel and \<^term>\<open>None\<close> is running out of it.
\<close>

section \<open>S3, flat\<close>

definition relative_entry :: "string \<Rightarrow> s3_object_info \<Rightarrow> directory_entry" where
  "relative_entry normalized_prefix obj =
     \<lparr>de_path = drop (length normalized_prefix) (oi_key obj), de_size = oi_size obj,
      de_mtime = oi_last_modified obj\<rparr>"

text \<open>Which objects of a page are kept: not the prefix itself, no directory markers.\<close>

definition keeps_object :: "string \<Rightarrow> s3_object_info \<Rightarrow> bool" where
  "keeps_object normalized_prefix obj \<longleftrightarrow>
     (if oi_key obj = normalized_prefix then False
      else if ends_with_char CHR ''/'' (oi_key obj) then False
      else if length (oi_key obj) \<le> length normalized_prefix then False
      else True)"

fun collect_objects ::
  "(s3_object_info \<Rightarrow> bool) \<Rightarrow> string \<Rightarrow> s3_object_info list \<Rightarrow> cancel \<Rightarrow> directory_entry list \<times> cancel" where
  "collect_objects keep normalized_prefix [] cancelled = ([], cancelled)"
| "collect_objects keep normalized_prefix (obj # objs) cancelled =
     (let (stop, cancelled) = poll cancelled in
      if stop then ([], cancelled)
      else let (es, cancelled) = collect_objects keep normalized_prefix objs cancelled in
        (if keep obj then relative_entry normalized_prefix obj # es else es, cancelled))"

type_synonym 's listing = "(directory_entry list \<times> bool \<times> cancel \<times> 's) option"

fun flat_pages ::
  "nat \<Rightarrow> 's s3_client \<Rightarrow> string \<Rightarrow> string \<Rightarrow> string \<Rightarrow> string \<Rightarrow> cancel \<Rightarrow> 's \<Rightarrow> 's listing" where
  "flat_pages 0 client bucket normalized_prefix delimiter token cancelled s = None"
| "flat_pages (Suc fuel) client bucket normalized_prefix delimiter token cancelled s =
     (let (stop, cancelled) = poll cancelled in
      if stop then Some ([], True, cancelled, s)
      else let (r, s) = ListObjects client bucket normalized_prefix delimiter token 1000 s in
        if \<not> lr_success r then Some ([], False, cancelled, s)
        else let (es, cancelled) = collect_objects (keeps_object normalized_prefix)
                                     normalized_prefix (lr_objects r) cancelled in
          if lr_is_truncated r \<and> lr_next_token r = [] then Some (es, False, cancelled, s)
          else if lr_next_token r = [] then Some (es, True, cancelled, s)
          else let (stop, cancelled) = poll cancelled in
            if stop then Some (es, True, cancelled, s)
            else map_option (\<lambda>(es', complete, cancelled, s). (es @ es', complete, cancelled, s))
                   (flat_pages fuel client bucket normalized_prefix delimiter (lr_next_token r)
                      cancelled s))"

definition enumerate_s3_prefix ::
  "nat \<Rightarrow> 's s3_client option \<Rightarrow> string \<Rightarrow> string \<Rightarrow> bool \<Rightarrow> cancel \<Rightarrow> 's \<Rightarrow> 's listing" where
  "enumerate_s3_prefix fuel client bucket pre recursive cancelled s =
     (case client of
        None \<Rightarrow> Some ([], False, cancelled, s)
      | Some client \<Rightarrow>
          flat_pages fuel client bucket (with_slash pre) (if recursive then [] else ''/'') []
            cancelled s)"

section \<open>S3, level by level\<close>

definition keeps_object_bfs :: "bool \<Rightarrow> string \<Rightarrow> string \<Rightarrow> s3_object_info \<Rightarrow> bool" where
  "keeps_object_bfs include_directory_markers normalized_prefix current_prefix obj \<longleftrightarrow>
     (if include_directory_markers then \<not> length (oi_key obj) < length normalized_prefix
      else if oi_key obj = current_prefix then False
      else if ends_with_char CHR ''/'' (oi_key obj) then False
      else if length (oi_key obj) \<le> length normalized_prefix then False
      else True)"

text \<open>
  The \<^verbatim>\<open>do\<close> loop of one task: the entries and the sub-prefixes it found, and whether nothing was
  missed.
\<close>

fun prefix_pages ::
  "nat \<Rightarrow> 's s3_client \<Rightarrow> string \<Rightarrow> bool \<Rightarrow> string \<Rightarrow> string \<Rightarrow> string \<Rightarrow> cancel \<Rightarrow> 's \<Rightarrow>
   (directory_entry list \<times> string list \<times> bool \<times> cancel \<times> 's) option" where
  "prefix_pages 0 client bucket markers normalized_prefix current_prefix token cancelled s = None"
| "prefix_pages (Suc fuel) client bucket markers normalized_prefix current_prefix token cancelled s =
     (let (stop, cancelled) = poll cancelled in
      if stop then Some ([], [], True, cancelled, s)
      else let (r, s) = ListObjects client bucket current_prefix ''/'' token 1000 s in
        if \<not> lr_success r then Some ([], [], False, cancelled, s)
        else let (es, cancelled) =
                   collect_objects (keeps_object_bfs markers normalized_prefix current_prefix)
                     normalized_prefix (lr_objects r) cancelled;
                 subdirs = lr_common_prefixes r in
          if lr_is_truncated r \<and> lr_next_token r = [] then Some (es, subdirs, False, cancelled, s)
          else if lr_next_token r = [] then Some (es, subdirs, True, cancelled, s)
          else let (stop, cancelled) = poll cancelled in
            if stop then Some (es, subdirs, True, cancelled, s)
            else map_option (\<lambda>(es', subdirs', complete, cancelled, s).
                              (es @ es', subdirs @ subdirs', complete, cancelled, s))
                   (prefix_pages fuel client bucket markers normalized_prefix current_prefix
                      (lr_next_token r) cancelled s))"

definition process_prefix ::
  "nat \<Rightarrow> 's s3_client \<Rightarrow> string \<Rightarrow> bool \<Rightarrow> string \<Rightarrow> string \<Rightarrow> cancel \<Rightarrow> 's \<Rightarrow>
   (directory_entry list \<times> string list \<times> bool \<times> cancel \<times> 's) option" where
  "process_prefix fuel client bucket markers normalized_prefix current_prefix cancelled s =
     (let (stop, cancelled) = poll cancelled in
      if stop then Some ([], [], True, cancelled, s)
      else prefix_pages fuel client bucket markers normalized_prefix current_prefix [] cancelled s)"

text \<open>The posting loop: \<^verbatim>\<open>if (cancelled) break\<close> before each task; a single prefix is not posted.\<close>

fun post_tasks :: "'a list \<Rightarrow> cancel \<Rightarrow> 'a list \<times> cancel" where
  "post_tasks [] cancelled = ([], cancelled)"
| "post_tasks (p # ps) cancelled =
     (let (stop, cancelled) = poll cancelled in
      if stop then ([], cancelled)
      else let (posted, cancelled) = post_tasks ps cancelled in (p # posted, cancelled))"

definition level_tasks :: "'a list \<Rightarrow> cancel \<Rightarrow> 'a list \<times> cancel" where
  "level_tasks current_level cancelled =
     (if length current_level = 1 then (current_level, cancelled) else post_tasks current_level cancelled)"

fun run_prefix_tasks ::
  "nat \<Rightarrow> 's s3_client \<Rightarrow> string \<Rightarrow> bool \<Rightarrow> string \<Rightarrow> string list \<Rightarrow> cancel \<Rightarrow> 's \<Rightarrow>
   (directory_entry list \<times> string list \<times> bool \<times> cancel \<times> 's) option" where
  "run_prefix_tasks fuel client bucket markers normalized_prefix [] cancelled s =
     Some ([], [], True, cancelled, s)"
| "run_prefix_tasks fuel client bucket markers normalized_prefix (p # ps) cancelled s =
     (case process_prefix fuel client bucket markers normalized_prefix p cancelled s of
        None \<Rightarrow> None
      | Some (es, subdirs, complete, cancelled, s) \<Rightarrow>
          map_option (\<lambda>(es', subdirs', complete', cancelled, s).
                        (es @ es', subdirs @ subdirs', complete \<and> complete', cancelled, s))
            (run_prefix_tasks fuel client bucket markers normalized_prefix ps cancelled s))"

fun prefix_levels ::
  "nat \<Rightarrow> 's s3_client \<Rightarrow> string \<Rightarrow> bool \<Rightarrow> string \<Rightarrow> string list \<Rightarrow> cancel \<Rightarrow> 's \<Rightarrow> 's listing" where
  "prefix_levels 0 client bucket markers normalized_prefix current_level cancelled s = None"
| "prefix_levels (Suc fuel) client bucket markers normalized_prefix current_level cancelled s =
     (if current_level = [] then Some ([], True, cancelled, s)
      else let (stop, cancelled) = poll cancelled in
        if stop then Some ([], True, cancelled, s)
        else let (tasks, cancelled) = level_tasks current_level cancelled in
          case run_prefix_tasks fuel client bucket markers normalized_prefix tasks cancelled s of
            None \<Rightarrow> None
          | Some (es, next_level, complete, cancelled, s) \<Rightarrow>
              map_option (\<lambda>(es', complete', cancelled, s). (es @ es', complete \<and> complete', cancelled, s))
                (prefix_levels fuel client bucket markers normalized_prefix next_level cancelled s))"

definition parallel_enumerate_s3_prefix ::
  "nat \<Rightarrow> 's s3_client option \<Rightarrow> string \<Rightarrow> string \<Rightarrow> bool \<Rightarrow> bool \<Rightarrow> cancel \<Rightarrow> 's \<Rightarrow> 's listing" where
  "parallel_enumerate_s3_prefix fuel client bucket pre recursive markers cancelled s =
     (case client of
        None \<Rightarrow> Some ([], False, cancelled, s)
      | Some c \<Rightarrow>
          if \<not> recursive then enumerate_s3_prefix fuel client bucket pre False cancelled s
          else prefix_levels fuel c bucket markers (with_slash pre) [with_slash pre] cancelled s)"

section \<open>A listing does not touch the store\<close>

definition keeps_store :: "('s \<Rightarrow> store_view) \<Rightarrow> 's s3_client option \<Rightarrow> bool" where
  "keeps_store objects client \<longleftrightarrow> (case client of None \<Rightarrow> True | Some c \<Rightarrow> object_store c objects)"

context object_store
begin

lemma prefix_pages_keeps:
  "prefix_pages fuel client b m np p t c s = Some (es, ds, ok, c', s') \<Longrightarrow> objects s' = objects s"
proof (induction fuel arbitrary: t c s es ds ok)
  case (Suc fuel)
  obtain stop c1 where q: "poll c = (stop, c1)" by fastforce
  obtain r s1 where l: "ListObjects client b p ''/'' t 1000 s = (r, s1)" by fastforce
  note k = list_keeps [OF l]
  obtain es1 c2 where co: "collect_objects (keeps_object_bfs m np p) np (lr_objects r) c1 = (es1, c2)" by fastforce
  obtain stop2 c3 where q2: "poll c2 = (stop2, c3)" by fastforce
  from Suc.prems consider "s' = s" | "s' = s1"
    | es' ds' ok' where "prefix_pages fuel client b m np p (lr_next_token r) c3 s1 = Some (es', ds', ok', c', s')"
    by (auto simp: q l co q2 Let_def split: if_splits)
  then show ?case by cases (use k Suc.IH in auto)
qed simp

lemma run_prefix_tasks_keeps:
  "run_prefix_tasks fuel client b m np ps c s = Some (es, ds, ok, c', s') \<Longrightarrow> objects s' = objects s"
proof (induction ps arbitrary: c s es ds ok)
  case (Cons p ps)
  then obtain es1 ds1 ok1 c1 s1 es2 ds2 ok2 where
    a: "process_prefix fuel client b m np p c s = Some (es1, ds1, ok1, c1, s1)"
      "run_prefix_tasks fuel client b m np ps c1 s1 = Some (es2, ds2, ok2, c', s')"
    by (auto split: option.splits prod.splits)
  have "objects s1 = objects s"
    using a(1) by (auto simp: process_prefix_def dest: prefix_pages_keeps split: prod.splits if_splits)
  with Cons.IH [OF a(2)] show ?case by simp
qed simp

lemma prefix_levels_keeps:
  "prefix_levels fuel client b m np L c s = Some (es, ok, c', s') \<Longrightarrow> objects s' = objects s"
proof (induction fuel arbitrary: L c s es ok)
  case (Suc fuel)
  obtain stop c1 where q: "poll c = (stop, c1)" by fastforce
  obtain ts c2 where t: "level_tasks L c1 = (ts, c2)" by fastforce
  show ?case
  proof (cases "L = [] \<or> stop")
    case True
    with Suc.prems q show ?thesis by (auto split: if_splits)
  next
    case False
    with Suc.prems obtain es1 ds1 ok1 c3 s1 where a: "run_prefix_tasks fuel client b m np ts c2 s = Some (es1, ds1, ok1, c3, s1)"
      by (auto simp: q t split: option.splits)
    with Suc.prems False have "\<exists>es2 ok2. prefix_levels fuel client b m np ds1 c3 s1 = Some (es2, ok2, c', s')"
      by (auto simp: q t)
    with a run_prefix_tasks_keeps Suc.IH show ?thesis by metis
  qed
qed simp

lemma flat_pages_keeps:
  "flat_pages fuel client b np d t c s = Some (es, ok, c', s') \<Longrightarrow> objects s' = objects s"
proof (induction fuel arbitrary: t c s es ok)
  case (Suc fuel)
  obtain stop c1 where q: "poll c = (stop, c1)" by fastforce
  obtain r s1 where l: "ListObjects client b np d t 1000 s = (r, s1)" by fastforce
  note k = list_keeps [OF l]
  obtain es1 c2 where co: "collect_objects (keeps_object np) np (lr_objects r) c1 = (es1, c2)" by fastforce
  obtain stop2 c3 where q2: "poll c2 = (stop2, c3)" by fastforce
  from Suc.prems consider "s' = s" | "s' = s1"
    | es' ok' where "flat_pages fuel client b np d (lr_next_token r) c3 s1 = Some (es', ok', c', s')"
    by (auto simp: q l co q2 Let_def split: if_splits)
  then show ?case by cases (use k Suc.IH in auto)
qed simp

end

lemma listing_keeps:
  "parallel_enumerate_s3_prefix fuel client b p rec m c s = Some (es, ok, c', s') \<Longrightarrow> keeps_store objects client \<Longrightarrow>
     objects s' = objects s"
  by (auto simp: parallel_enumerate_s3_prefix_def enumerate_s3_prefix_def keeps_store_def split: option.splits if_splits
      dest: object_store.prefix_levels_keeps object_store.flat_pages_keeps)

lemma flat_listing_keeps:
  "enumerate_s3_prefix fuel client b p rec c s = Some (es, ok, c', s') \<Longrightarrow> keeps_store objects client \<Longrightarrow>
     objects s' = objects s"
  by (auto simp: enumerate_s3_prefix_def keeps_store_def split: option.splits dest: object_store.flat_pages_keeps)

section \<open>What a complete flat listing is\<close>

text \<open>The flag reads true from the load on at which it first read true.\<close>

lemma poll_keeps: "poll c = (stop, c') \<Longrightarrow> c' \<noteq> Some 0 \<Longrightarrow> \<not> stop"
  by (cases c rule: poll.cases) auto

lemma poll_cancelled_stays: "poll (Some 0) = (True, Some 0)"
  by simp

lemma collect_objects_sticky: "collect_objects keep np objs (Some 0) = (es, c) \<Longrightarrow> c = Some 0"
  by (cases objs) auto

lemma collect_objects_exact:
  "collect_objects keep np objs c = (es, c') \<Longrightarrow> c' \<noteq> Some 0 \<Longrightarrow>
   es = map (relative_entry np) (filter keep objs)"
proof (induction objs arbitrary: c es)
  case (Cons obj objs)
  obtain stop c1 where p: "poll c = (stop, c1)" by fastforce
  show ?case
  proof (cases stop)
    case True
    with p poll_sticky [of c c1] have "c1 = Some 0" by simp
    with True p Cons.prems show ?thesis by simp
  next
    case False
    obtain es1 c2 where r: "collect_objects keep np objs c1 = (es1, c2)" by fastforce
    from Cons.prems p r False have "c2 = c'" and es: "es = (if keep obj then relative_entry np obj # es1 else es1)"
      by auto
    with Cons.IH [of c1 es1] r Cons.prems(2) show ?thesis by simp
  qed
qed simp

context paged_store
begin

lemma flat_pages_returns:
  assumes "valid_store s" "length (remaining s b p t) < fuel"
  shows "\<exists>es ok c' s'. flat_pages fuel client b p [] t c s = Some (es, ok, c', s')"
  using assms
proof (induction fuel arbitrary: t c s)
  case (Suc fuel)
  obtain stop c1 where p: "poll c = (stop, c1)" by fastforce
  obtain r s1 where l: "ListObjects client b p [] t 1000 s = (r, s1)" by fastforce
  obtain es c2 where e: "collect_objects (keeps_object p) p (lr_objects r) c1 = (es, c2)" by fastforce
  obtain stop' c3 where p': "poll c2 = (stop', c3)" by fastforce
  note s1 = list_reads [OF l Suc.prems(1)]
  show ?case
  proof (cases "lr_success r \<and> lr_is_truncated r")
    case True
    then have "length (remaining s1 b p (lr_next_token r)) < fuel"
      using page_shrinks [OF l Suc.prems(1)] Suc.prems(2) s1 by simp
    then obtain es' ok c' s2 where
      "flat_pages fuel client b p [] (lr_next_token r) c3 s1 = Some (es', ok, c', s2)"
      using Suc.IH s1 by blast
    then show ?thesis by (cases ok) (simp_all add: p l e p' ex_bool_eq)
  next
    case False
    then have "lr_success r \<longrightarrow> lr_next_token r = []"
      using list_last [OF l Suc.prems(1)] by simp
    then show ?thesis by (simp add: p l e p' ex_bool_eq)
  qed
qed simp

lemma flat_pages_exact:
  assumes "valid_store s" "flat_pages fuel client b p [] t c s = Some (es, True, c', s')" "c' \<noteq> Some 0"
  shows "es = map (relative_entry p) (filter (keeps_object p) (remaining s b p t))"
  using assms(1,2)
proof (induction fuel arbitrary: t c s es)
  case (Suc fuel)
  obtain stop c1 where p: "poll c = (stop, c1)" by fastforce
  obtain r s1 where l: "ListObjects client b p [] t 1000 s = (r, s1)" by fastforce
  obtain es1 c2 where e: "collect_objects (keeps_object p) p (lr_objects r) c1 = (es1, c2)" by fastforce
  obtain stop' c3 where p': "poll c2 = (stop', c3)" by fastforce
  note s1 = list_reads [OF l Suc.prems(1)]
  have ns: "\<not> stop" using Suc.prems(2) assms(3) p poll_sticky [of c c1] by (auto simp: p)
  have ok: "lr_success r" using Suc.prems(2) ns by (simp add: p l split: if_splits)
  note page = list_page [OF l Suc.prems(1) ok]
  show ?case
  proof (cases "lr_is_truncated r")
    case True
    then have tok: "lr_next_token r \<noteq> []" using list_truncated [OF l Suc.prems(1)] by simp
    have ns': "\<not> stop'" using Suc.prems(2) assms(3) ns ok tok p' poll_sticky [of c2 c3]
      by (auto simp: p l e p')
    with Suc.prems(2) ns ok tok obtain es2 where r: "flat_pages fuel client b p [] (lr_next_token r) c3 s1 = Some (es2, True, c', s')"
      and es: "es = es1 @ es2"
      by (auto simp: p l e p')
    have "c3 \<noteq> Some 0"
    proof
      assume "c3 = Some 0"
      with r have "c' = Some 0" by (cases fuel) auto
      with assms(3) show False by simp
    qed
    then have "c2 \<noteq> Some 0" using p' ns' by (cases c2 rule: poll.cases) auto
    with collect_objects_exact [OF e] have "es1 = map (relative_entry p) (filter (keeps_object p) (lr_objects r))" by simp
    with Suc.IH [OF _ r] s1 es page True show ?thesis by simp
  next
    case False
    then have tok: "lr_next_token r = []" using list_last [OF l Suc.prems(1) _ ok] by simp
    with Suc.prems(2) ns ok False have "es = es1" "c2 = c'" by (auto simp: p l e)
    with collect_objects_exact [OF e] assms(3) page False show ?thesis by simp
  qed
qed simp

end

text \<open>
  against any service that pages as S3 does, the flat enumeration returns within as many rounds
  as there are objects, and a listing it reports complete, in a run not cancelled by then, is
  exactly the objects under the prefix in order, less the prefix and the directory markers.
\<close>

theorem complete_flat_listing_exact:
  assumes "paged_store client valid_store remaining" "valid_store s"
    and "length (remaining s b (with_slash p) []) < fuel"
  shows "(case enumerate_s3_prefix fuel (Some client) b p True c s of
            None \<Rightarrow> False
          | Some (es, complete, c', s') \<Rightarrow>
              \<not> complete \<or> fst (poll c') \<or>
              es = map (relative_entry (with_slash p))
                     (filter (keeps_object (with_slash p)) (remaining s b (with_slash p) [])))"
proof -
  obtain es ok c' s' where r: "flat_pages fuel client b (with_slash p) [] [] c s = Some (es, ok, c', s')"
    using paged_store.flat_pages_returns [OF assms] by blast
  with paged_store.flat_pages_exact [OF assms(1,2), of fuel b "with_slash p" "[]" c es c' s']
  show ?thesis by (cases ok) (auto simp: enumerate_s3_prefix_def poll_True_iff)
qed

definition two_objects :: mock where
  "two_objects = empty_mock\<lparr>mk_buckets := [(''b'', [(''p/y'', [1, 2]), (''p/x'', [3])])]\<rparr>"

theorem complete_flat_listing_exact_witness:
  "(case enumerate_s3_prefix 3 (Some (mock_client ieee_crc32 (\<lambda>_. []))) ''b'' ''p'' True None two_objects of
      None \<Rightarrow> False
    | Some (es, complete, c', s') \<Rightarrow>
        \<not> complete \<or> fst (poll c') \<or>
        es = map (relative_entry (with_slash ''p''))
               (filter (keeps_object (with_slash ''p'')) (mock_remaining two_objects ''b'' (with_slash ''p'') [])))"
proof (rule complete_flat_listing_exact [OF mock_pages.paged_store_axioms])
  show "mock_valid two_objects" by (simp add: mock_valid_def two_objects_def empty_mock_def)
  show "length (mock_remaining two_objects ''b'' (with_slash ''p'') []) < 3"
    by (simp add: mock_remaining_def two_objects_def empty_mock_def Let_def length_filter_le [THEN le_less_trans])
qed

end
