(* ===== verification/Rm.thy ===== *)
theory Rm
  imports Enumerate
begin

text \<open>
  \<^verbatim>\<open>run_rm\<close> of rm_task.cpp: resolving the name to an object or a prefix, the dry run, the two delete
  modes with their retries and presence checks, and the adaptive concurrency window.  A posted task
  runs when it is posted, one after the other; what the tasks share is the record \<open>rm_state\<close>.
  Sleeps, jitter and the progress mirrors of the counters are left out.
\<close>

record 's rm_state =
  rs_deleted :: nat
  rs_failed :: nat
  rs_bytes :: int
  rs_failed_keys :: "string list"
  rs_window :: nat
  rs_successes :: nat
  rs_cancelled :: cancel
  rs_world :: 's

definition rm_window_min :: nat where "rm_window_min = 16"

text \<open>Halve the window, but not below 16 and never upwards; double it, but not above the maximum.\<close>

definition shrink_window :: "nat \<Rightarrow> nat" where
  "shrink_window current =
     (let new_max = max (current div 2) rm_window_min in if new_max < current then new_max else current)"

definition grow_window :: "nat \<Rightarrow> nat \<Rightarrow> nat" where
  "grow_window max_concurrency current =
     (if current < max_concurrency then min (current * 2) max_concurrency else current)"

definition window_success :: "nat \<Rightarrow> nat \<Rightarrow> 's rm_state \<Rightarrow> 's rm_state" where
  "window_success every max_concurrency st =
     (let successes = rs_successes st + 1;
          st = st\<lparr>rs_successes := successes\<rparr> in
      if successes mod every = 0
      then st\<lparr>rs_window := grow_window max_concurrency (rs_window st)\<rparr> else st)"

definition window_failure :: "'s rm_state \<Rightarrow> 's rm_state" where
  "window_failure st = st\<lparr>rs_successes := 0, rs_window := shrink_window (rs_window st)\<rparr>"

definition book_failed :: "string list \<Rightarrow> 's rm_state \<Rightarrow> 's rm_state" where
  "book_failed keys st =
     st\<lparr>rs_failed := rs_failed st + length keys, rs_failed_keys := rs_failed_keys st @ keys\<rparr>"

definition book_deleted :: "nat \<Rightarrow> int \<Rightarrow> 's rm_state \<Rightarrow> 's rm_state" where
  "book_deleted n bytes st = st\<lparr>rs_deleted := rs_deleted st + n, rs_bytes := rs_bytes st + bytes\<rparr>"

definition poll_state :: "'s rm_state \<Rightarrow> bool \<times> 's rm_state" where
  "poll_state st = (let (stop, c) = poll (rs_cancelled st) in (stop, st\<lparr>rs_cancelled := c\<rparr>))"

section \<open>Deleting one object\<close>

datatype delete_outcome = Deleted | GaveUp | Stopped

text \<open>The retry loop; \<open>n\<close> counts the attempts left, \<^verbatim>\<open>max_retries + 1\<close> at first.\<close>

fun delete_attempts ::
  "nat \<Rightarrow> 's s3_client \<Rightarrow> string \<Rightarrow> string \<Rightarrow> 's rm_state \<Rightarrow> delete_outcome \<times> 's rm_state" where
  "delete_attempts 0 client bucket k st = (GaveUp, st)"
| "delete_attempts (Suc n) client bucket k st =
     (let (stop, st) = poll_state st in
      if stop then (Stopped, st)
      else let (ok, s) = DeleteObject client bucket k (rs_world st);
               st = st\<lparr>rs_world := s\<rparr>
           in if ok then (Deleted, st) else delete_attempts n client bucket k st)"

definition delete_task ::
  "'s s3_client \<Rightarrow> rm_config \<Rightarrow> nat \<Rightarrow> string \<Rightarrow> int \<Rightarrow> 's rm_state \<Rightarrow> 's rm_state" where
  "delete_task client cfg max_concurrency k sz st =
     (let (stop, st) = poll_state st in
      if stop then book_failed [k] st
      else let (outcome, st) = delete_attempts (rc_max_retries cfg + 1) client (rc_bucket cfg) k st in
        case outcome of
          Stopped \<Rightarrow> book_failed [k] st
        | Deleted \<Rightarrow> window_success 50 max_concurrency (book_deleted 1 sz st)
        | GaveUp \<Rightarrow>
            (let (presence, s) = CheckObjectPresence client (rc_bucket cfg) k (rs_world st);
                 st = st\<lparr>rs_world := s\<rparr>
             in if presence = NotFound
                then window_success 50 max_concurrency (book_deleted 1 sz st)
                else book_failed [k] (window_failure st)))"

text \<open>
  Waiting for a slot: with no task in flight the predicate holds as soon as the window is not empty,
  otherwise only once the flag is set.  \<^term>\<open>None\<close> is waiting forever.
\<close>

definition wait_slot :: "'s rm_state \<Rightarrow> 's rm_state option" where
  "wait_slot st =
     (if 0 < rs_window st then Some st
      else case rs_cancelled st of None \<Rightarrow> None | Some n \<Rightarrow> Some (st\<lparr>rs_cancelled := Some 0\<rparr>))"

text \<open>The posting loop over some work, common to both modes.\<close>

fun post_all ::
  "('w \<Rightarrow> 's rm_state \<Rightarrow> 's rm_state) \<Rightarrow> 'w list \<Rightarrow> 's rm_state \<Rightarrow> 's rm_state option" where
  "post_all task [] st = Some st"
| "post_all task (w # ws) st =
     (let (stop, st) = poll_state st in
      if stop then Some st
      else case wait_slot st of
        None \<Rightarrow> None
      | Some st \<Rightarrow>
          let (stop, st) = poll_state st in
          if stop then Some st else post_all task ws (task w st))"

definition rm_individual ::
  "'s s3_client \<Rightarrow> rm_config \<Rightarrow> nat \<Rightarrow> string \<Rightarrow> directory_entry list \<Rightarrow> 's rm_state \<Rightarrow> 's rm_state option" where
  "rm_individual client cfg max_concurrency effective_prefix entries st =
     post_all (\<lambda>e. delete_task client cfg max_concurrency (effective_prefix @ de_path e) (de_size e))
       entries st"

section \<open>Deleting in batches\<close>

definition BATCH_SIZE :: nat where "BATCH_SIZE = 500"
definition MAX_CONSECUTIVE_UNKNOWN :: nat where "MAX_CONSECUTIVE_UNKNOWN = 3"

text \<open>The sizes of the keys an attempt removed from what was left to delete.\<close>

definition attempt_bytes :: "(string \<times> int) list \<Rightarrow> string list \<Rightarrow> string list \<Rightarrow> int" where
  "attempt_bytes items to_delete failed =
     sum_list (map snd (filter (\<lambda>(k, sz). k \<notin> set failed \<and> k \<in> set to_delete) items))"

fun batch_attempts ::
  "nat \<Rightarrow> 's s3_client \<Rightarrow> string \<Rightarrow> (string \<times> int) list \<Rightarrow> string list \<Rightarrow> bool \<Rightarrow> 's rm_state \<Rightarrow>
   string list \<times> bool \<times> 's rm_state" where
  "batch_attempts 0 client bucket items to_delete had_total_failure st =
     (to_delete, had_total_failure, st)"
| "batch_attempts (Suc n) client bucket items to_delete had_total_failure st =
     (if to_delete = [] then (to_delete, had_total_failure, st)
      else let (failed, s) = DeleteObjects client bucket to_delete (rs_world st);
               had_total_failure = (had_total_failure \<or> length failed = length to_delete);
               st = book_deleted (length to_delete - length failed)
                      (attempt_bytes items to_delete failed) (st\<lparr>rs_world := s\<rparr>)
           in batch_attempts n client bucket items failed had_total_failure st)"

text \<open>
  The verification of a batch that failed wholesale: the keys still unverified, how many were
  confirmed deleted and their bytes.
\<close>

fun verify_batch ::
  "'s s3_client \<Rightarrow> string \<Rightarrow> (string \<rightharpoonup> int) \<Rightarrow> string list \<Rightarrow> nat \<Rightarrow> bool \<Rightarrow> 's rm_state \<Rightarrow>
   string list \<times> nat \<times> int \<times> 's rm_state" where
  "verify_batch client bucket size_of [] consecutive_unknown gave_up st = ([], 0, 0, st)"
| "verify_batch client bucket size_of (k # ks) consecutive_unknown gave_up st =
     (let (stop, st) = (if gave_up then (True, st) else poll_state st) in
      if stop then
        (let (rest, n, bytes, st) = verify_batch client bucket size_of ks consecutive_unknown gave_up st
         in (k # rest, n, bytes, st))
      else let (presence, s) = CheckObjectPresence client bucket k (rs_world st);
               st = st\<lparr>rs_world := s\<rparr> in
        if presence = NotFound then
          (let (rest, n, bytes, st) = verify_batch client bucket size_of ks 0 gave_up st;
               sz = (case size_of k of None \<Rightarrow> 0 | Some sz \<Rightarrow> if sz > 0 then sz else 0)
           in (rest, n + 1, sz + bytes, st))
        else
          (let unknown = (if presence = Unknown then consecutive_unknown + 1 else consecutive_unknown);
               gave_up = (presence = Unknown \<and> unknown \<ge> MAX_CONSECUTIVE_UNKNOWN);
               (rest, n, bytes, st) = verify_batch client bucket size_of ks unknown gave_up st
           in (k # rest, n, bytes, st)))"

definition process_batch ::
  "'s s3_client \<Rightarrow> rm_config \<Rightarrow> nat \<Rightarrow> (string \<times> int) list \<Rightarrow> 's rm_state \<Rightarrow> 's rm_state" where
  "process_batch client cfg max_concurrency items st =
     (let (stop, st) = poll_state st in
      if stop then book_failed (map fst items) st
      else let (to_delete, had_total_failure, st) =
                 batch_attempts (rc_max_retries cfg + 1) client (rc_bucket cfg) items (map fst items) False st;
               (stop, st) = poll_state st;
               st = (if stop then st
                     else if had_total_failure then window_failure st
                     else window_success 10 max_concurrency st);
               (to_delete, st) =
                 (if to_delete \<noteq> [] \<and> had_total_failure then
                    (let (unverified, n, bytes, st) =
                           verify_batch client (rc_bucket cfg) (map_of (rev items)) to_delete 0 False st
                     in (unverified, if n > 0 then book_deleted n bytes st else st))
                  else (to_delete, st))
           in if to_delete \<noteq> [] then book_failed to_delete st else st)"

text \<open>The batches: filled until the flag is set, the last one short.\<close>

function batches_of :: "'a list \<Rightarrow> 'a list list" where
  "batches_of xs = (if xs = [] then [] else take BATCH_SIZE xs # batches_of (drop BATCH_SIZE xs))"
  by pat_completeness auto
termination
  by (relation "measure length") (simp_all add: BATCH_SIZE_def)

declare batches_of.simps [simp del]

definition rm_batches ::
  "'s s3_client \<Rightarrow> rm_config \<Rightarrow> nat \<Rightarrow> string \<Rightarrow> directory_entry list \<Rightarrow> 's rm_state \<Rightarrow> 's rm_state option" where
  "rm_batches client cfg max_concurrency effective_prefix entries st =
     (let (taken, c) = post_tasks entries (rs_cancelled st);
          items = map (\<lambda>e. (effective_prefix @ de_path e, de_size e)) taken
      in post_all (process_batch client cfg max_concurrency) (batches_of items) (st\<lparr>rs_cancelled := c\<rparr>))"

section \<open>Resolving the name\<close>

text \<open>What the name stands for: an object and its size, a prefix, or a reason to stop.\<close>

datatype rm_target = RmFile int | RmDirectory string | RmStop string

definition s3_name :: "string \<Rightarrow> string \<Rightarrow> string" where
  "s3_name bucket path = ''s3://'' @ bucket @ ''/'' @ path"

definition page_has_anything :: "s3_list_result \<Rightarrow> bool" where
  "page_has_anything r \<longleftrightarrow> lr_objects r \<noteq> [] \<or> lr_common_prefixes r \<noteq> [] \<or> lr_is_truncated r"

definition unclear_message :: "rm_config \<Rightarrow> string" where
  "unclear_message cfg =
     ''Could not determine whether '' @ s3_name (rc_bucket cfg) (rc_prefix cfg) @
     '' is an object or a prefix, so it is not clear what would be deleted. Nothing was deleted. '' @
     ''Retry, or name the prefix explicitly to skip the object lookup.''"

definition rm_resolve :: "'s s3_client \<Rightarrow> rm_config \<Rightarrow> 's \<Rightarrow> rm_target \<times> 's" where
  "rm_resolve client cfg s =
     (if rc_prefix cfg = [] \<or> ends_with_char CHR ''/'' (rc_prefix cfg)
      then (RmDirectory (rc_prefix cfg), s)
      else let (file_size, s) = GetObjectSize client (rc_bucket cfg) (rc_prefix cfg) s in
        if file_size \<ge> 0 then (RmFile file_size, s)
        else let (presence, s) = CheckObjectPresence client (rc_bucket cfg) (rc_prefix cfg) s in
          case presence of
            Unknown \<Rightarrow> (RmStop (unclear_message cfg), s)
          | Exists \<Rightarrow> (RmFile 0, s)
          | NotFound \<Rightarrow>
              (let dir_prefix = rc_prefix cfg @ ''/'';
                   (r, s) = ListObjects client (rc_bucket cfg) dir_prefix ''/'' [] 1 s
               in if \<not> lr_success r
                  then (RmStop (''Could not list '' @ s3_name (rc_bucket cfg) dir_prefix @
                                '' to determine whether it is a prefix: '' @ lr_error r), s)
                  else if page_has_anything r then (RmDirectory dir_prefix, s)
                  else (RmStop (''Not found: '' @ rc_prefix cfg), s)))"

section \<open>One object\<close>

definition rm_file_warnings :: "'s s3_client \<Rightarrow> rm_config \<Rightarrow> 's \<Rightarrow> string list \<times> 's" where
  "rm_file_warnings client cfg s =
     (if rc_recursive cfg then
        (let sibling = rc_prefix cfg @ ''/'';
             (peek, s) = ListObjects client (rc_bucket cfg) sibling ''/'' [] 1 s
         in if \<not> lr_success peek
            then ([''Could not check whether '' @ s3_name (rc_bucket cfg) sibling @
                   '' also exists; if it does, it was not touched.''], s)
            else if page_has_anything peek
            then ([rc_prefix cfg @ '' is an object, so -r had no effect: '' @ sibling @
                   '' also exists and was not touched. Delete it with: mito rm -r '' @
                   s3_name (rc_bucket cfg) sibling], s)
            else ([], s))
      else ([], s))"

definition rm_file :: "'s s3_client \<Rightarrow> rm_config \<Rightarrow> int \<Rightarrow> 's \<Rightarrow> rm_result \<times> 's" where
  "rm_file client cfg file_size s =
     (let (warnings, s) = rm_file_warnings client cfg s;
          result = default_rm_result\<lparr>rr_warnings := warnings\<rparr> in
      if \<not> rc_force cfg then (result\<lparr>rr_success := True, rr_bytes_freed := file_size\<rparr>, s)
      else let (ok, s) = DeleteObject client (rc_bucket cfg) (rc_prefix cfg) s in
        if ok then (result\<lparr>rr_objects_deleted := 1, rr_bytes_freed := file_size, rr_success := True\<rparr>, s)
        else (result\<lparr>rr_objects_failed := 1, rr_failed_keys := [rc_prefix cfg]\<rparr>, s))"

section \<open>A prefix\<close>

definition initial_rm_state :: "nat \<Rightarrow> cancel \<Rightarrow> 's \<Rightarrow> 's rm_state" where
  "initial_rm_state max_concurrency c s =
     \<lparr>rs_deleted = 0, rs_failed = 0, rs_bytes = 0, rs_failed_keys = [],
      rs_window = min max_concurrency 64, rs_successes = 0, rs_cancelled = c, rs_world = s\<rparr>"

text \<open>The result of a run of deletions over \<open>n_entries\<close> entries, with the final look at the flag.\<close>

definition rm_finish :: "rm_config \<Rightarrow> string \<Rightarrow> nat \<Rightarrow> 's rm_state \<Rightarrow> rm_result \<times> cancel \<times> 's" where
  "rm_finish cfg effective_prefix n_entries st =
     (let (stop, st) = poll_state st;
          result = default_rm_result\<lparr>rr_objects_deleted := rs_deleted st, rr_objects_failed := rs_failed st,
                     rr_bytes_freed := rs_bytes st, rr_failed_keys := rs_failed_keys st,
                     rr_success := (rs_failed st = 0)\<rparr>;
          remaining = int n_entries - int (rs_deleted st)
      in (if stop \<and> remaining > 0
          then result\<lparr>rr_success := False,
                 rr_error := ''Cancelled after deleting '' @ show_nat (rs_deleted st) @ '' of '' @
                   show_nat n_entries @ '' objects under '' @ s3_name (rc_bucket cfg) effective_prefix @
                   ''. '' @ show_nat (nat remaining) @ '' were not deleted and are still there.''\<rparr>
          else result,
          rs_cancelled st, rs_world st))"

definition rm_delete_all ::
  "'s s3_client \<Rightarrow> rm_config \<Rightarrow> string \<Rightarrow> directory_entry list \<Rightarrow> cancel \<Rightarrow> 's \<Rightarrow>
   (rm_result \<times> cancel \<times> 's) option" where
  "rm_delete_all client cfg effective_prefix entries cancelled s =
     (let max_concurrency = rc_max_threads cfg;
          st = initial_rm_state max_concurrency cancelled s
      in map_option (rm_finish cfg effective_prefix (length entries))
           (if rc_batch cfg then rm_batches client cfg max_concurrency effective_prefix entries st
            else rm_individual client cfg max_concurrency effective_prefix entries st))"

definition rm_directory ::
  "nat \<Rightarrow> 's s3_client \<Rightarrow> rm_config \<Rightarrow> string \<Rightarrow> cancel \<Rightarrow> 's \<Rightarrow> (rm_result \<times> cancel \<times> 's) option" where
  "rm_directory fuel client cfg effective_prefix cancelled s =
     (case parallel_enumerate_s3_prefix fuel (Some client) (rc_bucket cfg) effective_prefix True True cancelled s of
        None \<Rightarrow> None
      | Some (entries, listing_complete, cancelled, s) \<Rightarrow>
          (let (stop, cancelled) = poll cancelled in
           if stop then Some (default_rm_result\<lparr>rr_error := ''Cancelled''\<rparr>, cancelled, s)
           else if \<not> listing_complete then
             Some (default_rm_result\<lparr>rr_error := ''Could not list '' @ s3_name (rc_bucket cfg) effective_prefix @
               '' completely, so an unknown number of objects would be left behind. '' @
               ''Refusing to delete a partial listing. The failures are logged above.''\<rparr>, cancelled, s)
           else if entries = [] then
             (if effective_prefix \<noteq> []
              then Some (default_rm_result\<lparr>rr_error := ''No objects found under: '' @ effective_prefix\<rparr>,
                         cancelled, s)
              else Some (default_rm_result\<lparr>rr_success := True\<rparr>, cancelled, s))
           else if \<not> rc_force cfg then
             Some (default_rm_result\<lparr>rr_success := True, rr_bytes_freed := sum_list (map de_size entries)\<rparr>,
                   cancelled, s)
           else rm_delete_all client cfg effective_prefix entries cancelled s))"

definition run_rm ::
  "nat \<Rightarrow> 's client_factory \<Rightarrow> rm_config \<Rightarrow> 's s3_client option \<Rightarrow> cancel \<Rightarrow> 's \<Rightarrow>
   (rm_result \<times> cancel \<times> 's) option" where
  "run_rm fuel create cfg injected cancelled s =
     (case (case injected of Some c \<Rightarrow> Some c
            | None \<Rightarrow> create (rc_region cfg) (rc_endpoint cfg) 128 []) of
        None \<Rightarrow> Some (default_rm_result\<lparr>rr_error := ''Failed to create S3 client''\<rparr>, cancelled, s)
      | Some client \<Rightarrow>
          (let (target, s) = rm_resolve client cfg s in
           case target of
             RmStop msg \<Rightarrow> Some (default_rm_result\<lparr>rr_error := msg\<rparr>, cancelled, s)
           | RmDirectory effective_prefix \<Rightarrow>
               if \<not> rc_recursive cfg
               then Some (default_rm_result\<lparr>rr_error := rc_prefix cfg @
                            '' is a directory, use -r to delete recursively''\<rparr>, cancelled, s)
               else rm_directory fuel client cfg effective_prefix cancelled s
           | RmFile file_size \<Rightarrow>
               (let (result, s) = rm_file client cfg file_size s in Some (result, cancelled, s))))"

section \<open>The contract of a deletion task\<close>

text \<open>
  What every task promises for the keys it was given, whichever mode it is in: each key is booked
  once, as deleted or as failed; a key that is not booked as failed is gone from the store; nothing
  else is touched and nothing is created; and the window stays between one and its maximum.
\<close>

definition window_ok :: "nat \<Rightarrow> 's rm_state \<Rightarrow> bool" where
  "window_ok m st \<longleftrightarrow> 1 \<le> rs_window st \<and> rs_window st \<le> m"

definition deletion_step ::
  "('s \<Rightarrow> store_view) \<Rightarrow> string \<Rightarrow> nat \<Rightarrow> string list \<Rightarrow> 's rm_state \<Rightarrow> 's rm_state \<Rightarrow> bool" where
  "deletion_step objects b m ks st st' \<longleftrightarrow>
     (\<exists>fk. rs_failed_keys st' = rs_failed_keys st @ fk \<and> rs_failed st' = rs_failed st + length fk \<and>
           set fk \<subseteq> set ks \<and> rs_deleted st' + length fk = rs_deleted st + length ks \<and>
           (\<forall>k. k \<in> set ks \<longrightarrow> k \<notin> set fk \<longrightarrow> objects (rs_world st') (b, k) = None)) \<and>
     only_removed (keys_in b ks) (objects (rs_world st)) (objects (rs_world st')) \<and>
     (window_ok m st \<longrightarrow> window_ok m st')"

lemma deletion_step_refl:
  "deletion_step objects b m [] st (st\<lparr>rs_cancelled := c\<rparr>)"
  by (simp add: deletion_step_def window_ok_def)

lemma deletion_step_trans:
  assumes "deletion_step objects b m ks st st1" "deletion_step objects b m ks' st1 st2"
  shows "deletion_step objects b m (ks @ ks') st st2"
proof -
  from assms(1) obtain f1 where f1:
    "rs_failed_keys st1 = rs_failed_keys st @ f1" "rs_failed st1 = rs_failed st + length f1"
    "set f1 \<subseteq> set ks" "rs_deleted st1 + length f1 = rs_deleted st + length ks"
    "\<And>k. k \<in> set ks \<Longrightarrow> k \<notin> set f1 \<Longrightarrow> objects (rs_world st1) (b, k) = None"
    unfolding deletion_step_def by blast
  from assms(2) obtain f2 where f2:
    "rs_failed_keys st2 = rs_failed_keys st1 @ f2" "rs_failed st2 = rs_failed st1 + length f2"
    "set f2 \<subseteq> set ks'" "rs_deleted st2 + length f2 = rs_deleted st1 + length ks'"
    "\<And>k. k \<in> set ks' \<Longrightarrow> k \<notin> set f2 \<Longrightarrow> objects (rs_world st2) (b, k) = None"
    unfolding deletion_step_def by blast
  have od: "only_removed (keys_in b ks) (objects (rs_world st)) (objects (rs_world st1))"
    "only_removed (keys_in b ks') (objects (rs_world st1)) (objects (rs_world st2))"
    using assms unfolding deletion_step_def by blast+
  note keep = only_removed_None [OF od(2)]
  show ?thesis
    unfolding deletion_step_def
  proof (intro conjI)
    show "\<exists>fk. rs_failed_keys st2 = rs_failed_keys st @ fk \<and> rs_failed st2 = rs_failed st + length fk \<and>
           set fk \<subseteq> set (ks @ ks') \<and> rs_deleted st2 + length fk = rs_deleted st + length (ks @ ks') \<and>
           (\<forall>k. k \<in> set (ks @ ks') \<longrightarrow> k \<notin> set fk \<longrightarrow> objects (rs_world st2) (b, k) = None)"
      using f1 f2 keep by (intro exI [of _ "f1 @ f2"]) auto
    have "only_removed (keys_in b (ks @ ks')) (objects (rs_world st)) (objects (rs_world st1))"
      using od(1) by (rule only_removed_mono) (auto intro: keys_in_mono)
    also have "only_removed (keys_in b (ks @ ks')) (objects (rs_world st1)) (objects (rs_world st2))"
      using od(2) by (rule only_removed_mono) (auto intro: keys_in_mono)
    finally show "only_removed (keys_in b (ks @ ks')) (objects (rs_world st)) (objects (rs_world st2))" .
    show "window_ok m st \<longrightarrow> window_ok m st2" using assms by (auto simp: deletion_step_def)
  qed
qed

lemma deletion_step_cong:
  assumes "deletion_step objects b m ks st st'"
    and "rs_failed_keys st0 = rs_failed_keys st" "rs_failed st0 = rs_failed st"
    "rs_deleted st0 = rs_deleted st" "objects (rs_world st0) = objects (rs_world st)"
    "rs_window st0 = rs_window st"
  shows "deletion_step objects b m ks st0 st'"
  using assms by (simp add: deletion_step_def window_ok_def)

lemma shrink_window_ok: "1 \<le> w \<Longrightarrow> w \<le> m \<Longrightarrow> 1 \<le> shrink_window w \<and> shrink_window w \<le> m"
  by (auto simp: shrink_window_def rm_window_min_def Let_def)

lemma grow_window_ok: "1 \<le> w \<Longrightarrow> w \<le> m \<Longrightarrow> 1 \<le> grow_window m w \<and> grow_window m w \<le> m"
  by (auto simp: grow_window_def)

lemma window_success_sel [simp]:
  "rs_failed_keys (window_success e m st) = rs_failed_keys st" "rs_failed (window_success e m st) = rs_failed st"
  "rs_deleted (window_success e m st) = rs_deleted st" "rs_world (window_success e m st) = rs_world st"
  "rs_cancelled (window_success e m st) = rs_cancelled st"
  "window_ok m st \<Longrightarrow> window_ok m (window_success e m st)"
  using grow_window_ok [of "rs_window st" m] by (auto simp: window_success_def Let_def window_ok_def)

lemma window_failure_sel [simp]:
  "rs_failed_keys (window_failure st) = rs_failed_keys st" "rs_failed (window_failure st) = rs_failed st"
  "rs_deleted (window_failure st) = rs_deleted st" "rs_world (window_failure st) = rs_world st"
  "window_ok m st \<Longrightarrow> window_ok m (window_failure st)"
  using shrink_window_ok [of "rs_window st" m] by (auto simp: window_failure_def window_ok_def)

lemma book_sel [simp]:
  "rs_failed_keys (book_failed ks st) = rs_failed_keys st @ ks" "rs_failed (book_failed ks st) = rs_failed st + length ks"
  "rs_deleted (book_failed ks st) = rs_deleted st" "rs_world (book_failed ks st) = rs_world st"
  "rs_window (book_failed ks st) = rs_window st"
  "rs_failed_keys (book_deleted n bytes st) = rs_failed_keys st" "rs_failed (book_deleted n bytes st) = rs_failed st"
  "rs_deleted (book_deleted n bytes st) = rs_deleted st + n" "rs_world (book_deleted n bytes st) = rs_world st"
  "rs_window (book_deleted n bytes st) = rs_window st"
  by (simp_all add: book_failed_def book_deleted_def)

lemma window_ok_book [simp]:
  "window_ok m (book_failed ks st) = window_ok m st" "window_ok m (book_deleted n bytes st) = window_ok m st"
  "window_ok m (st\<lparr>rs_world := s\<rparr>) = window_ok m st" "window_ok m (st\<lparr>rs_cancelled := c\<rparr>) = window_ok m st"
  by (simp_all add: window_ok_def)

lemma poll_state_stop: "poll_state st = (True, st') \<Longrightarrow> rs_cancelled st' = Some 0"
  by (auto simp: poll_state_def dest: poll_sticky split: prod.splits)

lemma poll_state_sel:
  assumes "poll_state st = (stop, st')"
  shows "rs_failed_keys st' = rs_failed_keys st" "rs_failed st' = rs_failed st" "rs_deleted st' = rs_deleted st"
    "rs_world st' = rs_world st" "rs_window st' = rs_window st" "rs_bytes st' = rs_bytes st"
  using assms by (auto simp: poll_state_def split: prod.splits)

text \<open>The posting loop returns, and composes the contracts of the tasks it ran.\<close>

lemma post_all_contract:
  assumes "\<And>w st. window_ok m st \<Longrightarrow> deletion_step objects b m (keys w) st (task w st)" "window_ok m st"
  shows "\<exists>st' ran. post_all task ws st = Some st' \<and> prefix ran ws \<and>
           deletion_step objects b m (concat (map keys ran)) st st' \<and>
           (rs_cancelled st' \<noteq> Some 0 \<longrightarrow> ran = ws)"
  using assms(2)
proof (induction ws arbitrary: st)
  case Nil
  have "deletion_step objects b m [] st (st\<lparr>rs_cancelled := rs_cancelled st\<rparr>)" by (rule deletion_step_refl)
  then show ?case by simp
next
  case (Cons w ws)
  obtain stop st1 where p: "poll_state st = (stop, st1)" by fastforce
  note s1 = poll_state_sel [OF p]
  have ok1: "window_ok m st1" using Cons.prems s1(5) by (simp add: window_ok_def)
  obtain stop2 st2 where p2: "poll_state st1 = (stop2, st2)" by fastforce
  note s2 = poll_state_sel [OF p2]
  have ok2: "window_ok m st2" using ok1 s2(5) by (simp add: window_ok_def)
  have w: "wait_slot st1 = Some st1" using ok1 by (simp add: wait_slot_def window_ok_def)
  show ?case
  proof (cases "stop \<or> stop2")
    case True
    define st' where "st' = (if stop then st1 else st2)"
    have c: "rs_cancelled st' = Some 0"
      using True p p2 poll_state_stop by (auto simp: st'_def split: if_splits)
    have "deletion_step objects b m [] st' (st'\<lparr>rs_cancelled := rs_cancelled st'\<rparr>)"
      by (rule deletion_step_refl)
    then have "deletion_step objects b m (concat (map keys [])) st st'"
      using s1 s2 by (intro deletion_step_cong [of objects b m "concat (map keys [])" st' st' st])
        (simp_all add: st'_def)
    moreover have "post_all task (w # ws) st = Some st'"
      using True p p2 w by (auto simp: st'_def)
    ultimately show ?thesis using c by (intro exI [of _ st'] exI [of _ "[]"]) simp
  next
    case False
    have step: "deletion_step objects b m (keys w) st (task w st2)"
      using assms(1) [OF ok2] by (rule deletion_step_cong) (simp_all add: s1 s2)
    have "window_ok m (task w st2)" using step Cons.prems by (simp add: deletion_step_def)
    from Cons.IH [OF this] obtain st' ran where
      d: "post_all task ws (task w st2) = Some st'" "prefix ran ws"
        "deletion_step objects b m (concat (map keys ran)) (task w st2) st'"
        "rs_cancelled st' \<noteq> Some 0 \<longrightarrow> ran = ws" by blast
    have "deletion_step objects b m (concat (map keys (w # ran))) st st'"
      using deletion_step_trans [OF step d(3)] by simp
    moreover have "post_all task (w # ws) st = Some st'" using False p p2 w d(1) by simp
    ultimately show ?thesis using d(2,4) by (intro exI [of _ st'] exI [of _ "w # ran"]) simp
  qed
qed

text \<open>What the calls of a task do to the store, in the form the contract needs.\<close>

abbreviation only_deletes :: "('s \<Rightarrow> store_view) \<Rightarrow> string \<Rightarrow> string list \<Rightarrow> 's \<Rightarrow> 's \<Rightarrow> bool" where
  "only_deletes objects b ks s s' \<equiv> only_removed (keys_in b ks) (objects s) (objects s')"

lemma only_deletes_mono:
  "only_deletes objects b ks s s' \<Longrightarrow> set ks \<subseteq> set ks' \<Longrightarrow> only_deletes objects b ks' s s'"
  by (erule only_removed_mono) (auto intro: keys_in_mono)

context object_store
begin

lemma delete_only_deletes:
  "DeleteObject client b k s = (ok, s') \<Longrightarrow> only_deletes objects b [k] s s'"
  using delete_ok [of b k s s'] delete_failed [of b k s s'] by (cases ok) auto

lemma delete_attempts_spec:
  assumes "delete_attempts n client b k st = (outcome, st')"
  shows "only_deletes objects b [k] (rs_world st) (rs_world st') \<and>
    rs_failed_keys st' = rs_failed_keys st \<and> rs_failed st' = rs_failed st \<and>
    rs_deleted st' = rs_deleted st \<and> rs_window st' = rs_window st \<and>
    (outcome = Deleted \<longrightarrow> objects (rs_world st') (b, k) = None)"
  using assms
proof (induction n arbitrary: st)
  case 0
  then show ?case by auto
next
  case (Suc n)
  obtain stop st1 where p: "poll_state st = (stop, st1)" by fastforce
  note s1 = poll_state_sel [OF p]
  obtain ok s where d: "DeleteObject client b k (rs_world st1) = (ok, s)" by fastforce
  note od = delete_only_deletes [OF d]
  show ?case
  proof (cases stop)
    case True
    with Suc.prems p s1 show ?thesis by auto
  next
    case ns: False
    show ?thesis
    proof (cases ok)
      case True
      with Suc.prems p ns d have "outcome = Deleted" "st' = st1\<lparr>rs_world := s\<rparr>" by auto
      with od s1 delete_ok [of b k "rs_world st1" s] d True show ?thesis by (simp del: fun_upd_apply) simp
    next
      case False
      with Suc.prems p ns d have "delete_attempts n client b k (st1\<lparr>rs_world := s\<rparr>) = (outcome, st')" by simp
      from Suc.IH [OF this] od s1 show ?thesis by (auto intro: only_removed_trans)
    qed
  qed
qed

lemma delete_task_contract:
  assumes "window_ok m st"
  shows "deletion_step objects (rc_bucket cfg) m [k] st (delete_task client cfg m k sz st)"
proof -
  let ?b = "rc_bucket cfg"
  obtain stop st1 where p: "poll_state st = (stop, st1)" by fastforce
  note s1 = poll_state_sel [OF p]
  obtain outcome st2 where a: "delete_attempts (rc_max_retries cfg + 1) client ?b k st1 = (outcome, st2)"
    by fastforce
  note s2 = delete_attempts_spec [OF a]
  obtain presence s where q: "CheckObjectPresence client ?b k (rs_world st2) = (presence, s)" by fastforce
  note reads = presence_reads [OF q]
  have ok: "window_ok m st1" "window_ok m st2" using assms s1(5) s2 by (auto simp: window_ok_def)
  have od: "only_deletes objects ?b [k] (rs_world st) (rs_world st2)" using s1(4) s2 by simp
  show ?thesis
  proof (cases "stop \<or> outcome = Stopped")
    case True
    define st' where "st' = (if stop then st1 else st2)"
    have t: "delete_task client cfg m k sz st = book_failed [k] st'"
      using True p a by (auto simp: delete_task_def st'_def Let_def)
    have "only_deletes objects ?b [k] (rs_world st) (rs_world st')"
      using od s1(4) by (simp add: st'_def)
    with ok s1 s2 show ?thesis
      unfolding t by (auto simp: deletion_step_def st'_def)
  next
    case ns: False
    show ?thesis
    proof (cases "outcome = Deleted \<or> presence = NotFound")
      case True
      define st3 where "st3 = (if outcome = Deleted then st2 else st2\<lparr>rs_world := s\<rparr>)"
      have t: "delete_task client cfg m k sz st = window_success 50 m (book_deleted 1 sz st3)"
        using ns True p a q by (cases outcome) (auto simp: delete_task_def st3_def Let_def)
      have gone: "objects (rs_world st3) (?b, k) = None"
        using ns True s2 q presence_not_found [of ?b k "rs_world st2" s] reads
        by (cases outcome) (auto simp: st3_def)
      have o3: "objects (rs_world st3) = objects (rs_world st2)" using reads by (simp add: st3_def)
      have "window_ok m st3" using ok by (simp add: st3_def)
      with ok s1 s2 od o3 gone show ?thesis
        unfolding t by (auto simp: deletion_step_def st3_def)
    next
      case False
      with ns have "outcome = GaveUp" by (cases outcome) auto
      then have t: "delete_task client cfg m k sz st = book_failed [k] (window_failure (st2\<lparr>rs_world := s\<rparr>))"
        using ns False p a q by (auto simp: delete_task_def Let_def)
      show ?thesis
        unfolding t using ok s1 s2 od reads by (auto simp: deletion_step_def)
    qed
  qed
qed

end

context object_store
begin

lemma batch_attempts_spec:
  assumes "batch_attempts n client b items td had st = (td', had', st')"
  shows "set td' \<subseteq> set td \<and> only_deletes objects b td (rs_world st) (rs_world st') \<and>
    rs_failed_keys st' = rs_failed_keys st \<and> rs_failed st' = rs_failed st \<and>
    rs_deleted st' + length td' = rs_deleted st + length td \<and> rs_window st' = rs_window st \<and>
    (\<forall>k. k \<in> set td \<longrightarrow> k \<notin> set td' \<longrightarrow> objects (rs_world st') (b, k) = None)"
  using assms
proof (induction n arbitrary: td had st)
  case 0
  then show ?case by auto
next
  case (Suc n)
  show ?case
  proof (cases "td = []")
    case True
    with Suc.prems show ?thesis by auto
  next
    case False
    obtain failed s where d: "DeleteObjects client b td (rs_world st) = (failed, s)" by fastforce
    note law = delete_batch [OF d]
    have law': "set failed \<subseteq> set td" "length failed \<le> length td"
      "\<And>k. k \<in> set td \<Longrightarrow> k \<notin> set failed \<Longrightarrow> objects s (b, k) = None"
      using law by auto
    have od: "only_deletes objects b td (rs_world st) s" using law by simp
    define st1 where "st1 = book_deleted (length td - length failed) (attempt_bytes items td failed) (st\<lparr>rs_world := s\<rparr>)"
    have r: "batch_attempts n client b items failed (had \<or> length failed = length td) st1 = (td', had', st')"
      using Suc.prems False d by (simp add: st1_def Let_def)
    note IH = Suc.IH [OF r]
    have keep: "objects s x = None \<Longrightarrow> objects (rs_world st') x = None" for x
      using IH only_removed_None [of "keys_in b failed" "objects s" "objects (rs_world st')" x] by (simp add: st1_def)
    have "only_deletes objects b td s (rs_world st')"
      using IH law'(1) only_deletes_mono by (force simp: st1_def)
    with od have "only_deletes objects b td (rs_world st) (rs_world st')" by (rule only_removed_trans)
    moreover have "objects (rs_world st') (b, k) = None" if "k \<in> set td" "k \<notin> set td'" for k
      using that law'(3) keep IH by (cases "k \<in> set failed") auto
    ultimately show ?thesis using IH law'(1,2) by (auto simp: st1_def)
  qed
qed

lemma verify_batch_spec:
  assumes "verify_batch client b size_of ks u g st = (rest, n, bytes, st')"
  shows "set rest \<subseteq> set ks \<and> n + length rest = length ks \<and>
    objects (rs_world st') = objects (rs_world st) \<and>
    rs_failed_keys st' = rs_failed_keys st \<and> rs_failed st' = rs_failed st \<and>
    rs_deleted st' = rs_deleted st \<and> rs_window st' = rs_window st \<and>
    (\<forall>k. k \<in> set ks \<longrightarrow> k \<notin> set rest \<longrightarrow> objects (rs_world st) (b, k) = None)"
  using assms
proof (induction ks arbitrary: u g st rest n bytes)
  case Nil
  then show ?case by auto
next
  case (Cons k ks)
  obtain stop st1 where p: "(if g then (True, st) else poll_state st) = (stop, st1)" by fastforce
  have s1: "rs_failed_keys st1 = rs_failed_keys st" "rs_failed st1 = rs_failed st"
    "rs_deleted st1 = rs_deleted st" "rs_world st1 = rs_world st" "rs_window st1 = rs_window st"
    using p poll_state_sel [of st stop st1] by (auto split: if_splits)
  obtain presence s where q: "CheckObjectPresence client b k (rs_world st1) = (presence, s)" by fastforce
  note reads = presence_reads [OF q]
  show ?case
  proof (cases stop)
    case True
    obtain rest1 n1 b1 st2 where v: "verify_batch client b size_of ks u g st1 = (rest1, n1, b1, st2)"
      by (metis prod_cases4)
    from Cons.prems p True v have e: "rest = k # rest1" "n = n1" "st2 = st'" by auto
    with Cons.IH [OF v [unfolded e(3)]] s1 show ?thesis by auto
  next
    case ns: False
    show ?thesis
    proof (cases "presence = NotFound")
      case True
      obtain rest1 n1 b1 st2 where v: "verify_batch client b size_of ks 0 g (st1\<lparr>rs_world := s\<rparr>) = (rest1, n1, b1, st2)"
        by (metis prod_cases4)
      from Cons.prems p ns q True v have e: "rest = rest1" "n = n1 + 1" "st2 = st'" by (auto simp: Let_def)
      moreover have "objects (rs_world st) (b, k) = None"
        using presence_not_found [of b k "rs_world st1" s] q True s1(4) by simp
      ultimately show ?thesis using Cons.IH [OF v [unfolded e(3)]] s1 reads e by auto
    next
      case False
      define u' where "u' = (if presence = Unknown then u + 1 else u)"
      define g' where "g' = (presence = Unknown \<and> u' \<ge> MAX_CONSECUTIVE_UNKNOWN)"
      obtain rest1 n1 b1 st2 where v: "verify_batch client b size_of ks u' g' (st1\<lparr>rs_world := s\<rparr>) = (rest1, n1, b1, st2)"
        by (metis prod_cases4)
      from Cons.prems p ns q False v have e: "rest = k # rest1" "n = n1" "st2 = st'"
        by (auto simp: u'_def g'_def Let_def)
      then show ?thesis using Cons.IH [OF v [unfolded e(3)]] s1 reads by auto
    qed
  qed
qed

lemma process_batch_contract:
  assumes "window_ok m st"
  shows "deletion_step objects (rc_bucket cfg) m (map fst items) st (process_batch client cfg m items st)"
proof -
  let ?b = "rc_bucket cfg" and ?ks = "map fst items"
  obtain stop st1 where p: "poll_state st = (stop, st1)" by fastforce
  note s1 = poll_state_sel [OF p]
  show ?thesis
  proof (cases stop)
    case True
    with p have t: "process_batch client cfg m items st = book_failed ?ks st1"
      by (simp add: process_batch_def)
    from assms s1 show ?thesis
      unfolding t by (auto simp: deletion_step_def window_ok_def)
  next
    case False
    obtain td had st2 where a: "batch_attempts (rc_max_retries cfg + 1) client ?b items ?ks False st1 = (td, had, st2)"
      by (metis prod_cases3)
    note s2 = batch_attempts_spec [OF a]
    obtain stop2 st3 where p3: "poll_state st2 = (stop2, st3)" by fastforce
    note s3 = poll_state_sel [OF p3]
    define st4 where "st4 = (if stop2 then st3 else if had then window_failure st3 else window_success 10 m st3)"
    have w3: "window_ok m st3" using assms s1(5) s2 s3(5) by (simp add: window_ok_def)
    have s4: "rs_failed_keys st4 = rs_failed_keys st3" "rs_failed st4 = rs_failed st3"
      "rs_deleted st4 = rs_deleted st3" "rs_world st4 = rs_world st3" "window_ok m st4"
      using w3 by (auto simp: st4_def)
    obtain rest n bytes st5 where v: "verify_batch client ?b (map_of (rev items)) td 0 False st4 = (rest, n, bytes, st5)"
      by (metis prod_cases4)
    note s5 = verify_batch_spec [OF v]
    define td' where "td' = (if td \<noteq> [] \<and> had then rest else td)"
    define st6 where "st6 = (if td \<noteq> [] \<and> had then (if n > 0 then book_deleted n bytes st5 else st5) else st4)"
    have t: "process_batch client cfg m items st = (if td' \<noteq> [] then book_failed td' st6 else st6)"
      using p False a p3 v by (simp add: process_batch_def st4_def [symmetric] td'_def st6_def Let_def del: batch_attempts.simps verify_batch.simps)
    have f: "rs_failed_keys st6 = rs_failed_keys st" "rs_failed st6 = rs_failed st"
      "rs_deleted st6 + length td' = rs_deleted st + length ?ks" "window_ok m st6"
      "set td' \<subseteq> set ?ks" "objects (rs_world st6) = objects (rs_world st2)"
      using s1 s2 s3 s4 s5 by (auto simp: st6_def td'_def window_ok_def)
    have gone: "objects (rs_world st6) (?b, k) = None" if "k \<in> set ?ks" "k \<notin> set td'" for k
    proof (cases "k \<in> set td")
      case True
      with that have "td \<noteq> [] \<and> had" "k \<notin> set rest" by (auto simp: td'_def split: if_splits)
      with s5 True have "objects (rs_world st4) (?b, k) = None" by blast
      with s3 s4 f(6) show ?thesis by simp
    next
      case False
      with that s2 f(6) show ?thesis by auto
    qed
    have od: "only_deletes objects ?b ?ks (rs_world st) (rs_world st6)"
      using s1(4) s2 f(6) by simp
    show ?thesis
      unfolding t using f gone od by (auto simp: deletion_step_def)
  qed
qed

end

section \<open>A whole run\<close>

lemma concat_batches_of [simp]: "concat (batches_of xs) = xs"
proof (induction xs rule: batches_of.induct)
  case (1 xs)
  show ?case
  proof (cases "xs = []")
    case True
    then show ?thesis by (simp add: batches_of.simps)
  next
    case False
    then show ?thesis using 1 [OF False] by (subst batches_of.simps) simp
  qed
qed

lemma post_tasks_prefix: "post_tasks ps c = (tasks, c') \<Longrightarrow> prefix tasks ps \<and> (c' \<noteq> Some 0 \<longrightarrow> tasks = ps)"
proof (induction ps arbitrary: c tasks)
  case (Cons p ps)
  obtain stop c1 where q: "poll c = (stop, c1)" by fastforce
  obtain posted c2 where r: "post_tasks ps c1 = (posted, c2)" by fastforce
  show ?case
  proof (cases stop)
    case True
    with Cons.prems q poll_sticky [of c c1] show ?thesis by auto
  next
    case False
    with Cons.prems q r have "tasks = p # posted" "c2 = c'" by auto
    with Cons.IH [of c1 posted] r show ?thesis by auto
  qed
qed simp

lemma post_tasks_cancelled: "post_tasks ps (Some 0) = (tasks, c') \<Longrightarrow> c' = Some 0"
  by (cases ps) auto

context object_store
begin

lemma post_all_cancelled:
  "post_all task ws st = Some st' \<Longrightarrow> rs_cancelled st = Some 0 \<Longrightarrow> rs_cancelled st' = Some 0"
  by (cases ws) (auto simp: poll_state_def)

text \<open>Both modes: the keys handled are a prefix of the entries, all of them unless the run was stopped.\<close>

lemma rm_run_contract:
  fixes c :: cancel and s :: 's and p :: string and entries :: "directory_entry list"
  assumes "1 \<le> rc_max_threads cfg"
  defines "st0 \<equiv> initial_rm_state (rc_max_threads cfg) c s"
  defines "keys \<equiv> map (\<lambda>e. p @ de_path e) entries"
  shows "\<exists>st' ran. (if rc_batch cfg then rm_batches client cfg (rc_max_threads cfg) p entries st0
                     else rm_individual client cfg (rc_max_threads cfg) p entries st0) = Some st' \<and>
           prefix ran keys \<and> deletion_step objects (rc_bucket cfg) (rc_max_threads cfg) ran st0 st' \<and>
           (rs_cancelled st' \<noteq> Some 0 \<longrightarrow> ran = keys)"
proof (cases "rc_batch cfg")
  case False
  have ok: "window_ok (rc_max_threads cfg) st0"
    using assms(1) by (simp add: st0_def initial_rm_state_def window_ok_def)
  let ?task = "\<lambda>e. delete_task client cfg (rc_max_threads cfg) (p @ de_path e) (de_size e)"
  obtain st' ran where r: "post_all ?task entries st0 = Some st'" "prefix ran entries"
    "deletion_step objects (rc_bucket cfg) (rc_max_threads cfg) (concat (map (\<lambda>e. [p @ de_path e]) ran)) st0 st'"
    "rs_cancelled st' \<noteq> Some 0 \<longrightarrow> ran = entries"
    using post_all_contract [of "rc_max_threads cfg" objects "rc_bucket cfg" "\<lambda>e. [p @ de_path e]" ?task st0 entries]
      delete_task_contract ok by blast
  have "concat (map (\<lambda>e. [p @ de_path e]) ran) = map (\<lambda>e. p @ de_path e) ran" by (induction ran) auto
  with r False show ?thesis
    by (intro exI [of _ st'] exI [of _ "map (\<lambda>e. p @ de_path e) ran"])
       (auto simp: rm_individual_def keys_def map_mono_prefix)
next
  case True
  obtain taken c1 where t: "post_tasks entries (rs_cancelled st0) = (taken, c1)" by fastforce
  define st1 where "st1 = st0\<lparr>rs_cancelled := c1\<rparr>"
  define items where "items = map (\<lambda>e. (p @ de_path e, de_size e)) taken"
  have ok: "window_ok (rc_max_threads cfg) st1"
    using assms(1) by (simp add: st1_def st0_def initial_rm_state_def window_ok_def)
  let ?task = "process_batch client cfg (rc_max_threads cfg)"
  obtain st' ran where r: "post_all ?task (batches_of items) st1 = Some st'" "prefix ran (batches_of items)"
    "deletion_step objects (rc_bucket cfg) (rc_max_threads cfg) (concat (map (map fst) ran)) st1 st'"
    "rs_cancelled st' \<noteq> Some 0 \<longrightarrow> ran = batches_of items"
    using post_all_contract [of "rc_max_threads cfg" objects "rc_bucket cfg" "map fst" ?task st1 "batches_of items"]
      process_batch_contract ok by blast
  have step: "deletion_step objects (rc_bucket cfg) (rc_max_threads cfg) (concat (map (map fst) ran)) st0 st'"
    using r(3) by (rule deletion_step_cong) (simp_all add: st1_def)
  have items: "concat (map (map fst) (batches_of items)) = map (\<lambda>e. p @ de_path e) taken"
    by (simp add: items_def flip: map_concat)
  have pre: "prefix (concat (map (map fst) ran)) keys"
  proof -
    have "prefix (concat (map (map fst) ran)) (concat (map (map fst) (batches_of items)))"
      using r(2) by (auto simp: prefix_def)
    moreover have "prefix (map (\<lambda>e. p @ de_path e) taken) keys"
      using post_tasks_prefix [OF t] by (simp add: keys_def map_mono_prefix)
    ultimately show ?thesis using items by (metis prefix_order.trans)
  qed
  have all: "concat (map (map fst) ran) = keys" if nc: "rs_cancelled st' \<noteq> Some 0"
  proof -
    have "c1 \<noteq> Some 0"
      using post_all_cancelled [OF r(1)] nc by (auto simp: st1_def)
    with post_tasks_prefix [OF t] have "taken = entries" by simp
    with r(4) nc items show ?thesis by (simp add: keys_def)
  qed
  show ?thesis
    using True t r(1) step pre all
    by (intro exI [of _ st'] exI [of _ "concat (map (map fst) ran)"])
       (simp add: rm_batches_def items_def st1_def)
qed

end

text \<open>The result of deleting a list of entries, judged against the store it leaves behind.\<close>

definition rm_honest ::
  "('s \<Rightarrow> store_view) \<Rightarrow> string \<Rightarrow> string list \<Rightarrow> 's \<Rightarrow> rm_result \<times> cancel \<times> 's \<Rightarrow> bool" where
  "rm_honest objects b keys s = (\<lambda>(res, c', s').
     (if rr_success res then list_all (\<lambda>k. objects s' (b, k) = None) keys else True) \<and>
     rr_objects_failed res = length (rr_failed_keys res) \<and>
     set (rr_failed_keys res) \<subseteq> set keys \<and>
     (if c' = Some 0 then rr_objects_deleted res + rr_objects_failed res \<le> length keys
      else rr_objects_deleted res + rr_objects_failed res = length keys) \<and>
     only_deletes objects b keys s s')"

lemma rm_delete_all_honest:
  assumes "object_store client objects" "1 \<le> rc_max_threads cfg"
  shows "case rm_delete_all client cfg p entries c s of
           None \<Rightarrow> False
         | Some r \<Rightarrow> rm_honest objects (rc_bucket cfg) (map (\<lambda>e. p @ de_path e) entries) s r"
proof -
  let ?keys = "map (\<lambda>e. p @ de_path e) entries" and ?b = "rc_bucket cfg"
  let ?st0 = "initial_rm_state (rc_max_threads cfg) c s"
  obtain st' ran where r: "(if rc_batch cfg then rm_batches client cfg (rc_max_threads cfg) p entries ?st0
       else rm_individual client cfg (rc_max_threads cfg) p entries ?st0) = Some st'"
    "prefix ran ?keys" "deletion_step objects ?b (rc_max_threads cfg) ran ?st0 st'"
    "rs_cancelled st' \<noteq> Some 0 \<longrightarrow> ran = ?keys"
    using object_store.rm_run_contract [OF assms(1,2), where c = c and s = s and p = p and entries = entries] by blast
  from r(3) obtain fk where f: "rs_failed_keys st' = fk" "rs_failed st' = length fk" "set fk \<subseteq> set ran"
    "rs_deleted st' + length fk = length ran"
    "\<And>k. k \<in> set ran \<Longrightarrow> k \<notin> set fk \<Longrightarrow> objects (rs_world st') (?b, k) = None"
    and od: "only_deletes objects ?b ran s (rs_world st')"
    by (auto simp: deletion_step_def initial_rm_state_def)
  obtain stop st2 where q: "poll_state st' = (stop, st2)" by fastforce
  note s2 = poll_state_sel [OF q]
  have len: "length ran \<le> length ?keys" "set ran \<subseteq> set ?keys"
    using prefix_length_le [OF r(2)] set_mono_prefix [OF r(2)] by simp_all
  have whole: "ran = ?keys" if "\<not> stop"
  proof -
    have "rs_cancelled st' \<noteq> Some 0" using q that by (auto simp: poll_state_def)
    with r(4) show ?thesis by simp
  qed
  have done_all: "ran = ?keys" if "length ran = length ?keys"
    using r(2) that unfolding prefix_def by fastforce
  define res where "res = fst (rm_finish cfg p (length entries) st')"
  have run: "rm_delete_all client cfg p entries c s = Some (res, rs_cancelled st2, rs_world st')"
    using r(1) q s2(4) by (auto simp: rm_delete_all_def Let_def res_def rm_finish_def split: if_splits)
  have res: "rr_objects_deleted res = rs_deleted st'" "rr_objects_failed res = length fk" "rr_failed_keys res = fk"
    "rr_success res \<Longrightarrow> fk = [] \<and> (stop \<longrightarrow> length entries \<le> rs_deleted st')"
    using q s2 f by (auto simp: res_def rm_finish_def default_rm_result_def Let_def split: if_splits)
  have "list_all (\<lambda>k. objects (rs_world st') (?b, k) = None) ?keys" if "rr_success res"
  proof -
    have fk: "fk = []" and "stop \<longrightarrow> length entries \<le> rs_deleted st'" using res(4) that by auto
    with f(4) len(1) have "stop \<longrightarrow> length ran = length ?keys" by simp
    with whole done_all have "ran = ?keys" by blast
    with f(5) fk show ?thesis by (auto simp: list_all_iff)
  qed
  moreover have "rs_cancelled st2 \<noteq> Some 0 \<Longrightarrow> ran = ?keys"
    using whole poll_state_stop [of st' st2] q by (cases stop) auto
  ultimately show ?thesis
    using f(3,4) len res(1-3) only_deletes_mono [OF od len(2)]
    by (auto simp: run rm_honest_def)
qed

text \<open>
  C28: deleting the entries of a listing, in either mode, however the service fails and whenever the
  run is cancelled: the run ends; every entry is booked once, as deleted or as failed, unless it
  was cancelled; a run that reports success leaves none of the entries in the store; and nothing
  but the listed keys is touched.
\<close>

theorem rm_report_is_honest:
  assumes "object_store client objects" "1 \<le> rc_max_threads cfg"
  shows "case rm_delete_all client cfg p entries c s of
           None \<Rightarrow> False
         | Some r \<Rightarrow> rm_honest objects (rc_bucket cfg) (map (\<lambda>e. p @ de_path e) entries) s r"
  by (rule rm_delete_all_honest [OF assms])

definition rm_everything_under_p :: rm_config where
  "rm_everything_under_p = \<lparr>rc_bucket = ''b'', rc_prefix = ''p/'', rc_region = [], rc_endpoint = [],
     rc_recursive = True, rc_force = True, rc_batch = True, rc_max_threads = 4, rc_max_retries = 1\<rparr>"

theorem rm_report_is_honest_witness:
  "case rm_delete_all (mock_client ieee_crc32 (\<lambda>_. [])) rm_everything_under_p ''p/''
          [\<lparr>de_path = ''x'', de_size = 1, de_mtime = 0\<rparr>] None two_objects of
     None \<Rightarrow> False
   | Some r \<Rightarrow> rm_honest mock_objects_view (rc_bucket rm_everything_under_p)
        (map (\<lambda>e. ''p/'' @ de_path e) [\<lparr>de_path = ''x'', de_size = 1, de_mtime = 0\<rparr>]) two_objects r"
  by (rule rm_report_is_honest [OF mock_store.object_store_axioms]) (simp add: rm_everything_under_p_def)

context object_store
begin

lemma prefix_pages_reads:
  "prefix_pages fuel client b mk np cp t c s = Some (es, ds, ok, c', s') \<Longrightarrow> objects s' = objects s"
proof (induction fuel arbitrary: t c s es ds ok)
  case (Suc fuel)
  obtain stop c1 where p: "poll c = (stop, c1)" by fastforce
  obtain r s1 where l: "ListObjects client b cp ''/'' t 1000 s = (r, s1)" by fastforce
  obtain es1 c2 where e: "collect_objects (keeps_object_bfs mk np cp) np (lr_objects r) c1 = (es1, c2)" by fastforce
  obtain stop2 c3 where p2: "poll c2 = (stop2, c3)" by fastforce
  from Suc.prems Suc.IH list_keeps [OF l] show ?case
    by (auto simp: p l e p2 Let_def split: if_splits)
qed simp

lemma run_prefix_tasks_reads:
  "run_prefix_tasks fuel client b mk np ps c s = Some (es, ds, ok, c', s') \<Longrightarrow> objects s' = objects s"
proof (induction ps arbitrary: c s es ds ok)
  case (Cons p ps)
  then obtain es1 ds1 ok1 c1 s1 where
    q: "process_prefix fuel client b mk np p c s = Some (es1, ds1, ok1, c1, s1)"
    by (fastforce split: option.splits)
  have "objects s1 = objects s"
    using q prefix_pages_reads by (auto simp: process_prefix_def split: prod.splits if_splits)
  with Cons q show ?case by (auto split: option.splits)
qed simp

lemma prefix_levels_reads:
  "prefix_levels fuel client b mk np lvl c s = Some (es, ok, c', s') \<Longrightarrow> objects s' = objects s"
proof (induction fuel arbitrary: lvl c s es ok)
  case (Suc fuel)
  obtain stop c1 where p: "poll c = (stop, c1)" by fastforce
  obtain tasks c2 where t: "level_tasks lvl c1 = (tasks, c2)" by fastforce
  show ?case
  proof (cases "lvl = [] \<or> stop")
    case True
    with Suc.prems p show ?thesis by (auto split: if_splits)
  next
    case False
    show ?thesis
    proof (cases "run_prefix_tasks fuel client b mk np tasks c2 s")
      case None
      with Suc.prems False p t show ?thesis by simp
    next
      case (Some x)
      then obtain es1 ds1 ok1 c3 s1 where
        q: "run_prefix_tasks fuel client b mk np tasks c2 s = Some (es1, ds1, ok1, c3, s1)"
        by (cases x) auto
      from Suc.prems False p t q obtain es2 ok2 where
        "prefix_levels fuel client b mk np ds1 c3 s1 = Some (es2, ok2, c', s')"
        by auto
      from Suc.IH [OF this] run_prefix_tasks_reads [OF q] show ?thesis by simp
    qed
  qed
qed simp

lemma rm_resolve_reads: "rm_resolve client cfg s = (target, s') \<Longrightarrow> objects s' = objects s"
  by (auto simp: rm_resolve_def Let_def dest!: size_reads presence_reads list_keeps
      split: if_splits prod.splits s3_presence.splits)

lemma rm_file_warnings_reads: "rm_file_warnings client cfg s = (ws, s') \<Longrightarrow> objects s' = objects s"
  by (auto simp: rm_file_warnings_def Let_def dest!: list_keeps split: if_splits prod.splits)

end

text \<open>What \<^verbatim>\<open>rm\<close> may ever delete: the object named, or keys under the name as a directory.\<close>

definition rm_scope :: "rm_config \<Rightarrow> string \<Rightarrow> bool" where
  "rm_scope cfg k \<longleftrightarrow>
     k = rc_prefix cfg \<and> \<not> (rc_prefix cfg = [] \<or> ends_with_char CHR ''/'' (rc_prefix cfg)) \<or>
     starts_with k (with_slash (rc_prefix cfg)) \<and> rc_recursive cfg"

definition rm_in_scope ::
  "('s \<Rightarrow> store_view) \<Rightarrow> rm_config \<Rightarrow> 's \<Rightarrow> 's \<Rightarrow> bool" where
  "rm_in_scope objects cfg s s' \<longleftrightarrow>
     only_removed (\<lambda>(b, k). rc_force cfg \<and> b = rc_bucket cfg \<and> rm_scope cfg k) (objects s) (objects s')"

lemma rm_delete_all_scope:
  assumes "object_store client objects"
    and "rm_delete_all client cfg p entries c s = Some (res, c', s')" "1 \<le> rc_max_threads cfg"
  shows "only_deletes objects (rc_bucket cfg) (map (\<lambda>e. p @ de_path e) entries) s s'"
  using rm_delete_all_honest [OF assms(1,3), where p = p and entries = entries and c = c and s = s] assms(2) by (simp add: rm_honest_def)

lemma in_scope_refl: "objects s' = objects s \<Longrightarrow> rm_in_scope objects cfg s s'"
  by (simp add: rm_in_scope_def)

lemma rm_resolve_target:
  assumes "rm_resolve client cfg s = (target, s')"
  shows "(\<forall>p. target = RmDirectory p \<longrightarrow> p = with_slash (rc_prefix cfg)) \<and>
         (\<forall>n. target = RmFile n \<longrightarrow> \<not> (rc_prefix cfg = [] \<or> ends_with_char CHR ''/'' (rc_prefix cfg)))"
  using assms
  by (auto simp: rm_resolve_def Let_def with_slash_def ends_with_char_def
      split: if_splits prod.splits s3_presence.splits)

lemma rm_directory_scope:
  assumes "object_store client objects" "1 \<le> rc_max_threads cfg" "rc_recursive cfg"
    and "rm_directory fuel client cfg (with_slash (rc_prefix cfg)) c s = Some (res, c', s')"
  shows "rm_in_scope objects cfg s s'"
proof -
  let ?p = "with_slash (rc_prefix cfg)"
  obtain es ok c1 s1 where e: "parallel_enumerate_s3_prefix fuel (Some client) (rc_bucket cfg) ?p True True c s
      = Some (es, ok, c1, s1)"
    using assms(4) by (cases "parallel_enumerate_s3_prefix fuel (Some client) (rc_bucket cfg) ?p True True c s")
      (auto simp: rm_directory_def)
  have s1: "objects s1 = objects s"
    using e object_store.prefix_levels_reads [OF assms(1)] by (auto simp: parallel_enumerate_s3_prefix_def)
  obtain stop c2 where p: "poll c1 = (stop, c2)" by fastforce
  show ?thesis
  proof (cases "objects s' = objects s")
    case True
    then show ?thesis by (rule in_scope_refl)
  next
    case False
    with assms(4) e s1 p have "rc_force cfg"
      "rm_delete_all client cfg ?p es c2 s1 = Some (res, c', s')"
      by (auto simp: rm_directory_def split: if_splits)
    note this(1) and od = rm_delete_all_scope [OF assms(1) this(2) assms(2)]
    have scope: "rm_scope cfg k" if "k \<in> set (map (\<lambda>e. ?p @ de_path e) es)" for k
      using that assms(3) by (auto simp: rm_scope_def)
    show ?thesis
      unfolding rm_in_scope_def using od [unfolded s1] \<open>rc_force cfg\<close> scope
      by (auto elim!: only_removed_mono)
  qed
qed

text \<open>
  C29: whatever the service answers, \<^verbatim>\<open>rm\<close> deletes nothing without \<^verbatim>\<open>--force\<close>, and with it only the object
  it was given, or with \<^verbatim>\<open>-r\<close> keys under the name as a directory; it never changes or creates an
  object.  In particular a failed lookup never makes it delete the prefix instead of the object.
\<close>

theorem rm_stays_in_scope:
  assumes "object_store client objects" "1 \<le> rc_max_threads cfg"
  shows "case run_rm fuel create cfg (Some client) c s of
           None \<Rightarrow> True
         | Some (res, c', s') \<Rightarrow> rm_in_scope objects cfg s s'"
proof (cases "run_rm fuel create cfg (Some client) c s")
  case None
  then show ?thesis by simp
next
  case (Some r)
  obtain res c' s' where r: "r = (res, c', s')" by (metis prod_cases3)
  obtain target s1 where t: "rm_resolve client cfg s = (target, s1)" by fastforce
  have s1: "objects s1 = objects s" using object_store.rm_resolve_reads [OF assms(1) t] .
  note target = rm_resolve_target [OF t]
  have "rm_in_scope objects cfg s s'"
  proof (cases target)
    case (RmStop msg)
    with Some r t s1 show ?thesis by (auto simp: run_rm_def intro: in_scope_refl)
  next
    case (RmDirectory p)
    show ?thesis
    proof (cases "rc_recursive cfg")
      case True
      with Some r t RmDirectory target have
        "rm_directory fuel client cfg (with_slash (rc_prefix cfg)) c s1 = Some (res, c', s')"
        by (simp add: run_rm_def)
      from rm_directory_scope [OF assms True this] s1 show ?thesis by (simp add: rm_in_scope_def)
    next
      case False
      with Some r t s1 RmDirectory show ?thesis by (auto simp: run_rm_def intro: in_scope_refl)
    qed
  next
    case (RmFile n)
    obtain ws s2 where w: "rm_file_warnings client cfg s1 = (ws, s2)" by fastforce
    have s2: "objects s2 = objects s1" using object_store.rm_file_warnings_reads [OF assms(1) w] .
    obtain ok s3 where d: "DeleteObject client (rc_bucket cfg) (rc_prefix cfg) s2 = (ok, s3)" by fastforce
    note od = object_store.delete_only_deletes [OF assms(1) d]
    from Some r t RmFile w d have s': "s' = (if rc_force cfg then s3 else s2)"
      by (auto simp: run_rm_def rm_file_def Let_def split: if_splits)
    have "rm_scope cfg (rc_prefix cfg)" using target RmFile by (simp add: rm_scope_def)
    with od s1 s2 s' show ?thesis
      unfolding rm_in_scope_def by (auto elim!: only_removed_mono)
  qed
  with Some r show ?thesis by simp
qed

theorem rm_stays_in_scope_witness:
  "case run_rm 5 (\<lambda>_ _ _ _. None) rm_everything_under_p (Some (mock_client ieee_crc32 (\<lambda>_. []))) None two_objects of
     None \<Rightarrow> True
   | Some (res, c', s') \<Rightarrow> rm_in_scope mock_objects_view rm_everything_under_p two_objects s'"
  by (rule rm_stays_in_scope [OF mock_store.object_store_axioms]) (simp add: rm_everything_under_p_def)

text \<open>
  When the name is not marked as a prefix, its size lookup fails and the service cannot say whether
  the object is there, \<^verbatim>\<open>rm\<close> stops with an error and the store is as it was, whatever the flags.
\<close>

theorem rm_unknown_presence_deletes_nothing:
  assumes "object_store client objects"
    and "rc_prefix cfg \<noteq> []" "\<not> ends_with_char CHR ''/'' (rc_prefix cfg)"
    and "GetObjectSize client (rc_bucket cfg) (rc_prefix cfg) s = (n, s1)" "n < 0"
    and "CheckObjectPresence client (rc_bucket cfg) (rc_prefix cfg) s1 = (Unknown, s2)"
  shows "run_rm fuel create cfg (Some client) c s =
           Some (default_rm_result\<lparr>rr_error := unclear_message cfg\<rparr>, c, s2) \<and>
         objects s2 = objects s"
  using assms(2-) object_store.size_reads [OF assms(1,4)] object_store.presence_reads [OF assms(1,6)]
  by (simp add: run_rm_def rm_resolve_def)

definition unreachable_object :: mock where
  "unreachable_object = SetFailure ''b'' ''p'' MGetObjectSize two_objects"

definition rm_p :: rm_config where
  "rm_p = rm_everything_under_p\<lparr>rc_prefix := ''p''\<rparr>"

theorem rm_unknown_presence_deletes_nothing_witness:
  "\<exists>s2. run_rm 5 (\<lambda>_ _ _ _. None) rm_p (Some (mock_client ieee_crc32 (\<lambda>_. []))) None unreachable_object =
          Some (default_rm_result\<lparr>rr_error := unclear_message rm_p\<rparr>, None, s2) \<and>
        mock_objects_view s2 = mock_objects_view unreachable_object"
proof -
  let ?s1 = "count_call (failure_key ''b'' ''p'' MGetObjectSize) unreachable_object"
  let ?s2 = "count_call (failure_key ''b'' ''p'' MCheckObjectPresence) ?s1"
  have f: "mk_failures unreachable_object = [failure_key ''b'' ''p'' MGetObjectSize]"
    "mk_transient unreachable_object = Map.empty"
    by (simp_all add: unreachable_object_def SetFailure_def two_objects_def empty_mock_def)
  have ne: "failure_key ''b'' ''p'' MCheckObjectPresence \<noteq> failure_key ''b'' ''p'' MGetObjectSize"
    by (simp add: failure_key_def)
  have a: "GetObjectSize (mock_client ieee_crc32 (\<lambda>_. [])) (rc_bucket rm_p) (rc_prefix rm_p) unreachable_object = (-1, ?s1)"
    by (simp add: rm_p_def rm_everything_under_p_def mock_GetObjectSize_def injected_failure_def
        count_call_def f)
  have b: "CheckObjectPresence (mock_client ieee_crc32 (\<lambda>_. [])) (rc_bucket rm_p) (rc_prefix rm_p) ?s1 = (Unknown, ?s2)"
    using ne by (simp add: rm_p_def rm_everything_under_p_def mock_CheckObjectPresence_def
        transient_failure_def count_call_def f Let_def)
  show ?thesis
    by (intro exI, rule rm_unknown_presence_deletes_nothing [OF mock_store.object_store_axioms _ _ a _ b])
       (simp_all add: rm_p_def rm_everything_under_p_def ends_with_char_def)
qed

end
