(* ===== verification/Comparison.thy ===== *)
theory Comparison
  imports S3_Mock
begin

text \<open>
  comparison_task.cpp: \<^verbatim>\<open>run_comparison\<close> of two files by their chunk checksums and
  \<^verbatim>\<open>analyze_mismatched_chunk\<close> block by block; the adaptive block size and the small-file analysis of
  directory_comparison.cpp; the byte providers of byte_provider.cpp.  \<open>files\<close> is the local file
  system while the comparison runs, a parameter; \<open>rd path\<close> is \<^verbatim>\<open>pread\<close> on the file at \<open>path\<close>.  The two
  asynchronous tasks of a comparison run one after the other.
\<close>

type_synonym local_files = "string \<Rightarrow> byte list option"

record comparison_config =
  cc_source_a :: file_source
  cc_source_b :: file_source
  cc_chunk_ids :: "int list"
  cc_max_connections :: int
  cc_chunk_size :: int

record comparison_result =
  cr_source_a_crcs :: "crc32 list"
  cr_source_b_crcs :: "crc32 list"
  cr_error :: string
  cr_success :: bool
  cr_all_match :: bool
  cr_mismatched :: "nat list"
  cr_extra_a :: "nat list"
  cr_extra_b :: "nat list"
  cr_size_a :: int
  cr_size_b :: int
  cr_file_size :: int

definition default_comparison_result :: comparison_result where
  "default_comparison_result = \<lparr>cr_source_a_crcs = [], cr_source_b_crcs = [], cr_error = [],
     cr_success = False, cr_all_match = False, cr_mismatched = [], cr_extra_a = [], cr_extra_b = [],
     cr_size_a = 0, cr_size_b = 0, cr_file_size = 0\<rparr>"

definition GetLocalFileSize :: "local_files \<Rightarrow> string \<Rightarrow> int" where
  "GetLocalFileSize files path = (case files path of None \<Rightarrow> -1 | Some d \<Rightarrow> int (length d))"

definition get_source_size ::
  "local_files \<Rightarrow> file_source \<Rightarrow> 's s3_client option \<Rightarrow> 's \<Rightarrow> int \<times> 's" where
  "get_source_size files src client s =
     (case fs_type src of
        Local \<Rightarrow> (GetLocalFileSize files (fs_path src), s)
      | S3 \<Rightarrow> (case client of None \<Rightarrow> (-1, s) | Some c \<Rightarrow> GetObjectSize c (fs_bucket src) (fs_path src) s))"

definition compute_source_crcs ::
  "zng_crc \<Rightarrow> local_files \<Rightarrow> (string \<Rightarrow> pread) \<Rightarrow> file_source \<Rightarrow> int \<Rightarrow> int list \<Rightarrow> cancel \<Rightarrow>
   's s3_client option \<Rightarrow> int \<Rightarrow> 's \<Rightarrow> crc32 list \<times> cancel \<times> 's" where
  "compute_source_crcs z files rd src file_size chunk_ids cancelled client chunk_size s =
     (let (stop, cancelled) = poll cancelled in
      if stop then ([], cancelled, s)
      else case fs_type src of
        Local \<Rightarrow> (compute_crc32_chunks z (rd (fs_path src))
                    (map_option (\<lambda>d. int (length d)) (files (fs_path src))) chunk_ids chunk_size,
                  cancelled, s)
      | S3 \<Rightarrow> (case client of
                 None \<Rightarrow> ([], cancelled, s)
               | Some c \<Rightarrow>
                   let (crcs, s) = GetChunkCRC32s c (fs_bucket src) (fs_path src) file_size chunk_ids chunk_size s
                   in (crcs, cancelled, s)))"

text \<open>Which clients the two sources get: the injected ones, a shared one, or new ones.\<close>

definition comparison_clients ::
  "'s client_factory \<Rightarrow> comparison_config \<Rightarrow> 's s3_client option \<Rightarrow> 's s3_client option \<Rightarrow>
   's s3_client option \<times> 's s3_client option" where
  "comparison_clients create cfg injected_a injected_b =
     (let a = cc_source_a cfg; b = cc_source_b cfg;
          client_a = (if fs_type a = S3 then
                        (case injected_a of Some c \<Rightarrow> Some c
                         | None \<Rightarrow> create (fs_region a) (fs_endpoint a) (cc_max_connections cfg) (fs_profile a))
                      else None);
          client_b = (if fs_type b = S3 then
                        (case injected_b of Some c \<Rightarrow> Some c
                         | None \<Rightarrow>
                             if should_reuse_s3_client a b then client_a
                             else create (fs_region b) (fs_endpoint b) (cc_max_connections cfg) (fs_profile b))
                      else None)
      in (client_a, client_b))"

text \<open>The comparison of the two checksum vectors (lines 176 to 202).\<close>

definition compare_crcs :: "crc32 list \<Rightarrow> crc32 list \<Rightarrow> comparison_result \<Rightarrow> comparison_result" where
  "compare_crcs a b result =
     (let chunks_a = length a; chunks_b = length b; common = min chunks_a chunks_b;
          mismatched = filter (\<lambda>i. a ! i \<noteq> b ! i) [0 ..< common];
          extra_a = (if chunks_a > chunks_b then [chunks_b ..< chunks_a] else []);
          extra_b = (if chunks_b > chunks_a then [chunks_a ..< chunks_b] else [])
      in result\<lparr>cr_all_match := (mismatched = [] \<and> extra_a = [] \<and> extra_b = []),
                cr_mismatched := mismatched, cr_extra_a := extra_a, cr_extra_b := extra_b,
                cr_success := True\<rparr>)"

definition run_comparison ::
  "'s client_factory \<Rightarrow> zng_crc \<Rightarrow> local_files \<Rightarrow> (string \<Rightarrow> pread) \<Rightarrow> comparison_config \<Rightarrow>
   's s3_client option \<Rightarrow> 's s3_client option \<Rightarrow> cancel \<Rightarrow> 's \<Rightarrow> comparison_result \<times> cancel \<times> 's" where
  "run_comparison create z files rd cfg injected_a injected_b cancelled s =
     (let (client_a, client_b) = comparison_clients create cfg injected_a injected_b;
          result = default_comparison_result;
          (size_a, s) = get_source_size files (cc_source_a cfg) client_a s in
      if size_a < 0 then (result\<lparr>cr_error := ''Failed to get size for source A''\<rparr>, cancelled, s)
      else let (size_b, s) = get_source_size files (cc_source_b cfg) client_b s in
        if size_b < 0 then (result\<lparr>cr_error := ''Failed to get size for source B''\<rparr>, cancelled, s)
        else let (crcs_a, cancelled, s) = compute_source_crcs z files rd (cc_source_a cfg) size_a
                    (cc_chunk_ids cfg) cancelled client_a (cc_chunk_size cfg) s;
                 (crcs_b, cancelled, s) = compute_source_crcs z files rd (cc_source_b cfg) size_b
                    (cc_chunk_ids cfg) cancelled client_b (cc_chunk_size cfg) s;
                 result = result\<lparr>cr_size_a := size_a, cr_size_b := size_b,
                    cr_file_size := min size_a size_b, cr_source_a_crcs := crcs_a, cr_source_b_crcs := crcs_b\<rparr>;
                 (stop, cancelled) = poll cancelled in
          if stop then (result\<lparr>cr_error := ''Cancelled''\<rparr>, cancelled, s)
          else if crcs_a = [] \<and> size_a > 0 then
            (result\<lparr>cr_error := ''Failed to compute CRC32 checksums for source A''\<rparr>, cancelled, s)
          else if crcs_b = [] \<and> size_b > 0 then
            (result\<lparr>cr_error := ''Failed to compute CRC32 checksums for source B''\<rparr>, cancelled, s)
          else (compare_crcs crcs_a crcs_b result, cancelled, s))"

section \<open>Blocks of a mismatched chunk\<close>

record block_analysis =
  ba_chunk_index :: int
  ba_chunk_size :: int
  ba_block_size :: int
  ba_block_matches :: "bool list"
  ba_total_blocks :: int
  ba_blocks_different :: int
  ba_bytes_different :: int
  ba_first_diff :: int
  ba_last_diff :: int
  ba_computed :: bool
  ba_error :: string

definition default_block_analysis :: block_analysis where
  "default_block_analysis = \<lparr>ba_chunk_index = -1, ba_chunk_size = 0, ba_block_size = BLOCK_SIZE,
     ba_block_matches = [], ba_total_blocks = 0, ba_blocks_different = 0, ba_bytes_different = 0,
     ba_first_diff = -1, ba_last_diff = -1, ba_computed = False, ba_error = []\<rparr>"

text \<open>\<^verbatim>\<open>pread\<close> of a whole chunk is one call: a short read is a failure, the empty vector.\<close>

definition read_local_chunk ::
  "local_files \<Rightarrow> (string \<Rightarrow> pread) \<Rightarrow> string \<Rightarrow> int \<Rightarrow> int \<Rightarrow> int \<Rightarrow> byte list" where
  "read_local_chunk files rd path chunk_index file_size chunk_size =
     (let start = chunk_index * chunk_size; len = min chunk_size (file_size - start) in
      if len \<le> 0 then []
      else if files path = None then []
      else let d = pread_at_most (rd path) start len in
        if int (length d) \<noteq> len then [] else d)"

definition read_s3_chunk ::
  "'s s3_client \<Rightarrow> string \<Rightarrow> string \<Rightarrow> int \<Rightarrow> int \<Rightarrow> int \<Rightarrow> 's \<Rightarrow> byte list \<times> 's" where
  "read_s3_chunk client bucket key chunk_index file_size chunk_size s =
     (let start = chunk_index * chunk_size in
      if start < 0 \<or> start \<ge> file_size then ([], s)
      else GetObjectRange client bucket key start (min (start + chunk_size - 1) (file_size - 1)) s)"

text \<open>
  One byte of a block, then one block; the counters and offsets of the result are updated as the code
  updates them.
\<close>

definition compare_byte :: "byte list \<Rightarrow> byte list \<Rightarrow> nat \<Rightarrow> bool \<times> block_analysis \<Rightarrow> bool \<times> block_analysis" where
  "compare_byte a b i = (\<lambda>(matches, r).
     if a ! i \<noteq> b ! i then
       (False, r\<lparr>ba_bytes_different := ba_bytes_different r + 1,
                 ba_first_diff := (if ba_first_diff r < 0 then int i else ba_first_diff r),
                 ba_last_diff := int i\<rparr>)
     else (matches, r))"

definition compare_block :: "byte list \<Rightarrow> byte list \<Rightarrow> int \<Rightarrow> int \<Rightarrow> block_analysis \<Rightarrow> block_analysis" where
  "compare_block a b block_size block r =
     (let block_start = block * block_size;
          block_end = min (block_start + block_size) (int (length a));
          (matches, r) = fold (compare_byte a b) [nat block_start ..< nat block_end] (True, r);
          r = r\<lparr>ba_block_matches := (ba_block_matches r)[nat block := matches]\<rparr>
      in if \<not> matches then r\<lparr>ba_blocks_different := ba_blocks_different r + 1\<rparr> else r)"

definition analyze_buffers ::
  "byte list \<Rightarrow> byte list \<Rightarrow> int \<Rightarrow> block_analysis \<Rightarrow> bool \<times> block_analysis" where
  "analyze_buffers a b block_size r =
     (if length a \<noteq> length b then
        (False, r\<lparr>ba_error := ''Buffer size mismatch: A='' @ show_nat (length a) @ '', B='' @ show_nat (length b)\<rparr>)
      else let num_blocks = ceil_div (int (length a)) block_size;
               r = r\<lparr>ba_chunk_size := int (length a), ba_block_size := block_size,
                     ba_total_blocks := num_blocks, ba_block_matches := replicate (nat num_blocks) True,
                     ba_bytes_different := 0, ba_blocks_different := 0, ba_first_diff := -1,
                     ba_last_diff := -1\<rparr>
           in (True, fold (compare_block a b block_size) [0 .. num_blocks - 1] r))"

definition read_chunk ::
  "local_files \<Rightarrow> (string \<Rightarrow> pread) \<Rightarrow> file_source \<Rightarrow> 's s3_client option \<Rightarrow> int \<Rightarrow> int \<Rightarrow> int \<Rightarrow> 's \<Rightarrow>
   byte list \<times> 's" where
  "read_chunk files rd src client chunk_index file_size chunk_size s =
     (case fs_type src of
        Local \<Rightarrow> (read_local_chunk files rd (fs_path src) chunk_index file_size chunk_size, s)
      | S3 \<Rightarrow> (case client of
                 None \<Rightarrow> ([], s)
               | Some c \<Rightarrow> read_s3_chunk c (fs_bucket src) (fs_path src) chunk_index file_size chunk_size s))"

definition analyze_mismatched_chunk ::
  "'s client_factory \<Rightarrow> local_files \<Rightarrow> (string \<Rightarrow> pread) \<Rightarrow> file_source \<Rightarrow> file_source \<Rightarrow> int \<Rightarrow> int \<Rightarrow>
   's s3_client option \<Rightarrow> 's s3_client option \<Rightarrow> int \<Rightarrow> int \<Rightarrow> 's \<Rightarrow> block_analysis \<times> 's" where
  "analyze_mismatched_chunk create files rd source_a source_b chunk_index file_size client_a0 client_b0
       chunk_size0 block_size0 s =
     (let r = default_block_analysis\<lparr>ba_chunk_index := chunk_index\<rparr>;
          chunk_size = (if chunk_size0 \<le> 0 then CHUNK_SIZE else chunk_size0);
          block_size = (if block_size0 \<le> 0 then BLOCK_SIZE else block_size0);
          client_a = (case client_a0 of Some c \<Rightarrow> Some c
                      | None \<Rightarrow> if fs_type source_a = S3
                                then create (fs_region source_a) (fs_endpoint source_a) 128 (fs_profile source_a)
                                else None) in
      if fs_type source_a = S3 \<and> Option.is_none client_a then
        (r\<lparr>ba_error := ''Failed to create S3 client for source A (region: '' @ fs_region source_a @ '')''\<rparr>, s)
      else let client_b = (case client_b0 of Some c \<Rightarrow> Some c
                           | None \<Rightarrow> if fs_type source_b = S3
                                     then if should_reuse_s3_client source_a source_b then client_a
                                          else create (fs_region source_b) (fs_endpoint source_b) 128 (fs_profile source_b)
                                     else None) in
        if fs_type source_b = S3 \<and> Option.is_none client_b then
          (r\<lparr>ba_error := ''Failed to create S3 client for source B (region: '' @ fs_region source_b @ '')''\<rparr>, s)
        else let (data_a, s) = read_chunk files rd source_a client_a chunk_index file_size chunk_size s;
                 (data_b, s) = read_chunk files rd source_b client_b chunk_index file_size chunk_size s in
          if data_a = [] then (r\<lparr>ba_error := ''Failed to read chunk from source A''\<rparr>, s)
          else if data_b = [] then (r\<lparr>ba_error := ''Failed to read chunk from source B''\<rparr>, s)
          else if length data_a \<noteq> length data_b then
            (r\<lparr>ba_error := ''Chunk sizes don't match: A='' @ show_nat (length data_a) @ '', B='' @
                 show_nat (length data_b)\<rparr>, s)
          else let (ok, r) = analyze_buffers data_a data_b block_size r in
            (if ok then r\<lparr>ba_computed := True\<rparr> else r, s))"

section \<open>The verdict\<close>

definition whole_file_ids :: "int \<Rightarrow> byte list \<Rightarrow> int list" where
  "whole_file_ids cs d = [0 .. ceil_div (int (length d)) cs - 1]"

definition chunks :: "int \<Rightarrow> byte list \<Rightarrow> byte list list" where
  "chunks cs d = map (chunk_bytes cs d) (whole_file_ids cs d)"

lemma slices_append:
  "concat (map (\<lambda>i. slice (i * c) c d) [0 ..< n]) = take (n * c) d"
proof (induction n)
  case (Suc n)
  then show ?case
    using take_add [of "n * c" c d] by (simp add: slice_def add.commute)
qed simp

lemma upto_as_upt: "[0 .. int n - 1] = map int [0 ..< n]"
  by (induction n) (simp_all add: upto_rec2)

lemma concat_chunks:
  assumes "0 < cs"
  shows "concat (chunks cs d) = d"
proof -
  define n where "n = nat (ceil_div (int (length d)) cs)"
  have n: "ceil_div (int (length d)) cs = int n"
    using ceil_div_nonneg [OF assms, of "int (length d)"] by (simp add: n_def)
  have "int (length d) \<le> int n * cs" using ceil_div_bounds(1) [OF assms, of "int (length d)"] n by simp
  then have len: "length d \<le> n * nat cs"
    using assms by (metis int_nat_eq less_imp_le of_nat_le_iff of_nat_mult)
  have "nat (int i * cs) = i * nat cs" for i
    by (simp add: nat_mult_distrib)
  then have "concat (chunks cs d) = concat (map (\<lambda>i. slice (i * nat cs) (nat cs) d) [0 ..< n])"
    by (simp add: chunks_def whole_file_ids_def n upto_as_upt comp_def chunk_bytes_def)
  with len show ?thesis by (simp add: slices_append)
qed

lemma length_chunks: "0 < cs \<Longrightarrow> length (chunks cs d) = nat (ceil_div (int (length d)) cs)"
  by (simp add: chunks_def whole_file_ids_def)

lemma chunks_Nil_iff: "0 < cs \<Longrightarrow> chunks cs d = [] \<longleftrightarrow> d = []"
  using concat_chunks [of cs d] by (cases d) (auto simp: chunks_def whole_file_ids_def)

lemma compare_crcs_exact:
  "cr_all_match (compare_crcs a b r) \<longleftrightarrow> a = b"
proof -
  have "a = b \<longleftrightarrow> length a = length b \<and> (\<forall>i \<in> set [0 ..< min (length a) (length b)]. \<not> a ! i \<noteq> b ! i)"
    by (auto intro: nth_equalityI)
  then show ?thesis
    unfolding compare_crcs_def Let_def by (auto simp: filter_empty_conv simp del: not_not)
qed

text \<open>What a caller relies on of the chunk checksums a client computes.\<close>

locale chunk_crc_store = object_store client objects
  for client :: "'s s3_client" and objects :: "'s \<Rightarrow> store_view" +
  fixes z :: zng_crc
  assumes chunk_reads: "GetChunkCRC32s client b k n ids cs s = (crcs, s') \<Longrightarrow> 0 < cs \<Longrightarrow> objects s' = objects s"
    and chunk_crcs: "GetChunkCRC32s client b k n ids cs s = (crcs, s') \<Longrightarrow> 0 < cs \<Longrightarrow>
      objects s (b, k) = Some d \<Longrightarrow> n = int (length d) \<Longrightarrow> CHR ''/'' \<notin> set b \<Longrightarrow> crcs \<noteq> [] \<Longrightarrow>
      crcs = map (\<lambda>i. crc32_hw z (chunk_bytes cs d i)) (if ids = [] then whole_file_ids cs d else ids)"

lemma mock_chunk_crcs:
  assumes "mock_GetChunkCRC32s z b k n ids cs s = (crcs, s')" "0 < cs"
  shows "s' = s \<and> (crcs \<noteq> [] \<longrightarrow> (\<exists>d. mock_objects_view s (b, k) = Some d \<and> n = int (length d) \<and>
         crcs = map (\<lambda>i. crc32_hw z (chunk_bytes cs d i)) (if ids = [] then whole_file_ids cs d else ids)))"
proof (cases "crcs = []")
  case True
  with assms show ?thesis
    by (auto simp: mock_GetChunkCRC32s_def Let_def split: if_splits option.splits)
next
  case False
  have d: "\<exists>d. lookup_object s b k = Some d \<and> n = int (length d)"
    using assms False by (auto simp: mock_GetChunkCRC32s_def Let_def split: if_splits option.splits)
  then obtain d where d: "lookup_object s b k = Some d" "n = int (length d)" by blast
  define ids' where "ids' = (if ids = [] then whole_file_ids cs d else ids)"
  have r: "s' = s" "crcs = map (\<lambda>i. let start = i * cs; len = min (start + cs) n - start
                  in crc32_hw z (slice (nat start) (nat len) d)) ids'"
    "list_all (\<lambda>i. 0 \<le> i \<and> i < ceil_div n cs) ids'"
    using assms False d
    by (auto simp: mock_GetChunkCRC32s_def Let_def ids'_def whole_file_ids_def list_all_iff list_ex_iff
        split: if_splits)
  have "slice (nat (i * cs)) (nat (min (i * cs + cs) n - i * cs)) d = chunk_bytes cs d i"
    if "i \<in> set ids'" for i
  proof -
    have i: "0 \<le> i" "i * cs < n" using r(3) that ceil_div_less_iff [OF assms(2)] by (auto simp: list_all_iff)
    then show ?thesis
      using assms(2) d(2) by (auto simp: chunk_bytes_def slice_def min_def)
  qed
  with r(1,2) d show ?thesis
    by (auto simp: view_lookup ids'_def [symmetric] Let_def)
qed

interpretation mock_crcs: chunk_crc_store "mock_client z base64" mock_objects_view z for z base64
proof (unfold_locales, goal_cases)
  case (1 b k n ids cs s crcs s')
  then have g: "mock_GetChunkCRC32s z b k n ids cs s = (crcs, s')" by simp
  from mock_chunk_crcs [OF g 1(2)] show ?case by blast
next
  case (2 b k n ids cs s crcs s' d)
  then have g: "mock_GetChunkCRC32s z b k n ids cs s = (crcs, s')" by simp
  from mock_chunk_crcs [OF g 2(2)] 2(3,6) show ?case by auto
qed

text \<open>The bytes a source names, and a local file system that does not change under its reader.\<close>

definition source_content :: "local_files \<Rightarrow> store_view \<Rightarrow> file_source \<Rightarrow> byte list option" where
  "source_content files v src =
     (case fs_type src of Local \<Rightarrow> files (fs_path src) | S3 \<Rightarrow> v (fs_bucket src, fs_path src))"

definition stable_files :: "local_files \<Rightarrow> (string \<Rightarrow> pread) \<Rightarrow> bool" where
  "stable_files files rd \<longleftrightarrow> (\<forall>p d. files p = Some d \<longrightarrow> reads_file (rd p) d)"

context chunk_crc_store
begin

lemma get_source_size_spec:
  assumes "get_source_size files src (Some client) s = (n, s')" "0 \<le> n"
  shows "objects s' = objects s \<and> (\<exists>d. source_content files (objects s) src = Some d \<and> n = int (length d))"
proof (cases "fs_type src")
  case Local
  with assms show ?thesis
    by (auto simp: get_source_size_def GetLocalFileSize_def source_content_def split: option.splits)
next
  case S3
  then have g: "GetObjectSize client (fs_bucket src) (fs_path src) s = (n, s')"
    using assms by (simp add: get_source_size_def)
  from size_reads [OF g] size_value [OF g] assms(2) S3 show ?thesis
    by (auto simp: source_content_def)
qed

lemma compute_source_crcs_spec:
  assumes "compute_source_crcs z files rd src n [] c (Some client) cs s = (crcs, c', s')"
    and "chaining_crc z" "stable_files files rd" "0 < cs"
    and "source_content files (objects s) src = Some d" "n = int (length d)"
    and "fs_type src = S3 \<longrightarrow> CHR ''/'' \<notin> set (fs_bucket src)"
  shows "objects s' = objects s \<and> (crcs = [] \<or> crcs = map (crc32_hw z) (chunks cs d))"
proof -
  obtain stop c1 where p: "poll c = (stop, c1)" by fastforce
  show ?thesis
  proof (cases stop)
    case True
    with assms(1) p show ?thesis by (auto simp: compute_source_crcs_def)
  next
    case ns: False
    show ?thesis
    proof (cases "fs_type src")
      case Local
      then have f: "files (fs_path src) = Some d" using assms(5) by (simp add: source_content_def)
      with assms(3) have rf: "reads_file (rd (fs_path src)) d" by (simp add: stable_files_def)
      show ?thesis
      proof (cases "d = []")
        case True
        with assms(1) p ns Local f show ?thesis
          by (auto simp: compute_source_crcs_def compute_crc32_chunks_def)
      next
        case False
        with compute_crc32_chunks_id [OF assms(2) rf assms(4)] assms(1) p ns Local f show ?thesis
          by (auto simp: compute_source_crcs_def chunks_def whole_file_ids_def comp_def)
      qed
    next
      case S3
      then have g: "GetChunkCRC32s client (fs_bucket src) (fs_path src) n [] cs s = (crcs, s')"
        using assms(1) p ns by (auto simp: compute_source_crcs_def split: prod.splits)
      from chunk_reads [OF g assms(4)] chunk_crcs [OF g assms(4), of d] S3 assms(5-7) show ?thesis
        by (auto simp: source_content_def chunks_def comp_def)
    qed
  qed
qed

end

text \<open>The client a source is read through honours the contract; a local source needs none.\<close>
definition good_client :: "('s \<Rightarrow> store_view) \<Rightarrow> zng_crc \<Rightarrow> file_source \<Rightarrow> 's s3_client option \<Rightarrow> bool" where
  "good_client objects z src cl \<longleftrightarrow>
     (case fs_type src of
        Local \<Rightarrow> True
      | S3 \<Rightarrow> CHR ''/'' \<notin> set (fs_bucket src) \<and>
               (case cl of None \<Rightarrow> False | Some c \<Rightarrow> chunk_crc_store c objects z))"

lemma good_size:
  assumes "get_source_size files src cl s = (n, s')" "good_client objects z src cl"
  shows "objects s' = objects s \<and>
    (0 \<le> n \<longrightarrow> (\<exists>d. source_content files (objects s) src = Some d \<and> n = int (length d)))"
proof (cases "fs_type src")
  case Local
  with assms(1) show ?thesis
    by (auto simp: get_source_size_def GetLocalFileSize_def source_content_def split: option.splits)
next
  case S3
  with assms(2) obtain c where c: "cl = Some c" "chunk_crc_store c objects z"
    by (auto simp: good_client_def split: option.splits)
  then have st: "object_store c objects" by (simp add: chunk_crc_store_def)
  from S3 c assms(1) have "GetObjectSize c (fs_bucket src) (fs_path src) s = (n, s')" by (simp add: get_source_size_def)
  from object_store.size_reads [OF st this] chunk_crc_store.get_source_size_spec [OF c(2)] assms(1) c(1)
  show ?thesis by blast
qed

lemma good_crcs_keep:
  assumes "compute_source_crcs z files rd src n ids c cl cs s = (crcs, c', s')" "good_client objects z src cl" "0 < cs"
  shows "objects s' = objects s"
  using assms chunk_crc_store.chunk_reads
  by (fastforce simp: compute_source_crcs_def good_client_def split: source_type.splits option.splits prod.splits if_splits)

lemma good_crcs:
  assumes "compute_source_crcs z files rd src n [] c cl cs s = (crcs, c', s')" "good_client objects z src cl"
    and "chaining_crc z" "stable_files files rd" "0 < cs"
    and "source_content files (objects s) src = Some d" "n = int (length d)"
  shows "crcs = [] \<or> crcs = map (crc32_hw z) (chunks cs d)"
proof (cases "fs_type src")
  case Local
  then have f: "files (fs_path src) = Some d" using assms(6) by (simp add: source_content_def)
  with assms(4) have rf: "reads_file (rd (fs_path src)) d" by (simp add: stable_files_def)
  show ?thesis
  proof (cases "fst (poll c) \<or> d = []")
    case True
    with assms(1) Local f show ?thesis
      by (auto simp: compute_source_crcs_def compute_crc32_chunks_def split: prod.splits if_splits)
  next
    case False
    with compute_crc32_chunks_id [OF assms(3) rf assms(5)] assms(1) Local f show ?thesis
      by (auto simp: compute_source_crcs_def chunks_def whole_file_ids_def comp_def split: prod.splits)
  qed
next
  case S3
  with assms(2) obtain x where x: "cl = Some x" "chunk_crc_store x objects z" "CHR ''/'' \<notin> set (fs_bucket src)"
    by (auto simp: good_client_def split: option.splits)
  from chunk_crc_store.compute_source_crcs_spec [OF x(2) assms(1) [unfolded x(1)] assms(3-7)] x(3) show ?thesis by blast
qed

lemma comparison_clients_good:
  assumes "comparison_clients create cfg ia ib = (a, b)"
    and "good_client objects z (cc_source_a cfg) ia" "good_client objects z (cc_source_b cfg) ib"
  shows "good_client objects z (cc_source_a cfg) a \<and> good_client objects z (cc_source_b cfg) b"
  using assms by (auto simp: comparison_clients_def good_client_def Let_def split: source_type.splits option.splits)

text \<open>What a comparison does to the store, and what a successful one has compared.\<close>

lemma run_comparison_served:
  assumes "run_comparison create z files rd cfg ia ib c s = (r, c', s')"
    and cl: "comparison_clients create cfg ia ib = (ca, cb)"
    and ga: "good_client objects z (cc_source_a cfg) ca" and gb: "good_client objects z (cc_source_b cfg) cb"
    and cs: "0 < cc_chunk_size cfg"
  shows "objects s' = objects s \<and>
    (cr_success r \<longrightarrow> chaining_crc z \<longrightarrow> stable_files files rd \<longrightarrow> cc_chunk_ids cfg = [] \<longrightarrow>
      (\<exists>a b r0. source_content files (objects s) (cc_source_a cfg) = Some a \<and>
           source_content files (objects s) (cc_source_b cfg) = Some b \<and>
           r = compare_crcs (map (crc32_hw z) (chunks (cc_chunk_size cfg) a))
                 (map (crc32_hw z) (chunks (cc_chunk_size cfg) b)) r0))"
proof -
  let ?A = "cc_source_a cfg" and ?B = "cc_source_b cfg" and ?cs = "cc_chunk_size cfg"
  obtain na s1 where a: "get_source_size files ?A ca s = (na, s1)" by fastforce
  obtain nb s2 where b: "get_source_size files ?B cb s1 = (nb, s2)" by fastforce
  let ?ids = "cc_chunk_ids cfg"
  obtain xa c3 s3 where xa: "compute_source_crcs z files rd ?A na ?ids c ca ?cs s2 = (xa, c3, s3)"
    by (metis prod_cases3)
  obtain xb c4 s4 where xb: "compute_source_crcs z files rd ?B nb ?ids c3 cb ?cs s3 = (xb, c4, s4)"
    by (metis prod_cases3)
  obtain stop c5 where p: "poll c4 = (stop, c5)" by fastforce
  define r0 where "r0 = default_comparison_result\<lparr>cr_size_a := na, cr_size_b := nb,
      cr_file_size := min na nb, cr_source_a_crcs := xa, cr_source_b_crcs := xb\<rparr>"
  note keep = good_size [OF a ga] good_size [OF b gb] good_crcs_keep [OF xa ga cs] good_crcs_keep [OF xb gb cs]
  have out: "s' = s1 \<or> s' = s2 \<or> s' = s4"
    using assms(1) cl a b xa xb p by (auto simp: run_comparison_def Let_def split: if_splits)
  moreover have "\<exists>a b r0. source_content files (objects s) ?A = Some a \<and> source_content files (objects s) ?B = Some b \<and>
      r = compare_crcs (map (crc32_hw z) (chunks ?cs a)) (map (crc32_hw z) (chunks ?cs b)) r0"
    if succ: "cr_success r" "chaining_crc z" "stable_files files rd" "?ids = []"
  proof -
    have ok: "0 \<le> na" "0 \<le> nb" "xa = [] \<longrightarrow> na \<le> 0" "xb = [] \<longrightarrow> nb \<le> 0" "r = compare_crcs xa xb r0"
      using assms(1) succ(1) cl a b xa xb p
      by (auto simp: run_comparison_def Let_def default_comparison_result_def r0_def split: if_splits)
    from keep ok obtain da db where
      da: "source_content files (objects s) ?A = Some da" "na = int (length da)"
      and db: "source_content files (objects s) ?B = Some db" "nb = int (length db)" by auto
    have "xa = [] \<or> xa = map (crc32_hw z) (chunks ?cs da)"
      using good_crcs [OF xa [unfolded succ(4)] ga succ(2,3) cs] keep da by auto
    moreover have "xb = [] \<or> xb = map (crc32_hw z) (chunks ?cs db)"
      using good_crcs [OF xb [unfolded succ(4)] gb succ(2,3) cs] keep db by auto
    ultimately have "xa = map (crc32_hw z) (chunks ?cs da)" "xb = map (crc32_hw z) (chunks ?cs db)"
      using ok(3,4) da(2) db(2) chunks_Nil_iff [OF cs, of da] chunks_Nil_iff [OF cs, of db] by auto
    with ok(5) da(1) db(1) show ?thesis by blast
  qed
  ultimately show ?thesis using keep by auto
qed

lemma run_comparison_good:
  assumes "run_comparison create z files rd cfg ia ib c s = (r, c', s')"
    and "good_client objects z (cc_source_a cfg) ia" "good_client objects z (cc_source_b cfg) ib" "0 < cc_chunk_size cfg"
  shows "objects s' = objects s \<and>
    (cr_success r \<longrightarrow> chaining_crc z \<longrightarrow> stable_files files rd \<longrightarrow> cc_chunk_ids cfg = [] \<longrightarrow>
      (\<exists>a b r0. source_content files (objects s) (cc_source_a cfg) = Some a \<and>
           source_content files (objects s) (cc_source_b cfg) = Some b \<and>
           r = compare_crcs (map (crc32_hw z) (chunks (cc_chunk_size cfg) a))
                 (map (crc32_hw z) (chunks (cc_chunk_size cfg) b)) r0))"
proof -
  obtain ca cb where cl: "comparison_clients create cfg ia ib = (ca, cb)" by fastforce
  from comparison_clients_good [OF this assms(2,3)] run_comparison_served [OF assms(1) cl _ _ assms(4)] show ?thesis
    by blast
qed

text \<open>The clients a comparison makes itself, when no client is injected.\<close>

definition makes_good_clients :: "('s \<Rightarrow> store_view) \<Rightarrow> zng_crc \<Rightarrow> 's client_factory \<Rightarrow> bool" where
  "makes_good_clients objects z create \<longleftrightarrow>
     (\<forall>region endpoint n profile cl. create region endpoint n profile = Some cl \<longrightarrow> chunk_crc_store cl objects z)"

definition plain_bucket :: "file_source \<Rightarrow> bool" where
  "plain_bucket src \<longleftrightarrow> (fs_type src = S3 \<longrightarrow> CHR ''/'' \<notin> set (fs_bucket src))"

lemma made_client_good:
  "makes_good_clients objects z create \<Longrightarrow> plain_bucket src \<Longrightarrow>
     (fs_type src = S3 \<Longrightarrow> \<exists>region endpoint n profile. cl = create region endpoint n profile \<and> cl \<noteq> None) \<Longrightarrow>
     good_client objects z src cl"
  by (cases "fs_type src") (fastforce simp: good_client_def makes_good_clients_def plain_bucket_def)+

lemma run_comparison_made:
  assumes "run_comparison create z files rd cfg None None c s = (r, c', s')" "cr_success r"
    and "makes_good_clients objects z create" "plain_bucket (cc_source_a cfg)" "plain_bucket (cc_source_b cfg)"
    and "0 < cc_chunk_size cfg" "chaining_crc z" "stable_files files rd" "cc_chunk_ids cfg = []"
  shows "\<exists>a b r0. source_content files (objects s) (cc_source_a cfg) = Some a \<and>
           source_content files (objects s) (cc_source_b cfg) = Some b \<and>
           r = compare_crcs (map (crc32_hw z) (chunks (cc_chunk_size cfg) a))
                 (map (crc32_hw z) (chunks (cc_chunk_size cfg) b)) r0"
proof -
  obtain ca cb where cl: "comparison_clients create cfg None None = (ca, cb)" by fastforce
  obtain na s1 where a: "get_source_size files (cc_source_a cfg) ca s = (na, s1)" by fastforce
  obtain nb s2 where b: "get_source_size files (cc_source_b cfg) cb s1 = (nb, s2)" by fastforce
  have "0 \<le> na \<and> 0 \<le> nb"
    using assms(1,2) by (auto simp: run_comparison_def Let_def default_comparison_result_def cl a b split: if_splits)
  then have some: "fs_type (cc_source_a cfg) = S3 \<longrightarrow> ca \<noteq> None" "fs_type (cc_source_b cfg) = S3 \<longrightarrow> cb \<noteq> None"
    using a b by (auto simp: get_source_size_def split: option.splits)
  have made: "fs_type (cc_source_a cfg) = S3 \<Longrightarrow> \<exists>region endpoint n profile. ca = create region endpoint n profile"
    "fs_type (cc_source_b cfg) = S3 \<Longrightarrow> \<exists>region endpoint n profile. cb = create region endpoint n profile"
    using cl by (auto simp: comparison_clients_def Let_def should_reuse_s3_client_def split: if_splits)
  have "good_client objects z (cc_source_a cfg) ca" "good_client objects z (cc_source_b cfg) cb"
    using made_client_good [OF assms(3,4), of ca] made_client_good [OF assms(3,5), of cb] some made by blast+
  from run_comparison_served [OF assms(1) cl this assms(6)] assms(2,7-9) show ?thesis by blast
qed

text \<open>Equal checksum vectors mean equal contents, or two different chunks with one checksum.\<close>

definition crc_collision :: "zng_crc \<Rightarrow> int \<Rightarrow> byte list \<Rightarrow> byte list \<Rightarrow> bool" where
  "crc_collision z cs a b \<longleftrightarrow>
     (\<exists>x y. x \<in> set (chunks cs a) \<and> y \<in> set (chunks cs b) \<and> x \<noteq> y \<and> crc32_hw z x = crc32_hw z y)"

lemma equal_crcs:
  assumes "map (crc32_hw z) (chunks cs a) = map (crc32_hw z) (chunks cs b)" "0 < cs"
  shows "a = b \<or> crc_collision z cs a b"
proof (cases "chunks cs a = chunks cs b")
  case True
  with concat_chunks [OF assms(2)] show ?thesis by metis
next
  case False
  have len: "length (chunks cs a) = length (chunks cs b)" using assms(1) map_eq_imp_length_eq by blast
  with False obtain i where "i < length (chunks cs a)" "chunks cs a ! i \<noteq> chunks cs b ! i"
    using nth_equalityI by blast
  moreover from this assms(1) len have "crc32_hw z (chunks cs a ! i) = crc32_hw z (chunks cs b ! i)" by (metis nth_map)
  ultimately show ?thesis using len unfolding crc_collision_def by (metis nth_mem)
qed

text \<open>
  C30: a comparison that succeeds compared the contents the two sources really have: equal contents are
  reported as a match, and a reported match means equal contents unless two different chunks share
  a checksum.  The file does not change meanwhile and the buckets' names have no slash.
\<close>

theorem comparison_verdict:
  assumes "chunk_crc_store client objects z" "chaining_crc z" "stable_files files rd"
    and "cc_chunk_ids cfg = []" "0 < cc_chunk_size cfg"
    and "run_comparison create z files rd cfg (Some client) (Some client) c s = (r, c', s')" "cr_success r"
    and "CHR ''/'' \<notin> set (fs_bucket (cc_source_a cfg))" "CHR ''/'' \<notin> set (fs_bucket (cc_source_b cfg))"
  shows "case (source_content files (objects s) (cc_source_a cfg), source_content files (objects s) (cc_source_b cfg)) of
           (Some a, Some b) \<Rightarrow>
             (if a = b then cr_all_match r
              else cr_all_match r \<longrightarrow> crc_collision z (cc_chunk_size cfg) a b)
         | _ \<Rightarrow> False"
proof -
  have "good_client objects z src (Some client)" if "CHR ''/'' \<notin> set (fs_bucket src)" for src
    using assms(1) that by (simp add: good_client_def split: source_type.splits)
  from this [OF assms(8)] this [OF assms(9)] run_comparison_good [OF assms(6)] assms(2-5,7) obtain a b r0 where
    "source_content files (objects s) (cc_source_a cfg) = Some a"
    "source_content files (objects s) (cc_source_b cfg) = Some b"
    "r = compare_crcs (map (crc32_hw z) (chunks (cc_chunk_size cfg) a))
           (map (crc32_hw z) (chunks (cc_chunk_size cfg) b)) r0" by blast
  with equal_crcs [OF _ assms(5), of z a b] show ?thesis by (auto simp: compare_crcs_exact)
qed

definition same_local_file :: comparison_config where
  "same_local_file = \<lparr>cc_source_a = default_file_source\<lparr>fs_path := ''x''\<rparr>,
     cc_source_b = default_file_source\<lparr>fs_path := ''y''\<rparr>, cc_chunk_ids = [], cc_max_connections = 1,
     cc_chunk_size = 2\<rparr>"

theorem comparison_verdict_witness:
  "\<exists>r c' s'. run_comparison (\<lambda>_ _ _ _. None) ieee_crc32 (\<lambda>_. Some [1, 2, 3]) (\<lambda>_. pread_of [1, 2, 3])
      same_local_file (Some (mock_client ieee_crc32 (\<lambda>_. []))) (Some (mock_client ieee_crc32 (\<lambda>_. []))) None empty_mock
      = (r, c', s') \<and> cr_success r \<and> cr_all_match r"
proof -
  let ?cl = "Some (mock_client ieee_crc32 (\<lambda>_. []))"
  have crcs: "compute_crc32_chunks ieee_crc32 (pread_of [1, 2, 3]) (Some 3) [] 2 =
      map (\<lambda>i. crc32_hw ieee_crc32 (chunk_bytes 2 [1, 2, 3] i)) [0 .. 1]"
    using compute_crc32_chunks_id [OF ieee.chaining_crc_axioms reads_file_pread_of, of 2 "[1, 2, 3]"]
    by (simp add: ceil_div_def)
  obtain r c' s' where run: "run_comparison (\<lambda>_ _ _ _. None) ieee_crc32 (\<lambda>_. Some [1, 2, 3]) (\<lambda>_. pread_of [1, 2, 3])
      same_local_file ?cl ?cl None empty_mock = (r, c', s')" by (metis prod_cases3)
  have ok: "cr_success r"
    using run [symmetric] by (simp add: run_comparison_def same_local_file_def get_source_size_def default_file_source_def
        GetLocalFileSize_def compute_source_crcs_def crcs compare_crcs_def Let_def comparison_clients_def)
  have st: "stable_files (\<lambda>_. Some [1, 2, 3]) (\<lambda>_. pread_of [1, 2, 3])"
    by (simp add: stable_files_def reads_file_pread_of)
  have "cr_all_match r"
    using comparison_verdict [OF mock_crcs.chunk_crc_store_axioms ieee.chaining_crc_axioms st _ _ run ok]
    by (simp add: same_local_file_def source_content_def default_file_source_def)
  with run ok show ?thesis by blast
qed

section \<open>The block analysis counts what differs\<close>

definition diffs :: "byte list \<Rightarrow> byte list \<Rightarrow> nat \<Rightarrow> nat \<Rightarrow> nat list" where
  "diffs a b i j = filter (\<lambda>k. a ! k \<noteq> b ! k) [i ..< j]"

lemma diffs_append: "i \<le> j \<Longrightarrow> j \<le> k \<Longrightarrow> diffs a b i k = diffs a b i j @ diffs a b j k"
  unfolding diffs_def using upt_add_eq_append [of i j "k - j"] by simp

definition add_diffs :: "nat list \<Rightarrow> block_analysis \<Rightarrow> block_analysis" where
  "add_diffs ds r = r\<lparr>ba_bytes_different := ba_bytes_different r + int (length ds),
     ba_first_diff := (if ba_first_diff r < 0 \<and> ds \<noteq> [] then int (hd ds) else ba_first_diff r),
     ba_last_diff := (if ds = [] then ba_last_diff r else int (last ds))\<rparr>"

lemma add_diffs_Nil [simp]: "add_diffs [] r = r"
  by (simp add: add_diffs_def)

lemma add_diffs_append: "add_diffs ys (add_diffs xs r) = add_diffs (xs @ ys) r"
  by (cases "xs = []"; cases "ys = []") (simp_all add: add_diffs_def)

lemma add_diffs_update:
  "add_diffs ds (r\<lparr>ba_block_matches := m, ba_blocks_different := c\<rparr>) =
   (add_diffs ds r)\<lparr>ba_block_matches := m, ba_blocks_different := c\<rparr>"
  by (cases r) (simp add: add_diffs_def)

lemma fold_compare_byte:
  "fold (compare_byte a b) ks (m, r) =
   (m \<and> filter (\<lambda>k. a ! k \<noteq> b ! k) ks = [], add_diffs (filter (\<lambda>k. a ! k \<noteq> b ! k) ks) r)"
proof (induction ks arbitrary: m r)
  case (Cons k ks)
  show ?case
  proof (cases "a ! k = b ! k")
    case True
    then have "compare_byte a b k (m, r) = (m, r)" by (simp add: compare_byte_def)
    with True show ?thesis by (simp add: Cons)
  next
    case False
    then have "compare_byte a b k (m, r) = (False, add_diffs [k] r)"
      by (simp add: compare_byte_def add_diffs_def)
    with False show ?thesis by (simp add: Cons add_diffs_append)
  qed
qed simp

text \<open>The state of the result after \<open>k\<close> of \<open>n\<close> blocks of \<open>w\<close> bytes.\<close>

definition block_range :: "nat \<Rightarrow> nat \<Rightarrow> byte list \<Rightarrow> nat \<times> nat" where
  "block_range w k a = (k * w, min ((k + 1) * w) (length a))"

definition block_differs :: "byte list \<Rightarrow> byte list \<Rightarrow> nat \<Rightarrow> nat \<Rightarrow> bool" where
  "block_differs a b w k \<longleftrightarrow> diffs a b (k * w) (min ((k + 1) * w) (length a)) \<noteq> []"

definition after_blocks ::
  "byte list \<Rightarrow> byte list \<Rightarrow> nat \<Rightarrow> nat \<Rightarrow> nat \<Rightarrow> block_analysis \<Rightarrow> block_analysis" where
  "after_blocks a b w n k r = (add_diffs (diffs a b 0 (min (k * w) (length a))) r)
     \<lparr>ba_block_matches := map (\<lambda>j. \<not> block_differs a b w j) [0 ..< k] @ replicate (n - k) True,
      ba_blocks_different := int (length (filter (block_differs a b w) [0 ..< k]))\<rparr>"

lemma compare_block_step:
  assumes "k < n" "0 < w" "ba_blocks_different r = 0"
  shows "compare_block a b (int w) (int k) (after_blocks a b w n k r) = after_blocks a b w n (k + 1) r"
proof -
  let ?lo = "k * w" and ?hi = "min ((k + 1) * w) (length a)"
  let ?ds = "diffs a b ?lo ?hi"
  have lo: "nat (int k * int w) = ?lo" by (simp add: nat_mult_distrib)
  have hi: "nat (min (int k * int w + int w) (int (length a))) = ?hi"
  proof -
    have "int k * int w + int w = int ((k + 1) * w)" by (simp add: algebra_simps)
    then show ?thesis by (simp only: of_nat_min [symmetric] nat_int)
  qed
  have split: "diffs a b 0 ?hi = diffs a b 0 (min ?lo (length a)) @ ?ds"
  proof (cases "?lo \<le> length a")
    case True
    then show ?thesis by (subst diffs_append [of 0 ?lo ?hi]) simp_all
  next
    case False
    then have "?hi = length a" "?ds = []" by (auto simp: diffs_def)
    with False show ?thesis by simp
  qed
  have upd: "(map (\<lambda>j. \<not> block_differs a b w j) [0 ..< k] @ replicate (n - k) True)[k := x] =
      map (\<lambda>j. \<not> block_differs a b w j) [0 ..< k] @ x # replicate (n - Suc k) True" for x
  proof -
    have "replicate (n - k) True = True # replicate (n - Suc k) True"
      by (simp flip: Suc_diff_Suc [OF assms(1)])
    then show ?thesis by (simp only: list_update_append length_map length_upt) simp
  qed
  define M where "M = map (\<lambda>j. \<not> block_differs a b w j) [0 ..< k] @ replicate (n - k) True"
  define c where "c = int (length (filter (block_differs a b w) [0 ..< k]))"
  define pre where "pre = diffs a b 0 (min ?lo (length a))"
  define ds where "ds = ?ds"
  have f: "fold (compare_byte a b) [nat (int k * int w) ..< nat (min (int k * int w + int w) (int (length a)))]
      (True, after_blocks a b w n k r) = (ds = [], (add_diffs (pre @ ds) r)\<lparr>ba_block_matches := M, ba_blocks_different := c\<rparr>)"
    by (simp only: lo hi fold_compare_byte diffs_def [symmetric] ds_def [symmetric] after_blocks_def
        pre_def [symmetric] M_def [symmetric] c_def [symmetric] add_diffs_update add_diffs_append simp_thms)
  have "compare_block a b (int w) (int k) (after_blocks a b w n k r) =
      (add_diffs (pre @ ds) r)\<lparr>ba_block_matches := M[k := ds = []], ba_blocks_different := (if ds = [] then c else c + 1)\<rparr>"
    by (simp only: compare_block_def Let_def f prod.case nat_int) (simp split: if_split)
  moreover have "after_blocks a b w n (k + 1) r =
      (add_diffs (pre @ ds) r)\<lparr>ba_block_matches := M[k := ds = []], ba_blocks_different := (if ds = [] then c else c + 1)\<rparr>"
    using split upd by (simp add: after_blocks_def pre_def ds_def M_def c_def block_differs_def [of a b w k])
  ultimately show ?thesis by simp
qed

lemma fold_compare_block:
  assumes "k \<le> n" "0 < w"
  shows "fold (compare_block a b (int w)) (map int [0 ..< k])
           (r\<lparr>ba_block_matches := replicate n True, ba_blocks_different := 0\<rparr>) =
         after_blocks a b w n k (r\<lparr>ba_block_matches := replicate n True, ba_blocks_different := 0\<rparr>)"
  using assms(1)
proof (induction k)
  case 0
  then show ?case by (simp add: after_blocks_def diffs_def)
next
  case (Suc k)
  then show ?case
    using compare_block_step [of k n w "r\<lparr>ba_block_matches := replicate n True, ba_blocks_different := 0\<rparr>" a b] assms(2)
    by simp
qed

text \<open>
  the block analysis of two equally long buffers is exact: every counter, flag and offset it reports
  is that of the positions at which the buffers differ.
\<close>

theorem analyze_buffers_exact:
  assumes "length a = length b" "0 < w"
  shows "analyze_buffers a b (int w) r =
    (let n = nat (ceil_div (int (length a)) (int w)); ds = diffs a b 0 (length a) in
     (True, r\<lparr>ba_chunk_size := int (length a), ba_block_size := int w, ba_total_blocks := int n,
        ba_block_matches := map (\<lambda>j. \<not> block_differs a b w j) [0 ..< n],
        ba_blocks_different := int (length (filter (block_differs a b w) [0 ..< n])),
        ba_bytes_different := int (length ds),
        ba_first_diff := (if ds = [] then -1 else int (hd ds)),
        ba_last_diff := (if ds = [] then -1 else int (last ds))\<rparr>))"
proof -
  define n where "n = nat (ceil_div (int (length a)) (int w))"
  have w: "0 < int w" using assms(2) by simp
  have n: "ceil_div (int (length a)) (int w) = int n"
    using ceil_div_nonneg [OF w, of "int (length a)"] by (simp add: n_def)
  have "int (length a) \<le> int n * int w" using ceil_div_bounds(1) [OF w, of "int (length a)"] n by simp
  then have len: "length a \<le> n * w" by (metis of_nat_le_iff of_nat_mult)
  define r1 where "r1 = r\<lparr>ba_chunk_size := int (length a), ba_block_size := int w, ba_total_blocks := int n,
      ba_bytes_different := 0, ba_first_diff := -1, ba_last_diff := -1\<rparr>"
  have "fold (compare_block a b (int w)) (map int [0 ..< n])
          (r1\<lparr>ba_block_matches := replicate n True, ba_blocks_different := 0\<rparr>) =
        after_blocks a b w n n (r1\<lparr>ba_block_matches := replicate n True, ba_blocks_different := 0\<rparr>)"
    using assms(2) by (intro fold_compare_block) auto
  moreover have "r1\<lparr>ba_block_matches := replicate n True, ba_blocks_different := 0\<rparr> =
      r\<lparr>ba_chunk_size := int (length a), ba_block_size := int w, ba_total_blocks := int n,
        ba_block_matches := replicate (nat (int n)) True, ba_bytes_different := 0,
        ba_blocks_different := 0, ba_first_diff := -1, ba_last_diff := -1\<rparr>"
    by (cases r) (simp add: r1_def)
  ultimately have "analyze_buffers a b (int w) r =
      (True, after_blocks a b w n n (r1\<lparr>ba_block_matches := replicate n True, ba_blocks_different := 0\<rparr>))"
    using assms(1) [symmetric] by (simp only: analyze_buffers_def n upto_as_upt Let_def) simp
  moreover have "after_blocks a b w n n (r1\<lparr>ba_block_matches := replicate n True, ba_blocks_different := 0\<rparr>) =
      r\<lparr>ba_chunk_size := int (length a), ba_block_size := int w, ba_total_blocks := int n,
        ba_block_matches := map (\<lambda>j. \<not> block_differs a b w j) [0 ..< n],
        ba_blocks_different := int (length (filter (block_differs a b w) [0 ..< n])),
        ba_bytes_different := int (length (diffs a b 0 (length a))),
        ba_first_diff := (if diffs a b 0 (length a) = [] then -1 else int (hd (diffs a b 0 (length a)))),
        ba_last_diff := (if diffs a b 0 (length a) = [] then -1 else int (last (diffs a b 0 (length a))))\<rparr>"
    using len by (cases r) (simp add: r1_def after_blocks_def add_diffs_def min_absorb2)
  ultimately show ?thesis by (simp only: Let_def n nat_int)
qed

theorem analyze_buffers_exact_witness:
  "analyze_buffers [1, 2, 3] [1, 5, 3] (int 2) default_block_analysis =
    (let n = nat (ceil_div (int (length [1, 2, 3 :: byte])) (int 2)); ds = diffs [1, 2, 3] [1, 5, 3] 0 (length [1, 2, 3 :: byte]) in
     (True, default_block_analysis\<lparr>ba_chunk_size := int (length [1, 2, 3 :: byte]), ba_block_size := int 2, ba_total_blocks := int n,
        ba_block_matches := map (\<lambda>j. \<not> block_differs [1, 2, 3] [1, 5, 3] 2 j) [0 ..< n],
        ba_blocks_different := int (length (filter (block_differs [1, 2, 3] [1, 5, 3] 2) [0 ..< n])),
        ba_bytes_different := int (length ds),
        ba_first_diff := (if ds = [] then -1 else int (hd ds)),
        ba_last_diff := (if ds = [] then -1 else int (last ds))\<rparr>))"
  by (rule analyze_buffers_exact) simp_all

end
