(* ===== verification/File_Blocks.thy ===== *)
theory File_Blocks
  imports Comparison
begin

text \<open>
  The block analysis of small local files in directory_comparison.cpp, with its adaptive block size,
  and the byte providers of byte_provider.cpp.
\<close>

definition compute_adaptive_block_size :: "int \<Rightarrow> int" where
  "compute_adaptive_block_size file_size =
     (if file_size \<le> 0 then 1024
      else if file_size \<le> 64 * 1024 then 1024
      else if file_size \<le> 256 * 1024 then 2 * 1024
      else if file_size \<le> 512 * 1024 then 4 * 1024
      else if file_size \<le> 1024 * 1024 then 8 * 1024
      else if file_size \<le> 4 * 1024 * 1024 then 16 * 1024
      else if file_size \<le> 16 * 1024 * 1024 then 64 * 1024
      else 128 * 1024)"

datatype compare_status = Match | Mismatch | OnlyInA | OnlyInB | CompareError

record file_compare_result =
  fr_path :: string
  fr_status :: compare_status
  fr_size_a :: int
  fr_size_b :: int
  fr_total_chunks :: nat
  fr_mismatched_chunks :: "nat list"
  fr_extra_chunks_a :: "nat list"
  fr_extra_chunks_b :: "nat list"
  fr_error :: string
  fr_has_block_analysis :: bool
  fr_block_size :: int
  fr_total_blocks :: nat
  fr_mismatched_blocks :: "nat list"
  fr_extra_blocks_a :: "nat list"
  fr_extra_blocks_b :: "nat list"

definition default_file_compare_result :: file_compare_result where
  "default_file_compare_result = \<lparr>fr_path = [], fr_status = CompareError, fr_size_a = -1, fr_size_b = -1,
     fr_total_chunks = 0, fr_mismatched_chunks = [], fr_extra_chunks_a = [], fr_extra_chunks_b = [],
     fr_error = [], fr_has_block_analysis = False, fr_block_size = 0, fr_total_blocks = 0,
     fr_mismatched_blocks = [], fr_extra_blocks_a = [], fr_extra_blocks_b = []\<rparr>"

text \<open>At most \<^verbatim>\<open>max_size\<close> bytes of a file; empty when it cannot be opened.\<close>

definition read_local_file :: "local_files \<Rightarrow> string \<Rightarrow> int \<Rightarrow> byte list" where
  "read_local_file files path max_size =
     (case files path of
        None \<Rightarrow> []
      | Some d \<Rightarrow> let sz = min (int (length d)) max_size in if sz \<le> 0 then [] else take (nat sz) d)"

text \<open>A common block matches when no byte of it differs; the inner loop stops at the first that does.\<close>

definition blocks_equal :: "byte list \<Rightarrow> byte list \<Rightarrow> int \<Rightarrow> int \<Rightarrow> int \<Rightarrow> bool" where
  "blocks_equal a b block_size common_size i =
     (let start = i * block_size; end1 = min (start + block_size) common_size
      in list_all (\<lambda>j. a ! j = b ! j) [nat start ..< nat end1])"

definition analyze_small_file_blocks ::
  "local_files \<Rightarrow> file_source \<Rightarrow> file_source \<Rightarrow> file_compare_result \<Rightarrow> int \<Rightarrow> file_compare_result" where
  "analyze_small_file_blocks files source_a source_b result chunk_size =
     (if fs_type source_a \<noteq> Local \<or> fs_type source_b \<noteq> Local then result
      else let max_size = max (fr_size_a result) (fr_size_b result) in
        if max_size \<le> 0 \<or> max_size > 5 * chunk_size then result
        else let a = read_local_file files (fs_path source_a) max_size;
                 b = read_local_file files (fs_path source_b) max_size in
          if a = [] \<and> fr_size_a result > 0 then result
          else if b = [] \<and> fr_size_b result > 0 then result
          else let block_size = compute_adaptive_block_size max_size;
                   size_a = int (length a); size_b = int (length b);
                   common_size = min size_a size_b;
                   blocks_a = ceil_div size_a block_size; blocks_b = ceil_div size_b block_size;
                   common_blocks = ceil_div common_size block_size
               in result\<lparr>fr_block_size := block_size, fr_has_block_analysis := True,
                    fr_total_blocks := nat (max blocks_a blocks_b),
                    fr_mismatched_blocks := fr_mismatched_blocks result @
                      map nat (filter (\<lambda>i. \<not> blocks_equal a b block_size common_size i) [0 .. common_blocks - 1]),
                    fr_extra_blocks_a := fr_extra_blocks_a result @ map nat [common_blocks .. blocks_a - 1],
                    fr_extra_blocks_b := fr_extra_blocks_b result @ map nat [common_blocks .. blocks_b - 1]\<rparr>)"

text \<open>
  whatever the file's size, an adaptive block is between 1 and 128 KiB, and a file of up to 16 MiB
  is shown in at most 256 blocks.
\<close>

theorem adaptive_blocks_bounded:
  "1024 \<le> compute_adaptive_block_size n \<and> compute_adaptive_block_size n \<le> 128 * 1024 \<and>
   (if n \<le> 16 * 1024 * 1024 then ceil_div n (compute_adaptive_block_size n) \<le> 256 else True)"
proof -
  let ?w = "compute_adaptive_block_size n"
  have w: "1024 \<le> ?w" "?w \<le> 128 * 1024" by (simp_all add: compute_adaptive_block_size_def)
  have "n \<le> 256 * ?w" if "n \<le> 16 * 1024 * 1024"
    using that by (simp add: compute_adaptive_block_size_def)
  then have "n \<le> 16 * 1024 * 1024 \<Longrightarrow> \<not> 256 < ceil_div n ?w"
    using ceil_div_less_iff [of ?w 256 n] w by simp
  with w show ?thesis by (simp add: not_less)
qed

section \<open>Byte providers\<close>

record local_provider =
  lp_path :: string
  lp_size :: int

text \<open>
  \<^verbatim>\<open>CreateLocalByteProvider\<close>: \<open>None\<close> is the null pointer.  \<open>files\<close> is the file system at the time of
  the call, so a later read may see another file than the one the size was taken of.
\<close>

definition CreateLocalByteProvider :: "local_files \<Rightarrow> string \<Rightarrow> local_provider option" where
  "CreateLocalByteProvider files path =
     (let sz = (case files path of None \<Rightarrow> -1 | Some d \<Rightarrow> int (length d))
      in if sz < 0 then None else Some \<lparr>lp_path = path, lp_size = sz\<rparr>)"

definition local_read :: "local_files \<Rightarrow> local_provider \<Rightarrow> int \<Rightarrow> int \<Rightarrow> bool \<times> byte list" where
  "local_read files p off len =
     (if lp_size p < 0 \<or> off < 0 \<or> off > lp_size p then (False, [])
      else if len \<le> 0 \<or> off = lp_size p then (True, [])
      else case files (lp_path p) of
             None \<Rightarrow> (False, [])
           | Some d \<Rightarrow> let to_read = min len (lp_size p - off) in (True, slice (nat off) (nat to_read) d))"

record s3_provider =
  sp_bucket :: string
  sp_key :: string
  sp_size :: int

definition CreateS3ByteProvider ::
  "'s s3_client option \<Rightarrow> string \<Rightarrow> string \<Rightarrow> 's \<Rightarrow> s3_provider option \<times> 's" where
  "CreateS3ByteProvider client bucket key s =
     (case client of
        None \<Rightarrow> (None, s)
      | Some c \<Rightarrow> let (sz, s) = GetObjectSize c bucket key s
                  in (if sz < 0 then None else Some \<lparr>sp_bucket = bucket, sp_key = key, sp_size = sz\<rparr>, s))"

definition s3_read :: "'s s3_client \<Rightarrow> s3_provider \<Rightarrow> int \<Rightarrow> int \<Rightarrow> 's \<Rightarrow> (bool \<times> byte list) \<times> 's" where
  "s3_read client p off len s =
     (if sp_size p < 0 \<or> off < 0 \<or> off > sp_size p then ((False, []), s)
      else if len \<le> 0 \<or> off = sp_size p then ((True, []), s)
      else let to_read = min len (sp_size p - off);
               (d, s) = GetObjectRange client (sp_bucket p) (sp_key p) off (off + to_read - 1) s
           in ((d \<noteq> [], d), s))"

text \<open>
  for the same bytes behind both, unchanged since the providers were made, a read of the S3 provider
  is the read of the local one, or a failure with an empty buffer.
\<close>

theorem providers_agree:
  assumes "object_store client objects" "files path = Some d" "objects s (b, k) = Some d"
    and "CreateLocalByteProvider files path = Some lp" "sp_bucket sp = b" "sp_key sp = k"
    and "sp_size sp = int (length d)" "s3_read client sp off len s = (r, s')"
  shows "r = local_read files lp off len \<or> r = (False, [])"
proof -
  have lp: "lp = \<lparr>lp_path = path, lp_size = int (length d)\<rparr>"
    using assms(2,4) by (auto simp: CreateLocalByteProvider_def)
  show ?thesis
  proof (cases "off < 0 \<or> off > int (length d) \<or> len \<le> 0 \<or> off = int (length d)")
    case True
    with assms(7,8) show ?thesis by (auto simp: s3_read_def local_read_def lp)
  next
    case False
    let ?n = "min len (int (length d) - off)"
    obtain x s1 where g: "GetObjectRange client b k off (off + ?n - 1) s = (x, s1)" by fastforce
    have r: "r = (x \<noteq> [], x)" using False assms(5-8) g by (auto simp: s3_read_def)
    show ?thesis
    proof (cases "x = []")
      case False
      with object_store.range_value [OF assms(1) g] assms(3) have
        "x = slice (nat off) (nat (off + ?n - 1 - off + 1)) d" by auto
      moreover have "off + ?n - 1 - off + 1 = ?n" by simp
      ultimately show ?thesis
        using False r assms(2) \<open>\<not> (off < 0 \<or> off > int (length d) \<or> len \<le> 0 \<or> off = int (length d))\<close>
        by (auto simp: local_read_def lp Let_def)
    qed (use r in simp)
  qed
qed

theorem providers_agree_witness:
  "\<exists>r s'. s3_read (mock_client ieee_crc32 (\<lambda>_. [])) \<lparr>sp_bucket = ''b'', sp_key = ''k'', sp_size = 3\<rparr> 1 5
            (empty_mock\<lparr>mk_buckets := [(''b'', [(''k'', [1, 2, 3])])]\<rparr>) = (r, s') \<and>
          (r = local_read (\<lambda>_. Some [1, 2, 3]) \<lparr>lp_path = ''x'', lp_size = 3\<rparr> 1 5 \<or> r = (False, []))"
proof -
  let ?m = "empty_mock\<lparr>mk_buckets := [(''b'', [(''k'', [1, 2, 3])])]\<rparr>"
  obtain r s' where r: "s3_read (mock_client ieee_crc32 (\<lambda>_. [])) \<lparr>sp_bucket = ''b'', sp_key = ''k'', sp_size = 3\<rparr> 1 5 ?m
      = (r, s')" by fastforce
  have "r = local_read (\<lambda>_. Some [1, 2, 3]) \<lparr>lp_path = ''x'', lp_size = 3\<rparr> 1 5 \<or> r = (False, [])"
    by (rule providers_agree [OF mock_store.object_store_axioms, where path = "''x''" and d = "[1, 2, 3]"
          and b = "''b''" and k = "''k''"])
       (use r in \<open>simp_all add: mock_objects_view_def lookup_object_def CreateLocalByteProvider_def\<close>)
  with r show ?thesis by blast
qed

end
