(* ===== verification/Local_Enum.thy ===== *)
theory Local_Enum
  imports Enumerate
begin

text \<open>
  The walk of a local tree, \<^verbatim>\<open>parallel_enumerate_local_directory\<close> and the non-recursive
  \<^verbatim>\<open>enumerate_local_directory\<close> of directory_comparison.cpp.  The operating system's answers are a
  parameter, a record of queries: what \<^verbatim>\<open>std::filesystem\<close> and \<^verbatim>\<open>stat\<close> report of a path.  A
  directory listing is either an error of opening it, or the names it yields and whether the
  iteration ended in an exception.
\<close>

datatype file_kind = Regular | Directory | OtherKind

record file_queries =
  fq_is_directory :: "string \<Rightarrow> bool"
  fq_entries :: "string \<Rightarrow> errno + (string list \<times> bool)"
  fq_is_symlink :: "string \<Rightarrow> bool"
  fq_status :: "string \<Rightarrow> errno + file_kind"
  fq_canonical :: "string \<Rightarrow> errno + string"
  fq_stat :: "string \<Rightarrow> (int \<times> int) option"

text \<open>The errors that mean there is nothing to miss.\<close>

fun absent :: "errno \<Rightarrow> bool" where
  "absent ENOENT = True"
| "absent ELOOP = True"
| "absent ENOTDIR = True"
| "absent ENAMETOOLONG = True"
| "absent EACCES = False"
| "absent EEXIST = False"
| "absent EINTR = False"
| "absent ESRCH = False"
| "absent (OtherError n) = False"

text \<open>
  What one task leaves behind: files, sub-directories, the set of symlink targets already followed
  (shared by all tasks), whether nothing was missed, and whether an alias was left out.
\<close>

record scan =
  sn_files :: "directory_entry list"
  sn_subdirs :: "string list"
  sn_visited :: "string list"
  sn_complete :: bool
  sn_alias_omitted :: bool

definition stat_entry :: "file_queries \<Rightarrow> string \<Rightarrow> string \<Rightarrow> directory_entry" where
  "stat_entry fq path relative_path =
     (case fq_stat fq path of
        None \<Rightarrow> \<lparr>de_path = relative_path, de_size = 0, de_mtime = 0\<rparr>
      | Some (sz, mtime) \<Rightarrow> \<lparr>de_path = relative_path, de_size = sz, de_mtime = mtime\<rparr>)"

text \<open>
  One entry of a directory.  \<open>rel\<close> is \<^verbatim>\<open>entry.path().lexically_relative(root)\<close>, kept beside the
  path: the relative path of the directory joined with the entry's name.
\<close>

definition scan_entry :: "file_queries \<Rightarrow> string \<Rightarrow> string \<Rightarrow> scan \<Rightarrow> scan" where
  "scan_entry fq path relative_path sn =
     (case fq_status fq path of
        Inl e \<Rightarrow> if absent e then sn else sn\<lparr>sn_complete := False\<rparr>
      | Inr Regular \<Rightarrow>
          if relative_path = [] then sn
          else sn\<lparr>sn_files := sn_files sn @ [stat_entry fq path relative_path]\<rparr>
      | Inr Directory \<Rightarrow>
          if fq_is_symlink fq path then
            (case fq_canonical fq path of
               Inl e \<Rightarrow> sn\<lparr>sn_complete := False\<rparr>
             | Inr canonical \<Rightarrow>
                 if List.member (sn_visited sn) canonical then sn\<lparr>sn_alias_omitted := True\<rparr>
                 else sn\<lparr>sn_visited := canonical # sn_visited sn,
                         sn_subdirs := sn_subdirs sn @ [relative_path]\<rparr>)
          else sn\<lparr>sn_subdirs := sn_subdirs sn @ [relative_path]\<rparr>
      | Inr OtherKind \<Rightarrow> sn)"

definition join_rel :: "string \<Rightarrow> string \<Rightarrow> string" where
  "join_rel dir name = (if dir = [] then name else dir @ ''/'' @ name)"

definition at_root :: "string \<Rightarrow> string \<Rightarrow> string" where
  "at_root root rel = (if rel = [] then root else path_append root rel)"

fun scan_entries ::
  "file_queries \<Rightarrow> string \<Rightarrow> string \<Rightarrow> string list \<Rightarrow> cancel \<Rightarrow> scan \<Rightarrow> cancel \<times> scan" where
  "scan_entries fq root dir [] cancelled sn = (cancelled, sn)"
| "scan_entries fq root dir (name # names) cancelled sn =
     (let (stop, cancelled) = poll cancelled in
      if stop then (cancelled, sn)
      else scan_entries fq root dir names cancelled
             (scan_entry fq (at_root root (join_rel dir name)) (join_rel dir name) sn))"

definition process_directory ::
  "file_queries \<Rightarrow> string \<Rightarrow> string \<Rightarrow> cancel \<Rightarrow> scan \<Rightarrow> cancel \<times> scan" where
  "process_directory fq root dir cancelled sn =
     (let (stop, cancelled) = poll cancelled in
      if stop then (cancelled, sn)
      else case fq_entries fq (at_root root dir) of
             Inl e \<Rightarrow> (cancelled, if absent e then sn else sn\<lparr>sn_complete := False\<rparr>)
           | Inr (names, throws) \<Rightarrow>
               let (cancelled, sn) = scan_entries fq root dir names cancelled sn in
                 (cancelled, if throws then sn\<lparr>sn_complete := False\<rparr> else sn))"

fun run_directory_tasks ::
  "file_queries \<Rightarrow> string \<Rightarrow> string list \<Rightarrow> cancel \<Rightarrow> scan \<Rightarrow> cancel \<times> scan" where
  "run_directory_tasks fq root [] cancelled sn = (cancelled, sn)"
| "run_directory_tasks fq root (dir # dirs) cancelled sn =
     (let (cancelled, sn) = process_directory fq root dir cancelled sn in
      run_directory_tasks fq root dirs cancelled sn)"

text \<open>
  The levels.  The tree below the root is finite, but a model of it may not be, so the loop takes
  fuel.
\<close>

fun directory_levels ::
  "nat \<Rightarrow> file_queries \<Rightarrow> string \<Rightarrow> string list \<Rightarrow> cancel \<Rightarrow> scan \<Rightarrow> (cancel \<times> scan) option" where
  "directory_levels 0 fq root current_level cancelled sn = None"
| "directory_levels (Suc fuel) fq root current_level cancelled sn =
     (if current_level = [] then Some (cancelled, sn)
      else let (stop, cancelled) = poll cancelled in
        if stop then Some (cancelled, sn)
        else let (tasks, cancelled) = level_tasks current_level cancelled;
                 (cancelled, sn) = run_directory_tasks fq root tasks cancelled (sn\<lparr>sn_subdirs := []\<rparr>)
             in directory_levels fuel fq root (sn_subdirs sn) cancelled sn)"

definition parallel_enumerate_local_directory ::
  "nat \<Rightarrow> file_queries \<Rightarrow> string \<Rightarrow> cancel \<Rightarrow>
   (directory_entry list \<times> bool \<times> bool \<times> cancel) option" where
  "parallel_enumerate_local_directory fuel fq root cancelled =
     (if \<not> fq_is_directory fq root then Some ([], False, False, cancelled)
      else let visited = (case fq_canonical fq root of Inl _ \<Rightarrow> [] | Inr c \<Rightarrow> [c]) in
        map_option (\<lambda>(cancelled, sn). (sn_files sn, sn_complete sn, sn_alias_omitted sn, cancelled))
          (directory_levels fuel fq root [[]] cancelled
             \<lparr>sn_files = [], sn_subdirs = [], sn_visited = visited, sn_complete = True,
              sn_alias_omitted = False\<rparr>))"

section \<open>What a complete walk found\<close>

definition names_of :: "file_queries \<Rightarrow> string \<Rightarrow> string \<Rightarrow> string list" where
  "names_of fq root dir =
     (case fq_entries fq (at_root root dir) of Inl e \<Rightarrow> [] | Inr (names, throws) \<Rightarrow> names)"

definition subdirs_of :: "file_queries \<Rightarrow> string \<Rightarrow> string \<Rightarrow> string list" where
  "subdirs_of fq root dir =
     map (join_rel dir) (filter (\<lambda>n. fq_status fq (at_root root (join_rel dir n)) = Inr Directory)
                           (names_of fq root dir))"

definition files_of :: "file_queries \<Rightarrow> string \<Rightarrow> string \<Rightarrow> directory_entry list" where
  "files_of fq root dir =
     map (\<lambda>n. stat_entry fq (at_root root (join_rel dir n)) (join_rel dir n))
       (filter (\<lambda>n. fq_status fq (at_root root (join_rel dir n)) = Inr Regular \<and> join_rel dir n \<noteq> [])
          (names_of fq root dir))"

text \<open>The directories below a list of directories, symbolic links followed.\<close>

inductive below :: "file_queries \<Rightarrow> string \<Rightarrow> string list \<Rightarrow> string \<Rightarrow> bool"
  for fq root L where
  here: "d \<in> set L \<Longrightarrow> below fq root L d"
| child: "below fq root L d \<Longrightarrow> d' \<in> set (subdirs_of fq root d) \<Longrightarrow> below fq root L d'"

inductive_cases below_cases: "below fq root L d"
inductive_simps below_simps: "below fq root L d"

lemma below_Nil [simp]: "\<not> below fq root [] d"
proof
  assume "below fq root [] d"
  then show False by induction simp_all
qed

definition clean :: "scan \<Rightarrow> bool" where
  "clean sn \<longleftrightarrow> sn_complete sn \<and> \<not> sn_alias_omitted sn"

lemma scan_entry_clean:
  assumes "clean (scan_entry fq path rel sn)"
  shows "clean sn \<and>
    sn_files (scan_entry fq path rel sn) = sn_files sn @
      (if fq_status fq path = Inr Regular \<and> rel \<noteq> [] then [stat_entry fq path rel] else []) \<and>
    sn_subdirs (scan_entry fq path rel sn) = sn_subdirs sn @
      (if fq_status fq path = Inr Directory then [rel] else [])"
  using assms by (auto simp: scan_entry_def clean_def split: sum.splits file_kind.splits if_splits)

lemma scan_entries_clean:
  assumes "scan_entries fq root dir names c sn = (c', sn')" "clean sn'" "c' \<noteq> Some 0"
  shows "clean sn \<and>
    sn_files sn' = sn_files sn @ map (\<lambda>n. stat_entry fq (at_root root (join_rel dir n)) (join_rel dir n))
       (filter (\<lambda>n. fq_status fq (at_root root (join_rel dir n)) = Inr Regular \<and> join_rel dir n \<noteq> []) names) \<and>
    sn_subdirs sn' = sn_subdirs sn @
     map (join_rel dir) (filter (\<lambda>n. fq_status fq (at_root root (join_rel dir n)) = Inr Directory) names)"
  using assms(1)
proof (induction names arbitrary: c sn)
  case Nil
  with assms(2) show ?case by simp
next
  case (Cons name names)
  obtain stop c1 where p: "poll c = (stop, c1)" by fastforce
  let ?sn = "scan_entry fq (at_root root (join_rel dir name)) (join_rel dir name) sn"
  have "\<not> stop"
  proof
    assume stop
    with p poll_sticky [of c c1] Cons.prems have "c' = Some 0" by simp
    with assms(3) show False ..
  qed
  with Cons.prems p have "scan_entries fq root dir names c1 ?sn = (c', sn')" by simp
  from Cons.IH [OF this] have IH: "clean ?sn" 
    "sn_files sn' = sn_files ?sn @ map (\<lambda>n. stat_entry fq (at_root root (join_rel dir n)) (join_rel dir n))
       (filter (\<lambda>n. fq_status fq (at_root root (join_rel dir n)) = Inr Regular \<and> join_rel dir n \<noteq> []) names)"
    "sn_subdirs sn' = sn_subdirs ?sn @
     map (join_rel dir) (filter (\<lambda>n. fq_status fq (at_root root (join_rel dir n)) = Inr Directory) names)"
    by blast+
  from scan_entry_clean [OF IH(1)] IH(2,3) show ?case by auto
qed

lemma process_directory_clean:
  assumes "process_directory fq root dir c sn = (c', sn')" "clean sn'" "c' \<noteq> Some 0"
  shows "clean sn \<and> sn_files sn' = sn_files sn @ files_of fq root dir \<and>
         sn_subdirs sn' = sn_subdirs sn @ subdirs_of fq root dir"
proof -
  obtain stop c1 where p: "poll c = (stop, c1)" by fastforce
  have ns: "\<not> stop"
    using assms p poll_sticky [of c c1] by (auto simp: process_directory_def p)
  show ?thesis
  proof (cases "fq_entries fq (at_root root dir)")
    case (Inl e)
    with assms p ns show ?thesis
      by (auto simp: process_directory_def files_of_def subdirs_of_def names_of_def clean_def split: if_splits)
  next
    case (Inr nt)
    obtain names throws where nt: "nt = (names, throws)" by fastforce
    obtain c2 sn2 where e: "scan_entries fq root dir names c1 sn = (c2, sn2)" by fastforce
    from assms p ns Inr nt e have "c2 = c'" "sn2 = sn'"
      by (auto simp: process_directory_def clean_def split: if_splits)
    with scan_entries_clean [OF e] assms(2,3) show ?thesis
      by (simp add: files_of_def subdirs_of_def names_of_def Inr nt)
  qed
qed

lemma process_directory_cancelled:
  "process_directory fq root dir (Some 0) sn = (c', sn') \<Longrightarrow> c' = Some 0"
  by (simp add: process_directory_def)

lemma run_directory_tasks_cancelled:
  "run_directory_tasks fq root dirs (Some 0) sn = (c', sn') \<Longrightarrow> c' = Some 0"
  by (induction dirs arbitrary: sn) (auto simp: process_directory_def)

lemma run_directory_tasks_clean:
  assumes "run_directory_tasks fq root dirs c sn = (c', sn')" "clean sn'" "c' \<noteq> Some 0"
  shows "clean sn \<and> sn_files sn' = sn_files sn @ concat (map (files_of fq root) dirs) \<and>
         sn_subdirs sn' = sn_subdirs sn @ concat (map (subdirs_of fq root) dirs)"
  using assms(1)
proof (induction dirs arbitrary: c sn)
  case Nil
  with assms(2) show ?case by simp
next
  case (Cons dir dirs)
  obtain c1 sn1 where d: "process_directory fq root dir c sn = (c1, sn1)" by fastforce
  with Cons.prems have r: "run_directory_tasks fq root dirs c1 sn1 = (c', sn')" by simp
  then have "c1 \<noteq> Some 0" using run_directory_tasks_cancelled assms(3) by blast
  with process_directory_clean [OF d] Cons.IH [OF r] show ?case by simp
qed

lemma post_tasks_all: "post_tasks ps c = (tasks, c') \<Longrightarrow> c' \<noteq> Some 0 \<Longrightarrow> tasks = ps"
proof (induction ps arbitrary: c tasks)
  case (Cons p ps)
  obtain stop c1 where q: "poll c = (stop, c1)" by fastforce
  from Cons.prems q poll_sticky [of c c1] have ns: "\<not> stop" by auto
  obtain posted c2 where r: "post_tasks ps c1 = (posted, c2)" by fastforce
  from Cons.prems q ns r have "c2 = c'" "tasks = p # posted" by auto
  with Cons.IH [of c1 posted] r Cons.prems(2) show ?case by simp
qed simp

lemma level_tasks_all: "level_tasks ps c = (tasks, c') \<Longrightarrow> c' \<noteq> Some 0 \<Longrightarrow> tasks = ps"
  by (auto simp: level_tasks_def post_tasks_all split: if_splits)

lemma clean_subdirs [simp]: "clean (sn\<lparr>sn_subdirs := ds\<rparr>) = clean sn"
  by (simp add: clean_def)

lemma below_step:
  "below fq root L d \<longleftrightarrow> d \<in> set L \<or> below fq root (concat (map (subdirs_of fq root) L)) d"
proof
  assume "below fq root L d"
  then show "d \<in> set L \<or> below fq root (concat (map (subdirs_of fq root) L)) d"
  proof induction
    case (child d d')
    have "d' \<in> set (concat (map (subdirs_of fq root) L))" if "d \<in> set L"
      using that child.hyps by auto
    with child show ?case by (blast intro: below.here below.child)
  qed simp
next
  have "below fq root L d" if "below fq root (concat (map (subdirs_of fq root) L)) d"
    using that by induction (auto intro: below.intros)
  then show "d \<in> set L \<or> below fq root (concat (map (subdirs_of fq root) L)) d \<Longrightarrow> below fq root L d"
    by (auto intro: below.here)
qed

definition files_below :: "file_queries \<Rightarrow> string \<Rightarrow> string list \<Rightarrow> directory_entry set" where
  "files_below fq root L = {f. \<exists>d. below fq root L d \<and> f \<in> set (files_of fq root d)}"

lemma files_below_step:
  "files_below fq root L =
   set (concat (map (files_of fq root) L)) \<union> files_below fq root (concat (map (subdirs_of fq root) L))"
  unfolding files_below_def by (subst below_step) auto

lemma directory_levels_cancelled:
  "directory_levels fuel fq root L (Some 0) sn = Some (c', sn') \<Longrightarrow> c' = Some 0"
  by (cases fuel) (simp_all split: if_split_asm)

lemma directory_levels_run:
  assumes "L \<noteq> []" "poll c = (False, c1)" "level_tasks L c1 = (tasks, c2)"
    and "run_directory_tasks fq root tasks c2 (sn\<lparr>sn_subdirs := []\<rparr>) = (c3, sn3)"
  shows "directory_levels (Suc fuel) fq root L c sn =
         directory_levels fuel fq root (sn_subdirs sn3) c3 sn3"
  using assms by simp

lemma directory_levels_clean:
  assumes "directory_levels fuel fq root L c sn = Some (c', sn')" "clean sn'" "c' \<noteq> Some 0"
  shows "clean sn \<and> set (sn_files sn') = set (sn_files sn) \<union> files_below fq root L"
  using assms(1)
proof (induction fuel arbitrary: L c sn)
  case (Suc fuel)
  show ?case
  proof (cases "L = []")
    case True
    with Suc.prems assms(2) show ?thesis by (simp add: files_below_def)
  next
    case False
    obtain stop c1 where p: "poll c = (stop, c1)" by fastforce
    have c1: "poll c = (False, c1)"
    proof (cases stop)
      case True
      with p poll_sticky [of c c1] have "c = Some 0" using poll_True_iff [of c] by simp
      with Suc.prems directory_levels_cancelled assms(3) show ?thesis by blast
    qed (use p in simp)
    obtain tasks c2 where t: "level_tasks L c1 = (tasks, c2)" by fastforce
    obtain c3 sn3 where r: "run_directory_tasks fq root tasks c2 (sn\<lparr>sn_subdirs := []\<rparr>) = (c3, sn3)"
      by fastforce
    have d: "directory_levels fuel fq root (sn_subdirs sn3) c3 sn3 = Some (c', sn')"
      using Suc.prems unfolding directory_levels_run [OF False c1 t r] .
    have c3: "c3 \<noteq> Some 0"
      using d assms(3) directory_levels_cancelled by blast
    then have "c2 \<noteq> Some 0" using r run_directory_tasks_cancelled by blast
    with t have tasks: "tasks = L" by (rule level_tasks_all)
    from Suc.IH [OF d] have IH: "clean sn3"
      "set (sn_files sn') = set (sn_files sn3) \<union> files_below fq root (sn_subdirs sn3)" by blast+
    from run_directory_tasks_clean [OF r IH(1) c3] have
      "clean sn" "sn_files sn3 = sn_files sn @ concat (map (files_of fq root) L)"
      "sn_subdirs sn3 = concat (map (subdirs_of fq root) L)"
      by (simp_all add: tasks)
    with IH(2) show ?thesis by (subst files_below_step) auto
  qed
qed simp

text \<open>
  Termination: the walk returns when something bounds the depth of the tree, because a followed
  link is followed once.  The tasks only ever list sub-directories of the level.
\<close>

lemma scan_entry_subdirs:
  "set (sn_subdirs (scan_entry fq path rel sn)) \<subseteq>
   set (sn_subdirs sn) \<union> (if fq_status fq path = Inr Directory then {rel} else {})"
  by (auto simp: scan_entry_def split: sum.splits file_kind.splits if_splits)

lemma scan_entries_subdirs:
  "scan_entries fq root dir names c sn = (c', sn') \<Longrightarrow>
   set (sn_subdirs sn') \<subseteq> set (sn_subdirs sn) \<union>
     {join_rel dir n | n. n \<in> set names \<and> fq_status fq (at_root root (join_rel dir n)) = Inr Directory}"
proof (induction names arbitrary: c sn)
  case (Cons name names)
  obtain stop c1 where p: "poll c = (stop, c1)" by fastforce
  show ?case
  proof (cases stop)
    case True
    with Cons.prems p show ?thesis by auto
  next
    case False
    with Cons.prems p have "scan_entries fq root dir names c1
        (scan_entry fq (at_root root (join_rel dir name)) (join_rel dir name) sn) = (c', sn')" by simp
    from Cons.IH [OF this]
      scan_entry_subdirs [of fq "at_root root (join_rel dir name)" "join_rel dir name" sn]
    show ?thesis by (auto split: if_splits)
  qed
qed simp

lemma process_directory_subdirs:
  assumes "process_directory fq root dir c sn = (c', sn')"
  shows "set (sn_subdirs sn') \<subseteq> set (sn_subdirs sn) \<union> set (subdirs_of fq root dir)"
proof -
  obtain stop c1 where p: "poll c = (stop, c1)" by fastforce
  show ?thesis
  proof (cases "stop \<or> (\<exists>e. fq_entries fq (at_root root dir) = Inl e)")
    case True
    with assms p show ?thesis by (auto simp: process_directory_def split: if_splits)
  next
    case False
    then obtain names throws where e: "fq_entries fq (at_root root dir) = Inr (names, throws)"
      by (metis old.prod.exhaust sum.exhaust)
    obtain c2 sn2 where s: "scan_entries fq root dir names c1 sn = (c2, sn2)" by fastforce
    with assms p False e have "sn_subdirs sn' = sn_subdirs sn2" by (auto simp: process_directory_def)
    with scan_entries_subdirs [OF s] show ?thesis
      by (auto simp: subdirs_of_def names_of_def e)
  qed
qed

lemma run_directory_tasks_subdirs:
  "run_directory_tasks fq root dirs c sn = (c', sn') \<Longrightarrow>
   set (sn_subdirs sn') \<subseteq> set (sn_subdirs sn) \<union> (\<Union>d\<in>set dirs. set (subdirs_of fq root d))"
proof (induction dirs arbitrary: c sn)
  case (Cons dir dirs)
  obtain c1 sn1 where d: "process_directory fq root dir c sn = (c1, sn1)" by fastforce
  with Cons.prems have "run_directory_tasks fq root dirs c1 sn1 = (c', sn')" by simp
  from Cons.IH [OF this] process_directory_subdirs [OF d] show ?case by auto
qed simp

lemma post_tasks_subset: "post_tasks ps c = (tasks, c') \<Longrightarrow> set tasks \<subseteq> set ps"
  by (induction ps arbitrary: c tasks) (force split: prod.splits if_splits)+

lemma level_tasks_subset: "level_tasks ps c = (tasks, c') \<Longrightarrow> set tasks \<subseteq> set ps"
  using post_tasks_subset [of ps c tasks c'] by (auto simp: level_tasks_def split: if_splits)

definition depth_bounded :: "file_queries \<Rightarrow> string \<Rightarrow> (string \<Rightarrow> nat) \<Rightarrow> bool" where
  "depth_bounded fq root h \<longleftrightarrow> (\<forall>d. list_all (\<lambda>d'. h d' < h d) (subdirs_of fq root d))"

lemma directory_levels_returns:
  assumes "depth_bounded fq root h" "list_all (\<lambda>d. h d < fuel) L"
  shows "\<exists>r. directory_levels (Suc fuel) fq root L c sn = Some r"
  using assms(2)
proof (induction fuel arbitrary: L c sn)
  case 0
  then show ?case by (cases L) auto
next
  case (Suc fuel)
  obtain stop c1 where p: "poll c = (stop, c1)" by fastforce
  obtain tasks c2 where t: "level_tasks L c1 = (tasks, c2)" by fastforce
  obtain c3 sn3 where r: "run_directory_tasks fq root tasks c2 (sn\<lparr>sn_subdirs := []\<rparr>) = (c3, sn3)"
    by fastforce
  have "list_all (\<lambda>d. h d < fuel) (sn_subdirs sn3)"
    unfolding list_all_iff
  proof
    fix d' assume "d' \<in> set (sn_subdirs sn3)"
    with run_directory_tasks_subdirs [OF r] level_tasks_subset [OF t]
    obtain d where "d \<in> set L" "d' \<in> set (subdirs_of fq root d)" by auto
    with assms(1) Suc.prems show "h d' < fuel"
      unfolding depth_bounded_def list_all_iff by fastforce
  qed
  from Suc.IH [OF this, of c3 sn3] show ?case
    by (subst directory_levels.simps) (simp only: p t r Let_def prod.case, simp)
qed

text \<open>A walk that reports no gap has seen every file, however much fuel it had.\<close>

lemma complete_walk_files:
  assumes "parallel_enumerate_local_directory fuel fq root c = Some (es, True, False, c')" "c' \<noteq> Some 0"
  shows "set es = files_below fq root [[]]"
proof -
  define sn where "sn = \<lparr>sn_files = [], sn_subdirs = [],
      sn_visited = (case fq_canonical fq root of Inl _ \<Rightarrow> [] | Inr c \<Rightarrow> [c]), sn_complete = True,
      sn_alias_omitted = False\<rparr>"
  from assms(1) obtain sn' where "directory_levels fuel fq root [[]] c sn = Some (c', sn')" "sn_files sn' = es"
      "sn_complete sn'" "\<not> sn_alias_omitted sn'"
    by (auto simp: parallel_enumerate_local_directory_def sn_def [symmetric] split: if_splits)
  with directory_levels_clean [of fuel fq root "[[]]" c sn c' sn'] assms(2) show ?thesis
    by (simp add: clean_def sn_def)
qed


text \<open>A tree of one directory and two files, one of them unreadable metadata.\<close>

definition one_directory :: file_queries where
  "one_directory = \<lparr>fq_is_directory = (\<lambda>p. p = ''d''),
     fq_entries = (\<lambda>p. if p = ''d'' then Inr ([''x'', ''y''], False) else Inl ENOENT),
     fq_is_symlink = (\<lambda>p. False), fq_status = (\<lambda>p. Inr Regular), fq_canonical = (\<lambda>p. Inr p),
     fq_stat = (\<lambda>p. Some (3, 7))\<rparr>"


end
