(* ===== verification/Dir_Enum.thy ===== *)
theory Dir_Enum
  imports Local_Enum
begin

text \<open>
  What directory_comparison.cpp puts around the two enumerations: whether a source is a directory,
  the listing of one directory level, the streaming variant of the S3 enumeration, and the name of
  one file of a source.
\<close>

section \<open>Sources\<close>

definition is_directory_source :: "file_queries \<Rightarrow> file_source \<Rightarrow> bool" where
  "is_directory_source fq src =
     (case fs_type src of
        Local \<Rightarrow> fq_is_directory fq (fs_path src)
      | S3 \<Rightarrow> if ends_with_char CHR ''/'' (fs_path src) then True else False)"

definition is_s3_prefix :: "'s client_factory \<Rightarrow> file_source \<Rightarrow> 's \<Rightarrow> bool \<times> 's" where
  "is_s3_prefix create src s =
     (if fs_type src \<noteq> S3 then (False, s)
      else if fs_path src = [] then (True, s)
      else if ends_with_char CHR ''/'' (fs_path src) then (True, s)
      else if fs_region src = [] \<or> fs_bucket src = [] then (False, s)
      else case create (fs_region src) (fs_endpoint src) 10 (fs_profile src) of
             None \<Rightarrow> (False, s)
           | Some client \<Rightarrow> let (n, s) = GetObjectSize client (fs_bucket src) (fs_path src) s in (n < 0, s))"

definition make_file_source :: "file_source \<Rightarrow> string \<Rightarrow> file_source" where
  "make_file_source dir relative_path =
     (case fs_type dir of
        Local \<Rightarrow> dir\<lparr>fs_path := path_append (fs_path dir) relative_path\<rparr>
      | S3 \<Rightarrow> dir\<lparr>fs_path := with_slash (fs_path dir) @ relative_path\<rparr>)"

section \<open>One level of a local directory\<close>

fun flat_entries ::
  "file_queries \<Rightarrow> string \<Rightarrow> string list \<Rightarrow> cancel \<Rightarrow> directory_entry list \<times> bool \<times> cancel" where
  "flat_entries fq root [] cancelled = ([], True, cancelled)"
| "flat_entries fq root (name # names) cancelled =
     (let (stop, cancelled) = poll cancelled in
      if stop then ([], True, cancelled)
      else let (es, complete, cancelled) = flat_entries fq root names cancelled;
               path = path_append root name
           in (case fq_status fq path of
                 Inl e \<Rightarrow> (es, absent e \<and> complete, cancelled)
               | Inr Regular \<Rightarrow> (stat_entry fq path name # es, complete, cancelled)
               | Inr _ \<Rightarrow> (es, complete, cancelled)))"

text \<open>A recursive listing goes through the walk; an iteration that throws makes the listing partial.\<close>

definition enumerate_local_directory ::
  "nat \<Rightarrow> file_queries \<Rightarrow> string \<Rightarrow> bool \<Rightarrow> cancel \<Rightarrow> (directory_entry list \<times> bool \<times> cancel) option" where
  "enumerate_local_directory fuel fq root recursive cancelled =
     (if \<not> fq_is_directory fq root then Some ([], False, cancelled)
      else if recursive then
        map_option (\<lambda>(es, complete, alias_omitted, cancelled). (es, complete, cancelled))
          (parallel_enumerate_local_directory fuel fq root cancelled)
      else case fq_entries fq root of
             Inl e \<Rightarrow> Some ([], False, cancelled)
           | Inr (names, throws) \<Rightarrow>
               let (es, complete, cancelled) = flat_entries fq root names cancelled
               in Some (es, complete \<and> \<not> throws, cancelled))"

section \<open>The streaming enumeration\<close>

text \<open>
  \<^verbatim>\<open>parallel_enumerate_s3_prefix_streaming\<close> hands each level to a callback instead of collecting it.
  The callback is a state transformer that goes on, stops the enumeration or throws; \<open>Raised\<close> is an
  exception that leaves the function.
\<close>

datatype callback_answer = GoOn | StopHere | Throws
datatype stream_end = Ended | Raised

type_synonym 'k callback = "directory_entry list \<Rightarrow> 'k \<Rightarrow> callback_answer \<times> 'k"

fun stream_pages ::
  "nat \<Rightarrow> 's s3_client \<Rightarrow> string \<Rightarrow> string \<Rightarrow> string \<Rightarrow> string \<Rightarrow> cancel \<Rightarrow> 's \<Rightarrow>
   (directory_entry list \<times> string list \<times> cancel \<times> 's) option" where
  "stream_pages 0 client bucket normalized_prefix current_prefix token cancelled s = None"
| "stream_pages (Suc fuel) client bucket normalized_prefix current_prefix token cancelled s =
     (let (stop, cancelled) = poll cancelled in
      if stop then Some ([], [], cancelled, s)
      else let (r, s) = ListObjects client bucket current_prefix ''/'' token 1000 s in
        if \<not> lr_success r then Some ([], [], cancelled, s)
        else let (es, cancelled) = collect_objects (keeps_object_bfs False normalized_prefix current_prefix)
                                     normalized_prefix (lr_objects r) cancelled in
          if lr_next_token r = [] then Some (es, lr_common_prefixes r, cancelled, s)
          else let (stop, cancelled) = poll cancelled in
            if stop then Some (es, lr_common_prefixes r, cancelled, s)
            else map_option (\<lambda>(es', subdirs', cancelled, s). (es @ es', lr_common_prefixes r @ subdirs', cancelled, s))
                   (stream_pages fuel client bucket normalized_prefix current_prefix (lr_next_token r) cancelled s))"

fun run_stream_tasks ::
  "nat \<Rightarrow> 's s3_client \<Rightarrow> string \<Rightarrow> string \<Rightarrow> string list \<Rightarrow> cancel \<Rightarrow> 's \<Rightarrow>
   (directory_entry list \<times> string list \<times> cancel \<times> 's) option" where
  "run_stream_tasks fuel client bucket normalized_prefix [] cancelled s = Some ([], [], cancelled, s)"
| "run_stream_tasks fuel client bucket normalized_prefix (p # ps) cancelled s =
     (let (stop, cancelled) = poll cancelled in
      case (if stop then Some ([], [], cancelled, s)
            else stream_pages fuel client bucket normalized_prefix p [] cancelled s) of
        None \<Rightarrow> None
      | Some (es, subdirs, cancelled, s) \<Rightarrow>
          map_option (\<lambda>(es', subdirs', cancelled, s). (es @ es', subdirs @ subdirs', cancelled, s))
            (run_stream_tasks fuel client bucket normalized_prefix ps cancelled s))"

fun stream_levels ::
  "nat \<Rightarrow> 's s3_client \<Rightarrow> 'k callback \<Rightarrow> string \<Rightarrow> string \<Rightarrow> string list \<Rightarrow> cancel \<Rightarrow> 's \<Rightarrow> 'k \<Rightarrow>
   (cancel \<times> 's \<times> 'k) option" where
  "stream_levels 0 client on_entries bucket normalized_prefix current_level cancelled s k = None"
| "stream_levels (Suc fuel) client on_entries bucket normalized_prefix current_level cancelled s k =
     (if current_level = [] then Some (cancelled, s, k)
      else let (stop, cancelled) = poll cancelled in
        if stop then Some (cancelled, s, k)
        else let (tasks, cancelled) = level_tasks current_level cancelled in
          case run_stream_tasks fuel client bucket normalized_prefix tasks cancelled s of
            None \<Rightarrow> None
          | Some (es, next_level, cancelled, s) \<Rightarrow>
              let (stop, cancelled) = (if es = [] then (True, cancelled) else poll cancelled) in
              if stop then stream_levels fuel client on_entries bucket normalized_prefix next_level cancelled s k
              else let (answer, k) = on_entries es k in
                if answer = GoOn
                then stream_levels fuel client on_entries bucket normalized_prefix next_level cancelled s k
                else Some (Some 0, s, k))"

definition parallel_enumerate_s3_prefix_streaming ::
  "nat \<Rightarrow> 's s3_client option \<Rightarrow> 'k callback option \<Rightarrow> string \<Rightarrow> string \<Rightarrow> bool \<Rightarrow> cancel \<Rightarrow> 's \<Rightarrow> 'k \<Rightarrow>
   (stream_end \<times> cancel \<times> 's \<times> 'k) option" where
  "parallel_enumerate_s3_prefix_streaming fuel client on_entries bucket pre recursive cancelled s k =
     (case client of
        None \<Rightarrow> Some (Ended, cancelled, s, k)
      | Some c \<Rightarrow>
          (case on_entries of
             None \<Rightarrow> Some (Ended, cancelled, s, k)
           | Some on_entries \<Rightarrow>
               if \<not> recursive then
                 (case enumerate_s3_prefix fuel client bucket pre False cancelled s of
                    None \<Rightarrow> None
                  | Some (es, complete, cancelled, s) \<Rightarrow>
                      if es = [] then Some (Ended, cancelled, s, k)
                      else let (answer, k) = on_entries es k
                           in Some (if answer = Throws then Raised else Ended, cancelled, s, k))
               else map_option (Pair Ended)
                      (stream_levels fuel c on_entries bucket (with_slash pre) [with_slash pre] cancelled s k)))"

section \<open>Streaming delivers what the listing collects\<close>

definition collecting :: "directory_entry list callback" where
  "collecting es acc = (GoOn, acc @ es)"

lemma stream_pages_eq:
  "stream_pages fuel client b np p t c s =
     map_option (\<lambda>(es, ds, ok, c, s). (es, ds, c, s)) (prefix_pages fuel client b False np p t c s)"
proof (induction fuel arbitrary: t c s)
  case (Suc fuel)
  obtain stop c1 where q: "poll c = (stop, c1)" by fastforce
  obtain r s1 where l: "ListObjects client b p ''/'' t 1000 s = (r, s1)" by fastforce
  obtain es c2 where co: "collect_objects (keeps_object_bfs False np p) np (lr_objects r) c1 = (es, c2)" by fastforce
  obtain stop2 c3 where q2: "poll c2 = (stop2, c3)" by fastforce
  have "?case" if "\<not> stop" "lr_success r" "lr_next_token r \<noteq> []" "\<not> stop2"
    using that by (simp add: q l co q2 Suc.IH option.map_comp comp_def) (simp add: case_prod_unfold)
  then show ?case by (cases "stop \<or> \<not> lr_success r \<or> lr_next_token r = [] \<or> stop2") (auto simp: q l co q2 Let_def)
qed simp

lemma run_stream_tasks_eq:
  "run_stream_tasks fuel client b np ps c s =
     map_option (\<lambda>(es, ds, ok, c, s). (es, ds, c, s)) (run_prefix_tasks fuel client b False np ps c s)"
proof (induction ps arbitrary: c s)
  case (Cons p ps)
  obtain stop c1 where q: "poll c = (stop, c1)" by fastforce
  show ?case
    by (cases stop; cases "prefix_pages fuel client b False np p [] c1 s")
       (auto simp: q process_prefix_def stream_pages_eq Cons.IH option.map_comp comp_def case_prod_unfold)
qed simp

lemma uncancelled:
  "collect_objects keep np objs None = (es, c) \<Longrightarrow> c = None"
  "level_tasks L None = (ts, c) \<Longrightarrow> c = None"
  "prefix_pages fuel client b m np p t None s = Some (es', ds, ok, c, s') \<Longrightarrow> c = None"
  "run_prefix_tasks fuel client b m np ps None s = Some (es', ds, ok, c, s') \<Longrightarrow> c = None"
proof -
  show c: "collect_objects keep np objs None = (es, c) \<Longrightarrow> c = None" for keep np objs es c
    by (induction objs arbitrary: es c) (auto split: prod.splits)
  have "post_tasks L None = (ts, c) \<Longrightarrow> c = None"
    by (induction L arbitrary: ts c) (auto split: prod.splits)
  then show "level_tasks L None = (ts, c) \<Longrightarrow> c = None" by (auto simp: level_tasks_def split: if_splits)
  show p: "prefix_pages fuel client b m np p t None s = Some (es', ds, ok, c, s') \<Longrightarrow> c = None"
    for p t s es' ds ok c s'
    by (induction fuel arbitrary: t s es' ds ok c) (auto dest!: c simp: Let_def split: prod.splits if_splits)
  show "run_prefix_tasks fuel client b m np ps None s = Some (es', ds, ok, c, s') \<Longrightarrow> c = None"
  proof (induction ps arbitrary: s es' ds ok)
    case (Cons x xs)
    then obtain es1 ds1 ok1 c1 s1 where a: "prefix_pages fuel client b m np x [] None s = Some (es1, ds1, ok1, c1, s1)"
      by (auto simp: process_prefix_def split: option.splits)
    with Cons.prems obtain es2 ds2 ok2 where "run_prefix_tasks fuel client b m np xs c1 s1 = Some (es2, ds2, ok2, c, s')"
      by (auto simp: process_prefix_def)
    with p [OF a] Cons.IH show ?case by blast
  qed simp
qed

lemma stream_levels_collects:
  "map_option (\<lambda>(c, s, acc). (acc, s)) (stream_levels fuel client collecting b np L None s acc) =
     map_option (\<lambda>(es, ok, c, s). (acc @ es, s)) (prefix_levels fuel client b False np L None s)"
proof (induction fuel arbitrary: L s acc)
  case (Suc fuel)
  obtain ts c where t: "level_tasks L None = (ts, c)" by fastforce
  from uncancelled(2) [OF this] have c: "c = None" .
  show ?case
  proof (cases "L = [] \<or> run_prefix_tasks fuel client b False np ts None s = None")
    case True
    then show ?thesis by (auto simp: t c run_stream_tasks_eq)
  next
    case False
    then obtain es ds ok c1 s1 where r: "run_prefix_tasks fuel client b False np ts None s = Some (es, ds, ok, c1, s1)"
      by auto
    from uncancelled(4) [OF this] have "c1 = None" .
    with False r Suc.IH [of ds s1 acc] Suc.IH [of ds s1 "acc @ es"] show ?thesis
      by (cases "es = []") (simp_all add: t c run_stream_tasks_eq collecting_def option.map_comp comp_def case_prod_unfold)
  qed
qed simp

text \<open>
  the streaming enumeration is the collecting one cut into pieces: a callback that gathers what it
  is given ends up with the same entries in the same order, and the requests are the same, whether
  recursive or not and whatever the service answers.
\<close>

theorem streaming_delivers_listing:
  "map_option (\<lambda>(e, c, s, acc). (acc, s))
     (parallel_enumerate_s3_prefix_streaming fuel client (Some collecting) b p recursive None s []) =
   map_option (\<lambda>(es, complete, c, s). (es, s))
     (parallel_enumerate_s3_prefix fuel client b p recursive False None s)"
proof (cases client)
  case (Some c)
  show ?thesis
  proof (cases recursive)
    case True
    with Some stream_levels_collects [of fuel c b "with_slash p" "[with_slash p]" s "[]"] show ?thesis
      by (simp add: parallel_enumerate_s3_prefix_streaming_def parallel_enumerate_s3_prefix_def option.map_comp
          comp_def case_prod_unfold)
  next
    case False
    with Some show ?thesis
      by (auto simp: parallel_enumerate_s3_prefix_streaming_def parallel_enumerate_s3_prefix_def collecting_def
          split: option.splits)
  qed
qed (simp add: parallel_enumerate_s3_prefix_streaming_def parallel_enumerate_s3_prefix_def)

end
