(* ===== verification/Dir_Compare.thy ===== *)
theory Dir_Compare
  imports File_Blocks Dir_Enum "HOL-Library.Multiset"
begin

text \<open>
  \<^verbatim>\<open>run_directory_comparison\<close> of directory_comparison.cpp.  The comparisons of single files run on a
  pool; \<open>schedule\<close>, a parameter, is the order in which the pool gets to them, and every comparison is
  one step.  The measurements that widen the window while the comparison runs are left out: they
  decide how many files are compared at a time, never which.  The two listings, concurrent in the
  code, come one after the other.
\<close>

section \<open>Configuration and result\<close>

record dir_config =
  dc_source_a :: file_source
  dc_source_b :: file_source
  dc_recursive :: bool
  dc_num_threads :: int
  dc_max_connections :: int
  dc_chunk_size :: int
  dc_parallel_discovery :: bool

datatype dir_error =
    NoClientA | NoClientB | PartialBoth | PartialA | PartialB | CancelledListing | CancelledComparing

record dir_result =
  dr_files :: "file_compare_result list"
  dr_total :: nat
  dr_matching :: nat
  dr_mismatched :: nat
  dr_only_in_a :: nat
  dr_only_in_b :: nat
  dr_errors :: nat
  dr_bytes_a :: int
  dr_bytes_b :: int
  dr_success :: bool
  dr_error :: "dir_error option"

definition default_dir_result :: dir_result where
  "default_dir_result = \<lparr>dr_files = [], dr_total = 0, dr_matching = 0, dr_mismatched = 0, dr_only_in_a = 0,
     dr_only_in_b = 0, dr_errors = 0, dr_bytes_a = 0, dr_bytes_b = 0, dr_success = False, dr_error = None\<rparr>"

section \<open>Clients and listings\<close>

definition dir_clients ::
  "'s client_factory \<Rightarrow> dir_config \<Rightarrow> 's s3_client option \<Rightarrow> 's s3_client option \<Rightarrow>
   dir_error + ('s s3_client option \<times> 's s3_client option)" where
  "dir_clients create cfg client_a client_b =
     (let a = dc_source_a cfg; b = dc_source_b cfg;
          connect = (\<lambda>src. create (fs_region src) (fs_endpoint src) (dc_max_connections cfg) (fs_profile src));
          client_a = (if fs_type a = S3 \<and> Option.is_none client_a then connect a else client_a) in
      if fs_type a = S3 \<and> Option.is_none client_a then Inl NoClientA
      else if fs_type b = S3 \<and> Option.is_none client_b then
        if should_reuse_s3_client a b then Inr (client_a, client_a)
        else (case connect b of None \<Rightarrow> Inl NoClientB | Some c \<Rightarrow> Inr (client_a, Some c))
      else Inr (client_a, client_b))"

definition list_source ::
  "nat \<Rightarrow> file_queries \<Rightarrow> dir_config \<Rightarrow> file_source \<Rightarrow> 's s3_client option \<Rightarrow> cancel \<Rightarrow> 's \<Rightarrow> 's listing" where
  "list_source fuel fq cfg src client cancelled s =
     (case fs_type src of
        Local \<Rightarrow>
          if dc_parallel_discovery cfg \<and> dc_recursive cfg then
            map_option (\<lambda>(es, complete, alias_omitted, cancelled). (es, complete, cancelled, s))
              (parallel_enumerate_local_directory fuel fq (fs_path src) cancelled)
          else map_option (\<lambda>(es, complete, cancelled). (es, complete, cancelled, s))
                 (enumerate_local_directory fuel fq (fs_path src) (dc_recursive cfg) cancelled)
      | S3 \<Rightarrow>
          if dc_parallel_discovery cfg \<and> dc_recursive cfg then
            parallel_enumerate_s3_prefix fuel client (fs_bucket src) (fs_path src) (dc_recursive cfg) False cancelled s
          else enumerate_s3_prefix fuel client (fs_bucket src) (fs_path src) (dc_recursive cfg) cancelled s)"

definition list_both ::
  "nat \<Rightarrow> file_queries \<Rightarrow> dir_config \<Rightarrow> 's s3_client option \<Rightarrow> 's s3_client option \<Rightarrow> cancel \<Rightarrow> 's \<Rightarrow>
   (directory_entry list \<times> bool \<times> directory_entry list \<times> bool \<times> cancel \<times> 's) option" where
  "list_both fuel fq cfg client_a client_b cancelled s =
     (case list_source fuel fq cfg (dc_source_a cfg) client_a cancelled s of
        None \<Rightarrow> None
      | Some (entries_a, complete_a, cancelled, s) \<Rightarrow>
          map_option (\<lambda>(entries_b, complete_b, cancelled, s). (entries_a, complete_a, entries_b, complete_b, cancelled, s))
            (list_source fuel fq cfg (dc_source_b cfg) client_b cancelled s))"

definition partial_error :: "bool \<Rightarrow> bool \<Rightarrow> dir_error" where
  "partial_error complete_a complete_b =
     (if \<not> complete_a \<and> \<not> complete_b then PartialBoth else if \<not> complete_a then PartialA else PartialB)"

section \<open>Files on one side only\<close>

definition size_of :: "directory_entry list \<Rightarrow> string \<Rightarrow> int" where
  "size_of es path = (case map_of (rev (map (\<lambda>e. (de_path e, de_size e)) es)) path of None \<Rightarrow> 0 | Some n \<Rightarrow> n)"

definition total_size :: "directory_entry list \<Rightarrow> int" where
  "total_size es = sum_list (map de_size es)"

text \<open>The sorted paths of one listing that are, or are not, in another.\<close>

definition common_paths :: "directory_entry list \<Rightarrow> directory_entry list \<Rightarrow> string list" where
  "common_paths xs ys = sort (remdups (filter (\<lambda>p. List.member (map de_path ys) p) (map de_path xs)))"

definition paths_without :: "directory_entry list \<Rightarrow> directory_entry list \<Rightarrow> string list" where
  "paths_without xs ys = sort (remdups (filter (\<lambda>p. \<not> List.member (map de_path ys) p) (map de_path xs)))"

definition chunk_count :: "int \<Rightarrow> int \<Rightarrow> nat" where
  "chunk_count chunk_size n = (if n > 0 then nat (ceil_div n chunk_size) else 0)"

definition only_in_a_result :: "int \<Rightarrow> string \<Rightarrow> int \<Rightarrow> file_compare_result" where
  "only_in_a_result chunk_size path n =
     (let total = chunk_count chunk_size n;
          fcr = default_file_compare_result\<lparr>fr_path := path, fr_status := Mismatch, fr_size_a := n, fr_size_b := -1,
                  fr_total_chunks := total, fr_extra_chunks_a := [0 ..< total]\<rparr> in
      if n > 0 \<and> n \<le> 5 * chunk_size then
        let block_size = compute_adaptive_block_size n; blocks = nat (ceil_div n block_size)
        in fcr\<lparr>fr_has_block_analysis := True, fr_block_size := block_size, fr_total_blocks := blocks,
               fr_extra_blocks_a := [0 ..< blocks]\<rparr>
      else fcr)"

definition only_in_b_result :: "int \<Rightarrow> string \<Rightarrow> int \<Rightarrow> file_compare_result" where
  "only_in_b_result chunk_size path n =
     (let total = chunk_count chunk_size n;
          fcr = default_file_compare_result\<lparr>fr_path := path, fr_status := Mismatch, fr_size_a := -1, fr_size_b := n,
                  fr_total_chunks := total, fr_extra_chunks_b := [0 ..< total]\<rparr> in
      if n > 0 \<and> n \<le> 5 * chunk_size then
        let block_size = compute_adaptive_block_size n; blocks = nat (ceil_div n block_size)
        in fcr\<lparr>fr_has_block_analysis := True, fr_block_size := block_size, fr_total_blocks := blocks,
               fr_extra_blocks_b := [0 ..< blocks]\<rparr>
      else fcr)"

section \<open>How many at a time\<close>

definition max_threads :: "dir_config \<Rightarrow> int" where
  "max_threads cfg = (if dc_num_threads cfg > 0 then dc_num_threads cfg else 1024)"

text \<open>
  Threads per file and the width of the window, for the numbers of files of more than one chunk and
  of the others.  The quotient of the two counts is exact enough in a \<^verbatim>\<open>double\<close> for the integer
  arithmetic here to agree with it below $2^{50}$ files.
\<close>

definition parallelism :: "int \<Rightarrow> nat \<Rightarrow> nat \<Rightarrow> int \<times> nat" where
  "parallelism threads multi_chunk single_chunk =
     (let n = multi_chunk + single_chunk;
          (threads_per_file, initial_concurrency) =
            (if n = 0 then (1, 0)
             else if multi_chunk = 0 then (1, min n (nat threads))
             else if single_chunk = 0 then
               let t = max 1 (threads div max 1 (int n)) in (t, min n (nat (threads div t)))
             else if 2 * multi_chunk > n then
               let t = max 1 (int (4 * multi_chunk div n + 1)) in (t, min n (nat (threads div t)))
             else (1, min n (nat threads)))
      in (threads_per_file, min initial_concurrency (nat (threads div threads_per_file))))"

definition multi_chunk_files :: "int \<Rightarrow> directory_entry list \<Rightarrow> directory_entry list \<Rightarrow> nat" where
  "multi_chunk_files chunk_size xs ys =
     length (filter (\<lambda>p. max (size_of xs p) (size_of ys p) > chunk_size) (common_paths xs ys))"

definition initial_concurrency :: "dir_config \<Rightarrow> directory_entry list \<Rightarrow> directory_entry list \<Rightarrow> nat" where
  "initial_concurrency cfg xs ys =
     (let multi = multi_chunk_files (dc_chunk_size cfg) xs ys
      in snd (parallelism (max_threads cfg) multi (length (common_paths xs ys) - multi)))"

section \<open>One file\<close>

text \<open>
  \<^verbatim>\<open>process_file\<close>.  The comparison gets a copy of the cancellation flag, so a later cancellation does
  not reach it; \<^term>\<open>None\<close> is no result.
\<close>

definition file_config :: "dir_config \<Rightarrow> string \<Rightarrow> comparison_config" where
  "file_config cfg path = \<lparr>cc_source_a = make_file_source (dc_source_a cfg) path,
     cc_source_b = make_file_source (dc_source_b cfg) path, cc_chunk_ids = [], cc_max_connections = 128,
     cc_chunk_size = dc_chunk_size cfg\<rparr>"

definition file_result :: "local_files \<Rightarrow> dir_config \<Rightarrow> string \<Rightarrow> comparison_result \<Rightarrow> file_compare_result" where
  "file_result files cfg path r =
     (let fcr = default_file_compare_result\<lparr>fr_path := path, fr_size_a := cr_size_a r, fr_size_b := cr_size_b r,
                  fr_total_chunks := max (length (cr_source_a_crcs r)) (length (cr_source_b_crcs r))\<rparr> in
      if \<not> cr_success r then fcr\<lparr>fr_status := CompareError, fr_error := cr_error r\<rparr>
      else if cr_all_match r then fcr\<lparr>fr_status := Match\<rparr>
      else let fcr = fcr\<lparr>fr_status := Mismatch, fr_mismatched_chunks := cr_mismatched r,
                         fr_extra_chunks_a := cr_extra_a r, fr_extra_chunks_b := cr_extra_b r\<rparr> in
        if fr_total_chunks fcr \<le> 5
        then analyze_small_file_blocks files (make_file_source (dc_source_a cfg) path)
               (make_file_source (dc_source_b cfg) path) fcr (dc_chunk_size cfg)
        else fcr)"

definition compare_file ::
  "'s client_factory \<Rightarrow> zng_crc \<Rightarrow> local_files \<Rightarrow> (string \<Rightarrow> pread) \<Rightarrow> dir_config \<Rightarrow> 's s3_client option \<Rightarrow>
   's s3_client option \<Rightarrow> string \<Rightarrow> cancel \<Rightarrow> 's \<Rightarrow> file_compare_result option \<times> cancel \<times> 's" where
  "compare_file create z files rd cfg client_a client_b path cancelled s =
     (let (stop, cancelled) = poll cancelled in
      if stop then (None, cancelled, s)
      else let (flag, cancelled) = poll cancelled;
               (r, _, s) = run_comparison create z files rd (file_config cfg path) client_a client_b
                             (if flag then Some 0 else None) s;
               (stop, cancelled) = poll cancelled
           in (if stop then None else Some (file_result files cfg path r), cancelled, s))"

record tally =
  ta_results :: "file_compare_result list"
  ta_matching :: nat
  ta_mismatched :: nat
  ta_errors :: nat

definition no_tally :: tally where
  "no_tally = \<lparr>ta_results = [], ta_matching = 0, ta_mismatched = 0, ta_errors = 0\<rparr>"

definition tally_file :: "file_compare_result \<Rightarrow> tally \<Rightarrow> tally" where
  "tally_file f t =
     (let t = t\<lparr>ta_results := ta_results t @ [f]\<rparr> in
      case fr_status f of
        CompareError \<Rightarrow> t\<lparr>ta_errors := ta_errors t + 1\<rparr>
      | Match \<Rightarrow> t\<lparr>ta_matching := ta_matching t + 1\<rparr>
      | _ \<Rightarrow> t\<lparr>ta_mismatched := ta_mismatched t + 1\<rparr>)"

fun compare_files ::
  "'s client_factory \<Rightarrow> zng_crc \<Rightarrow> local_files \<Rightarrow> (string \<Rightarrow> pread) \<Rightarrow> dir_config \<Rightarrow> 's s3_client option \<Rightarrow>
   's s3_client option \<Rightarrow> string list \<Rightarrow> cancel \<Rightarrow> 's \<Rightarrow> tally \<Rightarrow> tally \<times> cancel \<times> 's" where
  "compare_files create z files rd cfg client_a client_b [] cancelled s t = (t, cancelled, s)"
| "compare_files create z files rd cfg client_a client_b (path # paths) cancelled s t =
     (let (f, cancelled, s) = compare_file create z files rd cfg client_a client_b path cancelled s
      in compare_files create z files rd cfg client_a client_b paths cancelled s
           (case f of None \<Rightarrow> t | Some f \<Rightarrow> tally_file f t))"

section \<open>The comparison\<close>

definition status_priority :: "compare_status \<Rightarrow> nat" where
  "status_priority st = (case st of Mismatch \<Rightarrow> 0 | CompareError \<Rightarrow> 1 | Match \<Rightarrow> 2 | _ \<Rightarrow> 3)"

definition sort_results :: "file_compare_result list \<Rightarrow> file_compare_result list" where
  "sort_results files = sort_key (\<lambda>f. status_priority (fr_status f)) (sort_key fr_path files)"

text \<open>
  A window of width zero admits no file: the submitting thread waits for a notification that nobody
  is left to send, and the function does not return, which is \<^term>\<open>None\<close> here.
\<close>

definition run_file_phase ::
  "'s client_factory \<Rightarrow> zng_crc \<Rightarrow> local_files \<Rightarrow> (string \<Rightarrow> pread) \<Rightarrow> (string list \<Rightarrow> string list) \<Rightarrow> dir_config \<Rightarrow>
   's s3_client option \<Rightarrow> 's s3_client option \<Rightarrow> directory_entry list \<Rightarrow> directory_entry list \<Rightarrow> cancel \<Rightarrow> 's \<Rightarrow>
   (tally \<times> cancel \<times> 's) option" where
  "run_file_phase create z files rd schedule cfg client_a client_b xs ys cancelled s =
     (let common = common_paths xs ys in
      if common \<noteq> [] \<and> initial_concurrency cfg xs ys = 0 then
        let (stop, cancelled) = poll cancelled in
        if stop then Some (no_tally, cancelled, s)
        else let (stop, cancelled) = poll cancelled in
          if stop then Some (no_tally, cancelled, s) else None
      else Some (compare_files create z files rd cfg client_a client_b (schedule common) cancelled s no_tally))"

definition finish_comparison ::
  "dir_config \<Rightarrow> directory_entry list \<Rightarrow> directory_entry list \<Rightarrow> tally \<Rightarrow> cancel \<Rightarrow> dir_result \<times> cancel" where
  "finish_comparison cfg xs ys t cancelled =
     (let only_a = paths_without xs ys; only_b = paths_without ys xs;
          found = map (\<lambda>p. only_in_a_result (dc_chunk_size cfg) p (size_of xs p)) only_a @
                  map (\<lambda>p. only_in_b_result (dc_chunk_size cfg) p (size_of ys p)) only_b @ ta_results t;
          (stop, cancelled) = poll cancelled
      in (\<lparr>dr_files = sort_results found, dr_total = length found, dr_matching = ta_matching t,
           dr_mismatched = length only_a + length only_b + ta_mismatched t, dr_only_in_a = length only_a,
           dr_only_in_b = length only_b, dr_errors = ta_errors t, dr_bytes_a = total_size xs,
           dr_bytes_b = total_size ys, dr_success = \<not> stop,
           dr_error = (if stop then Some CancelledComparing else None)\<rparr>, cancelled))"

definition run_directory_comparison ::
  "nat \<Rightarrow> file_queries \<Rightarrow> 's client_factory \<Rightarrow> zng_crc \<Rightarrow> local_files \<Rightarrow> (string \<Rightarrow> pread) \<Rightarrow>
   (string list \<Rightarrow> string list) \<Rightarrow> dir_config \<Rightarrow> 's s3_client option \<Rightarrow> 's s3_client option \<Rightarrow> cancel \<Rightarrow> 's \<Rightarrow>
   (dir_result \<times> cancel \<times> 's) option" where
  "run_directory_comparison fuel fq create z files rd schedule cfg client_a client_b cancelled s =
     (case dir_clients create cfg client_a client_b of
        Inl e \<Rightarrow> Some (default_dir_result\<lparr>dr_error := Some e\<rparr>, cancelled, s)
      | Inr (client_a, client_b) \<Rightarrow>
          (case list_both fuel fq cfg client_a client_b cancelled s of
             None \<Rightarrow> None
           | Some (xs, complete_a, ys, complete_b, cancelled, s) \<Rightarrow>
               if \<not> complete_a \<or> \<not> complete_b then
                 Some (default_dir_result\<lparr>dr_error := Some (partial_error complete_a complete_b)\<rparr>, cancelled, s)
               else let (stop, cancelled) = poll cancelled in
                 if stop then Some (default_dir_result\<lparr>dr_error := Some CancelledListing\<rparr>, cancelled, s)
                 else (case run_file_phase create z files rd schedule cfg client_a client_b xs ys cancelled s of
                         None \<Rightarrow> None
                       | Some (t, cancelled, s) \<Rightarrow>
                           let (r, cancelled) = finish_comparison cfg xs ys t cancelled in Some (r, cancelled, s))))"

section \<open>The verdict on every file\<close>

text \<open>
  What the report says of a path: one that only one side has counts as a mismatch with size -1 on the
  other; of a path both have it is told whether the contents differ, or that they could not be compared.
\<close>

definition right_verdict ::
  "zng_crc \<Rightarrow> local_files \<Rightarrow> store_view \<Rightarrow> dir_config \<Rightarrow> directory_entry list \<Rightarrow> directory_entry list \<Rightarrow>
   file_compare_result \<Rightarrow> bool" where
  "right_verdict z files v cfg xs ys f \<longleftrightarrow>
     (let p = fr_path f;
          a = source_content files v (make_file_source (dc_source_a cfg) p);
          b = source_content files v (make_file_source (dc_source_b cfg) p) in
      if p \<notin> de_path ` set ys then fr_status f = Mismatch \<and> fr_size_b f = -1
      else if p \<notin> de_path ` set xs then fr_status f = Mismatch \<and> fr_size_a f = -1
      else case fr_status f of
             Match \<Rightarrow> a \<noteq> None \<and> b \<noteq> None \<and> (a = b \<or> crc_collision z (dc_chunk_size cfg) (the a) (the b))
           | Mismatch \<Rightarrow> a \<noteq> None \<and> b \<noteq> None \<and> a \<noteq> b
           | CompareError \<Rightarrow> True
           | _ \<Rightarrow> False)"

lemma make_file_source_type [simp]: "fs_type (make_file_source src p) = fs_type src"
  by (simp add: make_file_source_def split: source_type.splits)

lemma good_client_file [simp]: "good_client objects z (make_file_source src p) cl = good_client objects z src cl"
  by (simp add: good_client_def make_file_source_def Let_def split: source_type.splits)

lemma file_config_sel [simp]:
  "cc_source_a (file_config cfg p) = make_file_source (dc_source_a cfg) p"
  "cc_source_b (file_config cfg p) = make_file_source (dc_source_b cfg) p"
  "cc_chunk_ids (file_config cfg p) = []" "cc_chunk_size (file_config cfg p) = dc_chunk_size cfg"
  by (simp_all add: file_config_def)

lemma analyze_small_keeps [simp]:
  "fr_path (analyze_small_file_blocks files a b f cs) = fr_path f"
  "fr_status (analyze_small_file_blocks files a b f cs) = fr_status f"
  by (simp_all add: analyze_small_file_blocks_def Let_def)

lemma file_result_sel [simp]:
  "fr_path (file_result files cfg p r) = p"
  "fr_status (file_result files cfg p r) =
     (if \<not> cr_success r then CompareError else if cr_all_match r then Match else Mismatch)"
  by (simp_all add: file_result_def Let_def)

lemma in_common_paths: "p \<in> set (common_paths xs ys) \<longleftrightarrow> p \<in> de_path ` set xs \<and> p \<in> de_path ` set ys"
  by (auto simp: common_paths_def)

lemma in_paths_without: "p \<in> set (paths_without xs ys) \<longleftrightarrow> p \<in> de_path ` set xs \<and> p \<notin> de_path ` set ys"
  by (auto simp: paths_without_def)

lemma distinct_paths [simp]: "distinct (common_paths xs ys)" "distinct (paths_without xs ys)"
  by (simp_all add: common_paths_def paths_without_def)

text \<open>Clients that honour the contract, files that stay as they are, and chunks of a size.\<close>

definition comparable ::
  "('s \<Rightarrow> store_view) \<Rightarrow> zng_crc \<Rightarrow> local_files \<Rightarrow> (string \<Rightarrow> pread) \<Rightarrow> dir_config \<Rightarrow> 's s3_client option \<Rightarrow>
   's s3_client option \<Rightarrow> bool" where
  "comparable objects z files rd cfg ia ib \<longleftrightarrow>
     good_client objects z (dc_source_a cfg) ia \<and> good_client objects z (dc_source_b cfg) ib \<and>
     chaining_crc z \<and> stable_files files rd \<and> 0 < dc_chunk_size cfg"

lemma compare_file_verdict:
  assumes "compare_file create z files rd cfg ia ib p c s = (f, c', s')" "comparable objects z files rd cfg ia ib"
  shows "objects s' = objects s"
    and "f = None \<Longrightarrow> c' = Some 0"
    and "f = Some g \<Longrightarrow> fr_path g = p \<and> fr_status g \<in> {Match, Mismatch, CompareError} \<and>
           (p \<in> set (common_paths xs ys) \<longrightarrow> right_verdict z files (objects s) cfg xs ys g)"
proof -
  obtain stop c1 where p1: "poll c = (stop, c1)" by fastforce
  obtain flag c2 where p2: "poll c1 = (flag, c2)" by fastforce
  obtain r c3 s1 where run: "run_comparison create z files rd (file_config cfg p) ia ib (if flag then Some 0 else None) s
      = (r, c3, s1)" by (metis prod_cases3)
  obtain stop2 c4 where p4: "poll c2 = (stop2, c4)" by fastforce
  have good: "good_client objects z (cc_source_a (file_config cfg p)) ia" "good_client objects z (cc_source_b (file_config cfg p)) ib"
    "0 < cc_chunk_size (file_config cfg p)" "chaining_crc z" "stable_files files rd"
    using assms(2) by (simp_all add: comparable_def)
  note sp = run_comparison_good [OF run good(1-3)]
  have cases: "s' = s \<and> f = None \<and> stop \<and> c' = c1 \<or>
      s' = s1 \<and> \<not> stop \<and> c' = c4 \<and> f = (if stop2 then None else Some (file_result files cfg p r))"
    using assms(1) p1 p2 run p4 by (cases stop) (auto simp: compare_file_def)
  then show "objects s' = objects s" using sp by auto
  from cases show "f = None \<Longrightarrow> c' = Some 0"
    using p1 p4 poll_sticky [of c c1] poll_sticky [of c2 c4] by (auto split: if_splits)
  assume f: "f = Some g"
  with cases have g: "g = file_result files cfg p r" by (auto split: if_splits)
  have "right_verdict z files (objects s) cfg xs ys g" if both: "p \<in> set (common_paths xs ys)"
  proof (cases "cr_success r")
    case False
    with both g show ?thesis by (simp add: right_verdict_def in_common_paths)
  next
    case True
    with sp good obtain a b r0 where
      a: "source_content files (objects s) (make_file_source (dc_source_a cfg) p) = Some a"
      and b: "source_content files (objects s) (make_file_source (dc_source_b cfg) p) = Some b"
      and r: "r = compare_crcs (map (crc32_hw z) (chunks (dc_chunk_size cfg) a)) (map (crc32_hw z) (chunks (dc_chunk_size cfg) b)) r0"
      by auto
    have "cr_all_match r \<longrightarrow> a = b \<or> crc_collision z (dc_chunk_size cfg) a b" "\<not> cr_all_match r \<longrightarrow> a \<noteq> b"
      using equal_crcs good(3) unfolding r compare_crcs_exact by auto
    with True both a b g show ?thesis by (simp add: right_verdict_def in_common_paths)
  qed
  with g show "fr_path g = p \<and> fr_status g \<in> {Match, Mismatch, CompareError} \<and>
      (p \<in> set (common_paths xs ys) \<longrightarrow> right_verdict z files (objects s) cfg xs ys g)" by simp
qed

text \<open>The counters are the numbers of results of each kind.\<close>

definition status_count :: "compare_status \<Rightarrow> file_compare_result list \<Rightarrow> nat" where
  "status_count st fs = length (filter (\<lambda>f. fr_status f = st) fs)"

definition tallied :: "tally \<Rightarrow> bool" where
  "tallied t \<longleftrightarrow> ta_matching t = status_count Match (ta_results t) \<and>
     ta_mismatched t = status_count Mismatch (ta_results t) \<and> ta_errors t = status_count CompareError (ta_results t)"

lemma tallied_no_tally [simp]: "tallied no_tally" "ta_results no_tally = []"
  by (simp_all add: tallied_def no_tally_def status_count_def)

lemma tally_file_results [simp]: "ta_results (tally_file f t) = ta_results t @ [f]"
  by (simp add: tally_file_def Let_def split: compare_status.splits)

lemma tallied_tally_file:
  "tallied t \<Longrightarrow> fr_status f \<in> {Match, Mismatch, CompareError} \<Longrightarrow> tallied (tally_file f t)"
  by (auto simp: tallied_def tally_file_def Let_def status_count_def)

lemma compare_files_verdicts:
  assumes "compare_files create z files rd cfg ia ib ps c s t = (t', c', s')" "comparable objects z files rd cfg ia ib"
    and "set ps \<subseteq> set (common_paths xs ys)" "tallied t"
  shows "objects s' = objects s \<and> tallied t' \<and>
    (\<exists>fs. ta_results t' = ta_results t @ fs \<and> list_all (right_verdict z files (objects s) cfg xs ys) fs \<and>
       (c' \<noteq> Some 0 \<longrightarrow> map fr_path fs = ps))"
  using assms(1,3,4)
proof (induction ps arbitrary: c s t)
  case (Cons p ps)
  obtain f c1 s1 where f: "compare_file create z files rd cfg ia ib p c s = (f, c1, s1)" by (metis prod_cases3)
  note v = compare_file_verdict [OF f assms(2)]
  show ?case
  proof (cases f)
    case None
    with Cons.prems f have r: "compare_files create z files rd cfg ia ib ps c1 s1 t = (t', c', s')" by simp
    from v(2) [OF None] have c1: "c1 = Some 0" .
    have "c' = Some 0"
    proof -
      have "compare_files create z files rd cfg ia ib ps (Some 0) s1 t = (t, Some 0, s1)" for ps
        by (induction ps) (simp_all add: compare_file_def)
      with r c1 show ?thesis by simp
    qed
    with Cons.IH [OF r] Cons.prems v(1) show ?thesis by auto
  next
    case (Some g)
    with Cons.prems f have r: "compare_files create z files rd cfg ia ib ps c1 s1 (tally_file g t) = (t', c', s')" by simp
    note g = v(3) [OF Some, of xs ys]
    from g Cons.prems have "tallied (tally_file g t)" by (blast intro: tallied_tally_file)
    from Cons.IH [OF r _ this] Cons.prems obtain fs where
      fs: "objects s' = objects s1" "tallied t'" "ta_results t' = ta_results t @ g # fs"
      "list_all (right_verdict z files (objects s1) cfg xs ys) fs" "c' \<noteq> Some 0 \<longrightarrow> map fr_path fs = ps" by auto
    have "list_all (right_verdict z files (objects s) cfg xs ys) (g # fs)" "c' \<noteq> Some 0 \<longrightarrow> map fr_path (g # fs) = p # ps"
      using g fs v(1) Cons.prems by auto
    with fs v(1) show ?thesis by (intro conjI exI [of _ "g # fs"]) simp_all
  qed
qed auto

lemma only_results_sel [simp]:
  "fr_path (only_in_a_result cs p n) = p" "fr_status (only_in_a_result cs p n) = Mismatch" "fr_size_b (only_in_a_result cs p n) = -1"
  "fr_path (only_in_b_result cs p n) = p" "fr_status (only_in_b_result cs p n) = Mismatch" "fr_size_a (only_in_b_result cs p n) = -1"
  by (simp_all add: only_in_a_result_def only_in_b_result_def Let_def)

lemma mset_sort_results [simp]: "mset (sort_results fs) = mset fs"
  by (simp add: sort_results_def)

lemma length_sort_results [simp]: "length (sort_results fs) = length fs"
  by (simp add: sort_results_def)

lemma set_sort_results [simp]: "set (sort_results fs) = set fs"
  using mset_eq_setD mset_sort_results by blast

lemma status_count_sort [simp]: "status_count st (sort_results fs) = status_count st fs"
proof -
  have "status_count st fs = size (filter_mset (\<lambda>f. fr_status f = st) (mset fs))" for fs
    by (simp add: status_count_def mset_filter [symmetric] del: mset_filter)
  then show ?thesis by simp
qed

lemma finish_reports:
  assumes "finish_comparison cfg xs ys t c = (r, c')" "tallied t" "dr_success r"
    and "ta_results t = fs" "list_all (right_verdict z files v cfg xs ys) fs" "mset (map fr_path fs) = mset (common_paths xs ys)"
  shows "distinct (map fr_path (dr_files r))" "fr_path ` set (dr_files r) = de_path ` (set xs \<union> set ys)"
    "list_all (right_verdict z files v cfg xs ys) (dr_files r)"
    "dr_matching r = status_count Match (dr_files r)" "dr_mismatched r = status_count Mismatch (dr_files r)"
    "dr_errors r = status_count CompareError (dr_files r)" "dr_total r = length (dr_files r)"
proof -
  let ?A = "map (\<lambda>p. only_in_a_result (dc_chunk_size cfg) p (size_of xs p)) (paths_without xs ys)"
  let ?B = "map (\<lambda>p. only_in_b_result (dc_chunk_size cfg) p (size_of ys p)) (paths_without ys xs)"
  let ?all = "?A @ ?B @ fs"
  have files: "dr_files r = sort_results ?all"
    using assms(1,4) by (auto simp: finish_comparison_def Let_def split: prod.splits)
  have m: "map fr_path ?all = paths_without xs ys @ paths_without ys xs @ map fr_path fs" by (simp add: comp_def)
  have "mset (map fr_path (dr_files r)) = mset (map fr_path ?all)"
    unfolding files by (simp only: mset_map mset_sort_results)
  also have "\<dots> = mset (paths_without xs ys @ paths_without ys xs @ common_paths xs ys)"
    unfolding m using assms(6) by simp
  finally have ms: "mset (map fr_path (dr_files r)) = mset (paths_without xs ys @ paths_without ys xs @ common_paths xs ys)" .
  have "distinct (paths_without xs ys @ paths_without ys xs @ common_paths xs ys)"
    by (auto simp: in_common_paths in_paths_without)
  with ms show "distinct (map fr_path (dr_files r))" using mset_eq_imp_distinct_iff by blast
  from mset_eq_setD [OF ms] show "fr_path ` set (dr_files r) = de_path ` (set xs \<union> set ys)"
    by (auto simp: in_common_paths in_paths_without)
  have "list_all (right_verdict z files v cfg xs ys) ?A" "list_all (right_verdict z files v cfg xs ys) ?B"
    by (auto simp: list_all_iff right_verdict_def in_paths_without)
  with assms(5) show "list_all (right_verdict z files v cfg xs ys) (dr_files r)"
    by (auto simp: files list_all_iff)
  have cnt: "status_count st (?A @ ?B) = (if st = Mismatch then length (paths_without xs ys) + length (paths_without ys xs) else 0)" for st
    by (simp add: status_count_def filter_map comp_def)
  have "status_count st ?all = status_count st (?A @ ?B) + status_count st fs" for st by (simp add: status_count_def)
  with cnt assms(1,2,4) show "dr_matching r = status_count Match (dr_files r)" "dr_mismatched r = status_count Mismatch (dr_files r)"
    "dr_errors r = status_count CompareError (dr_files r)" "dr_total r = length (dr_files r)"
    by (auto simp: finish_comparison_def Let_def tallied_def files split: prod.splits)
qed

lemma dir_clients_given:
  "good_client objects z (dc_source_a cfg) ia \<Longrightarrow> good_client objects z (dc_source_b cfg) ib \<Longrightarrow>
     dir_clients create cfg ia ib = Inr (ia, ib)"
  by (auto simp: dir_clients_def good_client_def split: source_type.splits option.splits)

text \<open>A run that makes its own clients is a run with these clients.\<close>

lemma run_with_its_clients:
  assumes "dir_clients create cfg ia ib = Inr (a, b)"
  shows "run_directory_comparison fuel fq create z files rd schedule cfg ia ib c s =
         run_directory_comparison fuel fq create z files rd schedule cfg a b c s"
proof -
  have "dir_clients create cfg a b = Inr (a, b)"
    using assms by (auto simp: dir_clients_def Let_def Option.is_none_def split: if_splits option.splits
        dest: sym [of "Some _"])
  with assms show ?thesis by (simp add: run_directory_comparison_def)
qed

lemma list_source_keeps:
  assumes "list_source fuel fq cfg src cl c s = Some (es, ok, c', s')" "good_client objects z src cl"
  shows "objects s' = objects s"
proof (cases "fs_type src")
  case S3
  with assms(2) have "keeps_store objects cl"
    by (auto simp: good_client_def keeps_store_def chunk_crc_store_def split: option.splits)
  with S3 assms(1) listing_keeps flat_listing_keeps show ?thesis by (fastforce simp: list_source_def split: if_splits)
qed (use assms(1) in \<open>auto simp: list_source_def split: if_splits\<close>)

lemma list_both_keeps:
  "list_both fuel fq cfg ia ib c s = Some (xs, oka, ys, okb, c', s') \<Longrightarrow> good_client objects z (dc_source_a cfg) ia \<Longrightarrow>
     good_client objects z (dc_source_b cfg) ib \<Longrightarrow> objects s' = objects s"
  by (auto simp: list_both_def dest!: list_source_keeps [where objects = objects and z = z] split: option.splits)

lemma directory_comparison_reports:
  assumes "comparable objects z files rd cfg ia ib" "\<And>ps. mset (schedule ps) = mset ps"
    and "run_directory_comparison fuel fq create z files rd schedule cfg ia ib c s = Some (r, c', s')" "dr_success r"
  shows "case list_both fuel fq cfg ia ib c s of
           None \<Rightarrow> False
         | Some (xs, complete_a, ys, complete_b, c1, s1) \<Rightarrow>
             complete_a \<and> complete_b \<and> distinct (map fr_path (dr_files r)) \<and>
             fr_path ` set (dr_files r) = de_path ` (set xs \<union> set ys) \<and>
             list_all (right_verdict z files (objects s) cfg xs ys) (dr_files r) \<and>
             dr_matching r = status_count Match (dr_files r) \<and> dr_mismatched r = status_count Mismatch (dr_files r) \<and>
             dr_errors r = status_count CompareError (dr_files r) \<and> dr_total r = length (dr_files r)"
proof -
  note good = assms(1) [unfolded comparable_def]
  have cl: "dir_clients create cfg ia ib = Inr (ia, ib)" using good dir_clients_given by blast
  from assms(3) cl obtain xs oka ys okb c1 s1 where l: "list_both fuel fq cfg ia ib c s = Some (xs, oka, ys, okb, c1, s1)"
    by (auto simp: run_directory_comparison_def split: option.splits)
  obtain stop c2 where p: "poll c1 = (stop, c2)" by fastforce
  from assms(3,4) cl l p have ok: "oka" "okb" "\<not> stop" by (auto simp: run_directory_comparison_def default_dir_result_def split: if_splits)
  with assms(3) cl l p obtain t c3 where
    ph: "run_file_phase create z files rd schedule cfg ia ib xs ys c2 s1 = Some (t, c3, s')"
    and fin: "finish_comparison cfg xs ys t c3 = (r, c')"
    by (auto simp: run_directory_comparison_def split: option.splits prod.splits)
  have c3: "c3 \<noteq> Some 0" using fin assms(4) by (auto simp: finish_comparison_def Let_def split: prod.splits)
  with ph have cf: "compare_files create z files rd cfg ia ib (schedule (common_paths xs ys)) c2 s1 no_tally = (t, c3, s')"
    by (auto simp: run_file_phase_def Let_def dest: poll_sticky split: if_splits prod.splits)
  have ms: "mset (schedule (common_paths xs ys)) = mset (common_paths xs ys)" by (rule assms(2))
  then have "set (schedule (common_paths xs ys)) \<subseteq> set (common_paths xs ys)" using mset_eq_setD by blast
  from compare_files_verdicts [OF cf assms(1) this] c3 list_both_keeps [OF l] good obtain fs where
    fs: "tallied t" "ta_results t = fs" "list_all (right_verdict z files (objects s) cfg xs ys) fs"
      "map fr_path fs = schedule (common_paths xs ys)" by auto
  from finish_reports [OF fin fs(1) assms(4) fs(2,3)] fs(4) ms l ok show ?thesis by simp
qed

text \<open>
  C12: a directory comparison that reports success has listed both sides completely, and reports every
  path of either side exactly once with the right verdict, in whatever order its threads get to the
  files; its counters are the numbers of files of each verdict.  The clients honour their contract, local
  files do not change meanwhile and the buckets' names have no slash.
\<close>

theorem directory_comparison_exact:
  assumes "comparable objects z files rd cfg ia ib" "\<And>ps. mset (schedule ps) = mset ps"
    and "run_directory_comparison fuel fq create z files rd schedule cfg ia ib c s = Some (r, c', s')" "dr_success r"
  shows "case list_both fuel fq cfg ia ib c s of
           None \<Rightarrow> False
         | Some (xs, complete_a, ys, complete_b, c1, s1) \<Rightarrow>
             complete_a \<and> complete_b \<and> distinct (map fr_path (dr_files r)) \<and>
             fr_path ` set (dr_files r) = de_path ` (set xs \<union> set ys) \<and>
             list_all (right_verdict z files (objects s) cfg xs ys) (dr_files r) \<and>
             dr_matching r = status_count Match (dr_files r) \<and> dr_mismatched r = status_count Mismatch (dr_files r) \<and>
             dr_errors r = status_count CompareError (dr_files r) \<and> dr_total r = length (dr_files r)"
  by (rule directory_comparison_reports [OF assms])

section \<open>Whether the comparison returns\<close>

lemma threads_div_zero_iff: "0 < t \<Longrightarrow> 0 < threads \<Longrightarrow> threads div t = 0 \<longleftrightarrow> threads < (t :: int)"
  by (metis div_pos_pos_trivial less_le not_less pos_imp_zdiv_pos_iff)

lemma window_empty_iff:
  assumes "0 < threads"
  shows "snd (parallelism threads m k) = 0 \<longleftrightarrow>
    m + k = 0 \<or> 0 < k \<and> m + k < 2 * m \<and> threads \<le> int (4 * m div (m + k))"
proof -
  let ?n = "m + k"
  have quot: "0 < threads div max 1 (threads div max 1 (int ?n))"
  proof -
    have "max 1 (threads div max 1 (int ?n)) \<le> threads"
      using assms zdiv_mono2 [of threads 1 "max 1 (int ?n)"] by auto
    then show ?thesis by (simp add: pos_imp_zdiv_pos_iff)
  qed
  consider "?n = 0" | "0 < ?n" "m = 0" | "0 < m" "k = 0" | "0 < m" "0 < k" "?n < 2 * m" | "0 < m" "0 < k" "\<not> ?n < 2 * m"
    by linarith
  then show ?thesis
  proof cases
    case 4
    let ?t = "max 1 (int (4 * m div ?n + 1))"
    have "snd (parallelism threads m k) = min ?n (nat (threads div ?t))"
      using 4 by (simp add: parallelism_def Let_def)
    moreover have "threads div ?t = 0 \<longleftrightarrow> threads < ?t" using assms by (intro threads_div_zero_iff) auto
    moreover have "0 \<le> threads div ?t" using assms by (simp add: pos_imp_zdiv_nonneg_iff)
    ultimately show ?thesis using 4 by (auto simp: min_def split: if_splits)
  qed (use assms quot in \<open>auto simp: parallelism_def Let_def\<close>)
qed

lemma multi_chunk_le: "multi_chunk_files cs xs ys \<le> length (common_paths xs ys)"
  by (simp add: multi_chunk_files_def)

lemma comparison_returns_iff:
  assumes "dir_clients create cfg ia ib = Inr (a, b)"
    and "list_both fuel fq cfg a b None s = Some (xs, True, ys, True, None, s1)"
  shows "run_directory_comparison fuel fq create z files rd schedule cfg ia ib None s = None \<longleftrightarrow>
    common_paths xs ys \<noteq> [] \<and> initial_concurrency cfg xs ys = 0"
  using assms by (simp add: run_directory_comparison_def run_file_phase_def Let_def case_prod_unfold)

lemma initial_concurrency_zero:
  "common_paths xs ys \<noteq> [] \<and> initial_concurrency cfg xs ys = 0 \<longleftrightarrow>
    (let n = length (common_paths xs ys); m = multi_chunk_files (dc_chunk_size cfg) xs ys
     in m < n \<and> n < 2 * m \<and> max_threads cfg \<le> int (4 * m div n) \<and> max_threads cfg \<le> 3)"
proof -
  let ?n = "length (common_paths xs ys)" and ?m = "multi_chunk_files (dc_chunk_size cfg) xs ys"
  have "0 < max_threads cfg" by (simp add: max_threads_def)
  from window_empty_iff [OF this, of ?m "?n - ?m"] multi_chunk_le [of "dc_chunk_size cfg" xs ys]
  have "initial_concurrency cfg xs ys = 0 \<longleftrightarrow> ?n = 0 \<or> ?m < ?n \<and> ?n < 2 * ?m \<and> max_threads cfg \<le> int (4 * ?m div ?n)"
    by (auto simp: initial_concurrency_def Let_def)
  moreover have "4 * ?m div ?n \<le> 3" if "?m < ?n"
    using that by (simp add: less_mult_imp_div_less less_Suc_eq_le [symmetric])
  ultimately show ?thesis unfolding Let_def by (cases "common_paths xs ys") auto
qed


section \<open>Two small directories\<close>

definition flat_queries :: file_queries where
  "flat_queries = \<lparr>fq_is_directory = (\<lambda>_. True), fq_entries = (\<lambda>_. Inr ([''x'', ''y'', ''z''], False)),
     fq_is_symlink = (\<lambda>_. False), fq_status = (\<lambda>_. Inr Regular), fq_canonical = Inr,
     fq_stat = (\<lambda>p. if last p = CHR ''z'' then Some (1, 0) else Some (3, 0))\<rparr>"

definition flat_config :: dir_config where
  "flat_config = \<lparr>dc_source_a = default_file_source\<lparr>fs_path := ''d''\<rparr>, dc_source_b = default_file_source\<lparr>fs_path := ''e''\<rparr>,
     dc_recursive = False, dc_num_threads = 4, dc_max_connections = 1, dc_chunk_size = 2, dc_parallel_discovery = True\<rparr>"

definition flat_entries_xyz :: "directory_entry list" where
  "flat_entries_xyz = [\<lparr>de_path = ''x'', de_size = 3, de_mtime = 0\<rparr>, \<lparr>de_path = ''y'', de_size = 3, de_mtime = 0\<rparr>,
     \<lparr>de_path = ''z'', de_size = 1, de_mtime = 0\<rparr>]"

lemma flat_listing:
  "list_both fuel flat_queries (flat_config\<lparr>dc_num_threads := n\<rparr>) ia ib None s =
     Some (flat_entries_xyz, True, flat_entries_xyz, True, None, s)"
  by (simp add: list_both_def list_source_def flat_config_def enumerate_local_directory_def flat_queries_def
      stat_entry_def flat_entries_xyz_def default_file_source_def path_append_def)

lemma flat_counts:
  "common_paths flat_entries_xyz flat_entries_xyz = [''x'', ''y'', ''z'']"
  "multi_chunk_files 2 flat_entries_xyz flat_entries_xyz = 2"
  by (simp_all add: multi_chunk_files_def common_paths_def flat_entries_xyz_def size_of_def)

lemma flat_clients: "dir_clients create (flat_config\<lparr>dc_num_threads := n\<rparr>) ia ib = Inr (ia, ib)"
  by (simp add: dir_clients_def flat_config_def default_file_source_def)

lemma flat_sel [simp]:
  "dc_chunk_size (flat_config\<lparr>dc_num_threads := n\<rparr>) = 2" "flat_config\<lparr>dc_num_threads := 4\<rparr> = flat_config"
  "max_threads (flat_config\<lparr>dc_num_threads := 2\<rparr>) = 2" "max_threads flat_config = 4" "dc_chunk_size flat_config = 2"
  by (simp_all add: flat_config_def max_threads_def)


lemma compare_files_uncancelled:
  "compare_files create z files rd cfg ia ib ps None s t = (t', c', s') \<Longrightarrow> c' = None"
proof (induction ps arbitrary: s t)
  case (Cons p ps)
  obtain f c1 s1 where f: "compare_file create z files rd cfg ia ib p None s = (f, c1, s1)" by (metis prod_cases3)
  then have "c1 = None" by (auto simp: compare_file_def Let_def split: prod.splits)
  with Cons f show ?case by auto
qed simp

lemma flat_run:
  "\<exists>r s'. run_directory_comparison 3 flat_queries create z files rd schedule flat_config ia ib None s = Some (r, None, s') \<and>
     dr_success r"
proof -
  have "initial_concurrency flat_config flat_entries_xyz flat_entries_xyz \<noteq> 0"
    using initial_concurrency_zero [of flat_entries_xyz flat_entries_xyz flat_config] by (simp add: flat_counts)
  moreover obtain t c1 s1 where cf: "compare_files create z files rd flat_config ia ib (schedule [''x'', ''y'', ''z'']) None s no_tally
      = (t, c1, s1)" by (metis prod_cases3)
  moreover have "c1 = None" by (rule compare_files_uncancelled [OF cf])
  ultimately show ?thesis
    using flat_clients [of create 4 ia ib] flat_listing [of 3 4 ia ib s]
    by (simp add: run_directory_comparison_def run_file_phase_def flat_counts finish_comparison_def Let_def)
qed

theorem directory_comparison_exact_witness:
  "\<exists>r s'. run_directory_comparison 3 flat_queries (\<lambda>_ _ _ _. None) ieee_crc32 (\<lambda>_. Some [1, 2, 3]) (\<lambda>_. pread_of [1, 2, 3]) rev
         flat_config None None None empty_mock = Some (r, None, s') \<and>
       distinct (map fr_path (dr_files r)) \<and> fr_path ` set (dr_files r) = {''x'', ''y'', ''z''} \<and>
       list_all (right_verdict ieee_crc32 (\<lambda>_. Some [1, 2, 3]) (mock_objects_view empty_mock) flat_config flat_entries_xyz
         flat_entries_xyz) (dr_files r)"
proof -
  obtain r s' where run: "run_directory_comparison 3 flat_queries (\<lambda>_ _ _ _. None) ieee_crc32 (\<lambda>_. Some [1, 2, 3])
      (\<lambda>_. pread_of [1, 2, 3]) rev flat_config None None None empty_mock = Some (r, None, s')" "dr_success r"
    using flat_run [of "\<lambda>_ _ _ _. None" ieee_crc32 "\<lambda>_. Some [1, 2, 3]" "\<lambda>_. pread_of [1, 2, 3]" rev None None empty_mock]
    by (elim exE conjE)
  have "comparable mock_objects_view ieee_crc32 (\<lambda>_. Some [1, 2, 3]) (\<lambda>_. pread_of [1, 2, 3]) flat_config None None"
    by (simp add: comparable_def good_client_def flat_config_def default_file_source_def stable_files_def
        reads_file_pread_of ieee.chaining_crc_axioms)
  from directory_comparison_exact [OF this _ run] flat_listing [of 3 4 "None :: mock s3_client option" None empty_mock] run(1)
  show ?thesis by (auto simp: flat_entries_xyz_def)
qed

end
