(* ===== verification/Report.thy ===== *)
theory Report
  imports Dir_Compare Parsing
begin

text \<open>
  report_writer.cpp: the printed forms of durations, sources and verdicts, the three report formats
  and the one-line summary.  A writer gives the text of the file it writes, \<^term>\<open>None\<close> when the file
  cannot be opened (\<open>opened\<close>, a parameter).  \<open>elapsed\<close> is the elapsed time as it is printed: the
  program keeps it as a \<^verbatim>\<open>double\<close>, and how the streams print one is not modelled.
\<close>

section \<open>Durations, sources and verdicts\<close>

definition format_duration :: "int \<Rightarrow> string" where
  "format_duration secs =
     (if secs \<ge> 86400 \<and> secs mod 86400 = 0 then show_int (secs div 86400) @ ''d''
      else if secs \<ge> 3600 \<and> secs mod 3600 = 0 then show_int (secs div 3600) @ ''h''
      else if secs \<ge> 60 \<and> secs mod 60 = 0 then show_int (secs div 60) @ ''m''
      else show_int secs @ ''s'')"

definition source_to_string :: "file_source \<Rightarrow> string" where
  "source_to_string source =
     (if fs_type source = Local then fs_path source
      else ''s3://'' @ fs_bucket source @ ''/'' @ fs_path source)"

definition status_to_string :: "compare_status \<Rightarrow> int \<Rightarrow> int \<Rightarrow> string \<Rightarrow> string \<Rightarrow> string" where
  "status_to_string status size_a size_b src_a src_b =
     (if status = Mismatch then
        if size_a \<ge> 0 \<and> size_b < 0 then (if src_a = [] then ''ONLY_A'' else ''ONLY '' @ src_a)
        else if size_b \<ge> 0 \<and> size_a < 0 then (if src_b = [] then ''ONLY_B'' else ''ONLY '' @ src_b)
        else ''DIFFERENT''
      else case status of Match \<Rightarrow> ''MATCH'' | CompareError \<Rightarrow> ''ERROR'' | _ \<Rightarrow> ''UNKNOWN'')"

definition content_differences :: "dir_result \<Rightarrow> nat" where
  "content_differences r =
     (let only_one_side = dr_only_in_a r + dr_only_in_b r in
      if dr_mismatched r > only_one_side then dr_mismatched r - only_one_side else 0)"

section \<open>The three formats\<close>

definition nl :: string where "nl = [CHR 0x0A]"

definition quoted :: "string \<Rightarrow> string" where
  "quoted s = [CHR 0x22] @ s @ [CHR 0x22]"

text \<open>One line of a report: the verdict, the path, the two sizes, the error.\<close>

definition json_file :: "string \<Rightarrow> string \<Rightarrow> file_compare_result \<Rightarrow> string" where
  "json_file source_a source_b f =
     ''    {'' @ nl @
     ''      '' @ quoted ''path'' @ '': '' @ quoted (fr_path f) @ '','' @ nl @
     ''      '' @ quoted ''status'' @ '': '' @
        quoted (status_to_string (fr_status f) (fr_size_a f) (fr_size_b f) source_a source_b) @ '','' @ nl @
     ''      '' @ quoted ''size_a'' @ '': '' @ show_int (fr_size_a f) @ '','' @ nl @
     ''      '' @ quoted ''size_b'' @ '': '' @ show_int (fr_size_b f) @
     (if fr_error f \<noteq> [] then '','' @ nl @ ''      '' @ quoted ''error'' @ '': '' @ quoted (fr_error f) else []) @
     nl @ ''    }''"

text \<open>The loops over the files, with the flag \<^verbatim>\<open>first\<close> of the JSON writer.\<close>

fun json_files :: "string \<Rightarrow> string \<Rightarrow> bool \<Rightarrow> file_compare_result list \<Rightarrow> string" where
  "json_files source_a source_b first [] = []"
| "json_files source_a source_b first (f # fs) =
     (if fr_status f = Match then json_files source_a source_b first fs
      else (if first then [] else '','' @ nl) @ json_file source_a source_b f @
           json_files source_a source_b False fs)"

definition write_json_results :: "bool \<Rightarrow> string \<Rightarrow> dir_result \<Rightarrow> string \<Rightarrow> string \<Rightarrow> string option" where
  "write_json_results opened elapsed r source_a source_b =
     (if \<not> opened then None else Some (
        ''{'' @ nl @
        ''  '' @ quoted ''source_a'' @ '': '' @ quoted source_a @ '','' @ nl @
        ''  '' @ quoted ''source_b'' @ '': '' @ quoted source_b @ '','' @ nl @
        ''  '' @ quoted ''summary'' @ '': {'' @ nl @
        ''    '' @ quoted ''total_files'' @ '': '' @ show_nat (dr_total r) @ '','' @ nl @
        ''    '' @ quoted ''matching'' @ '': '' @ show_nat (dr_matching r) @ '','' @ nl @
        ''    '' @ quoted ''different'' @ '': '' @ show_nat (content_differences r) @ '','' @ nl @
        ''    '' @ quoted (''only_in_'' @ source_a) @ '': '' @ show_nat (dr_only_in_a r) @ '','' @ nl @
        ''    '' @ quoted (''only_in_'' @ source_b) @ '': '' @ show_nat (dr_only_in_b r) @ '','' @ nl @
        ''    '' @ quoted ''errors'' @ '': '' @ show_nat (dr_errors r) @ '','' @ nl @
        ''    '' @ quoted ''elapsed_seconds'' @ '': '' @ elapsed @ nl @
        ''  },'' @ nl @
        ''  '' @ quoted ''files'' @ '': ['' @ nl @
        json_files source_a source_b True (dr_files r) @
        nl @ ''  ]'' @ nl @ ''}'' @ nl))"

definition csv_file :: "string \<Rightarrow> string \<Rightarrow> file_compare_result \<Rightarrow> string" where
  "csv_file source_a source_b f =
     status_to_string (fr_status f) (fr_size_a f) (fr_size_b f) source_a source_b @ '','' @
     quoted (fr_path f) @ '','' @ show_int (fr_size_a f) @ '','' @ show_int (fr_size_b f) @ '','' @
     quoted (fr_error f) @ nl"

fun csv_files :: "string \<Rightarrow> string \<Rightarrow> file_compare_result list \<Rightarrow> string" where
  "csv_files source_a source_b [] = []"
| "csv_files source_a source_b (f # fs) =
     (if fr_status f = Match then csv_files source_a source_b fs
      else csv_file source_a source_b f @ csv_files source_a source_b fs)"

definition write_csv_results :: "bool \<Rightarrow> dir_result \<Rightarrow> string \<Rightarrow> string \<Rightarrow> string option" where
  "write_csv_results opened r source_a source_b =
     (if \<not> opened then None
      else Some (''status,path,size_a,size_b,error'' @ nl @ csv_files source_a source_b (dr_files r)))"

definition txt_file :: "string \<Rightarrow> string \<Rightarrow> file_compare_result \<Rightarrow> string" where
  "txt_file source_a source_b f =
     ''  ['' @ status_to_string (fr_status f) (fr_size_a f) (fr_size_b f) source_a source_b @ ''] '' @ fr_path f @
     (if fr_error f \<noteq> [] then '' - '' @ fr_error f else []) @ nl"

fun txt_files :: "string \<Rightarrow> string \<Rightarrow> file_compare_result list \<Rightarrow> string" where
  "txt_files source_a source_b [] = []"
| "txt_files source_a source_b (f # fs) =
     (if fr_status f = Match then txt_files source_a source_b fs
      else txt_file source_a source_b f @ txt_files source_a source_b fs)"

definition write_txt_results :: "bool \<Rightarrow> string \<Rightarrow> dir_result \<Rightarrow> string \<Rightarrow> string \<Rightarrow> string option" where
  "write_txt_results opened elapsed r source_a source_b =
     (if \<not> opened then None else Some (
        ''Directory Comparison Results'' @ nl @ ''============================'' @ nl @ nl @
        ''Source A: '' @ source_a @ nl @ ''Source B: '' @ source_b @ nl @ nl @
        ''Summary:'' @ nl @
        ''  Total files:      '' @ show_nat (dr_total r) @ nl @
        ''  Matching:         '' @ show_nat (dr_matching r) @ nl @
        ''  Different:        '' @ show_nat (content_differences r) @ nl @
        ''  Only in '' @ source_a @ '': '' @ show_nat (dr_only_in_a r) @ nl @
        ''  Only in '' @ source_b @ '': '' @ show_nat (dr_only_in_b r) @ nl @
        ''  Errors:           '' @ show_nat (dr_errors r) @ nl @
        ''  Time:             '' @ elapsed @ nl @ nl @
        (if dr_mismatched r > 0 \<or> dr_only_in_a r > 0 \<or> dr_only_in_b r > 0 \<or> dr_errors r > 0
         then ''Differences:'' @ nl @ txt_files source_a source_b (dr_files r) else [])))"

text \<open>
  The extension is what follows the last dot, the whole name when there is none
  (\<^verbatim>\<open>npos + 1\<close> is 0), in lower case.
\<close>

definition lower_char :: "char \<Rightarrow> char" where
  "lower_char c =
     (let n = (of_char c :: nat) in if 65 \<le> n \<and> n \<le> 90 then char_of (n + 32) else c)"

definition extension :: "string \<Rightarrow> string" where
  "extension filename =
     map lower_char (case rfind_char CHR ''.'' filename of None \<Rightarrow> filename | Some i \<Rightarrow> drop (i + 1) filename)"

definition write_results_to_file ::
  "bool \<Rightarrow> string \<Rightarrow> string \<Rightarrow> string \<Rightarrow> dir_result \<Rightarrow> string \<Rightarrow> string \<Rightarrow> string option" where
  "write_results_to_file opened elapsed elapsed_txt filename r source_a source_b =
     (let ext = extension filename in
      if ext = ''json'' then write_json_results opened elapsed r source_a source_b
      else if ext = ''csv'' then write_csv_results opened r source_a source_b
      else write_txt_results opened elapsed_txt r source_a source_b)"

definition print_directory_result :: "dir_result \<Rightarrow> string \<Rightarrow> string \<Rightarrow> string \<Rightarrow> string" where
  "print_directory_result r src_a src_b elapsed =
     (let all_match = (dr_mismatched r = 0 \<and> dr_only_in_a r = 0 \<and> dr_only_in_b r = 0 \<and> dr_errors r = 0) in
      if all_match then
        [CHR 0xE2, CHR 0x9C, CHR 0x93] @ '' '' @ show_nat (dr_matching r) @ '' files match ('' @ elapsed @ '')'' @ nl
      else
        [CHR 0xE2, CHR 0x9C, CHR 0x97] @ '' '' @ show_nat (dr_matching r) @ ''/'' @ show_nat (dr_total r) @ '' match'' @
        (let differing = content_differences r in
         if differing > 0 then '', '' @ show_nat differing @ '' differ'' else []) @
        (if dr_only_in_a r > 0 then '', '' @ show_nat (dr_only_in_a r) @ '' only in '' @ src_a else []) @
        (if dr_only_in_b r > 0 then '', '' @ show_nat (dr_only_in_b r) @ '' only in '' @ src_b else []) @
        (if dr_errors r > 0 then '', '' @ show_nat (dr_errors r) @ '' errors'' else []) @
        '' ('' @ elapsed @ '')'' @ nl)"

section \<open>A printed duration reads back\<close>

lemma parse_duration_show:
  assumes "unit_multiplier u = Some m" "0 \<le> n" "n * m \<le> int64_max"
  shows "parse_duration (show_int n @ [u]) = Some (n * m)"
proof -
  have "show_int n = show_nat (nat n)" using assms(2) by (simp add: show_int_def)
  moreover have "n * m = int (digits_val (show_nat (nat n))) * m" using assms(2) by simp
  moreover have "list_all is_digit (show_nat (nat n))" using show_nat_digits by (simp add: list_all_iff)
  ultimately show ?thesis using assms(1,3) by (auto simp: parse_duration_iff)
qed

lemma unit_multipliers:
  "unit_multiplier CHR ''s'' = Some 1" "unit_multiplier CHR ''m'' = Some 60"
  "unit_multiplier CHR ''h'' = Some 3600" "unit_multiplier CHR ''d'' = Some 86400"
  by (simp_all add: unit_multiplier_def)

lemma div_mult_mod0: "n mod (k::int) = 0 \<Longrightarrow> n div k * k = n"
  by auto

text \<open>
  C40: a duration that \<^verbatim>\<open>leftovers\<close> prints, any number of seconds that fits 64 bits, is read back by
  \<^verbatim>\<open>--older-than\<close> as the same number of seconds.
\<close>

theorem duration_roundtrip:
  assumes "0 \<le> n" "n \<le> int64_max"
  shows "parse_duration (format_duration n) = Some n"
proof -
  have by_unit: "parse_duration (show_int (n div k) @ [u]) = Some n"
    if "n mod k = 0" "0 < k" "unit_multiplier u = Some k" for k u
    using parse_duration_show [OF that(3), of "n div k"] assms that(1,2) div_mult_mod0 [OF that(1)]
    by (simp add: pos_imp_zdiv_nonneg_iff)
  show ?thesis
    using by_unit [of 86400] by_unit [of 3600] by_unit [of 60] by_unit [of 1]
    by (simp add: format_duration_def unit_multipliers)
qed

theorem duration_roundtrip_witness:
  "parse_duration (format_duration 5400) = Some 5400 \<and> format_duration 5400 = ''90m''"
proof
  show "parse_duration (format_duration 5400) = Some 5400"
    by (rule duration_roundtrip) (simp_all add: int64_max_def)
  show "format_duration 5400 = ''90m''" by code_simp
qed

section \<open>The summary and the list of problems agree\<close>

definition problems :: "dir_result \<Rightarrow> nat" where
  "problems r = length (filter (\<lambda>f. fr_status f \<noteq> Match) (dr_files r))"

definition adds_up :: "dir_result \<Rightarrow> bool" where
  "adds_up r \<longleftrightarrow>
     dr_matching r + content_differences r + dr_only_in_a r + dr_only_in_b r + dr_errors r = dr_total r \<and>
     dr_total r = length (dr_files r) \<and>
     problems r = content_differences r + dr_only_in_a r + dr_only_in_b r + dr_errors r"

definition compared_only :: "file_compare_result list \<Rightarrow> bool" where
  "compared_only fs \<longleftrightarrow> (\<forall>f \<in> set fs. fr_status f \<in> {Match, Mismatch, CompareError})"

lemma compared_only_simps [simp]:
  "compared_only []" "compared_only (fs @ gs) \<longleftrightarrow> compared_only fs \<and> compared_only gs"
  "compared_only [f] \<longleftrightarrow> fr_status f \<in> {Match, Mismatch, CompareError}"
  by (auto simp: compared_only_def)

lemma compared_status: "fr_status (file_result files cfg p r) \<in> {Match, Mismatch, CompareError}"
  by (simp add: file_result_def Let_def)

lemma compare_files_tallied:
  "compare_files create z files rd cfg ia ib ps c s t = (t', c', s') \<Longrightarrow> tallied t \<Longrightarrow>
     compared_only (ta_results t) \<Longrightarrow>
     tallied t' \<and> compared_only (ta_results t')"
proof (induction ps arbitrary: c s t)
  case (Cons p ps)
  obtain f c1 s1 where f: "compare_file create z files rd cfg ia ib p c s = (f, c1, s1)" by (metis prod_cases3)
  have "fr_status g \<in> {Match, Mismatch, CompareError}" if "f = Some g" for g
    using f that compared_status [of files cfg p]
    by (auto simp: compare_file_def Let_def split: prod.splits if_splits)
  with Cons f show ?case by (cases f) (auto simp: tallied_tally_file)
qed simp

lemma run_file_phase_tallied:
  assumes "run_file_phase create z files rd schedule cfg ia ib xs ys c s = Some (t, c', s')"
  shows "tallied t \<and> compared_only (ta_results t)"
  using assms
  by (auto simp: run_file_phase_def Let_def split: if_splits prod.splits dest: compare_files_tallied)

lemma status_count_parts:
  "compared_only fs \<Longrightarrow>
     length fs = status_count Match fs + status_count Mismatch fs + status_count CompareError fs"
  by (induction fs) (auto simp: status_count_def compared_only_def)

lemma not_match_count: "length (filter (\<lambda>f. fr_status f \<noteq> Match) fs) = length fs - status_count Match fs"
  using sum_length_filter_compl [of "\<lambda>f. fr_status f = Match" fs] by (simp add: status_count_def)

lemma finish_adds_up:
  assumes "finish_comparison cfg xs ys t c = (r, c')" "tallied t"
    and "compared_only (ta_results t)"
  shows "adds_up r"
proof -
  let ?A = "map (\<lambda>p. only_in_a_result (dc_chunk_size cfg) p (size_of xs p)) (paths_without xs ys)"
  let ?B = "map (\<lambda>p. only_in_b_result (dc_chunk_size cfg) p (size_of ys p)) (paths_without ys xs)"
  let ?fs = "ta_results t"
  have r: "dr_files r = sort_results (?A @ ?B @ ?fs)" "dr_total r = length (?A @ ?B @ ?fs)"
    "dr_matching r = ta_matching t" "dr_mismatched r = length ?A + length ?B + ta_mismatched t"
    "dr_only_in_a r = length ?A" "dr_only_in_b r = length ?B" "dr_errors r = ta_errors t"
    using assms(1) by (auto simp: finish_comparison_def Let_def split: prod.splits)
  have m: "status_count Match (dr_files r) = ta_matching t"
    using assms(2) by (simp add: r(1) tallied_def) (simp add: status_count_def filter_map comp_def)
  have d: "content_differences r = ta_mismatched t" by (simp add: content_differences_def r Let_def)
  from status_count_parts [OF assms(3)] assms(2) have l: "length ?fs = ta_matching t + ta_mismatched t + ta_errors t"
    by (simp add: tallied_def)
  have len: "length (dr_files r) = length ?A + length ?B + length ?fs" by (simp add: r(1))
  show ?thesis using m d l len by (simp add: adds_up_def problems_def not_match_count r(2-))
qed

lemma report_adds_up:
  assumes "run_directory_comparison fuel fq create z files rd schedule cfg ia ib c s = Some (r, c', s')"
  shows "adds_up r"
proof (cases "\<exists>e. r = default_dir_result\<lparr>dr_error := e\<rparr>")
  case True
  then show ?thesis by (auto simp: adds_up_def default_dir_result_def content_differences_def problems_def)
next
  case False
  with assms show ?thesis
    by (auto simp: run_directory_comparison_def split: sum.splits option.splits prod.splits if_splits
        dest!: run_file_phase_tallied intro: finish_adds_up)
qed

end
