(* ===== verification/Local_FS.thy ===== *)
theory Local_FS
  imports Paths Parsing
begin

text \<open>
  The local file system as the write paths of sync_task.cpp use it, and \<^verbatim>\<open>AtomicFileWriter\<close>
  (lines 838 to 1044).  A file is named by its path.  Every system call takes its fate from a
  script: it goes through, does part of its work, fails with an error, or the process is killed in
  it, after which nothing changes any more.  Theorems quantify over the script, so they speak of
  every combination of failures and of every moment of a crash.  What a path names does not change
  under the program's feet otherwise.
\<close>

unbundle bit_operations_syntax

section \<open>Files and system calls\<close>

type_synonym mode = "16 word"

record inode =
  in_data :: "byte list"
  in_mode :: mode
  in_owner :: "nat \<times> nat"
  in_mtime :: int

datatype node = File inode | Symlink string | Dir | Special

datatype fate = Goes | Short nat | Fails errno | Killed

record local_fs =
  lf_nodes :: "string \<rightharpoonup> node"
  lf_script :: "fate list"
  lf_alive :: bool
  lf_now :: int
  lf_umask :: mode
  lf_owner :: "nat \<times> nat"
  lf_pid :: nat
  lf_counter :: nat

text \<open>One call: an error, or how many bytes it may move at most.\<close>

definition sys_call :: "local_fs \<Rightarrow> (errno + nat option) \<times> local_fs" where
  "sys_call fs =
     (if \<not> lf_alive fs then (Inl (OtherError 0), fs)
      else case lf_script fs of
        [] \<Rightarrow> (Inr None, fs)
      | f # rest \<Rightarrow>
          (case f of
             Goes \<Rightarrow> (Inr None, fs\<lparr>lf_script := rest\<rparr>)
           | Short n \<Rightarrow> (Inr (Some n), fs\<lparr>lf_script := rest\<rparr>)
           | Fails e \<Rightarrow> (Inl e, fs\<lparr>lf_script := rest\<rparr>)
           | Killed \<Rightarrow> (Inl (OtherError 0), fs\<lparr>lf_script := rest, lf_alive := False\<rparr>)))"

definition set_node :: "string \<Rightarrow> node option \<Rightarrow> local_fs \<Rightarrow> local_fs" where
  "set_node p n fs = fs\<lparr>lf_nodes := (lf_nodes fs)(p := n)\<rparr>"

definition update_file :: "string \<Rightarrow> (inode \<Rightarrow> inode) \<Rightarrow> local_fs \<Rightarrow> local_fs" where
  "update_file p f fs = (case lf_nodes fs p of Some (File i) \<Rightarrow> set_node p (Some (File (f i))) fs | _ \<Rightarrow> fs)"

definition sys_lstat :: "string \<Rightarrow> local_fs \<Rightarrow> (errno + node) \<times> local_fs" where
  "sys_lstat p fs =
     (case sys_call fs of
        (Inl e, fs) \<Rightarrow> (Inl e, fs)
      | (Inr _, fs) \<Rightarrow> (case lf_nodes fs p of None \<Rightarrow> (Inl ENOENT, fs) | Some n \<Rightarrow> (Inr n, fs)))"

definition sys_stat_file :: "string \<Rightarrow> local_fs \<Rightarrow> inode option \<times> local_fs" where
  "sys_stat_file p fs =
     (case sys_call fs of
        (Inl e, fs) \<Rightarrow> (None, fs)
      | (Inr _, fs) \<Rightarrow> (case lf_nodes fs p of Some (File i) \<Rightarrow> (Some i, fs) | _ \<Rightarrow> (None, fs)))"

text \<open>\<^verbatim>\<open>open\<close> with \<^verbatim>\<open>O_CREAT | O_EXCL\<close>; the error, if any.\<close>

definition sys_open_excl :: "string \<Rightarrow> mode \<Rightarrow> local_fs \<Rightarrow> errno option \<times> local_fs" where
  "sys_open_excl p create_mode fs =
     (case sys_call fs of
        (Inl e, fs) \<Rightarrow> (Some e, fs)
      | (Inr _, fs) \<Rightarrow>
          (case lf_nodes fs p of
             Some _ \<Rightarrow> (Some EEXIST, fs)
           | None \<Rightarrow> (None, set_node p (Some (File \<lparr>in_data = [], in_mode = create_mode AND NOT (lf_umask fs),
                              in_owner = lf_owner fs, in_mtime = lf_now fs\<rparr>)) fs)))"

text \<open>\<^verbatim>\<open>write\<close> on the descriptor of the new file \<open>p\<close>, which is at its end.\<close>

definition sys_write :: "string \<Rightarrow> byte list \<Rightarrow> local_fs \<Rightarrow> (errno + nat) \<times> local_fs" where
  "sys_write p buf fs =
     (case sys_call fs of
        (Inl e, fs) \<Rightarrow> (Inl e, fs)
      | (Inr most, fs) \<Rightarrow>
          (let n = (case most of None \<Rightarrow> length buf | Some m \<Rightarrow> min m (length buf)) in
           (Inr n, update_file p (\<lambda>i. i\<lparr>in_data := in_data i @ take n buf, in_mtime := lf_now fs\<rparr>) fs)))"

text \<open>The calls whose only answer is success or an error.\<close>

definition sys_plain :: "(local_fs \<Rightarrow> local_fs) \<Rightarrow> local_fs \<Rightarrow> errno option \<times> local_fs" where
  "sys_plain f fs = (case sys_call fs of (Inl e, fs) \<Rightarrow> (Some e, fs) | (Inr _, fs) \<Rightarrow> (None, f fs))"

definition sys_fchmod :: "string \<Rightarrow> mode \<Rightarrow> local_fs \<Rightarrow> errno option \<times> local_fs" where
  "sys_fchmod p m = sys_plain (update_file p (\<lambda>i. i\<lparr>in_mode := m\<rparr>))"

definition sys_fchown :: "string \<Rightarrow> nat \<times> nat \<Rightarrow> local_fs \<Rightarrow> errno option \<times> local_fs" where
  "sys_fchown p o' = sys_plain (update_file p (\<lambda>i. i\<lparr>in_owner := o'\<rparr>))"

definition sys_noop :: "local_fs \<Rightarrow> errno option \<times> local_fs" where
  "sys_noop = sys_plain (\<lambda>fs. fs)"

text \<open>A directory is taken to be not empty.\<close>

definition sys_unlink :: "string \<Rightarrow> local_fs \<Rightarrow> errno option \<times> local_fs" where
  "sys_unlink p fs =
     (case sys_call fs of
        (Inl e, fs) \<Rightarrow> (Some e, fs)
      | (Inr _, fs) \<Rightarrow>
          (case lf_nodes fs p of
             None \<Rightarrow> (Some ENOENT, fs)
           | Some Dir \<Rightarrow> (Some (OtherError 39), fs)
           | Some _ \<Rightarrow> (None, set_node p None fs)))"

definition sys_rename :: "string \<Rightarrow> string \<Rightarrow> local_fs \<Rightarrow> errno option \<times> local_fs" where
  "sys_rename a b fs =
     (case sys_call fs of
        (Inl e, fs) \<Rightarrow> (Some e, fs)
      | (Inr _, fs) \<Rightarrow>
          (case lf_nodes fs a of
             None \<Rightarrow> (Some ENOENT, fs)
           | Some n \<Rightarrow>
               if lf_nodes fs b = Some Dir then (Some (OtherError 21), fs)
               else (None, set_node b (Some n) (if a = b then fs else set_node a None fs))))"

section \<open>AtomicFileWriter\<close>

record writer =
  aw_target :: string
  aw_temp_path :: string
  aw_open :: bool
  aw_committed :: bool
  aw_has_existing_mode :: bool
  aw_existing_mode :: mode
  aw_existing_owner :: "nat \<times> nat"

definition setid_bits :: mode where "setid_bits = 0xC00"

definition closed_writer :: "string \<Rightarrow> writer" where
  "closed_writer target = \<lparr>aw_target = target, aw_temp_path = [], aw_open = False, aw_committed = False,
     aw_has_existing_mode = False, aw_existing_mode = 0, aw_existing_owner = (0, 0)\<rparr>"

text \<open>The name loop of the constructor: up to eight names, one more only after \<^verbatim>\<open>EEXIST\<close>.\<close>

definition next_temp_path :: "string \<Rightarrow> local_fs \<Rightarrow> string \<times> local_fs" where
  "next_temp_path target fs =
     (path_append (parent_path target) (make_temp_name (lf_pid fs) (lf_counter fs) (path_filename target)),
      fs\<lparr>lf_counter := (lf_counter fs + 1) mod 2 ^ 64\<rparr>)"

fun temp_attempts :: "nat \<Rightarrow> mode \<Rightarrow> string \<Rightarrow> local_fs \<Rightarrow> string option \<times> local_fs" where
  "temp_attempts 0 create_mode target fs = (None, fs)"
| "temp_attempts (Suc n) create_mode target fs =
     (let (temp, fs) = next_temp_path target fs;
          (e, fs) = sys_open_excl temp create_mode fs
      in if e = None then (Some temp, fs)
         else if e = Some EEXIST then temp_attempts n create_mode target fs
         else (None, fs))"

text \<open>The constructor; a writer that is not open is not \<^verbatim>\<open>valid()\<close>.\<close>

definition create_temp :: "writer \<Rightarrow> local_fs \<Rightarrow> writer \<times> local_fs" where
  "create_temp w fs =
     (let (temp, fs) = temp_attempts 8 (if aw_has_existing_mode w then 0x180 else 0x1A4) (aw_target w) fs in
      case temp of
        None \<Rightarrow> (w, fs)
      | Some t \<Rightarrow> (w\<lparr>aw_temp_path := t, aw_open := True\<rparr>, fs))"

definition open_writer :: "string \<Rightarrow> local_fs \<Rightarrow> writer \<times> local_fs" where
  "open_writer target fs =
     (let w = closed_writer target; (st, fs) = sys_lstat target fs in
      case st of
        Inl e \<Rightarrow> if e \<noteq> ENOENT \<and> e \<noteq> ENOTDIR then (w, fs) else create_temp w fs
      | Inr (Symlink _) \<Rightarrow> (w, fs)
      | Inr Dir \<Rightarrow> (w, fs)
      | Inr Special \<Rightarrow> (w, fs)
      | Inr (File _) \<Rightarrow>
          (let (sb, fs) = sys_stat_file target fs in
           case sb of
             None \<Rightarrow> create_temp w fs
           | Some i \<Rightarrow> create_temp (w\<lparr>aw_has_existing_mode := True,
                          aw_existing_mode := (in_mode i AND 0xFFF) AND NOT setid_bits,
                          aw_existing_owner := in_owner i\<rparr>) fs))"

text \<open>The destructor.\<close>

definition close_writer :: "writer \<Rightarrow> local_fs \<Rightarrow> local_fs" where
  "close_writer w fs =
     (let fs = (if aw_open w then snd (sys_noop fs) else fs) in
      if \<not> aw_committed w \<and> aw_temp_path w \<noteq> [] then snd (sys_unlink (aw_temp_path w) fs) else fs)"

text \<open>
  \<^verbatim>\<open>commit\<close>.  A failed \<^verbatim>\<open>fdatasync\<close> keeps the descriptor, a failed \<^verbatim>\<open>close\<close> has given it up.  The
  calls on the directory after the rename do not change the answer.
\<close>

definition restore_mode :: "writer \<Rightarrow> local_fs \<Rightarrow> local_fs" where
  "restore_mode w fs =
     (if aw_has_existing_mode w
      then snd (sys_fchown (aw_temp_path w) (aw_existing_owner w)
                  (snd (sys_fchmod (aw_temp_path w) (aw_existing_mode w) fs)))
      else fs)"

definition flush_directory :: "local_fs \<Rightarrow> local_fs" where
  "flush_directory fs =
     (let (e, fs) = sys_noop fs in
      if e \<noteq> None then fs else snd (sys_noop (snd (sys_noop fs))))"

definition commit_writer :: "writer \<Rightarrow> local_fs \<Rightarrow> bool \<times> writer \<times> local_fs" where
  "commit_writer w fs =
     (if \<not> aw_open w then (False, w, fs)
      else let fs = restore_mode w fs; (e, fs) = sys_noop fs in
        if e \<noteq> None then (False, w, fs)
        else let (e, fs) = sys_noop fs; w = w\<lparr>aw_open := False\<rparr> in
          if e \<noteq> None then (False, w, fs)
          else let (e, fs) = sys_rename (aw_temp_path w) (aw_target w) fs in
            if e \<noteq> None then (False, w, fs)
            else (True, w\<lparr>aw_committed := True\<rparr>, flush_directory fs))"

text \<open>The write loops, the same in the three paths that write a file in full.\<close>

lemma sys_call_EINTR: "sys_call fs = (Inl EINTR, fs') \<Longrightarrow> length (lf_script fs') < length (lf_script fs)"
  by (auto simp: sys_call_def split: if_splits list.splits fate.splits)

lemma lf_update_file [simp]:
  "lf_script (update_file p f fs) = lf_script fs" "lf_alive (update_file p f fs) = lf_alive fs"
  by (auto simp: update_file_def set_node_def split: option.splits node.splits)

lemma sys_call_script: "sys_call fs = (r, fs') \<Longrightarrow> length (lf_script fs') \<le> length (lf_script fs)"
  by (auto simp: sys_call_def split: if_splits list.splits fate.splits)

lemma sys_write_EINTR: "sys_write p buf fs = (Inl EINTR, fs') \<Longrightarrow> length (lf_script fs') < length (lf_script fs)"
  by (auto simp: sys_write_def Let_def dest!: sys_call_EINTR split: prod.splits sum.splits)

lemma sys_write_script: "sys_write p buf fs = (r, fs') \<Longrightarrow> length (lf_script fs') \<le> length (lf_script fs)"
  by (auto simp: sys_write_def Let_def dest!: sys_call_script split: prod.splits sum.splits)

function write_loop :: "string \<Rightarrow> byte list \<Rightarrow> local_fs \<Rightarrow> bool \<times> local_fs" where
  "write_loop p buf fs =
     (if buf = [] then (True, fs)
      else let (r, fs') = sys_write p buf fs in
        case r of
          Inl e \<Rightarrow> if e = EINTR then write_loop p buf fs' else (False, fs')
        | Inr n \<Rightarrow> if n = 0 then (False, fs') else write_loop p (drop n buf) fs')"
  by pat_completeness auto
termination
proof (relation "measure (\<lambda>(p, buf, fs). length buf + length (lf_script fs))", goal_cases)
  case (2 p buf fs z r fs' e)
  then show ?case using sys_write_EINTR [of p buf fs fs'] by simp
next
  case (3 p buf fs z r fs' n)
  then show ?case using sys_write_script [of p buf fs "Inr n" fs'] by (cases buf) auto
qed simp

declare write_loop.simps [simp del]

section \<open>Nothing but the temporary file is written before the rename\<close>

named_theorems fs_simps

lemma sys_call_nodes [fs_simps]: "sys_call fs = (r, fs') \<Longrightarrow> lf_nodes fs' = lf_nodes fs"
  by (auto simp: sys_call_def split: if_splits list.splits fate.splits)

lemma sys_noop_nodes [fs_simps]: "sys_noop fs = (e, fs') \<Longrightarrow> lf_nodes fs' = lf_nodes fs"
  by (auto simp: sys_noop_def sys_plain_def dest: sys_call_nodes split: prod.splits sum.splits)

lemma snd_sys_noop_nodes [simp]: "lf_nodes (snd (sys_noop fs)) = lf_nodes fs"
  by (metis prod.collapse sys_noop_nodes)

lemma sys_lstat_nodes [fs_simps]: "sys_lstat p fs = (r, fs') \<Longrightarrow> lf_nodes fs' = lf_nodes fs"
  by (auto simp: sys_lstat_def dest: sys_call_nodes split: prod.splits sum.splits option.splits)

lemma sys_stat_file_nodes [fs_simps]: "sys_stat_file p fs = (r, fs') \<Longrightarrow> lf_nodes fs' = lf_nodes fs"
  by (auto simp: sys_stat_file_def dest: sys_call_nodes split: prod.splits sum.splits option.splits node.splits)

lemma flush_directory_nodes [simp]: "lf_nodes (flush_directory fs) = lf_nodes fs"
  by (auto simp: flush_directory_def Let_def dest: sys_noop_nodes split: prod.splits)

definition staged :: "local_fs \<Rightarrow> string \<Rightarrow> byte list \<Rightarrow> local_fs \<Rightarrow> bool" where
  "staged fs0 temp d fs \<longleftrightarrow>
     lf_nodes fs0 temp = None \<and> (\<exists>i. in_data i = d \<and> lf_nodes fs = (lf_nodes fs0)(temp \<mapsto> File i))"

lemma stagedI: "lf_nodes fs0 temp = None \<Longrightarrow> lf_nodes fs = (lf_nodes fs0)(temp \<mapsto> File i) \<Longrightarrow> staged fs0 temp (in_data i) fs"
  by (auto simp: staged_def)

lemma staged_cong: "lf_nodes fs' = lf_nodes fs \<Longrightarrow> staged fs0 temp d fs \<Longrightarrow> staged fs0 temp d fs'"
  by (simp add: staged_def)

lemma staged_from: "lf_nodes fs1 = lf_nodes fs0 \<Longrightarrow> staged fs1 temp d fs \<Longrightarrow> staged fs0 temp d fs"
  by (simp add: staged_def)

lemma staged_update:
  assumes "staged fs0 temp d fs" "\<And>i. in_data i = d \<Longrightarrow> in_data (f i) = d'"
  shows "staged fs0 temp d' (update_file temp f fs)"
  using assms by (fastforce simp: staged_def update_file_def set_node_def)

lemma sys_plain_staged:
  assumes "sys_plain (update_file temp f) fs = (e, fs')" "staged fs0 temp d fs"
    and "\<And>i. in_data i = d \<Longrightarrow> in_data (f i) = d"
  shows "staged fs0 temp d fs'"
proof -
  obtain r fs1 where c: "sys_call fs = (r, fs1)" by fastforce
  from staged_cong [OF sys_call_nodes [OF c] assms(2)] have s1: "staged fs0 temp d fs1" .
  from c assms(1) have "fs' = fs1 \<or> fs' = update_file temp f fs1"
    by (auto simp: sys_plain_def split: sum.splits)
  moreover have "staged fs0 temp d (update_file temp f fs1)" by (rule staged_update [OF s1 assms(3)])
  ultimately show ?thesis using s1 by blast
qed

lemma sys_fchmod_staged: "sys_fchmod temp m fs = (e, fs') \<Longrightarrow> staged fs0 temp d fs \<Longrightarrow> staged fs0 temp d fs'"
  unfolding sys_fchmod_def by (erule sys_plain_staged) simp_all

lemma sys_fchown_staged: "sys_fchown temp m fs = (e, fs') \<Longrightarrow> staged fs0 temp d fs \<Longrightarrow> staged fs0 temp d fs'"
  unfolding sys_fchown_def by (erule sys_plain_staged) simp_all

lemma restore_mode_staged:
  assumes "staged fs0 (aw_temp_path w) d fs"
  shows "staged fs0 (aw_temp_path w) d (restore_mode w fs)"
proof -
  obtain e1 fs1 where 1: "sys_fchmod (aw_temp_path w) (aw_existing_mode w) fs = (e1, fs1)" by fastforce
  obtain e2 fs2 where 2: "sys_fchown (aw_temp_path w) (aw_existing_owner w) fs1 = (e2, fs2)" by fastforce
  show ?thesis
    using assms sys_fchmod_staged [OF 1 assms] sys_fchown_staged [OF 2, of fs0 d]
    by (simp add: restore_mode_def 1 2)
qed

lemma sys_write_staged:
  assumes "sys_write temp buf fs = (r, fs')" "staged fs0 temp d fs"
  shows "case r of Inl e \<Rightarrow> staged fs0 temp d fs' | Inr n \<Rightarrow> staged fs0 temp (d @ take n buf) fs' \<and> n \<le> length buf"
proof -
  obtain o' fs1 where c: "sys_call fs = (o', fs1)" by fastforce
  from staged_cong [OF sys_call_nodes [OF c] assms(2)] have s1: "staged fs0 temp d fs1" .
  have upd: "staged fs0 temp (d @ x)
          (update_file temp (\<lambda>i. i\<lparr>in_data := in_data i @ x, in_mtime := t\<rparr>) fs1)" for x t
    by (rule staged_update [OF s1]) simp
  from c s1 assms(1) show ?thesis
    by (auto simp: sys_write_def Let_def upd split: sum.splits option.splits)
qed

lemma write_loop_staged:
  assumes "write_loop temp buf fs = (ok, fs')" "staged fs0 temp d fs"
  shows "\<exists>d'. staged fs0 temp d' fs' \<and> (ok \<longrightarrow> d' = d @ buf)"
  using assms
proof (induction temp buf fs arbitrary: d rule: write_loop.induct)
  case (1 temp buf fs)
  show ?case
  proof (cases "buf = []")
    case True
    with 1(3,4) show ?thesis by (subst (asm) write_loop.simps) auto
  next
    case False
    obtain r fs1 where w: "sys_write temp buf fs = (r, fs1)" by fastforce
    note st = sys_write_staged [OF w 1(4)]
    show ?thesis
    proof (cases r)
      case (Inl e)
      show ?thesis
      proof (cases "e = EINTR")
        case True
        have "write_loop temp buf fs1 = (ok, fs')"
          using 1(3) False w Inl True by (subst (asm) write_loop.simps) simp
        with 1(1) [OF False w [symmetric] refl Inl True] st Inl show ?thesis by auto
      next
        case e: False
        with 1(3) False w Inl st show ?thesis by (subst (asm) write_loop.simps) auto
      qed
    next
      case (Inr n)
      show ?thesis
      proof (cases "n = 0")
        case True
        with 1(3) False w Inr st show ?thesis by (subst (asm) write_loop.simps) auto
      next
        case n: False
        have "write_loop temp (drop n buf) fs1 = (ok, fs')"
          using 1(3) False w Inr n by (subst (asm) write_loop.simps) simp
        with 1(2) [OF False w [symmetric] refl Inr n, where d = "d @ take n buf"] st Inr show ?thesis by auto
      qed
    qed
  qed
qed

section \<open>Temporary paths\<close>

definition temp_for :: "string \<Rightarrow> string \<Rightarrow> bool" where
  "temp_for target temp \<longleftrightarrow>
     (\<exists>name. temp = path_append (parent_path target) name \<and> is_sync_temp_name name \<and> CHR ''/'' \<notin> set name)"

lemma path_filename_append: "CHR ''/'' \<notin> set name \<Longrightarrow> name \<noteq> [] \<Longrightarrow> path_filename (path_append p name) = name"
proof -
  assume n: "CHR ''/'' \<notin> set name" "name \<noteq> []"
  then have h: "hd name \<noteq> CHR ''/''" by (metis hd_in_set)
  have "path_filename (q @ CHR ''/'' # name) = name" "path_filename name = name" for q
    using n(1) by (auto simp: path_filename_def takeWhile_append)
  with h n show ?thesis
  proof (cases "p = [] \<or> last p \<noteq> CHR ''/''")
    case True
    with \<open>\<And>q. path_filename (q @ CHR ''/'' # name) = name\<close> \<open>path_filename name = name\<close> h
    show ?thesis by (cases "p = []") (simp_all add: path_append_def)
  next
    case False
    then have "p = butlast p @ [CHR ''/'']" by (metis append_butlast_last_id)
    then have "path_append p name = butlast p @ CHR ''/'' # name"
      using h False by (simp add: path_append_def)
    with \<open>\<And>q. path_filename (q @ CHR ''/'' # name) = name\<close> show ?thesis by simp
  qed
qed

lemma temp_for_neq: "temp_for target temp \<Longrightarrow> \<not> is_sync_temp_name (path_filename target) \<Longrightarrow> temp \<noteq> target"
  unfolding temp_for_def is_sync_temp_name_def
  by (metis length_0_conv not_less_zero path_filename_append)

lemma temp_for_nonempty: "temp_for target temp \<Longrightarrow> temp \<noteq> []"
  by (auto simp: temp_for_def path_append_def is_sync_temp_name_def split: if_splits)

lemma set_path_filename: "CHR ''/'' \<notin> set (path_filename p)"
  by (auto simp: path_filename_def dest: set_takeWhileD)

lemma slash_notin_show_nat: "CHR ''/'' \<notin> set (show_nat n)"
  by (rule not_digit_notin_show_nat) (simp add: is_digit_def)

lemma is_sync_temp_name_suffixed: "is_sync_temp_name (CHR ''.'' # body @ kTempSuffix)"
  by (simp add: is_sync_temp_name_def)

lemma next_temp_path_temp_for: "next_temp_path target fs = (temp, fs') \<Longrightarrow> temp_for target temp"
proof -
  assume "next_temp_path target fs = (temp, fs')"
  then have t: "temp = path_append (parent_path target) (make_temp_name (lf_pid fs) (lf_counter fs) (path_filename target))"
    by (simp add: next_temp_path_def)
  define b where "b = 255 - length (temp_name_suffix (lf_pid fs) (lf_counter fs)) - 1"
  have n: "make_temp_name (lf_pid fs) (lf_counter fs) (path_filename target) =
      CHR ''.'' # (take b (path_filename target) @ CHR ''-'' # show_nat (lf_pid fs) @ CHR ''-'' # show_nat (lf_counter fs)) @ kTempSuffix"
    by (simp add: make_temp_name_def temp_name_suffix_def Let_def b_def)
  have "CHR ''/'' \<notin> set (take b (path_filename target))"
    using set_path_filename in_set_takeD by metis
  then have "CHR ''/'' \<notin> set (make_temp_name (lf_pid fs) (lf_counter fs) (path_filename target))"
    unfolding n by (simp add: slash_notin_show_nat kTempSuffix_def)
  with t n is_sync_temp_name_suffixed show ?thesis unfolding temp_for_def by metis
qed

lemma next_temp_path_nodes [fs_simps]: "next_temp_path target fs = (temp, fs') \<Longrightarrow> lf_nodes fs' = lf_nodes fs"
  by (auto simp: next_temp_path_def)

section \<open>What the writer does to the files\<close>

lemma sys_open_excl_cases:
  assumes "sys_open_excl temp m fs = (e, fs')"
  shows "if e = None then staged fs temp [] fs' else lf_nodes fs' = lf_nodes fs"
proof -
  obtain r fs1 where c: "sys_call fs = (r, fs1)" by fastforce
  define i where "i = \<lparr>in_data = [], in_mode = m AND NOT (lf_umask fs1), in_owner = lf_owner fs1, in_mtime = lf_now fs1\<rparr>"
  from sys_call_nodes [OF c] assms c have "lf_nodes fs' = lf_nodes fs \<and> e \<noteq> None \<or>
      e = None \<and> lf_nodes fs temp = None \<and> lf_nodes fs' = (lf_nodes fs)(temp \<mapsto> File i)"
    by (auto simp: sys_open_excl_def set_node_def i_def split: sum.splits option.splits)
  moreover have "in_data i = []" by (simp add: i_def)
  ultimately show ?thesis using stagedI [of fs temp fs' i] by auto
qed

lemma temp_attempts_cases:
  assumes "temp_attempts n m target fs = (t, fs')"
  shows "case t of None \<Rightarrow> lf_nodes fs' = lf_nodes fs
         | Some temp \<Rightarrow> temp_for target temp \<and> staged fs temp [] fs'"
  using assms
proof (induction n arbitrary: fs)
  case (Suc n)
  obtain temp fs1 where n: "next_temp_path target fs = (temp, fs1)" by fastforce
  obtain e fs2 where o2: "sys_open_excl temp m fs1 = (e, fs2)" by fastforce
  note f = next_temp_path_nodes [OF n] and c = sys_open_excl_cases [OF o2]
  consider "e = None" | "e = Some EEXIST" | e' where "e = Some e'" "e' \<noteq> EEXIST" by (cases e) auto
  then show ?case
  proof cases
    case 1
    with Suc.prems n o2 c staged_from [OF f] next_temp_path_temp_for [OF n] show ?thesis
      by (auto simp: Let_def)
  next
    case 2
    with Suc.prems n o2 have r: "temp_attempts n m target fs2 = (t, fs')" by simp
    from 2 c f have "lf_nodes fs2 = lf_nodes fs" by simp
    with Suc.IH [OF r] show ?thesis by (auto simp: staged_def split: option.splits)
  next
    case 3
    with Suc.prems n o2 c f show ?thesis by (auto simp: Let_def)
  qed
qed simp

lemma create_temp_cases:
  assumes "create_temp w fs = (w', fs')" "\<not> aw_open w" "aw_temp_path w = []" "\<not> aw_committed w"
  shows "aw_target w' = aw_target w \<and> \<not> aw_committed w' \<and>
         (if aw_open w' then temp_for (aw_target w) (aw_temp_path w') \<and> staged fs (aw_temp_path w') [] fs'
          else lf_nodes fs' = lf_nodes fs \<and> aw_temp_path w' = [])"
proof -
  obtain t fs1 where t: "temp_attempts 8 (if aw_has_existing_mode w then 0x180 else 0x1A4) (aw_target w) fs = (t, fs1)"
    by fastforce
  with temp_attempts_cases [OF t] assms show ?thesis
    by (auto simp: create_temp_def simp del: temp_attempts.simps split: option.splits)
qed

lemma open_writer_cases:
  assumes "open_writer target fs = (w, fs')"
  shows "aw_target w = target \<and> \<not> aw_committed w \<and>
         (if aw_open w then temp_for target (aw_temp_path w) \<and> staged fs (aw_temp_path w) [] fs'
          else lf_nodes fs' = lf_nodes fs \<and> aw_temp_path w = [])"
proof -
  let ?ok = "\<lambda>w0. \<not> aw_open w0 \<and> aw_temp_path w0 = [] \<and> \<not> aw_committed w0 \<and> aw_target w0 = target"
  have cw: "?ok (closed_writer target)" by (simp add: closed_writer_def)
  obtain st fs1 where l: "sys_lstat target fs = (st, fs1)" by fastforce
  note n1 = sys_lstat_nodes [OF l]
  have via: ?thesis if "create_temp w0 fs2 = (w, fs')" "?ok w0" "lf_nodes fs2 = lf_nodes fs" for w0 fs2
  proof -
    from create_temp_cases [OF that(1)] that(2)
    have c: "aw_target w = target \<and> \<not> aw_committed w \<and>
      (if aw_open w then temp_for target (aw_temp_path w) \<and> staged fs2 (aw_temp_path w) [] fs'
       else lf_nodes fs' = lf_nodes fs2 \<and> aw_temp_path w = [])" by (auto split: if_splits)
    show ?thesis
    proof (cases "aw_open w")
      case True
      with c staged_from [OF that(3), of "aw_temp_path w" "[]" fs'] show ?thesis by simp
    next
      case False
      with c that(3) show ?thesis by simp
    qed
  qed
  have "w = closed_writer target \<and> fs' = fs1 \<or> create_temp (closed_writer target) fs1 = (w, fs') \<or>
      (\<exists>i0. st = Inr (File i0))"
  proof (cases st)
    case (Inl e)
    with assms l show ?thesis by (simp add: open_writer_def Let_def split: if_splits)
  next
    case (Inr n)
    with assms l show ?thesis by (cases n) (simp_all add: open_writer_def Let_def)
  qed
  then consider (blocked) "w = closed_writer target" "fs' = fs1"
    | (new) "create_temp (closed_writer target) fs1 = (w, fs')"
    | (old) i0 where "st = Inr (File i0)" by blast
  then show ?thesis
  proof cases
    case blocked
    then show ?thesis using n1 cw by simp
  next
    case new
    then show ?thesis using via cw n1 by blast
  next
    case old
    obtain sb fs2 where sb: "sys_stat_file target fs1 = (sb, fs2)" by fastforce
    from sys_stat_file_nodes [OF sb] n1 have n2: "lf_nodes fs2 = lf_nodes fs" by simp
    have "\<exists>w0. create_temp w0 fs2 = (w, fs') \<and> ?ok w0"
    proof (cases sb)
      case None
      with assms l old sb have "create_temp (closed_writer target) fs2 = (w, fs')"
        by (simp add: open_writer_def Let_def)
      with cw show ?thesis by blast
    next
      case (Some i)
      with assms l old sb have "create_temp ((closed_writer target)\<lparr>aw_has_existing_mode := True,
          aw_existing_mode := (in_mode i AND 0xFFF) AND NOT setid_bits, aw_existing_owner := in_owner i\<rparr>) fs2 = (w, fs')"
        by (simp add: open_writer_def Let_def)
      moreover have "?ok ((closed_writer target)\<lparr>aw_has_existing_mode := True,
          aw_existing_mode := (in_mode i AND 0xFFF) AND NOT setid_bits, aw_existing_owner := in_owner i\<rparr>)"
        by (simp add: closed_writer_def)
      ultimately show ?thesis by blast
    qed
    then show ?thesis using via n2 by blast
  qed
qed

text \<open>A staged file is moved into place, or nothing but the staged file is left.\<close>

definition replaced :: "local_fs \<Rightarrow> string \<Rightarrow> byte list \<Rightarrow> local_fs \<Rightarrow> bool" where
  "replaced fs0 target d fs \<longleftrightarrow> (\<exists>i. in_data i = d \<and> lf_nodes fs = (lf_nodes fs0)(target \<mapsto> File i))"

definition untouched :: "local_fs \<Rightarrow> string \<Rightarrow> local_fs \<Rightarrow> bool" where
  "untouched fs0 target fs \<longleftrightarrow>
     lf_nodes fs = lf_nodes fs0 \<or> (\<exists>temp d. temp_for target temp \<and> temp \<noteq> target \<and> staged fs0 temp d fs)"

lemma untouched_refl [simp]: "lf_nodes fs = lf_nodes fs0 \<Longrightarrow> untouched fs0 target fs"
  by (simp add: untouched_def)

lemma untouched_target: "untouched fs0 target fs \<Longrightarrow> lf_nodes fs target = lf_nodes fs0 target"
  by (auto simp: untouched_def staged_def)

lemma sys_rename_staged:
  assumes "sys_rename temp target fs = (e, fs')" "staged fs0 temp d fs" "temp \<noteq> target"
  shows "if e = None then replaced fs0 target d fs' else staged fs0 temp d fs'"
proof -
  obtain r fs1 where c: "sys_call fs = (r, fs1)" by fastforce
  note s1 = staged_cong [OF sys_call_nodes [OF c] assms(2)]
  from s1 obtain i where i: "in_data i = d" "lf_nodes fs1 = (lf_nodes fs0)(temp \<mapsto> File i)" "lf_nodes fs0 temp = None"
    by (auto simp: staged_def)
  have "(lf_nodes fs0)(temp := None, target \<mapsto> File i) = (lf_nodes fs0)(target \<mapsto> File i)"
    using i(3) by (simp add: fun_upd_idem)
  with c assms(1,3) i s1 show ?thesis
    by (auto simp: sys_rename_def set_node_def replaced_def split: sum.splits option.splits if_splits)
qed

lemma commit_writer_cases:
  assumes "commit_writer w fs = (ok, w', fs')" "staged fs0 (aw_temp_path w) d fs" "aw_temp_path w \<noteq> aw_target w"
    and "aw_open w" "\<not> aw_committed w"
  shows "aw_temp_path w' = aw_temp_path w \<and> aw_committed w' = ok \<and>
         (if ok then replaced fs0 (aw_target w) d fs' else staged fs0 (aw_temp_path w) d fs')"
proof -
  obtain e1 fs1 where 1: "sys_noop (restore_mode w fs) = (e1, fs1)" by fastforce
  obtain e2 fs2 where 2: "sys_noop fs1 = (e2, fs2)" by fastforce
  obtain e3 fs3 where 3: "sys_rename (aw_temp_path w) (aw_target w) fs2 = (e3, fs3)" by fastforce
  have s1: "staged fs0 (aw_temp_path w) d fs1"
    by (rule staged_cong [OF sys_noop_nodes [OF 1] restore_mode_staged [OF assms(2)]])
  have s2: "staged fs0 (aw_temp_path w) d fs2" by (rule staged_cong [OF sys_noop_nodes [OF 2] s1])
  note s3 = sys_rename_staged [OF 3 s2 assms(3)]
  show ?thesis
    using assms(1,4,5) 1 2 3 s1 s2 s3
    by (auto simp: commit_writer_def Let_def replaced_def split: if_splits)
qed

lemma sys_unlink_staged:
  "sys_unlink temp fs = (e, fs') \<Longrightarrow> staged fs0 temp d fs \<Longrightarrow> lf_nodes fs' = lf_nodes fs0 \<or> staged fs0 temp d fs'"
proof -
  assume a: "sys_unlink temp fs = (e, fs')" "staged fs0 temp d fs"
  obtain r fs1 where c: "sys_call fs = (r, fs1)" by fastforce
  note s1 = staged_cong [OF sys_call_nodes [OF c] a(2)]
  have "lf_nodes (set_node temp None fs1) = lf_nodes fs0"
    using s1 by (auto simp: staged_def set_node_def fun_upd_idem)
  with a(1) c s1 show ?thesis by (auto simp: sys_unlink_def split: sum.splits option.splits node.splits)
qed

lemma close_writer_committed [simp]: "aw_committed w \<Longrightarrow> lf_nodes (close_writer w fs) = lf_nodes fs"
  by (simp add: close_writer_def Let_def)

lemma close_writer_invalid [simp]: "aw_temp_path w = [] \<Longrightarrow> lf_nodes (close_writer w fs) = lf_nodes fs"
  by (simp add: close_writer_def Let_def)

lemma close_writer_staged:
  assumes "staged fs0 (aw_temp_path w) d fs"
  shows "lf_nodes (close_writer w fs) = lf_nodes fs0 \<or> staged fs0 (aw_temp_path w) d (close_writer w fs)"
proof -
  define fs1 where "fs1 = (if aw_open w then snd (sys_noop fs) else fs)"
  have s1: "staged fs0 (aw_temp_path w) d fs1"
    by (rule staged_cong [OF _ assms]) (simp add: fs1_def)
  obtain e fs2 where u: "sys_unlink (aw_temp_path w) fs1 = (e, fs2)" by fastforce
  from sys_unlink_staged [OF u s1] s1 u show ?thesis
    by (simp add: close_writer_def Let_def fs1_def [symmetric])
qed

lemma replaced_cong: "lf_nodes fs' = lf_nodes fs \<Longrightarrow> replaced fs0 t d fs \<Longrightarrow> replaced fs0 t d fs'"
  by (simp add: replaced_def)

text \<open>The life of a writer from a fill of its file to its destruction.\<close>

lemma writer_abandoned:
  assumes "open_writer target fs = (w, fs1)" "aw_open w" "staged fs (aw_temp_path w) d fs2" "temp_for target (aw_temp_path w)"
    and "\<not> is_sync_temp_name (path_filename target)" "aw_temp_path w' = aw_temp_path w"
  shows "untouched fs target (close_writer w' fs2)"
  using close_writer_staged [of fs w' d fs2] assms temp_for_neq [OF assms(4,5)]
  unfolding untouched_def by metis

lemma writer_finished:
  assumes "open_writer target fs = (w, fs1)" "aw_open w" "staged fs (aw_temp_path w) d fs2"
    and "commit_writer w fs2 = (ok, w', fs3)" "\<not> is_sync_temp_name (path_filename target)"
  shows "if ok then replaced fs target d (close_writer w' fs3) else untouched fs target (close_writer w' fs3)"
proof -
  from open_writer_cases [OF assms(1)] assms(2)
  have w: "aw_target w = target" "\<not> aw_committed w" "temp_for target (aw_temp_path w)" by auto
  note ne = temp_for_neq [OF w(3) assms(5)]
  note c = commit_writer_cases [OF assms(4,3) _ assms(2) w(2), unfolded w(1), OF ne]
  show ?thesis
  proof (cases ok)
    case True
    with c replaced_cong [of "close_writer w' fs3" fs3 fs target d] show ?thesis by simp
  next
    case False
    with c writer_abandoned [OF assms(1,2) _ w(3) assms(5), of d fs3 w'] show ?thesis by auto
  qed
qed

end
