(* ===== verification/Sync_Files.thy ===== *)
theory Sync_Files
  imports S3_Mock Local_FS
begin

text \<open>
  The transfers of whole files in sync_task.cpp: \<^verbatim>\<open>upload_from_data\<close>, \<^verbatim>\<open>download_from_data\<close>,
  \<^verbatim>\<open>upload_small_file\<close>, \<^verbatim>\<open>delete_s3_object\<close>, \<^verbatim>\<open>download_small_file\<close>, \<^verbatim>\<open>delete_local_file\<close>,
  \<^verbatim>\<open>copy_local_file\<close> and \<^verbatim>\<open>copy_s3_object\<close>.  Each returns whether it succeeded and the bytes it
  adds to the counter, with the flag, the file system and the store it leaves behind.  The sleep
  between attempts is left out.
\<close>

section \<open>The retry loop\<close>

text \<open>
  \<^verbatim>\<open>for (attempt = 0; attempt <= MAX_RETRIES; ++attempt)\<close> around a request that may itself load the
  flag.  The loop of every request to the store in this file has this shape.
\<close>

fun retry :: "nat \<Rightarrow> (cancel \<Rightarrow> 's \<Rightarrow> (bool \<times> cancel) \<times> 's) \<Rightarrow> cancel \<Rightarrow> 's \<Rightarrow> bool \<times> cancel \<times> 's" where
  "retry 0 request cancelled s = (False, cancelled, s)"
| "retry (Suc n) request cancelled s =
     (let (stop, cancelled) = poll cancelled in
      if stop then (False, cancelled, s)
      else let ((ok, cancelled), s) = request cancelled s in
        if ok then (True, cancelled, s) else retry n request cancelled s)"

definition plainly :: "('s \<Rightarrow> bool \<times> 's) \<Rightarrow> cancel \<Rightarrow> 's \<Rightarrow> (bool \<times> cancel) \<times> 's" where
  "plainly request cancelled s = (let (ok, s) = request s in ((ok, cancelled), s))"

text \<open>
  What a retried request may have done: \<open>P\<close> holds between the states of a success, \<open>Q\<close> between those
  of a failure.
\<close>

lemma retry_rule:
  assumes "retry n request c s = (ok, c', s')"
    and "\<And>c s c' s'. request c s = ((True, c'), s') \<Longrightarrow> P s s'"
    and "\<And>c s c' s'. request c s = ((False, c'), s') \<Longrightarrow> Q s s'"
    and "\<And>s. Q s s" "\<And>s t u. Q s t \<Longrightarrow> Q t u \<Longrightarrow> Q s u" "\<And>s t u. Q s t \<Longrightarrow> P t u \<Longrightarrow> P s u"
  shows "if ok then P s s' else Q s s'"
  using assms(1)
proof (induction n arbitrary: c s)
  case 0
  with assms(4) show ?case by auto
next
  case (Suc n)
  obtain stop c1 where p: "poll c = (stop, c1)" by fastforce
  obtain ok1 c2 s1 where r: "request c1 s = ((ok1, c2), s1)" by (metis surj_pair)
  consider "stop" | "\<not> stop" "ok1" | "\<not> stop" "\<not> ok1" by blast
  then show ?case
  proof cases
    case 1
    with Suc.prems p assms(4) show ?thesis by auto
  next
    case 2
    with Suc.prems p r have "ok" "s' = s1" by auto
    with assms(2) [of c1 s c2 s1] r 2 show ?thesis by simp
  next
    case 3
    then have "retry n request c2 s1 = (ok, c', s')" using Suc.prems p r by simp
    from Suc.IH [OF this] 3 assms(3) [of c1 s c2 s1] r assms(5,6) [of s s1 s']
    show ?thesis by (cases ok) auto
  qed
qed

section \<open>Keys\<close>

definition object_key :: "string \<Rightarrow> string \<Rightarrow> string" where
  "object_key s3_prefix relative_path = with_slash s3_prefix @ relative_path"

section \<open>Uploads and deletions in the store\<close>

definition upload_from_data ::
  "'s s3_client \<Rightarrow> string \<Rightarrow> string \<Rightarrow> byte list \<Rightarrow> cancel \<Rightarrow> 's \<Rightarrow> bool \<times> nat \<times> cancel \<times> 's" where
  "upload_from_data client bucket key data cancelled s =
     (let (ok, cancelled, s) = retry (MAX_RETRIES + 1) (plainly (PutObject client bucket key data)) cancelled s
      in (ok, if ok then length data else 0, cancelled, s))"

text \<open>The contents a path names, through a symbolic link; a link holds the path it resolves to.\<close>

definition resolve_node :: "local_fs \<Rightarrow> string \<Rightarrow> node option" where
  "resolve_node fs p = (case lf_nodes fs p of Some (Symlink t) \<Rightarrow> lf_nodes fs t | n \<Rightarrow> n)"

definition file_contents :: "local_fs \<Rightarrow> string \<Rightarrow> byte list option" where
  "file_contents fs p = (case resolve_node fs p of Some (File i) \<Rightarrow> Some (in_data i) | _ \<Rightarrow> None)"

definition upload_small_file ::
  "'s s3_client \<Rightarrow> local_fs \<Rightarrow> string \<Rightarrow> string \<Rightarrow> string \<Rightarrow> string \<Rightarrow> cancel \<Rightarrow> 's \<Rightarrow> bool \<times> nat \<times> cancel \<times> 's" where
  "upload_small_file client fs local_path relative_path bucket s3_prefix cancelled s =
     (let full_path = path_append local_path relative_path;
          key = object_key s3_prefix relative_path;
          (ok, cancelled, s) = retry (MAX_RETRIES + 1)
             (plainly (PutObjectFromFile client bucket key full_path (file_contents fs))) cancelled s
      in (ok, if ok then (case file_contents fs full_path of None \<Rightarrow> 0 | Some d \<Rightarrow> length d) else 0, cancelled, s))"

definition delete_s3_object ::
  "'s s3_client \<Rightarrow> string \<Rightarrow> string \<Rightarrow> string \<Rightarrow> cancel \<Rightarrow> 's \<Rightarrow> bool \<times> cancel \<times> 's" where
  "delete_s3_object client bucket s3_prefix relative_path cancelled s =
     retry (MAX_RETRIES + 1) (plainly (DeleteObject client bucket (object_key s3_prefix relative_path))) cancelled s"

definition copy_s3_object ::
  "'s s3_client \<Rightarrow> string \<Rightarrow> string \<Rightarrow> string \<Rightarrow> string \<Rightarrow> int \<Rightarrow> cancel \<Rightarrow> 's \<Rightarrow> bool \<times> int \<times> cancel \<times> 's" where
  "copy_s3_object client source_bucket source_key dest_bucket dest_key file_size cancelled s =
     (let (ok, cancelled, s) = retry (MAX_RETRIES + 1)
             (\<lambda>c. CopyObject client source_bucket source_key dest_bucket dest_key file_size c) cancelled s
      in (ok, if ok then file_size else 0, cancelled, s))"

section \<open>Downloads\<close>

text \<open>The three checks every local target passes.\<close>

definition target_ok :: "(string \<Rightarrow> string option) \<Rightarrow> (string \<Rightarrow> bool) \<Rightarrow> string \<Rightarrow> string \<Rightarrow> bool" where
  "target_ok canon pexists base relative_path \<longleftrightarrow>
     validate_relative_path relative_path \<and>
     validate_target_within_base base (path_append base relative_path) \<and>
     validate_target_resolves_within_base canon pexists base (path_append base relative_path)"

text \<open>The body shared by the two full downloads, from the writer's construction to its destruction.\<close>

definition write_whole :: "string \<Rightarrow> byte list \<Rightarrow> local_fs \<Rightarrow> bool \<times> local_fs" where
  "write_whole full_path data fs =
     (let (w, fs) = open_writer full_path fs in
      if \<not> aw_open w then (False, close_writer w fs)
      else let (ok, fs) = write_loop (aw_temp_path w) data fs in
        if \<not> ok then (False, close_writer w fs)
        else let (ok, w, fs) = commit_writer w fs in (ok, close_writer w fs))"

definition download_from_data ::
  "(string \<Rightarrow> string option) \<Rightarrow> (string \<Rightarrow> bool) \<Rightarrow> string \<Rightarrow> string \<Rightarrow> byte list \<Rightarrow> local_fs \<Rightarrow> bool \<times> nat \<times> local_fs" where
  "download_from_data canon pexists local_base_path relative_path data fs =
     (if \<not> target_ok canon pexists local_base_path relative_path then (False, 0, fs)
      else let (ok, fs) = write_whole (path_append local_base_path relative_path) data fs
           in (ok, if ok then length data else 0, fs))"

text \<open>
  Opening for writing with truncation: \<^verbatim>\<open>std::ofstream(..., trunc)\<close> follows a symbolic link, \<^verbatim>\<open>open\<close>
  with \<^verbatim>\<open>O_NOFOLLOW\<close> does not.
\<close>

definition new_inode :: "mode \<Rightarrow> local_fs \<Rightarrow> inode" where
  "new_inode m fs = \<lparr>in_data = [], in_mode = m AND NOT (lf_umask fs), in_owner = lf_owner fs, in_mtime = lf_now fs\<rparr>"

definition truncate_at :: "string \<Rightarrow> mode \<Rightarrow> local_fs \<Rightarrow> errno option \<times> local_fs" where
  "truncate_at p m fs =
     (case lf_nodes fs p of
        None \<Rightarrow> (None, set_node p (Some (File (new_inode m fs))) fs)
      | Some (File i) \<Rightarrow> (None, set_node p (Some (File (i\<lparr>in_data := [], in_mtime := lf_now fs\<rparr>))) fs)
      | Some (Symlink _) \<Rightarrow> (Some ELOOP, fs)
      | Some Dir \<Rightarrow> (Some (OtherError 21), fs)
      | Some Special \<Rightarrow> (None, fs))"

definition sys_open_trunc :: "bool \<Rightarrow> string \<Rightarrow> mode \<Rightarrow> local_fs \<Rightarrow> errno option \<times> local_fs" where
  "sys_open_trunc follow p m fs =
     (case sys_call fs of
        (Inl e, fs) \<Rightarrow> (Some e, fs)
      | (Inr _, fs) \<Rightarrow>
          (case lf_nodes fs p of
             Some (Symlink t) \<Rightarrow> if follow then truncate_at t m fs else (Some ELOOP, fs)
           | _ \<Rightarrow> truncate_at p m fs))"

text \<open>One attempt after another: a short answer is tried again, a failed write is final.\<close>

fun download_attempts ::
  "nat \<Rightarrow> 's s3_client \<Rightarrow> string \<Rightarrow> string \<Rightarrow> int \<Rightarrow> string \<Rightarrow> cancel \<Rightarrow> local_fs \<Rightarrow> 's \<Rightarrow>
   bool \<times> nat \<times> cancel \<times> local_fs \<times> 's" where
  "download_attempts 0 client bucket key s3_size full_path cancelled fs s = (False, 0, cancelled, fs, s)"
| "download_attempts (Suc n) client bucket key s3_size full_path cancelled fs s =
     (let (stop, cancelled) = poll cancelled in
      if stop then (False, 0, cancelled, fs, s)
      else let (data, s) = GetObjectRange client bucket key 0 (s3_size - 1) s in
        if length data \<noteq> nat s3_size
        then download_attempts n client bucket key s3_size full_path cancelled fs s
        else let (ok, fs) = write_whole full_path data fs
             in (ok, if ok then length data else 0, cancelled, fs, s))"

definition download_small_file ::
  "(string \<Rightarrow> string option) \<Rightarrow> (string \<Rightarrow> bool) \<Rightarrow> 's s3_client \<Rightarrow> string \<Rightarrow> string \<Rightarrow> string \<Rightarrow> string \<Rightarrow> int \<Rightarrow>
   cancel \<Rightarrow> local_fs \<Rightarrow> 's \<Rightarrow> bool \<times> nat \<times> cancel \<times> local_fs \<times> 's" where
  "download_small_file canon pexists client local_base_path relative_path bucket s3_prefix s3_size cancelled fs s =
     (let full_path = path_append local_base_path relative_path in
      if s3_size < 0 then (False, 0, cancelled, fs, s)
      else if \<not> target_ok canon pexists local_base_path relative_path then (False, 0, cancelled, fs, s)
      else if s3_size = 0 then
        (if resolve_node fs full_path = Some Dir then (False, 0, cancelled, fs, s)
         else let (e, fs) = sys_open_trunc True full_path 0x1B6 fs in (e = None, 0, cancelled, fs, s))
      else download_attempts (MAX_RETRIES + 1) client bucket (object_key s3_prefix relative_path) s3_size
             full_path cancelled fs s)"

section \<open>Local deletion and copy\<close>

text \<open>\<^verbatim>\<open>fs::remove\<close>: nothing there is not an error, but is not a removal either.\<close>

definition delete_local_file ::
  "(string \<Rightarrow> string option) \<Rightarrow> (string \<Rightarrow> bool) \<Rightarrow> string \<Rightarrow> string \<Rightarrow> cancel \<Rightarrow> local_fs \<Rightarrow> bool \<times> cancel \<times> local_fs" where
  "delete_local_file canon pexists local_base_path relative_path cancelled fs =
     (let (stop, cancelled) = poll cancelled in
      if stop then (False, cancelled, fs)
      else if \<not> target_ok canon pexists local_base_path relative_path then (False, cancelled, fs)
      else let (e, fs) = sys_unlink (path_append local_base_path relative_path) fs
           in (e = None, cancelled, fs))"

function ancestors :: "string \<Rightarrow> string list" where
  "ancestors p = (let up = parent_path p in if up = [] \<or> up = p then [p] else ancestors up @ [p])"
  by pat_completeness auto
termination
  by (relation "measure length") (use parent_path_shorter in auto)

declare ancestors.simps [simp del]

text \<open>\<^verbatim>\<open>fs::create_directories\<close>, from the top; a call for each directory to be made.\<close>

fun make_dirs :: "string list \<Rightarrow> local_fs \<Rightarrow> errno option \<times> local_fs" where
  "make_dirs [] fs = (None, fs)"
| "make_dirs (p # ps) fs =
     (case resolve_node fs p of
        Some Dir \<Rightarrow> make_dirs ps fs
      | Some _ \<Rightarrow> (Some ENOTDIR, fs)
      | None \<Rightarrow>
          (case sys_call fs of
             (Inl e, fs) \<Rightarrow> (Some e, fs)
           | (Inr _, fs) \<Rightarrow> if lf_nodes fs p = None then make_dirs ps (set_node p (Some Dir) fs) else (Some EEXIST, fs)))"

text \<open>Opening a source with \<^verbatim>\<open>O_NOFOLLOW\<close>: its contents, which do not change while it is copied.\<close>

definition sys_open_read :: "string \<Rightarrow> local_fs \<Rightarrow> byte list option \<times> local_fs" where
  "sys_open_read p fs =
     (case sys_call fs of
        (Inl e, fs) \<Rightarrow> (None, fs)
      | (Inr _, fs) \<Rightarrow> (case lf_nodes fs p of Some (File i) \<Rightarrow> (Some (in_data i), fs) | _ \<Rightarrow> (None, fs)))"

text \<open>\<^verbatim>\<open>read\<close> of a regular file: nothing only at its end.\<close>

definition sys_read :: "nat \<Rightarrow> byte list \<Rightarrow> local_fs \<Rightarrow> (errno + byte list) \<times> local_fs" where
  "sys_read most rest fs =
     (case sys_call fs of
        (Inl e, fs) \<Rightarrow> (Inl e, fs)
      | (Inr None, fs) \<Rightarrow> (Inr (take most rest), fs)
      | (Inr (Some m), fs) \<Rightarrow> (Inr (take (min most (max 1 m)) rest), fs))"

text \<open>The inner and the outer loop of \<^verbatim>\<open>copy_local_file\<close>; both load the flag.\<close>

definition COPY_BUFFER_SIZE :: nat where "COPY_BUFFER_SIZE = 1024 * 1024"

function copy_write :: "string \<Rightarrow> byte list \<Rightarrow> cancel \<Rightarrow> local_fs \<Rightarrow> bool \<times> cancel \<times> local_fs" where
  "copy_write temp buf cancelled fs =
     (if buf = [] then (True, cancelled, fs)
      else let (stop, cancelled') = poll cancelled in
        if stop then (True, cancelled', fs)
        else let (r, fs') = sys_write temp buf fs in
          case r of
            Inl e \<Rightarrow> if e = EINTR then copy_write temp buf cancelled' fs' else (False, cancelled', fs')
          | Inr n \<Rightarrow> if n = 0 then (False, cancelled', fs') else copy_write temp (drop n buf) cancelled' fs')"
  by pat_completeness auto
termination
proof (relation "measure (\<lambda>(p, buf, c, fs). length buf + length (lf_script fs))", goal_cases)
  case (2 p buf c fs z stop c' y r fs' e)
  then show ?case using sys_write_EINTR [of p buf fs fs'] by simp
next
  case (3 p buf c fs z stop c' y r fs' n)
  then show ?case using sys_write_script [of p buf fs "Inr n" fs'] by (cases buf) auto
qed simp

declare copy_write.simps [simp del]

lemma copy_write_script: "copy_write temp buf c fs = (ok, c', fs') \<Longrightarrow> length (lf_script fs') \<le> length (lf_script fs)"
proof (induction temp buf c fs rule: copy_write.induct)
  case (1 temp buf c fs)
  obtain stop c1 where p: "poll c = (stop, c1)" by fastforce
  obtain r fs1 where w: "sys_write temp buf fs = (r, fs1)" by fastforce
  note l = sys_write_script [OF w]
  show ?case
  proof (cases "buf = [] \<or> stop")
    case True
    with 1(3) p show ?thesis by (subst (asm) copy_write.simps) (auto split: if_splits)
  next
    case False
    show ?thesis
    proof (cases r)
      case (Inl e)
      show ?thesis
      proof (cases "e = EINTR")
        case True
        have "copy_write temp buf c1 fs1 = (ok, c', fs')"
          using 1(3) False p w Inl True by (subst (asm) copy_write.simps) simp
        with 1(1) [OF _ p [symmetric] refl _ w [symmetric] refl Inl True] False l show ?thesis by simp
      next
        case e: False
        with 1(3) False p w Inl l show ?thesis by (subst (asm) copy_write.simps) auto
      qed
    next
      case (Inr n)
      show ?thesis
      proof (cases "n = 0")
        case True
        with 1(3) False p w Inr l show ?thesis by (subst (asm) copy_write.simps) auto
      next
        case n: False
        have "copy_write temp (drop n buf) c1 fs1 = (ok, c', fs')"
          using 1(3) False p w Inr n by (subst (asm) copy_write.simps) simp
        with 1(2) [OF _ p [symmetric] refl _ w [symmetric] refl Inr n] False l show ?thesis by simp
      qed
    qed
  qed
qed

lemma sys_read_script: "sys_read most rest fs = (r, fs') \<Longrightarrow> length (lf_script fs') \<le> length (lf_script fs)"
  by (auto simp: sys_read_def dest!: sys_call_script split: prod.splits sum.splits option.splits)

lemma sys_read_EINTR: "sys_read most rest fs = (Inl EINTR, fs') \<Longrightarrow> length (lf_script fs') < length (lf_script fs)"
  by (auto simp: sys_read_def dest!: sys_call_EINTR split: prod.splits sum.splits option.splits)

lemma sys_read_data:
  "sys_read most rest fs = (Inr d, fs') \<Longrightarrow> d = take (length d) rest"
  by (auto simp: sys_read_def min_def split: prod.splits sum.splits option.splits)

lemma sys_read_nodes [fs_simps]: "sys_read most rest fs = (r, fs') \<Longrightarrow> lf_nodes fs' = lf_nodes fs"
  by (auto simp: sys_read_def dest: sys_call_nodes split: prod.splits sum.splits option.splits)

function copy_loop :: "string \<Rightarrow> byte list \<Rightarrow> nat \<Rightarrow> cancel \<Rightarrow> local_fs \<Rightarrow> bool \<times> nat \<times> cancel \<times> local_fs" where
  "copy_loop temp rest total_bytes cancelled fs =
     (let (stop, cancelled') = poll cancelled in
      if stop then (True, total_bytes, cancelled', fs)
      else let (r, fs') = sys_read COPY_BUFFER_SIZE rest fs in
        case r of
          Inl e \<Rightarrow> if e = EINTR then copy_loop temp rest total_bytes cancelled' fs' else (False, total_bytes, cancelled', fs')
        | Inr d \<Rightarrow>
            if d = [] then (True, total_bytes, cancelled', fs')
            else let (ok, cancelled'', fs'') = copy_write temp d cancelled' fs' in
              if \<not> ok then (False, total_bytes, cancelled'', fs'')
              else copy_loop temp (drop (length d) rest) (total_bytes + length d) cancelled'' fs'')"
  by pat_completeness auto
termination
proof (relation "measure (\<lambda>(p, rest, t, c, fs). length rest + length (lf_script fs))", goal_cases)
  case (2 temp rest t c fs z stop c' y r fs' e)
  then show ?case using sys_read_EINTR [of COPY_BUFFER_SIZE rest fs fs'] by simp
next
  case (3 temp rest t c fs z stop c' y r fs' d z2 ok y2 c'' fs'')
  then have r: "sys_read COPY_BUFFER_SIZE rest fs = (Inr d, fs')" and w: "copy_write temp d c' fs' = (ok, c'', fs'')"
    by simp_all
  from sys_read_data [OF r] 3 have "rest \<noteq> []" by auto
  with sys_read_script [OF r] copy_write_script [OF w] 3 show ?case by (cases rest; cases d) auto
qed simp

declare copy_loop.simps [simp del]

definition copy_local_file ::
  "(string \<Rightarrow> string option) \<Rightarrow> (string \<Rightarrow> bool) \<Rightarrow> string \<Rightarrow> string \<Rightarrow> string \<Rightarrow> cancel \<Rightarrow> local_fs \<Rightarrow>
   bool \<times> nat \<times> cancel \<times> local_fs" where
  "copy_local_file canon pexists source_base_path dest_base_path relative_path cancelled fs =
     (let source_path = path_append source_base_path relative_path;
          dest_path = path_append dest_base_path relative_path;
          (stop, cancelled) = poll cancelled in
      if stop then (False, 0, cancelled, fs)
      else if \<not> validate_relative_path relative_path \<or>
              \<not> validate_target_within_base source_base_path source_path \<or>
              \<not> validate_target_within_base dest_base_path dest_path \<or>
              \<not> validate_target_resolves_within_base canon pexists dest_base_path dest_path
           then (False, 0, cancelled, fs)
      else let (e, fs) = (if parent_path dest_path = [] then (None, fs)
                          else make_dirs (ancestors (parent_path dest_path)) fs) in
        if e \<noteq> None then (False, 0, cancelled, fs)
        else let (src, fs) = sys_open_read source_path fs in
          case src of
            None \<Rightarrow> (False, 0, cancelled, fs)
          | Some contents \<Rightarrow>
              (let (w, fs) = open_writer dest_path fs in
               if \<not> aw_open w then (False, 0, cancelled, close_writer w fs)
               else let (success, total_bytes, cancelled, fs) = copy_loop (aw_temp_path w) contents 0 cancelled fs;
                        (stop, cancelled) = (if success then poll cancelled else (True, cancelled))
                    in if stop then (False, 0, cancelled, close_writer w fs)
                       else let (ok, w, fs) = commit_writer w fs
                            in (ok, if ok then total_bytes else 0, cancelled, close_writer w fs)))"

section \<open>What a full write leaves behind\<close>

lemma write_whole_cases:
  assumes "write_whole p d fs = (ok, fs')" "\<not> is_sync_temp_name (path_filename p)"
  shows "if ok then replaced fs p d fs' else untouched fs p fs'"
proof -
  obtain w fs1 where o1: "open_writer p fs = (w, fs1)" by fastforce
  note ow = open_writer_cases [OF o1]
  show ?thesis
  proof (cases "aw_open w")
    case False
    with assms(1) o1 ow show ?thesis by (auto simp: write_whole_def)
  next
    case True
    obtain ok1 fs2 where l: "write_loop (aw_temp_path w) d fs1 = (ok1, fs2)" by fastforce
    obtain ok2 w2 fs3 where c: "commit_writer w fs2 = (ok2, w2, fs3)" by (metis surj_pair)
    from True ow have ow: "temp_for p (aw_temp_path w)" "staged fs (aw_temp_path w) [] fs1" by auto
    from write_loop_staged [OF l ow(2)] obtain d' where
      d': "staged fs (aw_temp_path w) d' fs2" "ok1 \<longrightarrow> d' = d" by auto
    show ?thesis
    proof (cases ok1)
      case False
      with assms(1) o1 True l writer_abandoned [OF o1 True d'(1) ow(1) assms(2) refl]
      show ?thesis by (auto simp: write_whole_def)
    next
      case ok1: True
      with d' have "staged fs (aw_temp_path w) d fs2" by simp
      from writer_finished [OF o1 True this c assms(2)] assms(1) o1 True l ok1 c
      show ?thesis by (auto simp: write_whole_def split: if_splits)
    qed
  qed
qed

lemma copy_write_staged:
  assumes "copy_write temp buf c fs = (ok, c', fs')" "staged fs0 temp d fs"
  shows "\<exists>d'. staged fs0 temp d' fs' \<and> (ok \<and> c' \<noteq> Some 0 \<longrightarrow> d' = d @ buf)"
  using assms
proof (induction temp buf c fs arbitrary: d rule: copy_write.induct)
  case (1 temp buf c fs)
  obtain stop c1 where p: "poll c = (stop, c1)" by fastforce
  obtain r fs1 where w: "sys_write temp buf fs = (r, fs1)" by fastforce
  note st = sys_write_staged [OF w 1(4)]
  consider "buf = []" | "buf \<noteq> []" "stop" | "buf \<noteq> []" "\<not> stop" by blast
  then show ?case
  proof cases
    case 1
    with \<open>copy_write temp buf c fs = (ok, c', fs')\<close> \<open>staged fs0 temp d fs\<close>
    show ?thesis by (subst (asm) copy_write.simps) auto
  next
    case 2
    with p have "c1 = Some 0" by (simp add: poll_sticky)
    with 2 1(3,4) p show ?thesis by (subst (asm) copy_write.simps) auto
  next
    case 3
    show ?thesis
    proof (cases r)
      case (Inl e)
      show ?thesis
      proof (cases "e = EINTR")
        case True
        have "copy_write temp buf c1 fs1 = (ok, c', fs')"
          using 1(3) 3 p w Inl True by (subst (asm) copy_write.simps) simp
        with 1(1) [OF 3(1) p [symmetric] refl 3(2) w [symmetric] refl Inl True] st Inl show ?thesis by auto
      next
        case e: False
        with 1(3) 3 p w Inl st show ?thesis by (subst (asm) copy_write.simps) auto
      qed
    next
      case (Inr n)
      show ?thesis
      proof (cases "n = 0")
        case True
        with 1(3) 3 p w Inr st show ?thesis by (subst (asm) copy_write.simps) auto
      next
        case n: False
        have "copy_write temp (drop n buf) c1 fs1 = (ok, c', fs')"
          using 1(3) 3 p w Inr n by (subst (asm) copy_write.simps) simp
        with 1(2) [OF 3(1) p [symmetric] refl 3(2) w [symmetric] refl Inr n, where d = "d @ take n buf"] st Inr
        show ?thesis by auto
      qed
    qed
  qed
qed

lemma copy_loop_staged:
  assumes "copy_loop temp rest n c fs = (ok, n', c', fs')" "staged fs0 temp d fs"
  shows "\<exists>d'. staged fs0 temp d' fs' \<and> (ok \<and> c' \<noteq> Some 0 \<longrightarrow> d' = d @ rest \<and> n' = n + length rest)"
  using assms
proof (induction temp rest n c fs arbitrary: d rule: copy_loop.induct)
  case (1 temp rest n c fs)
  obtain stop c1 where p: "poll c = (stop, c1)" by fastforce
  obtain r fs1 where w: "sys_read COPY_BUFFER_SIZE rest fs = (r, fs1)" by fastforce
  note st = staged_cong [OF sys_read_nodes [OF w] 1(4)]
  show ?case
  proof (cases stop)
    case True
    with p have "c1 = Some 0" by (simp add: poll_sticky)
    with True 1(3,4) p show ?thesis by (subst (asm) copy_loop.simps) auto
  next
    case ns: False
    show ?thesis
    proof (cases r)
      case (Inl e)
      show ?thesis
      proof (cases "e = EINTR")
        case True
        have "copy_loop temp rest n c1 fs1 = (ok, n', c', fs')"
          using 1(3) ns p w Inl True by (subst (asm) copy_loop.simps) simp
        with 1(1) [OF p [symmetric] refl ns w [symmetric] refl Inl True] st show ?thesis by auto
      next
        case e: False
        with 1(3) ns p w Inl st show ?thesis by (subst (asm) copy_loop.simps) auto
      qed
    next
      case (Inr b)
      note b = sys_read_data [OF w [unfolded Inr]]
      show ?thesis
      proof (cases "b = []")
        case True
        have "rest = []" using w Inr True
          by (auto simp: sys_read_def COPY_BUFFER_SIZE_def split: prod.splits sum.splits option.splits)
        with True 1(3) ns p w Inr st show ?thesis by (subst (asm) copy_loop.simps) auto
      next
        case ne: False
        obtain ok1 c2 fs2 where cw: "copy_write temp b c1 fs1 = (ok1, c2, fs2)" by (metis surj_pair)
        from copy_write_staged [OF cw st] obtain d1 where
          d1: "staged fs0 temp d1 fs2" "ok1 \<and> c2 \<noteq> Some 0 \<longrightarrow> d1 = d @ b" by blast
        show ?thesis
        proof (cases ok1)
          case False
          with 1(3) ns p w Inr ne cw d1 show ?thesis by (subst (asm) copy_loop.simps) auto
        next
          case True
          have go: "copy_loop temp (drop (length b) rest) (n + length b) c2 fs2 = (ok, n', c', fs')"
            using 1(3) ns p w Inr ne cw True by (subst (asm) copy_loop.simps) simp
          have IH: "\<exists>d'. staged fs0 temp d' fs' \<and> (ok \<and> c' \<noteq> Some 0 \<longrightarrow>
              d' = d1 @ drop (length b) rest \<and> n' = n + length b + length (drop (length b) rest))"
            using 1(2) [OF p [symmetric] refl ns w [symmetric] refl Inr ne cw [symmetric] refl, where d = d1] go d1(1) True by simp
          show ?thesis
          proof (cases "c2 = Some 0")
            case True
            with go have "c' = Some 0" by (subst (asm) copy_loop.simps) auto
            with IH show ?thesis by blast
          next
            case False
            with d1 True have "d1 = d @ b" by simp
            moreover have "b @ drop (length b) rest = rest" using b by (metis append_take_drop_id)
            moreover have "length b + length (drop (length b) rest) = length rest"
              by (metis calculation(2) length_append)
            ultimately show ?thesis using IH by (metis add.assoc append.assoc)
          qed
        qed
      qed
    qed
  qed
qed

text \<open>Only directories on the way to the target appear, and nothing that was there changes.\<close>

definition dirs_added :: "string list \<Rightarrow> local_fs \<Rightarrow> local_fs \<Rightarrow> bool" where
  "dirs_added ps fs0 fs \<longleftrightarrow>
     (\<forall>q. lf_nodes fs q = lf_nodes fs0 q \<or> lf_nodes fs0 q = None \<and> lf_nodes fs q = Some Dir \<and> q \<in> set ps)"

lemma dirs_added_refl: "lf_nodes fs = lf_nodes fs0 \<Longrightarrow> dirs_added ps fs0 fs"
  by (simp add: dirs_added_def)

lemma dirs_added_file: "dirs_added ps fs0 fs \<Longrightarrow> lf_nodes fs q = Some (File i) \<Longrightarrow> lf_nodes fs0 q = Some (File i)"
  unfolding dirs_added_def by (metis node.distinct(3) option.inject)

lemma make_dirs_cases: "make_dirs ps fs = (e, fs') \<Longrightarrow> dirs_added ps fs fs'"
proof (induction ps arbitrary: fs)
  case Nil
  then show ?case by (simp add: dirs_added_refl)
next
  case (Cons p ps)
  obtain r fs1 where c: "sys_call fs = (r, fs1)" by fastforce
  note n = sys_call_nodes [OF c]
  have sub: "dirs_added (p # ps) fs fs''" if "dirs_added ps fs fs''" for fs''
    using that by (auto simp: dirs_added_def)
  show ?case
  proof (cases "resolve_node fs p")
    case (Some m)
    with Cons sub show ?thesis by (cases m) (auto simp: dirs_added_refl)
  next
    case None
    show ?thesis
    proof (cases r)
      case (Inl e')
      with Cons.prems None c n show ?thesis by (simp add: dirs_added_refl)
    next
      case (Inr m)
      show ?thesis
      proof (cases "lf_nodes fs1 p = None")
        case True
        with Cons.prems None c Inr have "make_dirs ps (set_node p (Some Dir) fs1) = (e, fs')" by simp
        from Cons.IH [OF this] have d: "dirs_added ps (set_node p (Some Dir) fs1) fs'" .
        show ?thesis
          unfolding dirs_added_def
        proof (intro allI)
          fix q
          from d have "lf_nodes fs' q = ((lf_nodes fs)(p \<mapsto> Dir)) q \<or>
              ((lf_nodes fs)(p \<mapsto> Dir)) q = None \<and> lf_nodes fs' q = Some Dir \<and> q \<in> set ps"
            unfolding dirs_added_def by (simp add: set_node_def n)
          with True n show "lf_nodes fs' q = lf_nodes fs q \<or>
              lf_nodes fs q = None \<and> lf_nodes fs' q = Some Dir \<and> q \<in> set (p # ps)"
            by (cases "q = p") auto
        qed
      next
        case False
        with Cons.prems None c Inr have "fs' = fs1" by simp
        with n show ?thesis by (simp add: dirs_added_refl)
      qed
    qed
  qed
qed

lemma sys_open_read_cases:
  "sys_open_read p fs = (src, fs') \<Longrightarrow> lf_nodes fs' = lf_nodes fs \<and>
     (case src of None \<Rightarrow> True | Some d \<Rightarrow> \<exists>i. lf_nodes fs p = Some (File i) \<and> in_data i = d)"
  by (auto simp: sys_open_read_def dest: sys_call_nodes split: prod.splits sum.splits option.splits node.splits)

lemma copy_local_file_cases:
  assumes "copy_local_file canon pexists sb db rel c fs = (ok, n, c', fs')"
    and "\<not> is_sync_temp_name (path_filename (path_append db rel))"
  shows "\<exists>fs1. dirs_added (ancestors (parent_path (path_append db rel))) fs fs1 \<and>
     (if ok then \<exists>i. lf_nodes fs (path_append sb rel) = Some (File i) \<and>
                   replaced fs1 (path_append db rel) (in_data i) fs' \<and> n = length (in_data i)
      else untouched fs1 (path_append db rel) fs' \<and> n = 0)"
proof -
  let ?s = "path_append sb rel" and ?t = "path_append db rel"
  let ?anc = "ancestors (parent_path ?t)"
  obtain stop c1 where p: "poll c = (stop, c1)" by fastforce
  obtain e fs1 where m: "(if parent_path ?t = [] then (None, fs) else make_dirs ?anc fs) = (e, fs1)" by fastforce
  have d1: "dirs_added ?anc fs fs1"
    using m make_dirs_cases [of ?anc fs e fs1] by (auto simp: dirs_added_refl split: if_splits)
  obtain src fs2 where r: "sys_open_read ?s fs1 = (src, fs2)" by fastforce
  note src = sys_open_read_cases [OF r]
  obtain w fs3 where o3: "open_writer ?t fs2 = (w, fs3)" by fastforce
  note ow = open_writer_cases [OF o3]
  let ?bad = "\<not> validate_relative_path rel \<or> \<not> validate_target_within_base sb ?s \<or>
              \<not> validate_target_within_base db ?t \<or> \<not> validate_target_resolves_within_base canon pexists db ?t"
  note def = assms(1) [unfolded copy_local_file_def Let_def p prod.case m r o3]
  consider (early) "stop \<or> ?bad" | (failed) "\<not> (stop \<or> ?bad)" "e \<noteq> None \<or> src = None"
    | (go) contents where "\<not> (stop \<or> ?bad)" "e = None" "src = Some contents" by (cases src) auto
  then show ?thesis
  proof cases
    case early
    have "ok = False \<and> n = 0 \<and> fs' = fs"
    proof (cases stop)
      case False
      with early have bad: ?bad by blast
      from def [unfolded if_not_P [OF False] if_P [OF bad]] show ?thesis by simp
    qed (use def in simp)
    then show ?thesis by (intro exI [of _ fs]) (simp add: dirs_added_refl)
  next
    case failed
    then have ns: "\<not> stop" and nb: "\<not> ?bad" by blast+
    have "ok = False \<and> n = 0 \<and> (fs' = fs1 \<or> fs' = fs2)"
      using def [unfolded if_not_P [OF ns] if_not_P [OF nb]] failed(2) by (cases e; cases src) auto
    with d1 src show ?thesis by (intro exI [of _ fs1]) auto
  next
    case go
    then have ns: "\<not> stop" and nb: "\<not> ?bad" by blast+
    have e0: "\<not> e \<noteq> None" using go by simp
    note def2 = def [unfolded if_not_P [OF ns] if_not_P [OF nb] if_not_P [OF e0] go(3) option.case]
    have from2: "untouched fs1 ?t x" if "untouched fs2 ?t x" for x
      using that src by (auto simp: untouched_def staged_def)
    show ?thesis
    proof (cases "aw_open w")
      case False
      with def2 ow have "ok = False \<and> n = 0 \<and> lf_nodes fs' = lf_nodes fs2" by auto
      with d1 src show ?thesis by (intro exI [of _ fs1]) auto
    next
      case True
      with ow have st: "temp_for ?t (aw_temp_path w)" "staged fs2 (aw_temp_path w) [] fs3" by auto
      obtain ok1 n1 c2 fs4 where l: "copy_loop (aw_temp_path w) contents 0 c1 fs3 = (ok1, n1, c2, fs4)"
        by (metis surj_pair)
      obtain stop2 c3 where q: "(if ok1 then poll c2 else (True, c2)) = (stop2, c3)" by fastforce
      obtain ok2 w2 fs5 where cm: "commit_writer w fs4 = (ok2, w2, fs5)" by (metis surj_pair)
      from copy_loop_staged [OF l st(2)] obtain d' where
        d': "staged fs2 (aw_temp_path w) d' fs4" "ok1 \<and> c2 \<noteq> Some 0 \<longrightarrow> d' = contents \<and> n1 = length contents"
        by auto
      show ?thesis
      proof (cases stop2)
        case stop2: True
        then have "ok = False \<and> n = 0 \<and> fs' = close_writer w fs4"
          using def2 True l q by simp
        with writer_abandoned [OF o3 True d'(1) st(1) assms(2) refl] from2 d1 show ?thesis
          by (intro exI [of _ fs1]) auto
      next
        case False
        with q have "ok1" "c2 \<noteq> Some 0" by (auto split: if_splits)
        with d' have d'': "staged fs2 (aw_temp_path w) contents fs4" "n1 = length contents" by auto
        from False have res: "ok = ok2 \<and> n = (if ok2 then n1 else 0) \<and> fs' = close_writer w2 fs5"
          using def2 True l q cm by auto
        from go src obtain i where i: "lf_nodes fs1 ?s = Some (File i)" "in_data i = contents" by auto
        have "replaced fs1 ?t contents x" if "replaced fs2 ?t contents x" for x
          using that src by (auto simp: replaced_def)
        with writer_finished [OF o3 True d''(1) cm assms(2)] res d'' from2 d1 i dirs_added_file [OF d1 i(1)]
        show ?thesis by (intro exI [of _ fs1]) auto
      qed
    qed
  qed
qed

section \<open>Runs in which no call fails\<close>

definition quiet :: "local_fs \<Rightarrow> bool" where
  "quiet fs \<longleftrightarrow> lf_alive fs \<and> lf_script fs = []"

lemma sys_call_quiet [simp]: "quiet fs \<Longrightarrow> sys_call fs = (Inr None, fs)"
  by (simp add: quiet_def sys_call_def)

lemma quiet_set_node [simp]: "quiet (set_node p n fs) = quiet fs" "quiet (fs\<lparr>lf_counter := k\<rparr>) = quiet fs"
  by (simp_all add: quiet_def set_node_def)

lemma set_node_sel [simp]:
  "lf_nodes (set_node p n fs) = (lf_nodes fs)(p := n)" "lf_umask (set_node p n fs) = lf_umask fs"
  "lf_owner (set_node p n fs) = lf_owner fs" "lf_now (set_node p n fs) = lf_now fs"
  by (simp_all add: set_node_def)

lemma write_loop_quiet:
  assumes "quiet fs" "lf_nodes fs t = Some (File i)" "in_mtime i = lf_now fs"
  shows "write_loop t d fs = (True, set_node t (Some (File (i\<lparr>in_data := in_data i @ d\<rparr>))) fs)"
proof (cases "d = []")
  case True
  then show ?thesis using assms by (subst write_loop.simps) (simp add: set_node_def fun_upd_idem)
next
  case False
  have "sys_write t d fs = (Inr (length d), set_node t (Some (File (i\<lparr>in_data := in_data i @ d\<rparr>))) fs)"
    using assms by (cases i) (simp add: sys_write_def update_file_def)
  with False show ?thesis by (subst write_loop.simps) (simp add: write_loop.simps [of t "[]"])
qed

definition first_temp :: "string \<Rightarrow> local_fs \<Rightarrow> string" where
  "first_temp p fs = fst (next_temp_path p fs)"

lemma open_writer_quiet:
  assumes "quiet fs" "lf_nodes fs p = Some (File i0)" "lf_nodes fs (first_temp p fs) = None"
  shows "open_writer p fs =
     (\<lparr>aw_target = p, aw_temp_path = first_temp p fs, aw_open = True, aw_committed = False,
       aw_has_existing_mode = True, aw_existing_mode = (in_mode i0 AND 0xFFF) AND NOT setid_bits,
       aw_existing_owner = in_owner i0\<rparr>,
      set_node (first_temp p fs) (Some (File (new_inode 0x180 fs))) (snd (next_temp_path p fs)))"
proof -
  obtain t fs1 where n: "next_temp_path p fs = (t, fs1)" by fastforce
  have t: "first_temp p fs = t" by (simp add: first_temp_def n)
  have fs1: "quiet fs1" "lf_nodes fs1 = lf_nodes fs" "lf_umask fs1 = lf_umask fs" "lf_owner fs1 = lf_owner fs" "lf_now fs1 = lf_now fs"
    using n assms(1) by (auto simp: next_temp_path_def)
  have o1: "sys_open_excl t 0x180 fs1 = (None, set_node t (Some (File (new_inode 0x180 fs))) fs1)"
    using fs1 assms(3) t by (simp add: sys_open_excl_def new_inode_def)
  have "temp_attempts 8 0x180 p fs = (Some t, set_node t (Some (File (new_inode 0x180 fs))) fs1)"
    using n o1 by (simp add: numeral_eq_Suc)
  then show ?thesis
    using assms(1,2) t n
    by (simp add: open_writer_def sys_lstat_def sys_stat_file_def create_temp_def closed_writer_def
        del: temp_attempts.simps)
qed

lemma sys_plain_quiet [simp]: "quiet fs \<Longrightarrow> sys_plain f fs = (None, f fs)"
  by (simp add: sys_plain_def)

lemma write_whole_quiet:
  assumes "quiet fs" "lf_nodes fs p = Some (File i0)" "lf_nodes fs (first_temp p fs) = None"
  shows "\<exists>fs'. write_whole p d fs = (True, fs') \<and> lf_nodes fs' = (lf_nodes fs)(p \<mapsto>
           File \<lparr>in_data = d, in_mode = (in_mode i0 AND 0xFFF) AND NOT setid_bits,
                 in_owner = in_owner i0, in_mtime = lf_now fs\<rparr>)"
proof -
  let ?t = "first_temp p fs" and ?m = "(in_mode i0 AND 0xFFF) AND NOT setid_bits"
  define fs1 where "fs1 = snd (next_temp_path p fs)"
  have q1: "quiet fs1" "lf_nodes fs1 = lf_nodes fs" "lf_now fs1 = lf_now fs"
    using assms(1) by (auto simp: fs1_def next_temp_path_def)
  have ne: "?t \<noteq> p" using assms(2,3) by auto
  note ow = open_writer_quiet [OF assms, folded fs1_def]
  define fs2 where "fs2 = set_node ?t (Some (File (new_inode 0x180 fs))) fs1"
  define i2 where "i2 = (new_inode 0x180 fs)\<lparr>in_data := d\<rparr>"
  have wl: "write_loop ?t d fs2 = (True, set_node ?t (Some (File i2)) fs2)"
    using write_loop_quiet [of fs2 ?t "new_inode 0x180 fs" d] q1 by (simp add: fs2_def i2_def new_inode_def)
  define fs3 where "fs3 = set_node ?t (Some (File i2)) fs2"
  have q3: "quiet fs3" "lf_nodes fs3 = (lf_nodes fs)(?t \<mapsto> File i2)" using q1 by (simp_all add: fs3_def fs2_def)
  define w where "w = \<lparr>aw_target = p, aw_temp_path = ?t, aw_open = True, aw_committed = False,
       aw_has_existing_mode = True, aw_existing_mode = ?m, aw_existing_owner = in_owner i0\<rparr>"
  define i4 where "i4 = i2\<lparr>in_mode := ?m, in_owner := in_owner i0\<rparr>"
  define fs4 where "fs4 = restore_mode w fs3"
  have q4: "quiet fs4" "lf_nodes fs4 = (lf_nodes fs)(?t \<mapsto> File i4)"
    using q3 by (simp_all add: fs4_def restore_mode_def w_def sys_fchmod_def sys_fchown_def update_file_def i4_def)
  define fs5 where "fs5 = set_node p (Some (File i4)) (set_node ?t None fs4)"
  have q5: "quiet fs5" "lf_nodes fs5 = (lf_nodes fs)(p \<mapsto> File i4)"
    using q4 assms(3) ne by (simp_all add: fs5_def fun_upd_idem)
  have rn: "sys_rename ?t p fs4 = (None, fs5)"
    using q4 ne assms(2) by (simp add: sys_rename_def fs5_def)
  have "commit_writer w fs3 = (True, w\<lparr>aw_open := False, aw_committed := True\<rparr>, flush_directory fs5)"
    using q4 rn by (simp add: commit_writer_def Let_def fs4_def [symmetric] sys_noop_def) (simp add: w_def)
  then have "write_whole p d fs = (True, close_writer (w\<lparr>aw_open := False, aw_committed := True\<rparr>) (flush_directory fs5))"
    using wl ow by (simp add: write_whole_def fs2_def [symmetric] fs3_def [symmetric] w_def)
  moreover have "i4 = \<lparr>in_data = d, in_mode = ?m, in_owner = in_owner i0, in_mtime = lf_now fs\<rparr>"
    by (simp add: i4_def i2_def new_inode_def)
  ultimately show ?thesis using q5 by simp
qed

section \<open>Properties\<close>


text \<open>A directory with one file, and a script in which the disk fills up and the process is then killed.\<close>

definition small_fs :: "fate list \<Rightarrow> local_fs" where
  "small_fs script = \<lparr>lf_nodes = [''d'' \<mapsto> Dir, ''d/x'' \<mapsto>
       File \<lparr>in_data = [1, 2], in_mode = 0x1ED, in_owner = (7, 7), in_mtime = 5\<rparr>],
     lf_script = script, lf_alive = True, lf_now = 9, lf_umask = 0x12, lf_owner = (1, 1), lf_pid = 4711,
     lf_counter = 0\<rparr>"

lemma small_fs_quiet: "quiet (small_fs [])"
  by (simp add: quiet_def small_fs_def)

lemma d_x_not_temp: "\<not> is_sync_temp_name (path_filename (path_append ''d'' ''x''))"
  by code_simp

lemma d_x_ok: "target_ok Some (\<lambda>_. True) ''d'' ''x''"
  by code_simp


text \<open>
  With no failing call, a full write of an existing file succeeds and keeps its owner and its
  permissions but for the set-user and set-group bits.
\<close>

theorem update_keeps_permissions:
  assumes "quiet fs" "target_ok canon pexists base rel" "lf_nodes fs (path_append base rel) = Some (File i)"
    and "lf_nodes fs (first_temp (path_append base rel) fs) = None"
  shows "\<exists>fs'. download_from_data canon pexists base rel data fs = (True, length data, fs') \<and>
     lf_nodes fs' = (lf_nodes fs)(path_append base rel \<mapsto>
       File \<lparr>in_data = data, in_mode = (in_mode i AND 0xFFF) AND NOT setid_bits,
             in_owner = in_owner i, in_mtime = lf_now fs\<rparr>)"
  using write_whole_quiet [OF assms(1,3,4), of data] assms(2) by (auto simp: download_from_data_def)

theorem update_keeps_permissions_witness:
  "\<exists>fs'. download_from_data Some (\<lambda>_. True) ''d'' ''x'' [3] (small_fs []) = (True, length ([3] :: byte list), fs') \<and>
     lf_nodes fs' = (lf_nodes (small_fs []))(path_append ''d'' ''x'' \<mapsto>
       File \<lparr>in_data = [3], in_mode = (0x1ED AND 0xFFF) AND NOT setid_bits, in_owner = (7, 7), in_mtime = lf_now (small_fs [])\<rparr>)"
proof -
  define i where "i = \<lparr>in_data = [1, 2], in_mode = 0x1ED, in_owner = (7, 7), in_mtime = 5\<rparr>"
  have p: "path_append ''d'' ''x'' = ''d/x''" by code_simp
  have n: "lf_nodes (small_fs []) = [''d'' \<mapsto> Dir, ''d/x'' \<mapsto> File i]" by (simp add: small_fs_def i_def)
  have at: "lf_nodes (small_fs []) (path_append ''d'' ''x'') = Some (File i)" unfolding p n by simp
  have "temp_for (path_append ''d'' ''x'') (first_temp (path_append ''d'' ''x'') (small_fs []))"
    using next_temp_path_temp_for [OF prod.collapse [symmetric]] unfolding first_temp_def .
  then have tmp: "is_sync_temp_name (path_filename (first_temp (path_append ''d'' ''x'') (small_fs [])))"
    unfolding temp_for_def by (metis is_sync_temp_name_def length_0_conv not_less_zero path_filename_append)
  have "\<not> is_sync_temp_name (path_filename ''d'')" "\<not> is_sync_temp_name (path_filename ''d/x'')" by code_simp+
  with tmp have "first_temp (path_append ''d'' ''x'') (small_fs []) \<noteq> ''d''"
    "first_temp (path_append ''d'' ''x'') (small_fs []) \<noteq> ''d/x''" by metis+
  then have free: "lf_nodes (small_fs []) (first_temp (path_append ''d'' ''x'') (small_fs [])) = None"
    unfolding n by (simp only: fun_upd_apply if_False)
  have i: "in_mode i = 0x1ED" "in_owner i = (7, 7)" by (simp_all add: i_def)
  show ?thesis by (rule update_keeps_permissions [OF small_fs_quiet d_x_ok at free, of "[3]", unfolded i])
qed

lemma download_attempts_cases:
  assumes "object_store client objects" "0 < s3_size" "\<not> is_sync_temp_name (path_filename p)"
    and "download_attempts k client b key s3_size p c fs s = (ok, n, c', fs', s')"
  shows "objects s' = objects s \<and>
     (if ok then \<exists>d. objects s (b, key) = Some d \<and> s3_size \<le> int (length d) \<and>
                   replaced fs p (take (nat s3_size) d) fs' \<and> n = nat s3_size
      else untouched fs p fs' \<and> n = 0)"
  using assms(4)
proof (induction k arbitrary: c s)
  case (Suc k)
  obtain stop c1 where p: "poll c = (stop, c1)" by fastforce
  obtain data s1 where r: "GetObjectRange client b key 0 (s3_size - 1) s = (data, s1)" by fastforce
  note reads = object_store.range_reads [OF assms(1) r]
  show ?case
  proof (cases "stop \<or> length data \<noteq> nat s3_size")
    case True
    show ?thesis
    proof (cases stop)
      case True
      with Suc.prems p show ?thesis by auto
    next
      case False
      with True Suc.prems p r have "download_attempts k client b key s3_size p c1 fs s1 = (ok, n, c', fs', s')" by simp
      from Suc.IH [OF this, unfolded reads] show ?thesis .
    qed
  next
    case False
    then have ns: "\<not> stop" and len: "length data = nat s3_size" by auto
    then have "data \<noteq> []" using assms(2) by auto
    from object_store.range_value [OF assms(1) r this] obtain d where
      d: "objects s (b, key) = Some d" "s3_size - 1 < int (length d)" "data = take (nat s3_size) d"
      by (auto simp: slice_def)
    obtain ok1 fs1 where w: "write_whole p data fs = (ok1, fs1)" by fastforce
    have "ok = ok1 \<and> fs' = fs1 \<and> s' = s1 \<and> n = (if ok1 then length data else 0)"
      using Suc.prems p r ns len w by auto
    with write_whole_cases [OF w assms(3)] d reads len show ?thesis by auto
  qed
qed auto

lemma download_small_file_cases:
  assumes "object_store client objects" "0 < s3_size"
    and "\<not> is_sync_temp_name (path_filename (path_append base rel))"
  shows "case download_small_file canon pexists client base rel b pre s3_size c fs s of (ok, n, c', fs', s') \<Rightarrow>
     objects s' = objects s \<and>
     (if ok then \<exists>d. objects s (b, object_key pre rel) = Some d \<and> s3_size \<le> int (length d) \<and>
                   replaced fs (path_append base rel) (take (nat s3_size) d) fs' \<and> n = nat s3_size
      else untouched fs (path_append base rel) fs' \<and> n = 0)"
proof (cases "target_ok canon pexists base rel")
  case True
  obtain ok n c' fs' s' where r: "download_attempts (MAX_RETRIES + 1) client b (object_key pre rel) s3_size
      (path_append base rel) c fs s = (ok, n, c', fs', s')" by (metis surj_pair)
  with True assms(2) have "download_small_file canon pexists client base rel b pre s3_size c fs s = (ok, n, c', fs', s')"
    by (simp add: download_small_file_def Let_def)
  with download_attempts_cases [OF assms r] show ?thesis by simp
next
  case False
  with assms(2) show ?thesis by (simp add: download_small_file_def Let_def)
qed

text \<open>
  a download of a non-empty object that reports success has put the first bytes of the object, as
  many as were announced, into the target and counted them; one that reports failure has left the
  target as it was; and a download never changes the store.
\<close>

theorem download_small_file_exact:
  assumes "object_store client objects" "0 < s3_size"
    and "\<not> is_sync_temp_name (path_filename (path_append base rel))"
  shows "case download_small_file canon pexists client base rel b pre s3_size c fs s of (ok, n, c', fs', s') \<Rightarrow>
     objects s' = objects s \<and>
     (if ok then \<exists>d. objects s (b, object_key pre rel) = Some d \<and> s3_size \<le> int (length d) \<and>
                   replaced fs (path_append base rel) (take (nat s3_size) d) fs' \<and> n = nat s3_size
      else untouched fs (path_append base rel) fs' \<and> n = 0)"
  by (rule download_small_file_cases [OF assms])

definition store_with_x :: mock where
  "store_with_x = snd (mock_PutObject ''b'' ''p/x'' [3, 4, 5] (snd (mock_CreateBucket ''b'' empty_mock)))"

theorem download_small_file_exact_witness:
  "case download_small_file Some (\<lambda>_. True) (mock_client ieee_crc32 (\<lambda>_. [])) ''d'' ''x'' ''b'' ''p'' 3 None
      (small_fs []) store_with_x of (ok, n, c', fs', s') \<Rightarrow>
     mock_objects_view s' = mock_objects_view store_with_x \<and>
     (if ok then \<exists>d. mock_objects_view store_with_x (''b'', object_key ''p'' ''x'') = Some d \<and> 3 \<le> int (length d) \<and>
                   replaced (small_fs []) (path_append ''d'' ''x'') (take (nat 3) d) fs' \<and> n = nat 3
      else untouched (small_fs []) (path_append ''d'' ''x'') fs' \<and> n = 0)"
  by (rule download_small_file_exact [OF mock_store.object_store_axioms _ d_x_not_temp]) simp

text \<open>
  C11: a local copy is atomic in the same sense: it reports success exactly when the target holds all the
  bytes of the source; a failure, a cancellation or a crash leaves the target as it was, with
  nothing added but directories on the way to it and one temporary file.
\<close>

theorem copy_local_file_atomic:
  assumes "\<not> is_sync_temp_name (path_filename (path_append dest rel))"
  shows "case copy_local_file canon pexists src dest rel c fs of (ok, n, c', fs') \<Rightarrow> \<exists>fs1. dirs_added (ancestors (parent_path (path_append dest rel))) fs fs1 \<and>
     (if ok then \<exists>i. lf_nodes fs (path_append src rel) = Some (File i) \<and>
                   replaced fs1 (path_append dest rel) (in_data i) fs' \<and> n = length (in_data i)
      else untouched fs1 (path_append dest rel) fs' \<and> n = 0)"
proof -
  obtain ok n c' fs' where r: "copy_local_file canon pexists src dest rel c fs = (ok, n, c', fs')" by (metis surj_pair)
  from copy_local_file_cases [OF r assms] show ?thesis unfolding r prod.case .
qed

theorem copy_local_file_atomic_witness:
  "case copy_local_file Some (\<lambda>_. True) ''d'' ''d'' ''x'' (Some 3) (small_fs [Goes]) of (ok, n, c', fs') \<Rightarrow>
     \<exists>fs1. dirs_added (ancestors (parent_path (path_append ''d'' ''x''))) (small_fs [Goes]) fs1 \<and>
     (if ok then \<exists>i. lf_nodes (small_fs [Goes]) (path_append ''d'' ''x'') = Some (File i) \<and>
                   replaced fs1 (path_append ''d'' ''x'') (in_data i) fs' \<and> n = length (in_data i)
      else untouched fs1 (path_append ''d'' ''x'') fs' \<and> n = 0)"
  by (rule copy_local_file_atomic [OF d_x_not_temp])

text \<open>
  The download of an empty object does not give that guarantee: it truncates what the target names
  through a symbolic link, wherever the link leads, and reports success.  A download of the same
  name with contents refuses the link.
\<close>

theorem empty_download_follows_link:
  assumes "quiet fs" "target_ok canon pexists base rel"
    and "lf_nodes fs (path_append base rel) = Some (Symlink t)" "lf_nodes fs t = Some (File i)"
  shows "(case download_small_file canon pexists client base rel b pre 0 c fs s of
            (ok, n, c', fs', s') \<Rightarrow> ok \<and>
              lf_nodes fs' = (lf_nodes fs)(t \<mapsto> File (i\<lparr>in_data := [], in_mtime := lf_now fs\<rparr>))) \<and>
         download_from_data canon pexists base rel data fs = (False, 0, fs)"
  using assms
  by (simp add: download_small_file_def download_from_data_def resolve_node_def sys_open_trunc_def
      truncate_at_def write_whole_def open_writer_def sys_lstat_def closed_writer_def close_writer_def)

definition linked_fs :: local_fs where
  "linked_fs = (small_fs [])\<lparr>lf_nodes := [''d'' \<mapsto> Dir, ''d/x'' \<mapsto> Symlink ''/etc/x'', ''/etc/x'' \<mapsto>
       File \<lparr>in_data = [1, 2], in_mode = 0x1A4, in_owner = (0, 0), in_mtime = 5\<rparr>]\<rparr>"

theorem empty_download_follows_link_witness:
  "(case download_small_file Some (\<lambda>_. True) (mock_client ieee_crc32 (\<lambda>_. [])) ''d'' ''x'' ''b'' ''p'' 0 None
      linked_fs store_with_x of (ok, n, c', fs', s') \<Rightarrow> ok \<and>
      lf_nodes fs' = (lf_nodes linked_fs)(''/etc/x'' \<mapsto>
        File (\<lparr>in_data = [1, 2], in_mode = 0x1A4, in_owner = (0, 0), in_mtime = 5\<rparr>\<lparr>in_data := [], in_mtime := lf_now linked_fs\<rparr>))) \<and>
   download_from_data Some (\<lambda>_. True) ''d'' ''x'' [3] linked_fs = (False, 0, linked_fs)"
proof -
  have q: "quiet linked_fs" by (simp add: linked_fs_def quiet_def small_fs_def)
  have p: "path_append ''d'' ''x'' = ''d/x''" by code_simp
  have l: "lf_nodes linked_fs (path_append ''d'' ''x'') = Some (Symlink ''/etc/x'')"
    unfolding p by (simp add: linked_fs_def)
  show ?thesis
    by (rule empty_download_follows_link [OF q d_x_ok l]) (simp add: linked_fs_def)
qed

text \<open>
  C6: the requests that change the store change one key of it.  An upload or a server-side copy that
  reports success has put exactly the bytes there and a deletion has removed the object; one that
  reports failure may have been applied or not; no other object changes in either case.
\<close>

definition written_as :: "store_view \<Rightarrow> string \<times> string \<Rightarrow> byte list option \<Rightarrow> bool \<Rightarrow> store_view \<Rightarrow> bool" where
  "written_as v x d ok v' \<longleftrightarrow> (if ok then v' = v(x := d) else v' = v \<or> v' = v(x := d))"

lemma retry_wrote:
  assumes "retry n request c s = (ok, c', s')"
    and "\<And>c u ok c' u'. request c u = ((ok, c'), u') \<Longrightarrow> written_as v x d False (objects u) \<Longrightarrow>
           written_as v x d ok (objects u')"
    and "objects s = v"
  shows "written_as v x d ok (objects s')"
proof -
  define inv where "inv u \<longleftrightarrow> written_as v x d False (objects u)" for u
  have "if ok then inv s \<longrightarrow> written_as v x d True (objects s') else inv s \<longrightarrow> inv s'"
    by (rule retry_rule [OF assms(1), where P = "\<lambda>s s'. inv s \<longrightarrow> written_as v x d True (objects s')"
          and Q = "\<lambda>s s'. inv s \<longrightarrow> inv s'"]) (use assms(2) in \<open>auto simp: inv_def\<close>)
  moreover have "inv s" using assms(3) by (simp add: inv_def written_as_def)
  ultimately show ?thesis by (auto simp: inv_def split: if_splits)
qed

lemma plainly_eq: "plainly request c s = ((ok, c'), s') \<longleftrightarrow> request s = (ok, s') \<and> c' = c"
  by (auto simp: plainly_def split: prod.splits)

context object_store
begin

lemma put_wrote: "PutObject client b k d s = (ok, s') \<Longrightarrow> written_as v (b, k) (Some d) False (objects s) \<Longrightarrow>
    written_as v (b, k) (Some d) ok (objects s')"
  using put_ok [of b k d s s'] put_failed [of b k d s s'] by (cases ok) (auto simp: written_as_def)

lemma put_file_wrote: "PutObjectFromFile client b k p f s = (ok, s') \<Longrightarrow> written_as v (b, k) (f p) False (objects s) \<Longrightarrow>
    written_as v (b, k) (f p) ok (objects s')"
  using put_file_ok [of b k p f s s'] put_file_failed [of b k p f s s'] by (cases ok) (auto simp: written_as_def)

lemma delete_wrote: "DeleteObject client b k s = (ok, s') \<Longrightarrow> written_as v (b, k) None False (objects s) \<Longrightarrow>
    written_as v (b, k) None ok (objects s')"
  using delete_ok [of b k s s'] delete_failed [of b k s s'] by (cases ok) (auto simp: written_as_def)

lemma copy_wrote: "CopyObject client b k b' k' n c s = ((ok, c'), s') \<Longrightarrow> copy_request_ok b n (v (b, k)) \<Longrightarrow>
    written_as v (b', k') (v (b, k)) False (objects s) \<Longrightarrow> written_as v (b', k') (v (b, k)) ok (objects s')"
  using copy_ok [of b k b' k' n c s c' s'] copy_failed [of b k b' k' n c s c' s']
  by (cases ok) (auto simp: written_as_def split: if_splits)

lemma upload_from_data_wrote:
  assumes "upload_from_data client b k data c s = (ok, n, c', s')"
  shows "written_as (objects s) (b, k) (Some data) ok (objects s') \<and> n = (if ok then length data else 0)"
proof -
  obtain ok1 c1 s1 where r: "retry (MAX_RETRIES + 1) (plainly (PutObject client b k data)) c s = (ok1, c1, s1)"
    by (metis surj_pair)
  have "written_as (objects s) (b, k) (Some data) ok1 (objects s1)"
    by (rule retry_wrote [OF r _ refl]) (auto simp: plainly_eq intro: put_wrote)
  with assms r show ?thesis by (auto simp: upload_from_data_def simp del: retry.simps)
qed

lemma upload_small_file_wrote:
  assumes "upload_small_file client fs base rel b pre c s = (ok, n, c', s')"
  shows "written_as (objects s) (b, object_key pre rel) (file_contents fs (path_append base rel)) ok (objects s')"
proof -
  obtain ok1 c1 s1 where r: "retry (MAX_RETRIES + 1) (plainly (PutObjectFromFile client b (object_key pre rel)
      (path_append base rel) (file_contents fs))) c s = (ok1, c1, s1)"
    by (metis surj_pair)
  have "written_as (objects s) (b, object_key pre rel) (file_contents fs (path_append base rel)) ok1 (objects s1)"
    by (rule retry_wrote [OF r _ refl]) (auto simp: plainly_eq intro: put_file_wrote)
  with assms r show ?thesis by (auto simp: upload_small_file_def Let_def simp del: retry.simps)
qed

lemma delete_s3_object_wrote:
  assumes "delete_s3_object client b pre rel c s = (ok, c', s')"
  shows "written_as (objects s) (b, object_key pre rel) None ok (objects s')"
  by (rule retry_wrote [OF assms [unfolded delete_s3_object_def] _ refl]) (auto simp: plainly_eq intro: delete_wrote)

lemma copy_s3_object_wrote:
  assumes "copy_s3_object client sb sk db dk n c s = (ok, m, c', s')" "copy_request_ok sb n (objects s (sb, sk))"
  shows "written_as (objects s) (db, dk) (objects s (sb, sk)) ok (objects s')"
proof -
  obtain ok1 c1 s1 where r: "retry (MAX_RETRIES + 1) (\<lambda>c. CopyObject client sb sk db dk n c) c s = (ok1, c1, s1)"
    by (metis surj_pair)
  have "written_as (objects s) (db, dk) (objects s (sb, sk)) ok1 (objects s1)"
    by (rule retry_wrote [OF r _ refl]) (auto intro: copy_wrote [where v = "objects s", OF _ assms(2)])
  with assms r show ?thesis by (auto simp: copy_s3_object_def simp del: retry.simps)
qed

end

theorem store_requests_exact:
  assumes "object_store client objects" "copy_request_ok sb n (objects s (sb, sk))"
  shows "(case upload_from_data client b k data c s of (ok, n, c', s') \<Rightarrow>
            written_as (objects s) (b, k) (Some data) ok (objects s')) \<and>
         (case upload_small_file client fs base rel b pre c s of (ok, n, c', s') \<Rightarrow>
            written_as (objects s) (b, object_key pre rel) (file_contents fs (path_append base rel)) ok (objects s')) \<and>
         (case delete_s3_object client b pre rel c s of (ok, c', s') \<Rightarrow>
            written_as (objects s) (b, object_key pre rel) None ok (objects s')) \<and>
         (case copy_s3_object client sb sk b k n c s of (ok, m, c', s') \<Rightarrow>
            written_as (objects s) (b, k) (objects s (sb, sk)) ok (objects s'))"
  using object_store.upload_from_data_wrote [OF assms(1), of b k data c s]
    object_store.upload_small_file_wrote [OF assms(1), of fs base rel b pre c s]
    object_store.delete_s3_object_wrote [OF assms(1), of b pre rel c s]
    object_store.copy_s3_object_wrote [OF assms(1) _ assms(2), of b k c]
  by (auto split: prod.splits)

theorem store_requests_exact_witness:
  "(case upload_from_data (mock_client ieee_crc32 (\<lambda>_. [])) ''b'' ''k'' [1] None store_with_x of (ok, n, c', s') \<Rightarrow>
      written_as (mock_objects_view store_with_x) (''b'', ''k'') (Some [1]) ok (mock_objects_view s')) \<and>
   (case upload_small_file (mock_client ieee_crc32 (\<lambda>_. [])) (small_fs []) ''d'' ''x'' ''b'' ''p'' None store_with_x of
      (ok, n, c', s') \<Rightarrow> written_as (mock_objects_view store_with_x) (''b'', object_key ''p'' ''x'')
        (file_contents (small_fs []) (path_append ''d'' ''x'')) ok (mock_objects_view s')) \<and>
   (case delete_s3_object (mock_client ieee_crc32 (\<lambda>_. [])) ''b'' ''p'' ''x'' None store_with_x of (ok, c', s') \<Rightarrow>
      written_as (mock_objects_view store_with_x) (''b'', object_key ''p'' ''x'') None ok (mock_objects_view s')) \<and>
   (case copy_s3_object (mock_client ieee_crc32 (\<lambda>_. [])) ''b'' ''p/x'' ''b'' ''k'' 3 None store_with_x of (ok, m, c', s') \<Rightarrow>
      written_as (mock_objects_view store_with_x) (''b'', ''k'') (mock_objects_view store_with_x (''b'', ''p/x'')) ok
        (mock_objects_view s'))"
  by (rule store_requests_exact [OF mock_store.object_store_axioms])
    (simp add: copy_request_small kMaxSinglePutBytes_def)

text \<open>
  deleting a local file removes the named entry or nothing, never more, and only when the directory
  that holds it resolves to a place inside the base, whatever symbolic links lie on the way.
\<close>

theorem delete_local_file_stays_inside:
  "case delete_local_file canon pexists base rel c fs of (ok, c', fs') \<Rightarrow>
     if ok then lf_nodes fs' = (lf_nodes fs)(path_append base rel := None) \<and> validate_relative_path rel \<and>
       (case (canon base, resolve_ancestor canon (parent_path (path_append base rel))) of
          (Some b, Some d) \<Rightarrow> resolves_inside b d
        | (None, _) \<Rightarrow> \<not> pexists base
        | _ \<Rightarrow> False)
     else lf_nodes fs' = lf_nodes fs"
proof -
  obtain stop c1 where p: "poll c = (stop, c1)" by fastforce
  obtain r fs1 where sc: "sys_call fs = (r, fs1)" by fastforce
  note n = sys_call_nodes [OF sc]
  obtain e fs2 where u: "sys_unlink (path_append base rel) fs = (e, fs2)" by fastforce
  have "if e = None then lf_nodes fs2 = (lf_nodes fs)(path_append base rel := None) else lf_nodes fs2 = lf_nodes fs"
    using u sc n by (auto simp: sys_unlink_def split: sum.splits option.splits node.splits)
  then show ?thesis
    by (auto simp: delete_local_file_def p u Let_def target_ok_def validate_target_resolves_within_base_def
        split: option.splits if_splits)
qed

end
