(* ===== verification/Diff_Download.thy ===== *)
theory Diff_Download
  imports Sync_Files Comparison
begin

text \<open>
  The differential download of sync_task.cpp: \<^verbatim>\<open>diff_download_file\<close> patches in place the chunks of
  a local file whose checksums differ from the object's.  The chunks are taken in order by one
  worker.  \<open>reader d\<close> is how reads of a file with contents \<open>d\<close> are cut into pieces; a client that
  throws is not modelled.  First the definitions, then what a patch does to the bytes of the file
  (\<open>agrees\<close>, \<open>grows\<close>), what it does to the file system (\<open>file_at\<close>, \<open>patched\<close>), and the whole
  download against the contract of a store with chunk checksums.
\<close>

section \<open>Which chunks differ\<close>

definition unchanged_chunk :: "crc32 list \<Rightarrow> crc32 list \<Rightarrow> nat \<Rightarrow> bool" where
  "unchanged_chunk wanted present i \<longleftrightarrow> i < min (length wanted) (length present) \<and> wanted ! i = present ! i"

definition chunk_start :: "nat \<Rightarrow> int" where "chunk_start i = int i * CHUNK_SIZE"

definition chunk_end :: "int \<Rightarrow> nat \<Rightarrow> int" where "chunk_end n i = min (chunk_start i + CHUNK_SIZE) n"

section \<open>Differential download\<close>

text \<open>Calls on the file being patched.\<close>

definition write_at :: "nat \<Rightarrow> byte list \<Rightarrow> byte list \<Rightarrow> byte list" where
  "write_at off buf x =
     take off (x @ replicate (off - length x) 0) @ buf @ drop (off + length buf) x"

definition sys_pwrite :: "string \<Rightarrow> nat \<Rightarrow> byte list \<Rightarrow> local_fs \<Rightarrow> (errno + nat) \<times> local_fs" where
  "sys_pwrite p off buf fs =
     (case sys_call fs of
        (Inl e, fs) \<Rightarrow> (Inl e, fs)
      | (Inr most, fs) \<Rightarrow>
          (let n = (case most of None \<Rightarrow> length buf | Some m \<Rightarrow> min m (length buf)) in
           (Inr n, if n = 0 then fs
                   else update_file p (\<lambda>i. i\<lparr>in_data := write_at off (take n buf) (in_data i), in_mtime := lf_now fs\<rparr>) fs)))"

definition sys_futimens_zero :: "string \<Rightarrow> local_fs \<Rightarrow> errno option \<times> local_fs" where
  "sys_futimens_zero p = sys_plain (update_file p (\<lambda>i. i\<lparr>in_mtime := 0\<rparr>))"

definition sys_ftruncate :: "string \<Rightarrow> nat \<Rightarrow> local_fs \<Rightarrow> errno option \<times> local_fs" where
  "sys_ftruncate p n fs =
     sys_plain (update_file p (\<lambda>i. i\<lparr>in_data := take n (in_data i @ replicate (n - length (in_data i)) 0),
       in_mtime := lf_now fs\<rparr>)) fs"

text \<open>\<^verbatim>\<open>open\<close> with \<^verbatim>\<open>O_RDWR | O_CREAT | O_NOFOLLOW\<close>.\<close>

definition sys_open_rw :: "string \<Rightarrow> mode \<Rightarrow> local_fs \<Rightarrow> errno option \<times> local_fs" where
  "sys_open_rw p m fs =
     (case sys_call fs of
        (Inl e, fs) \<Rightarrow> (Some e, fs)
      | (Inr _, fs) \<Rightarrow>
          (case lf_nodes fs p of
             None \<Rightarrow> (None, set_node p (Some (File (new_inode m fs))) fs)
           | Some (File i) \<Rightarrow> (None, fs)
           | Some (Symlink _) \<Rightarrow> (Some ELOOP, fs)
           | Some Dir \<Rightarrow> (Some (OtherError 21), fs)
           | Some Special \<Rightarrow> (None, fs)))"

definition mark_incomplete_diff_download :: "string \<Rightarrow> local_fs \<Rightarrow> bool \<times> local_fs" where
  "mark_incomplete_diff_download p fs = (let (e, fs) = sys_futimens_zero p fs in (e = None, fs))"

lemma sys_pwrite_EINTR: "sys_pwrite p off buf fs = (Inl EINTR, fs') \<Longrightarrow> length (lf_script fs') < length (lf_script fs)"
  by (auto simp: sys_pwrite_def Let_def dest!: sys_call_EINTR split: prod.splits sum.splits)

lemma sys_pwrite_script: "sys_pwrite p off buf fs = (r, fs') \<Longrightarrow> length (lf_script fs') \<le> length (lf_script fs)"
  by (auto simp: sys_pwrite_def Let_def dest!: sys_call_script split: prod.splits sum.splits)

text \<open>The \<^verbatim>\<open>pwrite\<close> loop of a chunk; \<open>wrote\<close> is \<^verbatim>\<open>wrote_any\<close>.\<close>

function pwrite_loop :: "string \<Rightarrow> nat \<Rightarrow> byte list \<Rightarrow> bool \<Rightarrow> local_fs \<Rightarrow> bool \<times> bool \<times> local_fs" where
  "pwrite_loop p off buf wrote fs =
     (if buf = [] then (True, wrote, fs)
      else let (r, fs') = sys_pwrite p off buf fs in
        case r of
          Inl e \<Rightarrow> if e = EINTR then pwrite_loop p off buf wrote fs' else (False, wrote, fs')
        | Inr n \<Rightarrow> if n = 0 then (False, wrote, fs') else pwrite_loop p (off + n) (drop n buf) True fs')"
  by pat_completeness auto
termination
proof (relation "measure (\<lambda>(p, off, buf, w, fs). length buf + length (lf_script fs))", goal_cases)
  case (2 p off buf wrote fs z r fs' e)
  then show ?case using sys_pwrite_EINTR [of p off buf fs fs'] by simp
next
  case (3 p off buf wrote fs z r fs' n)
  then show ?case using sys_pwrite_script [of p off buf fs "Inr n" fs'] by (cases buf) auto
qed simp

declare pwrite_loop.simps [simp del]

text \<open>The attempts at one chunk, and the worker's loop over the chunks.\<close>

record 's patch =
  pt_wrote :: bool
  pt_transferred :: int
  pt_cancelled :: cancel
  pt_fs :: local_fs
  pt_world :: 's

fun chunk_attempts ::
  "nat \<Rightarrow> 's s3_client \<Rightarrow> string \<Rightarrow> string \<Rightarrow> string \<Rightarrow> int \<Rightarrow> nat \<Rightarrow> 's patch \<Rightarrow> bool \<times> 's patch" where
  "chunk_attempts 0 client bucket key p s3_size i st = (False, st)"
| "chunk_attempts (Suc n) client bucket key p s3_size i st =
     (let (stop, c) = poll (pt_cancelled st); st = st\<lparr>pt_cancelled := c\<rparr> in
      if stop then (False, st)
      else let (data, s) = GetObjectRange client bucket key (chunk_start i) (chunk_end s3_size i - 1) (pt_world st);
               st = st\<lparr>pt_world := s\<rparr>
           in if length data \<noteq> nat (chunk_end s3_size i - chunk_start i)
              then chunk_attempts n client bucket key p s3_size i st
              else let (ok, wrote, fs) = pwrite_loop p (nat (chunk_start i)) data (pt_wrote st) (pt_fs st);
                       st = st\<lparr>pt_wrote := wrote, pt_fs := fs\<rparr>
                   in if ok then (True, st\<lparr>pt_transferred := pt_transferred st + (chunk_end s3_size i - chunk_start i)\<rparr>)
                      else chunk_attempts n client bucket key p s3_size i st)"

text \<open>The result is \<^verbatim>\<open>download_failed\<close>; a chunk given up because of the flag does not set it.\<close>

fun download_chunks ::
  "'s s3_client \<Rightarrow> string \<Rightarrow> string \<Rightarrow> string \<Rightarrow> int \<Rightarrow> nat list \<Rightarrow> 's patch \<Rightarrow> bool \<times> 's patch" where
  "download_chunks client bucket key p s3_size [] st =
     (False, st\<lparr>pt_cancelled := snd (poll (pt_cancelled st))\<rparr>)"
| "download_chunks client bucket key p s3_size (i # is) st =
     (let (stop, c) = poll (pt_cancelled st); st = st\<lparr>pt_cancelled := c\<rparr> in
      if stop then (False, st)
      else let (ok, st) = chunk_attempts (MAX_RETRIES + 1) client bucket key p s3_size i st in
        if ok then download_chunks client bucket key p s3_size is st
        else let (stop, c) = poll (pt_cancelled st); st = st\<lparr>pt_cancelled := c\<rparr> in
          if stop then (False, st) else (True, st))"

text \<open>What the in-place patch ends with: an interrupted one marks the file, if it has touched it.\<close>

definition abandon_patch :: "string \<Rightarrow> 's patch \<Rightarrow> local_fs" where
  "abandon_patch p st =
     (if pt_wrote st then snd (mark_incomplete_diff_download p (pt_fs st)) else pt_fs st)"

definition patch_file ::
  "'s s3_client \<Rightarrow> string \<Rightarrow> string \<Rightarrow> string \<Rightarrow> int \<Rightarrow> int \<Rightarrow> nat list \<Rightarrow> cancel \<Rightarrow> local_fs \<Rightarrow> 's \<Rightarrow>
   bool \<times> int \<times> cancel \<times> local_fs \<times> 's" where
  "patch_file client bucket key p s3_size local_size todo cancelled fs s =
     (let (download_failed, st) = download_chunks client bucket key p s3_size todo
            \<lparr>pt_wrote = False, pt_transferred = 0, pt_cancelled = cancelled, pt_fs = fs, pt_world = s\<rparr>;
          (stop, c) = poll (pt_cancelled st)
      in if stop \<or> download_failed
         then (False, pt_transferred st, c, snd (sys_noop (abandon_patch p st)), pt_world st)
         else let (e, fs) = (if s3_size < local_size then sys_ftruncate p (nat s3_size) (pt_fs st) else (None, pt_fs st)) in
           if e \<noteq> None
           then (False, pt_transferred st, c, snd (sys_noop (abandon_patch p (st\<lparr>pt_fs := fs\<rparr>))), pt_world st)
           else (True, pt_transferred st, c, snd (sys_noop (snd (sys_noop fs))), pt_world st))"

text \<open>
  \<^verbatim>\<open>fs::file_size\<close> of a path that exists but is no file is an error, \<open>-1\<close> after the conversion.  The
  two counters of the result are the bytes transferred and the bytes saved.
\<close>

definition local_size_of :: "local_fs \<Rightarrow> string \<Rightarrow> int" where
  "local_size_of fs p =
     (case resolve_node fs p of None \<Rightarrow> 0 | Some (File i) \<Rightarrow> int (length (in_data i)) | Some _ \<Rightarrow> -1)"

definition local_crcs_of :: "zng_crc \<Rightarrow> (byte list \<Rightarrow> pread) \<Rightarrow> local_fs \<Rightarrow> string \<Rightarrow> crc32 list" where
  "local_crcs_of z reader fs p =
     (case file_contents fs p of
        None \<Rightarrow> []
      | Some d \<Rightarrow> if d = [] then [] else compute_crc32_chunks z (reader d) (Some (int (length d))) [] CHUNK_SIZE)"

definition diff_download_file ::
  "(string \<Rightarrow> string option) \<Rightarrow> (string \<Rightarrow> bool) \<Rightarrow> zng_crc \<Rightarrow> (byte list \<Rightarrow> pread) \<Rightarrow> 's s3_client \<Rightarrow>
   string \<Rightarrow> string \<Rightarrow> string \<Rightarrow> string \<Rightarrow> int \<Rightarrow> cancel \<Rightarrow> local_fs \<Rightarrow> 's \<Rightarrow>
   bool \<times> int \<times> int \<times> cancel \<times> local_fs \<times> 's" where
  "diff_download_file canon pexists z reader client base rel bucket s3_prefix s3_size cancelled fs s =
     (let p = path_append base rel; key = object_key s3_prefix rel;
          full = (\<lambda>s. let (ok, n, cancelled, fs, s) = download_small_file canon pexists client base rel bucket s3_prefix
                               s3_size cancelled fs s
                      in (ok, int n, 0, cancelled, fs, s))
      in if s3_size < 0 then (False, 0, 0, cancelled, fs, s)
         else if \<not> target_ok canon pexists base rel then (False, 0, 0, cancelled, fs, s)
         else if s3_size = 0 then
           (let (e, fs) = sys_open_trunc False p 0x1A4 fs in
            if e \<noteq> None then (False, 0, 0, cancelled, fs, s)
            else (True, 0, 0, cancelled, snd (sys_noop fs), s))
         else let (s3_crcs, s) = GetChunkCRC32s client bucket key s3_size [] CHUNK_SIZE s in
           if s3_crcs = [] then full s
           else let local_crcs = local_crcs_of z reader fs p;
                    local_size = local_size_of fs p;
                    num_chunks = length s3_crcs;
                    unchanged = filter (unchanged_chunk s3_crcs local_crcs) [0 ..< num_chunks];
                    todo = filter (\<lambda>i. \<not> unchanged_chunk s3_crcs local_crcs i) [0 ..< num_chunks]
                in if length unchanged = num_chunks \<and> local_size = s3_size then (True, 0, 0, cancelled, fs, s)
                   else if local_crcs = [] \<or> unchanged = [] then full s
                   else let (e, fs) = sys_open_rw p 0x1A4 fs in
                     if e \<noteq> None then (False, 0, 0, cancelled, fs, s)
                     else let (ok, n, cancelled, fs, s) =
                                patch_file client bucket key p s3_size local_size todo cancelled fs s
                          in (ok, n, sum_list (map (\<lambda>i. chunk_end s3_size i - chunk_start i) unchanged),
                              cancelled, fs, s))"

section \<open>What patching does to the bytes\<close>

text \<open>Position \<open>k\<close> of the file holds what the object has there.\<close>

definition agrees :: "byte list \<Rightarrow> byte list \<Rightarrow> nat \<Rightarrow> bool" where
  "agrees d x k \<longleftrightarrow> k < length x \<and> k < length d \<and> x ! k = d ! k"

lemma length_write_at: "buf \<noteq> [] \<Longrightarrow> length (write_at off buf x) = max (length x) (off + length buf)"
  by (auto simp: write_at_def)

lemma nth_write_at:
  assumes "buf \<noteq> []" "k < length x \<or> off \<le> k \<and> k < off + length buf"
  shows "write_at off buf x ! k = (if off \<le> k \<and> k < off + length buf then buf ! (k - off) else x ! k)"
proof -
  have l: "length (take off (x @ replicate (off - length x) 0)) = off" by simp
  consider "k < off" | "off \<le> k" "k < off + length buf" | "off + length buf \<le> k" by linarith
  then show ?thesis
  proof cases
    case 1
    with assms show ?thesis by (simp add: write_at_def nth_append)
  next
    case 2
    then have "k - off < length buf" by linarith
    with 2 show ?thesis unfolding write_at_def nth_append l by simp
  next
    case 3
    then have "k < length x" "\<not> k - off < length buf" using assms by linarith+
    with 3 show ?thesis unfolding write_at_def nth_append l by simp
  qed
qed

lemma write_at_agrees:
  assumes "buf \<noteq> []" "buf = slice off (length buf) d"
  shows "agrees d x k \<Longrightarrow> agrees d (write_at off buf x) k"
    and "off \<le> k \<Longrightarrow> k < off + length buf \<Longrightarrow> agrees d (write_at off buf x) k"
proof -
  have in_d: "buf ! (k - off) = d ! k \<and> k < length d" if "off \<le> k" "k < off + length buf"
  proof -
    have "length (slice off (length buf) d) = length buf" using assms(2) by simp
    then have "off + length buf \<le> length d" using assms(1) by (cases buf) auto
    moreover have "slice off (length buf) d ! (k - off) = d ! k"
      using that calculation by (simp add: slice_def)
    ultimately show ?thesis using that assms(2) by auto
  qed
  show "agrees d x k \<Longrightarrow> agrees d (write_at off buf x) k"
    using in_d assms(1) by (auto simp: agrees_def length_write_at nth_write_at)
  show "off \<le> k \<Longrightarrow> k < off + length buf \<Longrightarrow> agrees d (write_at off buf x) k"
    using in_d assms(1) by (auto simp: agrees_def length_write_at nth_write_at)
qed

text \<open>
  The file \<open>p\<close> is the only thing a patch changes: from contents \<open>x\<close> it goes to contents that agree
  with \<open>d\<close> where \<open>x\<close> did and on \<open>K\<close>, no longer than \<open>n\<close> or \<open>x\<close>.
\<close>

definition file_at :: "local_fs \<Rightarrow> string \<Rightarrow> byte list \<Rightarrow> local_fs \<Rightarrow> bool" where
  "file_at fs0 p x fs \<longleftrightarrow> (\<exists>i. in_data i = x \<and> lf_nodes fs = (lf_nodes fs0)(p \<mapsto> File i))"

definition grows :: "byte list \<Rightarrow> nat set \<Rightarrow> byte list \<Rightarrow> byte list \<Rightarrow> bool" where
  "grows d K x y \<longleftrightarrow> (\<forall>k. agrees d x k \<or> k \<in> K \<longrightarrow> agrees d y k) \<and> length y \<le> max (length x) (length d)"

lemma grows_refl: "grows d {} x x"
  by (simp add: grows_def)

lemma grows_trans: "grows d K x y \<Longrightarrow> grows d L y z \<Longrightarrow> grows d (K \<union> L) x z"
  by (force simp: grows_def)

lemma grows_mono: "grows d K x y \<Longrightarrow> L \<subseteq> K \<Longrightarrow> grows d L x y"
  by (auto simp: grows_def)

lemma write_at_grows:
  assumes "buf \<noteq> []" "buf = slice off (length buf) d"
  shows "grows d {off ..< off + length buf} x (write_at off buf x)"
proof -
  have "length (slice off (length buf) d) = length buf" using assms(2) by simp
  then have "off + length buf \<le> length d" using assms(1) by (cases buf) auto
  then show ?thesis
    using write_at_agrees [OF assms] length_write_at [OF assms(1), of off x]
    by (fastforce simp: grows_def)
qed

lemma file_at_update:
  assumes "file_at fs0 p x fs" "\<And>i. in_data i = x \<Longrightarrow> in_data (f i) = y"
  shows "file_at fs0 p y (update_file p f fs)"
proof -
  from assms(1) obtain i where i: "in_data i = x" "lf_nodes fs = (lf_nodes fs0)(p \<mapsto> File i)"
    by (auto simp: file_at_def)
  then have "lf_nodes (update_file p f fs) = (lf_nodes fs0)(p \<mapsto> File (f i))"
    by (simp add: update_file_def)
  with assms(2) [OF i(1)] show ?thesis by (auto simp: file_at_def)
qed

lemma file_at_cong: "lf_nodes fs' = lf_nodes fs \<Longrightarrow> file_at fs0 p x fs \<Longrightarrow> file_at fs0 p x fs'"
  by (simp add: file_at_def)

lemma sys_pwrite_cases:
  assumes "sys_pwrite p off buf fs = (r, fs')" "file_at fs0 p x fs"
  shows "case r of Inl e \<Rightarrow> lf_nodes fs' = lf_nodes fs
         | Inr n \<Rightarrow> n \<le> length buf \<and> (if n = 0 then lf_nodes fs' = lf_nodes fs
                                      else file_at fs0 p (write_at off (take n buf) x) fs')"
proof -
  obtain o' fs1 where c: "sys_call fs = (o', fs1)" by fastforce
  note n1 = sys_call_nodes [OF c]
  have upd: "file_at fs0 p (write_at off b x)
      (update_file p (\<lambda>i. i\<lparr>in_data := write_at off b (in_data i), in_mtime := t\<rparr>) fs1)" for b t
    by (rule file_at_update [OF file_at_cong [OF n1 assms(2)]]) simp
  from c n1 assms(1) show ?thesis
    by (auto simp: sys_pwrite_def Let_def upd min_def split: sum.splits option.splits if_splits)
qed

lemma pwrite_loop_cases:
  assumes "pwrite_loop p off buf w fs = (ok, w', fs')" "file_at fs0 p x fs" "buf = slice off (length buf) d"
  shows "(w \<longrightarrow> w') \<and> (\<not> w' \<longrightarrow> lf_nodes fs' = lf_nodes fs) \<and>
     (\<exists>y. file_at fs0 p y fs' \<and> grows d (if ok then {off ..< off + length buf} else {}) x y)"
  using assms
proof (induction p off buf w fs arbitrary: x rule: pwrite_loop.induct)
  case (1 p off buf w fs)
  obtain r fs1 where c: "sys_pwrite p off buf fs = (r, fs1)" by fastforce
  note pw = sys_pwrite_cases [OF c 1(4)]
  show ?case
  proof (cases "buf = []")
    case True
    with 1(3) have "ok \<and> w' = w \<and> fs' = fs" by (subst (asm) pwrite_loop.simps) simp
    with True 1(4) grows_refl show ?thesis by (auto intro!: exI [of _ x])
  next
    case ne: False
    show ?thesis
    proof (cases r)
      case (Inl e)
      with pw have n1: "lf_nodes fs1 = lf_nodes fs" by simp
      note f1 = file_at_cong [OF n1 1(4)]
      show ?thesis
      proof (cases "e = EINTR")
        case True
        have "pwrite_loop p off buf w fs1 = (ok, w', fs')"
          using 1(3) ne c Inl True by (subst (asm) pwrite_loop.simps) simp
        from 1(1) [OF ne c [symmetric] refl Inl True this f1 1(5)] n1 show ?thesis by simp
      next
        case False
        have "ok = False \<and> w' = w \<and> fs' = fs1"
          using 1(3) ne c Inl False by (subst (asm) pwrite_loop.simps) simp
        with f1 n1 grows_refl show ?thesis by (auto intro!: exI [of _ x])
      qed
    next
      case (Inr n)
      show ?thesis
      proof (cases "n = 0")
        case True
        have "ok = False \<and> w' = w \<and> fs' = fs1"
          using 1(3) ne c Inr True by (subst (asm) pwrite_loop.simps) simp
        with pw Inr True file_at_cong [OF _ 1(4), of fs1] grows_refl show ?thesis by (auto intro!: exI [of _ x])
      next
        case n: False
        have r2: "pwrite_loop p (off + n) (drop n buf) True fs1 = (ok, w', fs')"
          using 1(3) ne c Inr n by (subst (asm) pwrite_loop.simps) simp
        from pw Inr n have le: "n \<le> length buf" and f1: "file_at fs0 p (write_at off (take n buf) x) fs1" by auto
        have sl: "take n buf = slice off (length (take n buf)) d"
          using le by (subst 1(5)) (simp add: slice_def min_def)
        have sd: "drop n buf = slice (off + n) (length (drop n buf)) d"
          by (subst 1(5)) (simp add: slice_def drop_take add.commute)
        have g1: "grows d {off ..< off + n} x (write_at off (take n buf) x)"
          using write_at_grows [OF _ sl, of x] ne n le by simp
        from 1(2) [OF ne c [symmetric] refl Inr n r2 f1 sd] obtain y where
          y: "w'" "file_at fs0 p y fs'"
            "grows d (if ok then {off + n ..< off + n + length (drop n buf)} else {}) (write_at off (take n buf) x) y"
          by blast
        from grows_trans [OF g1 y(3)] have "grows d (if ok then {off ..< off + length buf} else {}) x y"
          by (rule grows_mono) (use le in \<open>auto split: if_splits\<close>)
        with y show ?thesis by blast
      qed
    qed
  qed
qed

text \<open>The positions of a chunk.\<close>

definition chunk_positions :: "int \<Rightarrow> nat \<Rightarrow> nat set" where
  "chunk_positions n i = {nat (chunk_start i) ..< nat (chunk_end n i)}"

definition patched ::
  "local_fs \<Rightarrow> string \<Rightarrow> byte list \<Rightarrow> nat set \<Rightarrow> byte list \<Rightarrow> 's patch \<Rightarrow> 's patch \<Rightarrow> bool" where
  "patched fs0 p d K x st st' \<longleftrightarrow>
     (pt_wrote st \<longrightarrow> pt_wrote st') \<and> (\<not> pt_wrote st' \<longrightarrow> lf_nodes (pt_fs st') = lf_nodes (pt_fs st)) \<and>
     (\<exists>y. file_at fs0 p y (pt_fs st') \<and> grows d K x y)"

lemma patched_refl: "file_at fs0 p x (pt_fs st) \<Longrightarrow> pt_wrote st' = pt_wrote st \<Longrightarrow> pt_fs st' = pt_fs st \<Longrightarrow>
    patched fs0 p d {} x st st'"
  using grows_refl by (auto simp: patched_def)

context object_store
begin

lemma chunk_attempts_patched:
  assumes "chunk_attempts n client b key p sz i st = (ok, st')" "file_at fs0 p x (pt_fs st)"
    and "objects (pt_world st) (b, key) = Some d" "sz = int (length d)" "chunk_start i < sz"
  shows "objects (pt_world st') = objects (pt_world st) \<and>
         patched fs0 p d (if ok then chunk_positions sz i else {}) x st st'"
  using assms(1-3)
proof (induction n arbitrary: st x)
  case 0
  then show ?case by (simp add: patched_refl)
next
  case (Suc n)
  obtain stop c where q: "poll (pt_cancelled st) = (stop, c)" by fastforce
  obtain data s1 where r: "GetObjectRange client b key (chunk_start i) (chunk_end sz i - 1) (pt_world st) = (data, s1)"
    by fastforce
  note o1 = range_reads [OF r]
  define st1 where "st1 = st\<lparr>pt_cancelled := c, pt_world := s1\<rparr>"
  obtain ok1 w fs1 where l: "pwrite_loop p (nat (chunk_start i)) data (pt_wrote st) (pt_fs st) = (ok1, w, fs1)"
    by (metis surj_pair)
  define st2 where "st2 = st1\<lparr>pt_wrote := w, pt_fs := fs1\<rparr>"
  consider "stop" | (short) "\<not> stop" "length data \<noteq> nat (chunk_end sz i - chunk_start i)"
    | (whole) "\<not> stop" "length data = nat (chunk_end sz i - chunk_start i)" by blast
  then show ?case
  proof cases
    case 1
    with Suc.prems q show ?thesis by (auto intro: patched_refl)
  next
    case short
    have "chunk_attempts n client b key p sz i st1 = (ok, st')"
      using Suc.prems(1) q r short by (simp add: st1_def)
    from Suc.IH [OF this, of x] Suc.prems(2,3) o1 show ?thesis by (simp add: st1_def patched_def)
  next
    case whole
    have len: "0 < chunk_end sz i - chunk_start i"
      using assms(5) by (simp add: chunk_end_def)
    with whole have "data \<noteq> []" by auto
    from range_value [OF r this] Suc.prems(3) have
      d: "0 \<le> chunk_start i" "data = slice (nat (chunk_start i)) (nat (chunk_end sz i - chunk_start i)) d" by auto
    then have sl: "data = slice (nat (chunk_start i)) (length data) d" using whole by simp
    have pos: "{nat (chunk_start i) ..< nat (chunk_start i) + length data} = chunk_positions sz i"
      using whole d(1) len by (simp add: chunk_positions_def nat_add_distrib [symmetric])
    from pwrite_loop_cases [OF l Suc.prems(2) sl] obtain y where
      y: "pt_wrote st \<longrightarrow> w" "\<not> w \<longrightarrow> lf_nodes fs1 = lf_nodes (pt_fs st)" "file_at fs0 p y fs1"
        "grows d (if ok1 then chunk_positions sz i else {}) x y" unfolding pos by blast
    show ?thesis
    proof (cases ok1)
      case True
      have "ok \<and> pt_wrote st' = w \<and> pt_fs st' = fs1 \<and> pt_world st' = s1"
        using Suc.prems(1) q r whole l True by auto
      with y o1 True show ?thesis by (auto simp: patched_def)
    next
      case False
      have "chunk_attempts n client b key p sz i st2 = (ok, st')"
        using Suc.prems(1) q r whole l False by (simp add: st1_def st2_def)
      from Suc.IH [OF this, of y] y o1 Suc.prems(3) have
        ih: "objects (pt_world st') = objects (pt_world st)"
          "patched fs0 p d (if ok then chunk_positions sz i else {}) y st2 st'"
        by (simp_all add: st2_def st1_def)
      from ih(2) y(1,2) have flags: "pt_wrote st \<longrightarrow> pt_wrote st'"
        "\<not> pt_wrote st' \<longrightarrow> lf_nodes (pt_fs st') = lf_nodes (pt_fs st)"
        by (auto simp: patched_def st2_def)
      from ih(2) obtain z where "file_at fs0 p z (pt_fs st')" "grows d (if ok then chunk_positions sz i else {}) y z"
        by (auto simp: patched_def)
      moreover have "grows d {} x y" using y(4) False by simp
      ultimately show ?thesis using ih(1) flags grows_trans [of d "{}" x y] by (auto simp: patched_def)
    qed
  qed
qed

lemma download_chunks_patched:
  assumes "download_chunks client b key p sz todo st = (failed, st')" "file_at fs0 p x (pt_fs st)"
    and "objects (pt_world st) (b, key) = Some d" "sz = int (length d)" "\<forall>i \<in> set todo. chunk_start i < sz"
  shows "objects (pt_world st') = objects (pt_world st) \<and> (\<exists>K. patched fs0 p d K x st st' \<and>
         (\<not> failed \<and> pt_cancelled st' \<noteq> Some 0 \<longrightarrow> K = (\<Union>i \<in> set todo. chunk_positions sz i)))"
  using assms(1-3,5)
proof (induction todo arbitrary: st x)
  case Nil
  then show ?case by (auto intro!: exI [of _ "{}"] patched_refl)
next
  case (Cons i todo)
  obtain stop c where q: "poll (pt_cancelled st) = (stop, c)" by fastforce
  define st1 where "st1 = st\<lparr>pt_cancelled := c\<rparr>"
  show ?case
  proof (cases stop)
    case True
    with q poll_sticky [of "pt_cancelled st" c] have "c = Some 0" by simp
    with True Cons.prems q show ?thesis by (auto intro!: exI [of _ "{}"] patched_refl)
  next
    case ns: False
    obtain ok st2 where a: "chunk_attempts (MAX_RETRIES + 1) client b key p sz i st1 = (ok, st2)" by fastforce
    have "objects (pt_world st1) (b, key) = Some d" "file_at fs0 p x (pt_fs st1)" "chunk_start i < sz"
      using Cons.prems by (simp_all add: st1_def)
    note pa = chunk_attempts_patched [OF a this(2,1) assms(4) this(3)]
    have p1: "patched fs0 p d (if ok then chunk_positions sz i else {}) x st st2"
      using pa by (simp add: patched_def st1_def)
    have o2: "objects (pt_world st2) = objects (pt_world st)" using pa by (simp add: st1_def)
    show ?thesis
    proof (cases ok)
      case True
      from p1 True obtain y where y: "file_at fs0 p y (pt_fs st2)" "grows d (chunk_positions sz i) x y"
        by (auto simp: patched_def)
      have go: "download_chunks client b key p sz todo st2 = (failed, st')"
        using Cons.prems(1) q ns a True by (simp add: st1_def del: chunk_attempts.simps)
      have "objects (pt_world st2) (b, key) = Some d" using o2 Cons.prems(3) by simp
      from Cons.IH [OF go y(1) this] Cons.prems(4) obtain K where
        ih: "objects (pt_world st') = objects (pt_world st2)" "patched fs0 p d K y st2 st'"
          "\<not> failed \<and> pt_cancelled st' \<noteq> Some 0 \<longrightarrow> K = (\<Union>i \<in> set todo. chunk_positions sz i)" by auto
      have "patched fs0 p d (chunk_positions sz i \<union> K) x st st'"
        using p1 ih(2) y(2) grows_trans [of d "chunk_positions sz i" x y K] by (auto simp: patched_def)
      with ih o2 show ?thesis by auto
    next
      case False
      obtain stop2 c2 where q2: "poll (pt_cancelled st2) = (stop2, c2)" by fastforce
      have "failed = (\<not> stop2) \<and> st' = st2\<lparr>pt_cancelled := c2\<rparr>"
        using Cons.prems(1) q ns a False q2 by (cases stop2) (auto simp: st1_def Let_def simp del: chunk_attempts.simps)
      moreover have "c2 = Some 0" if stop2 using that q2 poll_sticky [of "pt_cancelled st2" c2] by simp
      ultimately show ?thesis
        using p1 o2 False by (auto simp: patched_def intro!: exI [of _ "{}"])
    qed
  qed
qed

end

lemma agrees_take: "\<forall>k < length d. agrees d y k \<Longrightarrow> take (length d) y = d \<and> length d \<le> length y"
proof -
  assume a: "\<forall>k < length d. agrees d y k"
  have le: "length d \<le> length y"
  proof (cases d)
    case (Cons b bs)
    then have "agrees d y (length d - 1)" using a by simp
    then show ?thesis by (auto simp: agrees_def)
  qed simp
  with a show ?thesis by (auto simp: agrees_def intro: nth_equalityI)
qed

text \<open>Quiet runs stay quiet.\<close>

lemma quiet_update_file [simp]: "quiet (update_file p f fs) = quiet fs"
  by (simp add: quiet_def)

lemma sys_pwrite_quiet: "sys_pwrite p off buf fs = (r, fs') \<Longrightarrow> quiet fs \<Longrightarrow> quiet fs'"
  by (auto simp: sys_pwrite_def Let_def)

lemma pwrite_loop_quiet: "pwrite_loop p off buf w fs = (ok, w', fs') \<Longrightarrow> quiet fs \<Longrightarrow> quiet fs'"
proof (induction p off buf w fs rule: pwrite_loop.induct)
  case (1 p off buf w fs)
  obtain r fs1 where c: "sys_pwrite p off buf fs = (r, fs1)" by fastforce
  note q1 = sys_pwrite_quiet [OF c 1(4)]
  from 1(3) consider "fs' = fs" | "fs' = fs1"
    | e where "buf \<noteq> []" "r = Inl e" "e = EINTR" "pwrite_loop p off buf w fs1 = (ok, w', fs')"
    | n where "buf \<noteq> []" "r = Inr n" "n \<noteq> 0" "pwrite_loop p (off + n) (drop n buf) True fs1 = (ok, w', fs')"
    by (subst (asm) pwrite_loop.simps) (auto simp: c split: if_splits sum.splits)
  then show ?case
  proof cases
    case 3
    from 1(1) [OF 3(1) c [symmetric] refl 3(2,3,4) q1] show ?thesis .
  next
    case 4
    from 1(2) [OF 4(1) c [symmetric] refl 4(2,3,4) q1] show ?thesis .
  qed (use q1 1(4) in auto)
qed

lemma chunk_attempts_quiet:
  "chunk_attempts n client b key p sz i st = (ok, st') \<Longrightarrow> quiet (pt_fs st) \<Longrightarrow> quiet (pt_fs st')"
proof (induction n arbitrary: st)
  case (Suc n)
  obtain stop c where q: "poll (pt_cancelled st) = (stop, c)" by fastforce
  obtain data s1 where r: "GetObjectRange client b key (chunk_start i) (chunk_end sz i - 1) (pt_world st) = (data, s1)"
    by fastforce
  obtain ok1 w fs1 where l: "pwrite_loop p (nat (chunk_start i)) data (pt_wrote st) (pt_fs st) = (ok1, w, fs1)"
    by (metis surj_pair)
  from Suc.prems(1) consider "pt_fs st' = pt_fs st" | "pt_fs st' = fs1"
    | "chunk_attempts n client b key p sz i (st\<lparr>pt_cancelled := c, pt_world := s1\<rparr>) = (ok, st')"
    | "chunk_attempts n client b key p sz i (st\<lparr>pt_cancelled := c, pt_world := s1, pt_wrote := w, pt_fs := fs1\<rparr>) = (ok, st')"
    by (auto simp: q r l Let_def split: if_splits)
  then show ?case
    using Suc.prems(2) pwrite_loop_quiet [OF l Suc.prems(2)] by cases (auto dest: Suc.IH)
qed simp

lemma download_chunks_quiet:
  "download_chunks client b key p sz todo st = (failed, st') \<Longrightarrow> quiet (pt_fs st) \<Longrightarrow> quiet (pt_fs st')"
proof (induction todo arbitrary: st)
  case Nil
  then show ?case by auto
next
  case (Cons i todo)
  obtain stop c where q: "poll (pt_cancelled st) = (stop, c)" by fastforce
  obtain ok st2 where a: "chunk_attempts (MAX_RETRIES + 1) client b key p sz i (st\<lparr>pt_cancelled := c\<rparr>) = (ok, st2)"
    by fastforce
  have q2: "quiet (pt_fs st2)" using chunk_attempts_quiet [OF a] Cons.prems(2) by simp
  obtain stop2 c2 where p2: "poll (pt_cancelled st2) = (stop2, c2)" by fastforce
  from Cons.prems(1) consider "pt_fs st' = pt_fs st" | "pt_fs st' = pt_fs st2"
    | "download_chunks client b key p sz todo st2 = (failed, st')"
    using q a p2 by (cases stop; cases ok; cases stop2) (auto simp: Let_def simp del: chunk_attempts.simps)
  then show ?case using Cons q2 by cases auto
qed

text \<open>A file that was not patched, or one whose time says that nothing is known of it.\<close>

definition kept_or_marked :: "local_fs \<Rightarrow> string \<Rightarrow> local_fs \<Rightarrow> bool" where
  "kept_or_marked fs0 p fs \<longleftrightarrow>
     lf_nodes fs = lf_nodes fs0 \<or> (\<exists>i. in_mtime i = 0 \<and> lf_nodes fs = (lf_nodes fs0)(p \<mapsto> File i))"

lemma abandon_patch_cases:
  assumes "patched fs0 p d K x st0 st" "lf_nodes (pt_fs st0) = lf_nodes fs0"
  shows "(\<exists>y. file_at fs0 p y (abandon_patch p st)) \<and> (quiet (pt_fs st) \<longrightarrow> kept_or_marked fs0 p (abandon_patch p st))"
proof (cases "pt_wrote st")
  case False
  with assms show ?thesis by (auto simp: abandon_patch_def patched_def kept_or_marked_def)
next
  case True
  from assms(1) obtain y i where y: "in_data i = y" "lf_nodes (pt_fs st) = (lf_nodes fs0)(p \<mapsto> File i)"
    by (auto simp: patched_def file_at_def)
  obtain r fs1 where c: "sys_call (pt_fs st) = (r, fs1)" by fastforce
  note n1 = sys_call_nodes [OF c]
  define i' where "i' = i\<lparr>in_mtime := 0\<rparr>"
  have i': "in_data i' = y" "in_mtime i' = 0" using y by (simp_all add: i'_def)
  have "lf_nodes (abandon_patch p st) = (lf_nodes fs0)(p \<mapsto> File i) \<or>
        lf_nodes (abandon_patch p st) = (lf_nodes fs0)(p \<mapsto> File i')"
    and q: "quiet (pt_fs st) \<longrightarrow> lf_nodes (abandon_patch p st) = (lf_nodes fs0)(p \<mapsto> File i')"
    using True c n1 y
    by (auto simp: abandon_patch_def mark_incomplete_diff_download_def sys_futimens_zero_def sys_plain_def
        update_file_def i'_def Let_def split: sum.splits)
  with y i' show ?thesis by (auto simp: file_at_def kept_or_marked_def)
qed

context object_store
begin

lemma patch_file_cases:
  assumes "patch_file client b key p sz (int (length x)) todo c fs s = (ok, n, c', fs', s')"
    and "file_at fs p x fs" "objects s (b, key) = Some d" "sz = int (length d)"
    and "\<forall>i \<in> set todo. chunk_start i < sz"
    and "\<forall>k < length d. agrees d x k \<or> k \<in> (\<Union>i \<in> set todo. chunk_positions sz i)"
  shows "objects s' = objects s \<and>
     (if ok then file_at fs p d fs'
      else (\<exists>y. file_at fs p y fs') \<and> (quiet fs \<longrightarrow> kept_or_marked fs p fs'))"
proof -
  define st0 where "st0 = \<lparr>pt_wrote = False, pt_transferred = 0, pt_cancelled = c, pt_fs = fs, pt_world = s\<rparr>"
  obtain failed st where l: "download_chunks client b key p sz todo st0 = (failed, st)" by fastforce
  obtain stop c2 where q: "poll (pt_cancelled st) = (stop, c2)" by fastforce
  have w0: "objects (pt_world st0) (b, key) = Some d" "file_at fs p x (pt_fs st0)"
    using assms by (simp_all add: st0_def)
  from download_chunks_patched [OF l w0(2,1) assms(4,5)] obtain K where
    K: "objects (pt_world st) = objects s" "patched fs p d K x st0 st"
      "\<not> failed \<and> pt_cancelled st \<noteq> Some 0 \<longrightarrow> K = (\<Union>i \<in> set todo. chunk_positions sz i)"
    by (auto simp: st0_def)
  have qt: "quiet fs \<Longrightarrow> quiet (pt_fs st)" using download_chunks_quiet [OF l] by (simp add: st0_def)
  note ab = abandon_patch_cases [OF K(2)]
  have st0: "lf_nodes (pt_fs st0) = lf_nodes fs" by (simp add: st0_def)
  have sn: "file_at fs p y (snd (sys_noop f)) = file_at fs p y f" "kept_or_marked fs p (snd (sys_noop f)) = kept_or_marked fs p f"
    for y f by (simp_all add: file_at_def kept_or_marked_def)
  note def = assms(1) [unfolded patch_file_def, folded st0_def, unfolded l prod.case Let_def q]
  show ?thesis
  proof (cases "stop \<or> failed")
    case True
    with def have "ok = False \<and> fs' = snd (sys_noop (abandon_patch p st)) \<and> s' = pt_world st" by simp
    with ab [OF st0] K(1) qt show ?thesis by (auto simp: sn)
  next
    case False
    then have "pt_cancelled st \<noteq> Some 0" using q by auto
    with False K(3) have Kall: "K = (\<Union>i \<in> set todo. chunk_positions sz i)" by blast
    from K(2) obtain y where y: "file_at fs p y (pt_fs st)" "grows d K x y" by (auto simp: patched_def)
    from y(2) Kall assms(6) have "\<forall>k < length d. agrees d y k" by (auto simp: grows_def)
    note ag = agrees_take [OF this]
    have ly: "length y \<le> max (length x) (length d)" using y(2) by (simp add: grows_def)
    show ?thesis
    proof (cases "sz < int (length x)")
      case small: False
      with def False have "ok \<and> fs' = snd (sys_noop (snd (sys_noop (pt_fs st)))) \<and> s' = pt_world st" by simp
      moreover have "y = d" using ag ly small assms(4) by simp
      ultimately show ?thesis using y(1) K(1) by (auto simp: sn)
    next
      case True
      obtain r fs1 where sc: "sys_call (pt_fs st) = (r, fs1)" by fastforce
      note n1 = sys_call_nodes [OF sc]
      obtain e fs2 where t: "sys_ftruncate p (nat sz) (pt_fs st) = (e, fs2)" by fastforce
      have t1: "if e = None then file_at fs p d fs2 else fs2 = fs1"
      proof -
        have "file_at fs p d (update_file p (\<lambda>i. i\<lparr>in_data := take (nat sz) (in_data i @ replicate (nat sz - length (in_data i)) 0),
            in_mtime := t\<rparr>) fs1)" for t
          by (rule file_at_update [OF file_at_cong [OF n1 y(1)]]) (use ag assms(4) in simp)
        with t sc show ?thesis by (auto simp: sys_ftruncate_def sys_plain_def split: sum.splits)
      qed
      show ?thesis
      proof (cases e)
        case None
        with def False True t have "ok \<and> fs' = snd (sys_noop (snd (sys_noop fs2))) \<and> s' = pt_world st" by simp
        with t1 None K(1) show ?thesis by (auto simp: sn)
      next
        case (Some e')
        with def False True t have r: "ok = False \<and> fs' = snd (sys_noop (abandon_patch p (st\<lparr>pt_fs := fs2\<rparr>))) \<and> s' = pt_world st"
          by simp
        from Some t1 have f2: "lf_nodes fs2 = lf_nodes (pt_fs st)" using n1 by simp
        have "patched fs p d K x st0 (st\<lparr>pt_fs := fs2\<rparr>)"
          using K(2) f2 by (simp add: patched_def file_at_def)
        from abandon_patch_cases [OF this st0] have
          "\<exists>y. file_at fs p y (abandon_patch p (st\<lparr>pt_fs := fs2\<rparr>))"
          "quiet fs2 \<longrightarrow> kept_or_marked fs p (abandon_patch p (st\<lparr>pt_fs := fs2\<rparr>))" by auto
        moreover have "quiet fs \<longrightarrow> quiet fs2"
          using qt sc t1 Some by auto
        ultimately show ?thesis using r K(1) by (auto simp: sn)
      qed
    qed
  qed
qed

end

section \<open>The differential download\<close>

text \<open>Chunks in the same place of two contents have the same checksum only if they are the same.\<close>

definition no_collision :: "zng_crc \<Rightarrow> byte list \<Rightarrow> byte list \<Rightarrow> bool" where
  "no_collision z a b \<longleftrightarrow>
     list_all (\<lambda>(x, y). crc32_hw z x = crc32_hw z y \<longrightarrow> x = y) (zip (chunks CHUNK_SIZE a) (chunks CHUNK_SIZE b))"

lemma no_collision_nth:
  "no_collision z a b \<Longrightarrow> i < length (chunks CHUNK_SIZE a) \<Longrightarrow> i < length (chunks CHUNK_SIZE b) \<Longrightarrow>
   crc32_hw z (chunks CHUNK_SIZE a ! i) = crc32_hw z (chunks CHUNK_SIZE b ! i) \<Longrightarrow>
   chunks CHUNK_SIZE a ! i = chunks CHUNK_SIZE b ! i"
  by (auto simp: no_collision_def list_all_length)

lemma no_collision_same [simp]: "no_collision z d d"
  by (auto simp: no_collision_def list_all_iff in_set_zip)

lemma no_collision_Nil [simp]: "no_collision z d []" "no_collision z [] d"
  by (simp_all add: no_collision_def chunks_def whole_file_ids_def)

lemma chunks_nth:
  "i < length (chunks CHUNK_SIZE d) \<Longrightarrow> chunks CHUNK_SIZE d ! i = chunk_bytes CHUNK_SIZE d (int i)"
  by (simp add: chunks_def whole_file_ids_def)

lemma length_chunks_iff: "i < length (chunks CHUNK_SIZE d) \<longleftrightarrow> chunk_start i < int (length d)"
  using ceil_div_less_iff [of CHUNK_SIZE "int i" "int (length d)"] length_chunks [of CHUNK_SIZE d]
  by (auto simp: chunk_start_def)

lemma unchanged_chunk_equal:
  assumes "unchanged_chunk (map (crc32_hw z) (chunks CHUNK_SIZE d)) (map (crc32_hw z) (chunks CHUNK_SIZE l)) i"
    and "no_collision z l d"
  shows "i < length (chunks CHUNK_SIZE d) \<and> i < length (chunks CHUNK_SIZE l) \<and>
         chunk_bytes CHUNK_SIZE l (int i) = chunk_bytes CHUNK_SIZE d (int i)"
proof -
  from assms(1) have i: "i < length (chunks CHUNK_SIZE d)" "i < length (chunks CHUNK_SIZE l)"
    "crc32_hw z (chunks CHUNK_SIZE l ! i) = crc32_hw z (chunks CHUNK_SIZE d ! i)"
    by (auto simp: unchanged_chunk_def)
  with no_collision_nth [OF assms(2), of i] have "chunks CHUNK_SIZE l ! i = chunks CHUNK_SIZE d ! i" by simp
  with i show ?thesis by (simp add: chunks_nth)
qed

lemma equal_chunk_agrees:
  assumes "chunk_bytes CHUNK_SIZE l (int i) = chunk_bytes CHUNK_SIZE d (int i)"
    and "nat (chunk_start i) \<le> k" "k < length d" "k < nat (chunk_start i) + nat CHUNK_SIZE"
  shows "agrees d l k"
proof -
  let ?o = "nat (chunk_start i)" and ?c = "nat CHUNK_SIZE"
  from assms(1) have e: "slice ?o ?c l = slice ?o ?c d" by (simp add: chunk_bytes_def chunk_start_def)
  then have "length (slice ?o ?c l) = length (slice ?o ?c d)" by simp
  then have "min ?c (length l - ?o) = min ?c (length d - ?o)" by simp
  moreover have "k - ?o < min ?c (length d - ?o)" using assms by linarith
  ultimately have "k - ?o < min ?c (length l - ?o)" by metis
  then have "k - ?o < length l - ?o" by simp
  then have kl: "k < length l" using assms(2) by linarith
  have "slice ?o ?c x ! (k - ?o) = x ! k" if "k < length x" for x :: "byte list"
    using assms that by (simp add: slice_def)
  with e kl assms(3) show ?thesis by (metis agrees_def)
qed

lemma position_chunk:
  assumes "k < length d"
  shows "\<exists>i. i < length (chunks CHUNK_SIZE d) \<and> nat (chunk_start i) \<le> k \<and> k < nat (chunk_start i) + nat CHUNK_SIZE \<and>
             k \<in> chunk_positions (int (length d)) i"
proof -
  define c where "c = nat CHUNK_SIZE"
  have c: "0 < c" "CHUNK_SIZE = int c" by (simp_all add: c_def less_imp_le)
  let ?i = "k div c"
  have st: "nat (chunk_start ?i) = ?i * c" by (simp add: chunk_start_def c nat_mult_distrib flip: of_nat_mult)
  have b: "?i * c \<le> k" "k < ?i * c + c" using dividend_less_div_times [OF c(1), of k] by simp_all
  have ci: "chunk_start ?i = int (?i * c)" by (simp add: chunk_start_def c)
  have e: "chunk_end (int (length d)) ?i = int (min (?i * c + c) (length d))"
    unfolding chunk_end_def ci c(2) by (simp add: of_nat_min)
  have "?i * c < length d" using b assms by linarith
  then have "?i < length (chunks CHUNK_SIZE d)" unfolding length_chunks_iff ci by (simp only: of_nat_less_iff)
  moreover have "k \<in> chunk_positions (int (length d)) ?i"
    using b assms by (simp add: chunk_positions_def st e)
  ultimately show ?thesis using b st c_def by auto
qed

definition others_kept :: "local_fs \<Rightarrow> string \<Rightarrow> local_fs \<Rightarrow> bool" where
  "others_kept fs0 p fs \<longleftrightarrow> (\<forall>q. q \<noteq> p \<longrightarrow> lf_nodes fs0 q \<noteq> None \<longrightarrow> lf_nodes fs q = lf_nodes fs0 q)"

lemma others_keptI:
  "replaced fs0 p d fs \<Longrightarrow> others_kept fs0 p fs" "untouched fs0 p fs \<Longrightarrow> others_kept fs0 p fs"
  "file_at fs0 p d fs \<Longrightarrow> others_kept fs0 p fs" "lf_nodes fs = lf_nodes fs0 \<Longrightarrow> others_kept fs0 p fs"
  by (auto simp: others_kept_def replaced_def untouched_def staged_def file_at_def)

lemma file_contents_at: "file_at fs0 p d fs \<Longrightarrow> file_contents fs p = Some d" "replaced fs0 p d fs \<Longrightarrow> file_contents fs p = Some d"
  by (auto simp: file_at_def replaced_def file_contents_def resolve_node_def)

definition diff_download_ok :: "local_fs \<Rightarrow> string \<Rightarrow> byte list \<Rightarrow> bool \<Rightarrow> local_fs \<Rightarrow> bool" where
  "diff_download_ok fs p d ok fs' \<longleftrightarrow> others_kept fs p fs' \<and>
     (if ok then file_contents fs' p = Some d else quiet fs \<longrightarrow> untouched fs p fs' \<or> kept_or_marked fs p fs')"

lemma diff_download_ok_cong:
  "lf_nodes fs1 = lf_nodes fs \<Longrightarrow> (quiet fs \<Longrightarrow> quiet fs1) \<Longrightarrow> diff_download_ok fs1 p d ok fs' \<Longrightarrow> diff_download_ok fs p d ok fs'"
  by (auto simp: diff_download_ok_def others_kept_def untouched_def staged_def kept_or_marked_def)

context chunk_crc_store
begin

lemma patch_start:
  assumes "no_collision z l d" and "s3 = map (crc32_hw z) (chunks CHUNK_SIZE d)" "lc = map (crc32_hw z) (chunks CHUNK_SIZE l)"
    and "todo = filter (\<lambda>i. \<not> unchanged_chunk s3 lc i) [0 ..< length s3]"
  shows "\<forall>i \<in> set todo. chunk_start i < int (length d)"
    and "\<forall>k < length d. agrees d l k \<or> k \<in> (\<Union>i \<in> set todo. chunk_positions (int (length d)) i)"
proof -
  show "\<forall>i \<in> set todo. chunk_start i < int (length d)"
    using assms(2,4) length_chunks_iff [of _ d] by auto
  show "\<forall>k < length d. agrees d l k \<or> k \<in> (\<Union>i \<in> set todo. chunk_positions (int (length d)) i)"
  proof (intro allI impI)
    fix k assume k: "k < length d"
    from position_chunk [OF this] obtain i where
      i: "i < length (chunks CHUNK_SIZE d)" "nat (chunk_start i) \<le> k" "k < nat (chunk_start i) + nat CHUNK_SIZE"
        "k \<in> chunk_positions (int (length d)) i" by blast
    show "agrees d l k \<or> k \<in> (\<Union>i \<in> set todo. chunk_positions (int (length d)) i)"
    proof (cases "unchanged_chunk s3 lc i")
      case True
      with unchanged_chunk_equal [OF _ assms(1), of i] assms(2,3)
      have "chunk_bytes CHUNK_SIZE l (int i) = chunk_bytes CHUNK_SIZE d (int i)" by blast
      from equal_chunk_agrees [OF this i(2) k i(3)] show ?thesis by blast
    next
      case False
      with i assms(2,4) show ?thesis by auto
    qed
  qed
qed

lemma all_unchanged_equal:
  assumes "no_collision z l d" "filter (unchanged_chunk (map (crc32_hw z) (chunks CHUNK_SIZE d))
      (map (crc32_hw z) (chunks CHUNK_SIZE l))) [0 ..< length (chunks CHUNK_SIZE d)] = us"
    and "length us = length (chunks CHUNK_SIZE d)" "length l = length d"
  shows "l = d"
proof -
  have len: "length (chunks CHUNK_SIZE l) = length (chunks CHUNK_SIZE d)"
    using length_chunks [of CHUNK_SIZE l] length_chunks [of CHUNK_SIZE d] assms(4) by simp
  let ?P = "unchanged_chunk (map (crc32_hw z) (chunks CHUNK_SIZE d)) (map (crc32_hw z) (chunks CHUNK_SIZE l))"
  have all: "?P i" if "i < length (chunks CHUNK_SIZE d)" for i
  proof (rule ccontr)
    assume "\<not> ?P i"
    moreover have "i \<in> set [0 ..< length (chunks CHUNK_SIZE d)]" using that unfolding set_upt atLeastLessThan_iff by blast
    ultimately have "length (filter ?P [0 ..< length (chunks CHUNK_SIZE d)]) < length [0 ..< length (chunks CHUNK_SIZE d)]"
      by (rule length_filter_less [rotated])
    with assms(3) show False unfolding assms(2) length_upt by linarith
  qed
  have "chunks CHUNK_SIZE l = chunks CHUNK_SIZE d"
  proof (rule nth_equalityI [OF len])
    fix i assume i: "i < length (chunks CHUNK_SIZE l)"
    then have id: "i < length (chunks CHUNK_SIZE d)" unfolding len .
    from unchanged_chunk_equal [OF all [OF id] assms(1)]
    show "chunks CHUNK_SIZE l ! i = chunks CHUNK_SIZE d ! i"
      unfolding chunks_nth [OF i] chunks_nth [OF id] by blast
  qed
  then show ?thesis by (metis concat_chunks chunk_constants_pos(1))
qed

lemma diff_download_file_ok:
  assumes "chaining_crc z" "\<And>x. reads_file (reader x) x"
    and "objects s (b, object_key pre rel) = Some d" "sz = int (length d)" "d \<noteq> []"
    and "\<And>l. file_contents fs (path_append base rel) = Some l \<Longrightarrow> no_collision z l d"
    and "\<not> is_sync_temp_name (path_filename (path_append base rel))"
    and "diff_download_file canon pexists z reader client base rel b pre sz c fs s = (ok, n, sv, c', fs', s')"
    and "CHR ''/'' \<notin> set b"
  shows "objects s' = objects s \<and> diff_download_ok fs (path_append base rel) d ok fs'"
proof -
  let ?p = "path_append base rel" and ?key = "object_key pre rel"
  have sz: "0 < sz" "\<not> sz < 0" "sz \<noteq> 0" using assms(4,5) by simp_all
  have fullcase: "objects t' = objects s \<and> diff_download_ok fs ?p d ok1 fs1"
    if "download_small_file canon pexists client base rel b pre sz c fs t = (ok1, m, c1, fs1, t')" "objects t = objects s"
    for ok1 m c1 fs1 t t'
  proof -
    have "objects t' = objects t \<and> (if ok1 then \<exists>x. objects t (b, ?key) = Some x \<and> sz \<le> int (length x) \<and>
         replaced fs ?p (take (nat sz) x) fs1 \<and> m = nat sz else untouched fs ?p fs1 \<and> m = 0)"
      using download_small_file_cases [OF object_store_axioms sz(1) assms(7), where canon = canon and pexists = pexists and
          b = b and pre = pre and c = c and fs = fs and s = t] that(1) by simp
    with that(2) assms(3,4) others_keptI(1,2) file_contents_at(2) show ?thesis
      by (cases ok1) (auto simp: diff_download_ok_def)
  qed
  show ?thesis
  proof (cases "target_ok canon pexists base rel")
    case False
    with assms(8) sz have "ok = False \<and> fs' = fs \<and> s' = s" by (simp add: diff_download_file_def Let_def)
    then show ?thesis by (simp add: diff_download_ok_def others_kept_def)
  next
    case tk: True
    obtain s3 s1 where g: "GetChunkCRC32s client b ?key sz [] CHUNK_SIZE s = (s3, s1)" by fastforce
    from chunk_reads [OF g] have s1: "objects s1 = objects s" by simp
    define lc where "lc = local_crcs_of z reader fs ?p"
    define us where "us = filter (unchanged_chunk s3 lc) [0 ..< length s3]"
    define todo where "todo = filter (\<lambda>i. \<not> unchanged_chunk s3 lc i) [0 ..< length s3]"
    note def = assms(8) [unfolded diff_download_file_def Let_def if_not_P [OF sz(2)] if_not_P [OF sz(3)] if_P [OF tk]
        g prod.case lc_def [symmetric] us_def [symmetric] todo_def [symmetric] not_not]
    have tk': "\<not> \<not> target_ok canon pexists base rel" using tk by simp
    obtain ok1 m c1 fs1 t' where fd: "download_small_file canon pexists client base rel b pre sz c fs s1 = (ok1, m, c1, fs1, t')"
      by (metis surj_pair)
    consider (full) "s3 = [] \<or> \<not> (length us = length s3 \<and> local_size_of fs ?p = sz) \<and> (lc = [] \<or> us = [])"
      | (same) "s3 \<noteq> []" "length us = length s3" "local_size_of fs ?p = sz"
      | (patch) "s3 \<noteq> []" "\<not> (length us = length s3 \<and> local_size_of fs ?p = sz)" "lc \<noteq> []" "us \<noteq> []" by blast
    then show ?thesis
    proof cases
      case full
      then have "ok = ok1 \<and> fs' = fs1 \<and> s' = t'" using def fd by (auto simp: tk split: if_splits)
      with fullcase [OF fd s1] show ?thesis by simp
    next
      case same
      then have r: "ok \<and> fs' = fs \<and> s' = s1" using def by (auto simp: tk split: if_splits)
      have s3: "s3 = map (crc32_hw z) (chunks CHUNK_SIZE d)"
        using chunk_crcs [OF g _ assms(3,4,9) same(1)] by (simp add: chunks_def comp_def)
      have "us \<noteq> []" using same(1,2) by auto
      then have "lc \<noteq> []" by (auto simp: us_def unchanged_chunk_def)
      then obtain l where l: "file_contents fs ?p = Some l" "l \<noteq> []" "lc = map (crc32_hw z) (chunks CHUNK_SIZE l)"
        using compute_crc32_chunks_id [OF assms(1,2)]
        by (fastforce simp: lc_def local_crcs_of_def chunks_def whole_file_ids_def comp_def split: option.splits if_splits)
      have "local_size_of fs ?p = int (length l)"
        using l(1) by (auto simp: file_contents_def local_size_of_def split: option.splits node.splits)
      with same(3) assms(4) have "length l = length d" by simp
      from all_unchanged_equal [OF assms(6) [OF l(1)] _ _ this, of us] have "l = d"
        using us_def s3 l(3) same(2) by simp
      with r l(1) s1 show ?thesis by (simp add: diff_download_ok_def others_kept_def)
    next
      case patch
      have s3: "s3 = map (crc32_hw z) (chunks CHUNK_SIZE d)"
        using chunk_crcs [OF g _ assms(3,4,9) patch(1)] by (simp add: chunks_def comp_def)
      obtain l where l: "file_contents fs ?p = Some l" "l \<noteq> []" "lc = map (crc32_hw z) (chunks CHUNK_SIZE l)"
        using compute_crc32_chunks_id [OF assms(1,2)] patch(3)
        by (fastforce simp: lc_def local_crcs_of_def chunks_def whole_file_ids_def comp_def split: option.splits if_splits)
      have sl: "local_size_of fs ?p = int (length l)"
        using l(1) by (auto simp: file_contents_def local_size_of_def split: option.splits node.splits)
      obtain e fs1 where o1: "sys_open_rw ?p 0x1A4 fs = (e, fs1)" by fastforce
      obtain r fs0 where sc: "sys_call fs = (r, fs0)" by fastforce
      note n0 = sys_call_nodes [OF sc]
      have ns: "lf_nodes fs ?p \<noteq> None" using l(1) by (cases "lf_nodes fs ?p") (simp_all add: file_contents_def resolve_node_def)
      have op: "lf_nodes fs1 = lf_nodes fs \<and> (e = None \<longrightarrow> (\<exists>i. lf_nodes fs ?p = Some (File i) \<and> in_data i = l)) \<and>
          (quiet fs \<longrightarrow> quiet fs1)"
        using o1 sc n0 ns l(1)
        by (auto simp: sys_open_rw_def file_contents_def resolve_node_def split: sum.splits option.splits node.splits)
      obtain ok2 m2 c2 fs2 s2 where pf: "patch_file client b ?key ?p sz (int (length l)) todo c fs1 s1 = (ok2, m2, c2, fs2, s2)"
        by (metis surj_pair)
      show ?thesis
      proof (cases e)
        case (Some e')
        then have "ok = False \<and> fs' = fs1 \<and> s' = s1" using def patch o1 by (auto simp: tk split: if_splits)
        with op s1 show ?thesis by (simp add: diff_download_ok_def others_kept_def)
      next
        case None
        then have r: "ok = ok2 \<and> fs' = fs2 \<and> s' = s2" using def patch o1 pf sl by (auto simp: tk split: if_splits)
        from op None obtain i where i: "lf_nodes fs ?p = Some (File i)" "in_data i = l" by auto
        then have "file_at fs1 ?p l fs1" using op unfolding file_at_def by (metis fun_upd_triv)
        moreover have "objects s1 (b, ?key) = Some d" using s1 assms(3) by simp
        ultimately have pc: "objects s2 = objects s1 \<and> (if ok2 then file_at fs1 ?p d fs2
            else (\<exists>y. file_at fs1 ?p y fs2) \<and> (quiet fs1 \<longrightarrow> kept_or_marked fs1 ?p fs2))"
          using patch_file_cases [OF pf _ _ assms(4)] patch_start [OF assms(6) [OF l(1)] s3 l(3) todo_def] assms(4) by simp
        then have "diff_download_ok fs1 ?p d ok2 fs2"
          using others_keptI(3) file_contents_at(1) by (cases ok2) (auto simp: diff_download_ok_def)
        with diff_download_ok_cong [of fs1 fs ?p d ok2 fs2] op pc r s1 show ?thesis by simp
      qed
    qed
  qed
qed

end


definition store_with_same :: mock where
  "store_with_same = snd (mock_PutObject ''b'' ''p/x'' [1, 2] (snd (mock_CreateBucket ''b'' empty_mock)))"


end
