(* ===== verification/Multipart.thy ===== *)
theory Multipart
  imports S3_Mock
begin

text \<open>
  The contract of the multipart operations of s3_interface.h, as the differential upload and the
  multipart copy rely on it, and its interpretation on the mock client.  \<open>parts s b k u\<close> is what an
  open upload \<open>u\<close> of the object \<open>k\<close> in the bucket \<open>b\<close> holds: part number to bytes.  A part that
  reports success is stored; one that does not may or may not be, but leaves the other parts alone;
  completing puts the named parts together in the order they are named and touches no other object.
\<close>

definition parts_bytes :: "(int \<rightharpoonup> byte list) \<Rightarrow> (int \<times> 'r) list \<Rightarrow> byte list" where
  "parts_bytes m ps = concat (map (\<lambda>(n, _). the (m n)) ps)"

definition other_parts_kept :: "int \<Rightarrow> (int \<rightharpoonup> byte list) \<Rightarrow> (int \<rightharpoonup> byte list) \<Rightarrow> bool" where
  "other_parts_kept n m m' \<longleftrightarrow> (\<forall>j. j \<noteq> n \<longrightarrow> m' j = m j)"

lemma other_parts_kept_simps [simp]: "other_parts_kept n m m" "other_parts_kept n m (m(n := d))"
  by (simp_all add: other_parts_kept_def)

lemma other_parts_kept_trans: "other_parts_kept n m m' \<Longrightarrow> other_parts_kept n m' m'' \<Longrightarrow> other_parts_kept n m m''"
  by (simp add: other_parts_kept_def)

locale multipart_store = object_store client objects
  for client :: "'s s3_client" and objects :: "'s \<Rightarrow> store_view" +
  fixes parts :: "'s \<Rightarrow> string \<Rightarrow> string \<Rightarrow> string \<Rightarrow> (int \<rightharpoonup> byte list) option"
  assumes create_upload: "CreateMultipartUpload client b k s = (u, s') \<Longrightarrow>
        objects s' = objects s \<and> (u \<noteq> [] \<longrightarrow> parts s' b k u = Some Map.empty)"
    and upload_part: "UploadPart client b k u n d crc s = (r, s') \<Longrightarrow> objects s' = objects s \<and>
        (\<forall>m. parts s b k u = Some m \<longrightarrow> (\<exists>m'. parts s' b k u = Some m' \<and> other_parts_kept n m m' \<and>
           (part_ok r \<longrightarrow> m' n = Some d)))"
    and upload_part_copy: "UploadPartCopy client b k u n sb sk i j s = (r, s') \<Longrightarrow> objects s' = objects s \<and>
        (\<forall>m. parts s b k u = Some m \<longrightarrow> (\<exists>m'. parts s' b k u = Some m' \<and> other_parts_kept n m m' \<and>
           (part_ok r \<longrightarrow> CHR ''/'' \<notin> set sb \<longrightarrow> (\<exists>x. objects s (sb, sk) = Some x \<and> 0 \<le> i \<and> i \<le> j \<and> j < int (length x) \<and>
              m' n = Some (slice (nat i) (nat (j - i + 1)) x)))))"
    and complete_ok: "CompleteMultipartUpload client b k u ps s = (True, s') \<Longrightarrow> parts s b k u = Some m \<Longrightarrow>
        (\<forall>(n, r) \<in> set ps. m n \<noteq> None) \<and> objects s' = (objects s)((b, k) \<mapsto> parts_bytes m ps)"
    and complete_failed: "CompleteMultipartUpload client b k u ps s = (False, s') \<Longrightarrow> parts s b k u = Some m \<Longrightarrow>
        objects s' = objects s \<or> objects s' = (objects s)((b, k) \<mapsto> parts_bytes m ps)"
    and abort_reads: "AbortMultipartUpload client b k u s = (ok, s') \<Longrightarrow> objects s' = objects s"

section \<open>The mock client honours the contract\<close>

definition mock_parts :: "mock \<Rightarrow> string \<Rightarrow> string \<Rightarrow> string \<Rightarrow> (int \<rightharpoonup> byte list) option" where
  "mock_parts s b k u = map_option mu_parts (upload_of b k u s)"

lemma mock_view_uploads [simp]: "mock_objects_view (s\<lparr>mk_uploads := us\<rparr>) = mock_objects_view s"
  by (rule mock_view_buckets) simp

lemma mock_create_law:
  assumes "mock_CreateMultipartUpload b k s = (u, s')"
  shows "mock_objects_view s' = mock_objects_view s \<and> (u \<noteq> [] \<longrightarrow> mock_parts s' b k u = Some Map.empty)"
proof (cases "map_of (mk_buckets s) b")
  case None
  with assms show ?thesis by (simp add: mock_CreateMultipartUpload_def)
next
  case (Some objs)
  have "mock_objects_view s' = mock_objects_view s"
    using assms Some by (intro mock_view_buckets) (auto simp: mock_CreateMultipartUpload_def Let_def)
  moreover have "mock_parts s' b k u = Some Map.empty"
    using assms Some by (auto simp: mock_CreateMultipartUpload_def mock_parts_def upload_of_def Let_def update_conv')
  ultimately show ?thesis by simp
qed

lemma mock_store_part:
  assumes "upload_of b k u s = Some up"
  shows "mock_objects_view (store_part u up n d s) = mock_objects_view s \<and>
         mock_parts (store_part u up n d s) b k u = Some ((mu_parts up)(n \<mapsto> d))"
  using assms
  by (auto simp: store_part_def mock_parts_def upload_of_def update_conv' split: option.splits if_splits)

lemma mock_upload_part_law:
  assumes "mock_UploadPart z base64 b k u n d crc s = (r, s')"
  shows "mock_objects_view s' = mock_objects_view s \<and>
     (\<forall>m. mock_parts s b k u = Some m \<longrightarrow> (\<exists>m'. mock_parts s' b k u = Some m' \<and> other_parts_kept n m m' \<and>
        (part_ok r \<longrightarrow> m' n = Some d)))"
proof (cases "upload_of b k u s")
  case None
  with assms show ?thesis by (auto simp: mock_UploadPart_def mock_parts_def)
next
  case (Some up)
  then have "s' = store_part u up n d s" using assms by (auto simp: mock_UploadPart_def)
  with mock_store_part [OF Some, of n d] show ?thesis by (auto simp: mock_parts_def Some)
qed

lemma mock_upload_part_copy_law:
  assumes "mock_UploadPartCopy z base64 b k u n sb sk i j s = (r, s')"
  shows "mock_objects_view s' = mock_objects_view s \<and>
     (\<forall>m. mock_parts s b k u = Some m \<longrightarrow> (\<exists>m'. mock_parts s' b k u = Some m' \<and> other_parts_kept n m m' \<and>
        (part_ok r \<longrightarrow> (\<exists>x. mock_objects_view s (sb, sk) = Some x \<and> 0 \<le> i \<and> i \<le> j \<and> j < int (length x) \<and>
           m' n = Some (slice (nat i) (nat (j - i + 1)) x)))))"
proof -
  consider (refused) "r = no_part" "s' = s"
    | (stored) up x where "upload_of b k u s = Some up" "lookup_object s sb sk = Some x" "0 \<le> i" "i \<le> j" "j < int (length x)"
        "s' = store_part u up n (slice (nat i) (nat (j - i + 1)) x) s"
    using assms by (auto simp: mock_UploadPartCopy_def Let_def split: option.splits if_splits)
  then show ?thesis
  proof cases
    case refused
    then show ?thesis by auto
  next
    case stored
    define d where "d = slice (nat i) (nat (j - i + 1)) x"
    have "mock_parts s b k u = Some (mu_parts up)" "s' = store_part u up n d s"
      using stored by (simp_all add: mock_parts_def d_def)
    with mock_store_part [OF stored(1), of n d] stored(2-5) show ?thesis
      by (simp add: view_lookup flip: d_def)
  qed
qed

lemma assemble_bytes:
  "assemble checksum m ps = Some d \<Longrightarrow> (\<forall>(n, r) \<in> set ps. m n \<noteq> None) \<and> d = parts_bytes m ps"
proof (induction checksum m ps arbitrary: d rule: assemble.induct)
  case (2 checksum stored n r ps)
  then obtain d1 d2 where "stored n = Some d1" "pr_checksum r \<noteq> []" "pr_checksum r = checksum d1"
      "assemble checksum stored ps = Some d2" "d = d1 @ d2"
    by (auto split: option.splits if_splits)
  with 2(1) [of d1 d2] show ?case by (auto simp: parts_bytes_def)
qed (simp add: parts_bytes_def)

lemma mock_complete_law:
  assumes "mock_CompleteMultipartUpload z base64 b k u ps s = (ok, s')" "mock_parts s b k u = Some m"
  shows "if ok then (\<forall>(n, r) \<in> set ps. m n \<noteq> None) \<and>
                    mock_objects_view s' = (mock_objects_view s)((b, k) \<mapsto> parts_bytes m ps)
         else mock_objects_view s' = mock_objects_view s"
proof -
  from assms(2) obtain up where up: "upload_of b k u s = Some up" "mu_parts up = m" by (auto simp: mock_parts_def)
  show ?thesis
  proof (cases "assemble (base64_crc32 z base64) m ps")
    case None
    with assms(1) up show ?thesis by (auto simp: mock_CompleteMultipartUpload_def)
  next
    case (Some d)
    with assms(1) up have "ok" "s' = (store_object b k d s)\<lparr>mk_uploads := AList.delete u (mk_uploads s)\<rparr>"
      by (auto simp: mock_CompleteMultipartUpload_def)
    with assemble_bytes [OF Some] show ?thesis by (simp add: view_store_object)
  qed
qed

interpretation mock_multipart: multipart_store "mock_client z base64" mock_objects_view mock_parts for z base64
proof (unfold_locales, goal_cases)
  case (1 b k s u s')
  then show ?case using mock_create_law by simp
next
  case (2 b k u n d crc s r s')
  then have "mock_UploadPart z base64 b k u n d crc s = (r, s')" by (simp add: mock_client_def)
  from mock_upload_part_law [OF this] show ?case .
next
  case (3 b k u n sb sk i j s r s')
  then have "mock_UploadPartCopy z base64 b k u n sb sk i j s = (r, s')" by (simp add: mock_client_def)
  from mock_upload_part_copy_law [OF this] show ?case by blast
next
  case (4 b k u ps s s' m)
  then have "mock_CompleteMultipartUpload z base64 b k u ps s = (True, s')" by (simp add: mock_client_def)
  from mock_complete_law [OF this 4(2)] show ?case by simp
next
  case (5 b k u ps s s' m)
  then have "mock_CompleteMultipartUpload z base64 b k u ps s = (False, s')" by (simp add: mock_client_def)
  from mock_complete_law [OF this 5(2)] show ?case by simp
next
  case (6 b k u s ok s')
  then show ?case by (auto simp: mock_AbortMultipartUpload_def)
qed

end
