(* ===== verification/Diff_Upload.thy ===== *)
theory Diff_Upload
  imports Diff_Download Multipart
begin

text \<open>
  The differential upload of sync_task.cpp: \<^verbatim>\<open>diff_upload_file\<close> assembles the new object from chunks
  it uploads and chunks it has the store copy from the object's old contents.  The local file does
  not change while it is read; \<open>reader d\<close> is how reads of contents \<open>d\<close> are cut into pieces.  The
  result carries the two counters \<^verbatim>\<open>bytes_transferred\<close> and \<^verbatim>\<open>bytes_saved\<close>.  Then the proof that,
  against a store with chunk checksums and multipart uploads, a reported success has replaced the
  object by the file.
\<close>

section \<open>One part\<close>

text \<open>The loop of \<^verbatim>\<open>upload_part_with_retry\<close> and \<^verbatim>\<open>upload_part_copy_with_retry\<close>.\<close>

fun part_retry ::
  "nat \<Rightarrow> ('s \<Rightarrow> s3_part_result \<times> 's) \<Rightarrow> cancel \<Rightarrow> 's \<Rightarrow> s3_part_result \<times> cancel \<times> 's" where
  "part_retry 0 request cancelled s = (no_part, cancelled, s)"
| "part_retry (Suc n) request cancelled s =
     (let (stop, cancelled) = poll cancelled in
      if stop then (no_part, cancelled, s)
      else let (r, s) = request s in
        if part_ok r then (r, cancelled, s) else part_retry n request cancelled s)"

definition upload_part_with_retry ::
  "'s s3_client \<Rightarrow> string \<Rightarrow> string \<Rightarrow> string \<Rightarrow> int \<Rightarrow> byte list \<Rightarrow> crc32 \<Rightarrow> cancel \<Rightarrow> 's \<Rightarrow>
   s3_part_result \<times> cancel \<times> 's" where
  "upload_part_with_retry client bucket key upload_id part_number d crc cancelled s =
     part_retry (MAX_RETRIES + 1) (UploadPart client bucket key upload_id part_number d crc) cancelled s"

definition upload_part_copy_with_retry ::
  "'s s3_client \<Rightarrow> string \<Rightarrow> string \<Rightarrow> string \<Rightarrow> int \<Rightarrow> string \<Rightarrow> string \<Rightarrow> int \<Rightarrow> int \<Rightarrow> cancel \<Rightarrow> 's \<Rightarrow>
   s3_part_result \<times> cancel \<times> 's" where
  "upload_part_copy_with_retry client bucket key upload_id part_number source_bucket source_key start_byte end_byte
       cancelled s =
     part_retry (MAX_RETRIES + 1)
       (UploadPartCopy client bucket key upload_id part_number source_bucket source_key start_byte end_byte) cancelled s"

section \<open>The loop over the chunks\<close>

record 's part_run =
  pn_completed :: "(int \<times> s3_part_result) list"
  pn_transferred :: int
  pn_saved :: int
  pn_cancelled :: cancel
  pn_world :: 's

text \<open>
  One iteration; \<open>rd\<close> reads the open local file, and a short read fails the upload.  The result is
  \<^verbatim>\<open>upload_failed\<close> negated.
\<close>

definition upload_chunk ::
  "'s s3_client \<Rightarrow> pread \<Rightarrow> string \<Rightarrow> string \<Rightarrow> string \<Rightarrow> int \<Rightarrow> crc32 list \<Rightarrow> crc32 list \<Rightarrow> nat \<Rightarrow> 's part_run \<Rightarrow>
   bool \<times> 's part_run" where
  "upload_chunk client rd bucket key upload_id local_size local_crcs s3_crcs i st =
     (let part_number = int i + 1;
          start = chunk_start i;
          chunk_len = chunk_end local_size i - start
      in if unchanged_chunk s3_crcs local_crcs i
         then let (r, c, s) = upload_part_copy_with_retry client bucket key upload_id part_number bucket key
                                start (chunk_end local_size i - 1) (pn_cancelled st) (pn_world st);
                  st = st\<lparr>pn_cancelled := c, pn_world := s\<rparr>
              in if part_ok r
                 then (True, st\<lparr>pn_saved := pn_saved st + chunk_len,
                                pn_completed := pn_completed st @ [(part_number, r)]\<rparr>)
                 else (False, st)
         else case read_fully rd start chunk_len of
           None \<Rightarrow> (False, st)
         | Some d \<Rightarrow>
             let (r, c, s) = upload_part_with_retry client bucket key upload_id part_number d (local_crcs ! i)
                               (pn_cancelled st) (pn_world st);
                 st = st\<lparr>pn_cancelled := c, pn_world := s\<rparr>
             in if part_ok r
                then (True, st\<lparr>pn_transferred := pn_transferred st + chunk_len,
                               pn_completed := pn_completed st @ [(part_number, r)]\<rparr>)
                else (False, st))"

fun upload_chunks ::
  "'s s3_client \<Rightarrow> pread \<Rightarrow> string \<Rightarrow> string \<Rightarrow> string \<Rightarrow> int \<Rightarrow> crc32 list \<Rightarrow> crc32 list \<Rightarrow> nat list \<Rightarrow> 's part_run \<Rightarrow>
   bool \<times> 's part_run" where
  "upload_chunks client rd bucket key upload_id local_size local_crcs s3_crcs [] st = (True, st)"
| "upload_chunks client rd bucket key upload_id local_size local_crcs s3_crcs (i # is) st =
     (let (ok, st) = upload_chunk client rd bucket key upload_id local_size local_crcs s3_crcs i st in
      if ok then upload_chunks client rd bucket key upload_id local_size local_crcs s3_crcs is st else (False, st))"

section \<open>The upload\<close>

text \<open>From the creation of the multipart upload to its completion or abort.\<close>

definition upload_as_parts ::
  "(byte list \<Rightarrow> pread) \<Rightarrow> 's s3_client \<Rightarrow> local_fs \<Rightarrow> string \<Rightarrow> string \<Rightarrow> string \<Rightarrow> int \<Rightarrow> crc32 list \<Rightarrow> crc32 list \<Rightarrow>
   cancel \<Rightarrow> 's \<Rightarrow> bool \<times> int \<times> int \<times> cancel \<times> 's" where
  "upload_as_parts reader client fs p bucket key local_size local_crcs s3_crcs cancelled s =
     (let (upload_id, s) = CreateMultipartUpload client bucket key s in
      if upload_id = [] then (False, 0, 0, cancelled, s)
      else case file_contents fs p of
        None \<Rightarrow> (False, 0, 0, cancelled, snd (AbortMultipartUpload client bucket key upload_id s))
      | Some d \<Rightarrow>
          let (ok, st) = upload_chunks client (reader d) bucket key upload_id local_size local_crcs s3_crcs
                           [0 ..< length local_crcs]
                           \<lparr>pn_completed = [], pn_transferred = 0, pn_saved = 0, pn_cancelled = cancelled, pn_world = s\<rparr>;
              result = (\<lambda>ok s. (ok, pn_transferred st, pn_saved st, pn_cancelled st, s))
          in if \<not> ok then result False (snd (AbortMultipartUpload client bucket key upload_id (pn_world st)))
             else let (completed, s) = CompleteMultipartUpload client bucket key upload_id (pn_completed st) (pn_world st) in
               if \<not> completed then result False (snd (AbortMultipartUpload client bucket key upload_id s))
               else result True s)"

definition diff_upload_file ::
  "zng_crc \<Rightarrow> (byte list \<Rightarrow> pread) \<Rightarrow> 's s3_client \<Rightarrow> local_fs \<Rightarrow> string \<Rightarrow> string \<Rightarrow> string \<Rightarrow> string \<Rightarrow> cancel \<Rightarrow> 's \<Rightarrow>
   bool \<times> int \<times> int \<times> cancel \<times> 's" where
  "diff_upload_file z reader client fs base rel bucket s3_prefix cancelled s =
     (let p = path_append base rel; key = object_key s3_prefix rel;
          local_size = local_size_of fs p
      in if local_size \<le> 0 then (False, 0, 0, cancelled, s)
         else let local_crcs = local_crcs_of z reader fs p in
           if local_crcs = [] then (False, 0, 0, cancelled, s)
           else let (s3_size, s) = GetObjectSize client bucket key s;
                    (s3_crcs, s) = (if s3_size > 0 then GetChunkCRC32s client bucket key s3_size [] CHUNK_SIZE s else ([], s));
                    num_chunks = length local_crcs;
                    unchanged = length (filter (unchanged_chunk s3_crcs local_crcs) [0 ..< num_chunks])
                in if unchanged = num_chunks \<and> local_size = s3_size then (True, 0, 0, cancelled, s)
                   else if (s3_size \<le> 0 \<or> s3_crcs = [] \<or> unchanged = 0) \<and> local_size \<le> kMaxSinglePutBytes
                   then let (ok, _, cancelled, s) = upload_small_file client fs base rel bucket s3_prefix cancelled s
                        in (ok, if ok then local_size else 0, 0, cancelled, s)
                   else if num_chunks > kMaxMultipartParts then (False, 0, 0, cancelled, s)
                   else upload_as_parts reader client fs p bucket key local_size local_crcs s3_crcs cancelled s)"

section \<open>Parts\<close>

text \<open>What storing one part may have done: \<open>w\<close> is what part \<open>n\<close> of the open upload then holds.\<close>

definition part_stored ::
  "('s \<Rightarrow> store_view) \<Rightarrow> ('s \<Rightarrow> (int \<rightharpoonup> byte list) option) \<Rightarrow> int \<Rightarrow> byte list \<Rightarrow> bool \<Rightarrow> 's \<Rightarrow> 's \<Rightarrow> bool" where
  "part_stored objects parts n w ok s s' \<longleftrightarrow> objects s' = objects s \<and>
     (\<forall>m. parts s = Some m \<longrightarrow> (\<exists>m'. parts s' = Some m' \<and> other_parts_kept n m m' \<and> (ok \<longrightarrow> m' n = Some w)))"

lemma part_stored_refl: "part_stored objects parts n w False s s"
  by (simp add: part_stored_def)

lemma part_stored_trans:
  "part_stored objects parts n w False s t \<Longrightarrow> part_stored objects parts n w ok t u \<Longrightarrow> part_stored objects parts n w ok s u"
  unfolding part_stored_def by (metis other_parts_kept_trans)

lemma part_retry_stored:
  assumes "part_retry k request c s = (r, c', s')"
    and "\<And>s r s'. request s = (r, s') \<Longrightarrow> objects s = v \<Longrightarrow> part_stored objects parts n w (part_ok r) s s'"
    and "objects s = v"
  shows "part_stored objects parts n w (part_ok r) s s'"
  using assms(1,3)
proof (induction k arbitrary: c s)
  case 0
  then show ?case by (auto simp: part_stored_refl)
next
  case (Suc k)
  obtain stop c1 where p: "poll c = (stop, c1)" by fastforce
  obtain r1 s1 where q: "request s = (r1, s1)" by fastforce
  note st = assms(2) [OF q Suc.prems(2)]
  consider "stop" | "\<not> stop" "part_ok r1" | (again) "\<not> stop" "\<not> part_ok r1" by blast
  then show ?case
  proof cases
    case again
    then have "part_retry k request c1 s1 = (r, c', s')" using Suc.prems(1) p q by simp
    moreover have "objects s1 = v" using st Suc.prems(2) by (simp add: part_stored_def)
    ultimately have "part_stored objects parts n w (part_ok r) s1 s'" by (rule Suc.IH)
    with st again show ?thesis by (auto intro: part_stored_trans)
  qed (use Suc.prems p q st in \<open>auto simp: part_stored_refl\<close>)
qed

locale diff_store = chunk_crc_store client objects z + multipart_store client objects parts
  for client :: "'s s3_client" and objects :: "'s \<Rightarrow> store_view" and z :: zng_crc
    and parts :: "'s \<Rightarrow> string \<Rightarrow> string \<Rightarrow> string \<Rightarrow> (int \<rightharpoonup> byte list) option"

interpretation mock_diff: diff_store "mock_client z base64" mock_objects_view z mock_parts for z base64
  by (intro diff_store.intro mock_crcs.chunk_crc_store_axioms mock_multipart.multipart_store_axioms)

text \<open>What is known when the parts are uploaded: the checksums are those of the two contents.\<close>

definition old_checksums :: "zng_crc \<Rightarrow> byte list \<Rightarrow> byte list option \<Rightarrow> crc32 list \<Rightarrow> bool" where
  "old_checksums z l old s3_crcs \<longleftrightarrow> s3_crcs = [] \<or>
     (\<exists>x. old = Some x \<and> no_collision z x l \<and> s3_crcs = map (crc32_hw z) (chunks CHUNK_SIZE x))"

lemma chunk_slice:
  assumes "chunk_start i < int (length l)" "x = l \<or> chunk_bytes CHUNK_SIZE x (int i) = chunk_bytes CHUNK_SIZE l (int i)"
  shows "slice (nat (chunk_start i)) (nat (chunk_end (int (length l)) i - chunk_start i)) x = chunk_bytes CHUNK_SIZE l (int i)"
proof -
  define o' c n where "o' = nat (chunk_start i)" and "c = nat CHUNK_SIZE"
    and "n = nat (chunk_end (int (length l)) i - chunk_start i)"
  have e: "chunk_start i = int o'" "CHUNK_SIZE = int c"
    using less_imp_le [OF chunk_constants_pos(1)] by (simp_all add: o'_def c_def chunk_start_def)
  have "n = nat (min (int o' + int c) (int (length l)) - int o')" by (simp add: n_def chunk_end_def e)
  also have "\<dots> = min c (length l - o')" using assms(1) unfolding e min_def by auto
  finally have n: "n = min c (length l - o')" .
  then have "take n (slice o' c l) = slice o' c l" by (intro take_all) (simp add: slice_def)
  moreover have "slice o' n x = take n (slice o' c x)" using n by (simp add: slice_def min_def)
  moreover have "slice o' c x = slice o' c l"
    using assms(2) by (auto simp: chunk_bytes_def o'_def c_def chunk_start_def)
  ultimately show ?thesis by (simp add: chunk_bytes_def o'_def c_def n_def chunk_start_def)
qed

context diff_store
begin

lemma upload_part_retry:
  "upload_part_with_retry client b k u n d crc c s = (r, c', s') \<Longrightarrow>
     part_stored objects (\<lambda>s. parts s b k u) n d (part_ok r) s s'"
  unfolding upload_part_with_retry_def
  by (rule part_retry_stored [where v = "objects s"], assumption)
    (auto simp: part_stored_def dest: upload_part)

lemma upload_part_copy_retry:
  assumes "upload_part_copy_with_retry client b k u n sb sk i j c s = (r, c', s')"
    and "\<And>x. objects s (sb, sk) = Some x \<Longrightarrow> 0 \<le> i \<Longrightarrow> i \<le> j \<Longrightarrow> j < int (length x) \<Longrightarrow>
           slice (nat i) (nat (j - i + 1)) x = w" "CHR ''/'' \<notin> set sb"
  shows "part_stored objects (\<lambda>s. parts s b k u) n w (part_ok r) s s'"
proof (rule part_retry_stored [OF assms(1) [unfolded upload_part_copy_with_retry_def] _ refl])
  fix t r1 t'
  assume a: "UploadPartCopy client b k u n sb sk i j t = (r1, t')" "objects t = objects s"
  from upload_part_copy [OF a(1)] assms(2,3) a(2)
  show "part_stored objects (\<lambda>s. parts s b k u) n w (part_ok r1) t t'"
    unfolding part_stored_def by metis
qed

lemma upload_chunk_stored:
  assumes "upload_chunk client rd b k u (int (length l)) lc s3 i st = (ok, st')"
    and "reads_file rd l" "chunk_start i < int (length l)"
    and "lc = map (crc32_hw z) (chunks CHUNK_SIZE l)" "old_checksums z l (objects (pn_world st) (b, k)) s3"
    and "CHR ''/'' \<notin> set b"
  shows "part_stored objects (\<lambda>s. parts s b k u) (int i + 1) (chunk_bytes CHUNK_SIZE l (int i)) ok (pn_world st) (pn_world st') \<and>
         (ok \<longrightarrow> (\<exists>r. pn_completed st' = pn_completed st @ [(int i + 1, r)]))"
proof (cases "unchanged_chunk s3 lc i")
  case True
  then have "s3 \<noteq> []" by (auto simp: unchanged_chunk_def)
  with assms(5) obtain x where x: "objects (pn_world st) (b, k) = Some x" "no_collision z x l"
      "s3 = map (crc32_hw z) (chunks CHUNK_SIZE x)" by (auto simp: old_checksums_def)
  have "unchanged_chunk lc s3 i" using True by (auto simp: unchanged_chunk_def)
  from unchanged_chunk_equal [OF this [unfolded assms(4) x(3)] x(2)]
  have same: "chunk_bytes CHUNK_SIZE x (int i) = chunk_bytes CHUNK_SIZE l (int i)" by blast
  obtain r c s where q: "upload_part_copy_with_retry client b k u (int i + 1) b k (chunk_start i)
      (chunk_end (int (length l)) i - 1) (pn_cancelled st) (pn_world st) = (r, c, s)"
    by (metis surj_pair)
  have "part_stored objects (\<lambda>s. parts s b k u) (int i + 1) (chunk_bytes CHUNK_SIZE l (int i)) (part_ok r) (pn_world st) s"
  proof (rule upload_part_copy_retry [OF q])
    fix y assume "objects (pn_world st) (b, k) = Some y"
    with x(1) have "y = x" by simp
    with chunk_slice [OF assms(3), of x] same
    show "slice (nat (chunk_start i)) (nat (chunk_end (int (length l)) i - 1 - chunk_start i + 1)) y = chunk_bytes CHUNK_SIZE l (int i)"
      by (simp add: algebra_simps)
  qed (rule assms(6))
  with assms(1) True q show ?thesis by (cases "part_ok r") (auto simp: upload_chunk_def Let_def)
next
  case False
  define n where "n = chunk_end (int (length l)) i - chunk_start i"
  have "0 \<le> chunk_start i" "chunk_start i + n \<le> int (length l)"
    using less_imp_le [OF chunk_constants_pos(1)] by (simp_all add: n_def chunk_start_def chunk_end_def)
  from read_fully_ok [OF assms(2) this] chunk_slice [OF assms(3), of l]
  have rd: "read_fully rd (chunk_start i) n = Some (chunk_bytes CHUNK_SIZE l (int i))" by (simp add: n_def)
  obtain r c s where q: "upload_part_with_retry client b k u (int i + 1) (chunk_bytes CHUNK_SIZE l (int i)) (lc ! i)
      (pn_cancelled st) (pn_world st) = (r, c, s)"
    by (metis surj_pair)
  from upload_part_retry [OF q] assms(1) False q rd [unfolded n_def] show ?thesis
    by (cases "part_ok r") (auto simp: upload_chunk_def Let_def)
qed

lemma upload_chunks_stored:
  assumes "upload_chunks client rd b k u (int (length l)) lc s3 ids st = (ok, st')"
    and "reads_file rd l" "\<forall>i \<in> set ids. chunk_start i < int (length l)" "distinct ids"
    and "lc = map (crc32_hw z) (chunks CHUNK_SIZE l)" "old_checksums z l (objects (pn_world st) (b, k)) s3"
    and "parts (pn_world st) b k u = Some m" "CHR ''/'' \<notin> set b"
  shows "objects (pn_world st') = objects (pn_world st) \<and>
     (\<exists>m'. parts (pn_world st') b k u = Some m' \<and> (\<forall>j. j \<notin> (\<lambda>i. int i + 1) ` set ids \<longrightarrow> m' j = m j) \<and>
        (ok \<longrightarrow> (\<forall>i \<in> set ids. m' (int i + 1) = Some (chunk_bytes CHUNK_SIZE l (int i))) \<and>
           (\<exists>ps. pn_completed st' = pn_completed st @ ps \<and> map fst ps = map (\<lambda>i. int i + 1) ids)))"
  using assms(1,3,4,6,7)
proof (induction ids arbitrary: st m)
  case Nil
  then show ?case by auto
next
  case (Cons i ids)
  obtain ok1 st1 where q: "upload_chunk client rd b k u (int (length l)) lc s3 i st = (ok1, st1)" by fastforce
  from Cons.prems(2) have "chunk_start i < int (length l)" by simp
  from upload_chunk_stored [OF q assms(2) this assms(5) Cons.prems(4) assms(8)] Cons.prems(5) obtain m1 where
    m1: "objects (pn_world st1) = objects (pn_world st)" "parts (pn_world st1) b k u = Some m1"
      "other_parts_kept (int i + 1) m m1" "ok1 \<longrightarrow> m1 (int i + 1) = Some (chunk_bytes CHUNK_SIZE l (int i))"
      "ok1 \<longrightarrow> (\<exists>r. pn_completed st1 = pn_completed st @ [(int i + 1, r)])"
    unfolding part_stored_def by blast
  show ?case
  proof (cases ok1)
    case False
    with Cons.prems(1) q m1 show ?thesis by (auto simp: other_parts_kept_def)
  next
    case True
    with m1(5) obtain r where r: "pn_completed st1 = pn_completed st @ [(int i + 1, r)]" by blast
    have go: "upload_chunks client rd b k u (int (length l)) lc s3 ids st1 = (ok, st')"
      using Cons.prems(1) q True by simp
    have "\<forall>i \<in> set ids. chunk_start i < int (length l)" "distinct ids" "old_checksums z l (objects (pn_world st1) (b, k)) s3"
      using Cons.prems m1(1) by simp_all
    from Cons.IH [OF go this m1(2)] obtain m' where
      m': "objects (pn_world st') = objects (pn_world st1)" "parts (pn_world st') b k u = Some m'"
        "\<forall>j. j \<notin> (\<lambda>i. int i + 1) ` set ids \<longrightarrow> m' j = m1 j"
        "ok \<longrightarrow> (\<forall>i \<in> set ids. m' (int i + 1) = Some (chunk_bytes CHUNK_SIZE l (int i)))"
        "ok \<longrightarrow> (\<exists>ps. pn_completed st' = pn_completed st1 @ ps \<and> map fst ps = map (\<lambda>i. int i + 1) ids)" by blast
    have "m' (int i + 1) = m1 (int i + 1)" 
    proof -
      have "int i + 1 \<notin> (\<lambda>i. int i + 1) ` set ids" using Cons.prems(3) by (auto simp: image_iff)
      with m'(3) show ?thesis by blast
    qed
    moreover have "\<exists>ps. pn_completed st' = pn_completed st @ ps \<and> map fst ps = map (\<lambda>i. int i + 1) (i # ids)" if ok
    proof -
      from m'(5) that obtain ps where "pn_completed st' = pn_completed st1 @ ps" "map fst ps = map (\<lambda>i. int i + 1) ids"
        by blast
      with r show ?thesis by (intro exI [of _ "(int i + 1, r) # ps"]) simp
    qed
    ultimately show ?thesis using m1 m' True by (auto simp: other_parts_kept_def)
  qed
qed

lemma chunk_starts: "i < length (chunks CHUNK_SIZE l) \<Longrightarrow> chunk_start i < int (length l)"
  by (simp add: length_chunks_iff)

lemma completed_parts_bytes:
  assumes "map fst ps = map (\<lambda>i. int i + 1) [0 ..< length (chunks CHUNK_SIZE l)]"
    and "\<forall>i \<in> set [0 ..< length (chunks CHUNK_SIZE l)]. m (int i + 1) = Some (chunk_bytes CHUNK_SIZE l (int i))"
  shows "parts_bytes m ps = l"
proof -
  let ?is = "[0 ..< length (chunks CHUNK_SIZE l)]"
  have "map (\<lambda>(n, _). the (m n)) ps = map (the \<circ> m) (map fst ps)" by (induction ps) auto
  also have "\<dots> = map (\<lambda>i. chunk_bytes CHUNK_SIZE l (int i)) ?is"
    unfolding assms(1) map_map using assms(2) by (intro map_cong refl) (simp only: comp_apply option.sel)
  also have "\<dots> = map ((!) (chunks CHUNK_SIZE l)) ?is"
    by (intro map_cong refl) (simp add: chunks_nth)
  also have "\<dots> = chunks CHUNK_SIZE l" by (rule map_nth)
  finally show ?thesis unfolding parts_bytes_def by (simp add: concat_chunks)
qed

lemma upload_as_parts_wrote:
  assumes "upload_as_parts reader client fs p b k (int (length l)) lc s3 c s = (ok, n, sv, c', s')"
    and "file_contents fs p = Some l" "reads_file (reader l) l"
    and "lc = map (crc32_hw z) (chunks CHUNK_SIZE l)" "old_checksums z l (objects s (b, k)) s3"
    and "CHR ''/'' \<notin> set b"
  shows "written_as (objects s) (b, k) (Some l) ok (objects s')"
proof -
  obtain u s1 where cr: "CreateMultipartUpload client b k s = (u, s1)" by fastforce
  note c1 = create_upload [OF cr]
  show ?thesis
  proof (cases "u = []")
    case True
    with assms(1) cr c1 show ?thesis by (auto simp: upload_as_parts_def written_as_def)
  next
    case False
    define st0 where "st0 = \<lparr>pn_completed = [], pn_transferred = 0, pn_saved = 0, pn_cancelled = c, pn_world = s1\<rparr>"
    obtain ok1 st where l: "upload_chunks client (reader l) b k u (int (length l)) lc s3 [0 ..< length lc] st0 = (ok1, st)"
      by fastforce
    obtain ok2 s2 where cm: "CompleteMultipartUpload client b k u (pn_completed st) (pn_world st) = (ok2, s2)" by fastforce
    obtain b1 s3' where a1: "AbortMultipartUpload client b k u (pn_world st) = (b1, s3')" by fastforce
    obtain b2 s4 where a2: "AbortMultipartUpload client b k u s2 = (b2, s4)" by fastforce
    have "\<forall>i \<in> set [0 ..< length lc]. chunk_start i < int (length l)" using chunk_starts by (simp add: assms(4))
    from upload_chunks_stored [OF l assms(3) this distinct_upt assms(4), of Map.empty] c1 False assms(5,6) obtain m where
      m: "objects (pn_world st) = objects s" "parts (pn_world st) b k u = Some m"
        "ok1 \<longrightarrow> (\<forall>i \<in> set [0 ..< length lc]. m (int i + 1) = Some (chunk_bytes CHUNK_SIZE l (int i)))"
        "ok1 \<longrightarrow> map fst (pn_completed st) = map (\<lambda>i. int i + 1) [0 ..< length lc]"
      by (auto simp: st0_def)
    show ?thesis
    proof (cases ok1)
      case False
      with assms(1,2) cr \<open>u \<noteq> []\<close> l a1 have "ok = False \<and> s' = s3'"
        by (simp add: upload_as_parts_def Let_def st0_def)
      with abort_reads [OF a1] m show ?thesis by (simp add: written_as_def)
    next
      case True
      have pb: "parts_bytes m (pn_completed st) = l"
        using completed_parts_bytes [of "pn_completed st" l m] m(3,4) True assms(4) by simp
      show ?thesis
      proof (cases ok2)
        case ok2: True
        with assms(1,2) cr \<open>u \<noteq> []\<close> l cm True have "ok \<and> s' = s2"
          by (simp add: upload_as_parts_def Let_def st0_def)
        moreover have "objects s2 = (objects (pn_world st))((b, k) \<mapsto> l)"
          using complete_ok [of b k u "pn_completed st" "pn_world st" s2 m] cm m(2) ok2 pb by simp
        ultimately show ?thesis using m(1) by (simp add: written_as_def)
      next
        case ok2: False
        with assms(1,2) cr \<open>u \<noteq> []\<close> l cm a2 True have "ok = False \<and> s' = s4"
          by (simp add: upload_as_parts_def Let_def st0_def)
        moreover have "objects s2 = objects (pn_world st) \<or> objects s2 = (objects (pn_world st))((b, k) \<mapsto> l)"
          using complete_failed [of b k u "pn_completed st" "pn_world st" s2 m] cm m(2) ok2 pb by simp
        ultimately show ?thesis using m(1) abort_reads [OF a2] by (auto simp: written_as_def)
      qed
    qed
  qed
qed

lemma diff_upload_file_wrote:
  assumes "chaining_crc z" "\<And>x. reads_file (reader x) x"
    and "file_contents fs (path_append base rel) = Some l"
    and "\<And>x. objects s (b, object_key pre rel) = Some x \<Longrightarrow> no_collision z x l"
    and "diff_upload_file z reader client fs base rel b pre c s = (ok, n, sv, c', s')" "CHR ''/'' \<notin> set b"
  shows "written_as (objects s) (b, object_key pre rel) (Some l) ok (objects s') \<and>
         (ok \<longrightarrow> kMaxMultipartParts < length (chunks CHUNK_SIZE l) \<longrightarrow> kMaxSinglePutBytes < int (length l) \<longrightarrow> objects s' = objects s)"
proof -
  let ?p = "path_append base rel" and ?k = "object_key pre rel"
  have sz: "local_size_of fs ?p = int (length l)"
    using assms(3) by (auto simp: file_contents_def local_size_of_def split: option.splits node.splits)
  define lc where "lc = local_crcs_of z reader fs ?p"
  obtain n0 s1 where g: "GetObjectSize client b ?k s = (n0, s1)" by fastforce
  obtain s3 s2 where h: "(if n0 > 0 then GetChunkCRC32s client b ?k n0 [] CHUNK_SIZE s1 else ([], s1)) = (s3, s2)" by fastforce
  note def = assms(5) [unfolded diff_upload_file_def Let_def sz lc_def [symmetric] g prod.case h]
  define us where "us = filter (unchanged_chunk s3 lc) [0 ..< length lc]"
  note def = def [folded us_def]
  obtain ok2 m2 c2 s4 where f: "upload_small_file client fs base rel b pre c s2 = (ok2, m2, c2, s4)" by (metis surj_pair)
  consider (bad) "int (length l) \<le> 0 \<or> lc = []"
    | (some) "0 < int (length l)" "lc \<noteq> []" by linarith
  then show ?thesis
  proof cases
    case bad
    with def have "ok = False \<and> s' = s" by (auto split: if_splits)
    then show ?thesis by (simp add: written_as_def)
  next
    case some
    then have lne: "l \<noteq> []" by auto
    have lc: "lc = map (crc32_hw z) (chunks CHUNK_SIZE l)"
      using compute_crc32_chunks_id [OF assms(1,2) chunk_constants_pos(1) lne] assms(3) lne
      by (simp add: lc_def local_crcs_of_def chunks_def whole_file_ids_def comp_def)
    have s2: "objects s2 = objects s \<and> (s3 \<noteq> [] \<longrightarrow> (\<exists>x. objects s (b, ?k) = Some x \<and> n0 = int (length x) \<and>
        s3 = map (crc32_hw z) (chunks CHUNK_SIZE x)))"
    proof (cases "n0 > 0")
      case True
      with h have "GetChunkCRC32s client b ?k n0 [] CHUNK_SIZE s1 = (s3, s2)" by simp
      note h' = this
      from size_value [OF g] True obtain x where x: "objects s (b, ?k) = Some x" "n0 = int (length x)" by auto
      have s1: "objects s1 = objects s" by (rule size_reads [OF g])
      with chunk_reads [OF h'] chunk_crcs [OF h' _ _ x(2) assms(6)] x show ?thesis by (auto simp: chunks_def comp_def)
    qed (use h size_reads [OF g] in auto)
    then have old: "old_checksums z l (objects s2 (b, ?k)) s3"
      using assms(4) by (auto simp: old_checksums_def)
    note def = def [unfolded if_not_P [OF some(1) [unfolded not_le [symmetric]]] if_not_P [OF some(2)]]
    consider (same) "length us = length lc" "int (length l) = n0"
      | (put) "\<not> (length us = length lc \<and> int (length l) = n0)"
          "(n0 \<le> 0 \<or> s3 = [] \<or> length us = 0) \<and> int (length l) \<le> kMaxSinglePutBytes"
      | (many) "\<not> (length us = length lc \<and> int (length l) = n0)"
          "\<not> ((n0 \<le> 0 \<or> s3 = [] \<or> length us = 0) \<and> int (length l) \<le> kMaxSinglePutBytes)" "kMaxMultipartParts < length lc"
      | (split) "\<not> (length us = length lc \<and> int (length l) = n0)"
          "\<not> ((n0 \<le> 0 \<or> s3 = [] \<or> length us = 0) \<and> int (length l) \<le> kMaxSinglePutBytes)" "\<not> kMaxMultipartParts < length lc"
      by blast
    then show ?thesis
    proof cases
      case same
      then have r: "ok \<and> s' = s2" using def by simp
      have ne: "us \<noteq> []" using same(1) some(2) by auto
      then have "s3 \<noteq> []" by (auto simp: us_def unchanged_chunk_def)
      with s2 obtain x where x: "objects s (b, ?k) = Some x" "n0 = int (length x)" "s3 = map (crc32_hw z) (chunks CHUNK_SIZE x)"
        by blast
      have eq: "unchanged_chunk s3 lc = unchanged_chunk lc s3" by (rule ext) (auto simp: unchanged_chunk_def)
      have "x = l"
        by (rule all_unchanged_equal [OF assms(4) [OF x(1)], of us])
          (use us_def eq lc x same in simp_all)
      with r x(1) s2 show ?thesis by (auto simp: written_as_def)
    next
      case put
      then have r: "ok = ok2 \<and> s' = s4" using def f by (auto split: if_splits)
      from upload_small_file_wrote [OF f] r s2 assms(3) put show ?thesis by simp
    next
      case many
      then have "ok = False \<and> s' = s2" using def by auto
      with s2 show ?thesis by (simp add: written_as_def)
    next
      case split
      then have "upload_as_parts reader client fs ?p b ?k (int (length l)) lc s3 c s2 = (ok, n, sv, c', s')"
        using def by (auto split: if_splits)
      from upload_as_parts_wrote [OF this assms(3) assms(2) lc old assms(6)] s2 split lc show ?thesis by simp
    qed
  qed
qed

end

text \<open>
  C16: a differential upload that reports success leaves the object with exactly the bytes of the local
  file, whether it skipped, sent the file whole or assembled it from parts; one that reports
  failure leaves the old or the new object, never a mixture; no other object changes.  No two different
  chunks of the two may share a checksum, and the bucket's name has no slash.
\<close>

theorem diff_upload_exact:
  assumes "diff_store client objects z parts" "chaining_crc z" "\<And>x. reads_file (reader x) x"
    and "file_contents fs (path_append base rel) = Some l"
    and "\<And>x. objects s (b, object_key pre rel) = Some x \<Longrightarrow> no_collision z x l" "CHR ''/'' \<notin> set b"
  shows "case diff_upload_file z reader client fs base rel b pre c s of (ok, n, saved, c', s') \<Rightarrow>
     written_as (objects s) (b, object_key pre rel) (Some l) ok (objects s')"
proof -
  obtain ok n saved c' s' where r: "diff_upload_file z reader client fs base rel b pre c s = (ok, n, saved, c', s')"
    by (metis surj_pair)
  from diff_store.diff_upload_file_wrote [OF assms(1-5) r assms(6)] show ?thesis unfolding r prod.case by blast
qed

lemma small_contents: "file_contents (small_fs []) (path_append ''d'' ''x'') = Some [1, 2]"
  by code_simp

lemma same_contents: "mock_objects_view store_with_same (''b'', object_key ''p'' ''x'') = Some [1, 2]"
  by code_simp

theorem diff_upload_exact_witness:
  "case diff_upload_file ieee_crc32 pread_of (mock_client ieee_crc32 (\<lambda>_. [])) (small_fs []) ''d'' ''x'' ''b'' ''p'' None
      store_with_same of (ok, n, saved, c', s') \<Rightarrow>
     written_as (mock_objects_view store_with_same) (''b'', object_key ''p'' ''x'') (Some [1, 2]) ok (mock_objects_view s')"
proof (rule diff_upload_exact [OF mock_diff.diff_store_axioms ieee.chaining_crc_axioms reads_file_pread_of small_contents])
  fix x assume "mock_objects_view store_with_same (''b'', object_key ''p'' ''x'') = Some x"
  with same_contents have "x = [1, 2]" by simp
  then show "no_collision ieee_crc32 x [1, 2]" by simp
qed simp

text \<open>
  A file of more than 10,000 chunks is never sent: a differential upload of it that reports success
  has found the object up to date and changed nothing.
\<close>

theorem diff_upload_part_limit:
  assumes "diff_store client objects z parts" "chaining_crc z" "\<And>x. reads_file (reader x) x"
    and "file_contents fs (path_append base rel) = Some l"
    and "\<And>x. objects s (b, object_key pre rel) = Some x \<Longrightarrow> no_collision z x l"
    and "int kMaxMultipartParts * CHUNK_SIZE < int (length l)" "CHR ''/'' \<notin> set b"
  shows "case diff_upload_file z reader client fs base rel b pre c s of (ok, n, saved, c', s') \<Rightarrow>
     if ok then objects s' = objects s else True"
proof -
  obtain ok n saved c' s' where r: "diff_upload_file z reader client fs base rel b pre c s = (ok, n, saved, c', s')"
    by (metis surj_pair)
  have "kMaxMultipartParts < length (chunks CHUNK_SIZE l)"
    using assms(6) by (simp add: length_chunks_iff chunk_start_def)
  moreover have "kMaxSinglePutBytes < int (length l)"
    using assms(6) by (simp add: kMaxMultipartParts_def kMaxSinglePutBytes_def CHUNK_SIZE_def)
  ultimately show ?thesis using diff_store.diff_upload_file_wrote [OF assms(1-5) r assms(7)] unfolding r prod.case by simp
qed

definition big_fs :: "nat \<Rightarrow> local_fs" where
  "big_fs n = (small_fs [])\<lparr>lf_nodes := [''d'' \<mapsto> Dir, ''d/x'' \<mapsto>
       File \<lparr>in_data = replicate n 0, in_mode = 0x1A4, in_owner = (7, 7), in_mtime = 5\<rparr>]\<rparr>"

theorem diff_upload_part_limit_witness:
  "case diff_upload_file ieee_crc32 pread_of (mock_client ieee_crc32 (\<lambda>_. [])) (big_fs 90000000000) ''d'' ''x'' ''b'' ''p'' None
      empty_mock of (ok, n, saved, c', s') \<Rightarrow>
     if ok then mock_objects_view s' = mock_objects_view empty_mock else True"
proof (rule diff_upload_part_limit [OF mock_diff.diff_store_axioms ieee.chaining_crc_axioms reads_file_pread_of])
  have "path_append ''d'' ''x'' = ''d/x''" by code_simp
  then show "file_contents (big_fs 90000000000) (path_append ''d'' ''x'') = Some (replicate 90000000000 0)"
    by (simp add: big_fs_def file_contents_def resolve_node_def)
  have none: "mock_objects_view empty_mock (''b'', object_key ''p'' ''x'') = None" by code_simp
  show "no_collision ieee_crc32 x (replicate 90000000000 0)"
    if "mock_objects_view empty_mock (''b'', object_key ''p'' ''x'') = Some x" for x
    using that none by simp
  show "int kMaxMultipartParts * CHUNK_SIZE < int (length (replicate 90000000000 (0 :: byte)))"
    by (simp add: kMaxMultipartParts_def CHUNK_SIZE_def)
qed simp

end
