(* ===== verification/Sync_Exec.thy ===== *)
theory Sync_Exec
  imports Diff_Upload
begin

text \<open>
  The second phase of \<^verbatim>\<open>run_sync\<close> in sync_task.cpp: carrying out the plan.  One thread submits the
  files to a pool through a window of adaptive width, prefetch threads read ahead into a cache, and
  for a download disk writers empty a queue of fetched files.  The threads are a transition system:
  an event lets one of them take its next step, \<open>sync_step\<close> says what the step does and \<^term>\<open>None\<close>
  that the thread waits.  A list of events is an interleaving, so a theorem about all lists is one
  about all interleavings of these steps.  A task is one step; the buffer pool, the sleeps and the
  figures that are only displayed are left out.
\<close>

definition PRE_READ_QUEUE_SIZE :: nat where "PRE_READ_QUEUE_SIZE = 512"
definition PRE_READ_MAX_FILE_SIZE :: int where "PRE_READ_MAX_FILE_SIZE = 16 * 1024 * 1024"
definition PRE_READ_MAX_TOTAL_BYTES :: nat where "PRE_READ_MAX_TOTAL_BYTES = 1024 * 1024 * 1024"
definition WRITE_QUEUE_MAX_SIZE :: nat where "WRITE_QUEUE_MAX_SIZE = 1024"

section \<open>State\<close>

text \<open>
  What does not change during the phase.  The client is the null pointer only for a local copy, which
  never uses it; \<open>en_canon\<close> and \<open>en_pexists\<close> are path resolution in a state of the file system.
\<close>

record 's env =
  en_cfg :: sync_config
  en_client :: "'s s3_client option"
  en_canon :: "local_fs \<Rightarrow> string \<Rightarrow> string option"
  en_pexists :: "local_fs \<Rightarrow> string \<Rightarrow> bool"
  en_crc :: zng_crc
  en_reader :: "byte list \<Rightarrow> pread"
  en_threads :: nat

abbreviation client_of :: "'s env \<Rightarrow> 's s3_client" where
  "client_of env \<equiv> the (en_client env)"

record counts =
  ct_upload :: nat
  ct_diff_upload :: nat
  ct_download :: nat
  ct_diff_download :: nat
  ct_copy :: nat
  ct_delete :: nat
  ct_fail :: nat

definition no_counts :: counts where
  "no_counts = \<lparr>ct_upload = 0, ct_diff_upload = 0, ct_download = 0, ct_diff_download = 0, ct_copy = 0,
     ct_delete = 0, ct_fail = 0\<rparr>"

definition counted :: "counts \<Rightarrow> nat" where
  "counted ct = ct_upload ct + ct_diff_upload ct + ct_download ct + ct_diff_download ct + ct_copy ct +
     ct_delete ct + ct_fail ct"

text \<open>
  \<open>ex_next\<close> is the submission loop's index and \<open>ex_stopped\<close> whether a \<^verbatim>\<open>break\<close> left it; \<open>ex_fetch\<close> is
  \<^verbatim>\<open>prefetch_index\<close>; a posted task holds its file's index and the data read ahead; the number of
  posted tasks is \<^verbatim>\<open>in_flight\<close>.
\<close>

record 's exec =
  ex_next :: nat
  ex_stopped :: bool
  ex_fetch :: nat
  ex_cache :: "(string \<times> byte list) list"
  ex_cache_bytes :: nat
  ex_tasks :: "(nat \<times> byte list) list"
  ex_queue :: "(string \<times> byte list) list"
  ex_window :: nat
  ex_successes :: nat
  ex_counts :: counts
  ex_transferred :: int
  ex_server_side :: int
  ex_saved :: int
  ex_cancelled :: cancel
  ex_fs :: local_fs
  ex_world :: 's

datatype sync_event = Prefetch | Submit | RunTask nat | WriteJob

definition max_concurrency :: "'s env \<Rightarrow> sync_file_entry list \<Rightarrow> nat" where
  "max_concurrency env files = min (en_threads env) (length files)"

definition initial_exec :: "'s env \<Rightarrow> sync_file_entry list \<Rightarrow> cancel \<Rightarrow> local_fs \<Rightarrow> 's \<Rightarrow> 's exec" where
  "initial_exec env files cancelled fs s = \<lparr>ex_next = 0, ex_stopped = False, ex_fetch = 0, ex_cache = [],
     ex_cache_bytes = 0, ex_tasks = [], ex_queue = [],
     ex_window = (if sc_direction (en_cfg env) = S3ToS3 then min (max_concurrency env files) 64
                  else max_concurrency env files),
     ex_successes = 0, ex_counts = no_counts, ex_transferred = 0, ex_server_side = 0, ex_saved = 0,
     ex_cancelled = cancelled, ex_fs = fs, ex_world = s\<rparr>"

section \<open>Reading ahead\<close>

definition prefetchable :: "sync_file_entry \<Rightarrow> bool" where
  "prefetchable f \<longleftrightarrow>
     se_action f = Upload \<and> se_local_size f > 0 \<and> se_local_size f \<le> PRE_READ_MAX_FILE_SIZE \<or>
     se_action f = Download \<and> se_s3_size f > 0 \<and> se_s3_size f \<le> PRE_READ_MAX_FILE_SIZE"

definition source_key :: "'s env \<Rightarrow> sync_file_entry \<Rightarrow> string" where
  "source_key env f = object_key (fs_path (sc_source (en_cfg env))) (se_path f)"

definition dest_key :: "'s env \<Rightarrow> sync_file_entry \<Rightarrow> string" where
  "dest_key env f = object_key (fs_path (sc_destination (en_cfg env))) (se_path f)"

text \<open>What the prefetcher reads; the empty list is a failed or short read.\<close>

definition read_ahead :: "'s env \<Rightarrow> sync_file_entry \<Rightarrow> local_fs \<Rightarrow> 's \<Rightarrow> byte list \<times> 's" where
  "read_ahead env f fs s =
     (if se_action f = Upload then
        (case file_contents fs (path_append (sc_local_path (en_cfg env)) (se_path f)) of
           None \<Rightarrow> ([], s)
         | Some d \<Rightarrow> (if int (length d) < se_local_size f then [] else take (nat (se_local_size f)) d, s))
      else let ((ok, d), s) = GetObjectRangeInto (client_of env) (fs_bucket (sc_source (en_cfg env)))
                                (source_key env f) 0 (se_s3_size f - 1) s
           in (if \<not> ok \<or> int (length d) \<noteq> se_s3_size f then [] else d, s))"

definition step_prefetch :: "'s env \<Rightarrow> sync_file_entry list \<Rightarrow> 's exec \<Rightarrow> 's exec option" where
  "step_prefetch env files st =
     (if ex_fetch st \<ge> length files then None
      else let (stop, c) = poll (ex_cancelled st) in
        if stop then Some (st\<lparr>ex_cancelled := c, ex_fetch := length files\<rparr>)
        else let f = files ! ex_fetch st in
          if \<not> prefetchable f then Some (st\<lparr>ex_cancelled := c, ex_fetch := ex_fetch st + 1\<rparr>)
          else if \<not> (length (ex_cache st) < PRE_READ_QUEUE_SIZE \<and> ex_cache_bytes st < PRE_READ_MAX_TOTAL_BYTES) then None
          else let (stop, c) = poll c in
            if stop then Some (st\<lparr>ex_cancelled := c, ex_fetch := length files\<rparr>)
            else let (data, s) = read_ahead env f (ex_fs st) (ex_world st);
                     st = st\<lparr>ex_cancelled := c, ex_fetch := ex_fetch st + 1, ex_world := s\<rparr>
                 in Some (if data \<noteq> [] \<and> ex_cache_bytes st + length data \<le> PRE_READ_MAX_TOTAL_BYTES
                          then st\<lparr>ex_cache_bytes := ex_cache_bytes st + length data,
                                  ex_cache := AList.update (se_path f) data (ex_cache st)\<rparr>
                          else st))"

section \<open>Submitting\<close>

definition step_submit :: "'s env \<Rightarrow> sync_file_entry list \<Rightarrow> 's exec \<Rightarrow> 's exec option" where
  "step_submit env files st =
     (if ex_stopped st \<or> ex_next st \<ge> length files then None
      else let (stop, c) = poll (ex_cancelled st) in
        if stop then Some (st\<lparr>ex_cancelled := c, ex_stopped := True\<rparr>)
        else if \<not> length (ex_tasks st) < ex_window st then None
        else let f = files ! ex_next st;
                 hit = (if prefetchable f then map_of (ex_cache st) (se_path f) else None);
                 st = (case hit of
                         None \<Rightarrow> st
                       | Some d \<Rightarrow> st\<lparr>ex_cache_bytes := ex_cache_bytes st - length d,
                                     ex_cache := AList.delete (se_path f) (ex_cache st)\<rparr>);
                 data = (case hit of None \<Rightarrow> [] | Some d \<Rightarrow> d);
                 (stop, c) = poll c
             in Some (if stop then st\<lparr>ex_cancelled := c, ex_stopped := True\<rparr>
                      else st\<lparr>ex_cancelled := c, ex_next := ex_next st + 1,
                              ex_tasks := ex_tasks st @ [(ex_next st, data)]\<rparr>))"

section \<open>One file\<close>

text \<open>A file counts for its action or as failed, unless the run is being cancelled.\<close>

definition book :: "((nat \<Rightarrow> nat) \<Rightarrow> counts \<Rightarrow> counts) \<Rightarrow> bool \<Rightarrow> 's exec \<Rightarrow> 's exec" where
  "book counter ok st =
     (if ok then st\<lparr>ex_counts := counter Suc (ex_counts st)\<rparr>
      else let (stop, c) = poll (ex_cancelled st);
               st = st\<lparr>ex_cancelled := c\<rparr>
           in if stop then st else st\<lparr>ex_counts := ct_fail_update Suc (ex_counts st)\<rparr>)"

fun fetch_attempts ::
  "nat \<Rightarrow> 's s3_client \<Rightarrow> string \<Rightarrow> string \<Rightarrow> int \<Rightarrow> cancel \<Rightarrow> 's \<Rightarrow> byte list option \<times> cancel \<times> 's" where
  "fetch_attempts 0 client bucket key s3_size cancelled s = (None, cancelled, s)"
| "fetch_attempts (Suc n) client bucket key s3_size cancelled s =
     (let (stop, cancelled) = poll cancelled in
      if stop then (None, cancelled, s)
      else let ((ok, d), s) = GetObjectRangeInto client bucket key 0 (s3_size - 1) s in
        if ok \<and> int (length d) = s3_size then (Some d, cancelled, s)
        else fetch_attempts n client bucket key s3_size cancelled s)"

definition enqueue :: "sync_file_entry \<Rightarrow> byte list \<Rightarrow> 's exec \<Rightarrow> bool \<times> 's exec" where
  "enqueue f data st =
     (let (stop, c) = poll (ex_cancelled st); st = st\<lparr>ex_cancelled := c\<rparr>
      in (True, if stop then st else st\<lparr>ex_queue := ex_queue st @ [(se_path f, data)]\<rparr>))"

definition process_upload :: "'s env \<Rightarrow> sync_file_entry \<Rightarrow> byte list \<Rightarrow> 's exec \<Rightarrow> bool \<times> 's exec" where
  "process_upload env f pre_read st =
     (let cfg = en_cfg env; dst = sc_destination cfg in
      if sc_direction cfg = LocalToLocal then
        let (ok, n, c, fs) = copy_local_file (en_canon env (ex_fs st)) (en_pexists env (ex_fs st)) (sc_local_path cfg)
                               (sc_dest_local_path cfg) (se_path f) (ex_cancelled st) (ex_fs st)
        in (ok, book ct_upload_update ok
                  (st\<lparr>ex_cancelled := c, ex_fs := fs, ex_transferred := ex_transferred st + int n\<rparr>))
      else let (ok, n, c, s) =
             (if pre_read \<noteq> []
              then upload_from_data (client_of env) (fs_bucket dst) (dest_key env f) pre_read (ex_cancelled st) (ex_world st)
              else upload_small_file (client_of env) (ex_fs st) (sc_local_path cfg) (se_path f) (fs_bucket dst)
                     (fs_path dst) (ex_cancelled st) (ex_world st))
        in (ok, book ct_upload_update ok
                  (st\<lparr>ex_cancelled := c, ex_world := s, ex_transferred := ex_transferred st + int n\<rparr>)))"

definition process_upload_diff :: "'s env \<Rightarrow> sync_file_entry \<Rightarrow> 's exec \<Rightarrow> bool \<times> 's exec" where
  "process_upload_diff env f st =
     (let cfg = en_cfg env; dst = sc_destination cfg;
          (ok, n, saved, c, s) = diff_upload_file (en_crc env) (en_reader env) (client_of env) (ex_fs st)
            (sc_local_path cfg) (se_path f) (fs_bucket dst) (fs_path dst) (ex_cancelled st) (ex_world st)
      in (ok, book ct_diff_upload_update ok
                (st\<lparr>ex_cancelled := c, ex_world := s, ex_transferred := ex_transferred st + n,
                    ex_saved := ex_saved st + saved\<rparr>)))"

definition process_download :: "'s env \<Rightarrow> sync_file_entry \<Rightarrow> byte list \<Rightarrow> 's exec \<Rightarrow> bool \<times> 's exec" where
  "process_download env f pre_read st =
     (let cfg = en_cfg env in
      if pre_read \<noteq> [] then enqueue f pre_read st
      else if se_s3_size f = 0 then
        let (ok, n, fs) = download_from_data (en_canon env (ex_fs st)) (en_pexists env (ex_fs st)) (sc_local_path cfg)
                            (se_path f) [] (ex_fs st)
        in (ok, book ct_download_update ok (st\<lparr>ex_fs := fs, ex_transferred := ex_transferred st + int n\<rparr>))
      else let (d, c, s) = fetch_attempts (MAX_RETRIES + 1) (client_of env) (fs_bucket (sc_source cfg)) (source_key env f)
                             (se_s3_size f) (ex_cancelled st) (ex_world st);
               st = st\<lparr>ex_cancelled := c, ex_world := s\<rparr>
           in (case d of
                 None \<Rightarrow> (False, book ct_download_update False st)
               | Some d \<Rightarrow> enqueue f d st))"

definition process_download_diff :: "'s env \<Rightarrow> sync_file_entry \<Rightarrow> 's exec \<Rightarrow> bool \<times> 's exec" where
  "process_download_diff env f st =
     (let cfg = en_cfg env; src = sc_source cfg;
          (ok, n, saved, c, fs, s) = diff_download_file (en_canon env (ex_fs st)) (en_pexists env (ex_fs st)) (en_crc env)
            (en_reader env) (client_of env) (sc_local_path cfg) (se_path f) (fs_bucket src) (fs_path src)
            (se_s3_size f) (ex_cancelled st) (ex_fs st) (ex_world st)
      in (ok, book ct_diff_download_update ok
                (st\<lparr>ex_cancelled := c, ex_fs := fs, ex_world := s, ex_transferred := ex_transferred st + n,
                    ex_saved := ex_saved st + saved\<rparr>)))"

definition process_copy :: "'s env \<Rightarrow> sync_file_entry \<Rightarrow> 's exec \<Rightarrow> bool \<times> 's exec" where
  "process_copy env f st =
     (let cfg = en_cfg env;
          (ok, n, c, s) = copy_s3_object (client_of env) (fs_bucket (sc_source cfg)) (source_key env f)
            (fs_bucket (sc_destination cfg)) (dest_key env f) (se_s3_size f) (ex_cancelled st) (ex_world st)
      in (ok, book ct_copy_update ok
                (st\<lparr>ex_cancelled := c, ex_world := s, ex_server_side := ex_server_side st + n\<rparr>)))"

definition process_delete :: "'s env \<Rightarrow> sync_file_entry \<Rightarrow> 's exec \<Rightarrow> bool \<times> 's exec" where
  "process_delete env f st =
     (let cfg = en_cfg env; dst = sc_destination cfg in
      if sc_direction cfg = S3ToS3 \<or> sc_direction cfg = DirUpload then
        let (ok, c, s) = delete_s3_object (client_of env) (fs_bucket dst) (fs_path dst) (se_path f)
                           (ex_cancelled st) (ex_world st)
        in (ok, book ct_delete_update ok (st\<lparr>ex_cancelled := c, ex_world := s\<rparr>))
      else let base = (if sc_direction cfg = DirDownload then sc_local_path cfg else sc_dest_local_path cfg);
               (ok, c, fs) = delete_local_file (en_canon env (ex_fs st)) (en_pexists env (ex_fs st)) base (se_path f)
                               (ex_cancelled st) (ex_fs st)
           in (ok, book ct_delete_update ok (st\<lparr>ex_cancelled := c, ex_fs := fs\<rparr>)))"

definition process_file :: "'s env \<Rightarrow> sync_file_entry \<Rightarrow> byte list \<Rightarrow> 's exec \<Rightarrow> bool \<times> 's exec" where
  "process_file env f pre_read st =
     (let (stop, c) = poll (ex_cancelled st); st = st\<lparr>ex_cancelled := c\<rparr> in
      if stop then (False, st)
      else case se_action f of
             Upload \<Rightarrow> process_upload env f pre_read st
           | UploadDiff \<Rightarrow> process_upload_diff env f st
           | Download \<Rightarrow> process_download env f pre_read st
           | DownloadDiff \<Rightarrow> process_download_diff env f st
           | Copy \<Rightarrow> process_copy env f st
           | Delete \<Rightarrow> process_delete env f st
           | Skip \<Rightarrow> (False, st))"

text \<open>The width of the window after a file.\<close>

definition adapt_window :: "'s env \<Rightarrow> sync_file_entry list \<Rightarrow> bool \<Rightarrow> 's exec \<Rightarrow> 's exec" where
  "adapt_window env files success st =
     (if \<not> success then
        let (stop, c) = poll (ex_cancelled st); st = st\<lparr>ex_cancelled := c\<rparr> in
        if stop then st
        else st\<lparr>ex_successes := 0, ex_window := min (ex_window st) (max (ex_window st div 2) 16)\<rparr>
      else let successes = ex_successes st + 1;
               to_s3 = sc_direction (en_cfg env) = S3ToS3;
               current = ex_window st;
               increment = (if to_s3 then current else max (current div 2) 1)
           in st\<lparr>ex_successes := successes,
                 ex_window := (if successes mod (if to_s3 then 100 else 10) = 0 \<and> current < max_concurrency env files
                               then min (current + increment) (max_concurrency env files) else current)\<rparr>)"

text \<open>A task that would have to wait for the disk writers waits before it starts.\<close>

definition step_task :: "'s env \<Rightarrow> sync_file_entry list \<Rightarrow> nat \<Rightarrow> 's exec \<Rightarrow> 's exec option" where
  "step_task env files k st =
     (if k \<ge> length (ex_tasks st) then None
      else let (i, data) = ex_tasks st ! k; f = files ! i in
        if se_action f = Download \<and> length (ex_queue st) \<ge> WRITE_QUEUE_MAX_SIZE \<and> ex_cancelled st \<noteq> Some 0 then None
        else let (success, st) = process_file env f data st;
                 st = adapt_window env files success st
             in Some (st\<lparr>ex_tasks := take k (ex_tasks st) @ drop (Suc k) (ex_tasks st)\<rparr>))"

section \<open>Writing to disk\<close>

definition step_write :: "'s env \<Rightarrow> 's exec \<Rightarrow> 's exec option" where
  "step_write env st =
     (if sc_direction (en_cfg env) \<noteq> DirDownload then None
      else case ex_queue st of
        [] \<Rightarrow> None
      | (rel, data) # jobs \<Rightarrow>
          let (ok, n, fs) = download_from_data (en_canon env (ex_fs st)) (en_pexists env (ex_fs st))
                              (sc_local_path (en_cfg env)) rel data (ex_fs st)
          in Some (st\<lparr>ex_queue := jobs, ex_fs := fs, ex_transferred := ex_transferred st + int n,
                      ex_counts := (if ok then ct_download_update Suc (ex_counts st)
                                    else ct_fail_update Suc (ex_counts st))\<rparr>))"

section \<open>Interleavings\<close>

definition sync_step :: "'s env \<Rightarrow> sync_file_entry list \<Rightarrow> sync_event \<Rightarrow> 's exec \<Rightarrow> 's exec option" where
  "sync_step env files ev st =
     (case ev of
        Prefetch \<Rightarrow> step_prefetch env files st
      | Submit \<Rightarrow> step_submit env files st
      | RunTask k \<Rightarrow> step_task env files k st
      | WriteJob \<Rightarrow> step_write env st)"

fun sync_steps :: "'s env \<Rightarrow> sync_file_entry list \<Rightarrow> sync_event list \<Rightarrow> 's exec \<Rightarrow> 's exec option" where
  "sync_steps env files [] st = Some st"
| "sync_steps env files (ev # evs) st =
     (case sync_step env files ev st of None \<Rightarrow> None | Some st \<Rightarrow> sync_steps env files evs st)"

text \<open>Every thread has run to its end: the loop is left, no task is in flight, no job is queued.\<close>

definition finished :: "sync_file_entry list \<Rightarrow> 's exec \<Rightarrow> bool" where
  "finished files st \<longleftrightarrow> (ex_stopped st \<or> ex_next st \<ge> length files) \<and> ex_tasks st = [] \<and> ex_queue st = []"

section \<open>What a file's processing leaves alone\<close>

text \<open>The fields only the scheduling uses.\<close>

definition frame :: "'s exec \<Rightarrow> _" where
  "frame st = (ex_next st, ex_stopped st, ex_fetch st, ex_cache st, ex_cache_bytes st, ex_tasks st, ex_window st,
     ex_successes st)"

lemma frame_eq [simp]:
  "frame st' = frame st \<longleftrightarrow> ex_next st' = ex_next st \<and> ex_stopped st' = ex_stopped st \<and> ex_fetch st' = ex_fetch st \<and>
     ex_cache st' = ex_cache st \<and> ex_cache_bytes st' = ex_cache_bytes st \<and> ex_tasks st' = ex_tasks st \<and>
     ex_window st' = ex_window st \<and> ex_successes st' = ex_successes st"
  by (auto simp: frame_def)

lemma book_simps [simp]:
  "ex_next (book ct ok st) = ex_next st" "ex_stopped (book ct ok st) = ex_stopped st"
  "ex_fetch (book ct ok st) = ex_fetch st" "ex_cache (book ct ok st) = ex_cache st"
  "ex_cache_bytes (book ct ok st) = ex_cache_bytes st" "ex_tasks (book ct ok st) = ex_tasks st"
  "ex_queue (book ct ok st) = ex_queue st" "ex_window (book ct ok st) = ex_window st"
  "ex_successes (book ct ok st) = ex_successes st" "ex_fs (book ct ok st) = ex_fs st"
  "ex_world (book ct ok st) = ex_world st" "ex_transferred (book ct ok st) = ex_transferred st"
  by (simp_all add: book_def Let_def split: prod.splits)

lemmas process_defs = process_upload_def process_upload_diff_def process_download_def process_download_diff_def
  process_copy_def process_delete_def Let_def

lemma enqueue_cases:
  "enqueue f d st = (ok, st') \<Longrightarrow> ok \<and> frame st' = frame st \<and> ex_counts st' = ex_counts st \<and> ex_fs st' = ex_fs st \<and>
     ex_world st' = ex_world st \<and>
     (ex_queue st' = ex_queue st @ [(se_path f, d)] \<or> ex_queue st' = ex_queue st \<and> ex_cancelled st' = Some 0)"
  by (cases "poll (ex_cancelled st)") (auto simp: enqueue_def Let_def poll_sticky split: if_splits)

lemma process_upload_frame: "process_upload env f d st = (ok, st') \<Longrightarrow> frame st' = frame st \<and> ex_queue st' = ex_queue st"
  by (auto simp: process_upload_def Let_def split: prod.splits if_splits)

lemma process_upload_diff_frame: "process_upload_diff env f st = (ok, st') \<Longrightarrow> frame st' = frame st \<and> ex_queue st' = ex_queue st"
  by (auto simp: process_upload_diff_def Let_def split: prod.splits)

lemma process_download_diff_frame:
  "process_download_diff env f st = (ok, st') \<Longrightarrow> frame st' = frame st \<and> ex_queue st' = ex_queue st"
  by (auto simp: process_download_diff_def Let_def split: prod.splits)

lemma process_copy_frame: "process_copy env f st = (ok, st') \<Longrightarrow> frame st' = frame st \<and> ex_queue st' = ex_queue st"
  by (auto simp: process_copy_def Let_def split: prod.splits)

lemma process_delete_frame: "process_delete env f st = (ok, st') \<Longrightarrow> frame st' = frame st \<and> ex_queue st' = ex_queue st"
  by (auto simp: process_delete_def Let_def split: prod.splits if_splits)

lemma process_download_frame:
  assumes "process_download env f d st = (ok, st')"
  shows "frame st' = frame st \<and> (ex_queue st' = ex_queue st \<or> (\<exists>x. ex_queue st' = ex_queue st @ [(se_path f, x)]))"
proof (cases "d = [] \<and> se_s3_size f \<noteq> 0")
  case False
  with assms show ?thesis
    by (auto simp: process_download_def Let_def dest: enqueue_cases split: prod.splits if_splits)
next
  case True
  obtain r c s where a: "fetch_attempts (MAX_RETRIES + 1) (client_of env) (fs_bucket (sc_source (en_cfg env))) (source_key env f)
      (se_s3_size f) (ex_cancelled st) (ex_world st) = (r, c, s)"
    by (metis surj_pair)
  with assms True have e: "(case r of None \<Rightarrow> (False, book ct_download_update False (st\<lparr>ex_cancelled := c, ex_world := s\<rparr>))
      | Some d \<Rightarrow> enqueue f d (st\<lparr>ex_cancelled := c, ex_world := s\<rparr>)) = (ok, st')"
    by (simp add: process_download_def Let_def del: fetch_attempts.simps)
  then show ?thesis
    by (cases r) (auto dest: enqueue_cases)
qed

lemma process_file_frame:
  assumes "process_file env f d st = (ok, st')"
  shows "frame st' = frame st \<and> (ex_queue st' = ex_queue st \<or>
           se_action f = Download \<and> ex_cancelled st \<noteq> Some 0 \<and> (\<exists>x. ex_queue st' = ex_queue st @ [(se_path f, x)]))"
proof -
  obtain stop c where p: "poll (ex_cancelled st) = (stop, c)" by fastforce
  define st1 where "st1 = st\<lparr>ex_cancelled := c\<rparr>"
  have f1: "frame st1 = frame st" "ex_queue st1 = ex_queue st" by (simp_all add: st1_def)
  show ?thesis
  proof (cases stop)
    case True
    with assms p show ?thesis by (auto simp: process_file_def)
  next
    case False
    then have "ex_cancelled st \<noteq> Some 0" using p by auto
    moreover have "(case se_action f of
             Upload \<Rightarrow> process_upload env f d st1 | UploadDiff \<Rightarrow> process_upload_diff env f st1
           | Download \<Rightarrow> process_download env f d st1 | DownloadDiff \<Rightarrow> process_download_diff env f st1
           | Copy \<Rightarrow> process_copy env f st1 | Delete \<Rightarrow> process_delete env f st1 | Skip \<Rightarrow> (False, st1)) = (ok, st')"
      using assms p False unfolding process_file_def st1_def Let_def by simp
    ultimately show ?thesis
      using f1 process_upload_frame [of env f d st1 ok st'] process_upload_diff_frame [of env f st1 ok st']
        process_download_frame [of env f d st1 ok st'] process_download_diff_frame [of env f st1 ok st']
        process_copy_frame [of env f st1 ok st'] process_delete_frame [of env f st1 ok st']
      by (cases "se_action f") auto
  qed
qed

lemma adapt_window_cases:
  assumes "adapt_window env files ok st = st'"
  shows "ex_next st' = ex_next st \<and> ex_stopped st' = ex_stopped st \<and> ex_fetch st' = ex_fetch st \<and>
     ex_cache st' = ex_cache st \<and> ex_cache_bytes st' = ex_cache_bytes st \<and> ex_tasks st' = ex_tasks st \<and>
     ex_queue st' = ex_queue st \<and> ex_counts st' = ex_counts st \<and> ex_fs st' = ex_fs st \<and> ex_world st' = ex_world st \<and>
     (ex_cancelled st = Some 0 \<longrightarrow> ex_cancelled st' = Some 0) \<and>
     (ex_window st \<le> max_concurrency env files \<longrightarrow>
        ex_window st' \<le> max_concurrency env files \<and> (0 < ex_window st \<longrightarrow> 0 < ex_window st'))"
  using assms by (auto simp: adapt_window_def Let_def split: prod.splits if_splits)

section \<open>No interleaving runs forever or gets stuck\<close>

text \<open>The plan holds what its direction transfers, and nothing to be skipped.\<close>

definition well_planned :: "sync_config \<Rightarrow> sync_file_entry list \<Rightarrow> bool" where
  "well_planned cfg files \<longleftrightarrow>
     list_all (\<lambda>f. se_action f \<noteq> Skip \<and> (if se_action f = Download then sc_direction cfg = DirDownload else True)) files"

definition sound :: "'s env \<Rightarrow> sync_file_entry list \<Rightarrow> 's exec \<Rightarrow> bool" where
  "sound env files st \<longleftrightarrow>
     ex_next st \<le> length files \<and> ex_fetch st \<le> length files \<and>
     list_all (\<lambda>(i, d). i < ex_next st) (ex_tasks st) \<and>
     length (ex_tasks st) \<le> max_concurrency env files \<and>
     length (ex_queue st) \<le> WRITE_QUEUE_MAX_SIZE \<and>
     (ex_queue st \<noteq> [] \<longrightarrow> sc_direction (en_cfg env) = DirDownload) \<and>
     ex_cache_bytes st \<le> PRE_READ_MAX_TOTAL_BYTES \<and>
     (ex_stopped st \<longrightarrow> ex_cancelled st = Some 0) \<and>
     ex_window st \<le> max_concurrency env files \<and> (0 < max_concurrency env files \<longrightarrow> 0 < ex_window st)"

definition work_left :: "sync_file_entry list \<Rightarrow> 's exec \<Rightarrow> nat" where
  "work_left files st =
     3 * (if ex_stopped st then 0 else length files - ex_next st) + 2 * length (ex_tasks st) + length (ex_queue st) +
     (length files - ex_fetch st)"

lemma sound_initial: "sound env files (initial_exec env files c fs s)"
  by (auto simp: sound_def initial_exec_def WRITE_QUEUE_MAX_SIZE_def PRE_READ_MAX_TOTAL_BYTES_def max_concurrency_def min_def)

text \<open>What each step does to the scheduling.\<close>

lemma step_prefetch_frame:
  assumes "step_prefetch env files st = Some st'"
  shows "ex_fetch st < ex_fetch st' \<and> ex_fetch st' \<le> length files \<and> ex_next st' = ex_next st \<and>
     ex_stopped st' = ex_stopped st \<and> ex_tasks st' = ex_tasks st \<and> ex_queue st' = ex_queue st \<and>
     ex_window st' = ex_window st \<and> ex_counts st' = ex_counts st \<and> ex_fs st' = ex_fs st \<and>
     (ex_cache_bytes st \<le> PRE_READ_MAX_TOTAL_BYTES \<longrightarrow> ex_cache_bytes st' \<le> PRE_READ_MAX_TOTAL_BYTES) \<and>
     (ex_cancelled st = Some 0 \<longrightarrow> ex_cancelled st' = Some 0)"
  using assms by (auto simp: step_prefetch_def Let_def split: prod.splits if_splits)

lemma step_submit_frame:
  assumes "step_submit env files st = Some st'"
  shows "\<not> ex_stopped st \<and> ex_next st < length files \<and> ex_fetch st' = ex_fetch st \<and> ex_queue st' = ex_queue st \<and>
     ex_window st' = ex_window st \<and> ex_counts st' = ex_counts st \<and> ex_fs st' = ex_fs st \<and> ex_world st' = ex_world st \<and>
     ex_cache_bytes st' \<le> ex_cache_bytes st \<and> (ex_cancelled st = Some 0 \<longrightarrow> ex_cancelled st' = Some 0) \<and>
     (ex_stopped st' \<and> ex_cancelled st' = Some 0 \<and> ex_next st' = ex_next st \<and> ex_tasks st' = ex_tasks st \<or>
      \<not> ex_stopped st' \<and> ex_next st' = ex_next st + 1 \<and> length (ex_tasks st) < ex_window st \<and>
      (\<exists>d. ex_tasks st' = ex_tasks st @ [(ex_next st, d)] \<and> (d = [] \<or> (se_path (files ! ex_next st), d) \<in> set (ex_cache st)))) \<and>
     set (ex_cache st') \<subseteq> set (ex_cache st)"
  using assms
  by (auto simp: step_submit_def Let_def poll_sticky AList.delete_eq dest: map_of_SomeD split: prod.splits if_splits option.splits)

lemma step_task_cases:
  assumes "step_task env files k st = Some st'"
  obtains i data ok st1 where "k < length (ex_tasks st)" "ex_tasks st ! k = (i, data)"
    "process_file env (files ! i) data st = (ok, st1)" "ex_tasks st' = take k (ex_tasks st) @ drop (Suc k) (ex_tasks st)"
    "ex_next st' = ex_next st" "ex_stopped st' = ex_stopped st" "ex_fetch st' = ex_fetch st"
    "ex_cache_bytes st' = ex_cache_bytes st" "ex_cache st' = ex_cache st" "ex_queue st' = ex_queue st1"
    "ex_counts st' = ex_counts st1" "ex_fs st' = ex_fs st1" "ex_world st' = ex_world st1"
    "ex_cancelled st1 = Some 0 \<Longrightarrow> ex_cancelled st' = Some 0"
    "ex_queue st1 = ex_queue st \<or> se_action (files ! i) = Download \<and> length (ex_queue st) < WRITE_QUEUE_MAX_SIZE \<and>
       (\<exists>x. ex_queue st1 = ex_queue st @ [(se_path (files ! i), x)])"
    "ex_window st \<le> max_concurrency env files \<Longrightarrow>
       ex_window st' \<le> max_concurrency env files \<and> (0 < ex_window st \<longrightarrow> 0 < ex_window st')"
proof -
  have k: "k < length (ex_tasks st)" using assms by (auto simp: step_task_def split: if_splits)
  obtain i data where t: "ex_tasks st ! k = (i, data)" by fastforce
  obtain ok st1 where p: "process_file env (files ! i) data st = (ok, st1)" by fastforce
  define st2 where "st2 = adapt_window env files ok st1"
  from assms k t p have st': "st' = st2\<lparr>ex_tasks := take k (ex_tasks st2) @ drop (Suc k) (ex_tasks st2)\<rparr>"
    "\<not> (se_action (files ! i) = Download \<and> length (ex_queue st) \<ge> WRITE_QUEUE_MAX_SIZE \<and> ex_cancelled st \<noteq> Some 0)"
    by (auto simp: step_task_def Let_def st2_def split: if_splits)
  note f = process_file_frame [OF p]
  note a = adapt_window_cases [OF st2_def [symmetric]]
  show ?thesis
    by (rule that [OF k t p]) (use st' f a in auto)
qed

lemma step_write_cases:
  assumes "step_write env st = Some st'"
  obtains rel data jobs ok n fs where "sc_direction (en_cfg env) = DirDownload" "ex_queue st = (rel, data) # jobs"
    "download_from_data (en_canon env (ex_fs st)) (en_pexists env (ex_fs st)) (sc_local_path (en_cfg env)) rel data
       (ex_fs st) = (ok, n, fs)"
    "st' = st\<lparr>ex_queue := jobs, ex_fs := fs, ex_transferred := ex_transferred st + int n,
              ex_counts := (if ok then ct_download_update Suc (ex_counts st) else ct_fail_update Suc (ex_counts st))\<rparr>"
  using assms by (auto simp: step_write_def split: if_splits list.splits prod.splits)

lemma well_planned_nth:
  "well_planned cfg files \<Longrightarrow> i < length files \<Longrightarrow>
     se_action (files ! i) \<noteq> Skip \<and> (se_action (files ! i) = Download \<longrightarrow> sc_direction cfg = DirDownload)"
  by (auto simp: well_planned_def list_all_length)

lemma sound_step:
  assumes "sync_step env files ev st = Some st'" "sound env files st" "well_planned (en_cfg env) files"
  shows "sound env files st' \<and> work_left files st' < work_left files st"
proof (cases ev)
  case Prefetch
  with assms(1) have "step_prefetch env files st = Some st'" by (simp add: sync_step_def)
  from step_prefetch_frame [OF this] assms(2) show ?thesis by (auto simp: sound_def work_left_def)
next
  case Submit
  with assms(1) have "step_submit env files st = Some st'" by (simp add: sync_step_def)
  note f = step_submit_frame [OF this]
  have "list_all (\<lambda>(i, d). i < ex_next st') (ex_tasks st')"
    using f assms(2) by (auto simp: sound_def list_all_iff intro: less_SucI dest: bspec)
  moreover from f have "ex_stopped st' \<and> ex_cancelled st' = Some 0 \<and> ex_next st' = ex_next st \<and> ex_tasks st' = ex_tasks st \<or>
      \<not> ex_stopped st' \<and> ex_next st' = ex_next st + 1 \<and> length (ex_tasks st) < ex_window st \<and>
      length (ex_tasks st') = length (ex_tasks st) + 1"
    by auto
  ultimately show ?thesis
    using f assms(2) unfolding sound_def work_left_def by (elim disjE conjE) simp_all
next
  case (RunTask k)
  with assms(1) have "step_task env files k st = Some st'" by (simp add: sync_step_def)
  then show ?thesis
  proof (cases rule: step_task_cases)
    case (1 i data ok st1)
    have "i < ex_next st" using assms(2) 1(1,2) nth_mem [of k "ex_tasks st"] by (fastforce simp: sound_def list_all_iff)
    then have "i < length files" using assms(2) by (simp add: sound_def)
    with well_planned_nth [OF assms(3)] have "se_action (files ! i) = Download \<longrightarrow> sc_direction (en_cfg env) = DirDownload"
      by blast
    moreover have "list_all (\<lambda>(i, d). i < ex_next st) (take k (ex_tasks st) @ drop (Suc k) (ex_tasks st))"
      using assms(2) by (auto simp: sound_def list_all_iff dest: in_set_takeD in_set_dropD)
    moreover have "ex_stopped st \<longrightarrow> ex_cancelled st' = Some 0"
    proof
      assume "ex_stopped st"
      then have "ex_cancelled st = Some 0" using assms(2) by (simp add: sound_def)
      with 1(3) have "ex_cancelled st1 = Some 0" by (auto simp: process_file_def)
      then show "ex_cancelled st' = Some 0" by (rule 1(14))
    qed
    moreover have "length (ex_tasks st') + 1 = length (ex_tasks st)" using 1(1,4) by simp
    moreover have "length (ex_queue st') \<le> length (ex_queue st) + 1" "length (ex_queue st') \<le> WRITE_QUEUE_MAX_SIZE"
      "ex_queue st' \<noteq> [] \<longrightarrow> sc_direction (en_cfg env) = DirDownload"
      using 1(10,15) assms(2) calculation(1) by (auto simp: sound_def)
    ultimately have t: "list_all (\<lambda>(i, d). i < ex_next st) (ex_tasks st')" "ex_stopped st \<longrightarrow> ex_cancelled st' = Some 0"
      "2 * length (ex_tasks st') + length (ex_queue st') < 2 * length (ex_tasks st) + length (ex_queue st)"
      "length (ex_tasks st') \<le> length (ex_tasks st)" "length (ex_queue st') \<le> WRITE_QUEUE_MAX_SIZE"
      "ex_queue st' \<noteq> [] \<longrightarrow> sc_direction (en_cfg env) = DirDownload"
      unfolding 1(4) by simp_all
    from t(3) have "work_left files st' < work_left files st" unfolding work_left_def 1(5-7) by linarith
    moreover from t(1,2,4-6) 1(16) assms(2) have "sound env files st'" unfolding sound_def 1(5-8) by simp
    ultimately show ?thesis by simp
  qed
next
  case WriteJob
  with assms(1) have "step_write env st = Some st'" by (simp add: sync_step_def)
  then show ?thesis
    by (cases rule: step_write_cases) (use assms(2) in \<open>auto simp: sound_def work_left_def\<close>)
qed

lemma sound_steps:
  assumes "sync_steps env files evs st = Some st'" "sound env files st" "well_planned (en_cfg env) files"
  shows "sound env files st' \<and> length evs + work_left files st' \<le> work_left files st"
  using assms(1,2)
proof (induction evs arbitrary: st)
  case (Cons ev evs)
  then obtain st1 where e: "sync_step env files ev st = Some st1" "sync_steps env files evs st1 = Some st'"
    by (auto split: option.splits)
  from sound_step [OF e(1) Cons.prems(2) assms(3)] Cons.IH [OF e(2)] show ?case by auto
qed simp

lemma some_step:
  assumes "sound env files st" "well_planned (en_cfg env) files" "0 < en_threads env" "\<not> finished files st"
  shows "\<exists>ev st'. sync_step env files ev st = Some st'"
proof -
  consider (job) "ex_queue st \<noteq> []" | (task) "ex_queue st = []" "ex_tasks st \<noteq> []"
    | (submit) "ex_queue st = []" "ex_tasks st = []" "\<not> ex_stopped st" "ex_next st < length files"
    using assms(4) unfolding finished_def by (meson not_le)
  then show ?thesis
  proof cases
    case job
    with assms(1) have "sc_direction (en_cfg env) = DirDownload" by (simp add: sound_def)
    with job have "step_write env st \<noteq> None" by (auto simp: step_write_def split: prod.splits list.splits)
    then show ?thesis by (intro exI [of _ WriteJob]) (auto simp: sync_step_def)
  next
    case task
    then have "step_task env files 0 st \<noteq> None"
      by (auto simp: step_task_def WRITE_QUEUE_MAX_SIZE_def Let_def split: prod.splits)
    then show ?thesis by (intro exI [of _ "RunTask 0"]) (auto simp: sync_step_def)
  next
    case submit
    then have "0 < max_concurrency env files" using assms(3) by (auto simp: max_concurrency_def)
    with assms(1) have "0 < ex_window st" by (simp add: sound_def)
    with submit have "step_submit env files st \<noteq> None"
      by (auto simp: step_submit_def Let_def split: prod.splits option.splits)
    then show ?thesis by (intro exI [of _ Submit]) (auto simp: sync_step_def)
  qed
qed

section \<open>Every file is counted once\<close>

text \<open>Files that have been submitted and are neither in flight nor queued, against the counters.\<close>

definition accounted :: "'s exec \<Rightarrow> nat" where
  "accounted st = counted (ex_counts st) + length (ex_queue st)"

definition books_balance :: "'s exec \<Rightarrow> bool" where
  "books_balance st \<longleftrightarrow> accounted st + length (ex_tasks st) \<le> ex_next st \<and>
     (ex_cancelled st \<noteq> Some 0 \<longrightarrow> accounted st + length (ex_tasks st) = ex_next st)"

text \<open>A counter of \<^typ>\<open>counts\<close>.\<close>

definition counts_one :: "((nat \<Rightarrow> nat) \<Rightarrow> counts \<Rightarrow> counts) \<Rightarrow> bool" where
  "counts_one counter \<longleftrightarrow> (\<forall>ct. counted (counter Suc ct) = counted ct + 1)"

lemma counts_one_simps [simp]:
  "counts_one ct_upload_update" "counts_one ct_diff_upload_update" "counts_one ct_download_update"
  "counts_one ct_diff_download_update" "counts_one ct_copy_update" "counts_one ct_delete_update"
  "counts_one ct_fail_update"
  by (simp_all add: counts_one_def counted_def)

definition one_more :: "'s exec \<Rightarrow> 's exec \<Rightarrow> bool" where
  "one_more st st' \<longleftrightarrow> accounted st' \<le> accounted st + 1 \<and> (ex_cancelled st' \<noteq> Some 0 \<longrightarrow> accounted st' = accounted st + 1)"

lemma book_one_more:
  assumes "counts_one counter" "ex_counts st1 = ex_counts st" "ex_queue st1 = ex_queue st"
  shows "one_more st (book counter ok st1)"
proof -
  obtain stop c where p: "poll (ex_cancelled st1) = (stop, c)" by fastforce
  have f: "counts_one ct_fail_update" by simp
  consider "ok" | "\<not> ok" "stop" "c = Some 0" | "\<not> ok" "\<not> stop" using p poll_sticky [of "ex_cancelled st1" c] by auto
  then show ?thesis
  proof cases
    case 1
    then have "book counter ok st1 = st1\<lparr>ex_counts := counter Suc (ex_counts st)\<rparr>" using assms(2) by (simp add: book_def)
    with assms show ?thesis by (simp add: one_more_def accounted_def counts_one_def)
  next
    case 2
    then have "book counter ok st1 = st1\<lparr>ex_cancelled := c\<rparr>" using p by (simp add: book_def)
    with 2 assms show ?thesis by (simp add: one_more_def accounted_def)
  next
    case 3
    then have "book counter ok st1 = st1\<lparr>ex_cancelled := c, ex_counts := ct_fail_update Suc (ex_counts st)\<rparr>"
      using p assms(2) by (simp add: book_def)
    with f assms show ?thesis by (simp add: one_more_def accounted_def counts_one_def)
  qed
qed

lemma enqueue_one_more:
  assumes "enqueue f d st1 = (ok, st')" "ex_counts st1 = ex_counts st" "ex_queue st1 = ex_queue st"
  shows "one_more st st'"
  using enqueue_cases [OF assms(1)] assms(2,3) by (auto simp: one_more_def accounted_def)

lemma process_upload_one_more: "process_upload env f d st = (ok, st') \<Longrightarrow> one_more st st'"
  by (auto simp: process_upload_def Let_def intro!: book_one_more split: prod.splits if_splits)

lemma process_download_one_more:
  assumes "process_download env f d st = (ok, st')"
  shows "one_more st st'"
proof (cases "d = [] \<and> se_s3_size f \<noteq> 0")
  case False
  with assms show ?thesis
    by (auto simp: process_download_def Let_def intro!: book_one_more dest!: enqueue_one_more split: prod.splits if_splits)
next
  case True
  obtain r c s where a: "fetch_attempts (MAX_RETRIES + 1) (client_of env) (fs_bucket (sc_source (en_cfg env))) (source_key env f)
      (se_s3_size f) (ex_cancelled st) (ex_world st) = (r, c, s)"
    by (metis surj_pair)
  with assms True have "(case r of None \<Rightarrow> (False, book ct_download_update False (st\<lparr>ex_cancelled := c, ex_world := s\<rparr>))
      | Some d \<Rightarrow> enqueue f d (st\<lparr>ex_cancelled := c, ex_world := s\<rparr>)) = (ok, st')"
    by (simp add: process_download_def Let_def del: fetch_attempts.simps)
  then show ?thesis
    by (cases r) (auto intro!: book_one_more dest: enqueue_one_more)
qed

lemma process_diff_one_more:
  "process_upload_diff env f st = (ok, st') \<Longrightarrow> one_more st st'"
  "process_download_diff env f st = (ok, st') \<Longrightarrow> one_more st st'"
  "process_copy env f st = (ok, st') \<Longrightarrow> one_more st st'"
  "process_delete env f st = (ok, st') \<Longrightarrow> one_more st st'"
  by (auto simp: process_upload_diff_def process_download_diff_def process_copy_def process_delete_def Let_def
      intro!: book_one_more split: prod.splits if_splits)

lemma process_file_one_more:
  assumes "process_file env f d st = (ok, st')" "se_action f \<noteq> Skip"
  shows "one_more st st'"
proof -
  obtain stop c where p: "poll (ex_cancelled st) = (stop, c)" by fastforce
  define st1 where "st1 = st\<lparr>ex_cancelled := c\<rparr>"
  have eq: "one_more st1 st' = one_more st st'" by (simp add: st1_def one_more_def accounted_def)
  show ?thesis
  proof (cases stop)
    case True
    with assms(1) p poll_sticky [of "ex_cancelled st" c] have "st' = st1" "c = Some 0"
      by (auto simp: process_file_def st1_def)
    then show ?thesis by (simp add: one_more_def accounted_def st1_def)
  next
    case False
    have "(case se_action f of
             Upload \<Rightarrow> process_upload env f d st1 | UploadDiff \<Rightarrow> process_upload_diff env f st1
           | Download \<Rightarrow> process_download env f d st1 | DownloadDiff \<Rightarrow> process_download_diff env f st1
           | Copy \<Rightarrow> process_copy env f st1 | Delete \<Rightarrow> process_delete env f st1 | Skip \<Rightarrow> (False, st1)) = (ok, st')"
      using assms p False unfolding process_file_def st1_def Let_def by simp
    then have "one_more st1 st'" using assms(2)
      by (cases "se_action f") (auto intro: process_upload_one_more process_download_one_more process_diff_one_more)
    then show ?thesis by (simp add: eq)
  qed
qed

lemma process_file_cancelled: "process_file env f d st = (ok, st') \<Longrightarrow> ex_cancelled st = Some 0 \<Longrightarrow> ex_cancelled st' = Some 0"
  by (auto simp: process_file_def)

lemma books_step:
  assumes "sync_step env files ev st = Some st'" "sound env files st" "well_planned (en_cfg env) files" "books_balance st"
  shows "books_balance st'"
proof (cases ev)
  case Prefetch
  with assms(1) have "step_prefetch env files st = Some st'" by (simp add: sync_step_def)
  from step_prefetch_frame [OF this] assms(4) show ?thesis by (auto simp: books_balance_def accounted_def)
next
  case Submit
  with assms(1) have "step_submit env files st = Some st'" by (simp add: sync_step_def)
  from step_submit_frame [OF this] assms(4) show ?thesis by (auto simp: books_balance_def accounted_def)
next
  case (RunTask k)
  with assms(1) have "step_task env files k st = Some st'" by (simp add: sync_step_def)
  then show ?thesis
  proof (cases rule: step_task_cases)
    case (1 i data ok st1)
    have "i < ex_next st" using assms(2) 1(1,2) nth_mem [of k "ex_tasks st"] by (fastforce simp: sound_def list_all_iff)
    then have "i < length files" using assms(2) by (simp add: sound_def)
    with well_planned_nth [OF assms(3)] process_file_one_more [OF 1(3)] have o: "one_more st st1" by blast
    have l: "length (ex_tasks st') + 1 = length (ex_tasks st)" using 1(1,4) by simp
    have a: "accounted st' = accounted st1" using 1(10,11) by (simp add: accounted_def)
    have "ex_cancelled st = Some 0 \<Longrightarrow> ex_cancelled st' = Some 0"
      using process_file_cancelled [OF 1(3)] 1(14) by blast
    then show ?thesis
      using o l a 1(5,14) assms(4) unfolding books_balance_def one_more_def by fastforce
  qed
next
  case WriteJob
  with assms(1) have "step_write env st = Some st'" by (simp add: sync_step_def)
  then show ?thesis
  proof (cases rule: step_write_cases)
    case (1 rel data jobs ok n fs)
    then have "accounted st' = accounted st"
      using counts_one_simps by (auto simp: accounted_def counts_one_def)
    with 1(4) assms(4) show ?thesis by (simp add: books_balance_def)
  qed
qed

lemma books_steps:
  assumes "sync_steps env files evs st = Some st'" "sound env files st" "well_planned (en_cfg env) files" "books_balance st"
  shows "books_balance st'"
  using assms(1,2,4)
proof (induction evs arbitrary: st)
  case (Cons ev evs)
  then obtain st1 where e: "sync_step env files ev st = Some st1" "sync_steps env files evs st1 = Some st'"
    by (auto split: option.splits)
  from Cons.IH [OF e(2)] sound_step [OF e(1) Cons.prems(2) assms(3)] books_step [OF e(1) Cons.prems(2) assms(3) Cons.prems(3)]
  show ?case by blast
qed simp

lemma books_initial: "books_balance (initial_exec env files c fs s)"
  by (simp add: books_balance_def accounted_def initial_exec_def counted_def no_counts_def)

lemma work_left_initial: "work_left files (initial_exec env files c fs s) = 4 * length files"
  by (simp add: work_left_def initial_exec_def)

text \<open>
  C9: however the submitting loop, the prefetchers, the tasks and the disk writers interleave, and
  whatever fails or is cancelled, the phase never gets stuck, and it ends after at most four steps
  for each file of the plan.
\<close>

theorem sync_never_stuck:
  assumes "sync_steps env files evs (initial_exec env files c fs s) = Some st"
    and "well_planned (en_cfg env) files" "0 < en_threads env"
  shows "length evs \<le> 4 * length files \<and> (finished files st \<or> (\<exists>ev st'. sync_step env files ev st = Some st'))"
  using sound_steps [OF assms(1) sound_initial assms(2)] some_step [OF _ assms(2,3), of st] work_left_initial [of files env c fs s]
  by (cases "finished files st") auto

text \<open>
  In every interleaving the counters add up: no file is ever counted twice, and once everything has
  run to its end without a cancellation every file of the plan counts for its action or as failed.
\<close>

theorem sync_counts_every_file_once:
  assumes "sync_steps env files evs (initial_exec env files c fs s) = Some st" "well_planned (en_cfg env) files"
  shows "counted (ex_counts st) \<le> length files \<and>
         (if finished files st \<and> ex_cancelled st \<noteq> Some 0 then counted (ex_counts st) = length files else True)"
proof -
  from sound_steps [OF assms(1) sound_initial assms(2)] have "sound env files st" by simp
  with books_steps [OF assms(1) sound_initial assms(2) books_initial] show ?thesis
    by (auto simp: books_balance_def accounted_def sound_def finished_def)
qed

text \<open>
  C25: the bounds the phase keeps in every interleaving: at most \<^verbatim>\<open>max_threads\<close> files in flight, the
  write queue and the read-ahead cache within their limits.
\<close>

theorem sync_keeps_bounds:
  assumes "sync_steps env files evs (initial_exec env files c fs s) = Some st" "well_planned (en_cfg env) files"
  shows "length (ex_tasks st) \<le> en_threads env \<and> length (ex_queue st) \<le> WRITE_QUEUE_MAX_SIZE \<and>
         ex_cache_bytes st \<le> PRE_READ_MAX_TOTAL_BYTES \<and> ex_window st \<le> en_threads env"
  using sound_steps [OF assms(1) sound_initial assms(2)] by (auto simp: sound_def max_concurrency_def)

text \<open>A plan that copies one object, and its submission.\<close>

definition copy_x :: sync_file_entry where
  "copy_x = default_sync_file_entry\<lparr>se_path := ''x'', se_action := Copy, se_s3_size := 3\<rparr>"

definition copy_env :: "mock env" where
  "copy_env = \<lparr>en_cfg = \<lparr>sc_direction = S3ToS3, sc_local_path = [], sc_dest_local_path = [],
       sc_source = default_file_source\<lparr>fs_type := S3, fs_bucket := ''b'', fs_path := ''p''\<rparr>,
       sc_destination = default_file_source\<lparr>fs_type := S3, fs_bucket := ''b'', fs_path := ''q''\<rparr>,
       sc_delete_orphans = False, sc_dry_run = False, sc_max_threads = 4\<rparr>,
     en_client = Some (mock_client ieee_crc32 (\<lambda>_. [])), en_canon = (\<lambda>_. Some), en_pexists = (\<lambda>_ _. True),
     en_crc = ieee_crc32, en_reader = pread_of, en_threads = 4\<rparr>"

definition copy_start :: "mock exec" where
  "copy_start = initial_exec copy_env [copy_x] None (small_fs []) store_with_x"

definition copy_submitted :: "mock exec" where
  "copy_submitted = copy_start\<lparr>ex_next := 1, ex_tasks := [(0, [])]\<rparr>"

lemma copy_submits:
  "sync_steps copy_env [copy_x] [Submit] (initial_exec copy_env [copy_x] None (small_fs []) store_with_x) =
     Some copy_submitted"
  by (simp add: sync_step_def step_submit_def initial_exec_def copy_submitted_def copy_start_def copy_env_def copy_x_def
      prefetchable_def default_sync_file_entry_def max_concurrency_def)

lemma copy_well_planned: "well_planned (en_cfg copy_env) [copy_x]"
  by (simp add: well_planned_def copy_env_def copy_x_def)

theorem sync_never_stuck_witness:
  "length [Submit] \<le> 4 * length [copy_x] \<and>
   (finished [copy_x] copy_submitted \<or> (\<exists>ev st'. sync_step copy_env [copy_x] ev copy_submitted = Some st'))"
  by (rule sync_never_stuck [OF copy_submits copy_well_planned]) (simp add: copy_env_def)

theorem sync_counts_every_file_once_witness:
  "counted (ex_counts copy_submitted) \<le> length [copy_x] \<and>
   (if finished [copy_x] copy_submitted \<and> ex_cancelled copy_submitted \<noteq> Some 0
    then counted (ex_counts copy_submitted) = length [copy_x] else True)"
  by (rule sync_counts_every_file_once [OF copy_submits copy_well_planned])

theorem sync_keeps_bounds_witness:
  "length (ex_tasks copy_submitted) \<le> en_threads copy_env \<and> length (ex_queue copy_submitted) \<le> WRITE_QUEUE_MAX_SIZE \<and>
   ex_cache_bytes copy_submitted \<le> PRE_READ_MAX_TOTAL_BYTES \<and> ex_window copy_submitted \<le> en_threads copy_env"
  by (rule sync_keeps_bounds [OF copy_submits copy_well_planned])

end
