(* ===== verification/Sync_Store.thy ===== *)
theory Sync_Store
  imports Sync_Exec
begin

text \<open>
  What carrying out a plan does to the destination bucket of an upload or of a copy between buckets:
  in every interleaving each object named by the plan holds its old or its intended value, no other
  object changes, and a run that counts no failure has given every object its intended value.  The
  step from one file to the whole plan is an invariant of the transition system of theory
  \<^verbatim>\<open>Sync_Exec\<close>, whose store is any that honours the contract \<open>diff_store\<close>.
\<close>

section \<open>A run without failures\<close>

definition clean_run :: "'s exec \<Rightarrow> bool" where
  "clean_run st \<longleftrightarrow> ct_fail (ex_counts st) = 0 \<and> ex_cancelled st \<noteq> Some 0"

definition keeps_fail :: "((nat \<Rightarrow> nat) \<Rightarrow> counts \<Rightarrow> counts) \<Rightarrow> bool" where
  "keeps_fail counter \<longleftrightarrow> (\<forall>ct. ct_fail (counter Suc ct) = ct_fail ct)"

lemma keeps_fail_simps [simp]:
  "keeps_fail ct_upload_update" "keeps_fail ct_diff_upload_update" "keeps_fail ct_download_update"
  "keeps_fail ct_diff_download_update" "keeps_fail ct_copy_update" "keeps_fail ct_delete_update"
  by (simp_all add: keeps_fail_def)

lemma book_clean:
  assumes "clean_run (book counter ok st)" "keeps_fail counter"
  shows "ok \<and> ct_fail (ex_counts st) = 0"
proof -
  obtain stop c where p: "poll (ex_cancelled st) = (stop, c)" by fastforce
  consider "ok" | "\<not> ok" "stop" "c = Some 0" | "\<not> ok" "\<not> stop" using p poll_sticky [of "ex_cancelled st" c] by auto
  then show ?thesis
    by cases (use assms p in \<open>auto simp: book_def clean_run_def keeps_fail_def\<close>)
qed

section \<open>What the plan intends\<close>

definition object_of :: "'s env \<Rightarrow> sync_file_entry \<Rightarrow> string \<times> string" where
  "object_of env f = (fs_bucket (sc_destination (en_cfg env)), dest_key env f)"

definition source_of :: "'s env \<Rightarrow> sync_file_entry \<Rightarrow> string \<times> string" where
  "source_of env f = (fs_bucket (sc_source (en_cfg env)), source_key env f)"

definition local_of :: "'s env \<Rightarrow> local_fs \<Rightarrow> sync_file_entry \<Rightarrow> byte list option" where
  "local_of env fs f = file_contents fs (path_append (sc_local_path (en_cfg env)) (se_path f))"

definition intended :: "'s env \<Rightarrow> store_view \<Rightarrow> local_fs \<Rightarrow> sync_file_entry \<Rightarrow> byte list option" where
  "intended env v fs f =
     (case se_action f of
        Delete \<Rightarrow> None
      | Copy \<Rightarrow> v (source_of env f)
      | _ \<Rightarrow> local_of env fs f)"

text \<open>
  The plans of the two directions: every path once, only actions of the direction, sizes as they
  were listed, no checksum collisions with the old object, and no object both read and written.
\<close>

definition plans_object :: "'s env \<Rightarrow> store_view \<Rightarrow> local_fs \<Rightarrow> sync_file_entry list \<Rightarrow> sync_file_entry \<Rightarrow> bool" where
  "plans_object env v fs files f \<longleftrightarrow>
     (case se_action f of
        Upload \<Rightarrow> sc_direction (en_cfg env) = DirUpload \<and>
                   (case local_of env fs f of None \<Rightarrow> True | Some l \<Rightarrow> int (length l) = se_local_size f)
      | UploadDiff \<Rightarrow> sc_direction (en_cfg env) = DirUpload \<and>
                   (case (v (object_of env f), local_of env fs f) of
                      (Some x, Some l) \<Rightarrow> no_collision (en_crc env) x l | _ \<Rightarrow> True) \<and>
                   CHR ''/'' \<notin> set (fs_bucket (sc_destination (en_cfg env)))
      | Copy \<Rightarrow> sc_direction (en_cfg env) = S3ToS3 \<and>
                   copy_request_ok (fs_bucket (sc_source (en_cfg env))) (se_s3_size f) (v (source_of env f)) \<and> list_all (\<lambda>g. object_of env g \<noteq> source_of env f) files
      | Delete \<Rightarrow> True
      | _ \<Rightarrow> False)"

definition bucket_plan :: "'s env \<Rightarrow> store_view \<Rightarrow> local_fs \<Rightarrow> sync_file_entry list \<Rightarrow> bool" where
  "bucket_plan env v fs files \<longleftrightarrow>
     (sc_direction (en_cfg env) = DirUpload \<or> sc_direction (en_cfg env) = S3ToS3) \<and>
     distinct (map se_path files) \<and> list_all (plans_object env v fs files) files"

lemma bucket_plan_well_planned: "bucket_plan env v fs files \<Longrightarrow> well_planned (en_cfg env) files"
  by (fastforce simp: bucket_plan_def well_planned_def list_all_iff plans_object_def split: sync_action.splits)

lemma object_of_inj: "object_of env f = object_of env g \<longleftrightarrow> se_path f = se_path g"
  by (simp add: object_of_def dest_key_def object_key_def)

text \<open>Each object of the plan is as it was or as intended, and all others are as they were.\<close>

definition store_between :: "'s env \<Rightarrow> store_view \<Rightarrow> local_fs \<Rightarrow> sync_file_entry list \<Rightarrow> store_view \<Rightarrow> bool" where
  "store_between env v fs files w \<longleftrightarrow>
     (\<forall>x. w x = v x \<or> (\<exists>f \<in> set files. x = object_of env f \<and> w x = intended env v fs f))"

lemma store_between_refl: "store_between env v fs files v"
  by (simp add: store_between_def)

lemma store_between_written:
  assumes "store_between env v fs files w" "written_as w (object_of env f) (intended env v fs f) ok w'" "f \<in> set files"
  shows "store_between env v fs files w'"
proof -
  from assms(2) consider "w' = w" | "w' = w(object_of env f := intended env v fs f)"
    by (auto simp: written_as_def split: if_splits)
  then show ?thesis
  proof cases
    case 2
    show ?thesis unfolding store_between_def
    proof
      fix x
      show "w' x = v x \<or> (\<exists>f \<in> set files. x = object_of env f \<and> w' x = intended env v fs f)"
      proof (cases "x = object_of env f")
        case True
        with 2 assms(3) show ?thesis by auto
      next
        case False
        with 2 have "w' x = w x" by simp
        with assms(1) show ?thesis unfolding store_between_def by metis
      qed
    qed
  qed (use assms(1) in simp)
qed

lemma store_between_source:
  assumes "store_between env v fs files w" "list_all (\<lambda>g. object_of env g \<noteq> source_of env f) files"
  shows "w (source_of env f) = v (source_of env f)"
proof -
  from assms(1) have "w (source_of env f) = v (source_of env f) \<or> (\<exists>g \<in> set files. source_of env f = object_of env g)"
    unfolding store_between_def by blast
  with assms(2) show ?thesis unfolding list_all_iff by metis
qed

lemma diff_upload_no_file:
  "file_contents fs (path_append base rel) = None \<Longrightarrow>
     diff_upload_file z reader client fs base rel b pre c s = (False, 0, 0, c, s)"
  by (auto simp: diff_upload_file_def Let_def local_size_of_def file_contents_def split: option.splits node.splits)

definition written_for ::
  "'s env \<Rightarrow> store_view \<Rightarrow> local_fs \<Rightarrow> ('s \<Rightarrow> store_view) \<Rightarrow> sync_file_entry \<Rightarrow> bool \<Rightarrow> 's exec \<Rightarrow> 's exec \<Rightarrow> bool" where
  "written_for env v fs objects f ok st st' \<longleftrightarrow> ex_fs st' = ex_fs st \<and> ex_cache st' = ex_cache st \<and>
     written_as (objects (ex_world st)) (object_of env f) (intended env v fs f) ok (objects (ex_world st')) \<and>
     (clean_run st' \<longrightarrow> ok \<and> ct_fail (ex_counts st) = 0)"

text \<open>Data read ahead for an upload is the file.\<close>

definition fresh_data :: "'s env \<Rightarrow> local_fs \<Rightarrow> sync_file_entry \<Rightarrow> byte list \<Rightarrow> bool" where
  "fresh_data env fs f d \<longleftrightarrow> (se_action f = Upload \<longrightarrow> d = [] \<or> local_of env fs f = Some d)"

context diff_store
begin

lemma process_upload_written:
  assumes "process_upload env f d st = (ok, st')" "sc_direction (en_cfg env) = DirUpload" "se_action f = Upload"
    and "fresh_data env fs f d" "en_client env = Some client" "ex_fs st = fs"
  shows "written_for env v fs objects f ok st st'"
proof -
  let ?b = "fs_bucket (sc_destination (en_cfg env))" and ?k = "dest_key env f"
  obtain ok1 n c s where r: "(if d \<noteq> [] then upload_from_data client ?b ?k d (ex_cancelled st) (ex_world st)
      else upload_small_file client (ex_fs st) (sc_local_path (en_cfg env)) (se_path f) ?b
             (fs_path (sc_destination (en_cfg env))) (ex_cancelled st) (ex_world st)) = (ok1, n, c, s)"
    by (metis surj_pair)
  have i: "intended env v fs f = local_of env fs f" using assms(3) by (simp add: intended_def)
  have "written_as (objects (ex_world st)) (?b, ?k) (local_of env fs f) ok1 (objects s)"
  proof (cases "d = []")
    case True
    with upload_small_file_wrote [of "ex_fs st" "sc_local_path (en_cfg env)" "se_path f" ?b
        "fs_path (sc_destination (en_cfg env))" "ex_cancelled st" "ex_world st" ok1 n c s] r assms(6)
    show ?thesis by (simp add: dest_key_def local_of_def)
  next
    case False
    with upload_from_data_wrote [of ?b ?k d "ex_cancelled st" "ex_world st" ok1 n c s] r assms(3,4)
    show ?thesis by (simp add: fresh_data_def)
  qed
  moreover have "ok = ok1 \<and> st' = book ct_upload_update ok1
      (st\<lparr>ex_cancelled := c, ex_world := s, ex_transferred := ex_transferred st + int n\<rparr>)"
    using assms(1,2) r unfolding process_upload_def Let_def assms(5) option.sel by auto
  ultimately show ?thesis
    using book_clean [of ct_upload_update ok1] i by (fastforce simp: written_for_def object_of_def)
qed

lemma process_upload_diff_written:
  assumes "process_upload_diff env f st = (ok, st')" "se_action f = UploadDiff"
    and "en_client env = Some client" "en_crc env = z" "chaining_crc z" "\<And>x. reads_file (en_reader env x) x" "ex_fs st = fs"
    and "\<And>x l. objects (ex_world st) (object_of env f) = Some x \<Longrightarrow> local_of env fs f = Some l \<Longrightarrow> no_collision z x l"
    and "CHR ''/'' \<notin> set (fs_bucket (sc_destination (en_cfg env)))"
  shows "written_for env v fs objects f ok st st'"
proof -
  let ?b = "fs_bucket (sc_destination (en_cfg env))" and ?pre = "fs_path (sc_destination (en_cfg env))"
  obtain ok1 n sv c s where r: "diff_upload_file (en_crc env) (en_reader env) (client_of env) (ex_fs st)
      (sc_local_path (en_cfg env)) (se_path f) ?b ?pre (ex_cancelled st) (ex_world st) = (ok1, n, sv, c, s)"
    by (metis surj_pair)
  have i: "intended env v fs f = local_of env fs f" using assms(2) by (simp add: intended_def)
  have "written_as (objects (ex_world st)) (object_of env f) (local_of env fs f) ok1 (objects s)"
  proof (cases "local_of env fs f")
    case None
    then have "file_contents (ex_fs st) (path_append (sc_local_path (en_cfg env)) (se_path f)) = None"
      using assms(7) by (simp add: local_of_def)
    note no = diff_upload_no_file [OF this]
    have "ok1 = False" "s = ex_world st" using r unfolding no by simp_all
    then show ?thesis by (simp add: written_as_def)
  next
    case (Some l)
    then have "file_contents (ex_fs st) (path_append (sc_local_path (en_cfg env)) (se_path f)) = Some l"
      using assms(7) by (simp add: local_of_def)
    from diff_upload_file_wrote [OF assms(5,6) this _ r [unfolded assms(3,4) option.sel] assms(9)] assms(8) Some
    show ?thesis by (simp add: object_of_def dest_key_def)
  qed
  moreover have "ok = ok1 \<and> st' = book ct_diff_upload_update ok1
      (st\<lparr>ex_cancelled := c, ex_world := s, ex_transferred := ex_transferred st + n, ex_saved := ex_saved st + sv\<rparr>)"
    using assms(1) r by (auto simp: process_upload_diff_def Let_def)
  ultimately show ?thesis
    using book_clean [of ct_diff_upload_update ok1] i by (fastforce simp: written_for_def)
qed

lemma process_copy_written:
  assumes "process_copy env f st = (ok, st')" "se_action f = Copy" "en_client env = Some client"
    and "objects (ex_world st) (source_of env f) = v (source_of env f)"
    and "copy_request_ok (fs_bucket (sc_source (en_cfg env))) (se_s3_size f) (v (source_of env f))"
  shows "written_for env v fs objects f ok st st'"
proof -
  let ?cfg = "en_cfg env"
  obtain ok1 n c s where r: "copy_s3_object client (fs_bucket (sc_source ?cfg)) (source_key env f)
      (fs_bucket (sc_destination ?cfg)) (dest_key env f) (se_s3_size f) (ex_cancelled st) (ex_world st) = (ok1, n, c, s)"
    by (metis surj_pair)
  from copy_s3_object_wrote [OF r] assms(2,4,5)
  have "written_as (objects (ex_world st)) (object_of env f) (intended env v fs f) ok1 (objects s)"
    by (simp add: object_of_def source_of_def intended_def)
  moreover have "ok = ok1 \<and> st' = book ct_copy_update ok1
      (st\<lparr>ex_cancelled := c, ex_world := s, ex_server_side := ex_server_side st + n\<rparr>)"
    using assms(1,3) r by (auto simp: process_copy_def Let_def)
  ultimately show ?thesis
    using book_clean [of ct_copy_update ok1] by (fastforce simp: written_for_def)
qed

lemma process_delete_written:
  assumes "process_delete env f st = (ok, st')" "se_action f = Delete" "en_client env = Some client"
    and "sc_direction (en_cfg env) = DirUpload \<or> sc_direction (en_cfg env) = S3ToS3"
  shows "written_for env v fs objects f ok st st'"
proof -
  let ?d = "sc_destination (en_cfg env)"
  obtain ok1 c s where r: "delete_s3_object client (fs_bucket ?d) (fs_path ?d) (se_path f) (ex_cancelled st) (ex_world st) = (ok1, c, s)"
    by (metis surj_pair)
  from delete_s3_object_wrote [OF r] assms(2)
  have "written_as (objects (ex_world st)) (object_of env f) (intended env v fs f) ok1 (objects s)"
    by (simp add: object_of_def dest_key_def intended_def)
  moreover have "ok = ok1 \<and> st' = book ct_delete_update ok1 (st\<lparr>ex_cancelled := c, ex_world := s\<rparr>)"
    using assms(1,3,4) r by (auto simp: process_delete_def Let_def)
  ultimately show ?thesis
    using book_clean [of ct_delete_update ok1] by (fastforce simp: written_for_def)
qed

lemma process_file_written:
  assumes "process_file env f d st = (ok, st')" "f \<in> set files" "bucket_plan env v fs files"
    and "fresh_data env fs f d" "en_client env = Some client" "en_crc env = z" "chaining_crc z"
    and "\<And>x. reads_file (en_reader env x) x" "ex_fs st = fs"
    and "store_between env v fs files (objects (ex_world st))"
  shows "written_for env v fs objects f ok st st' \<and> (clean_run st' \<longrightarrow> clean_run st)"
proof -
  obtain stop c where p: "poll (ex_cancelled st) = (stop, c)" by fastforce
  define st1 where "st1 = st\<lparr>ex_cancelled := c\<rparr>"
  have s1: "ex_fs st1 = ex_fs st" "ex_cache st1 = ex_cache st" "ex_world st1 = ex_world st" "ex_counts st1 = ex_counts st"
    by (simp_all add: st1_def)
  have plan: "plans_object env v fs files f" "sc_direction (en_cfg env) = DirUpload \<or> sc_direction (en_cfg env) = S3ToS3"
    using assms(2,3) by (auto simp: bucket_plan_def list_all_iff)
  have w: "written_for env v fs objects f ok st1 st'"
  proof (cases stop)
    case True
    with assms(1) p poll_sticky [of "ex_cancelled st" c] have "ok = False" "st' = st1" "ex_cancelled st1 = Some 0"
      by (auto simp: process_file_def st1_def)
    then show ?thesis by (simp add: written_for_def written_as_def clean_run_def)
  next
    case False
    have r: "(case se_action f of
             Upload \<Rightarrow> process_upload env f d st1 | UploadDiff \<Rightarrow> process_upload_diff env f st1
           | Download \<Rightarrow> process_download env f d st1 | DownloadDiff \<Rightarrow> process_download_diff env f st1
           | Copy \<Rightarrow> process_copy env f st1 | Delete \<Rightarrow> process_delete env f st1 | Skip \<Rightarrow> (False, st1)) = (ok, st')"
      using assms(1) p False unfolding process_file_def st1_def Let_def by simp
    note fs1 = assms(9) [folded s1(1)]
    show ?thesis
    proof (cases "se_action f")
      case Upload
      with r plan process_upload_written [of env f d st1 ok st' fs v] assms(4,5) fs1
      show ?thesis by (simp add: plans_object_def)
    next
      case UploadDiff
      have nc: "no_collision z x l" if x: "objects (ex_world st1) (object_of env f) = Some x" and l: "local_of env fs f = Some l" for x l
      proof -
        have "x = l \<or> v (object_of env f) = Some x"
        proof (cases "objects (ex_world st) (object_of env f) = v (object_of env f)")
          case False
          with assms(10) obtain g where g: "g \<in> set files" "object_of env f = object_of env g"
              "objects (ex_world st) (object_of env f) = intended env v fs g"
            unfolding store_between_def by metis
          have "g = f" using g(1,2) assms(2,3) object_of_inj [of env f g]
            by (auto simp: bucket_plan_def distinct_map inj_on_def)
          with g(3) x l s1(3) UploadDiff show ?thesis by (simp add: intended_def)
        qed (use x s1(3) in simp)
        with plan(1) UploadDiff l assms(6) show ?thesis by (auto simp: plans_object_def)
      qed
      from r UploadDiff have "process_upload_diff env f st1 = (ok, st')" by simp
      from process_upload_diff_written [OF this UploadDiff assms(5-8) fs1 nc] plan(1) UploadDiff
      show ?thesis by (simp add: plans_object_def)
    next
      case Copy
      with plan store_between_source [OF assms(10), of f] s1(3)
      have "objects (ex_world st1) (source_of env f) = v (source_of env f)" by (simp add: plans_object_def)
      moreover from r Copy have "process_copy env f st1 = (ok, st')" by simp
      ultimately show ?thesis using process_copy_written [OF _ Copy assms(5)] plan(1) Copy by (simp add: plans_object_def)
    next
      case Delete
      with r process_delete_written [of env f st1 ok st' v fs] assms(5) plan(2) show ?thesis by simp
    qed (use plan in \<open>simp_all add: plans_object_def\<close>)
  qed
  moreover have "clean_run st' \<longrightarrow> clean_run st"
    using w process_file_cancelled [OF assms(1)] s1(4) by (auto simp: written_for_def clean_run_def)
  ultimately show ?thesis using s1 by (simp add: written_for_def)
qed

end

text \<open>The invariant of the transition system.\<close>

definition store_inv :: "'s env \<Rightarrow> store_view \<Rightarrow> local_fs \<Rightarrow> sync_file_entry list \<Rightarrow> ('s \<Rightarrow> store_view) \<Rightarrow> 's exec \<Rightarrow> bool" where
  "store_inv env v fs files objects st \<longleftrightarrow>
     ex_fs st = fs \<and> store_between env v fs files (objects (ex_world st)) \<and>
     (\<forall>rel d f. (rel, d) \<in> set (ex_cache st) \<longrightarrow> f \<in> set files \<longrightarrow> se_path f = rel \<longrightarrow> fresh_data env fs f d) \<and>
     (\<forall>i d. (i, d) \<in> set (ex_tasks st) \<longrightarrow> i < ex_next st \<and> fresh_data env fs (files ! i) d) \<and>
     distinct (map fst (ex_tasks st)) \<and>
     (clean_run st \<longrightarrow> (\<forall>i < ex_next st. i \<notin> fst ` set (ex_tasks st) \<longrightarrow>
        objects (ex_world st) (object_of env (files ! i)) = intended env v fs (files ! i)))"

lemma set_update_subset: "set (AList.update k x al) \<subseteq> insert (k, x) (set al)"
  by (induction al) auto

lemma remove_nth:
  assumes "k < length xs" "xs ! k = (i, d)" "distinct (map fst xs)"
  shows "set (take k xs @ drop (Suc k) xs) \<subseteq> set xs" "distinct (map fst (take k xs @ drop (Suc k) xs))"
    "fst ` set xs = insert i (fst ` set (take k xs @ drop (Suc k) xs))" "i \<notin> fst ` set (take k xs @ drop (Suc k) xs)"
proof -
  have x: "xs = take k xs @ (i, d) # drop (Suc k) xs" using id_take_nth_drop [OF assms(1)] assms(2) by simp
  show "set (take k xs @ drop (Suc k) xs) \<subseteq> set xs" by (subst (3) x) auto
  from assms(3) have "distinct (map fst (take k xs @ (i, d) # drop (Suc k) xs))" by (subst (asm) x)
  then show "distinct (map fst (take k xs @ drop (Suc k) xs))" "i \<notin> fst ` set (take k xs @ drop (Suc k) xs)" by auto
  show "fst ` set xs = insert i (fst ` set (take k xs @ drop (Suc k) xs))" by (subst x) auto
qed

lemma store_inv_initial: "store_inv env (objects s) fs files objects (initial_exec env files c fs s)"
  by (simp add: store_inv_def initial_exec_def store_between_refl)

lemma prefetch_store_inv:
  assumes "step_prefetch env files st = Some st'" "store_inv env v fs files objects st" "bucket_plan env v fs files"
  shows "store_inv env v fs files objects st'"
proof -
  note f = step_prefetch_frame [OF assms(1)]
  let ?f = "files ! ex_fetch st"
  have up: "read_ahead env ?f (ex_fs st) (ex_world st) = (data, s) \<Longrightarrow> prefetchable ?f \<Longrightarrow> ex_fetch st < length files \<Longrightarrow>
      s = ex_world st \<and> fresh_data env fs ?f data" for data s
  proof -
    assume r: "read_ahead env ?f (ex_fs st) (ex_world st) = (data, s)" "prefetchable ?f" "ex_fetch st < length files"
    then have p: "plans_object env v fs files ?f" using assms(3) by (auto simp: bucket_plan_def list_all_length)
    then have a: "se_action ?f = Upload" using r(2) by (auto simp: prefetchable_def plans_object_def)
    have "file_contents (ex_fs st) (path_append (sc_local_path (en_cfg env)) (se_path ?f)) = local_of env fs ?f"
      using assms(2) by (simp add: local_of_def store_inv_def)
    with r(1) a p show ?thesis
      by (auto simp: read_ahead_def fresh_data_def plans_object_def split: option.splits if_splits)
  qed
  have same: "se_path g = se_path ?f \<Longrightarrow> g \<in> set files \<Longrightarrow> ex_fetch st < length files \<Longrightarrow> g = ?f" for g
    using assms(3) nth_mem [of "ex_fetch st" files] by (auto simp: bucket_plan_def distinct_map inj_on_def)
  obtain data s where ra: "read_ahead env ?f (ex_fs st) (ex_world st) = (data, s)" by fastforce
  have "ex_world st' = ex_world st \<and> ex_cache st' = ex_cache st \<or>
      prefetchable ?f \<and> ex_fetch st < length files \<and> ex_world st' = s \<and>
      (ex_cache st' = ex_cache st \<or> ex_cache st' = AList.update (se_path ?f) data (ex_cache st))"
    using assms(1) unfolding step_prefetch_def Let_def ra by (auto split: prod.splits if_splits)
  then have keep: "ex_world st' = ex_world st \<and> (\<forall>x \<in> set (ex_cache st'). x \<in> set (ex_cache st) \<or>
      x = (se_path ?f, data) \<and> fresh_data env fs ?f data \<and> ex_fetch st < length files)"
    using up [OF ra] set_update_subset [of "se_path ?f" data "ex_cache st"] by auto
  have "fresh_data env fs g d" if "(rel, d) \<in> set (ex_cache st')" "g \<in> set files" "se_path g = rel" for rel d g
    using keep that same [of g] assms(2) unfolding store_inv_def by blast
  moreover have "clean_run st' \<longrightarrow> clean_run st" using f by (auto simp: clean_run_def)
  ultimately show ?thesis using f keep assms(2) by (simp add: store_inv_def)
qed

lemma submit_store_inv:
  assumes "step_submit env files st = Some st'" "store_inv env v fs files objects st" "bucket_plan env v fs files"
  shows "store_inv env v fs files objects st'"
proof -
  note f = step_submit_frame [OF assms(1)]
  have clean: "clean_run st' \<longrightarrow> clean_run st" using f by (auto simp: clean_run_def)
  have cache: "\<forall>rel d f. (rel, d) \<in> set (ex_cache st') \<longrightarrow> f \<in> set files \<longrightarrow> se_path f = rel \<longrightarrow> fresh_data env fs f d"
    using f assms(2) by (auto simp: store_inv_def)
  have "ex_next st' = ex_next st \<and> ex_tasks st' = ex_tasks st \<or>
      (\<exists>d. ex_next st' = ex_next st + 1 \<and> ex_tasks st' = ex_tasks st @ [(ex_next st, d)] \<and> ex_next st < length files \<and>
        (d = [] \<or> (se_path (files ! ex_next st), d) \<in> set (ex_cache st)))"
    using f by (elim conjE disjE) simp_all
  then consider "ex_next st' = ex_next st" "ex_tasks st' = ex_tasks st"
    | d where "ex_next st' = ex_next st + 1" "ex_tasks st' = ex_tasks st @ [(ex_next st, d)]" "ex_next st < length files"
        "d = [] \<or> (se_path (files ! ex_next st), d) \<in> set (ex_cache st)"
    by blast
  then show ?thesis
  proof cases
    case 1
    with f clean cache assms(2) show ?thesis by (simp add: store_inv_def)
  next
    case 2
    from 2(4) have "fresh_data env fs (files ! ex_next st) d"
    proof
      assume "(se_path (files ! ex_next st), d) \<in> set (ex_cache st)"
      with assms(2) 2(3) nth_mem [of "ex_next st" files] show ?thesis unfolding store_inv_def by blast
    qed (simp add: fresh_data_def)
    moreover have old: "\<And>i d. (i, d) \<in> set (ex_tasks st) \<Longrightarrow> i < ex_next st \<and> fresh_data env fs (files ! i) d"
      "distinct (map fst (ex_tasks st))"
      using assms(2) by (simp_all add: store_inv_def)
    moreover have "ex_next st \<notin> fst ` set (ex_tasks st)" using old(1) by force
    ultimately have t: "distinct (map fst (ex_tasks st'))"
      "\<forall>i d. (i, d) \<in> set (ex_tasks st') \<longrightarrow> i < ex_next st' \<and> fresh_data env fs (files ! i) d"
      unfolding 2(1,2) by (auto dest: old(1))
    have "i < ex_next st \<and> i \<notin> fst ` set (ex_tasks st)" if "i < ex_next st'" "i \<notin> fst ` set (ex_tasks st')" for i
      using that unfolding 2(1,2) by (auto simp: less_Suc_eq)
    then have "clean_run st' \<longrightarrow> (\<forall>i < ex_next st'. i \<notin> fst ` set (ex_tasks st') \<longrightarrow>
        objects (ex_world st') (object_of env (files ! i)) = intended env v fs (files ! i))"
      using clean f assms(2) unfolding store_inv_def by metis
    with t cache f assms(2) show ?thesis unfolding store_inv_def by simp
  qed
qed

context diff_store
begin

lemma task_store_inv:
  assumes "step_task env files k st = Some st'" "store_inv env v fs files objects st" "bucket_plan env v fs files"
    and "sound env files st" "en_client env = Some client" "en_crc env = z" "chaining_crc z"
    and "\<And>x. reads_file (en_reader env x) x"
  shows "store_inv env v fs files objects st'"
  using assms(1)
proof (cases rule: step_task_cases)
  case (1 i data ok st1)
  let ?f = "files ! i"
  have tk: "(i, data) \<in> set (ex_tasks st)" using 1(1,2) nth_mem by metis
  with assms(2) have ti: "i < ex_next st" "fresh_data env fs ?f data" by (auto simp: store_inv_def)
  with assms(4) have il: "i < length files" by (simp add: sound_def)
  have fs: "ex_fs st = fs" "store_between env v fs files (objects (ex_world st))" "distinct (map fst (ex_tasks st))"
    using assms(2) by (simp_all add: store_inv_def)
  from process_file_written [OF 1(3) nth_mem [OF il] assms(3) ti(2) assms(5-8) fs(1,2)]
  have w: "ex_fs st1 = fs" "written_as (objects (ex_world st)) (object_of env ?f) (intended env v fs ?f) ok (objects (ex_world st1))"
    "clean_run st1 \<longrightarrow> ok" "clean_run st1 \<longrightarrow> clean_run st"
    using fs(1) by (auto simp: written_for_def)
  have c1: "clean_run st' \<longrightarrow> clean_run st1" using 1(11,14) by (auto simp: clean_run_def)
  note rm = remove_nth [OF 1(1,2) fs(3), folded 1(4)]
  have done': "objects (ex_world st1) (object_of env (files ! j)) = intended env v fs (files ! j)"
    if "clean_run st'" "j < ex_next st" "j \<notin> fst ` set (ex_tasks st')" for j
  proof (cases "j = i")
    case True
    with w(2,3) c1 that(1) show ?thesis by (simp add: written_as_def)
  next
    case False
    have "j < length files" using that(2) assms(4) by (simp add: sound_def)
    with False il assms(3) have "se_path (files ! j) \<noteq> se_path ?f"
      unfolding bucket_plan_def by (metis length_map nth_eq_iff_index_eq nth_map)
    then have "object_of env (files ! j) \<noteq> object_of env ?f" by (simp add: object_of_inj)
    moreover have "objects (ex_world st) (object_of env (files ! j)) = intended env v fs (files ! j)"
      using that False rm(3) w(4) c1 assms(2) by (simp add: store_inv_def)
    ultimately show ?thesis using w(2,3) c1 that(1) by (simp add: written_as_def)
  qed
  have "store_between env v fs files (objects (ex_world st1))"
    by (rule store_between_written [OF fs(2) w(2) nth_mem [OF il]])
  moreover have "\<forall>i d. (i, d) \<in> set (ex_tasks st') \<longrightarrow> i < ex_next st' \<and> fresh_data env fs (files ! i) d"
    using rm(1) assms(2) 1(5) by (auto simp: store_inv_def)
  ultimately show ?thesis
    using done' w(1) rm(2) 1(5,9,12,13) assms(2) by (simp add: store_inv_def)
qed

lemma step_store_inv:
  assumes "sync_step env files ev st = Some st'" "store_inv env v fs files objects st" "bucket_plan env v fs files"
    and "sound env files st" "en_client env = Some client" "en_crc env = z" "chaining_crc z"
    and "\<And>x. reads_file (en_reader env x) x"
  shows "store_inv env v fs files objects st'"
proof (cases ev)
  case WriteJob
  with assms(1,3) show ?thesis by (auto simp: sync_step_def step_write_def bucket_plan_def)
qed (use assms prefetch_store_inv submit_store_inv task_store_inv in \<open>auto simp: sync_step_def\<close>)

lemma steps_store_inv:
  assumes "sync_steps env files evs st = Some st'" "store_inv env v fs files objects st" "bucket_plan env v fs files"
    and "sound env files st" "en_client env = Some client" "en_crc env = z" "chaining_crc z"
    and "\<And>x. reads_file (en_reader env x) x"
  shows "store_inv env v fs files objects st'"
  using assms(1,2,4)
proof (induction evs arbitrary: st)
  case (Cons ev evs)
  then obtain st1 where e: "sync_step env files ev st = Some st1" "sync_steps env files evs st1 = Some st'"
    by (auto split: option.splits)
  show ?case
    by (rule Cons.IH [OF e(2) step_store_inv [OF e(1) Cons.prems(2) assms(3) Cons.prems(3) assms(5-8)]])
      (use sound_step [OF e(1) Cons.prems(3) bucket_plan_well_planned [OF assms(3)]] in simp)
qed simp

end

text \<open>In these directions the local files are only read.\<close>

lemma process_file_keeps_fs:
  assumes "process_file env f d st = (ok, st')" "plans_object env v fs files f"
    and "sc_direction (en_cfg env) = DirUpload \<or> sc_direction (en_cfg env) = S3ToS3"
  shows "ex_fs st' = ex_fs st"
  using assms
  by (auto simp: process_file_def process_upload_def process_upload_diff_def process_copy_def process_delete_def
      plans_object_def Let_def split: sync_action.splits prod.splits if_splits)

lemma bucket_steps_keep_fs:
  assumes "sync_steps env files evs st = Some st'" "sound env files st" "bucket_plan env v fs files"
  shows "ex_fs st' = ex_fs st"
  using assms(1,2)
proof (induction evs arbitrary: st)
  case (Cons ev evs)
  then obtain st1 where e: "sync_step env files ev st = Some st1" "sync_steps env files evs st1 = Some st'"
    by (auto split: option.splits)
  have "ex_fs st1 = ex_fs st"
  proof (cases ev)
    case (RunTask k)
    with e(1) have "step_task env files k st = Some st1" by (simp add: sync_step_def)
    then show ?thesis
    proof (cases rule: step_task_cases)
      case (1 i d ok st2)
      have "i < ex_next st" using Cons.prems(2) 1(1,2) nth_mem [of k "ex_tasks st"] by (fastforce simp: sound_def list_all_iff)
      then have "plans_object env v fs files (files ! i)"
        using assms(3) Cons.prems(2) by (simp add: bucket_plan_def list_all_length sound_def)
      with process_file_keeps_fs [OF 1(3)] assms(3) 1(12) show ?thesis by (simp add: bucket_plan_def)
    qed
  qed (use e(1) assms(3) step_prefetch_frame [of env files st st1] step_submit_frame [of env files st st1] in
      \<open>simp_all add: sync_step_def step_write_def bucket_plan_def split: if_splits\<close>)
  with Cons.IH [OF e(2)] sound_step [OF e(1) Cons.prems(2) bucket_plan_well_planned [OF assms(3)]] show ?case by simp
qed simp

lemma bucket_effect:
  assumes "diff_store client objects z parts" "chaining_crc z" "\<And>x. reads_file (en_reader env x) x"
    and "en_client env = Some client" "en_crc env = z" "bucket_plan env (objects s) fs files"
    and "sync_steps env files evs (initial_exec env files c fs s) = Some st"
  shows "ex_fs st = fs \<and> store_between env (objects s) fs files (objects (ex_world st)) \<and>
     (if finished files st \<and> clean_run st
      then list_all (\<lambda>f. objects (ex_world st) (object_of env f) = intended env (objects s) fs f) files else True)"
proof -
  have inv: "store_inv env (objects s) fs files objects st"
    by (rule diff_store.steps_store_inv [OF assms(1,7) store_inv_initial assms(6) sound_initial assms(4,5,2,3)])
  have "sound env files st"
    using sound_steps [OF assms(7) sound_initial bucket_plan_well_planned [OF assms(6)]] by simp
  then have "ex_next st = length files" if "finished files st" "clean_run st"
    using that by (auto simp: sound_def finished_def clean_run_def)
  then have "list_all (\<lambda>f. objects (ex_world st) (object_of env f) = intended env (objects s) fs f) files"
    if "finished files st" "clean_run st"
    using that inv by (simp add: store_inv_def list_all_length finished_def)
  with inv show ?thesis by (simp add: store_inv_def)
qed

text \<open>
  However the threads of an upload or of a copy between buckets interleave, and whatever fails or is
  cancelled, at every moment each object the plan names holds its old or its intended contents, no
  other object differs from what it was, and the local files are untouched; and a run that ends
  without a counted failure or a cancellation has given every object of the plan its intended
  contents: the local file, the source object, or nothing for an orphan.
\<close>

theorem sync_bucket_exact:
  assumes "diff_store client objects z parts" "chaining_crc z" "\<And>x. reads_file (en_reader env x) x"
    and "en_client env = Some client" "en_crc env = z" "bucket_plan env (objects s) fs files"
    and "sync_steps env files evs (initial_exec env files c fs s) = Some st"
  shows "ex_fs st = fs \<and> store_between env (objects s) fs files (objects (ex_world st)) \<and>
     (if finished files st \<and> clean_run st
      then list_all (\<lambda>f. objects (ex_world st) (object_of env f) = intended env (objects s) fs f) files else True)"
  by (rule bucket_effect [OF assms])

theorem sync_bucket_exact_witness:
  "ex_fs copy_submitted = small_fs [] \<and>
   store_between copy_env (mock_objects_view store_with_x) (small_fs []) [copy_x] (mock_objects_view (ex_world copy_submitted)) \<and>
   (if finished [copy_x] copy_submitted \<and> clean_run copy_submitted
    then list_all (\<lambda>f. mock_objects_view (ex_world copy_submitted) (object_of copy_env f) =
           intended copy_env (mock_objects_view store_with_x) (small_fs []) f) [copy_x] else True)"
proof (rule sync_bucket_exact [OF mock_diff.diff_store_axioms ieee.chaining_crc_axioms _ _ _ _ copy_submits])
  show "reads_file (en_reader copy_env x) x" for x by (simp add: copy_env_def reads_file_pread_of)
  show "en_client copy_env = Some (mock_client ieee_crc32 (\<lambda>_. []))" "en_crc copy_env = ieee_crc32"
    by (simp_all add: copy_env_def)
  show "bucket_plan copy_env (mock_objects_view store_with_x) (small_fs []) [copy_x]"
    by (simp add: bucket_plan_def plans_object_def copy_env_def copy_x_def object_of_def source_of_def dest_key_def
        source_key_def object_key_def with_slash_def copy_request_small kMaxSinglePutBytes_def)
qed

end
