(* ===== verification/Sync_Plan.thy ===== *)
theory Sync_Plan
  imports Core_Types "HOL-Library.Multiset"
begin

text \<open>
  The planners of sync_task.cpp (lines 88 to 560): each direction enumerates a source and a
  destination and turns the two lists into a list of \<^typ>\<open>sync_file_entry\<close>.  The lists, with
  the completeness flags the enumerators report, are arguments here; theory \<^verbatim>\<open>Run_Sync\<close>
  composes the planners with the enumerators of theory \<^verbatim>\<open>Enumerate\<close>.

  \<^verbatim>\<open>std::unordered_map<std::string, SyncEntryInfo>\<close> is a map to a pair of size and time.
\<close>

type_synonym entry_info = "int \<times> int"

definition entry_map :: "directory_entry list \<Rightarrow> string \<rightharpoonup> entry_info" where
  "entry_map es = foldl (\<lambda>m e. m(de_path e \<mapsto> (de_size e, de_mtime e))) Map.empty es"

lemma entry_map_Nil [simp]: "entry_map [] = Map.empty"
  by (simp add: entry_map_def)

lemma entry_map_snoc [simp]:
  "entry_map (es @ [e]) = (entry_map es)(de_path e \<mapsto> (de_size e, de_mtime e))"
  by (simp add: entry_map_def)

lemma dom_entry_map [simp]: "dom (entry_map es) = de_path ` set es"
  by (induction es rule: rev_induct) (auto simp del: fun_upd_apply)

lemma entry_map_None_iff [simp]: "entry_map es p = None \<longleftrightarrow> p \<notin> de_path ` set es"
  by (metis domIff dom_entry_map)

lemma entry_map_distinct:
  "distinct (map de_path es) \<Longrightarrow> e \<in> set es \<Longrightarrow> entry_map es (de_path e) = Some (de_size e, de_mtime e)"
  by (induction es rule: rev_induct) (auto simp: image_iff)

definition destination_is_current :: "int \<Rightarrow> int \<Rightarrow> bool" where
  "destination_is_current source_mtime dest_mtime \<longleftrightarrow>
     (if source_mtime \<le> 0 \<or> dest_mtime \<le> 0 then False else dest_mtime > source_mtime)"

lemma destination_is_current_iff:
  "destination_is_current s d \<longleftrightarrow> 0 < s \<and> s < d"
  by (auto simp: destination_is_current_def)

section \<open>Upload\<close>

definition upload_action :: "int \<Rightarrow> sync_action" where
  "upload_action n = (if n \<ge> DIFF_UPLOAD_THRESHOLD then UploadDiff else Upload)"

definition classify_upload_row :: "(string \<rightharpoonup> entry_info) \<Rightarrow> directory_entry \<Rightarrow> sync_file_entry" where
  "classify_upload_row s3_map e =
     (let entry = default_sync_file_entry\<lparr>se_path := de_path e, se_local_size := de_size e,
                                          se_local_mtime := de_mtime e\<rparr>
      in case s3_map (de_path e) of
           None \<Rightarrow> entry\<lparr>se_s3_size := -1, se_action := upload_action (de_size e)\<rparr>
         | Some (s3_size, s3_mtime) \<Rightarrow>
             entry\<lparr>se_s3_size := s3_size,
                   se_action := (if de_size e \<noteq> s3_size then upload_action (de_size e)
                                 else if destination_is_current (de_mtime e) s3_mtime then Skip
                                 else upload_action (de_size e))\<rparr>)"

definition classify_files ::
  "sync_config \<Rightarrow> bool \<Rightarrow> directory_entry list \<Rightarrow> bool \<Rightarrow> bool \<Rightarrow> directory_entry list \<Rightarrow>
   sync_file_entry list \<times> bool" where
  "classify_files cfg cancelled local_entries local_complete local_alias_omitted s3_entries =
     (let enumeration_ok = (if local_alias_omitted then False else local_complete) in
      if cancelled then ([], enumeration_ok)
      else let local_map = entry_map local_entries;
               s3_map = entry_map s3_entries;
               entries = map (classify_upload_row s3_map) local_entries;
               orphans = (if sc_delete_orphans cfg
                          then map (\<lambda>e. default_sync_file_entry\<lparr>se_path := de_path e,
                                          se_local_size := -1, se_s3_size := de_size e,
                                          se_action := Delete\<rparr>)
                                 (filter (\<lambda>e. local_map (de_path e) = None) s3_entries)
                          else [])
           in (entries @ orphans, enumeration_ok))"

section \<open>Download\<close>

definition download_action :: "int \<Rightarrow> sync_action" where
  "download_action n = (if n \<ge> DIFF_UPLOAD_THRESHOLD then DownloadDiff else Download)"

definition classify_download_row :: "(string \<rightharpoonup> entry_info) \<Rightarrow> directory_entry \<Rightarrow> sync_file_entry" where
  "classify_download_row local_map e =
     (let entry = default_sync_file_entry\<lparr>se_path := de_path e, se_s3_size := de_size e\<rparr>
      in case local_map (de_path e) of
           None \<Rightarrow> entry\<lparr>se_local_size := -1, se_action := Download\<rparr>
         | Some (local_size, local_mtime) \<Rightarrow>
             entry\<lparr>se_local_size := local_size, se_local_mtime := local_mtime,
                   se_action := (if local_size \<noteq> de_size e then download_action (de_size e)
                                 else if destination_is_current (de_mtime e) local_mtime then Skip
                                 else download_action (de_size e))\<rparr>)"

definition classify_files_download ::
  "sync_config \<Rightarrow> bool \<Rightarrow> directory_entry list \<Rightarrow> bool \<Rightarrow> directory_entry list \<Rightarrow>
   sync_file_entry list \<times> bool" where
  "classify_files_download cfg cancelled s3_entries s3_complete local_entries =
     (let enumeration_ok = s3_complete in
      if cancelled then ([], enumeration_ok)
      else let local_map = entry_map local_entries;
               s3_map = entry_map s3_entries;
               entries = map (classify_download_row local_map) s3_entries;
               orphans = (if sc_delete_orphans cfg
                          then map (\<lambda>e. default_sync_file_entry\<lparr>se_path := de_path e,
                                          se_local_size := de_size e, se_s3_size := -1,
                                          se_action := Delete\<rparr>)
                                 (filter (\<lambda>e. s3_map (de_path e) = None) local_entries)
                          else [])
           in (entries @ orphans, enumeration_ok))"

section \<open>S3 to S3\<close>

definition classify_copy_row :: "(string \<rightharpoonup> entry_info) \<Rightarrow> directory_entry \<Rightarrow> sync_file_entry" where
  "classify_copy_row dest_map e =
     (let entry = default_sync_file_entry\<lparr>se_path := de_path e, se_s3_size := de_size e\<rparr>
      in case dest_map (de_path e) of
           None \<Rightarrow> entry\<lparr>se_dest_size := -1, se_action := Copy\<rparr>
         | Some (dest_size, dst_mtime) \<Rightarrow>
             entry\<lparr>se_dest_size := dest_size,
                   se_action := (if dest_size \<noteq> de_size e then Copy
                                 else if destination_is_current (de_mtime e) dst_mtime then Skip
                                 else Copy)\<rparr>)"

definition classify_files_s3_to_s3 ::
  "sync_config \<Rightarrow> bool \<Rightarrow> directory_entry list \<Rightarrow> bool \<Rightarrow> directory_entry list \<Rightarrow>
   sync_file_entry list \<times> bool" where
  "classify_files_s3_to_s3 cfg cancelled source_entries source_complete dest_entries =
     (let enumeration_ok = source_complete in
      if cancelled then ([], enumeration_ok)
      else let source_map = entry_map source_entries;
               dest_map = entry_map dest_entries;
               entries = map (classify_copy_row dest_map) source_entries;
               orphans = (if sc_delete_orphans cfg
                          then map (\<lambda>e. default_sync_file_entry\<lparr>se_path := de_path e,
                                          se_dest_size := de_size e, se_s3_size := -1,
                                          se_action := Delete\<rparr>)
                                 (filter (\<lambda>e. source_map (de_path e) = None) dest_entries)
                          else [])
           in (entries @ orphans, enumeration_ok))"

section \<open>Local to local\<close>

definition classify_local_row :: "(string \<rightharpoonup> entry_info) \<Rightarrow> directory_entry \<Rightarrow> sync_file_entry" where
  "classify_local_row dest_map e =
     (let entry = default_sync_file_entry\<lparr>se_path := de_path e, se_local_size := de_size e\<rparr>
      in case dest_map (de_path e) of
           None \<Rightarrow> entry\<lparr>se_dest_size := -1, se_action := Upload\<rparr>
         | Some (dest_size, dst_mtime) \<Rightarrow>
             entry\<lparr>se_dest_size := dest_size,
                   se_action := (if dest_size \<noteq> de_size e then Upload
                                 else if destination_is_current (de_mtime e) dst_mtime then Skip
                                 else Upload)\<rparr>)"

definition classify_files_local_to_local ::
  "sync_config \<Rightarrow> bool \<Rightarrow> directory_entry list \<Rightarrow> bool \<Rightarrow> bool \<Rightarrow> directory_entry list \<Rightarrow>
   sync_file_entry list \<times> bool" where
  "classify_files_local_to_local cfg cancelled source_entries source_complete source_alias_omitted
       dest_entries =
     (let enumeration_ok = (if source_alias_omitted then False else source_complete) in
      if cancelled then ([], enumeration_ok)
      else let source_map = entry_map source_entries;
               dest_map = entry_map dest_entries;
               entries = map (classify_local_row dest_map) source_entries;
               orphans = (if sc_delete_orphans cfg
                          then map (\<lambda>e. default_sync_file_entry\<lparr>se_path := de_path e,
                                          se_dest_size := de_size e, se_local_size := -1,
                                          se_action := Delete\<rparr>)
                                 (filter (\<lambda>e. source_map (de_path e) = None) dest_entries)
                          else [])
           in (entries @ orphans, enumeration_ok))"

section \<open>What a planner promises\<close>

text \<open>
  The four planners share one shape: a row for each source entry, computed from the destination's
  map, then the orphans of the destination.  The interface says what the directions have in common;
  each direction's row and orphan are interpreted in it.
\<close>

definition orphan_upload :: "directory_entry \<Rightarrow> sync_file_entry" where
  "orphan_upload e = default_sync_file_entry\<lparr>se_path := de_path e, se_local_size := -1,
                       se_s3_size := de_size e, se_action := Delete\<rparr>"

definition orphan_download :: "directory_entry \<Rightarrow> sync_file_entry" where
  "orphan_download e = default_sync_file_entry\<lparr>se_path := de_path e, se_local_size := de_size e,
                         se_s3_size := -1, se_action := Delete\<rparr>"

definition orphan_copy :: "directory_entry \<Rightarrow> sync_file_entry" where
  "orphan_copy e = default_sync_file_entry\<lparr>se_path := de_path e, se_dest_size := de_size e,
                     se_s3_size := -1, se_action := Delete\<rparr>"

definition orphan_local :: "directory_entry \<Rightarrow> sync_file_entry" where
  "orphan_local e = default_sync_file_entry\<lparr>se_path := de_path e, se_dest_size := de_size e,
                      se_local_size := -1, se_action := Delete\<rparr>"

definition plan ::
  "((string \<rightharpoonup> entry_info) \<Rightarrow> directory_entry \<Rightarrow> sync_file_entry) \<Rightarrow>
   (directory_entry \<Rightarrow> sync_file_entry) \<Rightarrow> bool \<Rightarrow> directory_entry list \<Rightarrow> directory_entry list \<Rightarrow>
   sync_file_entry list" where
  "plan row orphan del src dst =
     map (row (entry_map dst)) src @
     (if del then map orphan (filter (\<lambda>e. entry_map src (de_path e) = None) dst) else [])"

definition up_to_date :: "(string \<rightharpoonup> entry_info) \<Rightarrow> directory_entry \<Rightarrow> bool" where
  "up_to_date m e = (case m (de_path e) of None \<Rightarrow> False
                     | Some (n, t) \<Rightarrow> n = de_size e \<and> 0 < de_mtime e \<and> de_mtime e < t)"

lemma classify_as_plan [plan_simps]:
  "classify_files cfg False src c a dst =
     (plan classify_upload_row orphan_upload (sc_delete_orphans cfg) src dst, if a then False else c)"
  "classify_files_download cfg False src c dst =
     (plan classify_download_row orphan_download (sc_delete_orphans cfg) src dst, c)"
  "classify_files_s3_to_s3 cfg False src c dst =
     (plan classify_copy_row orphan_copy (sc_delete_orphans cfg) src dst, c)"
  "classify_files_local_to_local cfg False src c a dst =
     (plan classify_local_row orphan_local (sc_delete_orphans cfg) src dst, if a then False else c)"
  by (simp_all add: classify_files_def classify_files_download_def classify_files_s3_to_s3_def
        classify_files_local_to_local_def plan_def Let_def orphan_upload_def [abs_def]
        orphan_download_def [abs_def] orphan_copy_def [abs_def] orphan_local_def [abs_def])

locale planner =
  fixes row :: "(string \<rightharpoonup> entry_info) \<Rightarrow> directory_entry \<Rightarrow> sync_file_entry"
    and orphan :: "directory_entry \<Rightarrow> sync_file_entry"
  assumes row_path: "se_path (row m e) = de_path e"
    and row_skip: "se_action (row m e) = Skip \<longleftrightarrow> up_to_date m e"
    and row_not_delete: "se_action (row m e) \<noteq> Delete"
    and orphan_path: "se_path (orphan e) = de_path e"
    and orphan_delete: "se_action (orphan e) = Delete"
begin

lemma plan_paths:
  "map se_path (plan row orphan del src dst) =
   map de_path src @
   (if del then map de_path (filter (\<lambda>e. de_path e \<notin> de_path ` set src) dst) else [])"
  by (simp add: plan_def row_path orphan_path comp_def)

lemma plan_each_path_once:
  assumes "distinct (map de_path src)" "distinct (map de_path dst)"
  shows "distinct (map se_path (plan row orphan del src dst))"
  using assms unfolding plan_paths by (auto simp: distinct_map_filter) (metis image_eqI)

lemma plan_path_set:
  "se_path ` set (plan row orphan del src dst) =
   de_path ` set src \<union> (if del then de_path ` set dst else {})"
proof -
  have "se_path ` set (plan row orphan del src dst) = set (map se_path (plan row orphan del src dst))"
    by simp
  then show ?thesis unfolding plan_paths by auto
qed

lemma plan_deletes:
  "map se_path (filter (\<lambda>x. se_action x = Delete) (plan row orphan del src dst)) =
   (if del then map de_path (filter (\<lambda>e. de_path e \<notin> de_path ` set src) dst) else [])"
  by (simp add: plan_def filter_map comp_def row_not_delete orphan_delete orphan_path)

lemma plan_skips:
  "map se_path (filter (\<lambda>x. se_action x = Skip) (plan row orphan del src dst)) =
   map de_path (filter (up_to_date (entry_map dst)) src)"
  by (simp add: plan_def filter_map comp_def row_skip row_path orphan_delete)

end

lemmas row_defs = classify_upload_row_def classify_download_row_def classify_copy_row_def
  classify_local_row_def upload_action_def download_action_def up_to_date_def
  destination_is_current_iff default_sync_file_entry_def Let_def

interpretation upload_planner: planner classify_upload_row orphan_upload
  by unfold_locales (auto simp: row_defs orphan_upload_def split: option.splits)

interpretation download_planner: planner classify_download_row orphan_download
  by unfold_locales (auto simp: row_defs orphan_download_def split: option.splits)

interpretation copy_planner: planner classify_copy_row orphan_copy
  by unfold_locales (auto simp: row_defs orphan_copy_def split: option.splits)

interpretation local_planner: planner classify_local_row orphan_local
  by unfold_locales (auto simp: row_defs orphan_local_def split: option.splits)

text \<open>The plans of the four directions for the same source and destination listings.\<close>

definition all_plans ::
  "sync_config \<Rightarrow> directory_entry list \<Rightarrow> directory_entry list \<Rightarrow> sync_file_entry list list" where
  "all_plans cfg src dst =
     [fst (classify_files cfg False src True False dst),
      fst (classify_files_download cfg False src True dst),
      fst (classify_files_s3_to_s3 cfg False src True dst),
      fst (classify_files_local_to_local cfg False src True False dst)]"

lemmas all_plans_simps = all_plans_def classify_as_plan list.pred_inject fst_conv

text \<open>
  in every direction, when the two listings name each path once, the plan names each path
  exactly once: every source path, and with \<^verbatim>\<open>--delete\<close> every destination path too.
\<close>

theorem plan_names_each_path_once:
  assumes "distinct (map de_path src)" "distinct (map de_path dst)"
  shows "list_all (\<lambda>p. distinct (map se_path p) \<and>
            se_path ` set p = de_path ` set src \<union> (if sc_delete_orphans cfg then de_path ` set dst else {}))
          (all_plans cfg src dst)"
  using upload_planner.plan_each_path_once [OF assms] download_planner.plan_each_path_once [OF assms]
    copy_planner.plan_each_path_once [OF assms] local_planner.plan_each_path_once [OF assms]
  by (simp only: all_plans_simps upload_planner.plan_path_set download_planner.plan_path_set
        copy_planner.plan_path_set local_planner.plan_path_set simp_thms)

text \<open>
  C1: in every direction the plan deletes exactly the paths of the destination that the source does
  not have, in the destination's order, and deletes nothing without \<^verbatim>\<open>--delete\<close>.
\<close>

theorem plan_deletes_exactly_orphans:
  "list_all (\<lambda>p. map se_path (filter (\<lambda>x. se_action x = Delete) p) =
       (if sc_delete_orphans cfg
        then map de_path (filter (\<lambda>e. de_path e \<notin> de_path ` set src) dst) else []))
     (all_plans cfg src dst)"
  by (simp only: all_plans_simps upload_planner.plan_deletes download_planner.plan_deletes
        copy_planner.plan_deletes local_planner.plan_deletes simp_thms)

text \<open>
  in every direction the plan leaves alone exactly the source entries whose destination copy has
  the same size and a known, strictly newer modification time; every other source entry is
  transferred.
\<close>

theorem plan_skips_exactly_up_to_date:
  "list_all (\<lambda>p. map se_path (filter (\<lambda>x. se_action x = Skip) p) =
       map de_path (filter (up_to_date (entry_map dst)) src))
     (all_plans cfg src dst)"
  by (simp only: all_plans_simps upload_planner.plan_skips download_planner.plan_skips
        copy_planner.plan_skips local_planner.plan_skips simp_thms)

theorem plan_names_each_path_once_witness:
  "list_all (\<lambda>p. distinct (map se_path p) \<and>
      se_path ` set p = de_path ` set [\<lparr>de_path = ''a'', de_size = 1, de_mtime = 5\<rparr>] \<union>
        (if sc_delete_orphans \<lparr>sc_direction = DirUpload, sc_local_path = ''l'', sc_dest_local_path = [],
            sc_source = default_file_source, sc_destination = default_file_source,
            sc_delete_orphans = True, sc_dry_run = False, sc_max_threads = 1\<rparr>
         then de_path ` set [\<lparr>de_path = ''b'', de_size = 1, de_mtime = 5\<rparr>] else {}))
    (all_plans \<lparr>sc_direction = DirUpload, sc_local_path = ''l'', sc_dest_local_path = [],
       sc_source = default_file_source, sc_destination = default_file_source,
       sc_delete_orphans = True, sc_dry_run = False, sc_max_threads = 1\<rparr>
       [\<lparr>de_path = ''a'', de_size = 1, de_mtime = 5\<rparr>] [\<lparr>de_path = ''b'', de_size = 1, de_mtime = 5\<rparr>])"
  by (rule plan_names_each_path_once) simp_all

end
