(* ===== verification/Sync_Scan.thy ===== *)
theory Sync_Scan
  imports Sync_Plan Local_Enum
begin

text \<open>
  The first phase of a sync: the heads of the four planners of sync_task.cpp, which enumerate source
  and destination, composed with the classification of theory \<^verbatim>\<open>Sync_Plan\<close>.  The two enumerations of
  a sync between equals run concurrently in the code; here the source comes first.  \<^term>\<open>None\<close> is
  running out of fuel, and \<open>Inl\<close> the exception of an \<^verbatim>\<open>fs::exists\<close> that cannot tell.
\<close>

datatype sync_exception = CannotTellWhetherExists string

definition local_exists :: "file_queries \<Rightarrow> string \<Rightarrow> sync_exception + bool" where
  "local_exists fq p =
     (case fq_status fq p of
        Inr _ \<Rightarrow> Inr True
      | Inl e \<Rightarrow> if e = ENOENT \<or> e = ENOTDIR then Inr False else Inl (CannotTellWhetherExists p))"

text \<open>Entries, whether they are complete, whether an alias was left out.\<close>

definition local_listing ::
  "nat \<Rightarrow> file_queries \<Rightarrow> bool \<Rightarrow> string \<Rightarrow> cancel \<Rightarrow>
   (sync_exception + (directory_entry list \<times> bool \<times> bool \<times> cancel)) option" where
  "local_listing fuel fq must_exist path cancelled =
     (case (if must_exist then Inr True else local_exists fq path) of
        Inl x \<Rightarrow> Some (Inl x)
      | Inr False \<Rightarrow> Some (Inr ([], True, False, cancelled))
      | Inr True \<Rightarrow> map_option Inr (parallel_enumerate_local_directory fuel fq path cancelled))"

type_synonym 's scanned = "((sync_exception \<times> cancel \<times> 's) + (sync_file_entry list \<times> bool \<times> cancel \<times> 's)) option"

definition scan_upload ::
  "nat \<Rightarrow> file_queries \<Rightarrow> 's s3_client option \<Rightarrow> sync_config \<Rightarrow> cancel \<Rightarrow> 's \<Rightarrow> 's scanned" where
  "scan_upload fuel fq client cfg cancelled s =
     (case parallel_enumerate_local_directory fuel fq (with_slash (sc_local_path cfg)) cancelled of
        None \<Rightarrow> None
      | Some (local_entries, local_complete, local_alias_omitted, cancelled) \<Rightarrow>
          (case parallel_enumerate_s3_prefix fuel client (fs_bucket (sc_destination cfg)) (fs_path (sc_destination cfg))
                  True False cancelled s of
             None \<Rightarrow> None
           | Some (s3_entries, s3_complete, cancelled, s) \<Rightarrow>
               let (stop, cancelled) = poll cancelled;
                   (files, ok) = classify_files cfg stop local_entries local_complete local_alias_omitted s3_entries
               in Some (Inr (files, ok, cancelled, s))))"

definition scan_download ::
  "nat \<Rightarrow> file_queries \<Rightarrow> 's s3_client option \<Rightarrow> sync_config \<Rightarrow> cancel \<Rightarrow> 's \<Rightarrow> 's scanned" where
  "scan_download fuel fq client cfg cancelled s =
     (case parallel_enumerate_s3_prefix fuel client (fs_bucket (sc_source cfg)) (fs_path (sc_source cfg))
             True False cancelled s of
        None \<Rightarrow> None
      | Some (s3_entries, s3_complete, cancelled, s) \<Rightarrow>
          (case local_listing fuel fq False (with_slash (sc_local_path cfg)) cancelled of
             None \<Rightarrow> None
           | Some (Inl x) \<Rightarrow> Some (Inl (x, cancelled, s))
           | Some (Inr (local_entries, local_complete, _, cancelled)) \<Rightarrow>
               let (stop, cancelled) = poll cancelled;
                   (files, ok) = classify_files_download cfg stop s3_entries s3_complete local_entries
               in Some (Inr (files, ok, cancelled, s))))"

definition scan_s3_to_s3 ::
  "nat \<Rightarrow> 's s3_client option \<Rightarrow> 's s3_client option \<Rightarrow> sync_config \<Rightarrow> cancel \<Rightarrow> 's \<Rightarrow> 's scanned" where
  "scan_s3_to_s3 fuel source_client dest_client cfg cancelled s =
     (case parallel_enumerate_s3_prefix fuel source_client (fs_bucket (sc_source cfg)) (fs_path (sc_source cfg))
             True False cancelled s of
        None \<Rightarrow> None
      | Some (source_entries, source_complete, cancelled, s) \<Rightarrow>
          (case parallel_enumerate_s3_prefix fuel dest_client (fs_bucket (sc_destination cfg))
                  (fs_path (sc_destination cfg)) True False cancelled s of
             None \<Rightarrow> None
           | Some (dest_entries, dest_complete, cancelled, s) \<Rightarrow>
               let (stop, cancelled) = poll cancelled;
                   (files, ok) = classify_files_s3_to_s3 cfg stop source_entries source_complete dest_entries
               in Some (Inr (files, ok, cancelled, s))))"

definition scan_local_to_local ::
  "nat \<Rightarrow> file_queries \<Rightarrow> sync_config \<Rightarrow> cancel \<Rightarrow> 's \<Rightarrow> 's scanned" where
  "scan_local_to_local fuel fq cfg cancelled s =
     (case local_listing fuel fq True (with_slash (sc_local_path cfg)) cancelled of
        None \<Rightarrow> None
      | Some (Inl x) \<Rightarrow> Some (Inl (x, cancelled, s))
      | Some (Inr (source_entries, source_complete, source_alias_omitted, cancelled)) \<Rightarrow>
          (case local_listing fuel fq False (with_slash (sc_dest_local_path cfg)) cancelled of
             None \<Rightarrow> None
           | Some (Inl x) \<Rightarrow> Some (Inl (x, cancelled, s))
           | Some (Inr (dest_entries, dest_complete, _, cancelled)) \<Rightarrow>
               let (stop, cancelled) = poll cancelled;
                   (files, ok) = classify_files_local_to_local cfg stop source_entries source_complete
                                   source_alias_omitted dest_entries
               in Some (Inr (files, ok, cancelled, s))))"

section \<open>What a scan that may be acted on has seen\<close>

text \<open>A cancelled enumeration stays cancelled.\<close>

lemma prefix_pages_sticky:
  "prefix_pages fuel client b m np p t (Some 0) s = Some (es, ds, ok, c, s') \<Longrightarrow> c = Some 0"
  by (cases fuel) auto

lemma run_prefix_tasks_sticky:
  "run_prefix_tasks fuel client b m np ps (Some 0) s = Some (es, ds, ok, c, s') \<Longrightarrow> c = Some 0"
  by (induction ps arbitrary: s es ds ok) (auto simp: process_prefix_def split: option.splits)

lemma prefix_levels_sticky:
  "prefix_levels fuel client b m np L (Some 0) s = Some (es, ok, c, s') \<Longrightarrow> c = Some 0"
  by (cases fuel) (auto split: if_splits)

lemma parallel_enumerate_s3_sticky:
  "parallel_enumerate_s3_prefix fuel client b p True m (Some 0) s = Some (es, ok, c, s') \<Longrightarrow> c = Some 0"
  by (auto simp: parallel_enumerate_s3_prefix_def dest: prefix_levels_sticky split: option.splits)

lemma local_listing_sticky:
  "local_listing fuel fq e p (Some 0) = Some (Inr (es, ok, al, c)) \<Longrightarrow> c = Some 0"
  by (auto simp: local_listing_def parallel_enumerate_local_directory_def dest: directory_levels_cancelled
      split: sum.splits bool.splits if_splits)

definition unthreatened :: "string set \<Rightarrow> sync_file_entry list \<Rightarrow> bool" where
  "unthreatened source files \<longleftrightarrow>
     (\<forall>f \<in> set files. se_action f = Delete \<longrightarrow> se_path f \<notin> source) \<and> source \<subseteq> se_path ` set files"

context planner
begin

lemma plan_unthreatened: "unthreatened (de_path ` set src) (plan row orphan del src dst)"
  unfolding unthreatened_def plan_path_set
proof (intro conjI ballI impI)
  fix f assume f: "f \<in> set (plan row orphan del src dst)" "se_action f = Delete"
  then have "se_path f \<in> set (map se_path (filter (\<lambda>x. se_action x = Delete) (plan row orphan del src dst)))" by simp
  then obtain e :: directory_entry where "se_path f = de_path e" "de_path e \<notin> de_path ` set src"
    unfolding plan_deletes by (auto simp del: entry_map_None_iff split: if_splits)
  then show "se_path f \<notin> de_path ` set src" by simp
qed simp

end

lemma upload_scan_unthreatened:
  assumes r: "scan_upload fuel fq client cfg c s = Some (Inr (files, True, c', s'))" and nc: "c' \<noteq> Some 0"
  shows "unthreatened (de_path ` files_below fq (with_slash (sc_local_path cfg)) [[]]) files"
proof -
  let ?src = "with_slash (sc_local_path cfg)"
  from r obtain src ok al c1 dst ok2 c2 stop where w:
    "parallel_enumerate_local_directory fuel fq ?src c = Some (src, ok, al, c1)"
    "parallel_enumerate_s3_prefix fuel client (fs_bucket (sc_destination cfg)) (fs_path (sc_destination cfg)) True False c1 s =
      Some (dst, ok2, c2, s')"
    "poll c2 = (stop, c')" "classify_files cfg stop src ok al dst = (files, True)"
    by (auto simp: scan_upload_def split: option.splits prod.splits)
  from w(3) nc have ns: "\<not> stop" by (rule poll_keeps)
  have "c1 \<noteq> Some 0" using nc w(2,3) parallel_enumerate_s3_sticky [of fuel client] by fastforce
  moreover have "ok" "\<not> al" "files = plan classify_upload_row orphan_upload (sc_delete_orphans cfg) src dst"
    using w(4) ns by (auto simp: classify_as_plan split: if_splits)
  ultimately show ?thesis
    using complete_walk_files [of fuel fq ?src c src c1] w(1) upload_planner.plan_unthreatened [of src "sc_delete_orphans cfg" dst] by simp
qed

lemma local_scan_unthreatened:
  assumes r: "scan_local_to_local fuel fq cfg c s = Some (Inr (files, True, c', s'))" and nc: "c' \<noteq> Some 0"
  shows "unthreatened (de_path ` files_below fq (with_slash (sc_local_path cfg)) [[]]) files"
proof -
  let ?src = "with_slash (sc_local_path cfg)"
  from r obtain src ok al c1 dst ok2 al2 c2 stop where w:
    "parallel_enumerate_local_directory fuel fq ?src c = Some (src, ok, al, c1)"
    "local_listing fuel fq False (with_slash (sc_dest_local_path cfg)) c1 = Some (Inr (dst, ok2, al2, c2))"
    "poll c2 = (stop, c')" "classify_files_local_to_local cfg stop src ok al dst = (files, True)"
    by (auto simp: scan_local_to_local_def local_listing_def [of fuel fq True] split: option.splits sum.splits prod.splits)
  from w(3) nc have ns: "\<not> stop" by (rule poll_keeps)
  have "c1 \<noteq> Some 0" using nc w(2,3) local_listing_sticky by fastforce
  moreover have "ok" "\<not> al" "files = plan classify_local_row orphan_local (sc_delete_orphans cfg) src dst"
    using w(4) ns by (auto simp: classify_as_plan split: if_splits)
  ultimately show ?thesis
    using complete_walk_files [of fuel fq ?src c src c1] w(1) local_planner.plan_unthreatened [of src "sc_delete_orphans cfg" dst] by simp
qed


end
