(* ===== verification/Sync_Sweep.thy ===== *)
theory Sync_Sweep
  imports Local_FS Local_Enum
begin

text \<open>
  The sweep for temporary files that an earlier, dead run left behind: \<^verbatim>\<open>process_exists\<close>,
  \<^verbatim>\<open>sweep_orphaned_sync_temps\<close> and \<^verbatim>\<open>sweep_local_sync_temps\<close> of sync_task.cpp.  \<open>kill p\<close> is the
  answer of \<^verbatim>\<open>kill(p, 0)\<close>, \<open>fq\<close> what the directory calls answer, \<open>weak\<close> and \<open>absolute\<close> are
  \<^verbatim>\<open>fs::weakly_canonical\<close> and \<^verbatim>\<open>fs::absolute\<close>.
\<close>

datatype sweep_mode = RefuseOrphans | RemoveOrphans

datatype sweep_error =
    CannotScan string | Unrecognized string | CannotInspect string | NotRegular string
  | OwnerUnknown string | OwnerAlive string | OrphanPresent string | CannotRemove string

text \<open>\<^verbatim>\<open>process_exists\<close>: whether the owner may be alive, and whether that is only for want of an answer.\<close>

definition process_exists :: "(nat \<Rightarrow> errno option) \<Rightarrow> nat \<Rightarrow> bool \<times> bool" where
  "process_exists kill pid =
     (case kill pid of
        None \<Rightarrow> (True, False)
      | Some e \<Rightarrow> if e = ESRCH then (False, False) else (True, True))"

text \<open>
  \<^verbatim>\<open>fs::recursive_directory_iterator\<close> with \<^verbatim>\<open>skip_permission_denied\<close>: the paths below a directory,
  links not followed; \<^term>\<open>None\<close> in the list is an increment that fails.  The depth is fuel.
\<close>

definition descends :: "file_queries \<Rightarrow> string \<Rightarrow> bool" where
  "descends fq p \<longleftrightarrow> \<not> fq_is_symlink fq p \<and> fq_status fq p = Inr Directory"

fun walk_tree :: "nat \<Rightarrow> file_queries \<Rightarrow> string \<Rightarrow> string option list option" where
  "walk_tree 0 fq dir = None"
| "walk_tree (Suc depth) fq dir =
     (case fq_entries fq dir of
        Inl e \<Rightarrow> Some (if e = EACCES then [] else [None])
      | Inr (names, throws) \<Rightarrow>
          map_option (\<lambda>paths. concat paths @ (if throws then [None] else []))
            (those (map (\<lambda>name. let p = path_append dir name in
                        if descends fq p then map_option ((#) (Some p)) (walk_tree depth fq p) else Some [Some p]) names)))"

text \<open>One entry of the iteration; \<^term>\<open>None\<close> is going on.\<close>

definition sweep_entry ::
  "(nat \<Rightarrow> errno option) \<Rightarrow> sweep_mode \<Rightarrow> string \<Rightarrow> local_fs \<Rightarrow> sweep_error option \<times> local_fs" where
  "sweep_entry kill mode path fs =
     (let filename = path_filename path in
      if \<not> is_sync_temp_name filename then (None, fs)
      else case parse_sync_temp_pid filename of
        None \<Rightarrow> (Some (Unrecognized path), fs)
      | Some owner_pid \<Rightarrow>
          (case sys_lstat path fs of
             (Inl e, fs) \<Rightarrow> (Some (CannotInspect path), fs)
           | (Inr node, fs) \<Rightarrow>
               if \<not> (case node of File i \<Rightarrow> True | _ \<Rightarrow> False) then (Some (NotRegular path), fs)
               else (case process_exists kill owner_pid of
                 (True, unsure) \<Rightarrow> (Some (if unsure then OwnerUnknown path else OwnerAlive path), fs)
               | (False, _) \<Rightarrow>
                   if mode = RefuseOrphans then (Some (OrphanPresent path), fs)
                   else let (e, fs) = sys_unlink path fs in
                     (if e \<noteq> None then Some (CannotRemove path) else None, fs))))"

fun sweep_entries ::
  "(nat \<Rightarrow> errno option) \<Rightarrow> sweep_mode \<Rightarrow> string \<Rightarrow> string option list \<Rightarrow> local_fs \<Rightarrow> sweep_error option \<times> local_fs" where
  "sweep_entries kill mode root [] fs = (None, fs)"
| "sweep_entries kill mode root (None # paths) fs = (Some (CannotScan root), fs)"
| "sweep_entries kill mode root (Some p # paths) fs =
     (let (e, fs) = sweep_entry kill mode p fs in
      if e \<noteq> None then (e, fs) else sweep_entries kill mode root paths fs)"

text \<open>\<^verbatim>\<open>fs::exists\<close> and \<^verbatim>\<open>fs::is_directory\<close> with an error code are false on an error.\<close>

definition sweep_orphaned_sync_temps ::
  "nat \<Rightarrow> file_queries \<Rightarrow> (nat \<Rightarrow> errno option) \<Rightarrow> string \<Rightarrow> sweep_mode \<Rightarrow> local_fs \<Rightarrow>
   (sweep_error option \<times> local_fs) option" where
  "sweep_orphaned_sync_temps depth fq kill root mode fs =
     (case fq_status fq root of
        Inl e \<Rightarrow> Some (None, fs)
      | Inr kind \<Rightarrow>
          if kind \<noteq> Directory then Some (None, fs)
          else map_option (\<lambda>paths. sweep_entries kill mode root paths fs) (walk_tree depth fq root))"

definition sweep_roots :: "sync_config \<Rightarrow> string list" where
  "sweep_roots cfg =
     (case sc_direction cfg of
        DirUpload \<Rightarrow> [sc_local_path cfg]
      | DirDownload \<Rightarrow> [sc_local_path cfg]
      | LocalToLocal \<Rightarrow> [sc_local_path cfg, sc_dest_local_path cfg]
      | S3ToS3 \<Rightarrow> [])"

text \<open>The roots whose canonical name has not been seen before.\<close>

fun sweep_each ::
  "nat \<Rightarrow> (local_fs \<Rightarrow> file_queries) \<Rightarrow> (string \<Rightarrow> string option) \<Rightarrow> (string \<Rightarrow> string) \<Rightarrow> (nat \<Rightarrow> errno option) \<Rightarrow>
   sweep_mode \<Rightarrow> string list \<Rightarrow> string list \<Rightarrow> local_fs \<Rightarrow> (sweep_error option \<times> local_fs) option" where
  "sweep_each depth os weak absolute kill mode seen [] fs = Some (None, fs)"
| "sweep_each depth os weak absolute kill mode seen (root # roots) fs =
     (let key = (case weak root of None \<Rightarrow> absolute root | Some c \<Rightarrow> c) in
      if List.member seen key then sweep_each depth os weak absolute kill mode seen roots fs
      else case sweep_orphaned_sync_temps depth (os fs) kill root mode fs of
        None \<Rightarrow> None
      | Some (Some e, fs) \<Rightarrow> Some (Some e, fs)
      | Some (None, fs) \<Rightarrow> sweep_each depth os weak absolute kill mode (key # seen) roots fs)"

definition sweep_local_sync_temps ::
  "nat \<Rightarrow> (local_fs \<Rightarrow> file_queries) \<Rightarrow> (string \<Rightarrow> string option) \<Rightarrow> (string \<Rightarrow> string) \<Rightarrow> (nat \<Rightarrow> errno option) \<Rightarrow>
   sync_config \<Rightarrow> sweep_mode \<Rightarrow> local_fs \<Rightarrow> (sweep_error option \<times> local_fs) option" where
  "sweep_local_sync_temps depth os weak absolute kill cfg mode fs =
     sweep_each depth os weak absolute kill mode [] (sweep_roots cfg) fs"

section \<open>What a sweep removes\<close>

text \<open>A temporary file of a process that is gone.\<close>

definition orphaned :: "(nat \<Rightarrow> errno option) \<Rightarrow> local_fs \<Rightarrow> string \<Rightarrow> bool" where
  "orphaned kill fs p \<longleftrightarrow>
     (\<exists>pid i. parse_sync_temp_pid (path_filename p) = Some pid \<and> kill pid = Some ESRCH \<and> lf_nodes fs p = Some (File i))"

definition only_orphans_removed :: "(nat \<Rightarrow> errno option) \<Rightarrow> sweep_mode \<Rightarrow> local_fs \<Rightarrow> local_fs \<Rightarrow> bool" where
  "only_orphans_removed kill mode fs fs' \<longleftrightarrow>
     (\<forall>p. lf_nodes fs' p = lf_nodes fs p \<or> lf_nodes fs' p = None \<and> orphaned kill fs p \<and> mode = RemoveOrphans)"

lemma only_orphans_removed_refl: "lf_nodes fs' = lf_nodes fs \<Longrightarrow> only_orphans_removed kill mode fs fs'"
  by (simp add: only_orphans_removed_def)

lemma only_orphans_removed_trans:
  assumes "only_orphans_removed kill mode a b" "only_orphans_removed kill mode b c"
  shows "only_orphans_removed kill mode a c"
  unfolding only_orphans_removed_def
proof
  fix p
  from assms have "lf_nodes b p = lf_nodes a p \<or> lf_nodes b p = None \<and> orphaned kill a p \<and> mode = RemoveOrphans"
    "lf_nodes c p = lf_nodes b p \<or> lf_nodes c p = None \<and> orphaned kill b p \<and> mode = RemoveOrphans"
    unfolding only_orphans_removed_def by blast+
  then show "lf_nodes c p = lf_nodes a p \<or> lf_nodes c p = None \<and> orphaned kill a p \<and> mode = RemoveOrphans"
    unfolding orphaned_def by metis
qed

lemma sys_lstat_answer: "sys_lstat p fs = (r, fs') \<Longrightarrow> lf_nodes fs' = lf_nodes fs \<and> (\<forall>n. r = Inr n \<longrightarrow> lf_nodes fs p = Some n)"
  by (auto simp: sys_lstat_def dest: sys_call_nodes split: prod.splits sum.splits option.splits)

lemma sys_unlink_nodes:
  "sys_unlink p fs = (e, fs') \<Longrightarrow> lf_nodes fs' = (if e = None then (lf_nodes fs)(p := None) else lf_nodes fs)"
  by (auto simp: sys_unlink_def set_node_def dest!: sys_call_nodes split: prod.splits sum.splits option.splits node.splits)

text \<open>What one entry leaves: nothing of a name of the sweep's kind, when it goes on.\<close>

lemma sweep_entry_effect:
  assumes "sweep_entry kill mode p fs = (r, fs')"
  shows "only_orphans_removed kill mode fs fs' \<and>
         (r = None \<longrightarrow> is_sync_temp_name (path_filename p) \<longrightarrow> mode = RemoveOrphans \<and> lf_nodes fs' p = None)"
proof -
  obtain st fs1 where l: "sys_lstat p fs = (st, fs1)" by fastforce
  note n1 = sys_lstat_answer [OF l]
  obtain e fs2 where u: "sys_unlink p fs1 = (e, fs2)" by fastforce
  note n2 = sys_unlink_nodes [OF u]
  consider (kept) "fs' = fs \<or> fs' = fs1" "r = None \<longrightarrow> \<not> is_sync_temp_name (path_filename p)"
    | (gone) pid i where "parse_sync_temp_pid (path_filename p) = Some pid" "kill pid = Some ESRCH" "st = Inr (File i)"
        "mode = RemoveOrphans" "fs' = fs2" "r = None \<longrightarrow> e = None"
    using assms l u
    by (auto simp: sweep_entry_def process_exists_def Let_def split: option.splits sum.splits node.splits if_splits)
      (metis sweep_mode.exhaust)+
  then show ?thesis
  proof cases
    case kept
    then show ?thesis using n1 by (auto intro: only_orphans_removed_refl)
  next
    case gone
    then have "orphaned kill fs p" using n1 by (auto simp: orphaned_def)
    with gone n1 n2 show ?thesis by (auto simp: only_orphans_removed_def)
  qed
qed

text \<open>Entries that are gone stay gone.\<close>

lemma only_orphans_removed_None: "only_orphans_removed kill mode a b \<Longrightarrow> lf_nodes a p = None \<Longrightarrow> lf_nodes b p = None"
  by (metis only_orphans_removed_def)

lemma sweep_entries_effect:
  "sweep_entries kill mode root ps fs = (r, fs') \<Longrightarrow> only_orphans_removed kill mode fs fs' \<and>
     (r = None \<longrightarrow> (\<forall>p. Some p \<in> set ps \<longrightarrow> is_sync_temp_name (path_filename p) \<longrightarrow>
        mode = RemoveOrphans \<and> lf_nodes fs' p = None))"
proof (induction kill mode root ps fs rule: sweep_entries.induct)
  case (1 kill mode root fs)
  then show ?case by (simp add: only_orphans_removed_refl)
next
  case (2 kill mode root ps fs)
  then show ?case by (auto intro: only_orphans_removed_refl)
next
  case (3 kill mode root p ps fs)
  obtain e fs1 where q: "sweep_entry kill mode p fs = (e, fs1)" by fastforce
  note e1 = sweep_entry_effect [OF q]
  show ?case
  proof (cases e)
    case (Some x)
    with 3(2) q have "r = Some x" "fs' = fs1" by auto
    with e1 show ?thesis by simp
  next
    case None
    with 3(2) q have "sweep_entries kill mode root ps fs1 = (r, fs')" by simp
    from 3(1) [OF q [symmetric] refl _ this] None have ih: "only_orphans_removed kill mode fs1 fs'"
      "r = None \<longrightarrow> (\<forall>p. Some p \<in> set ps \<longrightarrow> is_sync_temp_name (path_filename p) \<longrightarrow>
        mode = RemoveOrphans \<and> lf_nodes fs' p = None)" by auto
    have "is_sync_temp_name (path_filename p) \<longrightarrow> mode = RemoveOrphans \<and> lf_nodes fs' p = None"
      using e1 None only_orphans_removed_None [OF ih(1)] by simp
    with ih e1 only_orphans_removed_trans [of kill mode fs fs1 fs'] show ?thesis by auto
  qed
qed

text \<open>The paths a completed iteration of a root yields.\<close>

definition walked :: "nat \<Rightarrow> file_queries \<Rightarrow> string \<Rightarrow> string set" where
  "walked depth fq root =
     (if fq_status fq root = Inr Directory
      then {p. \<exists>ps. walk_tree depth fq root = Some ps \<and> Some p \<in> set ps} else {})"

lemma sweep_orphaned_effect:
  assumes "sweep_orphaned_sync_temps depth fq kill root mode fs = Some (r, fs')"
  shows "only_orphans_removed kill mode fs fs' \<and>
     (r = None \<longrightarrow> (\<forall>p \<in> walked depth fq root. is_sync_temp_name (path_filename p) \<longrightarrow>
        mode = RemoveOrphans \<and> lf_nodes fs' p = None))"
proof (cases "fq_status fq root = Inr Directory")
  case False
  with assms have "r = None \<and> fs' = fs"
    by (auto simp: sweep_orphaned_sync_temps_def split: sum.splits if_splits)
  with False show ?thesis by (simp add: only_orphans_removed_refl walked_def)
next
  case True
  with assms obtain ps where "walk_tree depth fq root = Some ps" "sweep_entries kill mode root ps fs = (r, fs')"
    by (auto simp: sweep_orphaned_sync_temps_def)
  with sweep_entries_effect [of kill mode root ps fs r fs'] True show ?thesis by (auto simp: walked_def)
qed

lemma sweep_each_removes:
  "sweep_each depth os weak absolute kill mode seen roots fs = Some (r, fs') \<Longrightarrow> only_orphans_removed kill mode fs fs'"
proof (induction roots arbitrary: seen fs)
  case Nil
  then show ?case by (simp add: only_orphans_removed_refl)
next
  case (Cons root roots)
  define key where "key = (case weak root of None \<Rightarrow> absolute root | Some c \<Rightarrow> c)"
  show ?case
  proof (cases "List.member seen key")
    case True
    with Cons show ?thesis by (simp add: key_def)
  next
    case False
    with Cons.prems obtain e fs1 where q: "sweep_orphaned_sync_temps depth (os fs) kill root mode fs = Some (e, fs1)"
      by (auto simp: key_def Let_def split: option.splits)
    note e1 = conjunct1 [OF sweep_orphaned_effect [OF q]]
    show ?thesis
    proof (cases e)
      case (Some x)
      with Cons.prems False q e1 show ?thesis by (simp add: key_def)
    next
      case None
      with Cons.prems False q have "sweep_each depth os weak absolute kill mode (key # seen) roots fs1 = Some (r, fs')"
        by (simp add: key_def)
      from Cons.IH [OF this] e1 show ?thesis by (rule only_orphans_removed_trans [rotated])
    qed
  qed
qed

text \<open>
  C27: the sweep removes nothing but temporary files of the tool's own naming whose owner is known to
  be gone, and in the refusing mode it removes nothing at all; whatever call fails.
\<close>

theorem sweep_removes_only_orphans:
  "case sweep_local_sync_temps depth os weak absolute kill cfg mode fs of
     None \<Rightarrow> True
   | Some (r, fs') \<Rightarrow> only_orphans_removed kill mode fs fs'"
  using sweep_each_removes [of depth os weak absolute kill mode "[]" "sweep_roots cfg" fs]
  by (auto simp: sweep_local_sync_temps_def split: option.splits)


text \<open>A directory with one file left behind by the dead process 4711.\<close>

definition old_temp :: string where "old_temp = ''.'' @ ''x'' @ temp_name_suffix 4711 0"

definition old_path :: string where "old_path = path_append ''d'' old_temp"

lemma old_temp_facts:
  "path_filename old_path = old_temp" "parse_sync_temp_pid old_temp = Some 4711" "is_sync_temp_name old_temp"
  "old_path \<noteq> ''d''" "old_path \<noteq> []"
proof -
  have "CHR ''/'' \<notin> set old_temp"
    by (simp add: old_temp_def temp_name_suffix_def kTempSuffix_def slash_notin_show_nat)
  then show f: "path_filename old_path = old_temp"
    unfolding old_path_def by (rule path_filename_append) (simp add: old_temp_def)
  show p: "parse_sync_temp_pid old_temp = Some 4711"
    unfolding old_temp_def by (rule parse_sync_temp_pid_parts) (simp_all add: pid_max_def)
  then show "is_sync_temp_name old_temp" unfolding parse_sync_temp_pid_def by (metis option.distinct(1))
  show "old_path \<noteq> ''d''" "old_path \<noteq> []"
    by (simp_all add: old_path_def path_append_def old_temp_def)
qed

definition temp_fs :: local_fs where
  "temp_fs = \<lparr>lf_nodes = [''d'' \<mapsto> Dir, old_path \<mapsto>
       File \<lparr>in_data = [1], in_mode = 0x180, in_owner = (7, 7), in_mtime = 5\<rparr>],
     lf_script = [], lf_alive = True, lf_now = 9, lf_umask = 0x12, lf_owner = (1, 1), lf_pid = 4712, lf_counter = 0\<rparr>"

definition temp_queries :: file_queries where
  "temp_queries = \<lparr>fq_is_directory = (\<lambda>p. p = ''d''),
     fq_entries = (\<lambda>p. if p = ''d'' then Inr ([old_temp], False) else Inl ENOTDIR),
     fq_is_symlink = (\<lambda>_. False), fq_status = (\<lambda>p. Inr (if p = ''d'' then Directory else Regular)),
     fq_canonical = Inr, fq_stat = (\<lambda>_. Some (1, 5))\<rparr>"

definition upload_d :: sync_config where
  "upload_d = \<lparr>sc_direction = DirUpload, sc_local_path = ''d'', sc_dest_local_path = [],
     sc_source = default_file_source, sc_destination = default_file_source, sc_delete_orphans = False,
     sc_dry_run = False, sc_max_threads = 4\<rparr>"

definition swept_fs :: local_fs where
  "swept_fs = set_node old_path None temp_fs"

lemma temp_walk: "walk_tree 2 temp_queries ''d'' = Some [Some old_path]"
proof -
  have "walk_tree (Suc 1) temp_queries ''d'' = Some [Some old_path]"
    using old_temp_facts(4) by (simp add: temp_queries_def descends_def flip: old_path_def)
  then show ?thesis by (simp add: numeral_2_eq_2)
qed

lemma temp_sweep: "sweep_entry (\<lambda>_. Some ESRCH) RemoveOrphans old_path temp_fs = (None, swept_fs)"
proof -
  have "sys_lstat old_path temp_fs = (Inr (File \<lparr>in_data = [1], in_mode = 0x180, in_owner = (7, 7), in_mtime = 5\<rparr>), temp_fs)"
    by (simp add: sys_lstat_def sys_call_def temp_fs_def)
  moreover have "sys_unlink old_path temp_fs = (None, swept_fs)"
    by (simp add: sys_unlink_def sys_call_def temp_fs_def swept_fs_def set_node_def)
  ultimately show ?thesis by (simp add: sweep_entry_def old_temp_facts process_exists_def)
qed


text \<open>
  A root that cannot be inspected, for want of a permission, say, counts as absent: the sweep reports
  no error although it has looked at nothing.
\<close>

theorem sweep_ignores_uninspectable_root:
  assumes "sc_direction cfg = DirUpload" "fq_status (os fs) (sc_local_path cfg) = Inl e"
  shows "sweep_local_sync_temps depth os weak absolute kill cfg mode fs = Some (None, fs)"
  using assms by (simp add: sweep_local_sync_temps_def sweep_roots_def sweep_orphaned_sync_temps_def Let_def)

theorem sweep_ignores_uninspectable_root_witness:
  "sweep_local_sync_temps 2 (\<lambda>_. temp_queries\<lparr>fq_status := \<lambda>_. Inl EACCES\<rparr>) Some id (\<lambda>_. Some ESRCH) upload_d
     RemoveOrphans temp_fs = Some (None, temp_fs)"
  by (rule sweep_ignores_uninspectable_root [where e = EACCES]) (simp_all add: upload_d_def)

end
