(* ===== verification/Run_Sync.thy ===== *)
theory Run_Sync
  imports Sync_Store Sync_Scan Sync_Sweep
begin

text \<open>
  \<^verbatim>\<open>run_sync\<close> of sync_task.cpp as a whole: the overlap check of two local roots, the sweep, the choice
  of the clients, the scan, the refusals, and the execution of the plan under some interleaving of
  its threads.  What the code finds in its environment is a record of parameters.
\<close>

section \<open>The environment and the result\<close>

text \<open>
  \<open>ho_os\<close> is what the directory calls answer for the current nodes of the file system; \<open>ho_schedule\<close> is
  the interleaving of the second phase; \<open>ho_fuel\<close> bounds the enumerations.
\<close>

record 's host =
  ho_fuel :: nat
  ho_os :: "(string \<rightharpoonup> node) \<Rightarrow> file_queries"
  ho_weak :: "string \<Rightarrow> string option"
  ho_absolute :: "string \<Rightarrow> string"
  ho_kill :: "nat \<Rightarrow> errno option"
  ho_create :: "'s client_factory"
  ho_canon :: "local_fs \<Rightarrow> string \<Rightarrow> string option"
  ho_pexists :: "local_fs \<Rightarrow> string \<Rightarrow> bool"
  ho_crc :: zng_crc
  ho_reader :: "byte list \<Rightarrow> pread"
  ho_schedule :: "sync_event list"

abbreviation queries_of :: "'s host \<Rightarrow> local_fs \<Rightarrow> file_queries" where
  "queries_of host fs \<equiv> ho_os host (lf_nodes fs)"

datatype sync_error =
    SamePath | DestinationInsideSource | SourceInsideDestination | SweepFailed sweep_error
  | NoSourceClient | NoDestinationClient | NoClient | CancelledDuringEnumeration | EnumerationFailed
  | CancelledLater | Raised sync_exception

record sync_result =
  sr_success :: bool
  sr_counts :: counts
  sr_skipped :: nat
  sr_transferred :: int
  sr_server_side :: int
  sr_saved :: int
  sr_error :: "sync_error option"
  sr_files :: "sync_file_entry list"

definition default_sync_result :: sync_result where
  "default_sync_result = \<lparr>sr_success = False, sr_counts = no_counts, sr_skipped = 0, sr_transferred = 0,
     sr_server_side = 0, sr_saved = 0, sr_error = None, sr_files = []\<rparr>"

definition failed_with :: "sync_error \<Rightarrow> sync_result" where
  "failed_with e = default_sync_result\<lparr>sr_error := Some e\<rparr>"

section \<open>Before the scan\<close>

definition overlap_error :: "(string \<Rightarrow> string option) \<Rightarrow> sync_config \<Rightarrow> sync_error option" where
  "overlap_error weak cfg =
     (if sc_direction cfg \<noteq> LocalToLocal then None
      else let resolved = (\<lambda>p. with_slash (case weak p of None \<Rightarrow> p | Some c \<Rightarrow> c));
               source = resolved (sc_local_path cfg); dest = resolved (sc_dest_local_path cfg)
           in if source = dest then Some SamePath
              else if starts_with dest source then Some DestinationInsideSource
              else if starts_with source dest then Some SourceInsideDestination
              else None)"

definition effective_max_threads :: "sync_config \<Rightarrow> int" where
  "effective_max_threads cfg = max 1 (sc_max_threads cfg)"

definition connect :: "'s host \<Rightarrow> sync_config \<Rightarrow> file_source \<Rightarrow> 's s3_client option" where
  "connect host cfg src =
     ho_create host (fs_region src) (fs_endpoint src) (max 512 (effective_max_threads cfg * 2)) (fs_profile src)"

text \<open>The clients for the source, for the destination and for the transfers.\<close>

definition sync_clients ::
  "'s host \<Rightarrow> sync_config \<Rightarrow> 's s3_client option \<Rightarrow>
   sync_error + ('s s3_client option \<times> 's s3_client option \<times> 's s3_client option)" where
  "sync_clients host cfg client =
     (if client \<noteq> None \<or> sc_direction cfg = LocalToLocal then Inr (client, client, client)
      else if sc_direction cfg = S3ToS3 then
        (case connect host cfg (sc_source cfg) of
           None \<Rightarrow> Inl NoSourceClient
         | Some a \<Rightarrow>
             if should_reuse_s3_client (sc_source cfg) (sc_destination cfg) then Inr (Some a, Some a, Some a)
             else (case connect host cfg (sc_destination cfg) of
                     None \<Rightarrow> Inl NoDestinationClient
                   | Some b \<Rightarrow> Inr (Some a, Some b, Some b)))
      else (case connect host cfg (if sc_direction cfg = DirDownload then sc_source cfg else sc_destination cfg) of
              None \<Rightarrow> Inl NoClient
            | Some a \<Rightarrow> Inr (Some a, Some a, Some a)))"

definition sync_scan ::
  "'s host \<Rightarrow> sync_config \<Rightarrow> 's s3_client option \<Rightarrow> 's s3_client option \<Rightarrow> 's s3_client option \<Rightarrow> cancel \<Rightarrow> local_fs \<Rightarrow> 's \<Rightarrow>
   's scanned" where
  "sync_scan host cfg source_client dest_client client cancelled fs s =
     (case sc_direction cfg of
        S3ToS3 \<Rightarrow> scan_s3_to_s3 (ho_fuel host) source_client dest_client cfg cancelled s
      | DirDownload \<Rightarrow> scan_download (ho_fuel host) (queries_of host fs) client cfg cancelled s
      | LocalToLocal \<Rightarrow> scan_local_to_local (ho_fuel host) (queries_of host fs) cfg cancelled s
      | DirUpload \<Rightarrow> scan_upload (ho_fuel host) (queries_of host fs) client cfg cancelled s)"

definition sync_sweep :: "'s host \<Rightarrow> sync_config \<Rightarrow> sweep_mode \<Rightarrow> local_fs \<Rightarrow> (sweep_error option \<times> local_fs) option" where
  "sync_sweep host cfg mode fs =
     sweep_local_sync_temps (ho_fuel host) (queries_of host) (ho_weak host) (ho_absolute host) (ho_kill host) cfg mode fs"

section \<open>The plan\<close>

definition count_action :: "sync_action \<Rightarrow> sync_file_entry list \<Rightarrow> nat" where
  "count_action a files = length (filter (\<lambda>f. se_action f = a) files)"

definition planned_counts :: "sync_file_entry list \<Rightarrow> counts" where
  "planned_counts files = \<lparr>ct_upload = count_action Upload files, ct_diff_upload = count_action UploadDiff files,
     ct_download = count_action Download files, ct_diff_download = count_action DownloadDiff files,
     ct_copy = count_action Copy files, ct_delete = count_action Delete files, ct_fail = 0\<rparr>"

definition transfer_size :: "sync_file_entry \<Rightarrow> int" where
  "transfer_size f = (if se_action f = Download \<or> se_action f = DownloadDiff then se_s3_size f else se_local_size f)"

text \<open>Small files first, deletions last; \<^verbatim>\<open>std::sort\<close> leaves the order of equals open.\<close>

definition actionable :: "sync_file_entry list \<Rightarrow> sync_file_entry list" where
  "actionable files =
     sort_key transfer_size (filter (\<lambda>f. se_action f \<noteq> Skip \<and> se_action f \<noteq> Delete) files) @
     sort_key transfer_size (filter (\<lambda>f. se_action f = Delete) files)"

section \<open>Carrying it out\<close>

text \<open>The directories a download will need, each made once and only where it resolves inside the root.\<close>

definition dirs_to_create :: "sync_config \<Rightarrow> sync_file_entry list \<Rightarrow> string list" where
  "dirs_to_create cfg files = sort (remdups
     (filter (\<lambda>dir. dir \<noteq> [] \<and> dir \<noteq> sc_local_path cfg)
       (map (\<lambda>f. parent_path (path_append (sc_local_path cfg) (se_path f)))
         (filter (\<lambda>f. (se_action f = Download \<or> se_action f = DownloadDiff) \<and> validate_relative_path (se_path f) \<and>
                     validate_target_within_base (sc_local_path cfg) (path_append (sc_local_path cfg) (se_path f)))
           files))))"

fun create_dirs :: "string list \<Rightarrow> local_fs \<Rightarrow> local_fs" where
  "create_dirs [] fs = fs"
| "create_dirs (dir # dirs) fs = (let (e, fs) = make_dirs (ancestors dir) fs in create_dirs dirs fs)"

definition precreate_dirs :: "'s host \<Rightarrow> sync_config \<Rightarrow> sync_file_entry list \<Rightarrow> local_fs \<Rightarrow> local_fs" where
  "precreate_dirs host cfg files fs =
     (if sc_direction cfg \<noteq> DirDownload then fs
      else create_dirs (filter (\<lambda>dir. validate_target_resolves_within_base (ho_canon host fs) (ho_pexists host fs)
                                        (sc_local_path cfg) (path_append dir ''x'')) (dirs_to_create cfg files)) fs)"

definition sync_env :: "'s host \<Rightarrow> sync_config \<Rightarrow> 's s3_client option \<Rightarrow> 's env" where
  "sync_env host cfg client = \<lparr>en_cfg = cfg, en_client = client, en_canon = ho_canon host,
     en_pexists = ho_pexists host, en_crc = ho_crc host, en_reader = ho_reader host,
     en_threads = nat (effective_max_threads cfg)\<rparr>"

text \<open>The second phase; \<^term>\<open>None\<close> when the schedule is not one of a complete run.\<close>

definition execute_plan ::
  "'s host \<Rightarrow> sync_config \<Rightarrow> 's s3_client option \<Rightarrow> sync_file_entry list \<Rightarrow> cancel \<Rightarrow> local_fs \<Rightarrow> 's \<Rightarrow> 's exec option" where
  "execute_plan host cfg client files cancelled fs s =
     (let env = sync_env host cfg client; todo = actionable files in
      case sync_steps env todo (ho_schedule host)
             (initial_exec env todo cancelled (precreate_dirs host cfg todo fs) s) of
        None \<Rightarrow> None
      | Some st \<Rightarrow> if finished todo st then Some st else None)"

definition sync_result_of :: "sync_file_entry list \<Rightarrow> 's exec \<Rightarrow> sync_result" where
  "sync_result_of files st = default_sync_result
     \<lparr>sr_counts := ex_counts st, sr_skipped := count_action Skip files, sr_transferred := ex_transferred st,
      sr_server_side := ex_server_side st, sr_saved := ex_saved st, sr_files := files\<rparr>"

text \<open>The last statements: a cancelled run is not a success.\<close>

definition conclude :: "sync_result \<Rightarrow> cancel \<Rightarrow> sync_result \<times> cancel" where
  "conclude r cancelled =
     (let (stop, cancelled) = poll cancelled in
      (if stop then r\<lparr>sr_success := False,
                      sr_error := (case sr_error r of None \<Rightarrow> Some CancelledLater | Some e \<Rightarrow> Some e)\<rparr>
       else r\<lparr>sr_success := (ct_fail (sr_counts r) = 0)\<rparr>, cancelled))"

section \<open>The run\<close>

type_synonym 's run = "(sync_result \<times> cancel \<times> local_fs \<times> 's) option"

definition sync_after_scan ::
  "'s host \<Rightarrow> sync_config \<Rightarrow> 's s3_client option \<Rightarrow> sync_file_entry list \<Rightarrow> bool \<Rightarrow> cancel \<Rightarrow> local_fs \<Rightarrow> 's \<Rightarrow> 's run" where
  "sync_after_scan host cfg client files enumeration_ok cancelled fs s =
     (let (stop, cancelled) = poll cancelled in
      if stop then Some (failed_with CancelledDuringEnumeration, cancelled, fs, s)
      else if \<not> enumeration_ok then Some (failed_with EnumerationFailed, cancelled, fs, s)
      else case sync_sweep host cfg RefuseOrphans fs of
        None \<Rightarrow> None
      | Some (Some e, fs) \<Rightarrow> Some (failed_with (SweepFailed e), cancelled, fs, s)
      | Some (None, fs) \<Rightarrow>
          if sc_dry_run cfg then
            let (r, cancelled) = conclude (default_sync_result\<lparr>sr_counts := planned_counts files,
                                   sr_skipped := count_action Skip files, sr_files := files\<rparr>) cancelled
            in Some (r, cancelled, fs, s)
          else (case execute_plan host cfg client files cancelled fs s of
                  None \<Rightarrow> None
                | Some st \<Rightarrow>
                    let (r, cancelled) = conclude (sync_result_of files st) (ex_cancelled st)
                    in Some (r, cancelled, ex_fs st, ex_world st)))"

definition run_sync ::
  "'s host \<Rightarrow> sync_config \<Rightarrow> 's s3_client option \<Rightarrow> cancel \<Rightarrow> local_fs \<Rightarrow> 's \<Rightarrow> 's run" where
  "run_sync host cfg client cancelled fs s =
     (case overlap_error (ho_weak host) cfg of
        Some e \<Rightarrow> Some (failed_with e, cancelled, fs, s)
      | None \<Rightarrow>
          (case sync_sweep host cfg (if sc_dry_run cfg then RefuseOrphans else RemoveOrphans) fs of
             None \<Rightarrow> None
           | Some (Some e, fs) \<Rightarrow> Some (failed_with (SweepFailed e), cancelled, fs, s)
           | Some (None, fs) \<Rightarrow>
               (case sync_clients host cfg client of
                  Inl e \<Rightarrow> Some (failed_with e, cancelled, fs, s)
                | Inr (source_client, dest_client, client) \<Rightarrow>
                    (case sync_scan host cfg source_client dest_client client cancelled fs s of
                       None \<Rightarrow> None
                     | Some (Inl (x, cancelled, s)) \<Rightarrow> Some (failed_with (Raised x), cancelled, fs, s)
                     | Some (Inr (files, enumeration_ok, cancelled, s)) \<Rightarrow>
                         sync_after_scan host cfg client files enumeration_ok cancelled fs s))))"

section \<open>The first phase does not touch the store\<close>

lemma scan_keeps:
  assumes "sync_scan host cfg a b client c fs s = Some r" "keeps_store objects a" "keeps_store objects b"
    "keeps_store objects client"
  shows "case r of Inl (x, c', s') \<Rightarrow> objects s' = objects s | Inr (files, ok, c', s') \<Rightarrow> objects s' = objects s"
  using assms(1)
  by (auto simp: sync_scan_def scan_upload_def scan_download_def scan_s3_to_s3_def scan_local_to_local_def Let_def
      split: sync_direction.splits option.splits sum.splits prod.splits dest!: listing_keeps [where objects = objects]
      simp: assms(2-4))

text \<open>Every client the run may use honours the contract of a store.\<close>

definition serves :: "('s \<Rightarrow> store_view) \<Rightarrow> 's host \<Rightarrow> 's s3_client option \<Rightarrow> bool" where
  "serves objects host client \<longleftrightarrow>
     (case client of
        Some c \<Rightarrow> object_store c objects
      | None \<Rightarrow> (\<forall>region endpoint n profile. keeps_store objects (ho_create host region endpoint n profile)))"

lemma serves_clients:
  "serves objects host client \<Longrightarrow> sync_clients host cfg client = Inr (a, b, d) \<Longrightarrow>
     keeps_store objects a \<and> keeps_store objects b \<and> keeps_store objects d"
  by (auto simp: serves_def keeps_store_def sync_clients_def connect_def split: option.splits if_splits)

lemma sweep_effect:
  "sync_sweep host cfg mode fs = Some (r, fs') \<Longrightarrow> only_orphans_removed (ho_kill host) mode fs fs'"
  unfolding sync_sweep_def sweep_local_sync_temps_def by (rule sweep_each_removes)

lemma refusing_removes_nothing: "only_orphans_removed kill RefuseOrphans fs fs' \<Longrightarrow> lf_nodes fs' = lf_nodes fs"
  by (auto simp: only_orphans_removed_def fun_eq_iff)

text \<open>Whether a run got as far as carrying out its plan.\<close>

definition carried_out :: "sync_config \<Rightarrow> sync_result \<Rightarrow> bool" where
  "carried_out cfg r \<longleftrightarrow> \<not> sc_dry_run cfg \<and> (sr_error r = None \<or> sr_error r = Some CancelledLater)"

lemma conclude_error:
  "conclude r c = (r', c') \<Longrightarrow> sr_error r = None \<Longrightarrow> sr_error r' = None \<or> sr_error r' = Some CancelledLater"
  by (auto simp: conclude_def split: prod.splits if_splits)

lemma after_scan_cases:
  assumes "sync_after_scan host cfg client files ok c fs s = Some (r, c', fs', s')"
  obtains (stopped) "s' = s" "lf_nodes fs' = lf_nodes fs" "\<not> carried_out cfg r" "\<not> sr_success r"
  | (dry) "sc_dry_run cfg" "s' = s" "lf_nodes fs' = lf_nodes fs"
  | (done') c1 fs1 st where "poll c = (False, c1)" "ok" "lf_nodes fs1 = lf_nodes fs" "\<not> sc_dry_run cfg"
      "execute_plan host cfg client files c1 fs1 s = Some st" "fs' = ex_fs st" "s' = ex_world st"
      "conclude (sync_result_of files st) (ex_cancelled st) = (r, c')"
proof -
  obtain stop c1 where p: "poll c = (stop, c1)" by fastforce
  note def = assms [unfolded sync_after_scan_def Let_def p prod.case]
  have fail: "\<not> carried_out cfg (failed_with e)" "\<not> sr_success (failed_with e)" if "e \<noteq> CancelledLater" for e
    using that by (simp_all add: carried_out_def failed_with_def default_sync_result_def)
  show ?thesis
  proof (cases "stop \<or> \<not> ok")
    case True
    with def have "s' = s" "fs' = fs" "r = failed_with CancelledDuringEnumeration \<or> r = failed_with EnumerationFailed"
      by (auto split: if_splits)
    with fail show ?thesis by (intro that(1)) auto
  next
    case False
    with def obtain e fs1 where sw: "sync_sweep host cfg RefuseOrphans fs = Some (e, fs1)"
      by (auto split: option.splits)
    note n1 = refusing_removes_nothing [OF sweep_effect [OF sw]]
    show ?thesis
    proof (cases e)
      case (Some x)
      with def False sw have "s' = s" "fs' = fs1" "r = failed_with (SweepFailed x)" by auto
      with fail n1 show ?thesis by (intro that(1)) auto
    next
      case None
      show ?thesis
      proof (cases "sc_dry_run cfg")
        case True
        with def False sw None have "s' = s" "fs' = fs1" by (auto split: prod.splits)
        with True n1 show ?thesis by (intro that(2)) auto
      next
        case nd: False
        with def False sw None obtain st where
          "execute_plan host cfg client files c1 fs1 s = Some st"
          "conclude (sync_result_of files st) (ex_cancelled st) = (r, c')" "fs' = ex_fs st" "s' = ex_world st"
          by (auto split: option.splits prod.splits)
        with p False n1 nd show ?thesis by (intro that(3)) auto
      qed
    qed
  qed
qed

lemma run_sync_cases:
  assumes "run_sync host cfg client c fs s = Some (r, c', fs', s')" "serves objects host client"
  obtains (stopped) "objects s' = objects s" "\<not> carried_out cfg r" "\<not> sr_success r"
      "only_orphans_removed (ho_kill host) (if sc_dry_run cfg then RefuseOrphans else RemoveOrphans) fs fs'"
  | (scanned) fs1 source_client dest_client client' files ok c1 s1 where
      "sync_sweep host cfg (if sc_dry_run cfg then RefuseOrphans else RemoveOrphans) fs = Some (None, fs1)"
      "sync_clients host cfg client = Inr (source_client, dest_client, client')"
      "sync_scan host cfg source_client dest_client client' c fs1 s = Some (Inr (files, ok, c1, s1))"
      "objects s1 = objects s" "sync_after_scan host cfg client' files ok c1 fs1 s1 = Some (r, c', fs', s')"
proof -
  let ?mode = "if sc_dry_run cfg then RefuseOrphans else RemoveOrphans"
  have fail: "\<not> carried_out cfg (failed_with e)" "\<not> sr_success (failed_with e)" if "e \<noteq> CancelledLater" for e
    using that by (simp_all add: carried_out_def failed_with_def default_sync_result_def)
  note def = assms(1) [unfolded run_sync_def]
  show ?thesis
  proof (cases "overlap_error (ho_weak host) cfg")
    case (Some e)
    then have "e \<noteq> CancelledLater" by (auto simp: overlap_error_def Let_def split: if_splits)
    with Some def fail show ?thesis by (intro that(1)) (auto intro: only_orphans_removed_refl)
  next
    case None
    with def obtain e fs1 where sw: "sync_sweep host cfg ?mode fs = Some (e, fs1)" by (auto split: option.splits)
    note n1 = sweep_effect [OF sw]
    show ?thesis
    proof (cases e)
      case (Some x)
      with def None sw n1 fail show ?thesis by (intro that(1)) auto
    next
      case e: None
      show ?thesis
      proof (cases "sync_clients host cfg client")
        case (Inl x)
        then have "x \<noteq> CancelledLater" by (auto simp: sync_clients_def split: if_splits option.splits)
        with def None sw e Inl n1 fail show ?thesis by (intro that(1)) auto
      next
        case (Inr cl)
        then obtain a b d where cl: "sync_clients host cfg client = Inr (a, b, d)" by (metis surj_pair)
        with def None sw e obtain sc where sc: "sync_scan host cfg a b d c fs1 s = Some sc"
          by (auto split: option.splits)
        note sk = scan_keeps [OF sc, where objects = objects] serves_clients [OF assms(2) cl]
        show ?thesis
        proof (cases sc)
          case (Inl x)
          with def None sw e cl sc sk n1 fail show ?thesis
            by (intro that(1)) (auto split: prod.splits)
        next
          case (Inr y)
          then obtain files ok c1 s1 where "sc = Inr (files, ok, c1, s1)" by (metis surj_pair)
          with def None sw e cl sc sk show ?thesis by (intro that(2)) auto
        qed
      qed
    qed
  qed
qed

text \<open>
  C8: a dry run changes nothing: neither the store nor any local file, whatever it finds and wherever it
  is cancelled.
\<close>

theorem dry_run_changes_nothing:
  assumes "serves objects host client" "sc_dry_run cfg" "run_sync host cfg client c fs s = Some (r, c', fs', s')"
  shows "objects s' = objects s \<and> lf_nodes fs' = lf_nodes fs"
  using assms(3,1)
proof (cases rule: run_sync_cases)
  case stopped
  with assms(2) refusing_removes_nothing show ?thesis by auto
next
  case (scanned fs1 sc dc cl files ok c1 s1)
  have "lf_nodes fs1 = lf_nodes fs"
    using sweep_effect [OF scanned(1)] assms(2) refusing_removes_nothing by simp
  with scanned(4,5) assms(2) show ?thesis by (auto elim!: after_scan_cases)
qed

text \<open>
  a run that refuses to start, because the roots overlap, a temporary file is in the way, a client
  cannot be made, the source cannot be listed completely or the user cancels the scan, has changed
  nothing but removed orphaned temporary files, and reports no success.
\<close>

theorem refused_run_changes_nothing:
  assumes "serves objects host client" "run_sync host cfg client c fs s = Some (r, c', fs', s')" "\<not> carried_out cfg r"
  shows "objects s' = objects s \<and> only_orphans_removed (ho_kill host) RemoveOrphans fs fs'"
  using assms(2,1)
proof (cases rule: run_sync_cases)
  case stopped
  then show ?thesis by (auto simp: only_orphans_removed_def split: if_splits)
next
  case (scanned fs1 sc dc cl files ok c1 s1)
  have "only_orphans_removed (ho_kill host) RemoveOrphans fs fs1"
    using sweep_effect [OF scanned(1)] by (auto simp: only_orphans_removed_def split: if_splits)
  moreover have "s' = s1 \<and> lf_nodes fs' = lf_nodes fs1"
    using scanned(5)
  proof (cases rule: after_scan_cases)
    case (done' c1 fs1 st)
    then have "carried_out cfg r"
      using conclude_error [OF done'(8)] by (auto simp: carried_out_def sync_result_of_def default_sync_result_def)
    with assms(3) show ?thesis by simp
  qed auto
  ultimately show ?thesis using scanned(4) by (auto simp: only_orphans_removed_def)
qed

section \<open>What a successful run has done\<close>

lemma set_actionable: "set (actionable files) = {f \<in> set files. se_action f \<noteq> Skip}"
  by (auto simp: actionable_def)

lemma length_actionable: "length (actionable files) + count_action Skip files = length files"
  by (induction files) (auto simp: actionable_def count_action_def)

text \<open>A planner never plans a download in another direction.\<close>

lemma row_actions [simp]:
  "se_action (classify_upload_row m e) \<noteq> Download" "se_action (classify_copy_row m e) \<noteq> Download"
  "se_action (classify_local_row m e) \<noteq> Download"
  "se_action (orphan_upload e) = Delete" "se_action (orphan_copy e) = Delete" "se_action (orphan_local e) = Delete"
  by (auto simp: row_defs orphan_upload_def orphan_copy_def orphan_local_def split: option.splits)

lemma plan_no_download:
  assumes "\<And>m e. se_action (row m e) \<noteq> Download" "\<And>e. se_action (orphan e) = Delete" "f \<in> set (plan row orphan del src dst)"
  shows "se_action f \<noteq> Download"
  using assms by (auto simp: plan_def split: if_splits)

lemmas no_download = plan_no_download [of classify_upload_row orphan_upload, simplified]
  plan_no_download [of classify_copy_row orphan_copy, simplified]
  plan_no_download [of classify_local_row orphan_local, simplified]

lemma scan_well_planned:
  assumes "sync_scan host cfg a b client c fs s = Some (Inr (files, ok, c', s'))" "c' \<noteq> Some 0"
  shows "well_planned cfg (actionable files)"
proof -
  have "sc_direction cfg = DirDownload \<or> (\<forall>f \<in> set files. se_action f \<noteq> Download)"
    using assms
    by (auto simp: sync_scan_def scan_upload_def scan_s3_to_s3_def scan_local_to_local_def Let_def classify_as_plan
        split: sync_direction.splits option.splits sum.splits prod.splits dest!: poll_keeps dest: no_download)
  then show ?thesis by (auto simp: well_planned_def list_all_iff set_actionable)
qed

lemma conclude_success:
  "conclude r c = (r', c') \<Longrightarrow> sr_success r' \<Longrightarrow> c \<noteq> Some 0 \<and> ct_fail (sr_counts r) = 0 \<and> sr_counts r' = sr_counts r \<and>
     sr_files r' = sr_files r \<and> sr_skipped r' = sr_skipped r"
  by (auto simp: conclude_def split: prod.splits if_splits)

text \<open>The ingredients of a success that was not a dry run.\<close>

lemma successful_run:
  assumes "run_sync host cfg client c fs s = Some (r, c', fs', s')" "serves objects host client" "sr_success r"
    "\<not> sc_dry_run cfg"
  obtains fs1 fs2 a b client' files c1 c2 s1 st where
    "sync_scan host cfg a b client' c fs1 s = Some (Inr (files, True, c1, s1))" "c1 \<noteq> Some 0" "objects s1 = objects s"
    "lf_nodes fs2 = lf_nodes fs1" "sync_clients host cfg client = Inr (a, b, client')"
    "execute_plan host cfg client' files c2 fs2 s1 = Some st" "clean_run st" "fs' = ex_fs st" "s' = ex_world st"
    "sr_files r = files" "sr_counts r = ex_counts st" "sr_skipped r = count_action Skip files"
  using assms(1,2)
proof (cases rule: run_sync_cases)
  case stopped
  with assms(3) show ?thesis by simp
next
  case (scanned fs1 a b cl files ok c1 s1)
  from scanned(5) show ?thesis
  proof (cases rule: after_scan_cases)
    case (done' c2 fs2 st)
    have "c1 \<noteq> Some 0" using done'(1) by auto
    moreover have "clean_run st \<and> sr_files r = files \<and> sr_counts r = ex_counts st \<and> sr_skipped r = count_action Skip files"
      using conclude_success [OF done'(8) assms(3)]
      by (simp add: clean_run_def sync_result_of_def default_sync_result_def)
    ultimately show ?thesis using done' scanned that by auto
  qed (use assms(3,4) in auto)
qed

text \<open>
  C20: the report of a successful run accounts for every file of its plan: the counters of the actions and
  the skipped files add up to the plan, and none failed; in every direction and interleaving.
\<close>

theorem successful_run_accounts:
  assumes "run_sync host cfg client c fs s = Some (r, c', fs', s')" "serves objects host client" "sr_success r"
    "\<not> sc_dry_run cfg"
  shows "ct_fail (sr_counts r) = 0 \<and> counted (sr_counts r) + sr_skipped r = length (sr_files r)"
  using assms
proof (cases rule: successful_run)
  case (1 fs1 fs2 a b cl files c1 c2 s1 st)
  let ?env = "sync_env host cfg cl" and ?todo = "actionable files"
  from 1(6) have st: "sync_steps ?env ?todo (ho_schedule host)
      (initial_exec ?env ?todo c2 (precreate_dirs host cfg ?todo fs2) s1) = Some st" "finished ?todo st"
    by (auto simp: execute_plan_def Let_def split: option.splits if_splits)
  have wp: "well_planned (en_cfg ?env) ?todo" using scan_well_planned [OF 1(1,2)] by (simp add: sync_env_def)
  from sound_steps [OF st(1) sound_initial wp] have "sound ?env ?todo st" by simp
  with books_steps [OF st(1) sound_initial wp books_initial] st(2) 1(7)
  have "counted (ex_counts st) = length ?todo"
    by (auto simp: books_balance_def accounted_def sound_def finished_def clean_run_def)
  with length_actionable [of files] 1 show ?thesis by (simp add: clean_run_def)
qed

lemma bucket_sync_exact:
  assumes "run_sync host cfg (Some client) c fs s = Some (r, c', fs', s')" "sr_success r" "\<not> sc_dry_run cfg"
    and "diff_store client objects (ho_crc host) parts" "chaining_crc (ho_crc host)" "\<And>x. reads_file (ho_reader host x) x"
    and "bucket_plan (sync_env host cfg (Some client)) (objects s) fs' (actionable (sr_files r))"
  shows "store_between (sync_env host cfg (Some client)) (objects s) fs' (actionable (sr_files r)) (objects s') \<and>
     list_all (\<lambda>f. objects s' (object_of (sync_env host cfg (Some client)) f) =
         intended (sync_env host cfg (Some client)) (objects s) fs' f) (actionable (sr_files r)) \<and>
     (if sc_direction cfg = DirUpload
      then unthreatened (de_path ` files_below (queries_of host fs') (with_slash (sc_local_path cfg)) [[]]) (sr_files r)
      else True)"
proof -
  have "serves objects host (Some client)"
    using assms(4) by (simp add: serves_def diff_store_def chunk_crc_store_def)
  note run = assms(1) this assms(2,3)
  from run show ?thesis
  proof (cases rule: successful_run)
    case (1 fs1 fs2 a b cl files c1 c2 s1 st)
    then have cl: "cl = Some client" by (auto simp: sync_clients_def)
    let ?env = "sync_env host cfg (Some client)" and ?todo = "actionable files"
    note bp = assms(7) [unfolded 1(10), folded 1(3)]
    have dir: "precreate_dirs host cfg ?todo fs2 = fs2"
      using bp by (auto simp: precreate_dirs_def bucket_plan_def sync_env_def)
    from 1(6) have st: "sync_steps ?env ?todo (ho_schedule host) (initial_exec ?env ?todo c2 fs2 s1) = Some st"
        "finished ?todo st"
      by (auto simp: execute_plan_def Let_def cl dir split: option.splits if_splits)
    from bucket_steps_keep_fs [OF st(1) sound_initial bp] have fs: "fs' = fs2" by (simp add: 1(8) initial_exec_def)
    have envs: "en_client ?env = Some client" "en_crc ?env = ho_crc host" "\<And>x. reads_file (en_reader ?env x) x"
      using assms(6) by (simp_all add: sync_env_def)
    note eff = bucket_effect [OF assms(4,5) envs(3,1,2) bp [unfolded fs] st(1)]
    have "unthreatened (de_path ` files_below (queries_of host fs') (with_slash (sc_local_path cfg)) [[]]) files"
      if "sc_direction cfg = DirUpload"
      using upload_scan_unthreatened [of "ho_fuel host" "queries_of host fs1" cl cfg c s files c1 s1] that 1(1,2,4) fs
      by (simp add: sync_scan_def)
    with eff st(2) 1(3,7,9,10) fs show ?thesis by simp
  qed
qed

text \<open>
  C2: an upload or a copy between buckets that reports success has made the destination what the plan
  says, object by object, whatever the interleaving of its threads: every file planned for a
  transfer is there with exactly the bytes of its source, every orphan planned for deletion is
  gone, and no other object has changed.  For an upload the plan was made from the complete tree: it
  names every file of it and deletes nothing that is in it.
\<close>

theorem successful_sync_is_exact:
  assumes "run_sync host cfg (Some client) c fs s = Some (r, c', fs', s')" "sr_success r" "\<not> sc_dry_run cfg"
    and "diff_store client objects (ho_crc host) parts" "chaining_crc (ho_crc host)" "\<And>x. reads_file (ho_reader host x) x"
    and "bucket_plan (sync_env host cfg (Some client)) (objects s) fs' (actionable (sr_files r))"
  shows "store_between (sync_env host cfg (Some client)) (objects s) fs' (actionable (sr_files r)) (objects s') \<and>
     list_all (\<lambda>f. objects s' (object_of (sync_env host cfg (Some client)) f) =
         intended (sync_env host cfg (Some client)) (objects s) fs' f) (actionable (sr_files r)) \<and>
     (if sc_direction cfg = DirUpload
      then unthreatened (de_path ` files_below (queries_of host fs') (with_slash (sc_local_path cfg)) [[]]) (sr_files r)
      else True)"
  by (rule bucket_sync_exact [OF assms])

section \<open>A run that copies one object\<close>

abbreviation mock0 :: "mock s3_client" where
  "mock0 \<equiv> mock_client ieee_crc32 (\<lambda>_. [])"

definition copy_host :: "sync_event list \<Rightarrow> 's host" where
  "copy_host sched = \<lparr>ho_fuel = 3, ho_os = (\<lambda>_. temp_queries), ho_weak = Some, ho_absolute = id, ho_kill = (\<lambda>_. None),
     ho_create = (\<lambda>_ _ _ _. None), ho_canon = (\<lambda>_. Some), ho_pexists = (\<lambda>_ _. True), ho_crc = ieee_crc32,
     ho_reader = pread_of, ho_schedule = sched\<rparr>"

definition copied :: mock where
  "copied = snd (mock_CopyObject ''b'' ''p/x'' ''b'' ''q/x'' 3 None store_with_x)"

definition file_x :: sync_file_entry where
  "file_x = copy_x\<lparr>se_dest_size := -1\<rparr>"

definition copy_done :: "mock exec" where
  "copy_done = (initial_exec copy_env [file_x] None (small_fs []) store_with_x)
     \<lparr>ex_next := 1, ex_successes := 1, ex_counts := no_counts\<lparr>ct_copy := 1\<rparr>, ex_server_side := 3, ex_world := copied\<rparr>"

lemmas eval_mock = mock_PutObject_def mock_CreateBucket_def empty_mock_def failure_key_def injected_failure_def
  count_call_def store_object_def transient_failure_def Let_def

lemmas eval_listing = parallel_enumerate_s3_prefix_def numeral_3_eq_3 level_tasks_def process_prefix_def with_slash_def
  ends_with_char_def mock_ListObjects_def empty_list_result_def starts_with_def token_prefix_def object_info_def
  get_mtime_unlocked_def relative_entry_def keeps_object_bfs_def object_name_def store_with_x_def eval_mock

lemma copy_listings:
  "parallel_enumerate_s3_prefix 3 (Some mock0) ''b'' ''q'' True False None store_with_x = Some ([], True, None, store_with_x)"
  "parallel_enumerate_s3_prefix 3 (Some mock0) ''b'' ''p'' True False None store_with_x =
     Some ([\<lparr>de_path = ''x'', de_size = 3, de_mtime = mk_now empty_mock\<rparr>], True, None, store_with_x)"
  by (simp_all add: eval_listing)

lemma copy_scan:
  "sync_scan (copy_host sched) ((en_cfg copy_env)\<lparr>sc_dry_run := dry\<rparr>) (Some mock0) (Some mock0) (Some mock0) None fs store_with_x =
     Some (Inr ([file_x], True, None, store_with_x))"
  using copy_listings
  by (simp add: sync_scan_def copy_host_def copy_env_def scan_s3_to_s3_def file_x_def copy_x_def
      classify_files_s3_to_s3_def classify_copy_row_def default_sync_file_entry_def)

lemma copy_request: "mock_CopyObject ''b'' ''p/x'' ''b'' ''q/x'' 3 None store_with_x = ((True, None), copied)"
proof -
  have "fst (mock_CopyObject ''b'' ''p/x'' ''b'' ''q/x'' 3 None store_with_x) = (True, None)"
    by (simp add: mock_CopyObject_def store_with_x_def eval_mock)
  then show ?thesis by (metis copied_def prod.collapse)
qed

lemma copy_env_of_host: "sync_env (copy_host sched) (en_cfg copy_env) (Some mock0) = copy_env"
  by (simp add: sync_env_def copy_host_def copy_env_def effective_max_threads_def)

lemma file_x_simps:
  "source_key copy_env file_x = ''p/x''" "dest_key copy_env file_x = ''q/x''"
  "se_action file_x = Copy" "se_s3_size file_x = 3"
  by (simp_all add: source_key_def dest_key_def copy_env_def file_x_def copy_x_def default_sync_file_entry_def
      object_key_def with_slash_def ends_with_char_def)

lemma copy_env_simps:
  "fs_bucket (sc_source (en_cfg copy_env)) = ''b''" "fs_bucket (sc_destination (en_cfg copy_env)) = ''b''"
  "en_client copy_env = Some mock0" "sc_direction (en_cfg copy_env) = S3ToS3" "en_threads copy_env = 4"
  "(en_cfg copy_env)\<lparr>sc_dry_run := False\<rparr> = en_cfg copy_env" "\<not> sc_dry_run (en_cfg copy_env)"
  by (simp_all add: copy_env_def)

lemma copy_done_simps:
  "ex_fs copy_done = small_fs []" "ex_world copy_done = copied" "ex_cancelled copy_done = None"
  "ct_fail (ex_counts copy_done) = 0" "finished [file_x] copy_done"
  by (simp_all add: copy_done_def initial_exec_def no_counts_def finished_def)

lemma copy_steps:
  "sync_steps copy_env [file_x] [Submit, RunTask 0] (initial_exec copy_env [file_x] None (small_fs []) store_with_x) =
     Some copy_done"
proof -
  have "copy_s3_object mock0 ''b'' ''p/x'' ''b'' ''q/x'' 3 None store_with_x = (True, 3, None, copied)"
    by (simp add: copy_s3_object_def copy_request)
  then show ?thesis
    by (simp add: sync_step_def step_submit_def initial_exec_def max_concurrency_def prefetchable_def step_task_def
        process_file_def process_copy_def adapt_window_def book_def file_x_simps copy_env_simps copy_done_def no_counts_def)
qed

lemma copy_executes:
  "execute_plan (copy_host [Submit, RunTask 0]) (en_cfg copy_env) (Some mock0) [file_x] None (small_fs []) store_with_x =
     Some copy_done"
proof -
  have "ho_schedule (copy_host [Submit, RunTask 0] :: mock host) = [Submit, RunTask 0]" "actionable [file_x] = [file_x]"
    by (simp_all add: copy_host_def actionable_def file_x_simps)
  with copy_steps show ?thesis
    by (simp add: execute_plan_def Let_def copy_env_of_host precreate_dirs_def copy_env_simps copy_done_simps
        del: sync_steps.simps)
qed

lemmas eval_run = run_sync_def overlap_error_def sync_sweep_def sweep_local_sync_temps_def sweep_roots_def
  sync_clients_def sync_after_scan_def conclude_def sync_result_of_def default_sync_result_def

lemma copy_run:
  "run_sync (copy_host [Submit, RunTask 0]) (en_cfg copy_env) (Some mock0) None (small_fs []) store_with_x =
     Some ((sync_result_of [file_x] copy_done)\<lparr>sr_success := True\<rparr>, None, small_fs [], copied)"
  using copy_executes copy_scan [of _ False] by (simp add: eval_run copy_env_simps copy_done_simps)

lemma copy_dry_run:
  "run_sync (copy_host []) ((en_cfg copy_env)\<lparr>sc_dry_run := True\<rparr>) (Some mock0) None (small_fs []) store_with_x =
     Some (default_sync_result\<lparr>sr_success := True, sr_counts := planned_counts [file_x], sr_files := [file_x]\<rparr>,
       None, small_fs [], store_with_x)"
  using copy_scan [of _ True]
  by (simp add: eval_run copy_env_simps planned_counts_def count_action_def file_x_simps)

lemma mock_serves: "serves mock_objects_view host (Some mock0)"
  by (simp add: serves_def mock_store.object_store_axioms)

theorem dry_run_changes_nothing_witness:
  "case run_sync (copy_host []) ((en_cfg copy_env)\<lparr>sc_dry_run := True\<rparr>) (Some mock0) None (small_fs []) store_with_x of
     None \<Rightarrow> False
   | Some (r, c', fs', s') \<Rightarrow> mock_objects_view s' = mock_objects_view store_with_x \<and> lf_nodes fs' = lf_nodes (small_fs [])"
  using dry_run_changes_nothing [OF mock_serves _ copy_dry_run] by (simp add: copy_dry_run)

definition same_roots :: sync_config where
  "same_roots = (en_cfg copy_env)\<lparr>sc_direction := LocalToLocal, sc_local_path := ''d'', sc_dest_local_path := ''d/''\<rparr>"

lemma same_roots_run:
  "run_sync (copy_host []) same_roots (Some mock0) None (small_fs []) store_with_x =
     Some (failed_with SamePath, None, small_fs [], store_with_x)"
  by (simp add: run_sync_def overlap_error_def same_roots_def copy_host_def Let_def with_slash_def ends_with_char_def)

theorem refused_run_changes_nothing_witness:
  "case run_sync (copy_host []) same_roots (Some mock0) None (small_fs []) store_with_x of
     None \<Rightarrow> False
   | Some (r, c', fs', s') \<Rightarrow> mock_objects_view s' = mock_objects_view store_with_x \<and>
       only_orphans_removed (ho_kill (copy_host [] :: mock host)) RemoveOrphans (small_fs []) fs'"
  using refused_run_changes_nothing [OF mock_serves same_roots_run]
  by (simp add: same_roots_run carried_out_def failed_with_def default_sync_result_def)

theorem successful_run_accounts_witness:
  "case run_sync (copy_host [Submit, RunTask 0]) (en_cfg copy_env) (Some mock0) None (small_fs []) store_with_x of
     None \<Rightarrow> False
   | Some (r, c', fs', s') \<Rightarrow> ct_fail (sr_counts r) = 0 \<and> counted (sr_counts r) + sr_skipped r = length (sr_files r)"
  using successful_run_accounts [OF copy_run mock_serves] by (simp add: copy_run copy_env_simps)

theorem successful_sync_is_exact_witness:
  "store_between copy_env (mock_objects_view store_with_x) (small_fs []) [file_x] (mock_objects_view copied) \<and>
   mock_objects_view copied (object_of copy_env file_x) =
     intended copy_env (mock_objects_view store_with_x) (small_fs []) file_x"
proof -
  have files: "actionable (sr_files (sync_result_of [file_x] copy_done)) = [file_x]"
    by (simp add: sync_result_of_def default_sync_result_def actionable_def file_x_simps)
  have "bucket_plan copy_env (mock_objects_view store_with_x) (small_fs []) [file_x]"
    by (simp add: bucket_plan_def plans_object_def copy_env_simps file_x_simps object_of_def source_of_def copy_request_small kMaxSinglePutBytes_def)
  moreover have "diff_store mock0 mock_objects_view (ho_crc (copy_host sched :: mock host)) mock_parts"
      "chaining_crc (ho_crc (copy_host sched :: mock host))" "reads_file (ho_reader (copy_host sched :: mock host) y) y" for sched y
    using mock_diff.diff_store_axioms by (simp_all add: copy_host_def ieee.chaining_crc_axioms reads_file_pread_of)
  ultimately show ?thesis
    using successful_sync_is_exact [OF copy_run, where objects = mock_objects_view and parts = mock_parts]
    by (simp add: files copy_env_of_host copy_env_simps)
qed

end
