(* ===== verification/Settings.thy ===== *)
theory Settings
  imports Core_Types "HOL-Library.Multiset"
begin

text \<open>
  The small pieces around the commands: fd_limits.h (how many threads the file descriptors allow),
  app_settings.cpp (where the data directory is, on Linux), credentials_parser.h (the profiles of the
  AWS credentials file) and bucket_list.h (a list of buckets that fills while it is shown).
\<close>

section \<open>File descriptors\<close>

definition FDS_PER_CONNECTION :: int where "FDS_PER_CONNECTION = 3"
definition FDS_RESERVED :: int where "FDS_RESERVED = 50"

text \<open>The two limits of \<^verbatim>\<open>getrlimit\<close>, which are 64 bits without a sign.\<close>

record rlimit =
  rl_cur :: "64 word"
  rl_max :: "64 word"

text \<open>
  \<^verbatim>\<open>TryRaiseFdLimit\<close>: \<^term>\<open>None\<close> is a failing \<^verbatim>\<open>getrlimit\<close>, \<open>settable\<close> whether \<^verbatim>\<open>setrlimit\<close> succeeds.  The
  result is what the function returns and the limits afterwards.
\<close>

definition TryRaiseFdLimit :: "int \<Rightarrow> (rlimit \<Rightarrow> bool) \<Rightarrow> rlimit option \<Rightarrow> bool \<times> rlimit option" where
  "TryRaiseFdLimit requested_threads settable limits =
     (if requested_threads \<le> 0 then (True, limits)
      else case limits of
        None \<Rightarrow> (False, None)
      | Some rl \<Rightarrow>
          let capped_threads = (if requested_threads > 100000 then 100000 else requested_threads);
              needed_i64 = capped_threads * FDS_PER_CONNECTION + FDS_RESERVED + 50;
              needed = (word_of_int (if needed_i64 < 4096 then 4096 else needed_i64) :: 64 word) in
          if rl_cur rl \<ge> needed then (True, limits)
          else let needed = (if needed > rl_max rl then rl_max rl else needed);
                   rl' = rl\<lparr>rl_cur := needed\<rparr> in
            if settable rl' then (True, Some rl') else (False, limits))"

record fd_limits =
  fd_soft_limit :: int
  fd_hard_limit :: int
  fd_max_safe_threads :: int
  fd_was_capped :: bool

text \<open>The limits are cast to a signed type.\<close>

definition GetFdLimits :: "int \<Rightarrow> rlimit option \<Rightarrow> fd_limits" where
  "GetFdLimits requested_threads limits =
     (let (soft, hard) = (case limits of None \<Rightarrow> (256, 256) | Some rl \<Rightarrow> (sint (rl_cur rl), sint (rl_max rl))) in
      if soft > 1000000 then
        \<lparr>fd_soft_limit = soft, fd_hard_limit = hard,
         fd_max_safe_threads = (if requested_threads > 0 then requested_threads else 1), fd_was_capped = False\<rparr>
      else let available_fds = (if soft - FDS_RESERVED < 0 then 0 else soft - FDS_RESERVED);
               safe = available_fds div FDS_PER_CONNECTION;
               safe = (if safe < 1 then 1 else safe)
           in \<lparr>fd_soft_limit = soft, fd_hard_limit = hard, fd_max_safe_threads = safe,
               fd_was_capped = requested_threads > safe\<rparr>)"

text \<open>What the commands do with it.\<close>

definition safe_thread_count :: "int \<Rightarrow> (rlimit \<Rightarrow> bool) \<Rightarrow> rlimit option \<Rightarrow> int" where
  "safe_thread_count n settable limits =
     (let limits = snd (TryRaiseFdLimit n settable limits); fd = GetFdLimits n limits
      in if fd_was_capped fd then fd_max_safe_threads fd else n)"

lemma GetFdLimits_safe:
  "GetFdLimits n limits = fd \<Longrightarrow> fd_was_capped fd \<Longrightarrow>
     1 \<le> fd_max_safe_threads fd \<and> fd_max_safe_threads fd < n \<and>
     (53 \<le> fd_soft_limit fd \<longrightarrow> fd_max_safe_threads fd * FDS_PER_CONNECTION + FDS_RESERVED \<le> fd_soft_limit fd)"
  by (auto simp: GetFdLimits_def Let_def FDS_PER_CONNECTION_def FDS_RESERVED_def split: if_splits prod.splits)

lemma safe_thread_count_bounds:
  assumes "1 \<le> n" "n \<le> 100000"
  shows "1 \<le> safe_thread_count n settable limits \<and> safe_thread_count n settable limits \<le> n"
  using GetFdLimits_safe [of n "snd (TryRaiseFdLimit n settable limits)"] assms
  by (auto simp: safe_thread_count_def Let_def)

text \<open>A limit without a bound, which Linux gives as all ones, leaves one thread.\<close>

lemma unlimited_is_one_thread:
  "1 < n \<Longrightarrow> safe_thread_count n settable (Some \<lparr>rl_cur = - 1, rl_max = - 1\<rparr>) = 1"
  by (simp add: safe_thread_count_def TryRaiseFdLimit_def GetFdLimits_def Let_def FDS_RESERVED_def
      FDS_PER_CONNECTION_def)

section \<open>The data directory\<close>

text \<open>\<open>env\<close> is \<^verbatim>\<open>getenv\<close>, \<open>passwd_home\<close> what \<^verbatim>\<open>getpwuid_r\<close> finds.\<close>

definition getHomeDirectory :: "(string \<Rightarrow> string option) \<Rightarrow> string option \<Rightarrow> string" where
  "getHomeDirectory env passwd_home =
     (case env ''HOME'' of Some home \<Rightarrow> home | None \<Rightarrow> (case passwd_home of Some d \<Rightarrow> d | None \<Rightarrow> []))"

definition app_data_path :: "(string \<Rightarrow> string option) \<Rightarrow> string option \<Rightarrow> string" where
  "app_data_path env passwd_home =
     (let data_dir =
        (case env ''XDG_DATA_HOME'' of
           Some xdg_data \<Rightarrow>
             if xdg_data \<noteq> [] then xdg_data @ ''/mitosync''
             else let home = getHomeDirectory env passwd_home in
               if home \<noteq> [] then home @ ''/.local/share/mitosync'' else []
         | None \<Rightarrow>
             let home = getHomeDirectory env passwd_home in
               if home \<noteq> [] then home @ ''/.local/share/mitosync'' else [])
      in if data_dir = [] then ''.'' else data_dir)"

text \<open>The directories that \<^verbatim>\<open>mkdirRecursive\<close> makes, in order; a failing \<^verbatim>\<open>mkdir\<close> is ignored.\<close>

fun parents_from :: "string \<Rightarrow> string \<Rightarrow> string list" where
  "parents_from seen [] = []"
| "parents_from seen (c # cs) =
     (if c = CHR ''/'' \<and> seen \<noteq> [] then seen # parents_from (seen @ [c]) cs else parents_from (seen @ [c]) cs)"

definition mkdirRecursive :: "string \<Rightarrow> string list" where
  "mkdirRecursive path = (if path = [] then [] else filter (\<lambda>p. p \<noteq> ''/'') (parents_from [] path) @ [path])"

lemma parents_from_iff:
  "p \<in> set (parents_from seen cs) \<longleftrightarrow>
     (\<exists>us vs. cs = us @ CHR ''/'' # vs \<and> p = seen @ us \<and> p \<noteq> [])"
proof (induction seen cs rule: parents_from.induct)
  case (2 seen c cs)
  have ind: "p \<in> set (parents_from (seen @ [c]) cs) \<longleftrightarrow> (\<exists>us vs. cs = us @ CHR ''/'' # vs \<and> p = seen @ c # us)"
    using 2 by (cases "c = CHR ''/'' \<and> seen \<noteq> []") auto
  have "(\<exists>us vs. c # cs = us @ CHR ''/'' # vs \<and> p = seen @ us \<and> p \<noteq> []) \<longleftrightarrow>
      c = CHR ''/'' \<and> p = seen \<and> seen \<noteq> [] \<or> (\<exists>us vs. cs = us @ CHR ''/'' # vs \<and> p = seen @ c # us)"
    by (auto simp: Cons_eq_append_conv)
  with ind show ?case by auto
qed simp

text \<open>Every directory above the path is made, and the path last.\<close>

lemma mkdirRecursive_parents:
  assumes "path \<noteq> []"
  shows "last (mkdirRecursive path) = path"
    and "path = up @ CHR ''/'' # rest \<Longrightarrow> up \<noteq> [] \<Longrightarrow> up \<noteq> ''/'' \<Longrightarrow> up \<in> set (mkdirRecursive path)"
  using assms parents_from_iff [of up "[]" path] by (auto simp: mkdirRecursive_def)

section \<open>Profiles\<close>

definition is_blank :: "char \<Rightarrow> bool" where
  "is_blank c \<longleftrightarrow> c = CHR '' '' \<or> c = CHR 0x09"

definition trim_left :: "string \<Rightarrow> string" where
  "trim_left s = dropWhile is_blank s"

definition trim_right :: "(char \<Rightarrow> bool) \<Rightarrow> string \<Rightarrow> string" where
  "trim_right P s = rev (dropWhile P (rev s))"

text \<open>
  The body of the loop on a line: nothing, or one name.  A line with something but blanks at its
  start is never blank to its end, so the second search always finds something unless the
  line is a carriage return.
\<close>

definition profile_of_line :: "string \<Rightarrow> string option" where
  "profile_of_line line =
     (let line = trim_left line in
      if line = [] then None
      else let trimmed = trim_right (\<lambda>c. is_blank c \<or> c = CHR 0x0D \<or> c = CHR 0x0A) line;
               line = (if trimmed \<noteq> [] then trimmed else line) in
        if length line \<ge> 3 \<and> hd line = CHR ''['' \<and> last line = CHR '']'' then
          let profile_name = trim_left (butlast (tl line)) in
          if profile_name = [] then None
          else Some (trim_right is_blank profile_name)
        else None)"

text \<open>\<^verbatim>\<open>getline\<close>: the lines of a text; a last line without its end counts when it is not empty.\<close>

definition getlines :: "string \<Rightarrow> string list" where
  "getlines s = (let ls = split_at (CHR 0x0A) s in if last ls = [] then butlast ls else ls)"

definition parse_aws_credential_profiles :: "string \<Rightarrow> string list" where
  "parse_aws_credential_profiles input = List.map_filter profile_of_line (getlines input)"

definition get_aws_credentials_path :: "(string \<Rightarrow> string option) \<Rightarrow> string" where
  "get_aws_credentials_path env =
     (case env ''AWS_SHARED_CREDENTIALS_FILE'' of
        Some p \<Rightarrow> if p \<noteq> [] then p
          else (case (case env ''HOME'' of None \<Rightarrow> env ''USERPROFILE'' | h \<Rightarrow> h) of
                  None \<Rightarrow> [] | Some home \<Rightarrow> home @ ''/.aws/credentials'')
      | None \<Rightarrow> (case (case env ''HOME'' of None \<Rightarrow> env ''USERPROFILE'' | h \<Rightarrow> h) of
                  None \<Rightarrow> [] | Some home \<Rightarrow> home @ ''/.aws/credentials''))"

definition load_aws_credential_profiles ::
  "(string \<Rightarrow> string option) \<Rightarrow> (string \<Rightarrow> string option) \<Rightarrow> string list" where
  "load_aws_credential_profiles env read =
     (let path = get_aws_credentials_path env in
      if path = [] then []
      else case read path of None \<Rightarrow> [] | Some text \<Rightarrow> parse_aws_credential_profiles text)"

text \<open>A name that stands by itself between the brackets.\<close>

definition plain_name :: "string \<Rightarrow> bool" where
  "plain_name n \<longleftrightarrow> n \<noteq> [] \<and> \<not> is_blank (hd n) \<and> \<not> is_blank (last n) \<and> CHR 0x0A \<notin> set n"

lemma dropWhile_hd: "xs \<noteq> [] \<Longrightarrow> \<not> P (hd xs) \<Longrightarrow> dropWhile P xs = xs"
  by (cases xs) auto

lemma trims_plain [simp]:
  "s \<noteq> [] \<Longrightarrow> \<not> is_blank (hd s) \<Longrightarrow> trim_left s = s"
  "s \<noteq> [] \<Longrightarrow> \<not> P (last s) \<Longrightarrow> trim_right P s = s"
  by (simp_all add: trim_left_def trim_right_def dropWhile_hd hd_rev)

lemma profile_of_header:
  assumes "plain_name n"
  shows "profile_of_line (CHR ''['' # n @ '']'') = Some n"
proof -
  have b: "\<not> is_blank CHR ''[''" "\<not> is_blank CHR '']''" by (simp_all add: is_blank_def)
  from assms show ?thesis
    by (simp add: profile_of_line_def plain_name_def b Let_def Suc_le_eq butlast_append)
qed

lemma getlines_unlines:
  "\<forall>l \<in> set ls. CHR 0x0A \<notin> set l \<Longrightarrow> getlines (concat (map (\<lambda>l. l @ [CHR 0x0A]) ls)) = ls"
proof -
  assume ls: "\<forall>l \<in> set ls. CHR 0x0A \<notin> set l"
  then have "split_at CHR 0x0A (concat (map (\<lambda>l. l @ [CHR 0x0A]) ls)) = ls @ [[]]"
    by (induction ls) simp_all
  then show ?thesis by (simp add: getlines_def)
qed

definition credentials_file :: "(string \<times> string list) list \<Rightarrow> string" where
  "credentials_file ps = concat (map (\<lambda>l. l @ [CHR 0x0A]) (concat (map (\<lambda>(n, ls). (''['' @ n @ '']'') # ls) ps)))"

text \<open>The profiles of a credentials file are the names of its sections, in order.\<close>

lemma credentials_roundtrip:
  assumes "\<forall>(n, ls) \<in> set ps. plain_name n \<and> (\<forall>l \<in> set ls. CHR 0x0A \<notin> set l \<and> profile_of_line l = None)"
  shows "parse_aws_credential_profiles (credentials_file ps) = map fst ps"
proof -
  let ?lines = "concat (map (\<lambda>(n, ls). (''['' @ n @ '']'') # ls) ps)"
  have "\<forall>l \<in> set ?lines. CHR 0x0A \<notin> set l" using assms by (fastforce simp: plain_name_def)
  then have "parse_aws_credential_profiles (credentials_file ps) = List.map_filter profile_of_line ?lines"
    by (simp add: parse_aws_credential_profiles_def credentials_file_def getlines_unlines)
  also have "\<dots> = map fst ps" using assms
  proof (induction ps)
    case (Cons p ps)
    obtain n ls where p: "p = (n, ls)" by fastforce
    have "List.map_filter profile_of_line (ls @ zs) = List.map_filter profile_of_line zs" for zs
      using Cons.prems p by (induction ls) (auto simp: List.map_filter_def)
    with Cons p show ?case by (simp add: profile_of_header List.map_filter_simps)
  qed (simp add: List.map_filter_def)
  finally show ?thesis .
qed

text \<open>The list of profiles that a dialog shows, with the choice for each of two sources.\<close>

datatype load_state = LoadIdle | Loading | Loaded | LoadError

record credentials_list =
  cl_state :: load_state
  cl_profiles :: "string list"
  cl_error_message :: string
  cl_selected :: "int \<times> int"

definition cl_selected_index :: "credentials_list \<Rightarrow> int \<Rightarrow> int" where
  "cl_selected_index s source_idx = (if source_idx = 0 then fst (cl_selected s) else snd (cl_selected s))"

definition cl_has_valid_selection :: "credentials_list \<Rightarrow> int \<Rightarrow> bool" where
  "cl_has_valid_selection s source_idx =
     (if source_idx < 0 \<or> source_idx > 1 then False
      else cl_selected_index s source_idx \<ge> 0 \<and> nat (cl_selected_index s source_idx) < length (cl_profiles s))"

definition get_selected_profile :: "credentials_list \<Rightarrow> int \<Rightarrow> string" where
  "get_selected_profile s source_idx =
     (if \<not> cl_has_valid_selection s source_idx then [] else cl_profiles s ! nat (cl_selected_index s source_idx))"

definition cl_reset :: "credentials_list \<Rightarrow> credentials_list" where
  "cl_reset s = \<lparr>cl_state = LoadIdle, cl_profiles = [], cl_error_message = [], cl_selected = (-1, -1)\<rparr>"

definition set_profiles :: "string list \<Rightarrow> credentials_list \<Rightarrow> credentials_list" where
  "set_profiles profile_list s = s\<lparr>cl_profiles := profile_list, cl_state := Loaded, cl_error_message := []\<rparr>"

definition cl_set_error :: "string \<Rightarrow> credentials_list \<Rightarrow> credentials_list" where
  "cl_set_error e s = s\<lparr>cl_error_message := e, cl_state := LoadError, cl_profiles := []\<rparr>"

fun find_index_from :: "nat \<Rightarrow> string list \<Rightarrow> string \<Rightarrow> int" where
  "find_index_from i [] name = -1"
| "find_index_from i (p # ps) name = (if p = name then int i else find_index_from (Suc i) ps name)"

definition find_profile_index :: "credentials_list \<Rightarrow> string \<Rightarrow> int" where
  "find_profile_index s name = find_index_from 0 (cl_profiles s) name"

lemma find_index_from_found:
  "name \<in> set ps \<Longrightarrow> \<exists>j < length ps. find_index_from i ps name = int (i + j) \<and> ps ! j = name"
proof (induction i ps name rule: find_index_from.induct)
  case (2 i p ps name)
  show ?case
  proof (cases "p = name")
    case False
    with 2 obtain j where "j < length ps" "find_index_from (Suc i) ps name = int (Suc i + j)" "ps ! j = name" by auto
    with False show ?thesis by (intro exI [of _ "Suc j"]) simp
  qed auto
qed simp

text \<open>Selecting a profile that is there by its name selects it.\<close>

lemma select_by_name:
  assumes "name \<in> set (cl_profiles s)"
  shows "get_selected_profile (s\<lparr>cl_selected := (find_profile_index s name, b)\<rparr>) 0 = name"
  using find_index_from_found [OF assms, of 0]
  by (auto simp: get_selected_profile_def cl_has_valid_selection_def cl_selected_index_def find_profile_index_def)

section \<open>Buckets\<close>

record bucket_info =
  bi_name :: string
  bi_region :: string

record bucket_list =
  bl_state :: load_state
  bl_buckets :: "bucket_info list"
  bl_error_message :: string
  bl_selected_index :: int
  bl_total_buckets :: int
  bl_checked_buckets :: int
  bl_skipped_buckets :: int
  bl_cancel_requested :: bool

definition bl_has_valid_selection :: "bucket_list \<Rightarrow> bool" where
  "bl_has_valid_selection s \<longleftrightarrow> bl_selected_index s \<ge> 0 \<and> nat (bl_selected_index s) < length (bl_buckets s)"

definition get_selected_bucket :: "bucket_list \<Rightarrow> string" where
  "get_selected_bucket s =
     (if bl_selected_index s < 0 \<or> nat (bl_selected_index s) \<ge> length (bl_buckets s) then []
      else bi_name (bl_buckets s ! nat (bl_selected_index s)))"

definition get_selected_region :: "bucket_list \<Rightarrow> string" where
  "get_selected_region s =
     (if bl_selected_index s < 0 \<or> nat (bl_selected_index s) \<ge> length (bl_buckets s) then []
      else bi_region (bl_buckets s ! nat (bl_selected_index s)))"

definition bl_reset :: "bucket_list \<Rightarrow> bucket_list" where
  "bl_reset s = s\<lparr>bl_state := LoadIdle, bl_buckets := [], bl_error_message := [], bl_selected_index := -1,
     bl_total_buckets := 0, bl_checked_buckets := 0, bl_skipped_buckets := 0\<rparr>"

definition bl_reset_all :: "bucket_list \<Rightarrow> bucket_list" where
  "bl_reset_all s = bl_reset (s\<lparr>bl_cancel_requested := False\<rparr>)"

definition bl_cancel :: "bucket_list \<Rightarrow> bucket_list" where
  "bl_cancel s = s\<lparr>bl_cancel_requested := True\<rparr>"

text \<open>\<^verbatim>\<open>insert\<close> before the first element that is not smaller (\<^verbatim>\<open>lower_bound\<close> on a sorted list).\<close>

definition insert_bucket :: "bucket_info \<Rightarrow> bucket_info list \<Rightarrow> bucket_info list" where
  "insert_bucket info bs =
     (let smaller = takeWhile (\<lambda>b. bi_name b < bi_name info) bs
      in smaller @ info # drop (length smaller) bs)"

definition add_bucket :: "string \<Rightarrow> string \<Rightarrow> bucket_list \<Rightarrow> bucket_list" where
  "add_bucket name region s =
     s\<lparr>bl_buckets := insert_bucket \<lparr>bi_name = name, bi_region = region\<rparr> (bl_buckets s)\<rparr>"

definition set_buckets :: "bucket_info list \<Rightarrow> bucket_list \<Rightarrow> bucket_list" where
  "set_buckets bs s = s\<lparr>bl_buckets := bs, bl_state := Loaded, bl_error_message := []\<rparr>"

definition bl_set_error :: "string \<Rightarrow> bucket_list \<Rightarrow> bucket_list" where
  "bl_set_error e s = s\<lparr>bl_error_message := e, bl_state := LoadError, bl_buckets := []\<rparr>"

lemma insert_bucket_Cons:
  "insert_bucket info (b # bs) =
     (if bi_name b < bi_name info then b # insert_bucket info bs else info # b # bs)"
  by (simp add: insert_bucket_def Let_def)

lemma mset_insert_bucket: "mset (insert_bucket info bs) = add_mset info (mset bs)"
  by (induction bs) (simp_all add: insert_bucket_Cons, simp add: insert_bucket_def)

lemma insert_bucket_sorted:
  "sorted (map bi_name bs) \<Longrightarrow> sorted (map bi_name (insert_bucket info bs))"
proof (induction bs)
  case (Cons b bs)
  have "set (insert_bucket info bs) = insert info (set bs)"
    using mset_insert_bucket [of info bs] by (metis set_mset_add_mset_insert set_mset_mset)
  with Cons show ?case by (auto simp: insert_bucket_Cons)
qed (simp add: insert_bucket_def)

text \<open>In whatever order the buckets arrive, the list is the sorted list of all of them.\<close>

lemma add_buckets_sorted:
  assumes "bl_buckets s = []"
  shows "sorted (map bi_name (bl_buckets (fold (\<lambda>(n, r). add_bucket n r) nrs s))) \<and>
    mset (bl_buckets (fold (\<lambda>(n, r). add_bucket n r) nrs s)) = mset (map (\<lambda>(n, r). \<lparr>bi_name = n, bi_region = r\<rparr>) nrs)"
proof -
  have "sorted (map bi_name (bl_buckets s)) \<Longrightarrow>
      sorted (map bi_name (bl_buckets (fold (\<lambda>(n, r). add_bucket n r) nrs s))) \<and>
      mset (bl_buckets (fold (\<lambda>(n, r). add_bucket n r) nrs s)) =
        mset (bl_buckets s) + mset (map (\<lambda>(n, r). \<lparr>bi_name = n, bi_region = r\<rparr>) nrs)" for s
  proof (induction nrs arbitrary: s)
    case (Cons nr nrs)
    obtain n r where nr: "nr = (n, r)" by fastforce
    have "sorted (map bi_name (bl_buckets (add_bucket n r s)))"
      using Cons.prems by (simp add: add_bucket_def insert_bucket_sorted)
    from Cons.IH [OF this] show ?case by (simp add: nr) (simp add: add_bucket_def mset_insert_bucket)
  qed simp
  from this [of s] assms show ?thesis by simp
qed

text \<open>The selection is a position, so a bucket that sorts before the selected one moves it.\<close>

lemma selection_moves:
  "get_selected_bucket (add_bucket ''a'' r
     \<lparr>bl_state = Loading, bl_buckets = [\<lparr>bi_name = ''b'', bi_region = r\<rparr>], bl_error_message = [], bl_selected_index = 0,
      bl_total_buckets = 2, bl_checked_buckets = 1, bl_skipped_buckets = 0, bl_cancel_requested = False\<rparr>) = ''a''"
  by (simp add: get_selected_bucket_def add_bucket_def insert_bucket_def)

end
