(* ===== verification/Cloud_Metrics.thy ===== *)
theory Cloud_Metrics
  imports Core_Types
begin

text \<open>
  cloud_metrics.cpp but for its file: the kinds of S3 operations and their names, the counters of one
  kind, and \<^verbatim>\<open>CloudMetrics\<close>, the counters of all kinds with a history of samples and the regions seen.
  The counters are 64-bit atomics and wrap; latencies are signed.  A compare-and-exchange loop is
  one step.  Times are nanoseconds of the steady clock.
\<close>

type_synonym u64 = "64 word"

section \<open>Kinds of operations\<close>

datatype s3_operation =
    OpHeadObject | OpGetObject | OpPutObject | OpDeleteObject | OpDeleteObjects | OpListObjectsV2 | OpListBuckets
  | OpGetBucketLocation | OpCreateMultipartUpload | OpUploadPart | OpUploadPartCopy | OpUploadPartCopyRemote
  | OpCopyObject | OpCopyObjectRemote | OpAbortMultipartUpload | OpCompleteMultipartUpload | OpListParts
  | OpListMultipartUploads | OpUnknown | OpCOUNT

text \<open>The loop \<^verbatim>\<open>for i < COUNT\<close>.\<close>

definition all_operations :: "s3_operation list" where
  "all_operations =
     [OpHeadObject, OpGetObject, OpPutObject, OpDeleteObject, OpDeleteObjects, OpListObjectsV2, OpListBuckets,
      OpGetBucketLocation, OpCreateMultipartUpload, OpUploadPart, OpUploadPartCopy, OpUploadPartCopyRemote,
      OpCopyObject, OpCopyObjectRemote, OpAbortMultipartUpload, OpCompleteMultipartUpload, OpListParts,
      OpListMultipartUploads, OpUnknown]"

fun S3OperationTypeName :: "s3_operation \<Rightarrow> string" where
  "S3OperationTypeName OpHeadObject = ''HeadObject''"
| "S3OperationTypeName OpGetObject = ''GetObject''"
| "S3OperationTypeName OpPutObject = ''PutObject''"
| "S3OperationTypeName OpDeleteObject = ''DeleteObject''"
| "S3OperationTypeName OpDeleteObjects = ''DeleteObjects''"
| "S3OperationTypeName OpListObjectsV2 = ''ListObjectsV2''"
| "S3OperationTypeName OpListBuckets = ''ListBuckets''"
| "S3OperationTypeName OpGetBucketLocation = ''GetBucketLocation''"
| "S3OperationTypeName OpCreateMultipartUpload = ''CreateMultipartUpload''"
| "S3OperationTypeName OpUploadPart = ''UploadPart''"
| "S3OperationTypeName OpUploadPartCopy = ''UploadPartCopy''"
| "S3OperationTypeName OpUploadPartCopyRemote = ''UploadPartCopy (remote)''"
| "S3OperationTypeName OpCopyObject = ''CopyObject''"
| "S3OperationTypeName OpCopyObjectRemote = ''CopyObject (remote)''"
| "S3OperationTypeName OpAbortMultipartUpload = ''AbortMultipartUpload''"
| "S3OperationTypeName OpCompleteMultipartUpload = ''CompleteMultipartUpload''"
| "S3OperationTypeName OpListParts = ''ListParts''"
| "S3OperationTypeName OpListMultipartUploads = ''ListMultipartUploads''"
| "S3OperationTypeName OpUnknown = ''Unknown''"
| "S3OperationTypeName OpCOUNT = ''Unknown''"

definition ParseS3OperationType :: "string \<Rightarrow> s3_operation" where
  "ParseS3OperationType requestName =
     (if requestName = ''HeadObject'' \<or> requestName = ''HeadObjectRequest'' then OpHeadObject
      else if requestName = ''GetObject'' \<or> requestName = ''GetObjectRequest'' then OpGetObject
      else if requestName = ''PutObject'' \<or> requestName = ''PutObjectRequest'' then OpPutObject
      else if requestName = ''DeleteObject'' \<or> requestName = ''DeleteObjectRequest'' then OpDeleteObject
      else if requestName = ''DeleteObjects'' \<or> requestName = ''DeleteObjectsRequest'' then OpDeleteObjects
      else if requestName = ''ListObjectsV2'' \<or> requestName = ''ListObjectsV2Request'' \<or>
              requestName = ''ListObjects'' \<or> requestName = ''ListObjectsRequest'' then OpListObjectsV2
      else if requestName = ''ListBuckets'' \<or> requestName = ''ListBucketsRequest'' then OpListBuckets
      else if requestName = ''GetBucketLocation'' \<or> requestName = ''GetBucketLocationRequest''
        then OpGetBucketLocation
      else if requestName = ''CreateMultipartUpload'' \<or> requestName = ''CreateMultipartUploadRequest''
        then OpCreateMultipartUpload
      else if requestName = ''UploadPart'' \<or> requestName = ''UploadPartRequest'' then OpUploadPart
      else if requestName = ''UploadPartCopy'' \<or> requestName = ''UploadPartCopyRequest'' then OpUploadPartCopy
      else if requestName = ''UploadPartCopy (remote)'' \<or> requestName = ''UploadPartCopyRemote''
        then OpUploadPartCopyRemote
      else if requestName = ''CopyObject'' \<or> requestName = ''CopyObjectRequest'' then OpCopyObject
      else if requestName = ''CopyObject (remote)'' \<or> requestName = ''CopyObjectRemote'' then OpCopyObjectRemote
      else if requestName = ''AbortMultipartUpload'' \<or> requestName = ''AbortMultipartUploadRequest''
        then OpAbortMultipartUpload
      else if requestName = ''CompleteMultipartUpload'' \<or> requestName = ''CompleteMultipartUploadRequest''
        then OpCompleteMultipartUpload
      else if requestName = ''ListParts'' \<or> requestName = ''ListPartsRequest'' then OpListParts
      else if requestName = ''ListMultipartUploads'' \<or> requestName = ''ListMultipartUploadsRequest''
        then OpListMultipartUploads
      else OpUnknown)"

lemma parse_operation_name [simp]:
  "op1 \<noteq> OpCOUNT \<Longrightarrow> ParseS3OperationType (S3OperationTypeName op1) = op1"
  by (cases op1) (simp_all add: ParseS3OperationType_def)

lemma operation_name_inject:
  "op1 \<noteq> OpCOUNT \<Longrightarrow> op2 \<noteq> OpCOUNT \<Longrightarrow> S3OperationTypeName op1 = S3OperationTypeName op2 \<longleftrightarrow> op1 = op2"
  using parse_operation_name by metis

lemma set_all_operations: "set all_operations = - {OpCOUNT}"
proof -
  have "op1 \<in> set all_operations \<longleftrightarrow> op1 \<noteq> OpCOUNT" for op1
    by (cases op1) (simp_all add: all_operations_def)
  then show ?thesis by auto
qed

lemma distinct_all_operations: "distinct all_operations"
  by (simp add: all_operations_def)

section \<open>The counters of one kind\<close>

record op_metrics =
  om_call_count :: u64
  om_success_count :: u64
  om_failure_count :: u64
  om_retry_count :: u64
  om_bytes_uploaded :: u64
  om_bytes_downloaded :: u64
  om_bytes_server_side :: u64
  om_total_latency_ms :: u64
  om_min_latency_ms :: u64
  om_max_latency_ms :: u64

definition INT64_MAX :: u64 where "INT64_MAX = 0x7FFFFFFFFFFFFFFF"

definition zero_metrics :: op_metrics where
  "zero_metrics = \<lparr>om_call_count = 0, om_success_count = 0, om_failure_count = 0, om_retry_count = 0,
     om_bytes_uploaded = 0, om_bytes_downloaded = 0, om_bytes_server_side = 0, om_total_latency_ms = 0,
     om_min_latency_ms = INT64_MAX, om_max_latency_ms = 0\<rparr>"

record metrics_sample =
  sa_total_calls :: u64
  sa_total_bytes :: u64
  sa_delta_calls :: u64
  sa_delta_bytes :: u64

record cloud_metrics =
  cm_metrics :: "s3_operation \<Rightarrow> op_metrics"
  cm_history :: "metrics_sample list"
  cm_last_sample_time :: int
  cm_prev_total_calls :: u64
  cm_prev_total_bytes :: u64
  cm_regions :: "string list"
  cm_last_saved_calls :: u64

definition fresh_metrics :: cloud_metrics where
  "fresh_metrics = \<lparr>cm_metrics = (\<lambda>_. zero_metrics), cm_history = [], cm_last_sample_time = 0,
     cm_prev_total_calls = 0, cm_prev_total_bytes = 0, cm_regions = [], cm_last_saved_calls = 0\<rparr>"

definition on_op :: "s3_operation \<Rightarrow> (op_metrics \<Rightarrow> op_metrics) \<Rightarrow> cloud_metrics \<Rightarrow> cloud_metrics" where
  "on_op op1 f m =
     (if op1 = OpCOUNT then m else m\<lparr>cm_metrics := (cm_metrics m)(op1 := f (cm_metrics m op1))\<rparr>)"

section \<open>Recording\<close>

definition updateMinLatency :: "u64 \<Rightarrow> op_metrics \<Rightarrow> op_metrics" where
  "updateMinLatency latency_ms c =
     (if sint latency_ms < sint (om_min_latency_ms c) then c\<lparr>om_min_latency_ms := latency_ms\<rparr> else c)"

definition updateMaxLatency :: "u64 \<Rightarrow> op_metrics \<Rightarrow> op_metrics" where
  "updateMaxLatency latency_ms c =
     (if sint latency_ms > sint (om_max_latency_ms c) then c\<lparr>om_max_latency_ms := latency_ms\<rparr> else c)"

definition recordStart :: "s3_operation \<Rightarrow> cloud_metrics \<Rightarrow> cloud_metrics" where
  "recordStart op1 = on_op op1 (\<lambda>c. c\<lparr>om_call_count := om_call_count c + 1\<rparr>)"

definition recordSuccess ::
  "s3_operation \<Rightarrow> u64 \<Rightarrow> u64 \<Rightarrow> u64 \<Rightarrow> u64 \<Rightarrow> cloud_metrics \<Rightarrow> cloud_metrics" where
  "recordSuccess op1 latency_ms bytes_up bytes_down bytes_server_side = on_op op1 (\<lambda>c.
     updateMaxLatency latency_ms (updateMinLatency latency_ms
       (c\<lparr>om_success_count := om_success_count c + 1,
          om_total_latency_ms := om_total_latency_ms c + latency_ms,
          om_bytes_uploaded := om_bytes_uploaded c + bytes_up,
          om_bytes_downloaded := om_bytes_downloaded c + bytes_down,
          om_bytes_server_side := om_bytes_server_side c + bytes_server_side\<rparr>)))"

definition recordFailure :: "s3_operation \<Rightarrow> u64 \<Rightarrow> cloud_metrics \<Rightarrow> cloud_metrics" where
  "recordFailure op1 latency_ms = on_op op1 (\<lambda>c.
     updateMaxLatency latency_ms (updateMinLatency latency_ms
       (c\<lparr>om_failure_count := om_failure_count c + 1,
          om_total_latency_ms := om_total_latency_ms c + latency_ms\<rparr>)))"

definition recordRetry :: "s3_operation \<Rightarrow> cloud_metrics \<Rightarrow> cloud_metrics" where
  "recordRetry op1 = on_op op1 (\<lambda>c. c\<lparr>om_retry_count := om_retry_count c + 1\<rparr>)"

definition addServerSideBytes :: "s3_operation \<Rightarrow> u64 \<Rightarrow> cloud_metrics \<Rightarrow> cloud_metrics" where
  "addServerSideBytes op1 bytes m =
     (if bytes = 0 then m
      else on_op op1 (\<lambda>c. c\<lparr>om_bytes_server_side := om_bytes_server_side c + bytes\<rparr>) m)"

section \<open>Reading\<close>

definition getMetrics :: "s3_operation \<Rightarrow> cloud_metrics \<Rightarrow> op_metrics" where
  "getMetrics op1 m = (if op1 = OpCOUNT then zero_metrics else cm_metrics m op1)"

definition getAllMetrics :: "cloud_metrics \<Rightarrow> (s3_operation \<times> op_metrics) list" where
  "getAllMetrics m =
     map (\<lambda>op1. (op1, cm_metrics m op1)) (filter (\<lambda>op1. om_call_count (cm_metrics m op1) > 0) all_operations)"

definition add_metrics :: "op_metrics \<Rightarrow> op_metrics \<Rightarrow> op_metrics" where
  "add_metrics acc c =
     \<lparr>om_call_count = om_call_count acc + om_call_count c,
      om_success_count = om_success_count acc + om_success_count c,
      om_failure_count = om_failure_count acc + om_failure_count c,
      om_retry_count = om_retry_count acc + om_retry_count c,
      om_bytes_uploaded = om_bytes_uploaded acc + om_bytes_uploaded c,
      om_bytes_downloaded = om_bytes_downloaded acc + om_bytes_downloaded c,
      om_bytes_server_side = om_bytes_server_side acc + om_bytes_server_side c,
      om_total_latency_ms = om_total_latency_ms acc + om_total_latency_ms c,
      om_min_latency_ms =
        (if om_min_latency_ms c \<noteq> INT64_MAX \<and> sint (om_min_latency_ms c) < sint (om_min_latency_ms acc)
         then om_min_latency_ms c else om_min_latency_ms acc),
      om_max_latency_ms =
        (if sint (om_max_latency_ms c) > 0 \<and> sint (om_max_latency_ms c) > sint (om_max_latency_ms acc)
         then om_max_latency_ms c else om_max_latency_ms acc)\<rparr>"

definition getTotalMetrics :: "cloud_metrics \<Rightarrow> op_metrics" where
  "getTotalMetrics m = foldl (\<lambda>acc op1. add_metrics acc (cm_metrics m op1)) zero_metrics all_operations"

definition getCrossBucketServerSideBytes :: "cloud_metrics \<Rightarrow> u64" where
  "getCrossBucketServerSideBytes m =
     0 + om_bytes_server_side (cm_metrics m OpUploadPartCopyRemote)
       + om_bytes_server_side (cm_metrics m OpCopyObjectRemote)"

section \<open>Clearing, regions, samples\<close>

definition clear_metrics :: "cloud_metrics \<Rightarrow> cloud_metrics" where
  "clear_metrics m = m\<lparr>cm_metrics := (\<lambda>op1. if op1 = OpCOUNT then cm_metrics m op1 else zero_metrics),
     cm_history := [], cm_prev_total_calls := 0, cm_prev_total_bytes := 0, cm_regions := [],
     cm_last_saved_calls := 0\<rparr>"

definition setRegion :: "string \<Rightarrow> cloud_metrics \<Rightarrow> cloud_metrics" where
  "setRegion region m = m\<lparr>cm_regions := (if region \<noteq> [] then [region] else [])\<rparr>"

definition addRegion :: "string \<Rightarrow> cloud_metrics \<Rightarrow> cloud_metrics" where
  "addRegion region m =
     (if region = [] then m
      else if List.member (cm_regions m) region then m
      else m\<lparr>cm_regions := cm_regions m @ [region]\<rparr>)"

definition getRegion :: "cloud_metrics \<Rightarrow> string" where
  "getRegion m = (case cm_regions m of [] \<Rightarrow> [] | r # _ \<Rightarrow> r)"

definition isCrossRegion :: "cloud_metrics \<Rightarrow> bool" where
  "isCrossRegion m =
     (if length (cm_regions m) < 2 then False
      else list_ex (\<lambda>r. r \<noteq> hd (cm_regions m)) (tl (cm_regions m)))"

definition HISTORY_SIZE :: nat where "HISTORY_SIZE = 120"

definition AUTO_SAVE_THRESHOLD :: u64 where "AUTO_SAVE_THRESHOLD = 100"

text \<open>The common part of \<^verbatim>\<open>sample\<close> and \<^verbatim>\<open>forceSample\<close>; whether to save is the second result.\<close>

definition take_sample :: "cloud_metrics \<Rightarrow> cloud_metrics \<times> bool" where
  "take_sample m =
     (let total = getTotalMetrics m;
          total_calls = om_call_count total;
          total_bytes = om_bytes_uploaded total + om_bytes_downloaded total;
          s = \<lparr>sa_total_calls = total_calls, sa_total_bytes = total_bytes,
               sa_delta_calls = total_calls - cm_prev_total_calls m,
               sa_delta_bytes = total_bytes - cm_prev_total_bytes m\<rparr>;
          pushed = cm_history m @ [s];
          m = m\<lparr>cm_prev_total_calls := total_calls, cm_prev_total_bytes := total_bytes,
                cm_history := (if length pushed > HISTORY_SIZE then tl pushed else pushed)\<rparr>
      in if total_calls \<ge> cm_last_saved_calls m + AUTO_SAVE_THRESHOLD
         then (m\<lparr>cm_last_saved_calls := total_calls\<rparr>, True) else (m, False))"

definition sample_metrics :: "int \<Rightarrow> cloud_metrics \<Rightarrow> cloud_metrics \<times> bool" where
  "sample_metrics now m =
     (if now - cm_last_sample_time m < 500 * 1000000 \<and> cm_history m \<noteq> [] then (m, False)
      else take_sample (m\<lparr>cm_last_sample_time := now\<rparr>))"

definition currentSample :: "cloud_metrics \<Rightarrow> metrics_sample" where
  "currentSample m =
     (if cm_history m = []
      then \<lparr>sa_total_calls = 0, sa_total_bytes = 0, sa_delta_calls = 0, sa_delta_bytes = 0\<rparr>
      else last (cm_history m))"

section \<open>Events\<close>

text \<open>What the monitoring of a request reports, and what the client adds itself.\<close>

datatype metrics_event =
    Started s3_operation | Succeeded s3_operation u64 u64 u64 u64 | Failed s3_operation u64
  | Retried s3_operation | ServerSide s3_operation u64

fun apply_event :: "metrics_event \<Rightarrow> cloud_metrics \<Rightarrow> cloud_metrics" where
  "apply_event (Started op1) = recordStart op1"
| "apply_event (Succeeded op1 l u d s) = recordSuccess op1 l u d s"
| "apply_event (Failed op1 l) = recordFailure op1 l"
| "apply_event (Retried op1) = recordRetry op1"
| "apply_event (ServerSide op1 n) = addServerSideBytes op1 n"

text \<open>What an event adds to the persistent counters of a kind.\<close>

record tallies =
  tl_calls :: u64
  tl_success :: u64
  tl_failures :: u64
  tl_retries :: u64
  tl_up :: u64
  tl_down :: u64
  tl_server :: u64

definition zero_tallies :: tallies where
  "zero_tallies = \<lparr>tl_calls = 0, tl_success = 0, tl_failures = 0, tl_retries = 0, tl_up = 0, tl_down = 0, tl_server = 0\<rparr>"

definition add_tallies :: "tallies \<Rightarrow> tallies \<Rightarrow> tallies" where
  "add_tallies a b = \<lparr>tl_calls = tl_calls a + tl_calls b, tl_success = tl_success a + tl_success b,
     tl_failures = tl_failures a + tl_failures b, tl_retries = tl_retries a + tl_retries b,
     tl_up = tl_up a + tl_up b, tl_down = tl_down a + tl_down b, tl_server = tl_server a + tl_server b\<rparr>"

fun event_tally :: "s3_operation \<Rightarrow> metrics_event \<Rightarrow> tallies" where
  "event_tally op1 (Started op2) = (if op1 = op2 then zero_tallies\<lparr>tl_calls := 1\<rparr> else zero_tallies)"
| "event_tally op1 (Succeeded op2 l u d s) =
     (if op1 = op2 then zero_tallies\<lparr>tl_success := 1, tl_up := u, tl_down := d, tl_server := s\<rparr> else zero_tallies)"
| "event_tally op1 (Failed op2 l) = (if op1 = op2 then zero_tallies\<lparr>tl_failures := 1\<rparr> else zero_tallies)"
| "event_tally op1 (Retried op2) = (if op1 = op2 then zero_tallies\<lparr>tl_retries := 1\<rparr> else zero_tallies)"
| "event_tally op1 (ServerSide op2 n) = (if op1 = op2 then zero_tallies\<lparr>tl_server := n\<rparr> else zero_tallies)"

definition events_tally :: "s3_operation \<Rightarrow> metrics_event list \<Rightarrow> tallies" where
  "events_tally op1 es = foldl add_tallies zero_tallies (map (event_tally op1) es)"

definition op_tally :: "op_metrics \<Rightarrow> tallies" where
  "op_tally c = \<lparr>tl_calls = om_call_count c, tl_success = om_success_count c, tl_failures = om_failure_count c,
     tl_retries = om_retry_count c, tl_up = om_bytes_uploaded c, tl_down = om_bytes_downloaded c,
     tl_server = om_bytes_server_side c\<rparr>"

lemma add_tallies_assoc: "add_tallies (add_tallies a b) c = add_tallies a (add_tallies b c)"
  by (simp add: add_tallies_def add.assoc)

lemma add_tallies_zero [simp]: "add_tallies a zero_tallies = a" "add_tallies zero_tallies a = a"
  by (simp_all add: add_tallies_def zero_tallies_def)

lemma op_tally_latencies [simp]:
  "op_tally (updateMinLatency l c) = op_tally c" "op_tally (updateMaxLatency l c) = op_tally c"
  by (simp_all add: op_tally_def updateMinLatency_def updateMaxLatency_def)

lemma event_counts:
  assumes "op1 \<noteq> OpCOUNT"
  shows "op_tally (cm_metrics (apply_event e m) op1) = add_tallies (op_tally (cm_metrics m op1)) (event_tally op1 e)"
proof (cases e)
  case (Succeeded op2 l u d s)
  then show ?thesis using assms by (simp add: recordSuccess_def on_op_def) (simp add: op_tally_def add_tallies_def zero_tallies_def)
next
  case (Failed op2 l)
  then show ?thesis using assms by (simp add: recordFailure_def on_op_def) (simp add: op_tally_def add_tallies_def zero_tallies_def)
qed (use assms in \<open>simp_all add: recordStart_def recordRetry_def addServerSideBytes_def on_op_def op_tally_def
       add_tallies_def zero_tallies_def\<close>)

lemma foldl_add_tallies: "foldl add_tallies (add_tallies a b) ts = add_tallies a (foldl add_tallies b ts)"
  by (induction ts arbitrary: b) (simp_all add: add_tallies_assoc)

lemma foldl_add_tallies_zero: "foldl add_tallies a ts = add_tallies a (foldl add_tallies zero_tallies ts)"
  using foldl_add_tallies [of a zero_tallies ts] by simp

lemma events_count:
  assumes "op1 \<noteq> OpCOUNT"
  shows "op_tally (cm_metrics (fold apply_event es m) op1) =
    add_tallies (op_tally (cm_metrics m op1)) (events_tally op1 es)"
proof (induction es arbitrary: m)
  case (Cons e es)
  show ?case
    using Cons [of "apply_event e m"] event_counts [OF assms, of e m]
      foldl_add_tallies_zero [of "event_tally op1 e" "map (event_tally op1) es"]
    by (simp add: events_tally_def add_tallies_assoc)
qed (simp add: events_tally_def)

lemma event_keeps [simp]:
  "cm_regions (apply_event e m) = cm_regions m" "cm_history (apply_event e m) = cm_history m"
  by (cases e; simp add: recordStart_def recordSuccess_def recordFailure_def recordRetry_def addServerSideBytes_def
      on_op_def)+

lemma events_keep [simp]:
  "cm_regions (fold apply_event es m) = cm_regions m" "cm_history (fold apply_event es m) = cm_history m"
  by (induction es arbitrary: m) simp_all

section \<open>The history\<close>

text \<open>At most 120 samples, each the one before plus its difference.\<close>

fun chained :: "metrics_sample list \<Rightarrow> bool" where
  "chained (a # b # ss) \<longleftrightarrow>
     sa_total_calls b = sa_total_calls a + sa_delta_calls b \<and>
     sa_total_bytes b = sa_total_bytes a + sa_delta_bytes b \<and> chained (b # ss)"
| "chained ss \<longleftrightarrow> True"

lemma chained_tl: "chained ss \<Longrightarrow> chained (tl ss)"
  by (cases ss rule: chained.cases) auto

lemma chained_snoc:
  "chained (ss @ [s]) \<longleftrightarrow>
     chained ss \<and> (ss \<noteq> [] \<longrightarrow> sa_total_calls s = sa_total_calls (last ss) + sa_delta_calls s \<and>
       sa_total_bytes s = sa_total_bytes (last ss) + sa_delta_bytes s)"
  by (induction ss rule: chained.induct) auto

definition history_ok :: "cloud_metrics \<Rightarrow> bool" where
  "history_ok m \<longleftrightarrow>
     length (cm_history m) \<le> HISTORY_SIZE \<and> chained (cm_history m) \<and>
     (cm_history m \<noteq> [] \<longrightarrow> sa_total_calls (last (cm_history m)) = cm_prev_total_calls m \<and>
        sa_total_bytes (last (cm_history m)) = cm_prev_total_bytes m)"

lemma take_sample_ok: "history_ok m \<Longrightarrow> history_ok (fst (take_sample m))"
  unfolding history_ok_def take_sample_def Let_def
  by (auto simp: chained_snoc HISTORY_SIZE_def last_tl intro!: chained_tl)

lemma sample_metrics_ok: "history_ok m \<Longrightarrow> history_ok (fst (sample_metrics now m))"
  unfolding sample_metrics_def using take_sample_ok [of "m\<lparr>cm_last_sample_time := now\<rparr>"]
  by (simp add: history_ok_def)

lemma history_ok_keeps [simp]:
  "history_ok (apply_event e m) = history_ok m" "history_ok (clear_metrics m)" "history_ok fresh_metrics"
  "history_ok (addRegion r m) = history_ok m" "history_ok (setRegion r m) = history_ok m"
  by (cases e; simp add: history_ok_def recordStart_def recordSuccess_def recordFailure_def recordRetry_def
      addServerSideBytes_def on_op_def)
     (simp_all add: history_ok_def clear_metrics_def fresh_metrics_def addRegion_def setRegion_def)

text \<open>Samples are saved at most once every hundred calls.\<close>

lemma take_sample_saves:
  "take_sample m = (m', True) \<Longrightarrow>
     om_call_count (getTotalMetrics m) \<ge> cm_last_saved_calls m + AUTO_SAVE_THRESHOLD \<and>
     cm_last_saved_calls m' = om_call_count (getTotalMetrics m)"
  by (auto simp: take_sample_def Let_def split: if_splits)

end
