(* ===== verification/Metrics_File.thy ===== *)
theory Metrics_File
  imports Cloud_Metrics Local_FS
begin

text \<open>
  \<^verbatim>\<open>CloudMetrics::save\<close> and \<^verbatim>\<open>load\<close> of cloud_metrics.cpp: the counters live in a file between runs.  A JSON
  value is a \<open>json\<close>, its numbers integers (the program writes no others); the text of a value is the
  library's, so \<open>dump\<close> and \<open>parse\<close> are parameters, and \<^term>\<open>None\<close> is an exception.  The files and what
  can go wrong with them are those of theory \<^verbatim>\<open>Local_FS\<close>, with times in seconds; neither the metrics file
  nor a temporary one is a symbolic link.
\<close>

section \<open>Documents\<close>

datatype json = JNull | JBool bool | JNum int | JStr string | JArr "json list" | JObj "(string \<times> json) list"

text \<open>An object is a map that is kept sorted by key; \<^verbatim>\<open>j[key] = value\<close>.\<close>

fun jset :: "string \<Rightarrow> json \<Rightarrow> (string \<times> json) list \<Rightarrow> (string \<times> json) list" where
  "jset k v [] = [(k, v)]"
| "jset k v ((k', v') # kvs) =
     (if k = k' then (k, v) # kvs else if k < k' then (k, v) # (k', v') # kvs else (k', v') # jset k v kvs)"

lemma map_of_jset [simp]: "map_of (jset k v kvs) = (map_of kvs)(k \<mapsto> v)"
  by (induction k v kvs rule: jset.induct) auto

lemma keys_jset: "fst ` set (jset k v kvs) = insert k (fst ` set kvs)"
  by (induction k v kvs rule: jset.induct) auto

definition sorted_keys :: "(string \<times> json) list \<Rightarrow> bool" where
  "sorted_keys kvs \<longleftrightarrow> sorted_wrt (<) (map fst kvs)"

lemma sorted_keys_jset: "sorted_keys kvs \<Longrightarrow> sorted_keys (jset k v kvs)"
proof (induction k v kvs rule: jset.induct)
  case (2 k v k' v' kvs)
  have "\<forall>x \<in> fst ` set kvs. k' < x" using 2(2) by (auto simp: sorted_keys_def)
  with 2 keys_jset [of k v kvs] show ?case by (auto simp: sorted_keys_def)
qed (simp add: sorted_keys_def)

lemma sorted_keys_distinct: "sorted_keys kvs \<Longrightarrow> distinct (map fst kvs)"
  by (simp add: sorted_keys_def strict_sorted_iff)

definition jobj :: "(string \<times> json) list \<Rightarrow> (string \<times> json) list" where
  "jobj kvs = foldl (\<lambda>o1 (k, v). jset k v o1) [] kvs"

definition j_u64 :: "u64 \<Rightarrow> json" where "j_u64 w = JNum (uint w)"

definition op_doc :: "op_metrics \<Rightarrow> json" where
  "op_doc c = JObj (jobj [(''calls'', j_u64 (om_call_count c)), (''success'', j_u64 (om_success_count c)),
     (''failures'', j_u64 (om_failure_count c)), (''retries'', j_u64 (om_retry_count c)),
     (''bytes_up'', j_u64 (om_bytes_uploaded c)), (''bytes_down'', j_u64 (om_bytes_downloaded c)),
     (''bytes_server'', j_u64 (om_bytes_server_side c))])"

definition metrics_doc :: "cloud_metrics \<Rightarrow> (string \<times> json) list" where
  "metrics_doc m = foldl (\<lambda>o1 op1.
     if om_call_count (cm_metrics m op1) = 0 then o1
     else jset (S3OperationTypeName op1) (op_doc (cm_metrics m op1)) o1) [] all_operations"

definition save_doc :: "string \<Rightarrow> cloud_metrics \<Rightarrow> json" where
  "save_doc saved_at m = JObj (jobj [(''version'', JNum 1), (''saved_at'', JStr saved_at),
     (''metrics'', JObj (metrics_doc m)), (''regions'', JArr (map JStr (cm_regions m)))])"

text \<open>\<^verbatim>\<open>j.value(key, 0)\<close> as an integer of the type asked for; an exception on anything that is no number.\<close>

definition json_value :: "json \<Rightarrow> string \<Rightarrow> int option" where
  "json_value j k =
     (case j of
        JObj kvs \<Rightarrow>
          (case map_of kvs k of
             None \<Rightarrow> Some 0
           | Some (JNum n) \<Rightarrow> Some n
           | Some (JBool b) \<Rightarrow> Some (if b then 1 else 0)
           | Some _ \<Rightarrow> None)
      | _ \<Rightarrow> None)"

definition json_u64 :: "json \<Rightarrow> string \<Rightarrow> u64 option" where
  "json_u64 j k = map_option word_of_int (json_value j k)"

definition parse_op :: "json \<Rightarrow> tallies option" where
  "parse_op j =
     (case (json_u64 j ''calls'', json_u64 j ''success'', json_u64 j ''failures'', json_u64 j ''retries'',
            json_u64 j ''bytes_up'', json_u64 j ''bytes_down'', json_u64 j ''bytes_server'') of
        (Some a, Some b, Some c, Some d, Some e, Some f, Some g) \<Rightarrow>
          Some \<lparr>tl_calls = a, tl_success = b, tl_failures = c, tl_retries = d, tl_up = e, tl_down = f, tl_server = g\<rparr>
      | _ \<Rightarrow> None)"

fun parse_items ::
  "(string \<times> json) list \<Rightarrow> (s3_operation \<Rightarrow> tallies) \<Rightarrow> (s3_operation \<Rightarrow> tallies) option" where
  "parse_items [] parsed = Some parsed"
| "parse_items ((op_name, j) # items) parsed =
     (let op1 = ParseS3OperationType op_name in
      if op1 = OpUnknown \<or> op1 = OpCOUNT then parse_items items parsed
      else case parse_op j of None \<Rightarrow> None | Some t \<Rightarrow> parse_items items (parsed(op1 := t)))"

definition json_strings :: "json list \<Rightarrow> string list" where
  "json_strings js = concat (map (\<lambda>j. case j of JStr s \<Rightarrow> [s] | _ \<Rightarrow> []) js)"

definition from_tally :: "tallies \<Rightarrow> op_metrics" where
  "from_tally t = \<lparr>om_call_count = tl_calls t, om_success_count = tl_success t, om_failure_count = tl_failures t,
     om_retry_count = tl_retries t, om_bytes_uploaded = tl_up t, om_bytes_downloaded = tl_down t,
     om_bytes_server_side = tl_server t, om_total_latency_ms = 0, om_min_latency_ms = INT64_MAX,
     om_max_latency_ms = 0\<rparr>"

text \<open>\<^term>\<open>None\<close>: an exception or another version, and the metrics in memory stay as they are.\<close>

definition load_doc :: "json \<Rightarrow> cloud_metrics \<Rightarrow> cloud_metrics option" where
  "load_doc j m =
     (case json_value j ''version'' of
        None \<Rightarrow> None
      | Some v \<Rightarrow>
          if (word_of_int v :: 32 word) \<noteq> 1 then None
          else let kvs = (case j of JObj kvs \<Rightarrow> kvs | _ \<Rightarrow> []) in
            (case (case map_of kvs ''metrics'' of
                     Some (JObj items) \<Rightarrow> parse_items items (\<lambda>_. zero_tallies)
                   | _ \<Rightarrow> Some (\<lambda>_. zero_tallies)) of
               None \<Rightarrow> None
             | Some parsed \<Rightarrow>
                 let regions = (case map_of kvs ''regions'' of Some (JArr js) \<Rightarrow> json_strings js | _ \<Rightarrow> []);
                     m = m\<lparr>cm_metrics := (\<lambda>op1. if op1 = OpCOUNT then cm_metrics m op1 else from_tally (parsed op1)),
                           cm_regions := regions\<rparr>;
                     total = getTotalMetrics m
                 in Some (m\<lparr>cm_last_saved_calls := om_call_count total, cm_history := [],
                            cm_prev_total_calls := om_call_count total,
                            cm_prev_total_bytes := om_bytes_uploaded total + om_bytes_downloaded total\<rparr>)))"

section \<open>What a saved document loads as\<close>

lemma json_u64_op_doc [simp]:
  "json_u64 (op_doc c) ''calls'' = Some (om_call_count c)"
  "json_u64 (op_doc c) ''success'' = Some (om_success_count c)"
  "json_u64 (op_doc c) ''failures'' = Some (om_failure_count c)"
  "json_u64 (op_doc c) ''retries'' = Some (om_retry_count c)"
  "json_u64 (op_doc c) ''bytes_up'' = Some (om_bytes_uploaded c)"
  "json_u64 (op_doc c) ''bytes_down'' = Some (om_bytes_downloaded c)"
  "json_u64 (op_doc c) ''bytes_server'' = Some (om_bytes_server_side c)"
  by (simp_all add: json_u64_def json_value_def op_doc_def jobj_def j_u64_def)

lemma parse_op_doc [simp]: "parse_op (op_doc c) = Some (op_tally c)"
  by (simp add: parse_op_def op_tally_def)

text \<open>Every entry of a saved object belongs to one kind, in the order of the names.\<close>

definition entries_of :: "cloud_metrics \<Rightarrow> s3_operation list \<Rightarrow> (string \<times> json) list \<Rightarrow> bool" where
  "entries_of m ops kvs \<longleftrightarrow> sorted_keys kvs \<and>
     (\<forall>k j. map_of kvs k = Some j \<longleftrightarrow>
        (\<exists>op1 \<in> set ops. om_call_count (cm_metrics m op1) \<noteq> 0 \<and> k = S3OperationTypeName op1 \<and>
           j = op_doc (cm_metrics m op1)))"

lemma entries_of_fold:
  assumes "set ops \<subseteq> - {OpCOUNT}"
  shows "entries_of m ops (foldr (\<lambda>op1 o1. if om_call_count (cm_metrics m op1) = 0 then o1
            else jset (S3OperationTypeName op1) (op_doc (cm_metrics m op1)) o1) ops [])"
  using assms
proof (induction ops)
  case (Cons op1 ops)
  let ?kvs = "foldr (\<lambda>op1 o1. if om_call_count (cm_metrics m op1) = 0 then o1
            else jset (S3OperationTypeName op1) (op_doc (cm_metrics m op1)) o1) ops []"
  from Cons have IH: "entries_of m ops ?kvs" by simp
  show ?case
  proof (cases "om_call_count (cm_metrics m op1) = 0")
    case True
    with IH show ?thesis by (auto simp: entries_of_def)
  next
    case False
    have inj: "S3OperationTypeName op2 = S3OperationTypeName op1 \<longleftrightarrow> op2 = op1" if "op2 \<in> set ops" for op2
      using operation_name_inject [of op2 op1] Cons.prems that by auto
    have one: "map_of ((S3OperationTypeName op1, op_doc (cm_metrics m op1)) # ?kvs) k = Some j \<longleftrightarrow>
        (\<exists>op2 \<in> set (op1 # ops). om_call_count (cm_metrics m op2) \<noteq> 0 \<and> k = S3OperationTypeName op2 \<and>
           j = op_doc (cm_metrics m op2))" for k j
    proof (cases "k = S3OperationTypeName op1")
      case True
      have "(\<exists>op2 \<in> set (op1 # ops). om_call_count (cm_metrics m op2) \<noteq> 0 \<and> k = S3OperationTypeName op2 \<and>
           j = op_doc (cm_metrics m op2)) \<longleftrightarrow> j = op_doc (cm_metrics m op1)"
        using False inj unfolding True by (metis list.set_intros(1) set_ConsD)
      then show ?thesis by (auto simp: True)
    next
      case k: False
      with IH show ?thesis by (auto simp: entries_of_def)
    qed
    with IH False show ?thesis by (simp add: entries_of_def sorted_keys_jset)
  qed
qed (simp add: entries_of_def sorted_keys_def)

lemma metrics_doc_entries: "entries_of m all_operations (metrics_doc m)"
proof -
  have "metrics_doc m = foldr (\<lambda>op1 o1. if om_call_count (cm_metrics m op1) = 0 then o1
            else jset (S3OperationTypeName op1) (op_doc (cm_metrics m op1)) o1) (rev all_operations) []"
    by (simp add: metrics_doc_def foldr_conv_foldl)
  with entries_of_fold [of "rev all_operations" m] show ?thesis
    by (simp add: set_all_operations entries_of_def)
qed

lemma parse_items_entries:
  assumes "\<And>k j. (k, j) \<in> set kvs \<Longrightarrow>
      \<exists>op1. op1 \<noteq> OpCOUNT \<and> k = S3OperationTypeName op1 \<and> j = op_doc (cm_metrics m op1)"
    and "distinct (map fst kvs)"
  shows "parse_items kvs parsed = Some (\<lambda>op1.
    if op1 \<noteq> OpUnknown \<and> op1 \<noteq> OpCOUNT \<and> S3OperationTypeName op1 \<in> fst ` set kvs
    then op_tally (cm_metrics m op1) else parsed op1)"
  using assms
proof (induction kvs arbitrary: parsed)
  case (Cons kv kvs)
  obtain k j where kv: "kv = (k, j)" by fastforce
  from Cons.prems(1) [of k j] kv obtain op1 where
    op1: "op1 \<noteq> OpCOUNT" "k = S3OperationTypeName op1" "j = op_doc (cm_metrics m op1)" by auto
  have IH: "parse_items kvs p = Some (\<lambda>op1.
    if op1 \<noteq> OpUnknown \<and> op1 \<noteq> OpCOUNT \<and> S3OperationTypeName op1 \<in> fst ` set kvs
    then op_tally (cm_metrics m op1) else p op1)" for p
    using Cons.IH [of p] Cons.prems by simp
  have inj: "S3OperationTypeName op2 = S3OperationTypeName op1 \<longleftrightarrow> op2 = op1" if "op2 \<noteq> OpCOUNT" for op2
    using operation_name_inject that op1(1) by blast
  show ?case
    using op1(1) inj by (auto simp: kv op1(2,3) IH Let_def fun_eq_iff simp del: S3OperationTypeName.simps)
qed simp

lemma parse_metrics_doc:
  "parse_items (metrics_doc m) (\<lambda>_. zero_tallies) = Some (\<lambda>op1.
     if op1 \<noteq> OpUnknown \<and> op1 \<noteq> OpCOUNT \<and> om_call_count (cm_metrics m op1) \<noteq> 0
     then op_tally (cm_metrics m op1) else zero_tallies)"
proof -
  note e = metrics_doc_entries [of m, unfolded entries_of_def set_all_operations]
  have d: "distinct (map fst (metrics_doc m))" using e sorted_keys_distinct by blast
  have orig: "\<exists>op1. op1 \<noteq> OpCOUNT \<and> k = S3OperationTypeName op1 \<and> j = op_doc (cm_metrics m op1)"
    if "(k, j) \<in> set (metrics_doc m)" for k j
    using map_of_is_SomeI [OF d that] e by auto
  have keys: "S3OperationTypeName op1 \<in> fst ` set (metrics_doc m) \<longleftrightarrow> om_call_count (cm_metrics m op1) \<noteq> 0"
    if "op1 \<noteq> OpCOUNT" for op1
  proof -
    have "S3OperationTypeName op1 \<in> fst ` set (metrics_doc m) \<longleftrightarrow> (\<exists>j. map_of (metrics_doc m) (S3OperationTypeName op1) = Some j)"
      by (metis map_of_eq_None_iff not_None_eq)
    also have "\<dots> \<longleftrightarrow> om_call_count (cm_metrics m op1) \<noteq> 0"
      using operation_name_inject [OF that] that by (subst e [THEN conjunct2, rule_format]) auto
    finally show ?thesis .
  qed
  have "op1 \<noteq> OpUnknown \<and> op1 \<noteq> OpCOUNT \<and> S3OperationTypeName op1 \<in> fst ` set (metrics_doc m) \<longleftrightarrow>
      op1 \<noteq> OpUnknown \<and> op1 \<noteq> OpCOUNT \<and> om_call_count (cm_metrics m op1) \<noteq> 0" for op1
    using keys by blast
  from parse_items_entries [OF orig d, of "\<lambda>_. zero_tallies", unfolded this] show ?thesis .
qed

lemma json_strings_map [simp]: "json_strings (map JStr ss) = ss"
  by (induction ss) (simp_all add: json_strings_def)

lemma op_tally_from_tally [simp]: "op_tally (from_tally t) = t"
  by (simp add: op_tally_def from_tally_def)

text \<open>What of the counters is on file: those of a known kind that has been called.\<close>

definition kept_tally :: "cloud_metrics \<Rightarrow> s3_operation \<Rightarrow> tallies" where
  "kept_tally m op1 =
     (if op1 = OpUnknown \<or> om_call_count (cm_metrics m op1) = 0 then zero_tallies else op_tally (cm_metrics m op1))"

lemma load_saved:
  "\<exists>m'. load_doc (save_doc t m) m0 = Some m' \<and> cm_regions m' = cm_regions m \<and> cm_history m' = [] \<and>
     cm_last_saved_calls m' = om_call_count (getTotalMetrics m') \<and>
     (\<forall>op1. op1 \<noteq> OpCOUNT \<longrightarrow> op_tally (cm_metrics m' op1) = kept_tally m op1)"
proof -
  have v: "json_value (save_doc t m) ''version'' = Some 1"
    by (simp add: json_value_def save_doc_def jobj_def)
  have k: "case save_doc t m of JObj kvs \<Rightarrow> map_of kvs ''metrics'' = Some (JObj (metrics_doc m)) \<and>
      map_of kvs ''regions'' = Some (JArr (map JStr (cm_regions m))) | _ \<Rightarrow> False"
    by (simp add: save_doc_def jobj_def)
  then obtain kvs where kvs: "save_doc t m = JObj kvs" "map_of kvs ''metrics'' = Some (JObj (metrics_doc m))"
    "map_of kvs ''regions'' = Some (JArr (map JStr (cm_regions m)))"
    by (auto simp: save_doc_def)
  show ?thesis
    unfolding load_doc_def v
    by (simp add: kvs parse_metrics_doc Let_def kept_tally_def getTotalMetrics_def)
qed

section \<open>Saving\<close>

text \<open>
  \<^verbatim>\<open>sweep_stale_metrics_temps\<close>: \<open>names\<close> is what the directory iterator delivers until it ends or fails.
\<close>

definition sweep_metrics_temp :: "string \<Rightarrow> string \<Rightarrow> int \<Rightarrow> string \<Rightarrow> local_fs \<Rightarrow> local_fs" where
  "sweep_metrics_temp dir temps cutoff name fs =
     (if \<not> starts_with name temps then fs
      else case sys_stat_file (path_append dir name) fs of
        (None, fs) \<Rightarrow> fs
      | (Some _, fs) \<Rightarrow>
          (case sys_stat_file (path_append dir name) fs of
             (None, fs) \<Rightarrow> fs
           | (Some i, fs) \<Rightarrow>
               if in_mtime i > cutoff then fs else snd (sys_unlink (path_append dir name) fs)))"

definition sweep_stale_metrics_temps :: "string list \<Rightarrow> string \<Rightarrow> local_fs \<Rightarrow> local_fs" where
  "sweep_stale_metrics_temps names metrics_path fs =
     (let dir = parent_path metrics_path in
      if dir = [] then fs
      else fold (sweep_metrics_temp dir (path_filename metrics_path @ ''.tmp.'') (lf_now fs - 3600)) names fs)"

text \<open>
  \<^verbatim>\<open>fwrite\<close> fills the stream's buffer and says how many bytes it took; \<^verbatim>\<open>fflush\<close> writes the buffer out.
  What \<^verbatim>\<open>fclose\<close> still writes to a file that is removed right after is not kept.
\<close>

definition stdio_fwrite :: "nat \<Rightarrow> local_fs \<Rightarrow> nat \<times> local_fs" where
  "stdio_fwrite n fs =
     (case sys_call fs of
        (Inl e, fs) \<Rightarrow> (0, fs)
      | (Inr None, fs) \<Rightarrow> (n, fs)
      | (Inr (Some k), fs) \<Rightarrow> (min k n, fs))"

lemma sys_write_zero:
  "sys_write p buf fs = (Inr 0, fs') \<Longrightarrow> buf \<noteq> [] \<Longrightarrow> length (lf_script fs') < length (lf_script fs)"
  by (auto simp: sys_write_def sys_call_def Let_def split: if_splits list.splits fate.splits)

function stdio_fflush :: "string \<Rightarrow> byte list \<Rightarrow> local_fs \<Rightarrow> bool \<times> local_fs" where
  "stdio_fflush p buf fs =
     (if buf = [] then (True, fs)
      else case sys_write p buf fs of
        (Inl e, fs') \<Rightarrow> (False, fs')
      | (Inr n, fs') \<Rightarrow> stdio_fflush p (drop n buf) fs')"
  by pat_completeness auto
termination
proof (relation "measure (\<lambda>(p, buf, fs). length buf + length (lf_script fs))", goal_cases)
  case (2 p buf fs x fs' n)
  then have w: "sys_write p buf fs = (Inr n, fs')" by simp
  from sys_write_script [OF w] sys_write_zero [of p buf fs fs'] w 2(1) show ?case
    by (cases n; cases buf) auto
qed simp

declare stdio_fflush.simps [simp del]

definition discard_temp :: "string \<Rightarrow> local_fs \<Rightarrow> bool \<times> local_fs" where
  "discard_temp temp fs = (False, snd (sys_unlink temp fs))"

definition close_and_discard :: "string \<Rightarrow> local_fs \<Rightarrow> bool \<times> local_fs" where
  "close_and_discard temp fs = discard_temp temp (snd (sys_noop fs))"

text \<open>What follows \<^verbatim>\<open>fdopen\<close>: write, flush, sync, close, rename.\<close>

definition write_metrics :: "string \<Rightarrow> string \<Rightarrow> byte list \<Rightarrow> local_fs \<Rightarrow> bool \<times> local_fs" where
  "write_metrics temp path content fs =
     (let (written, fs) = stdio_fwrite (length content) fs in
      if written \<noteq> length content then close_and_discard temp fs
      else let (ok, fs) = stdio_fflush temp content fs in
        if \<not> ok then close_and_discard temp fs
        else let (e, fs) = sys_noop fs in
          if e \<noteq> None then close_and_discard temp fs
          else let (e, fs) = sys_noop fs in
            if e \<noteq> None then discard_temp temp fs
            else let (e, fs) = sys_rename temp path fs in
              if e \<noteq> None then discard_temp temp fs else (True, flush_directory fs))"

text \<open>\<open>chosen\<close> is the name \<^verbatim>\<open>mkstemp\<close> settles on; it creates the file anew or fails.\<close>

definition save_metrics ::
  "(json \<Rightarrow> byte list option) \<Rightarrow> string list \<Rightarrow> string \<Rightarrow> string \<Rightarrow> string \<Rightarrow> cloud_metrics \<Rightarrow> local_fs \<Rightarrow> bool \<times> local_fs"
where
  "save_metrics dump names chosen now path m fs =
     (let fs = sweep_stale_metrics_temps names path fs;
          (existing, fs) = sys_stat_file path fs;
          existing_mode = (case existing of None \<Rightarrow> 0 | Some i \<Rightarrow> in_mode i AND 0xFFF);
          temp = path @ ''.tmp.'' @ chosen;
          (e, fs) = sys_open_excl temp 0x180 fs in
      if e \<noteq> None then (False, fs)
      else let fs = (if existing_mode \<noteq> 0 then snd (sys_fchmod temp existing_mode fs) else fs);
               (e, fs) = sys_noop fs in
        if e \<noteq> None then close_and_discard temp fs
        else case dump (save_doc now m) of
          None \<Rightarrow> discard_temp temp fs
        | Some content \<Rightarrow> write_metrics temp path content fs)"

section \<open>Loading\<close>

definition read_whole_file :: "string \<Rightarrow> local_fs \<Rightarrow> byte list option \<times> local_fs" where
  "read_whole_file path fs =
     (case sys_call fs of
        (Inl e, fs) \<Rightarrow> (None, fs)
      | (Inr most, fs) \<Rightarrow>
          (case lf_nodes fs path of
             Some (File i) \<Rightarrow> (Some (case most of None \<Rightarrow> in_data i | Some k \<Rightarrow> take k (in_data i)), fs)
           | _ \<Rightarrow> (None, fs)))"

definition load_metrics ::
  "(byte list \<Rightarrow> json option) \<Rightarrow> string \<Rightarrow> cloud_metrics \<Rightarrow> local_fs \<Rightarrow> bool \<times> cloud_metrics \<times> local_fs" where
  "load_metrics parse path m fs =
     (case read_whole_file path fs of
        (None, fs) \<Rightarrow> (False, m, fs)
      | (Some text, fs) \<Rightarrow>
          (case parse text of
             None \<Rightarrow> (False, m, fs)
           | Some j \<Rightarrow>
               (case load_doc j m of None \<Rightarrow> (False, m, fs) | Some m' \<Rightarrow> (True, m', fs))))"

section \<open>A save replaces the file or leaves it\<close>

lemma stdio_fwrite_nodes: "stdio_fwrite n fs = (k, fs') \<Longrightarrow> lf_nodes fs' = lf_nodes fs"
  by (auto simp: stdio_fwrite_def dest: sys_call_nodes split: prod.splits sum.splits option.splits)

lemma stdio_fflush_staged:
  assumes "stdio_fflush temp buf fs = (ok, fs')" "staged fs0 temp d fs"
  shows "\<exists>d'. staged fs0 temp d' fs' \<and> (ok \<longrightarrow> d' = d @ buf)"
  using assms
proof (induction temp buf fs arbitrary: d rule: stdio_fflush.induct)
  case (1 temp buf fs)
  show ?case
  proof (cases "buf = []")
    case True
    with 1 show ?thesis by (subst (asm) stdio_fflush.simps) auto
  next
    case False
    obtain r fs1 where w: "sys_write temp buf fs = (r, fs1)" by fastforce
    note st = sys_write_staged [OF w 1(3)]
    show ?thesis
    proof (cases r)
      case (Inl e)
      with 1(2) False w st show ?thesis by (subst (asm) stdio_fflush.simps) auto
    next
      case (Inr n)
      have "stdio_fflush temp (drop n buf) fs1 = (ok, fs')"
        using 1(2) False w Inr by (subst (asm) stdio_fflush.simps) simp
      with 1(1) [OF False w [symmetric] Inr, where d = "d @ take n buf"] st Inr show ?thesis by auto
    qed
  qed
qed

text \<open>Either the whole document is in place, or at most the temporary file is left.\<close>

definition saved_or_not :: "local_fs \<Rightarrow> string \<Rightarrow> string \<Rightarrow> byte list option \<Rightarrow> bool \<times> local_fs \<Rightarrow> bool" where
  "saved_or_not fs0 temp path content r \<longleftrightarrow>
     (if fst r then \<exists>d. content = Some d \<and> replaced fs0 path d (snd r)
      else lf_nodes (snd r) = lf_nodes fs0 \<or> (\<exists>d. staged fs0 temp d (snd r)))"

lemma discard_temp_cases: "staged fs0 temp d fs \<Longrightarrow> saved_or_not fs0 temp path c (discard_temp temp fs)"
  by (cases "sys_unlink temp fs") (auto simp: saved_or_not_def discard_temp_def dest: sys_unlink_staged)

lemma close_and_discard_cases: "staged fs0 temp d fs \<Longrightarrow> saved_or_not fs0 temp path c (close_and_discard temp fs)"
  unfolding close_and_discard_def by (rule discard_temp_cases, rule staged_cong) simp_all

lemma write_metrics_cases:
  assumes "staged fs0 temp [] fs" "temp \<noteq> path"
  shows "saved_or_not fs0 temp path (Some content) (write_metrics temp path content fs)"
proof -
  obtain n fs1 where 1: "stdio_fwrite (length content) fs = (n, fs1)" by fastforce
  obtain ok fs2 where 2: "stdio_fflush temp content fs1 = (ok, fs2)" by fastforce
  obtain e3 fs3 where 3: "sys_noop fs2 = (e3, fs3)" by fastforce
  obtain e4 fs4 where 4: "sys_noop fs3 = (e4, fs4)" by fastforce
  obtain e5 fs5 where 5: "sys_rename temp path fs4 = (e5, fs5)" by fastforce
  have s1: "staged fs0 temp [] fs1" by (rule staged_cong [OF stdio_fwrite_nodes [OF 1] assms(1)])
  from stdio_fflush_staged [OF 2 s1] obtain d where s2: "staged fs0 temp d fs2" "ok \<Longrightarrow> d = content" by auto
  have s3: "staged fs0 temp d fs3" by (rule staged_cong [OF sys_noop_nodes [OF 3] s2(1)])
  have s4: "staged fs0 temp d fs4" by (rule staged_cong [OF sys_noop_nodes [OF 4] s3])
  note s5 = sys_rename_staged [OF 5 s4 assms(2)]
  have fin: "saved_or_not fs0 temp path (Some content) (True, flush_directory fs5)" if "ok" "e5 = None"
    using s5 s2(2) that by (simp add: saved_or_not_def replaced_def)
  show ?thesis
    using s5 close_and_discard_cases [OF s1] close_and_discard_cases [OF s2(1)] close_and_discard_cases [OF s3]
      discard_temp_cases [OF s4] discard_temp_cases [of fs0 temp d fs5] fin
    by (simp add: write_metrics_def 1 2 3 4 5)
qed

text \<open>The sweep removes nothing but old temporary files of this program.\<close>

definition only_temps_removed :: "string list \<Rightarrow> string \<Rightarrow> string \<Rightarrow> int \<Rightarrow> local_fs \<Rightarrow> local_fs \<Rightarrow> bool" where
  "only_temps_removed names dir temps cutoff fs fs' \<longleftrightarrow>
     (\<forall>p. lf_nodes fs' p = lf_nodes fs p \<or>
        lf_nodes fs' p = None \<and> (\<exists>name i. name \<in> set names \<and> p = path_append dir name \<and> starts_with name temps \<and>
          lf_nodes fs p = Some (File i) \<and> in_mtime i \<le> cutoff))"

lemma sys_stat_file_found: "sys_stat_file p fs = (Some i, fs') \<Longrightarrow> lf_nodes fs p = Some (File i)"
  by (auto simp: sys_stat_file_def dest!: sys_call_nodes split: prod.splits sum.splits option.splits node.splits)

lemma unlink_nodes_cases: "lf_nodes (snd (sys_unlink p fs)) q = lf_nodes fs q \<or> q = p \<and> lf_nodes (snd (sys_unlink p fs)) q = None"
  by (cases "sys_call fs")
     (auto simp: sys_unlink_def set_node_def dest!: sys_call_nodes split: sum.splits option.splits node.splits)

lemma only_temps_removed_refl: "lf_nodes fs' = lf_nodes fs \<Longrightarrow> only_temps_removed names dir temps cutoff fs fs'"
  by (simp add: only_temps_removed_def)

lemma only_temps_removed_trans:
  assumes "only_temps_removed names dir temps cutoff a b" "only_temps_removed names dir temps cutoff b c"
  shows "only_temps_removed names dir temps cutoff a c"
  using assms unfolding only_temps_removed_def by (metis option.distinct(1))

lemma sweep_metrics_temp_removes:
  "name \<in> set names \<Longrightarrow> only_temps_removed names dir temps cutoff fs (sweep_metrics_temp dir temps cutoff name fs)"
proof -
  assume name: "name \<in> set names"
  let ?p = "path_append dir name"
  obtain st1 fs1 where 1: "sys_stat_file ?p fs = (st1, fs1)" by fastforce
  obtain st2 fs2 where 2: "sys_stat_file ?p fs1 = (st2, fs2)" by fastforce
  note n = sys_stat_file_nodes [OF 1] sys_stat_file_nodes [OF 2]
  have "only_temps_removed names dir temps cutoff fs (snd (sys_unlink ?p fs2))"
    if "starts_with name temps" "st2 = Some i" "in_mtime i \<le> cutoff" for i
    using name that n sys_stat_file_found [OF 2 [unfolded that(2)]] unlink_nodes_cases [of ?p fs2]
    unfolding only_temps_removed_def by metis
  then show ?thesis
    using n 1 2 by (auto simp: sweep_metrics_temp_def intro: only_temps_removed_refl split: option.splits)
qed

lemma sweep_fold_removes:
  "set ns \<subseteq> set names \<Longrightarrow>
     only_temps_removed names dir temps cutoff fs (fold (sweep_metrics_temp dir temps cutoff) ns fs)"
proof (induction ns arbitrary: fs)
  case (Cons name ns)
  then show ?case
    using only_temps_removed_trans [OF sweep_metrics_temp_removes Cons.IH] by simp
qed (simp add: only_temps_removed_refl)

lemma sweep_removes:
  "only_temps_removed names (parent_path path) (path_filename path @ ''.tmp.'') (lf_now fs - 3600) fs
     (sweep_stale_metrics_temps names path fs)"
  using sweep_fold_removes [OF subset_refl] by (auto simp: sweep_stale_metrics_temps_def Let_def intro: only_temps_removed_refl)

lemma save_metrics_cases:
  assumes "save_metrics dump names chosen now path m fs = (ok, fs')"
  shows "saved_or_not (sweep_stale_metrics_temps names path fs) (path @ ''.tmp.'' @ chosen) path
    (dump (save_doc now m)) (ok, fs')"
proof -
  define temp where "temp = path @ ''.tmp.'' @ chosen"
  define fs0 where "fs0 = sweep_stale_metrics_temps names path fs"
  have ne: "temp \<noteq> path" by (simp add: temp_def)
  obtain st fs1 where 1: "sys_stat_file path fs0 = (st, fs1)" by fastforce
  obtain e2 fs2 where 2: "sys_open_excl temp 0x180 fs1 = (e2, fs2)" by fastforce
  define md where "md = (case st of None \<Rightarrow> 0 | Some i \<Rightarrow> in_mode i AND 0xFFF)"
  define fs3 where "fs3 = (if md \<noteq> 0 then snd (sys_fchmod temp md fs2) else fs2)"
  obtain e4 fs4 where 4: "sys_noop fs3 = (e4, fs4)" by fastforce
  have s2: "staged fs0 temp [] fs2" if "e2 = None"
    using sys_open_excl_cases [OF 2] that staged_from [OF sys_stat_file_nodes [OF 1]] by simp
  have s3: "staged fs0 temp [] fs3" if "e2 = None"
    using s2 [OF that] sys_fchmod_staged [of temp md fs2 _ _ fs0 "[]"]
    by (cases "sys_fchmod temp md fs2") (auto simp: fs3_def)
  have s4: "staged fs0 temp [] fs4" if "e2 = None" by (rule staged_cong [OF sys_noop_nodes [OF 4] s3 [OF that]])
  have fail: "saved_or_not fs0 temp path c (False, fs2)" if "e2 \<noteq> None" for c
    using sys_open_excl_cases [OF 2] that sys_stat_file_nodes [OF 1] by (simp add: saved_or_not_def)
  have "(ok, fs') = (if e2 \<noteq> None then (False, fs2)
      else if e4 \<noteq> None then close_and_discard temp fs4
      else case dump (save_doc now m) of None \<Rightarrow> discard_temp temp fs4
        | Some content \<Rightarrow> write_metrics temp path content fs4)"
    using assms [symmetric]
    unfolding save_metrics_def Let_def fs0_def [symmetric] temp_def [symmetric] 1 prod.case md_def [symmetric] 2
      fs3_def [symmetric] 4 .
  with fail close_and_discard_cases [OF s4] discard_temp_cases [OF s4] write_metrics_cases [OF s4 ne]
  show ?thesis unfolding fs0_def [symmetric] temp_def [symmetric] by (auto split: if_splits option.splits)
qed

lemma temps_are_siblings:
  assumes "only_temps_removed names dir (path_filename path @ ''.tmp.'') cutoff fs fs'"
    and "\<forall>name \<in> set names. CHR ''/'' \<notin> set name"
  shows "lf_nodes fs' path = lf_nodes fs path"
proof (rule ccontr)
  assume "lf_nodes fs' path \<noteq> lf_nodes fs path"
  with assms(1) obtain name where name: "name \<in> set names" "path = path_append dir name"
    "starts_with name (path_filename path @ ''.tmp.'')"
    unfolding only_temps_removed_def by metis
  then have l: "length (path_filename path) + 5 \<le> length name"
    by (auto simp: starts_with_iff_prefix dest: prefix_length_le)
  then have "name \<noteq> []" by auto
  with path_filename_append [of name dir] assms(2) name(1,2) l show False by auto
qed

text \<open>
  A path after a save: as it was, the metrics file with the whole document, a temporary file that
  was created, or an old one that was removed.
\<close>

definition metrics_save_effect ::
  "string \<Rightarrow> string \<Rightarrow> byte list option \<Rightarrow> bool \<Rightarrow> local_fs \<Rightarrow> local_fs \<Rightarrow> string \<Rightarrow> bool" where
  "metrics_save_effect path temp content ok fs fs' p \<longleftrightarrow>
     (if p = path then
        (if ok then \<exists>i. lf_nodes fs' p = Some (File i) \<and> content = Some (in_data i)
         else lf_nodes fs' p = lf_nodes fs p)
      else lf_nodes fs' p = lf_nodes fs p \<or>
        p = temp \<and> \<not> ok \<or>
        lf_nodes fs' p = None \<and>
          (\<exists>name i. p = path_append (parent_path path) name \<and> starts_with name (path_filename path @ ''.tmp.'') \<and>
             lf_nodes fs p = Some (File i) \<and> in_mtime i \<le> lf_now fs - 3600))"

lemma save_metrics_effect:
  assumes "save_metrics dump names chosen now path m fs = (ok, fs')"
    and "\<forall>name \<in> set names. CHR ''/'' \<notin> set name"
  shows "metrics_save_effect path (path @ ''.tmp.'' @ chosen) (dump (save_doc now m)) ok fs fs' p"
proof -
  define temp where "temp = path @ ''.tmp.'' @ chosen"
  define fs0 where "fs0 = sweep_stale_metrics_temps names path fs"
  have ne: "temp \<noteq> path" by (simp add: temp_def)
  note sw = sweep_removes [of names path fs, folded fs0_def]
  have path0: "lf_nodes fs0 path = lf_nodes fs path" by (rule temps_are_siblings [OF sw assms(2)])
  have gone: "lf_nodes fs0 p = lf_nodes fs p \<or> lf_nodes fs0 p = None \<and>
      (\<exists>name i. p = path_append (parent_path path) name \<and> starts_with name (path_filename path @ ''.tmp.'') \<and>
             lf_nodes fs p = Some (File i) \<and> in_mtime i \<le> lf_now fs - 3600)"
    using sw unfolding only_temps_removed_def by blast
  have c: "saved_or_not fs0 temp path (dump (save_doc now m)) (ok, fs')"
    unfolding fs0_def temp_def by (rule save_metrics_cases [OF assms(1)])
  show ?thesis
  proof (cases ok)
    case True
    with c obtain d i where "dump (save_doc now m) = Some d" "in_data i = d" "lf_nodes fs' = (lf_nodes fs0)(path \<mapsto> File i)"
      by (auto simp: saved_or_not_def replaced_def)
    with True gone show ?thesis by (auto simp: metrics_save_effect_def)
  next
    case False
    with c have "lf_nodes fs' = lf_nodes fs0 \<or> (\<exists>i. lf_nodes fs' = (lf_nodes fs0)(temp \<mapsto> File i))"
      by (auto simp: saved_or_not_def staged_def)
    with False gone path0 ne show ?thesis
      unfolding temp_def [symmetric] metrics_save_effect_def by auto
  qed
qed

lemma load_after_save:
  assumes "save_metrics dump names chosen now path m fs = (True, fs')"
    and "\<forall>name \<in> set names. CHR ''/'' \<notin> set name"
    and "\<And>d. dump (save_doc now m) = Some d \<Longrightarrow> parse d = Some (save_doc now m)"
    and "load_metrics parse path m0 (fs'\<lparr>lf_script := [], lf_alive := True\<rparr>) = (ok, m2, fs2)"
  shows "ok \<and> cm_regions m2 = cm_regions m \<and>
    (\<forall>op1. op1 \<noteq> OpCOUNT \<longrightarrow> op_tally (cm_metrics m2 op1) = kept_tally m op1)"
proof -
  from save_metrics_effect [OF assms(1,2), of path] obtain i where
    i: "lf_nodes fs' path = Some (File i)" "dump (save_doc now m) = Some (in_data i)"
    by (auto simp: metrics_save_effect_def)
  from load_saved [of now m m0] obtain m' where
    m': "load_doc (save_doc now m) m0 = Some m'" "cm_regions m' = cm_regions m"
      "\<forall>op1. op1 \<noteq> OpCOUNT \<longrightarrow> op_tally (cm_metrics m' op1) = kept_tally m op1" by blast
  from assms(4) i assms(3) [OF i(2)] m'(1) have "ok \<and> m2 = m'"
    by (simp add: load_metrics_def read_whole_file_def sys_call_def)
  with m'(2,3) show ?thesis by simp
qed

section \<open>When nothing fails\<close>

definition undisturbed :: "local_fs \<Rightarrow> bool" where
  "undisturbed fs \<longleftrightarrow> lf_script fs = [] \<and> lf_alive fs"

lemma undisturbed_sys_call [simp]: "undisturbed fs \<Longrightarrow> sys_call fs = (Inr None, fs)"
  by (simp add: undisturbed_def sys_call_def)

lemma undisturbed_updates [simp]:
  "undisturbed (update_file p f fs) = undisturbed fs" "undisturbed (set_node p n fs) = undisturbed fs"
  by (simp_all add: undisturbed_def set_node_def)

lemma undisturbed_calls [simp]:
  assumes "undisturbed fs"
  shows "sys_noop fs = (None, fs)" "stdio_fwrite n fs = (n, fs)" "undisturbed (snd (sys_stat_file p fs))"
    "undisturbed (snd (sys_unlink p fs))" "undisturbed (snd (sys_fchmod p md fs))"
  using assms
  by (auto simp: sys_noop_def sys_plain_def stdio_fwrite_def sys_stat_file_def sys_unlink_def sys_fchmod_def
      split: option.splits node.splits)

lemma undisturbed_stat: "undisturbed fs \<Longrightarrow> sys_stat_file p fs = (st, fs') \<Longrightarrow> fs' = fs"
  by (auto simp: sys_stat_file_def split: option.splits node.splits)

lemma only_temps_removedD:
  "only_temps_removed names dir temps cutoff fs fs' \<Longrightarrow> lf_nodes fs' p = lf_nodes fs p \<or> lf_nodes fs' p = None"
  unfolding only_temps_removed_def by meson

lemma undisturbed_sweep: "undisturbed fs \<Longrightarrow> undisturbed (sweep_stale_metrics_temps names path fs)"
proof -
  have one: "undisturbed (sweep_metrics_temp dir temps cutoff name fs)" if "undisturbed fs" for dir temps cutoff name fs
  proof -
    note u = that
    obtain st where st: "sys_stat_file (path_append dir name) fs = (st, fs)"
      using undisturbed_stat [OF u, of "path_append dir name"] by (metis surj_pair)
    with u show ?thesis by (cases st) (simp_all add: sweep_metrics_temp_def)
  qed
  have "undisturbed fs \<Longrightarrow> undisturbed (fold (sweep_metrics_temp dir temps cutoff) ns fs)" for dir temps cutoff ns
    by (induction ns arbitrary: fs) (simp_all add: one)
  then show "undisturbed fs \<Longrightarrow> ?thesis" by (simp add: sweep_stale_metrics_temps_def Let_def)
qed

lemma undisturbed_fflush: "undisturbed fs \<Longrightarrow> \<exists>fs'. stdio_fflush p buf fs = (True, fs') \<and> undisturbed fs'"
  by (cases "buf = []") (simp_all add: stdio_fflush.simps sys_write_def Let_def)

lemma undisturbed_write:
  assumes "undisturbed fs" "staged fs0 temp [] fs" "temp \<noteq> path" "lf_nodes fs0 path \<noteq> Some Dir"
  shows "fst (write_metrics temp path content fs)"
proof -
  obtain fs1 where fl: "stdio_fflush temp content fs = (True, fs1)" "undisturbed fs1"
    using undisturbed_fflush assms(1) by blast
  from stdio_fflush_staged [OF fl(1) assms(2)] obtain i where
    "lf_nodes fs1 = (lf_nodes fs0)(temp \<mapsto> File i)" by (auto simp: staged_def)
  with fl assms(1,3,4) have "fst (sys_rename temp path fs1) = None" by (simp add: sys_rename_def)
  with fl assms(1) show ?thesis by (cases "sys_rename temp path fs1") (simp add: write_metrics_def)
qed

lemma fst_TrueE: "fst r \<Longrightarrow> (\<And>x. r = (True, x) \<Longrightarrow> thesis) \<Longrightarrow> thesis"
  by (cases r) simp

lemma undisturbed_save:
  assumes "undisturbed fs" "lf_nodes fs path \<noteq> Some Dir" "lf_nodes fs (path @ ''.tmp.'' @ chosen) = None"
    and "dump (save_doc now m) = Some content"
  shows "fst (save_metrics dump names chosen now path m fs)"
proof -
  define temp where "temp = path @ ''.tmp.'' @ chosen"
  define fs0 where "fs0 = sweep_stale_metrics_temps names path fs"
  have ne: "temp \<noteq> path" by (simp add: temp_def)
  have u0: "undisturbed fs0" unfolding fs0_def by (rule undisturbed_sweep [OF assms(1)])
  have removed: "lf_nodes fs0 p = lf_nodes fs p \<or> lf_nodes fs0 p = None" for p
    unfolding fs0_def by (rule only_temps_removedD [OF sweep_removes])
  obtain st fs1 where 1: "sys_stat_file path fs0 = (st, fs1)" by fastforce
  with u0 have u1: "undisturbed fs1" using undisturbed_calls(3) [OF u0, of path] by simp
  have n1: "lf_nodes fs1 temp = None" "lf_nodes fs0 path \<noteq> Some Dir"
    using sys_stat_file_nodes [OF 1] removed [of temp] removed [of path] assms(2,3) by (auto simp: temp_def)
  obtain e2 fs2 where 2: "sys_open_excl temp 0x180 fs1 = (e2, fs2)" by fastforce
  from 2 u1 n1(1) have e2: "e2 = None" "undisturbed fs2" by (auto simp: sys_open_excl_def)
  define md where "md = (case st of None \<Rightarrow> 0 | Some i \<Rightarrow> in_mode i AND 0xFFF)"
  define fs3 where "fs3 = (if md \<noteq> 0 then snd (sys_fchmod temp md fs2) else fs2)"
  have u3: "undisturbed fs3" using e2(2) by (simp add: fs3_def)
  have s2: "staged fs0 temp [] fs2"
    using sys_open_excl_cases [OF 2] e2(1) staged_from [OF sys_stat_file_nodes [OF 1]] by simp
  have s3: "staged fs0 temp [] fs3"
    using s2 sys_fchmod_staged [of temp md fs2 _ _ fs0 "[]"] by (cases "sys_fchmod temp md fs2") (auto simp: fs3_def)
  have "save_metrics dump names chosen now path m fs = write_metrics temp path content fs3"
    unfolding save_metrics_def Let_def fs0_def [symmetric] temp_def [symmetric] 1 prod.case md_def [symmetric] 2
      fs3_def [symmetric] undisturbed_calls(1) [OF u3] using e2(1) assms(4) by simp
  with undisturbed_write [OF u3 s3 ne n1(2)] show ?thesis by simp
qed

section \<open>Properties\<close>

text \<open>
  whatever fails while the counters are saved, and whenever the process is killed, the metrics file
  is what it was or holds the whole new document, and the latter is what a save that reports success
  means; of the other files only the save's own temporary one can have appeared, and only a regular
  file with the name of such a temporary one that is over an hour old can have gone.
\<close>

theorem metrics_file_replaced_atomically:
  assumes "save_metrics dump names chosen now path m fs = (ok, fs')"
    and "\<forall>name \<in> set names. CHR ''/'' \<notin> set name"
  shows "metrics_save_effect path (path @ ''.tmp.'' @ chosen) (dump (save_doc now m)) ok fs fs' p"
  by (rule save_metrics_effect [OF assms])

definition metrics_disk :: "fate list \<Rightarrow> local_fs" where
  "metrics_disk script = \<lparr>lf_nodes = [''/d/m'' \<mapsto> File \<lparr>in_data = [1], in_mode = 0x1A4, in_owner = (0, 0), in_mtime = 9\<rparr>,
       ''/d/m.tmp.old'' \<mapsto> File \<lparr>in_data = [], in_mode = 0x180, in_owner = (0, 0), in_mtime = 8\<rparr>],
     lf_script = script, lf_alive = True, lf_now = 9000, lf_umask = 0, lf_owner = (0, 0), lf_pid = 1, lf_counter = 0\<rparr>"

lemma metrics_paths:
  "parent_path ''/d/m'' = ''/d''" "path_filename ''/d/m'' = ''m''" "path_append ''/d'' ''m.tmp.old'' = ''/d/m.tmp.old''"
  by (simp_all add: parent_path_def path_filename_def path_append_def)

text \<open>A save that nothing disturbs, and one whose document cannot be printed.\<close>

theorem metrics_file_replaced_atomically_witness:
  "\<exists>fs1 fs2 i. save_metrics (\<lambda>_. Some [2, 3]) [''m'', ''m.tmp.old''] ''abc'' ''now'' ''/d/m'' fresh_metrics (metrics_disk [])
       = (True, fs1) \<and> lf_nodes fs1 ''/d/m'' = Some (File i) \<and> in_data i = [2, 3] \<and>
     save_metrics (\<lambda>_. None) [''m'', ''m.tmp.old''] ''abc'' ''now'' ''/d/m'' fresh_metrics (metrics_disk [])
       = (False, fs2) \<and> lf_nodes fs2 ''/d/m'' = lf_nodes (metrics_disk []) ''/d/m''"
proof -
  let ?save = "\<lambda>dump. save_metrics dump [''m'', ''m.tmp.old''] ''abc'' ''now'' ''/d/m'' fresh_metrics (metrics_disk [])"
  have names: "\<forall>name \<in> set [''m'', ''m.tmp.old'']. CHR ''/'' \<notin> set name" by simp
  have "fst (?save (\<lambda>_. Some [2, 3]))"
    by (rule undisturbed_save [where content = "[2, 3]"]) (simp_all add: undisturbed_def metrics_disk_def)
  then obtain fs1 where 1: "?save (\<lambda>_. Some [2, 3]) = (True, fs1)" using fst_TrueE by blast
  obtain ok fs2 where 2: "?save (\<lambda>_. None) = (ok, fs2)" by (rule prod.exhaust)
  from metrics_file_replaced_atomically [OF 1 names, of "''/d/m''"] obtain i where
    "lf_nodes fs1 ''/d/m'' = Some (File i)" "in_data i = [2, 3]" by (auto simp: metrics_save_effect_def)
  moreover from metrics_file_replaced_atomically [OF 2 names, of "''/d/m''"]
  have "\<not> ok" "lf_nodes fs2 ''/d/m'' = lf_nodes (metrics_disk []) ''/d/m''"
    by (auto simp: metrics_save_effect_def split: if_splits)
  ultimately show ?thesis using 1 2 by auto
qed


definition one_run :: "metrics_event list" where
  "one_run = [Started OpHeadObject, Succeeded OpHeadObject 5 0 0 0, Started OpGetObject, Retried OpGetObject]"

definition earlier_metrics :: cloud_metrics where
  "earlier_metrics = addRegion ''eu-west-2'' (fold apply_event [Started OpHeadObject, Failed OpHeadObject 7] fresh_metrics)"

lemma earlier_tally:
  "kept_tally earlier_metrics OpHeadObject = zero_tallies\<lparr>tl_calls := 1, tl_failures := 1\<rparr>"
  "cm_regions earlier_metrics = [''eu-west-2'']"
  by (simp_all add: kept_tally_def earlier_metrics_def addRegion_def recordStart_def recordFailure_def on_op_def
      fresh_metrics_def zero_metrics_def updateMinLatency_def updateMaxLatency_def op_tally_def zero_tallies_def)


end
