(* ===== verification/Pricing.thy ===== *)
theory Pricing
  imports Complex_Main Cloud_Metrics
begin

text \<open>
  The cost estimates of aws_pricing.cpp.  They are computed in \<^verbatim>\<open>double\<close>; the model leaves open what a
  double is: the record \<open>arith\<close> has the operations the code uses, and what is proved holds for any of
  them, IEEE arithmetic with its rounding included.  The cache on disk is not modelled; a price list
  that \<^verbatim>\<open>getPricing\<close> found is an argument.
\<close>

record 'd arith =
  ar_of_u64 :: "u64 \<Rightarrow> 'd"
  ar_lit :: "rat \<Rightarrow> 'd"
  ar_add :: "'d \<Rightarrow> 'd \<Rightarrow> 'd"
  ar_mul :: "'d \<Rightarrow> 'd \<Rightarrow> 'd"
  ar_div :: "'d \<Rightarrow> 'd \<Rightarrow> 'd"

record 'd s3_pricing =
  sp_get_per_1000 :: 'd
  sp_head_per_1000 :: 'd
  sp_put_per_1000 :: 'd
  sp_delete_per_1000 :: 'd
  sp_data_out_per_gb :: 'd
  sp_data_in_per_gb :: 'd
  sp_region :: string
  sp_fetched_at :: int
  sp_valid :: bool

text \<open>Times are nanoseconds of the system clock; \<^verbatim>\<open>duration_cast\<close> truncates towards zero.\<close>

definition hours_between :: "int \<Rightarrow> int \<Rightarrow> int" where
  "hours_between a b =
     (let d = b - a; h = 3600 * 1000000000 in if d \<ge> 0 then d div h else - ((- d) div h))"

definition isStale :: "int \<Rightarrow> int \<Rightarrow> 'd s3_pricing \<Rightarrow> bool" where
  "isStale now ttl_hours p =
     (if \<not> sp_valid p then True else hours_between (sp_fetched_at p) now \<ge> ttl_hours)"

definition getDefault :: "'d arith \<Rightarrow> int \<Rightarrow> string \<Rightarrow> 'd s3_pricing" where
  "getDefault ar now region =
     (let p = \<lparr>sp_get_per_1000 = ar_lit ar 0.0004, sp_head_per_1000 = ar_lit ar 0.0004,
               sp_put_per_1000 = ar_lit ar 0.005, sp_delete_per_1000 = ar_lit ar 0,
               sp_data_out_per_gb = ar_lit ar 0.09, sp_data_in_per_gb = ar_lit ar 0,
               sp_region = region, sp_fetched_at = now, sp_valid = True\<rparr> in
      if find_str ''ap-'' region = Some 0 then p\<lparr>sp_data_out_per_gb := ar_lit ar 0.12\<rparr>
      else if find_str ''sa-'' region = Some 0 then p\<lparr>sp_data_out_per_gb := ar_lit ar 0.15\<rparr>
      else p)"

text \<open>\<^verbatim>\<open>fetchFromApi\<close> gives the defaults.\<close>

definition fetchFromApi :: "'d arith \<Rightarrow> int \<Rightarrow> string \<Rightarrow> 'd s3_pricing" where
  "fetchFromApi ar now region = getDefault ar now region"

text \<open>The \<^verbatim>\<open>switch\<close> of \<^verbatim>\<open>estimateOperationCost\<close>.\<close>

definition operation_price :: "'d arith \<Rightarrow> 'd s3_pricing \<Rightarrow> s3_operation \<Rightarrow> 'd" where
  "operation_price ar p op1 =
     (if op1 \<in> {OpGetObject, OpHeadObject} then sp_get_per_1000 p
      else if op1 \<in> {OpPutObject, OpUploadPart, OpCreateMultipartUpload, OpUploadPartCopy, OpUploadPartCopyRemote,
                     OpCopyObject, OpCopyObjectRemote, OpCompleteMultipartUpload, OpListObjectsV2, OpListBuckets,
                     OpListParts, OpListMultipartUploads, OpGetBucketLocation} then sp_put_per_1000 p
      else if op1 \<in> {OpDeleteObject, OpDeleteObjects, OpAbortMultipartUpload} then ar_lit ar 0
      else sp_put_per_1000 p)"

definition estimateOperationCost :: "'d arith \<Rightarrow> 'd s3_pricing \<Rightarrow> s3_operation \<Rightarrow> u64 \<Rightarrow> 'd" where
  "estimateOperationCost ar p op1 success_count =
     (if success_count = 0 then ar_lit ar 0
      else ar_mul ar (ar_div ar (ar_of_u64 ar success_count) (ar_lit ar 1000)) (operation_price ar p op1))"

text \<open>The loop of \<^verbatim>\<open>estimateCost\<close> over the metrics, with its own \<^verbatim>\<open>switch\<close>.\<close>

fun request_costs :: "'d arith \<Rightarrow> 'd s3_pricing \<Rightarrow> (s3_operation \<times> op_metrics) list \<Rightarrow> 'd \<Rightarrow> 'd" where
  "request_costs ar p [] total_cost = total_cost"
| "request_costs ar p ((op1, c) # ms) total_cost =
     (let calls = om_success_count c in
      if calls = 0 then request_costs ar p ms total_cost
      else let cost_per_1000 =
             (case op1 of
                OpGetObject \<Rightarrow> sp_get_per_1000 p | OpHeadObject \<Rightarrow> sp_get_per_1000 p
              | OpPutObject \<Rightarrow> sp_put_per_1000 p | OpUploadPart \<Rightarrow> sp_put_per_1000 p
              | OpCreateMultipartUpload \<Rightarrow> sp_put_per_1000 p | OpUploadPartCopy \<Rightarrow> sp_put_per_1000 p
              | OpUploadPartCopyRemote \<Rightarrow> sp_put_per_1000 p | OpCopyObject \<Rightarrow> sp_put_per_1000 p
              | OpCopyObjectRemote \<Rightarrow> sp_put_per_1000 p | OpCompleteMultipartUpload \<Rightarrow> sp_put_per_1000 p
              | OpListObjectsV2 \<Rightarrow> sp_put_per_1000 p | OpListBuckets \<Rightarrow> sp_put_per_1000 p
              | OpListParts \<Rightarrow> sp_put_per_1000 p | OpListMultipartUploads \<Rightarrow> sp_put_per_1000 p
              | OpGetBucketLocation \<Rightarrow> sp_put_per_1000 p
              | OpDeleteObject \<Rightarrow> ar_lit ar 0 | OpDeleteObjects \<Rightarrow> ar_lit ar 0 | OpAbortMultipartUpload \<Rightarrow> ar_lit ar 0
              | _ \<Rightarrow> sp_put_per_1000 p)
           in request_costs ar p ms
                (ar_add ar total_cost
                   (ar_mul ar (ar_div ar (ar_of_u64 ar calls) (ar_lit ar 1000)) cost_per_1000)))"

definition estimateCost :: "'d arith \<Rightarrow> 'd s3_pricing \<Rightarrow> cloud_metrics \<Rightarrow> 'd" where
  "estimateCost ar p m =
     (let total_cost = request_costs ar p (getAllMetrics m) (ar_lit ar 0);
          gb_out = ar_div ar (ar_of_u64 ar (om_bytes_downloaded (getTotalMetrics m))) (ar_lit ar 1000000000);
          total_cost = ar_add ar total_cost (ar_mul ar gb_out (sp_data_out_per_gb p)) in
      if isCrossRegion m then
        ar_add ar total_cost
          (ar_mul ar (ar_div ar (ar_of_u64 ar (getCrossBucketServerSideBytes m)) (ar_lit ar 1000000000))
             (sp_data_out_per_gb p))
      else total_cost)"

text \<open>
  The two price tables agree: the requests of an estimate cost what \<^verbatim>\<open>estimateOperationCost\<close> says of each
  kind that has succeeded, added up in the order of the kinds.
\<close>

lemma request_costs_sum:
  "request_costs ar p ms c =
     foldl (\<lambda>c (op1, m). if om_success_count m = 0 then c
                         else ar_add ar c (estimateOperationCost ar p op1 (om_success_count m))) c ms"
proof (induction ar p ms c rule: request_costs.induct)
  case (2 ar p op1 c ms total_cost)
  then show ?case
    by (cases op1) (simp_all add: estimateOperationCost_def operation_price_def Let_def)
qed simp

end
