(* ===== verification/Commands.thy ===== *)
theory Commands
  imports Cli Leftovers Rm Report Run_Sync Settings Metrics_File Pricing
begin

text \<open>
  main.cpp: the commands.  A command gives its exit status, the calls it makes outside the store and the file system,
  in order, and the state it leaves; \<^term>\<open>None\<close> is a run that does not return.  What it prints, the logging,
  the progress display and the AWS client objects are left out.  The region probe, \<^verbatim>\<open>GetBucketLocation\<close>
  of the SDK, is a parameter: the name of the location, or \<^term>\<open>None\<close> for an error or an exception.
\<close>

section \<open>Around the commands\<close>

type_synonym 's locator = "string \<Rightarrow> string \<Rightarrow> 's \<Rightarrow> string option \<times> 's"

datatype command_call =
    InitCachedDnsHttpClient | InitAPI | LoadMetrics | AddRegion string | WarmDns string string string
  | RaiseFdLimit int | AbortRegisteredUploads | WriteResults string | ClearMetrics | SaveMetrics
  | ShutdownDns | ShutdownAPI

text \<open>
  What a command finds around it: \<open>sh_late\<close> is a signal that arrives after the run has looked at the flag for the
  last time and before the command does.
\<close>

record 's shell =
  sh_fuel :: nat
  sh_create :: "'s client_factory"
  sh_locate :: "'s locator"
  sh_limits :: "rlimit option"
  sh_settable :: "rlimit \<Rightarrow> bool"
  sh_late :: bool
  sh_now :: int

type_synonym 's outcome = "(int \<times> command_call list \<times> 's) option"

definition default_region :: string where "default_region = ''eu-west-2''"

definition detect_bucket_region :: "'s locator \<Rightarrow> string \<Rightarrow> string \<Rightarrow> string \<Rightarrow> 's \<Rightarrow> string \<times> 's" where
  "detect_bucket_region locate bucket profile endpoint s =
     (if endpoint \<noteq> [] then (default_region, s)
      else case locate bucket profile s of
             (None, s) \<Rightarrow> ([], s)
           | (Some region, s) \<Rightarrow>
               (if region = [] then ''us-east-1'' else if region = ''EU'' then ''eu-west-1'' else region, s))"

text \<open>The region of a source, probed when it has none.\<close>

definition probe_region :: "'s locator \<Rightarrow> file_source \<Rightarrow> 's \<Rightarrow> file_source \<times> 's" where
  "probe_region locate src s =
     (let (region, s) = detect_bucket_region locate (fs_bucket src) (fs_profile src) (fs_endpoint src) s
      in (src\<lparr>fs_region := region\<rparr>, s))"

definition auto_detect_regions ::
  "'s locator \<Rightarrow> file_source \<Rightarrow> file_source \<Rightarrow> 's \<Rightarrow> bool \<times> file_source \<times> file_source \<times> 's" where
  "auto_detect_regions locate source_a source_b s =
     (let (ok_a, source_a, s) =
            (if fs_type source_a = S3 \<and> fs_region source_a = [] then
               let (a, s) = probe_region locate source_a s in (fs_region a \<noteq> [], a, s)
             else (True, source_a, s));
          (ok_b, source_b, s) =
            (if fs_type source_b = S3 \<and> fs_region source_b = [] then
               if fs_type source_a = S3 \<and> fs_bucket source_b = fs_bucket source_a \<and> fs_region source_a \<noteq> []
               then (True, source_b\<lparr>fs_region := fs_region source_a\<rparr>, s)
               else let (b, s) = probe_region locate source_b s in (fs_region b \<noteq> [], b, s)
             else (True, source_b, s))
      in (ok_a \<and> ok_b, source_a, source_b, s))"

text \<open>
  The SDK's life around a command: \<^verbatim>\<open>AwsShutdownGuard\<close> (aws_utils.h) takes down the DNS cache and the SDK when the
  command returns, on whichever path.
\<close>

definition guarded :: "(int \<times> command_call list \<times> 'w) option \<Rightarrow> (int \<times> command_call list \<times> 'w) option" where
  "guarded = map_option (\<lambda>(code, calls, w).
     (code, [InitCachedDnsHttpClient, InitAPI] @ calls @ [ShutdownDns, ShutdownAPI], w))"

text \<open>The threads a command may use.\<close>

definition allowed_threads :: "('s, 'm) shell_scheme \<Rightarrow> int \<Rightarrow> int" where
  "allowed_threads sh n = safe_thread_count n (sh_settable sh) (sh_limits sh)"

section \<open>rm\<close>

definition rm_exit :: "rm_result \<Rightarrow> bool \<Rightarrow> int" where
  "rm_exit result cancelled =
     (if rr_error result \<noteq> [] then (if cancelled then 130 else 2)
      else if cancelled then 130
      else if rr_objects_failed result > 0 then 1 else 0)"

definition rm_config_of :: "rm_cli \<Rightarrow> string \<Rightarrow> int \<Rightarrow> rm_config" where
  "rm_config_of opts region threads =
     \<lparr>rc_bucket = ro_bucket opts, rc_prefix = ro_prefix opts, rc_region = region,
      rc_endpoint = ro_endpoint_url opts, rc_recursive = ro_recursive opts, rc_force = ro_force opts,
      rc_batch = ro_batch opts, rc_max_threads = nat threads, rc_max_retries = 5\<rparr>"

definition rm_session :: "('s, 'm) shell_scheme \<Rightarrow> rm_cli \<Rightarrow> cancel \<Rightarrow> 's \<Rightarrow> 's outcome" where
  "rm_session sh opts cancelled s =
     (let (region, s) = (if ro_region opts = []
            then detect_bucket_region (sh_locate sh) (ro_bucket opts) [] (ro_endpoint_url opts) s
            else (ro_region opts, s)) in
      if region = [] then Some (2, [LoadMetrics, SaveMetrics], s)
      else case run_rm (sh_fuel sh) (sh_create sh) (rm_config_of opts region (allowed_threads sh (ro_num_threads opts)))
                  None cancelled s of
             None \<Rightarrow> None
           | Some (result, cancelled, s) \<Rightarrow>
               Some (rm_exit result (cancelled = Some 0 \<or> sh_late sh),
                     [LoadMetrics, RaiseFdLimit (ro_num_threads opts), SaveMetrics], s))"

definition run_rm_command :: "('s, 'm) shell_scheme \<Rightarrow> string list \<Rightarrow> cancel \<Rightarrow> 's \<Rightarrow> 's outcome" where
  "run_rm_command sh argv cancelled s =
     (let opts = parse_rm_args argv in
      if ro_error opts then Some (2, [], s)
      else if ro_help opts then Some (0, [], s)
      else if ro_s3_url opts = [] then Some (2, [], s)
      else if (ro_prefix opts = [] \<or> ends_with_char CHR ''/'' (ro_prefix opts)) \<and> \<not> ro_recursive opts
      then Some (2, [], s)
      else guarded (rm_session sh opts cancelled s))"

section \<open>leftovers\<close>

definition default_leftovers_config :: leftovers_config where
  "default_leftovers_config = \<lparr>lc_bucket = [], lc_region = [], lc_endpoint = [], lc_prefix = [],
     lc_older_than = 0, lc_abort_uploads = False\<rparr>"

text \<open>The bucket, as a plain name or as a URL; a prefix in it counts if none was given before.\<close>

definition leftovers_bucket :: "string \<Rightarrow> leftovers_config \<Rightarrow> leftovers_config" where
  "leftovers_bucket arg cfg =
     (let arg = (if starts_with arg ''s3://'' then drop 5 arg else arg) in
      case find_char CHR ''/'' arg of
        Some slash \<Rightarrow>
          cfg\<lparr>lc_bucket := take slash arg,
              lc_prefix := (if lc_prefix cfg = [] then drop (slash + 1) arg else lc_prefix cfg)\<rparr>
      | None \<Rightarrow> cfg\<lparr>lc_bucket := arg\<rparr>)"

text \<open>The arguments; \<^term>\<open>None\<close> is a usage error.\<close>

fun leftovers_args :: "leftovers_config \<Rightarrow> bool \<Rightarrow> string list \<Rightarrow> (leftovers_config \<times> bool) option" where
  "leftovers_args cfg help [] = Some (cfg, help)"
| "leftovers_args cfg help (arg # args) =
     (if arg = ''-h'' \<or> arg = ''--help'' then leftovers_args cfg True args
      else if arg = ''-v'' \<or> arg = ''--verbose'' then leftovers_args cfg help args
      else if arg = ''--abort'' then leftovers_args (cfg\<lparr>lc_abort_uploads := True\<rparr>) help args
      else let positional =
                 (if starts_with arg ''s3://'' \<or> (arg = [] \<or> hd arg \<noteq> CHR ''-'') \<and> lc_bucket cfg = []
                  then leftovers_args (leftovers_bucket arg cfg) help args else None) in
        case args of
          [] \<Rightarrow> positional
        | given # rest \<Rightarrow>
            if arg = ''--prefix'' then leftovers_args (cfg\<lparr>lc_prefix := given\<rparr>) help rest
            else if arg = ''--older-than'' then
              (case parse_duration given of
                 None \<Rightarrow> None
               | Some dur \<Rightarrow> leftovers_args (cfg\<lparr>lc_older_than := dur\<rparr>) help rest)
            else if arg = ''--region'' then leftovers_args (cfg\<lparr>lc_region := given\<rparr>) help rest
            else if arg = ''--endpoint-url'' then leftovers_args (cfg\<lparr>lc_endpoint := given\<rparr>) help rest
            else positional)"

text \<open>The command shuts the SDK down itself, on each of its three ways out.\<close>

definition leftovers_session :: "('s, 'm) shell_scheme \<Rightarrow> leftovers_config \<Rightarrow> 's \<Rightarrow> 's outcome" where
  "leftovers_session sh cfg s =
     (let (region, s) = (if lc_region cfg = []
            then detect_bucket_region (sh_locate sh) (lc_bucket cfg) [] (lc_endpoint cfg) s
            else (lc_region cfg, s));
          started = [InitCachedDnsHttpClient, InitAPI, LoadMetrics];
          cfg = cfg\<lparr>lc_region := region\<rparr> in
      if region = [] then Some (1, started @ [SaveMetrics, ShutdownAPI], s)
      else case run_leftovers (sh_fuel sh) (sh_create sh) cfg (sh_now sh) None None s of
             None \<Rightarrow> None
           | Some (result, cancelled, s) \<Rightarrow>
               Some (if \<not> lo_success result then 1 else if lo_abort_failures result > 0 then 1 else 0,
                     started @ [AddRegion region, SaveMetrics, ShutdownAPI], s))"

definition run_leftovers_command :: "('s, 'm) shell_scheme \<Rightarrow> string list \<Rightarrow> 's \<Rightarrow> 's outcome" where
  "run_leftovers_command sh argv s =
     (case leftovers_args default_leftovers_config False (drop 2 argv) of
        None \<Rightarrow> Some (2, [], s)
      | Some (cfg, help) \<Rightarrow>
          if help then Some (0, [], s)
          else if lc_bucket cfg = [] then Some (2, [], s)
          else leftovers_session sh cfg s)"

section \<open>sync\<close>

record 's sync_shell = "'s shell" +
  sh_host :: "'s host"

definition sync_arguments_missing :: "sync_cli \<Rightarrow> bool" where
  "sync_arguments_missing opts =
     (if so_direction opts = S3ToS3 then \<not> so_has_s3_source opts \<or> \<not> so_has_s3_dest opts
      else \<not> so_has_local opts \<or> \<not> so_has_s3_source opts)"

text \<open>
  The local side: an upload needs a directory, a download makes one if there is nothing.  A status the system cannot
  give counts as nothing there.
\<close>

definition local_side :: "'s host \<Rightarrow> sync_cli \<Rightarrow> local_fs \<Rightarrow> int option \<times> local_fs" where
  "local_side host opts fs =
     (let path = so_local_path opts; fq = queries_of host fs in
      case so_direction opts of
        DirUpload \<Rightarrow> (if fq_is_directory fq path then None else Some 2, fs)
      | DirDownload \<Rightarrow>
          (case fq_status fq path of
             Inl _ \<Rightarrow> (let (e, fs) = make_dirs (ancestors path) fs in (if e \<noteq> None then Some 1 else None, fs))
           | Inr _ \<Rightarrow> (if fq_is_directory fq path then None else Some 2, fs))
      | _ \<Rightarrow> (None, fs))"

text \<open>The regions of the two sides, and whether both are known.\<close>

definition sync_regions ::
  "'s locator \<Rightarrow> sync_cli \<Rightarrow> 's \<Rightarrow> bool \<times> file_source \<times> file_source \<times> 's" where
  "sync_regions locate opts s =
     (let (source, s) = (if fs_region (so_s3_source opts) = [] then probe_region locate (so_s3_source opts) s
                         else (so_s3_source opts, s)) in
      if fs_region source = [] then (False, source, so_s3_dest opts, s)
      else if so_direction opts = S3ToS3 \<and> fs_region (so_s3_dest opts) = [] then
        let (dest, s) = probe_region locate (so_s3_dest opts) s in (fs_region dest \<noteq> [], source, dest, s)
      else (True, source, so_s3_dest opts, s))"

definition sync_config_of :: "sync_cli \<Rightarrow> file_source \<Rightarrow> file_source \<Rightarrow> int \<Rightarrow> sync_config" where
  "sync_config_of opts source dest threads =
     \<lparr>sc_direction = so_direction opts, sc_local_path = so_local_path opts, sc_dest_local_path = [],
      sc_source = (if so_direction opts = DirUpload then default_file_source else source),
      sc_destination = (if so_direction opts = S3ToS3 then dest
                        else if so_direction opts = DirUpload then source else default_file_source),
      sc_delete_orphans = so_delete_orphans opts, sc_dry_run = so_dry_run opts, sc_max_threads = threads\<rparr>"

text \<open>
  After the run: the summary is printed or an error, and the status is that of the result on both ways.
\<close>

definition sync_session ::
  "('s, 'm) sync_shell_scheme \<Rightarrow> sync_cli \<Rightarrow> cancel \<Rightarrow> local_fs \<Rightarrow> 's \<Rightarrow>
   (int \<times> command_call list \<times> local_fs \<times> 's) option" where
  "sync_session sh opts cancelled fs s =
     (let (known, source, dest, s) = sync_regions (sh_locate sh) opts s;
          two = (so_direction opts = S3ToS3) in
      if \<not> known then Some (1, [LoadMetrics, SaveMetrics], fs, s)
      else
        let cfg = sync_config_of opts source dest (allowed_threads sh (so_num_threads opts));
            calls = [LoadMetrics, WarmDns (fs_bucket source) (fs_region source) (fs_endpoint source)] @
              (if two \<and> (fs_bucket dest \<noteq> fs_bucket source \<or> fs_region dest \<noteq> fs_region source)
               then [WarmDns (fs_bucket dest) (fs_region dest) (fs_endpoint dest)] else []) @
              [RaiseFdLimit (so_num_threads opts), AddRegion (fs_region source)] @
              (if two \<and> fs_region source \<noteq> fs_region dest then [AddRegion (fs_region dest)] else []) @
              [AbortRegisteredUploads, SaveMetrics]
        in case run_sync (sh_host sh) cfg None cancelled fs s of
             None \<Rightarrow> None
           | Some (result, cancelled, fs, s) \<Rightarrow> Some (if sr_success result then 0 else 1, calls, fs, s))"

definition run_sync_command ::
  "('s, 'm) sync_shell_scheme \<Rightarrow> string list \<Rightarrow> cancel \<Rightarrow> local_fs \<Rightarrow> 's \<Rightarrow>
   (int \<times> command_call list \<times> local_fs \<times> 's) option" where
  "run_sync_command sh argv cancelled fs s =
     (let opts = parse_sync_args argv in
      if so_error opts then Some (2, [], fs, s)
      else if so_help opts then Some (0, [], fs, s)
      else if sync_arguments_missing opts then Some (2, [], fs, s)
      else let (refused, fs) = local_side (sh_host sh) opts fs in
        case refused of
          Some code \<Rightarrow> Some (code, [], fs, s)
        | None \<Rightarrow> guarded (sync_session sh opts cancelled fs s))"

section \<open>stats\<close>

text \<open>The arguments: an exit status, or whether to reset and whether to print JSON.\<close>

fun stats_args :: "bool \<Rightarrow> bool \<Rightarrow> string list \<Rightarrow> int + (bool \<times> bool)" where
  "stats_args reset json_output [] = Inr (reset, json_output)"
| "stats_args reset json_output (arg # args) =
     (if arg = ''--reset'' then stats_args True json_output args
      else if arg = ''--json'' then stats_args reset True args
      else if arg = ''-h'' \<or> arg = ''--help'' then Inl 0
      else Inl 2)"

text \<open>The metrics and the disk they are kept on: the JSON library, the names in the directory, the name
  \<^verbatim>\<open>mkstemp\<close> chooses, the time and the path are as in \<^verbatim>\<open>Metrics_File\<close>.\<close>

definition run_stats_command ::
  "(byte list \<Rightarrow> json option) \<Rightarrow> (json \<Rightarrow> byte list option) \<Rightarrow> string list \<Rightarrow> string \<Rightarrow> string \<Rightarrow> string \<Rightarrow>
   string list \<Rightarrow> cloud_metrics \<Rightarrow> local_fs \<Rightarrow> int \<times> cloud_metrics \<times> local_fs" where
  "run_stats_command parse dump names chosen now path argv m fs =
     (case stats_args False False (drop 2 argv) of
        Inl code \<Rightarrow> (code, m, fs)
      | Inr (reset, json_output) \<Rightarrow>
          (let (loaded, m, fs) = load_metrics parse path m fs in
           if reset then
             let m = clear_metrics m; (saved, fs) = save_metrics dump names chosen now path m fs
             in (if saved then 0 else 1, m, fs)
           else (0, m, fs)))"

text \<open>What it prints as costs: of the requests, of the data that went out, and in all.\<close>

definition stats_region :: "cloud_metrics \<Rightarrow> string" where
  "stats_region m = (if getRegion m = [] then ''us-east-1'' else getRegion m)"

definition stats_costs :: "'d arith \<Rightarrow> 'd s3_pricing \<Rightarrow> cloud_metrics \<Rightarrow> 'd \<times> 'd \<times> 'd" where
  "stats_costs ar p m =
     (let data_out_cost = ar_mul ar (ar_div ar (ar_of_u64 ar (om_bytes_downloaded (getTotalMetrics m)))
            (ar_lit ar 1000000000)) (sp_data_out_per_gb p);
          request_cost = foldl (\<lambda>c (op1, om). if om_success_count om > 0
            then ar_add ar c (estimateOperationCost ar p op1 (om_success_count om)) else c)
            (ar_lit ar 0) (getAllMetrics m)
      in (request_cost, data_out_cost, ar_add ar request_cost data_out_cost))"

section \<open>diff\<close>

record 's diff_shell = "'s shell" +
  sh_queries :: file_queries
  sh_crc :: zng_crc
  sh_files :: local_files
  sh_read :: "string \<Rightarrow> pread"
  sh_order :: "string list \<Rightarrow> string list"

text \<open>Whether the two sources are directories; the store is asked for a key only where the name leaves it open.\<close>

definition directory_sides ::
  "file_queries \<Rightarrow> 's client_factory \<Rightarrow> file_source \<Rightarrow> file_source \<Rightarrow> 's \<Rightarrow> bool \<times> bool \<times> 's" where
  "directory_sides fq create a b s =
     (let is_dir_a = is_directory_source fq a; is_dir_b = is_directory_source fq b;
          (is_dir_a, s) = (if \<not> is_dir_a \<and> fs_type a = S3 \<and> is_dir_b then is_s3_prefix create a s else (is_dir_a, s));
          (is_dir_b, s) = (if \<not> is_dir_b \<and> fs_type b = S3 \<and> is_dir_a then is_s3_prefix create b s else (is_dir_b, s))
      in if \<not> is_dir_a \<and> \<not> is_dir_b \<and> fs_type a = S3 \<and> fs_type b = S3 then
           let (is_dir_a, s) = is_s3_prefix create a s; (is_dir_b, s) = is_s3_prefix create b s
           in (is_dir_a, is_dir_b, s)
         else (is_dir_a, is_dir_b, s))"

definition diff_dir_config :: "diff_cli \<Rightarrow> file_source \<Rightarrow> file_source \<Rightarrow> int \<Rightarrow> dir_config" where
  "diff_dir_config opts a b threads =
     \<lparr>dc_source_a = a, dc_source_b = b, dc_recursive = True, dc_num_threads = threads, dc_max_connections = 256,
      dc_chunk_size = 8 * 1024 * 1024, dc_parallel_discovery = co_parallel_discovery opts\<rparr>"

definition diff_file_config :: "file_source \<Rightarrow> file_source \<Rightarrow> comparison_config" where
  "diff_file_config a b =
     \<lparr>cc_source_a = a, cc_source_b = b, cc_chunk_ids = [], cc_max_connections = 128,
      cc_chunk_size = 8 * 1024 * 1024\<rparr>"

definition all_ok :: "dir_result \<Rightarrow> bool" where
  "all_ok r \<longleftrightarrow> dr_mismatched r = 0 \<and> dr_only_in_a r = 0 \<and> dr_only_in_b r = 0 \<and> dr_errors r = 0"

definition diff_directories ::
  "('s, 'm) diff_shell_scheme \<Rightarrow> diff_cli \<Rightarrow> file_source \<Rightarrow> file_source \<Rightarrow> cancel \<Rightarrow> 's \<Rightarrow> 's outcome" where
  "diff_directories sh opts a b cancelled s =
     (case run_directory_comparison (sh_fuel sh) (sh_queries sh) (sh_create sh) (sh_crc sh) (sh_files sh) (sh_read sh)
             (sh_order sh) (diff_dir_config opts a b
               (if co_num_threads opts > 0 then allowed_threads sh (co_num_threads opts) else co_num_threads opts))
             None None cancelled s of
        None \<Rightarrow> None
      | Some (result, cancelled, s) \<Rightarrow>
          Some (if cancelled = Some 0 \<or> sh_late sh then (130, [AbortRegisteredUploads, SaveMetrics], s)
                else if \<not> dr_success result then (1, [AbortRegisteredUploads, SaveMetrics], s)
                else (if all_ok result then 0 else 1,
                      [AbortRegisteredUploads] @
                        (if co_output_file opts \<noteq> [] then [WriteResults (co_output_file opts)] else []) @ [SaveMetrics],
                      s)))"

text \<open>Comparing two files, the command does not pass the signal on; it looks at it when the comparison has ended.\<close>

definition diff_files :: "('s, 'm) diff_shell_scheme \<Rightarrow> file_source \<Rightarrow> file_source \<Rightarrow> 's \<Rightarrow> 's outcome" where
  "diff_files sh a b s =
     (let (result, cancelled, s) = run_comparison (sh_create sh) (sh_crc sh) (sh_files sh) (sh_read sh)
            (diff_file_config a b) None None None s
      in Some (if sh_late sh then 130 else if \<not> cr_success result then 1 else if cr_all_match result then 0 else 1,
               [AbortRegisteredUploads, SaveMetrics], s))"

text \<open>What \<^verbatim>\<open>diff\<close> does before it compares: regions, DNS, file descriptors, and the question what the sources are.\<close>

definition diff_calls :: "diff_cli \<Rightarrow> file_source \<Rightarrow> file_source \<Rightarrow> command_call list" where
  "diff_calls opts a b =
     [LoadMetrics] @
     (if fs_type a = S3 then [WarmDns (fs_bucket a) (fs_region a) (fs_endpoint a)] else []) @
     (if fs_type b = S3 \<and> (fs_bucket b \<noteq> fs_bucket a \<or> fs_region b \<noteq> fs_region a)
      then [WarmDns (fs_bucket b) (fs_region b) (fs_endpoint b)] else []) @
     (if co_num_threads opts > 0 then [RaiseFdLimit (co_num_threads opts)] else [])"

definition diff_setup ::
  "('s, 'm) diff_shell_scheme \<Rightarrow> diff_cli \<Rightarrow> 's \<Rightarrow> bool \<times> file_source \<times> file_source \<times> bool \<times> bool \<times> 's" where
  "diff_setup sh opts s =
     (let (known, a, b, s) = auto_detect_regions (sh_locate sh) (co_source_a opts) (co_source_b opts) s in
      if \<not> known then (False, a, b, False, False, s)
      else let (is_dir_a, is_dir_b, s) = directory_sides (sh_queries sh) (sh_create sh) a b s
           in (True, a, b, is_dir_a, is_dir_b, s))"

definition diff_session :: "('s, 'm) diff_shell_scheme \<Rightarrow> diff_cli \<Rightarrow> cancel \<Rightarrow> 's \<Rightarrow> 's outcome" where
  "diff_session sh opts cancelled s =
     (let (known, a, b, is_dir_a, is_dir_b, s) = diff_setup sh opts s;
          before = map_option (\<lambda>(code, calls, s). (code, diff_calls opts a b @ calls, s)) in
      if \<not> known then Some (1, [LoadMetrics, SaveMetrics], s)
      else if co_directory_mode opts \<or> is_dir_a \<and> is_dir_b then
        if is_dir_a \<noteq> is_dir_b \<and> \<not> co_directory_mode opts then before (Some (1, [SaveMetrics], s))
        else before (diff_directories sh opts a b cancelled s)
      else before (diff_files sh a b s))"

definition run_diff_command :: "('s, 'm) diff_shell_scheme \<Rightarrow> string list \<Rightarrow> cancel \<Rightarrow> 's \<Rightarrow> 's outcome" where
  "run_diff_command sh argv cancelled s =
     (let opts = parse_args argv in
      if co_error opts then Some (2, [], s)
      else if co_help opts then Some (0, [], s)
      else if \<not> co_has_source_a opts \<or> \<not> co_has_source_b opts then Some (2, [], s)
      else guarded (diff_session sh opts cancelled s))"

section \<open>Which command runs\<close>

datatype command = PrintVersion | RunSync "string list" | RunRm "string list" | RunStats "string list"
  | RunLeftovers "string list" | RunDiff "string list"

text \<open>\<^verbatim>\<open>diff\<close> sees the arguments without its own name.\<close>

definition dispatch :: "string list \<Rightarrow> command" where
  "dispatch argv =
     (if wants_version argv then PrintVersion
      else case detect_subcommand argv of
        Sync \<Rightarrow> RunSync argv
      | Rm \<Rightarrow> RunRm argv
      | Stats \<Rightarrow> RunStats argv
      | Leftovers \<Rightarrow> RunLeftovers argv
      | Diff \<Rightarrow> RunDiff (if length argv > 1 then hd argv # drop 2 argv else argv)
      | NoCommand \<Rightarrow> RunDiff argv)"

section \<open>A command is orderly\<close>

text \<open>
  The calls a command makes between the SDK's start and its end: the metrics are loaded first and saved last, once each,
  and after the save nothing is left to do but to close.
\<close>

definition works :: "command_call \<Rightarrow> bool" where
  "works c \<longleftrightarrow> c \<notin> {InitCachedDnsHttpClient, InitAPI, LoadMetrics, SaveMetrics, ShutdownDns, ShutdownAPI}"

definition orderly :: "command_call list \<Rightarrow> bool" where
  "orderly calls \<longleftrightarrow>
     (let before = takeWhile (\<lambda>c. c \<noteq> SaveMetrics) calls; after = dropWhile (\<lambda>c. c \<noteq> SaveMetrics) calls
      in take 3 before = [InitCachedDnsHttpClient, InitAPI, LoadMetrics] \<and> list_all works (drop 3 before) \<and>
         after \<in> {[SaveMetrics, ShutdownDns, ShutdownAPI], [SaveMetrics, ShutdownAPI]})"

lemma orderlyI:
  assumes "list_all works mid" "closing \<in> {[ShutdownDns, ShutdownAPI], [ShutdownAPI]}"
  shows "orderly ([InitCachedDnsHttpClient, InitAPI, LoadMetrics] @ mid @ [SaveMetrics] @ closing)"
proof -
  have "c \<noteq> SaveMetrics" if "c \<in> set mid" for c using assms(1) that by (auto simp: list_all_iff works_def)
  then have "takeWhile (\<lambda>c. c \<noteq> SaveMetrics) (mid @ SaveMetrics # closing) = mid"
    "dropWhile (\<lambda>c. c \<noteq> SaveMetrics) (mid @ SaveMetrics # closing) = SaveMetrics # closing"
    by (simp_all add: takeWhile_append2 dropWhile_append2)
  with assms show ?thesis by (auto simp: orderly_def Let_def)
qed

text \<open>What a session under the guard has to do.\<close>

definition session_calls :: "command_call list \<Rightarrow> bool" where
  "session_calls calls \<longleftrightarrow> (\<exists>mid. calls = [LoadMetrics] @ mid @ [SaveMetrics] \<and> list_all works mid)"

lemma session_callsI: "list_all works mid \<Longrightarrow> calls = [LoadMetrics] @ mid @ [SaveMetrics] \<Longrightarrow> session_calls calls"
  unfolding session_calls_def by blast

lemma guarded_orderly:
  assumes "guarded run = Some (code, calls, w)" "\<And>code calls w. run = Some (code, calls, w) \<Longrightarrow> session_calls calls"
  shows "calls \<noteq> [] \<and> orderly calls"
proof -
  from assms(1) obtain calls' where c: "run = Some (code, calls', w)"
    "calls = [InitCachedDnsHttpClient, InitAPI] @ calls' @ [ShutdownDns, ShutdownAPI]"
    by (auto simp: guarded_def)
  with assms(2) obtain mid where "calls' = [LoadMetrics] @ mid @ [SaveMetrics]" "list_all works mid"
    by (auto simp: session_calls_def)
  with c(2) orderlyI [of mid "[ShutdownDns, ShutdownAPI]"] show ?thesis by simp
qed

lemma rm_session_calls: "rm_session sh opts c s = Some (code, calls, s') \<Longrightarrow> session_calls calls"
  by (auto simp: rm_session_def works_def split: prod.splits if_splits option.splits
      intro: session_callsI [of "[]"] session_callsI [of "[RaiseFdLimit n]" for n])

lemma sync_session_calls:
  assumes "sync_session sh opts c fs s = Some (code, calls, w)"
  shows "session_calls calls"
proof -
  obtain known a b s1 where r: "sync_regions (sh_locate sh) opts s = (known, a, b, s1)" by (metis prod_cases4)
  show ?thesis
  proof (cases known)
    case False
    with assms r show ?thesis by (auto simp: sync_session_def intro: session_callsI [of "[]"])
  next
    case True
    with assms r have "calls = [LoadMetrics] @ (tl (butlast calls)) @ [SaveMetrics]" "list_all works (tl (butlast calls))"
      by (auto simp: sync_session_def Let_def works_def butlast_append split: option.splits)
    then show ?thesis by (rule session_callsI [rotated])
  qed
qed

lemma diff_session_calls:
  assumes "diff_session sh opts c s = Some (code, calls, s')"
  shows "session_calls calls"
proof -
  obtain known a b da db s1 where r: "diff_setup sh opts s = (known, a, b, da, db, s1)" by (metis prod_cases6)
  define before where "before = tl (diff_calls opts a b)"
  have b: "diff_calls opts a b = LoadMetrics # before" "list_all works before"
    by (auto simp: before_def diff_calls_def works_def)
  have dirs: "diff_directories sh opts a b c s1 = Some (code1, calls1, s2) \<Longrightarrow>
      \<exists>mid. calls1 = mid @ [SaveMetrics] \<and> list_all works mid" for code1 calls1 s2
    by (auto simp: diff_directories_def works_def split: option.splits if_splits)
  have files: "diff_files sh a b s1 = Some (code1, calls1, s2) \<Longrightarrow>
      \<exists>mid. calls1 = mid @ [SaveMetrics] \<and> list_all works mid" for code1 calls1 s2
    by (auto simp: diff_files_def works_def split: prod.splits)
  show ?thesis
  proof (cases known)
    case False
    with assms r show ?thesis by (auto simp: diff_session_def intro: session_callsI [of "[]"])
  next
    case True
    with assms r obtain calls1 mid where "calls = diff_calls opts a b @ calls1" "calls1 = mid @ [SaveMetrics]"
      "list_all works mid"
      by (auto simp: diff_session_def Let_def split: if_splits dest!: dirs files)
    with b session_callsI [of "before @ mid"] show ?thesis by simp
  qed
qed

lemma leftovers_session_orderly:
  "leftovers_session sh cfg s = Some (code, calls, s') \<Longrightarrow> calls \<noteq> [] \<and> orderly calls"
  using orderlyI [of "[]" "[ShutdownAPI]"] orderlyI [of "[AddRegion r]" "[ShutdownAPI]" for r]
  by (auto simp: leftovers_session_def Let_def works_def split: prod.splits if_splits option.splits)

text \<open>
  every command, on whichever path it ends, either never started the SDK and left the store as it was, with status
  0 for help and 1 or 2 for an error, or ran an orderly session: the metrics of earlier runs are loaded before anything is
  asked of the service, and saved after the last of it and before the SDK is closed.
\<close>

theorem commands_are_orderly:
  "(case run_rm_command sh argv c s of None \<Rightarrow> True
    | Some (code, calls, s') \<Rightarrow> if calls = [] then s' = s \<and> code \<in> {0, 2} else orderly calls) \<and>
   (case run_leftovers_command sh argv s of None \<Rightarrow> True
    | Some (code, calls, s') \<Rightarrow> if calls = [] then s' = s \<and> code \<in> {0, 2} else orderly calls) \<and>
   (case run_diff_command dsh argv c s of None \<Rightarrow> True
    | Some (code, calls, s') \<Rightarrow> if calls = [] then s' = s \<and> code \<in> {0, 2} else orderly calls) \<and>
   (case run_sync_command ssh argv c fs s of None \<Rightarrow> True
    | Some (code, calls, fs', s') \<Rightarrow> if calls = [] then s' = s \<and> code \<in> {0, 1, 2} else orderly calls)"
proof (intro conjI)
  show "case run_rm_command sh argv c s of None \<Rightarrow> True
    | Some (code, calls, s') \<Rightarrow> if calls = [] then s' = s \<and> code \<in> {0, 2} else orderly calls"
    by (auto simp: run_rm_command_def Let_def split: option.splits dest: guarded_orderly [OF _ rm_session_calls])
  show "case run_leftovers_command sh argv s of None \<Rightarrow> True
    | Some (code, calls, s') \<Rightarrow> if calls = [] then s' = s \<and> code \<in> {0, 2} else orderly calls"
    by (auto simp: run_leftovers_command_def Let_def split: option.splits dest: leftovers_session_orderly)
  show "case run_diff_command dsh argv c s of None \<Rightarrow> True
    | Some (code, calls, s') \<Rightarrow> if calls = [] then s' = s \<and> code \<in> {0, 2} else orderly calls"
    by (auto simp: run_diff_command_def Let_def split: option.splits dest: guarded_orderly [OF _ diff_session_calls])
  have side: "local_side h opts fs = (Some code, fs') \<Longrightarrow> code \<in> {1, 2}" for h opts code fs'
    by (auto simp: local_side_def Let_def split: sync_direction.splits sum.splits prod.splits if_splits)
  show "case run_sync_command ssh argv c fs s of None \<Rightarrow> True
    | Some (code, calls, fs', s') \<Rightarrow> if calls = [] then s' = s \<and> code \<in> {0, 1, 2} else orderly calls"
    by (auto simp: run_sync_command_def Let_def split: option.splits prod.splits
        dest: side guarded_orderly [OF _ sync_session_calls])
qed

section \<open>diff: status 0 means equal\<close>

text \<open>Two sources have the same content, as far as a checksum of every chunk can tell.\<close>

definition same_content :: "zng_crc \<Rightarrow> local_files \<Rightarrow> store_view \<Rightarrow> file_source \<Rightarrow> file_source \<Rightarrow> bool" where
  "same_content z files v a b \<longleftrightarrow>
     (case (source_content files v a, source_content files v b) of
        (Some x, Some y) \<Rightarrow> x = y \<or> crc_collision z (8 * 1024 * 1024) x y
      | _ \<Rightarrow> False)"

text \<open>Two trees are the same: both were listed to the end, name the same files, and these have the same contents.\<close>

definition same_trees ::
  "('s \<Rightarrow> store_view) \<Rightarrow> ('s, 'm) diff_shell_scheme \<Rightarrow> dir_config \<Rightarrow> cancel \<Rightarrow> 's \<Rightarrow> bool" where
  "same_trees objects sh cfg c s \<longleftrightarrow>
     (case dir_clients (sh_create sh) cfg None None of
        Inl e \<Rightarrow> False
      | Inr (ca, cb) \<Rightarrow>
          (case list_both (sh_fuel sh) (sh_queries sh) cfg ca cb c s of
             None \<Rightarrow> False
           | Some (xs, complete_a, ys, complete_b, c1, s1) \<Rightarrow>
               complete_a \<and> complete_b \<and> de_path ` set xs = de_path ` set ys \<and>
               list_all (\<lambda>p. same_content (sh_crc sh) (sh_files sh) (objects s)
                   (make_file_source (dc_source_a cfg) p) (make_file_source (dc_source_b cfg) p)) (map de_path xs)))"

lemma all_ok_same:
  assumes "all_ok r" "fr_path ` set (dr_files r) = de_path ` (set xs \<union> set ys)"
    "list_all (right_verdict z files v cfg xs ys) (dr_files r)" "dr_mismatched r = status_count Mismatch (dr_files r)"
    "dr_errors r = status_count CompareError (dr_files r)" "dc_chunk_size cfg = 8 * 1024 * 1024"
  shows "de_path ` set xs = de_path ` set ys \<and>
    list_all (\<lambda>p. same_content z files v (make_file_source (dc_source_a cfg) p) (make_file_source (dc_source_b cfg) p))
      (map de_path xs)"
proof -
  have both: "p \<in> de_path ` set xs \<and> p \<in> de_path ` set ys \<and>
      same_content z files v (make_file_source (dc_source_a cfg) p) (make_file_source (dc_source_b cfg) p)"
    if "p \<in> de_path ` (set xs \<union> set ys)" for p
  proof -
    from that assms(2) obtain f where f: "f \<in> set (dr_files r)" "fr_path f = p" by (metis imageE)
    with assms(3) have v: "right_verdict z files v cfg xs ys f" by (simp add: list_all_iff)
    from assms(1,4,5) f(1) have "fr_status f \<noteq> Mismatch" "fr_status f \<noteq> CompareError"
      by (auto simp: all_ok_def status_count_def filter_empty_conv)
    with v f(2) assms(6) show ?thesis
      by (auto simp: right_verdict_def Let_def same_content_def split: if_splits compare_status.splits)
  qed
  then show ?thesis by (auto simp: list_all_iff)
qed

lemma made_dir_clients:
  assumes "dir_clients create cfg None None = Inr (a, b)" "makes_good_clients objects z create"
    and "plain_bucket (dc_source_a cfg)" "plain_bucket (dc_source_b cfg)"
  shows "good_client objects z (dc_source_a cfg) a \<and> good_client objects z (dc_source_b cfg) b"
proof -
  let ?made = "\<lambda>cl. \<exists>region endpoint n profile. cl = create region endpoint n profile \<and> cl \<noteq> None"
  have a: "fs_type (dc_source_a cfg) = S3 \<Longrightarrow> ?made a"
    using assms(1) by (auto simp: dir_clients_def Let_def Option.is_none_def split: if_splits option.splits
        dest: sym [of "Some _"])
  have "fs_type (dc_source_b cfg) = S3 \<Longrightarrow> ?made b"
    using assms(1)
    by (auto simp: dir_clients_def Let_def Option.is_none_def should_reuse_s3_client_def split: if_splits option.splits
        dest: sym [of "Some _"])
  with a made_client_good [OF assms(2,3)] made_client_good [OF assms(2,4)] show ?thesis by blast
qed

lemma diff_directories_zero:
  assumes "diff_directories sh opts a b c s = Some (0, calls, s')"
    and "makes_good_clients objects (sh_crc sh) (sh_create sh)" "plain_bucket a" "plain_bucket b"
    and "chaining_crc (sh_crc sh)" "stable_files (sh_files sh) (sh_read sh)" "\<And>ps. mset (sh_order sh ps) = mset ps"
  shows "\<exists>threads. same_trees objects sh (diff_dir_config opts a b threads) c s"
proof -
  define cfg where "cfg = diff_dir_config opts a b
    (if co_num_threads opts > 0 then allowed_threads sh (co_num_threads opts) else co_num_threads opts)"
  have sel: "dc_source_a cfg = a" "dc_source_b cfg = b" "dc_chunk_size cfg = 8 * 1024 * 1024"
    by (simp_all add: cfg_def diff_dir_config_def)
  from assms(1) obtain r c' s1 where
    run: "run_directory_comparison (sh_fuel sh) (sh_queries sh) (sh_create sh) (sh_crc sh) (sh_files sh) (sh_read sh)
        (sh_order sh) cfg None None c s = Some (r, c', s1)" and ok: "dr_success r" "all_ok r"
    by (auto simp: diff_directories_def cfg_def split: option.splits if_splits)
  from run ok(1) obtain ca cb where cl: "dir_clients (sh_create sh) cfg None None = Inr (ca, cb)"
    by (auto simp: run_directory_comparison_def default_dir_result_def split: sum.splits)
  from made_dir_clients [OF this assms(2)] assms(3-6)
  have "comparable objects (sh_crc sh) (sh_files sh) (sh_read sh) cfg ca cb" by (simp add: comparable_def sel)
  from directory_comparison_reports [OF this assms(7) run [unfolded run_with_its_clients [OF cl]] ok(1)]
  obtain xs ys c1 s2 where l: "list_both (sh_fuel sh) (sh_queries sh) cfg ca cb c s = Some (xs, True, ys, True, c1, s2)"
    and rep: "fr_path ` set (dr_files r) = de_path ` (set xs \<union> set ys)"
      "list_all (right_verdict (sh_crc sh) (sh_files sh) (objects s) cfg xs ys) (dr_files r)"
      "dr_mismatched r = status_count Mismatch (dr_files r)" "dr_errors r = status_count CompareError (dr_files r)"
    by (auto split: option.splits)
  from all_ok_same [OF ok(2) rep sel(3)] have "same_trees objects sh cfg c s"
    by (simp add: same_trees_def cl l)
  then show ?thesis unfolding cfg_def by blast
qed

lemma diff_files_zero:
  assumes "diff_files sh a b s = Some (0, calls, s')"
    and "makes_good_clients objects (sh_crc sh) (sh_create sh)" "plain_bucket a" "plain_bucket b"
    and "chaining_crc (sh_crc sh)" "stable_files (sh_files sh) (sh_read sh)"
  shows "same_content (sh_crc sh) (sh_files sh) (objects s) a b"
proof -
  obtain r c' s1 where run: "run_comparison (sh_create sh) (sh_crc sh) (sh_files sh) (sh_read sh)
      (diff_file_config a b) None None None s = (r, c', s1)" by (metis prod_cases3)
  with assms(1) have ok: "cr_success r" "cr_all_match r" by (auto simp: diff_files_def split: if_splits)
  have sel: "cc_source_a (diff_file_config a b) = a" "cc_source_b (diff_file_config a b) = b"
    "cc_chunk_ids (diff_file_config a b) = []" "cc_chunk_size (diff_file_config a b) = 8 * 1024 * 1024"
    by (simp_all add: diff_file_config_def)
  from run_comparison_made [OF run ok(1) assms(2)] assms(3-6) obtain x y r0 where
    xy: "source_content (sh_files sh) (objects s) a = Some x" "source_content (sh_files sh) (objects s) b = Some y"
      "r = compare_crcs (map (crc32_hw (sh_crc sh)) (chunks (8 * 1024 * 1024) x))
         (map (crc32_hw (sh_crc sh)) (chunks (8 * 1024 * 1024) y)) r0"
    by (auto simp: sel)
  from ok(2) xy(3) have "map (crc32_hw (sh_crc sh)) (chunks (8 * 1024 * 1024) x) =
      map (crc32_hw (sh_crc sh)) (chunks (8 * 1024 * 1024) y)" by (simp add: compare_crcs_exact)
  from equal_crcs [OF this] xy(1,2) show ?thesis by (simp add: same_content_def)
qed

text \<open>Before it compares, \<^verbatim>\<open>diff\<close> only reads.\<close>

definition only_locates :: "('s \<Rightarrow> store_view) \<Rightarrow> 's locator \<Rightarrow> bool" where
  "only_locates objects locate \<longleftrightarrow> (\<forall>b p s. objects (snd (locate b p s)) = objects s)"

definition is_source :: "file_source \<Rightarrow> file_source \<Rightarrow> bool" where
  "is_source src x \<longleftrightarrow> (\<exists>region. x = src\<lparr>fs_region := region\<rparr>)"

lemma is_sourceI [intro]: "is_source src (src\<lparr>fs_region := region\<rparr>)" "is_source src src"
  unfolding is_source_def by (blast, metis file_source.surjective file_source.update_convs(4))

lemma is_source_plain: "is_source src x \<Longrightarrow> plain_bucket x = plain_bucket src"
  by (auto simp: is_source_def plain_bucket_def)

lemma only_locatesD: "locate b p s = (x, s') \<Longrightarrow> only_locates objects locate \<Longrightarrow> objects s' = objects s"
  unfolding only_locates_def by (metis snd_conv)

lemma probe_region_reads:
  "probe_region locate src s = (x, s') \<Longrightarrow> only_locates objects locate \<Longrightarrow> objects s' = objects s \<and> is_source src x"
  by (auto simp: probe_region_def detect_bucket_region_def split: if_splits prod.splits option.splits
      dest: only_locatesD)

lemma is_s3_prefix_reads:
  assumes "is_s3_prefix create src s = (x, s')" "makes_good_clients objects z create"
  shows "objects s' = objects s"
  using assms object_store.size_reads
  by (fastforce simp: is_s3_prefix_def makes_good_clients_def chunk_crc_store_def split: if_splits option.splits prod.splits)

lemma auto_detect_reads:
  assumes "auto_detect_regions locate a b s = (known, a', b', s')" "only_locates objects locate"
  shows "objects s' = objects s \<and> is_source a a' \<and> is_source b b'"
  using assms(1)
  by (auto simp: auto_detect_regions_def Let_def split: if_splits prod.splits
      dest!: probe_region_reads [OF _ assms(2)])

lemma directory_sides_reads:
  assumes "directory_sides fq create a b s = (da, db, s')" "makes_good_clients objects z create"
  shows "objects s' = objects s"
  using assms(1)
  by (auto simp: directory_sides_def Let_def split: if_splits prod.splits
      dest!: is_s3_prefix_reads [OF _ assms(2)])

lemma diff_setup_reads:
  assumes "diff_setup sh opts s = (known, a, b, da, db, s')" "only_locates objects (sh_locate sh)"
    "makes_good_clients objects z (sh_create sh)"
  shows "objects s' = objects s \<and> is_source (co_source_a opts) a \<and> is_source (co_source_b opts) b"
  using assms(1)
  by (auto simp: diff_setup_def Let_def split: if_splits prod.splits
      dest!: auto_detect_reads [OF _ assms(2)] directory_sides_reads [OF _ assms(3)])

text \<open>
  \<^verbatim>\<open>mito diff a b && echo identical\<close>: when a run of \<^verbatim>\<open>diff\<close> exits with 0 and was not a call for help, then either
  both sides were taken as directories, or \<^verbatim>\<open>-D\<close> was given, and the two complete listings name the same files with the
  same contents, or they were taken as files and have the same content; contents are compared chunk by chunk, so that
  two different chunks with one checksum are the one way to be told a difference is none.  The clients the command
  makes have to honour the contract of the store, the files must not change meanwhile, and bucket names have no slash.
\<close>

theorem diff_exit_zero:
  assumes "makes_good_clients objects (sh_crc sh) (sh_create sh)" "only_locates objects (sh_locate sh)"
    and "chaining_crc (sh_crc sh)" "stable_files (sh_files sh) (sh_read sh)" "\<And>ps. mset (sh_order sh ps) = mset ps"
    and "plain_bucket (co_source_a (parse_args argv))" "plain_bucket (co_source_b (parse_args argv))"
    and "run_diff_command sh argv c s = Some (0, calls, s')" "\<not> co_help (parse_args argv)"
  shows "case diff_setup sh (parse_args argv) s of (known, a, b, is_dir_a, is_dir_b, s1) \<Rightarrow>
      known \<and> objects s1 = objects s \<and> is_source (co_source_a (parse_args argv)) a \<and>
      is_source (co_source_b (parse_args argv)) b \<and>
      (if co_directory_mode (parse_args argv) \<or> is_dir_a \<and> is_dir_b
       then \<exists>threads. same_trees objects sh (diff_dir_config (parse_args argv) a b threads) c s1
       else same_content (sh_crc sh) (sh_files sh) (objects s1) a b)"
proof -
  let ?opts = "parse_args argv"
  obtain known a b da db s1 where r: "diff_setup sh ?opts s = (known, a, b, da, db, s1)" by (metis prod_cases6)
  note reads = diff_setup_reads [OF r assms(2,1)]
  with assms(6,7) have plain: "plain_bucket a" "plain_bucket b"
    using is_source_plain [of _ a] is_source_plain [of _ b] by blast+
  from assms(8,9) obtain calls1 where ses: "diff_session sh ?opts c s = Some (0, calls1, s')"
    by (auto simp: run_diff_command_def Let_def guarded_def split: if_splits)
  have known using ses r by (auto simp: diff_session_def Let_def split: if_splits)
  moreover have "\<exists>threads. same_trees objects sh (diff_dir_config ?opts a b threads) c s1"
    if "co_directory_mode ?opts \<or> da \<and> db"
    using ses r \<open>known\<close> that diff_directories_zero [OF _ assms(1) plain assms(3-5)]
    by (fastforce simp: diff_session_def Let_def split: if_splits)
  moreover have "same_content (sh_crc sh) (sh_files sh) (objects s1) a b" if "\<not> (co_directory_mode ?opts \<or> da \<and> db)"
    using ses r \<open>known\<close> that diff_files_zero [OF _ assms(1) plain assms(3,4)]
    by (fastforce simp: diff_session_def Let_def split: if_splits)
  ultimately show ?thesis using r reads by simp
qed

definition local_shell :: "mock diff_shell" where
  "local_shell = \<lparr>sh_fuel = 3, sh_create = (\<lambda>_ _ _ _. None), sh_locate = (\<lambda>_ _ s. (None, s)), sh_limits = None,
     sh_settable = (\<lambda>_. True), sh_late = False, sh_now = 0, sh_queries = flat_queries\<lparr>fq_is_directory := (\<lambda>_. False)\<rparr>,
     sh_crc = ieee_crc32, sh_files = (\<lambda>_. Some [1, 2, 3]), sh_read = (\<lambda>_. pread_of [1, 2, 3]), sh_order = rev\<rparr>"

lemma local_shell_sel [simp]:
  "sh_create local_shell = (\<lambda>_ _ _ _. None)" "sh_crc local_shell = ieee_crc32" "sh_files local_shell = (\<lambda>_. Some [1, 2, 3])"
  "sh_read local_shell = (\<lambda>_. pread_of [1, 2, 3])" "sh_order local_shell = rev" "\<not> sh_late local_shell"
  "fq_is_directory (sh_queries local_shell) p \<longleftrightarrow> False" "sh_locate local_shell = (\<lambda>_ _ s. (None, s))"
  by (simp_all add: local_shell_def)

abbreviation local_source :: "string \<Rightarrow> file_source" where
  "local_source p \<equiv> default_file_source\<lparr>fs_path := p\<rparr>"

lemma diff_x_y:
  "parse_args [''mito'', ''x'', ''y''] = default_diff_cli\<lparr>co_source_a := local_source ''x'',
     co_source_b := local_source ''y'', co_has_source_a := True, co_has_source_b := True\<rparr>"
  by code_simp

lemma diff_x_y_flags:
  "\<not> co_error (parse_args [''mito'', ''x'', ''y''])" "\<not> co_help (parse_args [''mito'', ''x'', ''y''])"
  "co_has_source_a (parse_args [''mito'', ''x'', ''y''])" "co_has_source_b (parse_args [''mito'', ''x'', ''y''])"
  "\<not> co_directory_mode (parse_args [''mito'', ''x'', ''y''])"
  by (simp_all add: diff_x_y default_diff_cli_def)

lemma diff_x_y_setup:
  "diff_setup local_shell (parse_args [''mito'', ''x'', ''y'']) s =
     (True, local_source ''x'', local_source ''y'', False, False, s)"
  by (simp add: diff_setup_def auto_detect_regions_def directory_sides_def is_directory_source_def diff_x_y
      default_diff_cli_def)

lemma diff_x_y_files: "\<exists>calls s'. diff_files local_shell (local_source ''x'') (local_source ''y'') s = Some (0, calls, s')"
proof -
  have crcs: "compute_crc32_chunks ieee_crc32 (pread_of [1, 2, 3]) (Some 3) [] 8388608 =
      map (\<lambda>i. crc32_hw ieee_crc32 (chunk_bytes 8388608 [1, 2, 3] i)) [0 .. 0]"
    using compute_crc32_chunks_id [OF ieee.chaining_crc_axioms reads_file_pread_of, of 8388608 "[1, 2, 3]"]
    by (simp add: ceil_div_def)
  show ?thesis
    by (simp add: diff_files_def run_comparison_def diff_file_config_def get_source_size_def default_file_source_def
        GetLocalFileSize_def compute_source_crcs_def crcs compare_crcs_def Let_def comparison_clients_def)
qed

theorem diff_exit_zero_witness:
  "(\<exists>calls s'. run_diff_command local_shell [''mito'', ''x'', ''y''] None empty_mock = Some (0, calls, s')) \<and>
   same_content ieee_crc32 (\<lambda>_. Some [1, 2, 3]) (mock_objects_view empty_mock) (local_source ''x'') (local_source ''y'')"
proof -
  let ?argv = "[''mito'', ''x'', ''y'']"
  obtain calls s' where "diff_files local_shell (local_source ''x'') (local_source ''y'') empty_mock = Some (0, calls, s')"
    using diff_x_y_files by blast
  then obtain calls where run: "run_diff_command local_shell ?argv None empty_mock = Some (0, calls, s')"
    using diff_x_y_flags by (simp add: run_diff_command_def diff_session_def Let_def diff_x_y_setup guarded_def)
  have "makes_good_clients mock_objects_view ieee_crc32 (sh_create local_shell)" by (simp add: makes_good_clients_def)
  moreover have "only_locates mock_objects_view (sh_locate local_shell)" by (simp add: only_locates_def)
  moreover have "stable_files (\<lambda>_. Some [1, 2, 3]) (\<lambda>_. pread_of [1, 2, 3])" by (simp add: stable_files_def reads_file_pread_of)
  moreover have "plain_bucket (co_source_a (parse_args ?argv))" "plain_bucket (co_source_b (parse_args ?argv))"
    "\<not> co_help (parse_args ?argv)"
    by (simp_all add: diff_x_y default_diff_cli_def plain_bucket_def)
  ultimately show ?thesis
    using diff_exit_zero [of mock_objects_view local_shell ?argv None empty_mock calls s'] run
    by (simp add: ieee.chaining_crc_axioms diff_x_y_setup)
      (simp add: diff_x_y default_diff_cli_def)
qed

section \<open>rm: status 0 for one object\<close>

lemma run_rm_one:
  assumes "run_rm fuel create cfg None c s = Some (r, c', s')" "rr_error r = []" "rr_objects_failed r = 0"
    and "\<And>region endpoint n profile cl. create region endpoint n profile = Some cl \<Longrightarrow> object_store cl objects"
    and "\<not> rc_recursive cfg"
  shows "objects s' = (if rc_force cfg then (objects s)((rc_bucket cfg, rc_prefix cfg) := None) else objects s)"
proof -
  from assms(1,2) obtain client where cl: "create (rc_region cfg) (rc_endpoint cfg) 128 [] = Some client"
    by (auto simp: run_rm_def default_rm_result_def split: option.splits)
  note store = assms(4) [OF this]
  obtain target s1 where t: "rm_resolve client cfg s = (target, s1)" by fastforce
  have s1: "objects s1 = objects s" using object_store.rm_resolve_reads [OF store t] .
  have "\<not> (\<exists>m. target = RmStop m \<and> m = [])"
    using t by (auto simp: rm_resolve_def unclear_message_def Let_def split: if_splits prod.splits s3_presence.splits)
  with assms(1,2,5) cl t obtain n where n: "target = RmFile n" "rm_file client cfg n s1 = (r, s')"
    by (auto simp: run_rm_def default_rm_result_def split: rm_target.splits prod.splits)
  obtain ws s2 where w: "rm_file_warnings client cfg s1 = (ws, s2)" by fastforce
  have s2: "objects s2 = objects s1" using object_store.rm_file_warnings_reads [OF store w] .
  obtain ok s3 where d: "DeleteObject client (rc_bucket cfg) (rc_prefix cfg) s2 = (ok, s3)" by fastforce
  show ?thesis
  proof (cases "rc_force cfg")
    case True
    with n(2) w d assms(3) have "ok" "s' = s3"
      by (auto simp: rm_file_def Let_def default_rm_result_def split: if_splits)
    with object_store.delete_ok [OF store, of _ _ s2 s3] d s1 s2 True show ?thesis by simp
  next
    case False
    with n(2) w s1 s2 show ?thesis by (auto simp: rm_file_def Let_def)
  qed
qed

text \<open>
  \<^verbatim>\<open>mito rm s3://bucket/key\<close>, without \<^verbatim>\<open>-r\<close>: a run that exits with 0 and was not a call for help has deleted that
  object, with \<^verbatim>\<open>-f\<close>, and nothing else; and without \<^verbatim>\<open>-f\<close> nothing at all.
\<close>

theorem rm_exit_zero:
  assumes "\<And>region endpoint n profile cl. sh_create sh region endpoint n profile = Some cl \<Longrightarrow> object_store cl objects"
    and "only_locates objects (sh_locate sh)"
    and "run_rm_command sh argv c s = Some (0, calls, s')"
    and "\<not> ro_recursive (parse_rm_args argv)" "\<not> ro_help (parse_rm_args argv)"
  shows "objects s' = (if ro_force (parse_rm_args argv)
      then (objects s)((ro_bucket (parse_rm_args argv), ro_prefix (parse_rm_args argv)) := None) else objects s)"
proof -
  let ?opts = "parse_rm_args argv"
  from assms(3,5) obtain calls1 where ses: "rm_session sh ?opts c s = Some (0, calls1, s')"
    by (auto simp: run_rm_command_def Let_def guarded_def split: if_splits)
  obtain region s1 where r: "(if ro_region ?opts = []
      then detect_bucket_region (sh_locate sh) (ro_bucket ?opts) [] (ro_endpoint_url ?opts) s
      else (ro_region ?opts, s)) = (region, s1)" by fastforce
  have s1: "objects s1 = objects s"
    using r by (auto simp: detect_bucket_region_def split: if_splits prod.splits option.splits
        dest: only_locatesD [OF _ assms(2)])
  define cfg where "cfg = rm_config_of ?opts region (allowed_threads sh (ro_num_threads ?opts))"
  have sel: "rc_bucket cfg = ro_bucket ?opts" "rc_prefix cfg = ro_prefix ?opts" "rc_force cfg = ro_force ?opts"
    "rc_recursive cfg = ro_recursive ?opts" by (simp_all add: cfg_def rm_config_of_def)
  from ses [unfolded rm_session_def r Let_def prod.case] obtain res c' where
    run: "run_rm (sh_fuel sh) (sh_create sh) cfg None c s1 = Some (res, c', s')"
    and ok: "rr_error res = []" "rr_objects_failed res = 0"
    by (auto simp: cfg_def rm_exit_def split: if_splits option.splits)
  from run_rm_one [OF run ok assms(1)] assms(4) sel s1 show ?thesis by simp
qed

definition mock_shell :: "mock shell" where
  "mock_shell = \<lparr>sh_fuel = 3, sh_create = (\<lambda>_ _ _ _. Some (mock_client ieee_crc32 (\<lambda>_. []))),
     sh_locate = (\<lambda>_ _ s. (Some ''EU'', s)), sh_limits = None, sh_settable = (\<lambda>_. True), sh_late = False, sh_now = 0\<rparr>"

definition rm_x :: "string list" where
  "rm_x = [''mito'', ''rm'', ''s3://b/p/x'', ''-f'']"

lemma rm_x_opts:
  "parse_rm_args rm_x = default_rm_cli\<lparr>ro_s3_url := ''s3://b/p/x'', ro_bucket := ''b'', ro_prefix := ''p/x'',
     ro_force := True\<rparr>"
  by code_simp

theorem rm_exit_zero_witness:
  "\<exists>calls s'. run_rm_command mock_shell rm_x None two_objects = Some (0, calls, s') \<and>
     mock_objects_view s' = (mock_objects_view two_objects)((''b'', ''p/x'') := None)"
proof -
  have "case run_rm_command mock_shell rm_x None two_objects of None \<Rightarrow> False | Some (code, calls, s') \<Rightarrow> code = 0"
    by code_simp
  then obtain calls s' where run: "run_rm_command mock_shell rm_x None two_objects = Some (0, calls, s')"
    by (auto split: option.splits)
  have "mock_objects_view s' = (mock_objects_view two_objects)((''b'', ''p/x'') := None)"
    using rm_exit_zero [where objects = mock_objects_view, OF _ _ run] mock_store.object_store_axioms
    by (simp add: mock_shell_def only_locates_def rm_x_opts default_rm_cli_def)
  with run show ?thesis by blast
qed

section \<open>stats: a reset lasts\<close>

text \<open>
  after \<^verbatim>\<open>mito stats --reset\<close> has exited with 0, the next run loads no counts and no regions, whatever the file held
  before; and when the cleared metrics could not be saved the status is 1.
\<close>

theorem stats_reset_lasts:
  assumes "\<And>j d. dump j = Some d \<Longrightarrow> parse d = Some j" "\<forall>name \<in> set names. CHR ''/'' \<notin> set name"
    and "stats_args False False (drop 2 argv) = Inr (True, json_output)"
    and "run_stats_command parse dump names chosen now path argv m fs = (code, m1, fs1)"
    and "load_metrics parse path m0 (fs1\<lparr>lf_script := [], lf_alive := True\<rparr>) = (ok, m2, fs2)" "op1 \<noteq> OpCOUNT"
  shows "code \<in> {0, 1} \<and> (if code = 1 then True else ok \<and> cm_regions m2 = [] \<and> op_tally (cm_metrics m2 op1) = zero_tallies)"
proof -
  obtain loaded ma fsa where l: "load_metrics parse path m fs = (loaded, ma, fsa)" by (metis prod_cases3)
  obtain saved fsb where sv: "save_metrics dump names chosen now path (clear_metrics ma) fsa = (saved, fsb)" by fastforce
  from assms(3,4) l sv have c: "code = (if saved then 0 else 1)" "fs1 = fsb"
    by (auto simp: run_stats_command_def)
  show ?thesis
  proof (cases saved)
    case True
    have none: "kept_tally (clear_metrics ma) op1 = zero_tallies" "cm_regions (clear_metrics ma) = []"
      using assms(6) by (simp_all add: kept_tally_def clear_metrics_def zero_metrics_def)
    from load_after_save [OF _ assms(2,1) assms(5)] sv c(2) True assms(6) none c(1) show ?thesis by auto
  qed (use c in simp)
qed

theorem stats_reset_lasts_witness:
  "\<exists>dump parse m1 fs1 m2 fs2.
     run_stats_command parse dump [''m'', ''m.tmp.old''] ''abc'' ''now'' ''/d/m'' [''mito'', ''stats'', ''--reset'']
       fresh_metrics (metrics_disk []) = (0, m1, fs1) \<and>
     load_metrics parse ''/d/m'' earlier_metrics (fs1\<lparr>lf_script := [], lf_alive := True\<rparr>) = (True, m2, fs2) \<and>
     cm_regions m2 = [] \<and> op_tally (cm_metrics m2 OpHeadObject) = zero_tallies"
proof -
  let ?argv = "[''mito'', ''stats'', ''--reset'']"
  define new where "new = save_doc ''now'' (clear_metrics fresh_metrics)"
  define dump where "dump = (\<lambda>j. if j = new then Some [2 :: byte] else None)"
  define parse where "parse = (\<lambda>d. if d = [2 :: byte] then Some new else None)"
  have law: "parse d = Some j" if "dump j = Some d" for j d
    using that by (auto simp: dump_def parse_def split: if_splits)
  have load: "load_metrics parse ''/d/m'' fresh_metrics (metrics_disk []) = (False, fresh_metrics, metrics_disk [])"
    by (simp add: load_metrics_def read_whole_file_def sys_call_def metrics_disk_def parse_def)
  have "fst (save_metrics dump [''m'', ''m.tmp.old''] ''abc'' ''now'' ''/d/m'' (clear_metrics fresh_metrics) (metrics_disk []))"
    by (rule undisturbed_save [where content = "[2]"]) (simp_all add: undisturbed_def metrics_disk_def dump_def new_def)
  then obtain fs1 where save: "save_metrics dump [''m'', ''m.tmp.old''] ''abc'' ''now'' ''/d/m'' (clear_metrics fresh_metrics)
      (metrics_disk []) = (True, fs1)"
    using fst_TrueE by blast
  then have run: "run_stats_command parse dump [''m'', ''m.tmp.old''] ''abc'' ''now'' ''/d/m'' ?argv fresh_metrics (metrics_disk [])
      = (0, clear_metrics fresh_metrics, fs1)"
    by (simp add: run_stats_command_def load)
  obtain ok m2 fs2 where load2: "load_metrics parse ''/d/m'' earlier_metrics (fs1\<lparr>lf_script := [], lf_alive := True\<rparr>) = (ok, m2, fs2)"
    by (metis prod_cases3)
  have "ok \<and> cm_regions m2 = [] \<and> op_tally (cm_metrics m2 OpHeadObject) = zero_tallies"
    using stats_reset_lasts [OF law _ _ run load2, of False OpHeadObject] by simp
  with run load2 show ?thesis by (intro exI conjI) auto
qed

end
