(* ===== verification/S3_Sdk.thy ===== *)
theory S3_Sdk
  imports S3_Interface Checksums
begin

text \<open>
  What s3_client_impl.cpp and s3_utils.cpp use of the AWS SDK, as a parameter: a record of the requests
  they send over the state \<open>'w\<close> of the service.  A request ends in a success, in an error of the
  service or in an exception.  The fields of a request are its arguments, headers as the strings
  the code builds.  The second half of the theory is the part of s3_utils.cpp that reads errors, and
  the retry loop all requests share.
\<close>

section \<open>Requests and outcomes\<close>

text \<open>The values of \<^verbatim>\<open>Aws::S3::S3Errors\<close> the code tells apart; the others are \<open>OTHER_S3_ERROR\<close>.\<close>

datatype s3_error_type = NETWORK_CONNECTION | REQUEST_TIMEOUT | THROTTLING | SLOW_DOWN | INTERNAL_FAILURE
  | SERVICE_UNAVAILABLE | NO_SUCH_BUCKET | NO_SUCH_KEY | RESOURCE_NOT_FOUND | BUCKET_ALREADY_EXISTS
  | BUCKET_ALREADY_OWNED_BY_YOU | OTHER_S3_ERROR

record s3_error =
  er_type :: s3_error_type
  er_message :: string
  er_code :: int

datatype 'a outcome = Success 'a | Failure s3_error | Raised string

text \<open>A page of a listing; one of the uploads of a bucket; the body and headers of a PutObject.\<close>

record sdk_page =
  pg_contents :: "s3_object_info list"
  pg_prefixes :: "string list"
  pg_truncated :: bool
  pg_next_token :: string

record sdk_uploads =
  up_uploads :: "s3_upload_info list"
  up_truncated :: bool
  up_next_key_marker :: string
  up_next_upload_id_marker :: string

record put_request =
  put_body :: "byte list"
  put_content_length :: int
  put_algorithm_crc32 :: bool
  put_checksum_crc32 :: string

record 'w sdk =
  sdk_HeadObject :: "string \<Rightarrow> string \<Rightarrow> 'w \<Rightarrow> int outcome \<times> 'w"
  sdk_GetObject :: "string \<Rightarrow> string \<Rightarrow> string \<Rightarrow> 'w \<Rightarrow> (string \<times> byte list) outcome \<times> 'w"
  sdk_ListObjectsV2 :: "string \<Rightarrow> string \<Rightarrow> string \<Rightarrow> string \<Rightarrow> int \<Rightarrow> 'w \<Rightarrow> sdk_page outcome \<times> 'w"
  sdk_PutObject :: "string \<Rightarrow> string \<Rightarrow> put_request \<Rightarrow> 'w \<Rightarrow> unit outcome \<times> 'w"
  sdk_DeleteObject :: "string \<Rightarrow> string \<Rightarrow> 'w \<Rightarrow> unit outcome \<times> 'w"
  sdk_DeleteObjects :: "string \<Rightarrow> string list \<Rightarrow> 'w \<Rightarrow> string list outcome \<times> 'w"
  sdk_CopyObject :: "string \<Rightarrow> string \<Rightarrow> string \<Rightarrow> 'w \<Rightarrow> unit outcome \<times> 'w"
  sdk_CreateBucket :: "string \<Rightarrow> string option \<Rightarrow> 'w \<Rightarrow> unit outcome \<times> 'w"
  sdk_CreateMultipartUpload :: "string \<Rightarrow> string \<Rightarrow> 'w \<Rightarrow> string outcome \<times> 'w"
  sdk_UploadPart ::
    "string \<Rightarrow> string \<Rightarrow> string \<Rightarrow> int \<Rightarrow> byte list \<Rightarrow> string \<Rightarrow> 'w \<Rightarrow> s3_part_result outcome \<times> 'w"
  sdk_UploadPartCopy ::
    "string \<Rightarrow> string \<Rightarrow> string \<Rightarrow> int \<Rightarrow> string \<Rightarrow> string \<Rightarrow> 'w \<Rightarrow> s3_part_result outcome \<times> 'w"
  sdk_CompleteMultipartUpload ::
    "string \<Rightarrow> string \<Rightarrow> string \<Rightarrow> (int \<times> s3_part_result) list \<Rightarrow> 'w \<Rightarrow> unit outcome \<times> 'w"
  sdk_AbortMultipartUpload :: "string \<Rightarrow> string \<Rightarrow> string \<Rightarrow> 'w \<Rightarrow> unit outcome \<times> 'w"
  sdk_ListMultipartUploads :: "string \<Rightarrow> string \<Rightarrow> string \<Rightarrow> string \<Rightarrow> int \<Rightarrow> 'w \<Rightarrow> sdk_uploads outcome \<times> 'w"

text \<open>The \<^verbatim>\<open>Range\<close> and \<^verbatim>\<open>CopySource\<close> headers.\<close>

definition byte_range :: "int \<Rightarrow> int \<Rightarrow> string" where
  "byte_range first final = ''bytes='' @ show_int first @ ''-'' @ show_int final"

definition copy_source :: "string \<Rightarrow> string \<Rightarrow> string" where
  "copy_source bucket key = bucket @ ''/'' @ key"

text \<open>\<^verbatim>\<open>static_cast<int>\<close> of an \<^verbatim>\<open>int64_t\<close>.\<close>

definition to_int32 :: "int \<Rightarrow> int" where
  "to_int32 n = (n + 2 ^ 31) mod 2 ^ 32 - 2 ^ 31"

lemma to_int32_id: "- (2 ^ 31) \<le> n \<Longrightarrow> n < 2 ^ 31 \<Longrightarrow> to_int32 n = n"
  by (simp add: to_int32_def)

text \<open>\<^verbatim>\<open>Crc32ToBase64\<close>, given the SDK's \<^verbatim>\<open>Base64Encode\<close>.\<close>

definition big_endian :: "crc32 \<Rightarrow> byte list" where
  "big_endian crc = [ucast (drop_bit 24 crc), ucast (drop_bit 16 crc), ucast (drop_bit 8 crc), ucast crc]"

definition Crc32ToBase64 :: "(byte list \<Rightarrow> string) \<Rightarrow> crc32 \<Rightarrow> string" where
  "Crc32ToBase64 base64 crc = base64 (big_endian crc)"

text \<open>The four bytes put together again by \<^verbatim>\<open>ProcessSingleChunk\<close>.\<close>

definition from_big_endian :: "byte \<Rightarrow> byte \<Rightarrow> byte \<Rightarrow> byte \<Rightarrow> crc32" where
  "from_big_endian a b c d =
     or (or (or (push_bit 24 (ucast a)) (push_bit 16 (ucast b))) (push_bit 8 (ucast c))) (ucast d)"

lemma from_big_endian_bytes:
  "from_big_endian (ucast (drop_bit 24 crc)) (ucast (drop_bit 16 crc)) (ucast (drop_bit 8 crc)) (ucast crc) = crc"
proof (rule bit_word_eqI)
  fix n assume "n < LENGTH(32)"
  then consider "n < 8" | "8 \<le> n" "n < 16" | "16 \<le> n" "n < 24" | "24 \<le> n" "n < 32" by fastforce
  then show "bit (from_big_endian (ucast (drop_bit 24 crc)) (ucast (drop_bit 16 crc)) (ucast (drop_bit 8 crc)) (ucast crc)) n
      \<longleftrightarrow> bit crc n"
    by cases (auto simp: from_big_endian_def bit_simps)
qed

section \<open>Errors worth another attempt\<close>

definition has_text :: "string \<Rightarrow> string \<Rightarrow> bool" where
  "has_text msg p \<longleftrightarrow> find_str p msg \<noteq> None"

text \<open>The curl code in a message, \<open>-1\<close> when there is none.\<close>

definition ExtractCurlCode :: "string \<Rightarrow> int" where
  "ExtractCurlCode msg =
     (case find_str ''curlCode: '' msg of
        None \<Rightarrow> -1
      | Some pos \<Rightarrow>
          let digits = takeWhile is_digit (drop (pos + length ''curlCode: '') msg) in
          if digits = [] then -1 else (case stoi digits of None \<Rightarrow> -1 | Some n \<Rightarrow> n))"

definition IsRetryableS3Error :: "s3_error \<Rightarrow> bool" where
  "IsRetryableS3Error e =
     (if er_type e \<in> {NETWORK_CONNECTION, REQUEST_TIMEOUT, THROTTLING, SLOW_DOWN, INTERNAL_FAILURE, SERVICE_UNAVAILABLE}
      then True
      else if ExtractCurlCode (er_message e) \<in> {6, 7, 28} then True
      else list_ex (has_text (er_message e))
             [''Could not resolve'', ''getaddrinfo'', ''Could not connect'', ''internal error'', ''Internal error'',
              ''Please try again''])"

definition to_lower :: "char \<Rightarrow> char" where
  "to_lower c = (if 65 \<le> (of_char c :: nat) \<and> (of_char c :: nat) \<le> 90 then char_of ((of_char c :: nat) + 32) else c)"

definition IsMissingChecksumSupportError :: "s3_error \<Rightarrow> bool" where
  "IsMissingChecksumSupportError e =
     (if er_code e \<noteq> 400 then False
      else let message = map to_lower (er_message e) in
        if \<not> has_text message ''checksum'' then False
        else list_ex (has_text message) [''missing'', ''required'', ''unsupported'', ''not supported''])"

section \<open>The retry loop\<close>

text \<open>
  Every retried request is a loop \<^verbatim>\<open>for (attempt = 0; attempt <= max_retries; ++attempt)\<close> whose body
  returns an answer or continues; \<open>after\<close> is what is returned behind the loop.  The sleeps between
  attempts are left out.
\<close>

datatype 'r attempt = Answer 'r | Again

fun attempts :: "(int \<Rightarrow> 'w \<Rightarrow> 'r attempt \<times> 'w) \<Rightarrow> 'r \<Rightarrow> nat \<Rightarrow> int \<Rightarrow> 'w \<Rightarrow> 'r \<times> 'w" where
  "attempts body after 0 attempt w = (after, w)"
| "attempts body after (Suc left) attempt w =
     (case body attempt w of
        (Answer r, w) \<Rightarrow> (r, w)
      | (Again, w) \<Rightarrow> attempts body after left (attempt + 1) w)"

definition retrying :: "int \<Rightarrow> (int \<Rightarrow> 'w \<Rightarrow> 'r attempt \<times> 'w) \<Rightarrow> 'r \<Rightarrow> 'w \<Rightarrow> 'r \<times> 'w" where
  "retrying max_retries body after w = attempts body after (nat (max_retries + 1)) 0 w"

text \<open>
  How the body ends when the request was not a success: an error is retried if it is transient, an
  exception always, both only while attempts are left.
\<close>

definition failed_attempt :: "int \<Rightarrow> int \<Rightarrow> 'a outcome \<Rightarrow> (string \<Rightarrow> 'r) \<Rightarrow> (string \<Rightarrow> 'r) \<Rightarrow> 'r attempt" where
  "failed_attempt max_retries attempt out on_error on_exception =
     (case out of
        Failure e \<Rightarrow> if attempt < max_retries \<and> IsRetryableS3Error e then Again else Answer (on_error (er_message e))
      | Raised what \<Rightarrow> if attempt < max_retries then Again else Answer (on_exception what)
      | Success _ \<Rightarrow> Again)"

lemma failed_attempt_answer:
  "failed_attempt m a out f g = Answer r \<Longrightarrow> \<exists>msg. r = f msg \<or> r = g msg"
  by (auto simp: failed_attempt_def split: outcome.splits if_splits)

lemma failed_attempt_const: "failed_attempt m a out (\<lambda>_. c) (\<lambda>_. c) = Answer r \<Longrightarrow> r = c"
  using failed_attempt_answer [of m a out "\<lambda>_. c" "\<lambda>_. c" r] by blast

lemma attempts_rule:
  assumes "attempts body after left a w = (r, w')" "P w"
    and "\<And>a w q w'. body a w = (q, w') \<Longrightarrow> P w \<Longrightarrow> P w'"
    and "\<And>a w r w'. body a w = (Answer r, w') \<Longrightarrow> P w \<Longrightarrow> Q r w'"
    and "\<And>w. P w \<Longrightarrow> Q after w"
  shows "P w' \<and> Q r w'"
  using assms(1,2)
proof (induction left arbitrary: a w)
  case 0
  with assms(5) show ?case by simp
next
  case (Suc left)
  obtain q w1 where b: "body a w = (q, w1)" by fastforce
  with Suc assms(3) [OF b] assms(4) [of a w r w1] show ?case by (cases q) auto
qed

lemma retrying_rule:
  assumes "retrying m body after w = (r, w')" "P w"
    and "\<And>a w q w'. body a w = (q, w') \<Longrightarrow> P w \<Longrightarrow> P w'"
    and "\<And>a w r w'. body a w = (Answer r, w') \<Longrightarrow> P w \<Longrightarrow> Q r w'"
    and "\<And>w. P w \<Longrightarrow> Q after w"
  shows "P w' \<and> Q r w'"
  using assms(1) unfolding retrying_def by (rule attempts_rule [where P = P and Q = Q]) (fact assms)+

text \<open>Two loops whose bodies answer the same up to \<open>g\<close>.\<close>

lemma attempts_map:
  assumes "\<And>a w. body' a w = (case body a w of (q, w') \<Rightarrow> (map_attempt g q, w'))"
  shows "attempts body' (g after) n a w = (case attempts body after n a w of (r, w') \<Rightarrow> (g r, w'))"
proof (induction n arbitrary: a w)
  case (Suc n)
  obtain q w' where "body a w = (q, w')" by fastforce
  with Suc assms [of a w] show ?case by (cases q) simp_all
qed simp

lemma retrying_map:
  "(\<And>a w. body' a w = (case body a w of (q, w') \<Rightarrow> (map_attempt g q, w'))) \<Longrightarrow>
     retrying m body' (g after) w = (case retrying m body after w of (r, w') \<Rightarrow> (g r, w'))"
  unfolding retrying_def by (rule attempts_map)

text \<open>A message names a curl code exactly, not by its first digit.\<close>

lemma find_str_append_first:
  assumes "\<And>i. i < length u \<Longrightarrow> \<not> starts_with (drop i (u @ p @ v)) p" "p \<noteq> []"
  shows "find_str p (u @ p @ v) = Some (length u)"
  using assms
proof (induction u)
  case Nil
  then show ?case by (simp add: find_str_0_iff)
next
  case (Cons c u)
  have "\<not> starts_with (c # u @ p @ v) p" using Cons.prems(1) [of 0] by simp
  moreover have "find_str p (u @ p @ v) = Some (length u)"
    using Cons.IH Cons.prems(1) [of "Suc i" for i] Cons.prems(2) by auto
  ultimately show ?case by simp
qed

lemma curl_code_read:
  assumes "\<And>i. i < length u \<Longrightarrow> \<not> starts_with (drop i (u @ ''curlCode: '' @ show_nat n @ v)) ''curlCode: ''"
    and "v = [] \<or> \<not> is_digit (hd v)" "int n < 2 ^ 31"
  shows "ExtractCurlCode (u @ ''curlCode: '' @ show_nat n @ v) = int n"
proof -
  have f: "find_str ''curlCode: '' (u @ ''curlCode: '' @ show_nat n @ v) = Some (length u)"
    by (rule find_str_append_first [OF assms(1)]) simp_all
  have "takeWhile is_digit (show_nat n @ v) = show_nat n"
    using show_nat_digits [of n] assms(2) by (cases v) (auto simp: takeWhile_append)
  moreover have "stoi (show_nat n) = Some (int n)"
    using sto_int_digits [of "show_nat n" "- (2 ^ 31)" "2 ^ 31 - 1"] show_nat_digits [of n] assms(3) by (simp add: stoi_def)
  ultimately show ?thesis unfolding ExtractCurlCode_def f by simp
qed

end
