(* ===== verification/S3_Copy.thy ===== *)
theory S3_Copy
  imports S3_Sdk "HOL-Library.AList"
begin

text \<open>
  s3_utils.cpp: the registry of open multipart uploads, the two free-standing requests, and
  \<^verbatim>\<open>S3MultipartCopy\<close>, which has the service checksum the chunks of an object by copying them as the
  parts of an upload it then aborts.  The chunks are copied by the threads of a pool: the pool is a
  transition system whose step is one attempt of one chunk or one round of the thread that submits
  them, and a list of numbers decides which of the possible steps comes next.
\<close>

section \<open>The adapter's state\<close>

text \<open>
  \<^verbatim>\<open>ActiveUpload\<close>; \<^verbatim>\<open>client\<close> may be null.  The state of the process beside the service: the registry, the
  shutdown flag, the choices of the scheduler, and what \<^verbatim>\<open>GenerateUniqueSuffix\<close> draws.
\<close>

record 'w active_upload =
  au_client :: "'w sdk option"
  au_bucket :: string
  au_key :: string
  au_upload_id :: string

record 'w adapter =
  ad_world :: 'w
  ad_uploads :: "(string \<times> 'w active_upload) list"
  ad_shutdown :: cancel
  ad_choices :: "nat list"
  ad_suffixes :: "(nat \<times> nat) list"

definition register_upload :: "'w active_upload \<Rightarrow> 'w adapter \<Rightarrow> 'w adapter" where
  "register_upload u s = s\<lparr>ad_uploads := AList.update (au_upload_id u) u (ad_uploads s)\<rparr>"

definition unregister_upload :: "string \<Rightarrow> 'w adapter \<Rightarrow> 'w adapter" where
  "unregister_upload upload_id s = s\<lparr>ad_uploads := AList.delete upload_id (ad_uploads s)\<rparr>"

definition upload_count :: "'w adapter \<Rightarrow> nat" where
  "upload_count s = length (ad_uploads s)"

definition abort_one :: "'w active_upload \<Rightarrow> 'w \<Rightarrow> 'w" where
  "abort_one u w =
     (case au_client u of
        None \<Rightarrow> w
      | Some client \<Rightarrow> snd (sdk_AbortMultipartUpload client (au_bucket u) (au_key u) (au_upload_id u) w))"

definition abort_all :: "'w adapter \<Rightarrow> 'w adapter" where
  "abort_all s =
     (if ad_uploads s = [] then s
      else let uploads_to_abort = map snd (ad_uploads s)
           in s\<lparr>ad_uploads := [], ad_world := fold abort_one uploads_to_abort (ad_world s)\<rparr>)"

section \<open>Two requests\<close>

definition GetS3ObjectSize :: "'w sdk \<Rightarrow> string \<Rightarrow> string \<Rightarrow> 'w \<Rightarrow> int \<times> 'w" where
  "GetS3ObjectSize s3_client bucket key w =
     (case sdk_HeadObject s3_client bucket key w of
        (Success n, w) \<Rightarrow> (n, w)
      | (_, w) \<Rightarrow> (-1, w))"

text \<open>A page as the result of a listing.\<close>

definition list_result_of :: "sdk_page \<Rightarrow> s3_list_result" where
  "list_result_of pg = empty_list_result\<lparr>lr_objects := pg_contents pg, lr_common_prefixes := pg_prefixes pg,
     lr_is_truncated := pg_truncated pg, lr_next_token := (if pg_truncated pg then pg_next_token pg else []),
     lr_success := True\<rparr>"

definition ListS3Objects ::
  "'w sdk \<Rightarrow> string \<Rightarrow> string \<Rightarrow> string \<Rightarrow> string \<Rightarrow> int \<Rightarrow> 'w \<Rightarrow> s3_list_result \<times> 'w" where
  "ListS3Objects s3_client bucket pre delimiter continuation_token max_keys w =
     (case sdk_ListObjectsV2 s3_client bucket pre delimiter continuation_token max_keys w of
        (Success pg, w) \<Rightarrow> (list_result_of pg, w)
      | (Failure e, w) \<Rightarrow> (empty_list_result\<lparr>lr_error := er_message e\<rparr>, w)
      | (Raised what, w) \<Rightarrow> (empty_list_result\<lparr>lr_error := ''Exception: '' @ what\<rparr>, w))"

section \<open>One chunk\<close>

record 'w copier =
  mc_s3client :: "'w sdk"
  mc_bucket :: string
  mc_src_key :: string
  mc_dst_key :: string
  mc_filesize :: int
  mc_chunk_size :: int
  mc_max_retries :: int
  mc_base64_decode :: "string \<Rightarrow> byte list"

definition make_copier ::
  "'w sdk \<Rightarrow> (string \<Rightarrow> byte list) \<Rightarrow> string \<Rightarrow> string \<Rightarrow> string \<Rightarrow> int \<Rightarrow> int \<Rightarrow> int \<Rightarrow> 'w copier" where
  "make_copier client decode bucket src_key dst_key filesize chunk_size max_retries =
     \<lparr>mc_s3client = client, mc_bucket = bucket, mc_src_key = src_key, mc_dst_key = dst_key, mc_filesize = filesize,
      mc_chunk_size = (if chunk_size > 0 then chunk_size else CHUNK_SIZE), mc_max_retries = max_retries,
      mc_base64_decode = decode\<rparr>"

definition chunk_count_for_size :: "int \<Rightarrow> int \<Rightarrow> int" where
  "chunk_count_for_size filesize chunk_size =
     (if filesize < 0 \<or> chunk_size \<le> 0 then -1
      else if filesize = 0 then 0
      else filesize div chunk_size + (if filesize mod chunk_size \<noteq> 0 then 1 else 0))"

definition chunk_request_is_valid :: "int list \<Rightarrow> int \<Rightarrow> int \<Rightarrow> bool" where
  "chunk_request_is_valid chunk_ids filesize num_chunks \<longleftrightarrow>
     \<not> (filesize < 0 \<or> num_chunks < 0) \<and> list_all (\<lambda>i. \<not> (i < 0 \<or> i \<ge> num_chunks)) chunk_ids"

definition MAX_ERRORS_BEFORE_ABORT :: nat where "MAX_ERRORS_BEFORE_ABORT = 3"

text \<open>
  Where the task of a chunk is: at the entry of \<^verbatim>\<open>ProcessSingleChunk\<close>, before its \<open>attempt\<close>th attempt
  with \<open>left\<close> rounds of the loop to go, or back in \<^verbatim>\<open>process_chunk\<close> with the result.
\<close>

datatype chunk_stage = Entry | Try int nat | Back "crc32 option"

record chunk_task =
  ct_id :: int
  ct_stage :: chunk_stage
  ct_errors_before :: nat

record 'w pool =
  pl_world :: 'w
  pl_shutdown :: cancel
  pl_errors :: nat
  pl_abort :: bool
  pl_results :: "crc32 list"
  pl_succeeded :: nat
  pl_completed :: nat
  pl_queue :: "int list"
  pl_running :: "chunk_task list"
  pl_window :: nat
  pl_threshold :: nat

text \<open>The request of one attempt, and what becomes of its answer.\<close>

definition copy_chunk :: "'w copier \<Rightarrow> string \<Rightarrow> int \<Rightarrow> 'w \<Rightarrow> s3_part_result outcome \<times> 'w" where
  "copy_chunk mc upload_id chunk_id w =
     (let start = chunk_id * mc_chunk_size mc;
          final = min (start + mc_chunk_size mc - 1) (mc_filesize mc - 1)
      in sdk_UploadPartCopy (mc_s3client mc) (mc_bucket mc) (mc_dst_key mc) upload_id (to_int32 (chunk_id + 1))
           (copy_source (mc_bucket mc) (mc_src_key mc)) (byte_range start final) w)"

datatype chunk_answer = Checksum crc32 | Failed | RetryChunk

definition chunk_answer_of :: "'w copier \<Rightarrow> int \<Rightarrow> s3_part_result outcome \<Rightarrow> chunk_answer" where
  "chunk_answer_of mc attempt out =
     (case out of
        Success r \<Rightarrow>
          (case mc_base64_decode mc (pr_checksum r) of
             [a, b, c, d] \<Rightarrow> Checksum (from_big_endian a b c d)
           | _ \<Rightarrow> Failed)
      | Failure e \<Rightarrow>
          if IsMissingChecksumSupportError e then Failed
          else if attempt < mc_max_retries mc \<and> IsRetryableS3Error e then RetryChunk
          else Failed
      | Raised _ \<Rightarrow> if attempt < mc_max_retries mc then RetryChunk else Failed)"

definition check_stop :: "'w pool \<Rightarrow> bool \<times> 'w pool" where
  "check_stop st =
     (if pl_abort st then (True, st)
      else let (stop, c) = poll (pl_shutdown st) in (stop, st\<lparr>pl_shutdown := c\<rparr>))"

definition ProcessSingleChunk :: "'w copier \<Rightarrow> string \<Rightarrow> int \<Rightarrow> chunk_stage \<Rightarrow> 'w pool \<Rightarrow> chunk_stage \<times> 'w pool" where
  "ProcessSingleChunk mc upload_id chunk_id stage st =
     (case stage of
        Entry \<Rightarrow>
          let (stop, st) = check_stop st in
          (if stop then Back None else Try 0 (nat (mc_max_retries mc + 1)), st)
      | Try attempt 0 \<Rightarrow> (Back None, st)
      | Try attempt (Suc left) \<Rightarrow>
          let (stop, st) = check_stop st in
          if stop then (Back None, st)
          else let (out, w) = copy_chunk mc upload_id chunk_id (pl_world st);
                   st = st\<lparr>pl_world := w\<rparr>
               in case chunk_answer_of mc attempt out of
                    Checksum crc \<Rightarrow> (Back (Some crc), st)
                  | Failed \<Rightarrow> (Back None, st\<lparr>pl_errors := pl_errors st + 1\<rparr>)
                  | RetryChunk \<Rightarrow> (Try (attempt + 1) left, st)
      | Back r \<Rightarrow> (Back r, st))"

section \<open>The pool\<close>

text \<open>The rest of \<^verbatim>\<open>process_chunk\<close>, and the window of \<^verbatim>\<open>process_with_tracking\<close>.\<close>

definition finish_chunk :: "int \<Rightarrow> crc32 option \<Rightarrow> 'w pool \<Rightarrow> 'w pool" where
  "finish_chunk i r st =
     (let st = (case r of
                  Some crc \<Rightarrow> st\<lparr>pl_results := (pl_results st)[nat i := crc], pl_succeeded := pl_succeeded st + 1\<rparr>
                | None \<Rightarrow> st);
          st = (if pl_errors st > MAX_ERRORS_BEFORE_ABORT then st\<lparr>pl_abort := True\<rparr> else st)
      in st\<lparr>pl_completed := pl_completed st + 1\<rparr>)"

definition track_chunk :: "nat \<Rightarrow> nat \<Rightarrow> 'w pool \<Rightarrow> 'w pool" where
  "track_chunk num_threads errors_before st =
     (if pl_errors st > errors_before
      then st\<lparr>pl_window := (let min_concurrency = min 16 num_threads; new_max = max (pl_window st div 2) min_concurrency
                            in if new_max < pl_window st then new_max else pl_window st)\<rparr>
      else if pl_completed st \<ge> pl_threshold st \<and> pl_window st < num_threads
      then let new_max = min (pl_window st * 2) num_threads
           in st\<lparr>pl_window := new_max, pl_threshold := pl_completed st + new_max\<rparr>
      else st)"

text \<open>
  One step of the \<open>k\<close>th running task.  \<open>tracked\<close> is the size of the thread pool, \<^term>\<open>None\<close> in the variant with
  \<^verbatim>\<open>std::async\<close>, which starts every chunk at once and keeps no window.
\<close>

definition step_chunk :: "'w copier \<Rightarrow> string \<Rightarrow> nat option \<Rightarrow> nat \<Rightarrow> 'w pool \<Rightarrow> 'w pool" where
  "step_chunk mc upload_id tracked k st =
     (let t = pl_running st ! k in
      case ct_stage t of
        Back r \<Rightarrow>
          let st = finish_chunk (ct_id t) r st;
              st = st\<lparr>pl_running := take k (pl_running st) @ drop (Suc k) (pl_running st)\<rparr>
          in (case tracked of Some num_threads \<Rightarrow> track_chunk num_threads (ct_errors_before t) st | None \<Rightarrow> st)
      | _ \<Rightarrow>
          let (stage, st) = ProcessSingleChunk mc upload_id (ct_id t) (ct_stage t) st
          in st\<lparr>pl_running := (pl_running st)[k := t\<lparr>ct_stage := stage\<rparr>]\<rparr>)"

text \<open>
  One round of the loop that submits the chunks; \<^term>\<open>None\<close> while it waits for a free slot.  A task notes
  the errors counted so far when it starts.
\<close>

definition start_chunk :: "int \<Rightarrow> 'w pool \<Rightarrow> chunk_task" where
  "start_chunk i st = \<lparr>ct_id = i, ct_stage = Entry, ct_errors_before = pl_errors st\<rparr>"

definition step_submit_chunk :: "'w pool \<Rightarrow> 'w pool option" where
  "step_submit_chunk st =
     (case pl_queue st of
        [] \<Rightarrow> None
      | i # ids \<Rightarrow>
          let (stop, st) = check_stop st in
          if stop then Some (st\<lparr>pl_queue := []\<rparr>)
          else if \<not> length (pl_running st) < pl_window st then None
          else let (stop, st) = check_stop st in
            if stop then Some (st\<lparr>pl_queue := []\<rparr>)
            else Some (st\<lparr>pl_queue := ids, pl_running := pl_running st @ [start_chunk i st]\<rparr>))"

text \<open>The steps that are possible; \<^term>\<open>None\<close> is the submitting thread.\<close>

definition possible_steps :: "'w pool \<Rightarrow> nat option list" where
  "possible_steps st =
     (if step_submit_chunk st = None then [] else [None]) @ map Some [0 ..< length (pl_running st)]"

definition pool_step :: "'w copier \<Rightarrow> string \<Rightarrow> nat option \<Rightarrow> nat option \<Rightarrow> 'w pool \<Rightarrow> 'w pool" where
  "pool_step mc upload_id tracked who st =
     (case who of
        None \<Rightarrow> (case step_submit_chunk st of None \<Rightarrow> st | Some st' \<Rightarrow> st')
      | Some k \<Rightarrow> step_chunk mc upload_id tracked k st)"

definition next_choice :: "nat list \<Rightarrow> nat \<times> nat list" where
  "next_choice cs = (case cs of [] \<Rightarrow> (0, []) | c # cs \<Rightarrow> (c, cs))"

text \<open>How much work is left, which every step reduces.\<close>

definition stage_work :: "nat \<Rightarrow> chunk_stage \<Rightarrow> nat" where
  "stage_work rounds stage = (case stage of Entry \<Rightarrow> rounds + 3 | Try _ left \<Rightarrow> left + 2 | Back _ \<Rightarrow> 1)"

definition pool_work :: "'w copier \<Rightarrow> 'w pool \<Rightarrow> nat" where
  "pool_work mc st =
     (let rounds = nat (mc_max_retries mc + 1)
      in (rounds + 4) * length (pl_queue st) + sum_list (map (stage_work rounds \<circ> ct_stage) (pl_running st)))"

lemma check_stop_frame:
  "check_stop st = (stop, st') \<Longrightarrow> st' = st\<lparr>pl_shutdown := pl_shutdown st'\<rparr>"
  by (auto simp: check_stop_def split: if_splits prod.splits)

lemma check_stop_fields [simp]:
  assumes "check_stop st = (stop, st')"
  shows "pl_world st' = pl_world st" "pl_errors st' = pl_errors st" "pl_abort st' = pl_abort st"
    "pl_results st' = pl_results st" "pl_succeeded st' = pl_succeeded st" "pl_completed st' = pl_completed st"
    "pl_queue st' = pl_queue st" "pl_running st' = pl_running st" "pl_window st' = pl_window st"
    "pl_threshold st' = pl_threshold st"
  using assms by (auto simp: check_stop_def split: if_splits prod.splits)

text \<open>A step of a task, by what the task was doing.\<close>

lemma step_chunk_cases:
  assumes "k < length (pl_running st)"
  obtains (ends) r where "ct_stage (pl_running st ! k) = Back r"
      "step_chunk mc u tracked k st =
         (let st1 = (finish_chunk (ct_id (pl_running st ! k)) r st)\<lparr>pl_running := take k (pl_running st) @ drop (Suc k) (pl_running st)\<rparr>
          in case tracked of None \<Rightarrow> st1 | Some n \<Rightarrow> track_chunk n (ct_errors_before (pl_running st ! k)) st1)"
  | (work) stage st1 where "\<And>r. ct_stage (pl_running st ! k) \<noteq> Back r"
      "ProcessSingleChunk mc u (ct_id (pl_running st ! k)) (ct_stage (pl_running st ! k)) st = (stage, st1)"
      "step_chunk mc u tracked k st = st1\<lparr>pl_running := (pl_running st)[k := (pl_running st ! k)\<lparr>ct_stage := stage\<rparr>]\<rparr>"
proof (cases "\<exists>r. ct_stage (pl_running st ! k) = Back r")
  case True
  have "pl_running (finish_chunk i r st) = pl_running st" for i r
    by (simp add: finish_chunk_def Let_def split: option.splits)
  with True ends show ?thesis by (auto simp: step_chunk_def Let_def split: option.splits)
next
  case False
  obtain stage st1 where p: "ProcessSingleChunk mc u (ct_id (pl_running st ! k)) (ct_stage (pl_running st ! k)) st = (stage, st1)"
    by fastforce
  have "pl_running st1 = pl_running st"
    using p by (auto simp: ProcessSingleChunk_def Let_def split: chunk_stage.splits nat.splits prod.splits chunk_answer.splits if_splits)
  with False p have "step_chunk mc u tracked k st = st1\<lparr>pl_running := (pl_running st)[k := (pl_running st ! k)\<lparr>ct_stage := stage\<rparr>]\<rparr>"
    by (cases "ct_stage (pl_running st ! k)") (simp_all add: step_chunk_def Let_def)
  with False p work show ?thesis by blast
qed

lemma process_chunk_frame:
  assumes "ProcessSingleChunk mc u i stage st = (stage', st')"
  shows "pl_results st' = pl_results st" "pl_succeeded st' = pl_succeeded st" "pl_completed st' = pl_completed st"
    "pl_queue st' = pl_queue st" "pl_running st' = pl_running st" "pl_window st' = pl_window st"
  using assms
  by (auto simp: ProcessSingleChunk_def Let_def split: chunk_stage.splits nat.splits prod.splits chunk_answer.splits if_splits)

lemma process_chunk_works:
  assumes "ProcessSingleChunk mc u i stage st = (stage', st')" "\<And>r. stage \<noteq> Back r"
  shows "stage_work (nat (mc_max_retries mc + 1)) stage' < stage_work (nat (mc_max_retries mc + 1)) stage"
  using assms
  by (auto simp: ProcessSingleChunk_def stage_work_def Let_def
      split: chunk_stage.splits nat.splits prod.splits chunk_answer.splits if_splits)

lemma finish_chunk_frame [simp]:
  "pl_queue (finish_chunk i r st) = pl_queue st" "pl_running (finish_chunk i r st) = pl_running st"
  "pl_window (finish_chunk i r st) = pl_window st" "pl_world (finish_chunk i r st) = pl_world st"
  "pl_errors (finish_chunk i r st) = pl_errors st"
  by (auto simp: finish_chunk_def Let_def split: option.splits)

lemma track_chunk_frame [simp]:
  "pl_queue (track_chunk n e st) = pl_queue st" "pl_running (track_chunk n e st) = pl_running st"
  "pl_world (track_chunk n e st) = pl_world st" "pl_results (track_chunk n e st) = pl_results st"
  "pl_succeeded (track_chunk n e st) = pl_succeeded st" "pl_errors (track_chunk n e st) = pl_errors st"
  by (simp_all add: track_chunk_def Let_def)

lemma sum_list_remove: "k < length xs \<Longrightarrow> sum_list (map f xs) = f (xs ! k) + sum_list (map f (take k xs @ drop (Suc k) xs :: 'a list))"
  for f :: "'a \<Rightarrow> nat"
  by (subst (1) id_take_nth_drop [of k xs]) simp_all

lemma sum_list_replace: "k < length xs \<Longrightarrow> sum_list (map f (xs[k := x])) + f (xs ! k) = sum_list (map f xs) + f x"
  for f :: "'a \<Rightarrow> nat"
  by (simp add: sum_list_remove [of k xs] sum_list_remove [of k "xs[k := x]"])

lemma step_chunk_works:
  assumes "k < length (pl_running st)"
  shows "pool_work mc (step_chunk mc u tracked k st) < pool_work mc st"
proof -
  define rounds where "rounds = nat (mc_max_retries mc + 1)"
  let ?f = "stage_work rounds \<circ> ct_stage"
  from assms show ?thesis
  proof (cases rule: step_chunk_cases [where mc = mc and u = u and tracked = tracked])
    case (ends r)
    have "pl_queue (step_chunk mc u tracked k st) = pl_queue st"
        "pl_running (step_chunk mc u tracked k st) = take k (pl_running st) @ drop (Suc k) (pl_running st)"
      unfolding ends(2) Let_def by (simp_all split: option.splits)
    with sum_list_remove [OF assms, of ?f] ends(1) show ?thesis
      by (simp add: pool_work_def rounds_def stage_work_def Let_def)
  next
    case (work stage st1)
    note less = process_chunk_works [OF work(2,1), folded rounds_def]
    have q: "pl_queue (step_chunk mc u tracked k st) = pl_queue st"
        "pl_running (step_chunk mc u tracked k st) = (pl_running st)[k := (pl_running st ! k)\<lparr>ct_stage := stage\<rparr>]"
      using process_chunk_frame [OF work(2)] by (simp_all add: work(3))
    have "sum_list (map ?f ((pl_running st)[k := (pl_running st ! k)\<lparr>ct_stage := stage\<rparr>])) + ?f (pl_running st ! k) =
        sum_list (map ?f (pl_running st)) + ?f ((pl_running st ! k)\<lparr>ct_stage := stage\<rparr>)"
      by (rule sum_list_replace [OF assms])
    with less have "sum_list (map ?f ((pl_running st)[k := (pl_running st ! k)\<lparr>ct_stage := stage\<rparr>])) < sum_list (map ?f (pl_running st))"
      by simp
    with q show ?thesis unfolding pool_work_def rounds_def [symmetric] Let_def by simp
  qed
qed

text \<open>What the submitting thread does: it stops, or it starts the next chunk.\<close>

lemma step_submit_chunk_cases:
  assumes "step_submit_chunk st = Some st'"
  obtains (stops) c i ids where "pl_queue st = i # ids" "st' = st\<lparr>pl_shutdown := c, pl_queue := []\<rparr>"
  | (starts) c i ids where "pl_queue st = i # ids" "length (pl_running st) < pl_window st"
      "st' = st\<lparr>pl_shutdown := c, pl_queue := ids, pl_running := pl_running st @ [start_chunk i st]\<rparr>"
proof -
  from assms obtain i ids where q: "pl_queue st = i # ids" by (cases "pl_queue st") (auto simp: step_submit_chunk_def)
  obtain stop st1 where c1: "check_stop st = (stop, st1)" by fastforce
  obtain stop' st2 where c2: "check_stop st1 = (stop', st2)" by fastforce
  note f1 = check_stop_frame [OF c1] and f2 = check_stop_frame [OF c2]
  have e2: "st2 = st\<lparr>pl_shutdown := pl_shutdown st2\<rparr>" using f1 f2 by (metis pool.surjective pool.update_convs(2))
  consider "stop" | "\<not> stop" "stop'" | "\<not> stop" "\<not> stop'" by blast
  then show ?thesis
  proof cases
    case 1
    with assms q c1 have "st' = st1\<lparr>pl_queue := []\<rparr>" by (simp add: step_submit_chunk_def)
    with stops [OF q, of "pl_shutdown st1"] f1 show ?thesis by (metis pool.update_convs(2,8))
  next
    case 2
    with assms q c1 c2 have "st' = st2\<lparr>pl_queue := []\<rparr>" by (simp add: step_submit_chunk_def split: if_splits)
    with stops [OF q, of "pl_shutdown st2"] e2 show ?thesis by (metis pool.update_convs(2,8))
  next
    case 3
    with assms q c1 c2 have "length (pl_running st) < pl_window st"
        "st' = st2\<lparr>pl_queue := ids, pl_running := pl_running st @ [start_chunk i st2]\<rparr>"
      by (simp_all add: step_submit_chunk_def split: if_splits)
    moreover have "start_chunk i st2 = start_chunk i st" using c1 c2 by (simp add: start_chunk_def)
    moreover have "st2\<lparr>pl_queue := ids, pl_running := r\<rparr> = st\<lparr>pl_shutdown := pl_shutdown st2, pl_queue := ids, pl_running := r\<rparr>" for r
      by (subst e2) simp
    ultimately show ?thesis using starts [OF q, of "pl_shutdown st2"] by simp
  qed
qed

lemma step_submit_chunk_works:
  assumes "step_submit_chunk st = Some st'"
  shows "pool_work mc st' < pool_work mc st"
  using assms
  by (cases rule: step_submit_chunk_cases) (simp_all add: pool_work_def start_chunk_def stage_work_def Let_def)

lemma possible_steps_iff:
  "who \<in> set (possible_steps st) \<longleftrightarrow>
     (case who of None \<Rightarrow> step_submit_chunk st \<noteq> None | Some k \<Rightarrow> k < length (pl_running st))"
  by (auto simp: possible_steps_def split: option.splits)

lemma pool_step_works:
  assumes "who \<in> set (possible_steps st)"
  shows "pool_work mc (pool_step mc u tracked who st) < pool_work mc st"
  using assms step_chunk_works [of _ st mc u tracked] step_submit_chunk_works [of st _ mc]
  by (auto simp: possible_steps_iff pool_step_def split: option.splits)

function run_pool :: "'w copier \<Rightarrow> string \<Rightarrow> nat option \<Rightarrow> nat list \<Rightarrow> 'w pool \<Rightarrow> 'w pool \<times> nat list" where
  "run_pool mc upload_id tracked choices st =
     (let steps = possible_steps st in
      if steps = [] then (st, choices)
      else let (c, choices) = next_choice choices
           in run_pool mc upload_id tracked choices (pool_step mc upload_id tracked (steps ! (c mod length steps)) st))"
  by pat_completeness auto
termination
proof (relation "measure (\<lambda>(mc, u, tracked, choices, st). pool_work mc st)", goal_cases)
  case (2 mc u tracked choices st steps x c choices')
  then have "steps ! (c mod length steps) \<in> set (possible_steps st)" by (metis length_greater_0_conv mod_less_divisor nth_mem)
  from pool_step_works [OF this] show ?case by simp
qed simp

declare run_pool.simps [simp del]

text \<open>An invariant of the steps holds when the pool has come to rest.\<close>

lemma run_pool_rule:
  assumes "run_pool mc u tracked choices st = (st', choices')" "P st"
    and "\<And>st who. P st \<Longrightarrow> who \<in> set (possible_steps st) \<Longrightarrow> P (pool_step mc u tracked who st)"
  shows "P st' \<and> possible_steps st' = []"
  using assms(1,2)
proof (induction "pool_work mc st" arbitrary: choices st rule: less_induct)
  case less
  show ?case
  proof (cases "possible_steps st = []")
    case True
    with less.prems show ?thesis by (simp add: run_pool.simps [of mc u tracked choices st])
  next
    case False
    obtain c cs where n: "next_choice choices = (c, cs)" by fastforce
    let ?who = "possible_steps st ! (c mod length (possible_steps st))"
    have who: "?who \<in> set (possible_steps st)" using False by (metis length_greater_0_conv mod_less_divisor nth_mem)
    have "run_pool mc u tracked cs (pool_step mc u tracked ?who st) = (st', choices')"
      using less.prems(1) False n by (simp add: run_pool.simps [of mc u tracked choices st] Let_def)
    from less.hyps [OF pool_step_works [OF who] this assms(3) [OF less.prems(2) who]] show ?thesis .
  qed
qed

section \<open>The checksums of an object\<close>

fun distinct_ids :: "int list \<Rightarrow> int list \<Rightarrow> int list" where
  "distinct_ids seen [] = []"
| "distinct_ids seen (i # ids) =
     (if i \<in> set seen then distinct_ids seen ids else i # distinct_ids (i # seen) ids)"

definition ids_to_copy :: "int list \<Rightarrow> int \<Rightarrow> int list" where
  "ids_to_copy chunk_ids num_chunks =
     (if chunk_ids = [] then [0 .. num_chunks - 1] else distinct_ids [] chunk_ids)"

definition pool_answer :: "int list \<Rightarrow> nat \<Rightarrow> nat \<Rightarrow> 'w pool \<Rightarrow> crc32 list" where
  "pool_answer chunk_ids wanted errors st =
     (if errors > 0 then []
      else if pl_succeeded st \<noteq> wanted then []
      else if chunk_ids = [] then pl_results st
      else map (\<lambda>i. pl_results st ! nat i) chunk_ids)"

definition initial_pool :: "int \<Rightarrow> int list \<Rightarrow> nat \<Rightarrow> 'w adapter \<Rightarrow> 'w pool" where
  "initial_pool num_chunks ids window s =
     \<lparr>pl_world = ad_world s, pl_shutdown = ad_shutdown s, pl_errors = 0, pl_abort = False,
      pl_results = replicate (nat num_chunks) 0, pl_succeeded = 0, pl_completed = 0, pl_queue = ids, pl_running = [],
      pl_window = window, pl_threshold = window\<rparr>"

definition after_pool :: "'w pool \<Rightarrow> nat list \<Rightarrow> 'w adapter \<Rightarrow> 'w adapter" where
  "after_pool st choices s =
     s\<lparr>ad_world := pl_world st, ad_shutdown := pl_shutdown st, ad_choices := choices\<rparr>"

text \<open>
  The variant with one \<^verbatim>\<open>std::async\<close> per chunk.  A wait of thirty seconds that ends early counts as an
  error; how many did is drawn from the choices.
\<close>

definition ParallelUploadPartCopyRequests ::
  "'w copier \<Rightarrow> string \<Rightarrow> int list \<Rightarrow> 'w adapter \<Rightarrow> crc32 list \<times> 'w adapter" where
  "ParallelUploadPartCopyRequests mc upload_id chunk_ids s =
     (let num_chunks = chunk_count_for_size (mc_filesize mc) (mc_chunk_size mc) in
      if \<not> chunk_request_is_valid chunk_ids (mc_filesize mc) num_chunks then ([], s)
      else let ids = ids_to_copy chunk_ids num_chunks;
               st = initial_pool num_chunks [] (length ids) s;
               st = st\<lparr>pl_running := map (\<lambda>i. start_chunk i st) ids\<rparr>;
               (st, choices) = run_pool mc upload_id None (ad_choices s) st;
               (late, choices) = next_choice choices
           in (pool_answer chunk_ids (length ids) (pl_errors st + late) st, after_pool st choices s))"

definition ParallelUploadPartCopyRequestsThreadPool ::
  "'w copier \<Rightarrow> string \<Rightarrow> nat \<Rightarrow> bool \<Rightarrow> int list \<Rightarrow> 'w adapter \<Rightarrow> crc32 list \<times> 'w adapter" where
  "ParallelUploadPartCopyRequestsThreadPool mc upload_id num_threads ramp_up chunk_ids s =
     (let num_chunks = chunk_count_for_size (mc_filesize mc) (mc_chunk_size mc) in
      if \<not> chunk_request_is_valid chunk_ids (mc_filesize mc) num_chunks then ([], s)
      else let ids = ids_to_copy chunk_ids num_chunks;
               st = initial_pool num_chunks ids (if ramp_up then min 16 num_threads else num_threads) s;
               (st, choices) = run_pool mc upload_id (Some num_threads) (ad_choices s) st
           in (pool_answer chunk_ids (length ids) (pl_errors st) st, after_pool st choices s))"

definition create_copy_upload :: "'w copier \<Rightarrow> 'w adapter \<Rightarrow> string \<times> 'w adapter" where
  "create_copy_upload mc s =
     (case sdk_CreateMultipartUpload (mc_s3client mc) (mc_bucket mc) (mc_dst_key mc) (ad_world s) of
        (Success upload_id, w) \<Rightarrow> (upload_id, s\<lparr>ad_world := w\<rparr>)
      | (_, w) \<Rightarrow> ([], s\<lparr>ad_world := w\<rparr>))"

definition abort_copy_upload :: "'w copier \<Rightarrow> string \<Rightarrow> 'w adapter \<Rightarrow> bool \<times> 'w adapter" where
  "abort_copy_upload mc upload_id s =
     (case sdk_AbortMultipartUpload (mc_s3client mc) (mc_bucket mc) (mc_dst_key mc) upload_id (ad_world s) of
        (Success _, w) \<Rightarrow> (True, s\<lparr>ad_world := w\<rparr>)
      | (_, w) \<Rightarrow> (False, s\<lparr>ad_world := w\<rparr>))"

definition GetHashes :: "'w copier \<Rightarrow> int list \<Rightarrow> int \<Rightarrow> bool \<Rightarrow> 'w adapter \<Rightarrow> crc32 list \<times> 'w adapter" where
  "GetHashes mc chunk_ids num_threads ramp_up s =
     (if \<not> chunk_request_is_valid chunk_ids (mc_filesize mc) (chunk_count_for_size (mc_filesize mc) (mc_chunk_size mc))
      then ([], s)
      else let (upload_id, s) = create_copy_upload mc s in
        if upload_id = [] then ([], s)
        else let s = register_upload \<lparr>au_client = Some (mc_s3client mc), au_bucket = mc_bucket mc,
                       au_key = mc_dst_key mc, au_upload_id = upload_id\<rparr> s;
                 (crc32_results, s) =
                   (if num_threads > 0
                    then ParallelUploadPartCopyRequestsThreadPool mc upload_id (nat num_threads) ramp_up chunk_ids s
                    else ParallelUploadPartCopyRequests mc upload_id chunk_ids s);
                 (aborted, s) = abort_copy_upload mc upload_id s;
                 s = (if aborted then unregister_upload upload_id s else s)
             in (crc32_results, s))"

lemma set_distinct_ids: "set (distinct_ids seen ids) = set ids - set seen"
  by (induction ids arbitrary: seen) auto

lemma distinct_distinct_ids: "distinct (distinct_ids seen ids)"
  by (induction ids arbitrary: seen) (auto simp: set_distinct_ids)

lemma ids_to_copy_props:
  assumes "chunk_request_is_valid chunk_ids n num_chunks"
  shows "distinct (ids_to_copy chunk_ids num_chunks)"
    "set (ids_to_copy chunk_ids num_chunks) = (if chunk_ids = [] then {0 ..< num_chunks} else set chunk_ids)"
    "\<forall>i \<in> set (ids_to_copy chunk_ids num_chunks). 0 \<le> i \<and> i < num_chunks"
  using assms
  by (auto simp: ids_to_copy_def set_distinct_ids distinct_distinct_ids chunk_request_is_valid_def list_all_iff not_less not_le)

lemma chunk_count_ceil:
  assumes "0 \<le> n" "0 < cs"
  shows "chunk_count_for_size n cs = ceil_div n cs"
proof (cases "n mod cs = 0")
  case True
  have "n + cs - 1 = cs * (n div cs) + (cs - 1)" using True by (simp add: minus_mod_eq_mult_div [symmetric])
  from int_div_pos_eq [OF this] assms True show ?thesis by (auto simp: chunk_count_for_size_def ceil_div_def)
next
  case False
  have "n + cs - 1 = cs * (n div cs + 1) + (n mod cs - 1)" by (simp add: algebra_simps minus_mod_eq_mult_div [symmetric])
  moreover have "0 \<le> n mod cs - 1" "n mod cs - 1 < cs"
    using False assms(2) pos_mod_sign [of cs n] pos_mod_bound [of cs n] by linarith+
  ultimately have "(n + cs - 1) div cs = n div cs + 1" by (rule int_div_pos_eq)
  with assms False show ?thesis
    by (auto simp: chunk_count_for_size_def ceil_div_def)
qed

section \<open>What the pool computes\<close>

text \<open>
  \<open>f i\<close> is the checksum the service reports of chunk \<open>i\<close> and \<open>ok\<close> what every request of the pool keeps true of the
  service.  \<open>D\<close> are the chunks whose checksum is in the results.
\<close>

definition slots ::
  "int set \<Rightarrow> (int \<Rightarrow> crc32) \<Rightarrow> int list \<Rightarrow> int list \<Rightarrow> chunk_task list \<Rightarrow> crc32 list \<Rightarrow> nat \<Rightarrow> bool" where
  "slots D f ids queue running results n \<longleftrightarrow>
     finite D \<and> D \<subseteq> set ids \<and> D \<inter> (set queue \<union> ct_id ` set running) = {} \<and> card D = n \<and>
     (\<forall>i \<in> D. results ! nat i = f i) \<and> distinct (queue @ map ct_id running) \<and>
     set queue \<union> ct_id ` set running \<subseteq> set ids \<and>
     (\<forall>t \<in> set running. \<forall>r. ct_stage t = Back (Some r) \<longrightarrow> r = f (ct_id t)) \<and>
     (\<forall>i \<in> set ids. 0 \<le> i \<and> nat i < length results)"

definition slots_filled :: "(int \<Rightarrow> crc32) \<Rightarrow> int list \<Rightarrow> 'w pool \<Rightarrow> bool" where
  "slots_filled f ids st \<longleftrightarrow>
     (\<exists>D. slots D f ids (pl_queue st) (pl_running st) (pl_results st) (pl_succeeded st))"

lemma slots_drop_task: "slots D f ids q (xs @ t # ys) res n \<Longrightarrow> slots D f ids q (xs @ ys) res n"
  unfolding slots_def by auto

lemma slots_fill:
  assumes "slots D f ids q (xs @ t # ys) res n" "ct_stage t = Back (Some x)"
  shows "slots (insert (ct_id t) D) f ids q (xs @ ys) (res[nat (ct_id t) := x]) (Suc n)"
proof -
  note a = assms(1) [unfolded slots_def]
  have tid: "ct_id t \<in> set ids" "ct_id t \<notin> D" "x = f (ct_id t)" using a assms(2) by auto
  have new: "res[nat (ct_id t) := x] ! nat i = f i" if "i \<in> insert (ct_id t) D" for i
  proof (cases "i = ct_id t")
    case True
    with a tid show ?thesis by simp
  next
    case False
    with that have "i \<in> D" by simp
    then have "0 \<le> i" "0 \<le> ct_id t" using a tid(1) by auto
    with False have "nat (ct_id t) \<noteq> nat i" by simp
    with a \<open>i \<in> D\<close> show ?thesis by simp
  qed
  have "ct_id t \<notin> set q \<union> ct_id ` set (xs @ ys)" using a by auto
  with slots_drop_task [OF assms(1), unfolded slots_def] tid new show ?thesis
    unfolding slots_def by (intro conjI) simp_all
qed

lemma slots_replace_task:
  assumes "slots D f ids q running res n" "k < length running"
    and "\<And>r. stage = Back (Some r) \<Longrightarrow> r = f (ct_id (running ! k))"
  shows "slots D f ids q (running[k := (running ! k)\<lparr>ct_stage := stage\<rparr>]) res n"
proof -
  let ?t = "(running ! k)\<lparr>ct_stage := stage\<rparr>"
  have m: "map ct_id (running[k := ?t]) = map ct_id running"
    using assms(2) by (simp add: map_update list_update_same_conv)
  then have s: "ct_id ` set (running[k := ?t]) = ct_id ` set running" by (metis set_map)
  have b: "r = f (ct_id t)" if "t \<in> set (running[k := ?t])" "ct_stage t = Back (Some r)" for t r
  proof -
    from that(1) set_update_subset_insert [of running k ?t] consider "t = ?t" | "t \<in> set running" by auto
    then show ?thesis
    proof cases
      case 1
      with that(2) assms(3) show ?thesis by simp
    next
      case 2
      with that(2) assms(1) show ?thesis by (simp add: slots_def)
    qed
  qed
  show ?thesis using assms(1) b unfolding slots_def s m by simp
qed

lemma process_chunk_answer:
  assumes "ProcessSingleChunk mc u i stage st = (stage', st')" "stage' = Back (Some r)" "\<And>r. stage \<noteq> Back r"
  shows "\<exists>a out w'. copy_chunk mc u i (pl_world st) = (out, w') \<and> chunk_answer_of mc a out = Checksum r"
  using assms
  by (auto simp: ProcessSingleChunk_def Let_def split: chunk_stage.splits nat.splits prod.splits chunk_answer.splits if_splits)

lemma process_chunk_world:
  assumes "ProcessSingleChunk mc u i stage st = (stage', st')"
  shows "pl_world st' = pl_world st \<or> (\<exists>out. copy_chunk mc u i (pl_world st) = (out, pl_world st'))"
  using assms
  by (auto simp: ProcessSingleChunk_def Let_def split: chunk_stage.splits nat.splits prod.splits chunk_answer.splits if_splits)

lemma finish_chunk_slots:
  assumes "slots_filled f ids st" "k < length (pl_running st)" "ct_stage (pl_running st ! k) = Back r"
  shows "slots_filled f ids ((finish_chunk (ct_id (pl_running st ! k)) r st)
           \<lparr>pl_running := take k (pl_running st) @ drop (Suc k) (pl_running st)\<rparr>)"
proof -
  define t where "t = pl_running st ! k"
  have split: "pl_running st = take k (pl_running st) @ t # drop (Suc k) (pl_running st)"
    using id_take_nth_drop [OF assms(2)] by (simp add: t_def)
  from assms(1) obtain D where
    D: "slots D f ids (pl_queue st) (take k (pl_running st) @ t # drop (Suc k) (pl_running st)) (pl_results st) (pl_succeeded st)"
    unfolding slots_filled_def using split by metis
  have stage: "ct_stage t = Back r" using assms(3) by (simp add: t_def)
  show ?thesis
  proof (cases r)
    case None
    with slots_drop_task [OF D] show ?thesis by (auto simp: slots_filled_def finish_chunk_def Let_def)
  next
    case (Some x)
    with slots_fill [OF D, of x] stage show ?thesis
      by (auto simp: slots_filled_def finish_chunk_def Let_def t_def)
  qed
qed

lemma step_chunk_slots:
  assumes "slots_filled f ids st" "ok (pl_world st)" "k < length (pl_running st)"
    and "\<And>i w out w'. i \<in> set ids \<Longrightarrow> ok w \<Longrightarrow> copy_chunk mc u i w = (out, w') \<Longrightarrow>
           ok w' \<and> (\<forall>a crc. chunk_answer_of mc a out = Checksum crc \<longrightarrow> crc = f i)"
  shows "slots_filled f ids (step_chunk mc u tracked k st) \<and> ok (pl_world (step_chunk mc u tracked k st))"
  using assms(3)
proof (cases rule: step_chunk_cases [where mc = mc and u = u and tracked = tracked])
  case (ends r)
  note sl = finish_chunk_slots [OF assms(1,3) ends(1)]
  show ?thesis
  proof (cases tracked)
    case None
    with sl ends(2) assms(2) show ?thesis by (simp add: Let_def)
  next
    case (Some n)
    have "slots_filled f ids (track_chunk n e st2) = slots_filled f ids st2" for e and st2 :: "'a pool"
      by (simp add: slots_filled_def)
    with Some sl ends(2) assms(2) show ?thesis by (simp add: Let_def)
  qed
next
  case (work stage st1)
  let ?t = "pl_running st ! k"
  from assms(1) obtain D where D: "slots D f ids (pl_queue st) (pl_running st) (pl_results st) (pl_succeeded st)"
    unfolding slots_filled_def by blast
  then have tid: "ct_id ?t \<in> set ids" using assms(3) by (auto simp: slots_def)
  have ok: "ok (pl_world st1)"
    using process_chunk_world [OF work(2)] assms(2) assms(4) [OF tid] by auto
  have "r = f (ct_id ?t)" if "stage = Back (Some r)" for r
    using process_chunk_answer [OF work(2) that work(1)] assms(4) [OF tid assms(2)] by blast
  from slots_replace_task [OF D assms(3) this] process_chunk_frame [OF work(2)] ok
  show ?thesis unfolding work(3) slots_filled_def by auto
qed

lemma pool_step_slots:
  assumes "\<And>i w out w'. i \<in> set ids \<Longrightarrow> ok w \<Longrightarrow> copy_chunk mc u i w = (out, w') \<Longrightarrow>
           ok w' \<and> (\<forall>a crc. chunk_answer_of mc a out = Checksum crc \<longrightarrow> crc = f i)"
    and "slots_filled f ids st \<and> ok (pl_world st)" "who \<in> set (possible_steps st)"
  shows "slots_filled f ids (pool_step mc u tracked who st) \<and> ok (pl_world (pool_step mc u tracked who st))"
proof (cases who)
  case None
  with assms(3) obtain st' where s: "step_submit_chunk st = Some st'" by (auto simp: possible_steps_iff)
  from s have "slots_filled f ids st' \<and> pl_world st' = pl_world st"
  proof (cases rule: step_submit_chunk_cases)
    case (stops c i rest)
    with assms(2) show ?thesis by (auto simp: slots_filled_def slots_def)
  next
    case (starts c i rest)
    from assms(2) obtain D where "slots D f ids (i # rest) (pl_running st) (pl_results st) (pl_succeeded st)"
      unfolding slots_filled_def using starts(1) by metis
    then have "slots D f ids rest (pl_running st @ [start_chunk i st]) (pl_results st) (pl_succeeded st)"
      by (simp add: slots_def start_chunk_def)
    with starts(3) show ?thesis by (auto simp: slots_filled_def)
  qed
  with None s assms(2) show ?thesis by (simp add: pool_step_def)
next
  case (Some k)
  with assms(3) have k: "k < length (pl_running st)" by (simp add: possible_steps_iff)
  from assms(2) Some show ?thesis
    using step_chunk_slots [where f = f and ids = ids and ok = ok, OF _ _ k assms(1)] by (simp add: pool_step_def)
qed

text \<open>When the pool is at rest with as many successes as chunks, the results are all there.\<close>

lemma slots_all_filled:
  assumes "slots_filled f ids st" "distinct ids" "pl_succeeded st = length ids"
  shows "\<forall>i \<in> set ids. pl_results st ! nat i = f i"
proof -
  from assms(1) obtain D where D: "finite D" "D \<subseteq> set ids" "card D = length ids" "\<forall>i \<in> D. pl_results st ! nat i = f i"
    unfolding slots_filled_def slots_def assms(3) by blast
  have "D = set ids" by (rule card_subset_eq) (use D distinct_card [OF assms(2)] in auto)
  with D show ?thesis by simp
qed

lemma run_pool_slots:
  assumes "run_pool mc u tracked choices st = (st', choices')" "slots_filled f ids st" "ok (pl_world st)"
    and "\<And>i w out w'. i \<in> set ids \<Longrightarrow> ok w \<Longrightarrow> copy_chunk mc u i w = (out, w') \<Longrightarrow>
           ok w' \<and> (\<forall>a crc. chunk_answer_of mc a out = Checksum crc \<longrightarrow> crc = f i)"
  shows "slots_filled f ids st' \<and> ok (pl_world st')"
proof (rule conjunct1 [OF run_pool_rule [OF assms(1)]])
  show "slots_filled f ids st \<and> ok (pl_world st)" using assms(2,3) by simp
  show "slots_filled f ids (pool_step mc u tracked who st) \<and> ok (pl_world (pool_step mc u tracked who st))"
    if "slots_filled f ids st \<and> ok (pl_world st)" "who \<in> set (possible_steps st)" for st who
    by (rule pool_step_slots [where f = f and ids = ids and ok = ok, OF _ that]) (rule assms(4))
qed

section \<open>The pool keeps its window and comes to rest\<close>

definition pool_bounded :: "nat \<Rightarrow> 'w pool \<Rightarrow> bool" where
  "pool_bounded n st \<longleftrightarrow> min 16 n \<le> pl_window st \<and> pl_window st \<le> n \<and> length (pl_running st) \<le> n"

lemma track_chunk_bounded:
  "pool_bounded n st \<Longrightarrow> pool_bounded n (track_chunk n e st)"
  by (auto simp: pool_bounded_def track_chunk_def Let_def)

lemma pool_step_bounded:
  assumes "pool_bounded n st" "who \<in> set (possible_steps st)"
  shows "pool_bounded n (pool_step mc u (Some n) who st)"
proof (cases who)
  case None
  with assms(2) obtain st' where s: "step_submit_chunk st = Some st'" by (auto simp: possible_steps_iff)
  from s have "pool_bounded n st'"
    by (cases rule: step_submit_chunk_cases) (use assms(1) in \<open>auto simp: pool_bounded_def\<close>)
  with None s show ?thesis by (simp add: pool_step_def)
next
  case (Some k)
  with assms(2) have k: "k < length (pl_running st)" by (simp add: possible_steps_iff)
  then have "pool_bounded n (step_chunk mc u (Some n) k st)"
  proof (cases rule: step_chunk_cases [where mc = mc and u = u and tracked = "Some n"])
    case (ends r)
    have "pool_bounded n ((finish_chunk (ct_id (pl_running st ! k)) r st)\<lparr>pl_running := take k (pl_running st) @ drop (Suc k) (pl_running st)\<rparr>)"
      using assms(1) k by (auto simp: pool_bounded_def)
    from track_chunk_bounded [OF this] ends(2) show ?thesis by (simp add: Let_def)
  next
    case (work stage st1)
    with process_chunk_frame [OF work(2)] assms(1) show ?thesis by (simp add: pool_bounded_def)
  qed
  with Some show ?thesis by (simp add: pool_step_def)
qed

text \<open>The submitting thread never waits for a slot that no running task will free.\<close>

lemma pool_at_rest:
  assumes "possible_steps st = []" "pl_queue st = [] \<or> 0 < pl_window st"
  shows "pl_queue st = [] \<and> pl_running st = []"
proof -
  have r: "pl_running st = []" and n: "step_submit_chunk st = None"
    using assms(1) by (auto simp: possible_steps_def split: if_splits)
  have "pl_queue st = []"
  proof (rule ccontr)
    assume "pl_queue st \<noteq> []"
    then obtain i ids where q: "pl_queue st = i # ids" by (cases "pl_queue st") auto
    obtain stop st1 where c1: "check_stop st = (stop, st1)" by fastforce
    obtain stop' st2 where c2: "check_stop st1 = (stop', st2)" by fastforce
    from n q c1 c2 r assms(2) show False by (simp add: step_submit_chunk_def split: if_splits)
  qed
  with r show ?thesis by simp
qed

lemma run_pool_ends:
  assumes "run_pool mc u (Some n) choices st = (st', choices')" "pool_bounded n st" "0 < n"
  shows "pool_bounded n st' \<and> pl_queue st' = [] \<and> pl_running st' = []"
proof -
  from run_pool_rule [where P = "pool_bounded n", OF assms(1,2) pool_step_bounded]
  have "pool_bounded n st'" "possible_steps st' = []" by auto
  moreover from this(1) assms(3) have "0 < pl_window st'" by (auto simp: pool_bounded_def)
  ultimately show ?thesis using pool_at_rest [of st'] by blast
qed

section \<open>The checksums a service reports\<close>

text \<open>What a copier asks of its service: the checksum of a copied chunk \<open>i\<close> is \<open>f i\<close>, and no request breaks \<open>ok\<close>.\<close>

definition copier_served :: "('w \<Rightarrow> bool) \<Rightarrow> (int \<Rightarrow> crc32) \<Rightarrow> 'w copier \<Rightarrow> bool" where
  "copier_served ok f mc \<longleftrightarrow>
     (\<forall>w r w'. ok w \<longrightarrow> sdk_CreateMultipartUpload (mc_s3client mc) (mc_bucket mc) (mc_dst_key mc) w = (r, w') \<longrightarrow> ok w') \<and>
     (\<forall>u w r w'. ok w \<longrightarrow> sdk_AbortMultipartUpload (mc_s3client mc) (mc_bucket mc) (mc_dst_key mc) u w = (r, w') \<longrightarrow> ok w') \<and>
     (\<forall>u i w r w'. 0 \<le> i \<longrightarrow> i < chunk_count_for_size (mc_filesize mc) (mc_chunk_size mc) \<longrightarrow> ok w \<longrightarrow>
        copy_chunk mc u i w = (r, w') \<longrightarrow>
        ok w' \<and> (\<forall>a crc. chunk_answer_of mc a r = Checksum crc \<longrightarrow> crc = f i))"

lemma copier_served_create:
  "copier_served ok f mc \<Longrightarrow> ok w \<Longrightarrow>
     sdk_CreateMultipartUpload (mc_s3client mc) (mc_bucket mc) (mc_dst_key mc) w = (r, w') \<Longrightarrow> ok w'"
  unfolding copier_served_def by metis

lemma copier_served_abort:
  "copier_served ok f mc \<Longrightarrow> ok w \<Longrightarrow>
     sdk_AbortMultipartUpload (mc_s3client mc) (mc_bucket mc) (mc_dst_key mc) u w = (r, w') \<Longrightarrow> ok w'"
  unfolding copier_served_def by metis

lemma copier_served_chunk:
  "copier_served ok f mc \<Longrightarrow> ok w \<Longrightarrow> copy_chunk mc u i w = (r, w') \<Longrightarrow> 0 \<le> i \<Longrightarrow>
     i < chunk_count_for_size (mc_filesize mc) (mc_chunk_size mc) \<Longrightarrow>
     ok w' \<and> (\<forall>a crc. chunk_answer_of mc a r = Checksum crc \<longrightarrow> crc = f i)"
  unfolding copier_served_def by metis

lemma initial_slots:
  assumes "chunk_request_is_valid chunk_ids n num_chunks"
  shows "slots_filled f (ids_to_copy chunk_ids num_chunks) (initial_pool num_chunks (ids_to_copy chunk_ids num_chunks) win s)"
    "slots_filled f (ids_to_copy chunk_ids num_chunks)
       ((initial_pool num_chunks [] win s)\<lparr>pl_running := map (\<lambda>i. start_chunk i st) (ids_to_copy chunk_ids num_chunks)\<rparr>)"
proof -
  let ?ids = "ids_to_copy chunk_ids num_chunks"
  have fits: "\<forall>i \<in> set ?ids. 0 \<le> i \<and> nat i < nat num_chunks" using ids_to_copy_props(3) [OF assms] by auto
  have d: "distinct ?ids" by (rule ids_to_copy_props(1) [OF assms])
  have "slots {} f ?ids ?ids [] (replicate (nat num_chunks) 0) 0"
    using fits d by (simp add: slots_def)
  then show "slots_filled f ?ids (initial_pool num_chunks ?ids win s)"
    unfolding slots_filled_def initial_pool_def by auto
  have m: "map ct_id (map (\<lambda>i. start_chunk i st) ?ids) = ?ids" by (simp add: start_chunk_def comp_def)
  then have "ct_id ` set (map (\<lambda>i. start_chunk i st) ?ids) = set ?ids" by (metis set_map)
  with m have "slots {} f ?ids [] (map (\<lambda>i. start_chunk i st) ?ids) (replicate (nat num_chunks) 0) 0"
    using fits d unfolding slots_def by (auto simp: start_chunk_def)
  then show "slots_filled f ?ids ((initial_pool num_chunks [] win s)\<lparr>pl_running := map (\<lambda>i. start_chunk i st) ?ids\<rparr>)"
    unfolding slots_filled_def initial_pool_def by auto
qed

lemma pool_answer_exact:
  assumes "slots_filled f ids st" "chunk_request_is_valid chunk_ids n num_chunks" "ids = ids_to_copy chunk_ids num_chunks"
    and "length (pl_results st) = nat num_chunks"
  shows "pool_answer chunk_ids (length ids) e st = [] \<or>
         pool_answer chunk_ids (length ids) e st = map f (if chunk_ids = [] then [0 .. num_chunks - 1] else chunk_ids)"
proof (cases "0 < e \<or> pl_succeeded st \<noteq> length ids")
  case True
  then show ?thesis by (auto simp: pool_answer_def)
next
  case False
  note props = ids_to_copy_props [OF assms(2), folded assms(3)]
  from slots_all_filled [OF assms(1) props(1)] False have r: "\<forall>i \<in> set ids. pl_results st ! nat i = f i" by simp
  show ?thesis
  proof (cases "chunk_ids = []")
    case True
    have "pl_results st = map f [0 .. num_chunks - 1]"
    proof (rule nth_equalityI)
      fix i assume "i < length (pl_results st)"
      then have "int i \<in> set ids" "i < nat num_chunks" using props(2) True assms(4) by auto
      with r have "pl_results st ! i = f (int i)" by fastforce
      with \<open>i < nat num_chunks\<close> show "pl_results st ! i = map f [0 .. num_chunks - 1] ! i" by simp
    qed (use assms(4) in simp)
    with True False show ?thesis by (simp add: pool_answer_def)
  next
    case nz: False
    with r props(2) False show ?thesis by (simp add: pool_answer_def)
  qed
qed

lemma step_chunk_results:
  "k < length (pl_running st) \<Longrightarrow> length (pl_results (step_chunk mc u tracked k st)) = length (pl_results st)"
  by (erule step_chunk_cases [where mc = mc and u = u and tracked = tracked])
    (auto simp: Let_def finish_chunk_def dest: process_chunk_frame(1) split: option.splits)

lemma pool_step_results:
  assumes "who \<in> set (possible_steps st)"
  shows "length (pl_results (pool_step mc u tracked who st)) = length (pl_results st)"
  using assms
  by (auto simp: possible_steps_iff pool_step_def step_chunk_results split: option.splits elim: step_submit_chunk_cases)

lemma pool_answers:
  assumes "copier_served ok f mc" "run_pool mc u tracked choices st = (st', choices')" "ok (pl_world st)"
    and "num_chunks = chunk_count_for_size (mc_filesize mc) (mc_chunk_size mc)"
    and "chunk_request_is_valid chunk_ids (mc_filesize mc) num_chunks" "ids = ids_to_copy chunk_ids num_chunks"
    and "slots_filled f ids st" "length (pl_results st) = nat num_chunks"
  shows "ok (pl_world st') \<and> (pool_answer chunk_ids (length ids) e st' = [] \<or>
         pool_answer chunk_ids (length ids) e st' = map f (if chunk_ids = [] then [0 .. num_chunks - 1] else chunk_ids))"
proof -
  have served: "ok w' \<and> (\<forall>a crc. chunk_answer_of mc a out = Checksum crc \<longrightarrow> crc = f i)"
    if "i \<in> set ids" "ok w" "copy_chunk mc u i w = (out, w')" for i w out w'
    using copier_served_chunk [OF assms(1) that(2,3)] ids_to_copy_props(3) [OF assms(5)] that(1) assms(4,6) by simp
  from run_pool_slots [where f = f and ids = ids and ok = ok, OF assms(2,7,3) served]
  have sl: "slots_filled f ids st'" "ok (pl_world st')" by auto
  have "length (pl_results st') = nat num_chunks"
    using run_pool_rule [where P = "\<lambda>s. length (pl_results s) = nat num_chunks", OF assms(2,8)] pool_step_results by metis
  from pool_answer_exact [OF sl(1) assms(5,6) this] sl(2) show ?thesis by blast
qed

lemma GetHashes_exact:
  assumes "GetHashes mc chunk_ids n ramp_up s = (crcs, s')" "copier_served ok f mc" "ok (ad_world s)"
  shows "ok (ad_world s') \<and> (crcs = [] \<or>
     crcs = map f (if chunk_ids = [] then [0 .. chunk_count_for_size (mc_filesize mc) (mc_chunk_size mc) - 1] else chunk_ids))"
proof -
  define num_chunks where "num_chunks = chunk_count_for_size (mc_filesize mc) (mc_chunk_size mc)"
  define ids where "ids = ids_to_copy chunk_ids num_chunks"
  show ?thesis
  proof (cases "chunk_request_is_valid chunk_ids (mc_filesize mc) num_chunks")
    case False
    with assms show ?thesis by (simp add: GetHashes_def num_chunks_def)
  next
    case True
    obtain u s1 where c: "create_copy_upload mc s = (u, s1)" by fastforce
    have ok1: "ok (ad_world s1)"
      using c copier_served_create [OF assms(2,3)] by (auto simp: create_copy_upload_def split: prod.splits outcome.splits)
    show ?thesis
    proof (cases "u = []")
      case un: True
      with assms(1) True c ok1 show ?thesis by (simp add: GetHashes_def num_chunks_def)
    next
      case un: False
      define s2 where "s2 = register_upload \<lparr>au_client = Some (mc_s3client mc), au_bucket = mc_bucket mc,
         au_key = mc_dst_key mc, au_upload_id = u\<rparr> s1"
      have ok2: "ok (ad_world s2)" using ok1 by (simp add: s2_def register_upload_def)
      obtain r s3 where p: "(if n > 0 then ParallelUploadPartCopyRequestsThreadPool mc u (nat n) ramp_up chunk_ids s2
          else ParallelUploadPartCopyRequests mc u chunk_ids s2) = (r, s3)" by fastforce
      obtain a s4 where ab: "abort_copy_upload mc u s3 = (a, s4)" by fastforce
      have "ok (ad_world s3) \<and> (r = [] \<or> r = map f (if chunk_ids = [] then [0 .. num_chunks - 1] else chunk_ids))"
      proof (cases "n > 0")
        case th: True
        let ?st = "initial_pool num_chunks ids (if ramp_up then min 16 (nat n) else nat n) s2"
        obtain st' cs where run: "run_pool mc u (Some (nat n)) (ad_choices s2) ?st = (st', cs)" by fastforce
        have "r = pool_answer chunk_ids (length ids) (pl_errors st') st'" "s3 = after_pool st' cs s2"
          using p th True run
          by (simp_all add: ParallelUploadPartCopyRequestsThreadPool_def num_chunks_def [symmetric] ids_def [symmetric] Let_def)
        moreover have "slots_filled f ids ?st" unfolding ids_def by (rule initial_slots(1) [OF True])
        moreover have "ok (pl_world ?st)" "length (pl_results ?st) = nat num_chunks" using ok2 by (simp_all add: initial_pool_def)
        ultimately show ?thesis
          using pool_answers [OF assms(2) run _ num_chunks_def True ids_def, of "pl_errors st'"] by (simp add: after_pool_def)
      next
        case th: False
        let ?st0 = "initial_pool num_chunks [] (length ids) s2"
        let ?st = "?st0\<lparr>pl_running := map (\<lambda>i. start_chunk i ?st0) ids\<rparr>"
        obtain st' cs where run: "run_pool mc u None (ad_choices s2) ?st = (st', cs)" by fastforce
        obtain late cs' where l: "next_choice cs = (late, cs')" by fastforce
        have "r = pool_answer chunk_ids (length ids) (pl_errors st' + late) st'" "s3 = after_pool st' cs' s2"
          using p th True run l
          by (simp_all add: ParallelUploadPartCopyRequests_def num_chunks_def [symmetric] ids_def [symmetric] Let_def)
        moreover have "slots_filled f ids ?st" unfolding ids_def by (rule initial_slots(2) [OF True])
        moreover have "ok (pl_world ?st)" "length (pl_results ?st) = nat num_chunks" using ok2 by (simp_all add: initial_pool_def)
        ultimately show ?thesis
          using pool_answers [OF assms(2) run _ num_chunks_def True ids_def, of "pl_errors st' + late"] by (simp add: after_pool_def)
      qed
      moreover have "ok (ad_world s4)" if "ok (ad_world s3)"
        using ab copier_served_abort [OF assms(2) that] by (auto simp: abort_copy_upload_def split: prod.splits outcome.splits)
      moreover have "crcs = r \<and> s' = (if a then unregister_upload u s4 else s4)"
        using assms(1) True c un p [unfolded s2_def] ab by (simp add: GetHashes_def num_chunks_def Let_def)
      ultimately show ?thesis by (auto simp: num_chunks_def unregister_upload_def)
    qed
  qed
qed

section \<open>What the copies leave alone\<close>

lemma pool_step_keeps:
  assumes "ok (pl_world st)" "who \<in> set (possible_steps st)"
    and "\<And>i w out w'. ok w \<Longrightarrow> copy_chunk mc u i w = (out, w') \<Longrightarrow> ok w'"
  shows "ok (pl_world (pool_step mc u tracked who st))"
proof (cases who)
  case None
  with assms(2) obtain st' where s: "step_submit_chunk st = Some st'" by (auto simp: possible_steps_iff)
  from s have "pl_world st' = pl_world st" by (cases rule: step_submit_chunk_cases) auto
  with None s assms(1) show ?thesis by (simp add: pool_step_def)
next
  case (Some k)
  with assms(2) have "k < length (pl_running st)" by (simp add: possible_steps_iff)
  then have "ok (pl_world (step_chunk mc u tracked k st))"
  proof (cases rule: step_chunk_cases [where mc = mc and u = u and tracked = tracked])
    case (ends r)
    with assms(1) show ?thesis by (cases tracked) (simp_all add: Let_def)
  next
    case (work stage st1)
    with process_chunk_world [OF work(2)] assms(1,3) show ?thesis by auto
  qed
  with Some show ?thesis by (simp add: pool_step_def)
qed

lemma pools_keep:
  assumes "(if n > 0 then ParallelUploadPartCopyRequestsThreadPool mc u (nat n) ramp_up chunk_ids s
     else ParallelUploadPartCopyRequests mc u chunk_ids s) = (r, s')" "ok (ad_world s)"
    and "\<And>i w out w'. ok w \<Longrightarrow> copy_chunk mc u i w = (out, w') \<Longrightarrow> ok w'"
  shows "ok (ad_world s') \<and> ad_uploads s' = ad_uploads s"
proof -
  have run: "ok (pl_world st')" if "run_pool mc u tracked choices st = (st', choices')" "ok (pl_world st)"
    for tracked choices st st' choices'
  proof (rule conjunct1 [OF run_pool_rule [where P = "\<lambda>st. ok (pl_world st)", OF that]])
    show "ok (pl_world (pool_step mc u tracked who st))" if "ok (pl_world st)" "who \<in> set (possible_steps st)" for st who
      by (rule pool_step_keeps [where ok = ok, OF that]) (rule assms(3))
  qed
  show ?thesis
  proof (cases "n > 0")
    case True
    with assms(1,2) show ?thesis
      by (auto simp: ParallelUploadPartCopyRequestsThreadPool_def Let_def after_pool_def initial_pool_def
          split: if_splits prod.splits dest!: run)
  next
    case False
    with assms(1,2) show ?thesis
      by (auto simp: ParallelUploadPartCopyRequests_def Let_def after_pool_def initial_pool_def
          split: if_splits prod.splits dest!: run)
  qed
qed

lemma GetHashes_keeps:
  assumes "GetHashes mc chunk_ids n ramp_up s = (crcs, s')" "ok (ad_world s)"
    and "\<And>w r w'. ok w \<Longrightarrow> sdk_CreateMultipartUpload (mc_s3client mc) (mc_bucket mc) (mc_dst_key mc) w = (r, w') \<Longrightarrow> ok w'"
    and "\<And>u w r w'. ok w \<Longrightarrow> sdk_AbortMultipartUpload (mc_s3client mc) (mc_bucket mc) (mc_dst_key mc) u w = (r, w') \<Longrightarrow> ok w'"
    and "\<And>u i w r w'. ok w \<Longrightarrow> copy_chunk mc u i w = (r, w') \<Longrightarrow> ok w'"
  shows "ok (ad_world s')"
proof (cases "chunk_request_is_valid chunk_ids (mc_filesize mc) (chunk_count_for_size (mc_filesize mc) (mc_chunk_size mc))")
  case False
  with assms(1,2) show ?thesis by (simp add: GetHashes_def)
next
  case True
  obtain u s1 where c: "create_copy_upload mc s = (u, s1)" by fastforce
  have ok1: "ok (ad_world s1)"
    using c assms(3) [OF assms(2)] by (auto simp: create_copy_upload_def split: prod.splits outcome.splits)
  show ?thesis
  proof (cases "u = []")
    case un: True
    with assms(1) True c ok1 show ?thesis by (simp add: GetHashes_def)
  next
    case un: False
    define s2 where "s2 = register_upload \<lparr>au_client = Some (mc_s3client mc), au_bucket = mc_bucket mc,
       au_key = mc_dst_key mc, au_upload_id = u\<rparr> s1"
    obtain r s3 where p: "(if n > 0 then ParallelUploadPartCopyRequestsThreadPool mc u (nat n) ramp_up chunk_ids s2
        else ParallelUploadPartCopyRequests mc u chunk_ids s2) = (r, s3)" by fastforce
    obtain a s4 where ab: "abort_copy_upload mc u s3 = (a, s4)" by fastforce
    have "ok (ad_world s2)" using ok1 by (simp add: s2_def register_upload_def)
    have "ok (ad_world s3)" by (rule conjunct1 [OF pools_keep [where ok = ok, OF p \<open>ok (ad_world s2)\<close>]]) (rule assms(5))
    then have "ok (ad_world s4)"
      using ab assms(4) by (auto simp: abort_copy_upload_def split: prod.splits outcome.splits)
    moreover have "s' = (if a then unregister_upload u s4 else s4)"
      using assms(1) True c un p [unfolded s2_def] ab by (simp add: GetHashes_def Let_def)
    ultimately show ?thesis by (simp add: unregister_upload_def)
  qed
qed

end
