(* ===== verification/Bounded_File.thy ===== *)
theory Bounded_File
  imports Prelude
begin

text \<open>
  \<^verbatim>\<open>BoundedFileBuf\<close> of s3_client_impl.cpp: the stream buffer an upload sends a file through.  It hands out
  at most \<open>limit\<close> bytes and can seek, so that a request can be sent again.  The file is given by its
  bytes; the \<^verbatim>\<open>ifstream\<close> keeps its position and, after a read that came up short, its error state,
  in which it reads nothing more until \<^verbatim>\<open>clear\<close>.  The get area is the unread rest of the buffer,
  \<^term>\<open>None\<close> while its pointers are null.

  The contract of the component is the locale \<open>byte_source\<close>, a reader with a position over some bytes;
  the buffer implements it for the first \<open>limit\<close> bytes of the file.
\<close>

record bounded_buf =
  bf_file :: "byte list"
  bf_pos :: nat
  bf_failed :: bool
  bf_limit :: int
  bf_remaining :: int
  bf_get :: "byte list option"

definition buffer_size :: int where "buffer_size = 2 ^ 16"

definition open_bounded :: "byte list \<Rightarrow> int \<Rightarrow> bounded_buf" where
  "open_bounded content limit = \<lparr>bf_file = content, bf_pos = 0, bf_failed = False, bf_limit = limit,
     bf_remaining = limit, bf_get = None\<rparr>"

text \<open>\<^verbatim>\<open>file_.read\<close> and \<^verbatim>\<open>file_.gcount\<close>.\<close>

definition file_read :: "nat \<Rightarrow> bounded_buf \<Rightarrow> byte list \<times> bounded_buf" where
  "file_read want st =
     (if bf_failed st then ([], st)
      else let got = take want (drop (bf_pos st) (bf_file st))
           in (got, st\<lparr>bf_pos := bf_pos st + length got, bf_failed := length got < want\<rparr>))"

definition unread :: "bounded_buf \<Rightarrow> byte list" where
  "unread st = (case bf_get st of None \<Rightarrow> [] | Some bs \<Rightarrow> bs)"

text \<open>\<^verbatim>\<open>underflow\<close>: the next byte without consuming it; \<^term>\<open>None\<close> is the end of the stream.\<close>

definition underflow :: "bounded_buf \<Rightarrow> byte option \<times> bounded_buf" where
  "underflow st =
     (case unread st of
        b # _ \<Rightarrow> (Some b, st)
      | [] \<Rightarrow>
          if bf_remaining st \<le> 0 then (None, st)
          else let want = min buffer_size (bf_remaining st);
                   (got, st) = file_read (nat want) st
               in case got of
                    [] \<Rightarrow> (None, st)
                  | b # _ \<Rightarrow> (Some b, st\<lparr>bf_remaining := bf_remaining st - int (length got), bf_get := Some got\<rparr>))"

text \<open>\<^verbatim>\<open>sbumpc\<close> of the standard library: the next byte, consumed.\<close>

definition next_byte :: "bounded_buf \<Rightarrow> byte option \<times> bounded_buf" where
  "next_byte st =
     (case underflow st of
        (None, st) \<Rightarrow> (None, st)
      | (Some b, st) \<Rightarrow> (Some b, st\<lparr>bf_get := Some (tl (unread st))\<rparr>))"

datatype seek_dir = FromStart | FromCurrent | FromEnd

definition current_offset :: "bounded_buf \<Rightarrow> int" where
  "current_offset st = bf_limit st - bf_remaining st - int (length (unread st))"

definition seekoff :: "int \<Rightarrow> seek_dir \<Rightarrow> bool \<Rightarrow> bounded_buf \<Rightarrow> int \<times> bounded_buf" where
  "seekoff off dir for_input st =
     (if \<not> for_input then (-1, st)
      else let target = (case dir of
                           FromStart \<Rightarrow> off
                         | FromCurrent \<Rightarrow> current_offset st + off
                         | FromEnd \<Rightarrow> bf_limit st + off)
           in if target < 0 \<or> target > bf_limit st then (-1, st)
              else (target, st\<lparr>bf_failed := False, bf_pos := nat target, bf_remaining := bf_limit st - target,
                               bf_get := None\<rparr>))"

definition seekpos :: "int \<Rightarrow> bool \<Rightarrow> bounded_buf \<Rightarrow> int \<times> bounded_buf" where
  "seekpos pos for_input st = seekoff pos FromStart for_input st"

section \<open>The contract\<close>

text \<open>What a reader gets that reads \<open>n\<close> bytes or to the end.\<close>

primrec read_bytes :: "('s \<Rightarrow> 'b option \<times> 's) \<Rightarrow> nat \<Rightarrow> 's \<Rightarrow> 'b list \<times> 's" where
  "read_bytes next_of 0 s = ([], s)"
| "read_bytes next_of (Suc n) s =
     (case next_of s of (None, s) \<Rightarrow> ([], s) | (Some b, s) \<Rightarrow> let (bs, s) = read_bytes next_of n s in (b # bs, s))"

text \<open>
  A source of bytes with a position: \<open>content s\<close> is all it can deliver, \<open>position s\<close> how far it has come.
  Reading takes the byte at the position; seeking to a place within the limit makes it the position.
\<close>

locale byte_source =
  fixes next_of :: "'s \<Rightarrow> 'b option \<times> 's" and seek :: "int \<Rightarrow> 's \<Rightarrow> int \<times> 's"
    and content :: "'s \<Rightarrow> 'b list" and position :: "'s \<Rightarrow> nat" and valid :: "'s \<Rightarrow> bool"
  assumes next_byte: "valid s \<Longrightarrow> next_of s = (r, s') \<Longrightarrow> valid s' \<and> content s' = content s \<and>
      (if position s < length (content s) then r = Some (content s ! position s) \<and> position s' = Suc (position s)
       else r = None \<and> position s' = position s)"
    and seek_within: "valid s \<Longrightarrow> 0 \<le> i \<Longrightarrow> i \<le> int (length (content s)) \<Longrightarrow> seek i s = (j, s') \<Longrightarrow>
      j = i \<and> valid s' \<and> content s' = content s \<and> position s' = nat i"
begin

lemma read_bytes_content:
  assumes "valid s" "read_bytes next_of n s = (bs, s')"
  shows "bs = take n (drop (position s) (content s)) \<and> valid s' \<and> content s' = content s"
  using assms
proof (induction n arbitrary: s bs s')
  case (Suc n)
  obtain r s1 where r: "next_of s = (r, s1)" by fastforce
  note n = next_byte [OF Suc.prems(1) r]
  show ?case
  proof (cases "position s < length (content s)")
    case False
    with n Suc.prems r show ?thesis by simp
  next
    case True
    obtain cs s2 where q: "read_bytes next_of n s1 = (cs, s2)" by fastforce
    with True n Suc.prems(2) r have "bs = content s ! position s # cs \<and> s' = s2" by simp
    moreover from Suc.IH [OF _ q] n have "cs = take n (drop (position s1) (content s1)) \<and> valid s2 \<and> content s2 = content s1"
      by blast
    ultimately show ?thesis using True n by (auto simp: Cons_nth_drop_Suc [symmetric])
  qed
qed simp

text \<open>Sending it again after a rewind sends the same bytes.\<close>

lemma rewound_same:
  assumes "valid s" "position s = 0" "length (content s) \<le> n" "read_bytes next_of m s = (bs, s1)" "seek 0 s1 = (j, s2)"
    "read_bytes next_of n s2 = (cs, s3)"
  shows "cs = content s"
proof -
  note a = read_bytes_content [OF assms(1,4)]
  with seek_within [OF _ _ _ assms(5)] have "valid s2 \<and> content s2 = content s \<and> position s2 = 0" by simp
  with read_bytes_content [OF _ assms(6)] assms(3) show ?thesis by simp
qed

end

section \<open>The buffer implements it\<close>

definition bounded_content :: "bounded_buf \<Rightarrow> byte list" where
  "bounded_content st = take (nat (bf_limit st)) (bf_file st)"

definition bounded_position :: "bounded_buf \<Rightarrow> nat" where
  "bounded_position st = nat (current_offset st)"

text \<open>
  The state between calls: the file is as far as the bytes taken from it, the get area holds the last
  of them, and the file is in its error state only at its end.
\<close>

definition bounded_valid :: "bounded_buf \<Rightarrow> bool" where
  "bounded_valid st \<longleftrightarrow> 0 \<le> bf_remaining st \<and> bf_remaining st \<le> bf_limit st \<and>
     int (bf_pos st) = bf_limit st - bf_remaining st \<and> bf_limit st \<le> int (length (bf_file st)) \<and>
     length (unread st) \<le> bf_pos st \<and>
     unread st = slice (bf_pos st - length (unread st)) (length (unread st)) (bf_file st) \<and>
     (bf_failed st \<longrightarrow> bf_pos st = length (bf_file st))"

lemma open_bounded_valid: "0 \<le> n \<Longrightarrow> n \<le> int (length d) \<Longrightarrow> bounded_valid (open_bounded d n)"
  by (simp add: bounded_valid_def open_bounded_def unread_def slice_def)

lemma open_bounded_state [simp]:
  "bounded_content (open_bounded d n) = take (nat n) d" "bounded_position (open_bounded d n) = 0"
  by (simp_all add: bounded_content_def bounded_position_def current_offset_def open_bounded_def unread_def)

lemma underflow_valid:
  assumes "bounded_valid st" "underflow st = (r, st')"
  shows "bounded_valid st' \<and> bounded_content st' = bounded_content st \<and> bounded_position st' = bounded_position st \<and>
     (if bounded_position st < length (bounded_content st)
      then r = Some (bounded_content st ! bounded_position st) \<and> unread st' \<noteq> [] \<and> r = Some (hd (unread st'))
      else r = None)"
proof -
  have v: "0 \<le> bf_remaining st" "bf_remaining st \<le> bf_limit st" "int (bf_pos st) = bf_limit st - bf_remaining st"
    "bf_limit st \<le> int (length (bf_file st))" "length (unread st) \<le> bf_pos st" "bf_failed st \<longrightarrow> bf_pos st = length (bf_file st)"
    and sl: "unread st = slice (bf_pos st - length (unread st)) (length (unread st)) (bf_file st)"
    using assms(1) by (auto simp: bounded_valid_def)
  have pos: "bounded_position st = bf_pos st - length (unread st)"
    using v unfolding bounded_position_def current_offset_def by linarith
  have len: "length (bounded_content st) = nat (bf_limit st)" using v by (simp add: bounded_content_def)
  show ?thesis
  proof (cases "unread st")
    case (Cons b bs)
    have lt: "bf_pos st - length (unread st) < nat (bf_limit st)" using v Cons by (simp; linarith)
    then have "bf_pos st - length (unread st) < length (bf_file st)" using v by linarith
    then have "unread st ! 0 = bf_file st ! (bf_pos st - length (unread st))"
      using Cons by (subst sl) (simp add: slice_def)
    with lt show ?thesis using assms Cons pos len by (auto simp: underflow_def bounded_content_def)
  next
    case Nil
    show ?thesis
    proof (cases "bf_remaining st \<le> 0")
      case True
      with assms Nil v pos len show ?thesis by (simp add: underflow_def)
    next
      case False
      define want where "want = nat (min buffer_size (bf_remaining st))"
      have w: "0 < want" "int want \<le> bf_remaining st" using False by (simp_all add: want_def buffer_size_def)
      have inside: "bf_pos st + want \<le> length (bf_file st)" using v w by linarith
      then have ok: "\<not> bf_failed st" using v(6) w(1) by auto
      define got where "got = slice (bf_pos st) want (bf_file st)"
      have g: "length got = want" using inside w by (simp add: got_def)
      then have g': "got \<noteq> []" using w by auto
      have rd: "file_read want st = (got, st\<lparr>bf_pos := bf_pos st + want, bf_failed := False\<rparr>)"
        using g ok by (simp add: file_read_def Let_def got_def slice_def)
      from g' obtain b bs where gb: "got = b # bs" by (cases got) auto
      have st': "st' = st\<lparr>bf_pos := bf_pos st + want, bf_failed := False,
          bf_remaining := bf_remaining st - int (length got), bf_get := Some got\<rparr>"
        "r = Some (hd got)"
        using assms(2) Nil False rd gb by (auto simp: underflow_def want_def [symmetric] Let_def)
      have hd: "hd got = bf_file st ! bf_pos st" using inside w by (simp add: got_def slice_def hd_drop_conv_nth)
      have lt: "bf_pos st < nat (bf_limit st)" using v w by linarith
      have "bounded_valid st'"
        using v w inside g unfolding bounded_valid_def st' by (auto simp: unread_def got_def)
      moreover have "bounded_position st' = bf_pos st" "bounded_content st' = bounded_content st" "unread st' = got"
        using v g by (simp_all add: st' bounded_position_def current_offset_def bounded_content_def unread_def)
      ultimately show ?thesis using Nil pos len lt hd g' st'(2) by (simp add: bounded_content_def)
    qed
  qed
qed

lemma next_byte_valid:
  assumes "bounded_valid st" "next_byte st = (r, st')"
  shows "bounded_valid st' \<and> bounded_content st' = bounded_content st \<and>
     (if bounded_position st < length (bounded_content st)
      then r = Some (bounded_content st ! bounded_position st) \<and> bounded_position st' = Suc (bounded_position st)
      else r = None \<and> bounded_position st' = bounded_position st)"
proof -
  obtain q st1 where u: "underflow st = (q, st1)" by fastforce
  note uv = underflow_valid [OF assms(1) u]
  show ?thesis
  proof (cases "bounded_position st < length (bounded_content st)")
    case False
    with uv assms(2) u show ?thesis by (simp add: next_byte_def)
  next
    case True
    then obtain b bs where un: "unread st1 = b # bs" using uv by (cases "unread st1") auto
    have st': "st' = st1\<lparr>bf_get := Some bs\<rparr>" "r = q" using True uv assms(2) u un by (auto simp: next_byte_def)
    have v: "bf_pos st1 - length bs = Suc (bf_pos st1 - Suc (length bs))" "Suc (length bs) \<le> bf_pos st1"
      and sl: "b # bs = slice (bf_pos st1 - Suc (length bs)) (Suc (length bs)) (bf_file st1)"
      and rest: "0 \<le> bf_remaining st1" "bf_remaining st1 \<le> bf_limit st1" "int (bf_pos st1) = bf_limit st1 - bf_remaining st1"
      using uv un by (auto simp: bounded_valid_def)
    have "bs = tl (slice (bf_pos st1 - Suc (length bs)) (Suc (length bs)) (bf_file st1))" by (subst sl [symmetric]) simp
    then have "bs = slice (bf_pos st1 - length bs) (length bs) (bf_file st1)"
      unfolding v(1) slice_def by (simp add: drop_Suc tl_take tl_drop)
    then have "bounded_valid st'" using uv un v unfolding bounded_valid_def st' by (simp add: unread_def)
    moreover have "bounded_position st' = Suc (bounded_position st1)"
      using un v(2) rest unfolding bounded_position_def current_offset_def st' by (simp add: unread_def; linarith)
    moreover have "bounded_content st' = bounded_content st1" by (simp add: st' bounded_content_def)
    ultimately show ?thesis using True uv st'(2) by simp
  qed
qed

lemma seek_valid:
  assumes "bounded_valid st" "0 \<le> i" "i \<le> int (length (bounded_content st))" "seekpos i True st = (j, st')"
  shows "j = i \<and> bounded_valid st' \<and> bounded_content st' = bounded_content st \<and> bounded_position st' = nat i"
proof -
  have l: "int (length (bounded_content st)) = bf_limit st"
    using assms(1) by (auto simp: bounded_valid_def bounded_content_def)
  with assms have "j = i" "st' = st\<lparr>bf_failed := False, bf_pos := nat i, bf_remaining := bf_limit st - i, bf_get := None\<rparr>"
    by (auto simp: seekpos_def seekoff_def)
  with assms(1-3) l show ?thesis
    by (simp add: bounded_valid_def bounded_content_def bounded_position_def current_offset_def unread_def slice_def)
qed

interpretation bounded: byte_source next_byte "\<lambda>i. seekpos i True" bounded_content bounded_position bounded_valid
  by unfold_locales (use next_byte_valid seek_valid in blast)+

text \<open>All a request sends that reads its body from the start.\<close>

definition stream_body :: "byte list \<Rightarrow> int \<Rightarrow> byte list" where
  "stream_body content limit = fst (read_bytes next_byte (nat limit) (open_bounded content limit))"

lemma stream_body_exact: "0 \<le> n \<Longrightarrow> n \<le> int (length d) \<Longrightarrow> stream_body d n = take (nat n) d"
proof -
  assume n: "0 \<le> n" "n \<le> int (length d)"
  obtain bs st where r: "read_bytes next_byte (nat n) (open_bounded d n) = (bs, st)" by fastforce
  from bounded.read_bytes_content [OF open_bounded_valid [OF n] r] r show ?thesis by (simp add: stream_body_def)
qed

end
