(* ===== verification/S3_Client.thy ===== *)
theory S3_Client
  imports S3_Copy Bounded_File Diff_Upload Leftovers
begin

text \<open>
  \<^verbatim>\<open>S3ClientImpl\<close> of s3_client_impl.cpp: the interface \<^verbatim>\<open>IS3Client\<close> over the requests of the SDK.  An operation
  that keeps nothing is a function over the state of the service; \<open>impl_client\<close> puts them together over
  the state of the process.  What the constructor takes from the settings is the record \<open>s3_config\<close>; the
  thread count and ramp-up a caller passes for the checksums, whether a buffer of a size can be had, and the
  functions of the SDK and of zlib-ng are fields of it too.
\<close>

record 'w s3_config =
  cf_client :: "'w sdk"
  cf_region :: string
  cf_max_retries :: int
  cf_allow_unverified :: bool
  cf_num_threads :: int
  cf_ramp_up :: bool
  cf_can_buffer :: "int \<Rightarrow> bool"
  cf_crc :: zng_crc
  cf_base64_encode :: "byte list \<Rightarrow> string"
  cf_base64_decode :: "string \<Rightarrow> byte list"

section \<open>Sizes and presence\<close>

definition impl_GetObjectSize :: "'w s3_config \<Rightarrow> string \<Rightarrow> string \<Rightarrow> 'w \<Rightarrow> int \<times> 'w" where
  "impl_GetObjectSize cf bucket key w =
     retrying (cf_max_retries cf)
       (\<lambda>attempt w.
          case sdk_HeadObject (cf_client cf) bucket key w of
            (Success n, w) \<Rightarrow> (Answer n, w)
          | (out, w) \<Rightarrow> (failed_attempt (cf_max_retries cf) attempt out (\<lambda>_. -1) (\<lambda>_. -1), w))
       (-1) w"

text \<open>
  What a missing object is told from: the error type or the status, confirmed by a listing that
  answers and does not name the key.
\<close>

definition probe_bucket :: "'w s3_config \<Rightarrow> string \<Rightarrow> string \<Rightarrow> 'w \<Rightarrow> s3_presence outcome \<times> 'w" where
  "probe_bucket cf bucket key w =
     (case sdk_ListObjectsV2 (cf_client cf) bucket key [] [] 1 w of
        (Success pg, w) \<Rightarrow> (Success (if list_ex (\<lambda>obj. oi_key obj = key) (pg_contents pg) then Exists else NotFound), w)
      | (Failure e, w) \<Rightarrow> (Success Unknown, w)
      | (Raised what, w) \<Rightarrow> (Raised what, w))"

definition presence_attempt :: "'w s3_config \<Rightarrow> string \<Rightarrow> string \<Rightarrow> int \<Rightarrow> 'w \<Rightarrow> s3_presence attempt \<times> 'w" where
  "presence_attempt cf bucket key attempt w =
     (case sdk_HeadObject (cf_client cf) bucket key w of
        (Success _, w) \<Rightarrow> (Answer Exists, w)
      | (Failure e, w) \<Rightarrow>
          if er_type e = NO_SUCH_BUCKET then (Answer Unknown, w)
          else if er_type e = NO_SUCH_KEY \<or> er_type e = RESOURCE_NOT_FOUND \<or> er_code e = 404
          then (case probe_bucket cf bucket key w of
                  (Success p, w) \<Rightarrow> (Answer p, w)
                | (out, w) \<Rightarrow> (failed_attempt (cf_max_retries cf) attempt out (\<lambda>_. Unknown) (\<lambda>_. Unknown), w))
          else (failed_attempt (cf_max_retries cf) attempt (Failure e :: unit outcome) (\<lambda>_. Unknown) (\<lambda>_. Unknown), w)
      | (Raised what, w) \<Rightarrow>
          (failed_attempt (cf_max_retries cf) attempt (Raised what :: unit outcome) (\<lambda>_. Unknown) (\<lambda>_. Unknown), w))"

definition impl_CheckObjectPresence :: "'w s3_config \<Rightarrow> string \<Rightarrow> string \<Rightarrow> 'w \<Rightarrow> s3_presence \<times> 'w" where
  "impl_CheckObjectPresence cf bucket key w =
     retrying (cf_max_retries cf) (presence_attempt cf bucket key) Unknown w"

section \<open>Range reads\<close>

text \<open>The length of a range that may be asked for.\<close>

definition ValidateRange :: "int \<Rightarrow> int \<Rightarrow> int option" where
  "ValidateRange start final =
     (if start < 0 then None
      else if final < start then None
      else if final - start = int64_max then None
      else Some (final - start + 1))"

text \<open>\<^verbatim>\<open>parser >> n\<close> for an \<^verbatim>\<open>int64_t\<close> and for a \<^verbatim>\<open>char\<close>, with the rest of the stream.\<close>

definition extract_int :: "string \<Rightarrow> (int \<times> string) option" where
  "extract_int s =
     (let t = dropWhile is_space s;
          signed = (t \<noteq> [] \<and> (hd t = CHR ''-'' \<or> hd t = CHR ''+''));
          u = (if signed then tl t else t);
          ds = takeWhile is_digit u;
          v = (if signed \<and> hd t = CHR ''-'' then - int (digits_val ds) else int (digits_val ds))
      in if ds = [] then None
         else if - (2 ^ 63) \<le> v \<and> v \<le> int64_max then Some (v, dropWhile is_digit u) else None)"

definition extract_char :: "string \<Rightarrow> (char \<times> string) option" where
  "extract_char s = (case dropWhile is_space s of [] \<Rightarrow> None | c # r \<Rightarrow> Some (c, r))"

definition RangeResponseHonoursRequest :: "string \<Rightarrow> int \<Rightarrow> int \<Rightarrow> bool \<Rightarrow> bool" where
  "RangeResponseHonoursRequest content_range start final allow_unverified =
     (if content_range = [] then (if start = 0 then True else allow_unverified)
      else let v = dropWhile is_space content_range in
        if \<not> (length ''bytes'' \<le> length v \<and> map to_lower (take (length ''bytes'') v) = ''bytes'') then False
        else let r = drop (length ''bytes'') v in
          if r = [] \<or> \<not> is_space (hd r) then False
          else case extract_int (dropWhile is_space r) of
                 None \<Rightarrow> False
               | Some (first, r) \<Rightarrow>
                   (case extract_char r of
                      None \<Rightarrow> False
                    | Some (sep, r) \<Rightarrow>
                        if sep \<noteq> CHR ''-'' then False
                        else (case extract_int r of
                                None \<Rightarrow> False
                              | Some (last', _) \<Rightarrow> \<not> (first \<noteq> start \<or> last' \<noteq> final))))"

definition range_attempt ::
  "'w s3_config \<Rightarrow> string \<Rightarrow> string \<Rightarrow> int \<Rightarrow> int \<Rightarrow> int \<Rightarrow> int \<Rightarrow> 'w \<Rightarrow> byte list attempt \<times> 'w" where
  "range_attempt cf bucket key start final expected_length attempt w =
     (case sdk_GetObject (cf_client cf) bucket key (byte_range start final) w of
        (Success (content_range, data), w) \<Rightarrow>
          if \<not> RangeResponseHonoursRequest content_range start final (cf_allow_unverified cf) then (Answer [], w)
          else if int (length data) > expected_length then (Answer [], w)
          else if int (length data) \<noteq> expected_length
          then (if attempt < 1 \<and> attempt < cf_max_retries cf then (Again, w) else (Answer [], w))
          else (Answer data, w)
      | (out, w) \<Rightarrow> (failed_attempt (cf_max_retries cf) attempt out (\<lambda>_. []) (\<lambda>_. []), w))"

definition impl_GetObjectRange :: "'w s3_config \<Rightarrow> string \<Rightarrow> string \<Rightarrow> int \<Rightarrow> int \<Rightarrow> 'w \<Rightarrow> byte list \<times> 'w" where
  "impl_GetObjectRange cf bucket key start final w =
     (case ValidateRange start final of
        None \<Rightarrow> ([], w)
      | Some n \<Rightarrow> retrying (cf_max_retries cf) (range_attempt cf bucket key start final n) [] w)"

definition range_into_attempt ::
  "'w s3_config \<Rightarrow> string \<Rightarrow> string \<Rightarrow> int \<Rightarrow> int \<Rightarrow> int \<Rightarrow> int \<Rightarrow> 'w \<Rightarrow> (bool \<times> byte list) attempt \<times> 'w" where
  "range_into_attempt cf bucket key start final expected_size attempt w =
     (case sdk_GetObject (cf_client cf) bucket key (byte_range start final) w of
        (Success (content_range, body), w) \<Rightarrow>
          if \<not> RangeResponseHonoursRequest content_range start final (cf_allow_unverified cf) then (Answer (False, []), w)
          else if \<not> cf_can_buffer cf expected_size then (Answer (False, []), w)
          else let buffer = take (nat expected_size) body in
            if int (length buffer) = expected_size \<and> drop (nat expected_size) body \<noteq> [] then (Answer (False, []), w)
            else if int (length buffer) \<noteq> expected_size
            then (if attempt < 1 \<and> attempt < cf_max_retries cf then (Again, w) else (Answer (False, []), w))
            else (Answer (True, buffer), w)
      | (out, w) \<Rightarrow> (failed_attempt (cf_max_retries cf) attempt out (\<lambda>_. (False, [])) (\<lambda>_. (False, [])), w))"

definition impl_GetObjectRangeInto ::
  "'w s3_config \<Rightarrow> string \<Rightarrow> string \<Rightarrow> int \<Rightarrow> int \<Rightarrow> 'w \<Rightarrow> (bool \<times> byte list) \<times> 'w" where
  "impl_GetObjectRangeInto cf bucket key start final w =
     (case ValidateRange start final of
        None \<Rightarrow> ((False, []), w)
      | Some n \<Rightarrow> retrying (cf_max_retries cf) (range_into_attempt cf bucket key start final n) (False, []) w)"

section \<open>Listings\<close>

definition impl_ListObjects ::
  "'w s3_config \<Rightarrow> string \<Rightarrow> string \<Rightarrow> string \<Rightarrow> string \<Rightarrow> int \<Rightarrow> 'w \<Rightarrow> s3_list_result \<times> 'w" where
  "impl_ListObjects cf bucket pre delimiter continuation_token max_keys w =
     retrying (cf_max_retries cf)
       (\<lambda>attempt w.
          case sdk_ListObjectsV2 (cf_client cf) bucket pre delimiter continuation_token max_keys w of
            (Success pg, w) \<Rightarrow> (Answer (list_result_of pg), w)
          | (out, w) \<Rightarrow>
              (failed_attempt (cf_max_retries cf) attempt out (\<lambda>msg. empty_list_result\<lparr>lr_error := msg\<rparr>)
                 (\<lambda>what. empty_list_result\<lparr>lr_error := ''Exception: '' @ what\<rparr>), w))
       empty_list_result w"

text \<open>The time of an upload comes in milliseconds and is kept in whole seconds.\<close>

definition upload_info_of :: "s3_upload_info \<Rightarrow> s3_upload_info" where
  "upload_info_of u = u\<lparr>ui_initiated := (if ui_initiated u < 0 then - ((- ui_initiated u) div 1000) else ui_initiated u div 1000)
     * ticks_per_second\<rparr>"

definition uploads_result_of :: "sdk_uploads \<Rightarrow> s3_uploads_result" where
  "uploads_result_of up = empty_uploads_result\<lparr>ur_uploads := map upload_info_of (up_uploads up),
     ur_is_truncated := up_truncated up,
     ur_next_key_marker := (if up_truncated up then up_next_key_marker up else []),
     ur_next_upload_id_marker := (if up_truncated up then up_next_upload_id_marker up else []), ur_success := True\<rparr>"

definition impl_ListMultipartUploads ::
  "'w s3_config \<Rightarrow> string \<Rightarrow> string \<Rightarrow> string \<Rightarrow> string \<Rightarrow> int \<Rightarrow> 'w \<Rightarrow> s3_uploads_result \<times> 'w" where
  "impl_ListMultipartUploads cf bucket pre key_marker upload_id_marker max_uploads w =
     retrying (cf_max_retries cf)
       (\<lambda>attempt w.
          case sdk_ListMultipartUploads (cf_client cf) bucket pre key_marker upload_id_marker max_uploads w of
            (Success up, w) \<Rightarrow> (Answer (uploads_result_of up), w)
          | (out, w) \<Rightarrow>
              (failed_attempt (cf_max_retries cf) attempt out (\<lambda>msg. empty_uploads_result\<lparr>ur_error := msg\<rparr>)
                 (\<lambda>what. empty_uploads_result\<lparr>ur_error := what\<rparr>), w))
       empty_uploads_result w"

section \<open>Writes and deletions\<close>

definition succeeded :: "'a outcome \<times> 'w \<Rightarrow> bool \<times> 'w" where
  "succeeded r = (case r of (Success _, w) \<Rightarrow> (True, w) | (_, w) \<Rightarrow> (False, w))"

definition impl_PutObject :: "'w s3_config \<Rightarrow> string \<Rightarrow> string \<Rightarrow> byte list \<Rightarrow> 'w \<Rightarrow> bool \<times> 'w" where
  "impl_PutObject cf bucket key data w =
     succeeded (sdk_PutObject (cf_client cf) bucket key
       \<lparr>put_body = data, put_content_length = int (length data), put_algorithm_crc32 = False, put_checksum_crc32 = []\<rparr> w)"

definition impl_PutObjectWithCRC32 ::
  "'w s3_config \<Rightarrow> string \<Rightarrow> string \<Rightarrow> byte list \<Rightarrow> crc32 \<Rightarrow> 'w \<Rightarrow> bool \<times> 'w" where
  "impl_PutObjectWithCRC32 cf bucket key data crc w =
     succeeded (sdk_PutObject (cf_client cf) bucket key
       \<lparr>put_body = data, put_content_length = int (length data), put_algorithm_crc32 = True,
        put_checksum_crc32 = Crc32ToBase64 (cf_base64_encode cf) crc\<rparr> w)"

definition impl_PutObjectStreamed ::
  "'w s3_config \<Rightarrow> string \<Rightarrow> string \<Rightarrow> byte list option \<Rightarrow> int \<Rightarrow> 'w \<Rightarrow> bool \<times> 'w" where
  "impl_PutObjectStreamed cf bucket key file content_length w =
     (case file of
        None \<Rightarrow> (False, w)
      | Some content \<Rightarrow>
          succeeded (sdk_PutObject (cf_client cf) bucket key
            \<lparr>put_body = stream_body content content_length, put_content_length = content_length,
             put_algorithm_crc32 = True, put_checksum_crc32 = []\<rparr> w))"

definition impl_PutObjectFromFile ::
  "'w s3_config \<Rightarrow> string \<Rightarrow> string \<Rightarrow> string \<Rightarrow> (string \<Rightarrow> byte list option) \<Rightarrow> 'w \<Rightarrow> bool \<times> 'w" where
  "impl_PutObjectFromFile cf bucket key file_path files w =
     (case map_option (\<lambda>d. int (length d)) (files file_path) of
        None \<Rightarrow> (False, w)
      | Some file_size \<Rightarrow>
          if file_size > kMaxSinglePutBytes then (False, w)
          else impl_PutObjectStreamed cf bucket key (files file_path) file_size w)"

definition impl_DeleteObject :: "'w s3_config \<Rightarrow> string \<Rightarrow> string \<Rightarrow> 'w \<Rightarrow> bool \<times> 'w" where
  "impl_DeleteObject cf bucket key w = succeeded (sdk_DeleteObject (cf_client cf) bucket key w)"

definition impl_DeleteObjects :: "'w s3_config \<Rightarrow> string \<Rightarrow> string list \<Rightarrow> 'w \<Rightarrow> string list \<times> 'w" where
  "impl_DeleteObjects cf bucket keys w =
     (if keys = [] then ([], w)
      else case sdk_DeleteObjects (cf_client cf) bucket keys w of
             (Success errors, w) \<Rightarrow> (errors, w)
           | (_, w) \<Rightarrow> (keys, w))"

definition impl_CreateBucket :: "'w s3_config \<Rightarrow> string \<Rightarrow> 'w \<Rightarrow> bool \<times> 'w" where
  "impl_CreateBucket cf bucket w =
     (case sdk_CreateBucket (cf_client cf) bucket (if cf_region cf \<noteq> ''us-east-1'' then Some (cf_region cf) else None) w of
        (Success _, w) \<Rightarrow> (True, w)
      | (Failure e, w) \<Rightarrow> (er_type e = BUCKET_ALREADY_EXISTS \<or> er_type e = BUCKET_ALREADY_OWNED_BY_YOU, w)
      | (Raised _, w) \<Rightarrow> (False, w))"

section \<open>Multipart uploads\<close>

definition impl_CreateMultipartUpload :: "'w s3_config \<Rightarrow> string \<Rightarrow> string \<Rightarrow> 'w \<Rightarrow> string \<times> 'w" where
  "impl_CreateMultipartUpload cf bucket key w =
     (case sdk_CreateMultipartUpload (cf_client cf) bucket key w of
        (Success upload_id, w) \<Rightarrow> (upload_id, w)
      | (_, w) \<Rightarrow> ([], w))"

definition part_of :: "s3_part_result outcome \<times> 'w \<Rightarrow> s3_part_result \<times> 'w" where
  "part_of r = (case r of (Success p, w) \<Rightarrow> (p, w) | (_, w) \<Rightarrow> (no_part, w))"

definition impl_UploadPart ::
  "'w s3_config \<Rightarrow> string \<Rightarrow> string \<Rightarrow> string \<Rightarrow> int \<Rightarrow> byte list \<Rightarrow> crc32 \<Rightarrow> 'w \<Rightarrow> s3_part_result \<times> 'w" where
  "impl_UploadPart cf bucket key upload_id part_number data crc w =
     part_of (sdk_UploadPart (cf_client cf) bucket key upload_id part_number data
       (Crc32ToBase64 (cf_base64_encode cf) crc) w)"

definition impl_UploadPartCopy ::
  "'w s3_config \<Rightarrow> string \<Rightarrow> string \<Rightarrow> string \<Rightarrow> int \<Rightarrow> string \<Rightarrow> string \<Rightarrow> int \<Rightarrow> int \<Rightarrow> 'w \<Rightarrow>
   s3_part_result \<times> 'w" where
  "impl_UploadPartCopy cf bucket key upload_id part_number source_bucket source_key start_byte end_byte w =
     part_of (sdk_UploadPartCopy (cf_client cf) bucket key upload_id part_number (copy_source source_bucket source_key)
       (byte_range start_byte end_byte) w)"

definition impl_CompleteMultipartUpload ::
  "'w s3_config \<Rightarrow> string \<Rightarrow> string \<Rightarrow> string \<Rightarrow> (int \<times> s3_part_result) list \<Rightarrow> 'w \<Rightarrow> bool \<times> 'w" where
  "impl_CompleteMultipartUpload cf bucket key upload_id parts w =
     succeeded (sdk_CompleteMultipartUpload (cf_client cf) bucket key upload_id parts w)"

definition impl_AbortMultipartUpload :: "'w s3_config \<Rightarrow> string \<Rightarrow> string \<Rightarrow> string \<Rightarrow> 'w \<Rightarrow> bool \<times> 'w" where
  "impl_AbortMultipartUpload cf bucket key upload_id w =
     succeeded (sdk_AbortMultipartUpload (cf_client cf) bucket key upload_id w)"

section \<open>Copies\<close>

definition impl_CopyObjectSimple ::
  "'w s3_config \<Rightarrow> string \<Rightarrow> string \<Rightarrow> string \<Rightarrow> string \<Rightarrow> 'w \<Rightarrow> bool \<times> 'w" where
  "impl_CopyObjectSimple cf source_bucket source_key dest_bucket dest_key w =
     retrying (cf_max_retries cf)
       (\<lambda>attempt w.
          case sdk_CopyObject (cf_client cf) dest_bucket dest_key (copy_source source_bucket source_key) w of
            (Success _, w) \<Rightarrow> (Answer True, w)
          | (out, w) \<Rightarrow> (failed_attempt (cf_max_retries cf) attempt out (\<lambda>_. False) (\<lambda>_. False), w))
       False w"

text \<open>
  The loop over the parts: \<open>CopyStopped\<close> when the flag is seen before a part, \<open>CopyFailed\<close> when a part could
  not be copied.  The attempts of one part are the loop \<^const>\<open>part_retry\<close>, which looks at the flag too.
\<close>

datatype parts_end = CopyStopped | CopyFailed | Copied "(int \<times> s3_part_result) list"

fun copy_parts ::
  "'w s3_config \<Rightarrow> (int \<Rightarrow> 'w \<Rightarrow> s3_part_result \<times> 'w) \<Rightarrow> int list \<Rightarrow> (int \<times> s3_part_result) list \<Rightarrow> cancel \<Rightarrow> 'w \<Rightarrow>
   parts_end \<times> cancel \<times> 'w" where
  "copy_parts cf request [] completed_parts cancelled w = (Copied completed_parts, cancelled, w)"
| "copy_parts cf request (i # ids) completed_parts cancelled w =
     (let (stop, cancelled) = poll cancelled in
      if stop then (CopyStopped, cancelled, w)
      else let (r, cancelled, w) = part_retry (nat (cf_max_retries cf + 1)) (request i) cancelled w in
        if \<not> part_ok r then (CopyFailed, cancelled, w)
        else copy_parts cf request ids (completed_parts @ [(to_int32 (i + 1), r)]) cancelled w)"

definition copy_part_request ::
  "'w s3_config \<Rightarrow> string \<Rightarrow> string \<Rightarrow> string \<Rightarrow> string \<Rightarrow> string \<Rightarrow> int \<Rightarrow> int \<Rightarrow> int \<Rightarrow> 'w \<Rightarrow> s3_part_result \<times> 'w" where
  "copy_part_request cf source_bucket source_key dest_bucket dest_key upload_id src_size part_size i w =
     (let start_byte = i * part_size;
          end_byte = min (start_byte + part_size - 1) (src_size - 1)
      in impl_UploadPartCopy cf dest_bucket dest_key upload_id (to_int32 (i + 1)) source_bucket source_key
           start_byte end_byte w)"

text \<open>An operation on the service alone, in the state of the process.\<close>

definition on_world :: "('w \<Rightarrow> 'a \<times> 'w) \<Rightarrow> 'w adapter \<Rightarrow> 'a \<times> 'w adapter" where
  "on_world f s = (let (r, w) = f (ad_world s) in (r, s\<lparr>ad_world := w\<rparr>))"

text \<open>Abort, and leave the upload registered if that failed.\<close>

definition abort_or_keep :: "'w s3_config \<Rightarrow> string \<Rightarrow> string \<Rightarrow> string \<Rightarrow> 'w adapter \<Rightarrow> 'w adapter" where
  "abort_or_keep cf bucket key upload_id s =
     (let (aborted, s) = on_world (impl_AbortMultipartUpload cf bucket key upload_id) s
      in if aborted then unregister_upload upload_id s else s)"

definition impl_CopyObjectMultipart ::
  "'w s3_config \<Rightarrow> string \<Rightarrow> string \<Rightarrow> string \<Rightarrow> string \<Rightarrow> int \<Rightarrow> int \<Rightarrow> cancel \<Rightarrow> 'w adapter \<Rightarrow>
   (bool \<times> cancel) \<times> 'w adapter" where
  "impl_CopyObjectMultipart cf source_bucket source_key dest_bucket dest_key src_size part_size cancelled s =
     (let (upload_id, s) = on_world (impl_CreateMultipartUpload cf dest_bucket dest_key) s in
      if upload_id = [] then ((False, cancelled), s)
      else let s = register_upload \<lparr>au_client = Some (cf_client cf), au_bucket = dest_bucket, au_key = dest_key,
                     au_upload_id = upload_id\<rparr> s;
               num_parts = (src_size + part_size - 1) div part_size;
               (result, cancelled, w) = copy_parts cf
                 (copy_part_request cf source_bucket source_key dest_bucket dest_key upload_id src_size part_size)
                 [0 .. num_parts - 1] [] cancelled (ad_world s);
               s = s\<lparr>ad_world := w\<rparr>
           in case result of
                Copied completed_parts \<Rightarrow>
                  let (completed, s) = on_world (impl_CompleteMultipartUpload cf dest_bucket dest_key upload_id completed_parts) s
                  in if \<not> completed then ((False, cancelled), abort_or_keep cf dest_bucket dest_key upload_id s)
                     else ((True, cancelled), unregister_upload upload_id s)
              | _ \<Rightarrow> ((False, cancelled), abort_or_keep cf dest_bucket dest_key upload_id s))"

definition FIVE_GB :: int where "FIVE_GB = 5 * 1024 * 1024 * 1024"
definition MULTIPART_PART_SIZE :: int where "MULTIPART_PART_SIZE = 500 * 1024 * 1024"

definition impl_CopyObject ::
  "'w s3_config \<Rightarrow> string \<Rightarrow> string \<Rightarrow> string \<Rightarrow> string \<Rightarrow> int \<Rightarrow> cancel \<Rightarrow> 'w adapter \<Rightarrow>
   (bool \<times> cancel) \<times> 'w adapter" where
  "impl_CopyObject cf source_bucket source_key dest_bucket dest_key known_size cancelled s =
     (let (stop, cancelled) = poll cancelled in
      if stop then ((False, cancelled), s)
      else let (src_size, s) = (if known_size < 0 then on_world (impl_GetObjectSize cf source_bucket source_key) s
                                   else (known_size, s))
           in if src_size < 0 then ((False, cancelled), s)
              else if src_size \<le> FIVE_GB
              then let (ok, s) = on_world (impl_CopyObjectSimple cf source_bucket source_key dest_bucket dest_key) s
                   in ((ok, cancelled), s)
              else impl_CopyObjectMultipart cf source_bucket source_key dest_bucket dest_key src_size
                     MULTIPART_PART_SIZE cancelled s)"

section \<open>Chunk checksums\<close>

definition hex_digit :: "nat \<Rightarrow> char" where
  "hex_digit d = (if d < 10 then char_of (48 + d) else char_of (87 + d))"

fun show_hex :: "nat \<Rightarrow> string" where
  "show_hex n = (if n < 16 then [hex_digit n] else show_hex (n div 16) @ [hex_digit (n mod 16)])"

declare show_hex.simps [simp del]

definition GenerateUniqueSuffix :: "'w adapter \<Rightarrow> string \<times> 'w adapter" where
  "GenerateUniqueSuffix s =
     (let ((nanos, random), rest) = (case ad_suffixes s of [] \<Rightarrow> ((0, 0), []) | d # ds \<Rightarrow> (d, ds))
      in (show_hex nanos @ ''_'' @ show_hex random, s\<lparr>ad_suffixes := rest\<rparr>))"

definition impl_GetChunkCRC32s ::
  "'w s3_config \<Rightarrow> string \<Rightarrow> string \<Rightarrow> int \<Rightarrow> int list \<Rightarrow> int \<Rightarrow> 'w adapter \<Rightarrow> crc32 list \<times> 'w adapter" where
  "impl_GetChunkCRC32s cf bucket key file_size chunk_ids chunk_size0 s =
     (let chunk_size = (if chunk_size0 \<le> 0 then CHUNK_SIZE else chunk_size0);
          num_chunks = (if file_size > 0
                        then file_size div chunk_size + (if file_size mod chunk_size \<noteq> 0 then 1 else 0) else 0)
      in if list_ex (\<lambda>i. i < 0 \<or> i \<ge> num_chunks) chunk_ids then ([], s)
         else if file_size \<le> chunk_size
         then (if file_size \<le> 0 then ([], s)
               else let (data, s) = on_world (impl_GetObjectRange cf bucket key 0 (file_size - 1)) s in
                 if data = [] then ([], s)
                 else if int (length data) \<noteq> file_size then ([], s)
                 else let crc = crc32_hw (cf_crc cf) data
                      in (if chunk_ids = [] then [crc] else replicate (length chunk_ids) crc, s))
         else let (suffix, s) = GenerateUniqueSuffix s;
                  dst_key = key @ ''_crc32_tmp_'' @ suffix;
                  copier = make_copier (cf_client cf) (cf_base64_decode cf) bucket key dst_key file_size chunk_size
                             (cf_max_retries cf)
              in GetHashes copier chunk_ids (cf_num_threads cf) (cf_ramp_up cf) s)"

section \<open>The client\<close>

definition impl_client :: "'w s3_config \<Rightarrow> 'w adapter s3_client" where
  "impl_client cf = \<lparr>
     GetObjectSize = (\<lambda>b k. on_world (impl_GetObjectSize cf b k)),
     CheckObjectPresence = (\<lambda>b k. on_world (impl_CheckObjectPresence cf b k)),
     GetObjectRange = (\<lambda>b k i j. on_world (impl_GetObjectRange cf b k i j)),
     GetObjectRangeInto = (\<lambda>b k i j. on_world (impl_GetObjectRangeInto cf b k i j)),
     ListObjects = (\<lambda>b p d t n. on_world (impl_ListObjects cf b p d t n)),
     PutObject = (\<lambda>b k d. on_world (impl_PutObject cf b k d)),
     PutObjectWithCRC32 = (\<lambda>b k d crc. on_world (impl_PutObjectWithCRC32 cf b k d crc)),
     PutObjectFromFile = (\<lambda>b k p f. on_world (impl_PutObjectFromFile cf b k p f)),
     DeleteObject = (\<lambda>b k. on_world (impl_DeleteObject cf b k)),
     CopyObject = impl_CopyObject cf,
     DeleteObjects = (\<lambda>b ks. on_world (impl_DeleteObjects cf b ks)),
     GetChunkCRC32s = impl_GetChunkCRC32s cf,
     CreateMultipartUpload = (\<lambda>b k. on_world (impl_CreateMultipartUpload cf b k)),
     UploadPart = (\<lambda>b k u n d crc. on_world (impl_UploadPart cf b k u n d crc)),
     UploadPartCopy = (\<lambda>b k u n sb sk i j. on_world (impl_UploadPartCopy cf b k u n sb sk i j)),
     CompleteMultipartUpload = (\<lambda>b k u ps. on_world (impl_CompleteMultipartUpload cf b k u ps)),
     AbortMultipartUpload = (\<lambda>b k u. on_world (impl_AbortMultipartUpload cf b k u)),
     ListMultipartUploads = (\<lambda>b p km um n. on_world (impl_ListMultipartUploads cf b p km um n))\<rparr>"

lemma impl_client_sel [simp]:
  "GetObjectSize (impl_client cf) b k = on_world (impl_GetObjectSize cf b k)"
  "CheckObjectPresence (impl_client cf) b k = on_world (impl_CheckObjectPresence cf b k)"
  "GetObjectRange (impl_client cf) b k i j = on_world (impl_GetObjectRange cf b k i j)"
  "GetObjectRangeInto (impl_client cf) b k i j = on_world (impl_GetObjectRangeInto cf b k i j)"
  "ListObjects (impl_client cf) b p d t n = on_world (impl_ListObjects cf b p d t n)"
  "PutObject (impl_client cf) b k data = on_world (impl_PutObject cf b k data)"
  "PutObjectFromFile (impl_client cf) b k path f = on_world (impl_PutObjectFromFile cf b k path f)"
  "DeleteObject (impl_client cf) b k = on_world (impl_DeleteObject cf b k)"
  "CopyObject (impl_client cf) = impl_CopyObject cf"
  "DeleteObjects (impl_client cf) b ks = on_world (impl_DeleteObjects cf b ks)"
  "GetChunkCRC32s (impl_client cf) = impl_GetChunkCRC32s cf"
  "CreateMultipartUpload (impl_client cf) b k = on_world (impl_CreateMultipartUpload cf b k)"
  "UploadPart (impl_client cf) b k u m data crc = on_world (impl_UploadPart cf b k u m data crc)"
  "UploadPartCopy (impl_client cf) b k u m sb sk i j = on_world (impl_UploadPartCopy cf b k u m sb sk i j)"
  "CompleteMultipartUpload (impl_client cf) b k u ps = on_world (impl_CompleteMultipartUpload cf b k u ps)"
  "AbortMultipartUpload (impl_client cf) b k u = on_world (impl_AbortMultipartUpload cf b k u)"
  by (simp_all add: impl_client_def)

lemma on_world_eq: "on_world f s = (r, s') \<longleftrightarrow> (\<exists>w. f (ad_world s) = (r, w) \<and> s' = s\<lparr>ad_world := w\<rparr>)"
  by (auto simp: on_world_def split: prod.splits)

lemma on_worldE:
  assumes "on_world f s = (r, s')"
  obtains w where "f (ad_world s) = (r, w)" "s' = s\<lparr>ad_world := w\<rparr>"
  using assms by (auto simp: on_world_eq)

end
