(* ===== verification/S3_Contract.thy ===== *)
theory S3_Contract
  imports S3_Client Enumerate
begin

text \<open>
  What S3 documents of its requests, as the locale \<open>s3_service\<close>, and the proof that \<^verbatim>\<open>S3ClientImpl\<close> over any
  such service honours every contract the rest of the program relies on: the locales \<open>object_store\<close>,
  \<open>chunk_crc_store\<close>, \<open>multipart_store\<close> and \<open>diff_store\<close>, and \<open>paged_store\<close> over a service that pages.

  \<open>objects w\<close> is the content of the service and \<open>parts w (b, k, u)\<close> what an upload holds whose id the service
  has given out and which is still open.  A request that is not a success may have been carried
  out or not.  A range may be answered with the range, with another one that is named in the header, or with
  the whole object; the transfer of a body may be cut off.
\<close>

section \<open>The service\<close>

definition content_range :: "nat \<Rightarrow> nat \<Rightarrow> string \<Rightarrow> string" where
  "content_range a b len = ''bytes '' @ show_nat a @ ''-'' @ show_nat b @ ''/'' @ len"

definition range_answer :: "byte list \<Rightarrow> int \<Rightarrow> int \<Rightarrow> bool \<Rightarrow> string \<Rightarrow> byte list \<Rightarrow> bool" where
  "range_answer d i j always header body \<longleftrightarrow>
     header = [] \<and> (\<not> always \<and> prefix body d \<or> prefix body (slice (nat i) (nat (j - i + 1)) d)) \<or>
     (\<exists>a b len. a \<le> b \<and> b < length d \<and> header = content_range a b len \<and> prefix body (slice a (b - a + 1) d))"

definition max_object_size :: int where "max_object_size = 5 * 1024 ^ 4"

text \<open>What an attempt to store \<open>v\<close> under \<open>x\<close> has made of the store.\<close>

definition stored :: "store_view \<Rightarrow> string \<times> string \<Rightarrow> byte list option \<Rightarrow> 'a outcome \<Rightarrow> store_view \<Rightarrow> bool" where
  "stored old x v r new \<longleftrightarrow> (case r of Success _ \<Rightarrow> new = old(x := v) | _ \<Rightarrow> new = old \<or> new = old(x := v))"

locale s3_service =
  fixes cf :: "'w s3_config" and objects :: "'w \<Rightarrow> store_view"
    and parts :: "'w \<Rightarrow> string \<times> string \<times> string \<Rightarrow> (int \<rightharpoonup> byte list) option"
  assumes head: "sdk_HeadObject (cf_client cf) b k w = (r, w') \<Longrightarrow> objects w' = objects w \<and> parts w' = parts w \<and>
        (case r of Success n \<Rightarrow> \<exists>d. objects w (b, k) = Some d \<and> n = int (length d) | _ \<Rightarrow> True)"
    and get: "sdk_GetObject (cf_client cf) b k (byte_range i j) w = (rg, w') \<Longrightarrow> objects w' = objects w \<and> parts w' = parts w \<and>
        (case rg of
           Success (header, body) \<Rightarrow> 0 \<le> i \<longrightarrow> i \<le> j \<longrightarrow>
             (\<exists>d. objects w (b, k) = Some d \<and> range_answer d i j (cf_allow_unverified cf) header body)
         | _ \<Rightarrow> True)"
    and list_objects: "sdk_ListObjectsV2 (cf_client cf) b p dl t n w = (q, w') \<Longrightarrow> objects w' = objects w \<and> parts w' = parts w"
    and list_names: "sdk_ListObjectsV2 (cf_client cf) b p [] [] 1 w = (Success pg, w') \<Longrightarrow>
        objects w (b, p) \<noteq> None \<longleftrightarrow> p \<in> oi_key ` set (pg_contents pg)"
    and put: "sdk_PutObject (cf_client cf) b k req w = (r0, w') \<Longrightarrow> parts w' = parts w \<and>
        (put_content_length req = int (length (put_body req)) \<longrightarrow> stored (objects w) (b, k) (Some (put_body req)) r0 (objects w'))"
    and delete: "sdk_DeleteObject (cf_client cf) b k w = (r0, w') \<Longrightarrow> parts w' = parts w \<and>
        stored (objects w) (b, k) None r0 (objects w')"
    and delete_many: "sdk_DeleteObjects (cf_client cf) b ks w = (rs, w') \<Longrightarrow> parts w' = parts w \<and>
        only_removed (keys_in b ks) (objects w) (objects w') \<and>
        (case rs of
           Success failed \<Rightarrow> set failed \<subseteq> set ks \<and> length failed \<le> length ks \<and>
             (\<forall>k. k \<in> set ks \<longrightarrow> k \<notin> set failed \<longrightarrow> objects w' (b, k) = None)
         | _ \<Rightarrow> True)"
    and copy_frame: "sdk_CopyObject (cf_client cf) b k src w = (r0, w') \<Longrightarrow> parts w' = parts w \<and>
        (\<forall>x. x \<noteq> (b, k) \<longrightarrow> objects w' x = objects w x)"
    and copy: "sdk_CopyObject (cf_client cf) b k (copy_source sb sk) w = (r0, w') \<Longrightarrow> CHR ''/'' \<notin> set sb \<Longrightarrow>
        (case objects w (sb, sk) of
           None \<Rightarrow> objects w' = objects w \<and> (\<forall>u. r0 \<noteq> Success u)
         | Some d \<Rightarrow> stored (objects w) (b, k) (Some d) r0 (objects w'))"
    and create: "sdk_CreateMultipartUpload (cf_client cf) b k w = (ru, w') \<Longrightarrow> objects w' = objects w \<and>
        (case ru of
           Success u \<Rightarrow> u \<noteq> [] \<and> parts w' = (parts w)((b, k, u) := Some Map.empty) \<and> (\<forall>b' k'. parts w (b', k', u) = None)
         | _ \<Rightarrow> parts w' = parts w)"
    and upload: "sdk_UploadPart (cf_client cf) b k u n d crc w = (rp, w') \<Longrightarrow> objects w' = objects w \<and>
        (\<forall>x. x \<noteq> (b, k, u) \<longrightarrow> parts w' x = parts w x) \<and>
        (case parts w (b, k, u) of
           None \<Rightarrow> parts w' (b, k, u) = None
         | Some m \<Rightarrow> \<exists>m'. parts w' (b, k, u) = Some m' \<and> other_parts_kept n m m' \<and>
             (case rp of Success _ \<Rightarrow> m' n = Some d | _ \<Rightarrow> True))"
    and upload_copy: "sdk_UploadPartCopy (cf_client cf) b k u n src h w = (rp, w') \<Longrightarrow> objects w' = objects w \<and>
        (\<forall>x. x \<noteq> (b, k, u) \<longrightarrow> parts w' x = parts w x) \<and>
        (case parts w (b, k, u) of
           None \<Rightarrow> parts w' (b, k, u) = None
         | Some m \<Rightarrow> \<exists>m'. parts w' (b, k, u) = Some m' \<and> other_parts_kept n m m')"
    and upload_copied: "sdk_UploadPartCopy (cf_client cf) b k u n (copy_source sb sk) (byte_range i j) w = (Success part, w') \<Longrightarrow>
        CHR ''/'' \<notin> set sb \<Longrightarrow>
        (\<exists>d. objects w (sb, sk) = Some d \<and> 0 \<le> i \<and> i \<le> j \<and> j < int (length d) \<and>
           (let x = slice (nat i) (nat (j - i + 1)) d in
             (\<forall>m'. parts w' (b, k, u) = Some m' \<longrightarrow> m' n = Some x) \<and>
             (pr_checksum part = [] \<or> cf_base64_decode cf (pr_checksum part) = big_endian (crc32_hw (cf_crc cf) x))))"
    and complete: "sdk_CompleteMultipartUpload (cf_client cf) b k u ps w = (r0, w') \<Longrightarrow>
        (\<forall>x. x \<noteq> (b, k) \<longrightarrow> objects w' x = objects w x) \<and> (\<forall>x. x \<noteq> (b, k, u) \<longrightarrow> parts w' x = parts w x) \<and>
        (parts w' (b, k, u) = parts w (b, k, u) \<or> parts w' (b, k, u) = None) \<and>
        (case r0 of Success _ \<Rightarrow> parts w' (b, k, u) = None | _ \<Rightarrow> True)"
    and completed: "sdk_CompleteMultipartUpload (cf_client cf) b k u ps w = (r0, w') \<Longrightarrow> parts w (b, k, u) = Some m \<Longrightarrow>
        stored (objects w) (b, k) (Some (parts_bytes m ps)) r0 (objects w') \<and>
        (case r0 of Success _ \<Rightarrow> (\<forall>(n, q) \<in> set ps. m n \<noteq> None) | _ \<Rightarrow> True)"
    and abort: "sdk_AbortMultipartUpload (cf_client cf) b k u w = (r0, w') \<Longrightarrow> objects w' = objects w \<and>
        (\<forall>x. x \<noteq> (b, k, u) \<longrightarrow> parts w' x = parts w x) \<and>
        (parts w' (b, k, u) = parts w (b, k, u) \<or> parts w' (b, k, u) = None) \<and>
        (case r0 of Success _ \<Rightarrow> parts w' (b, k, u) = None | _ \<Rightarrow> True)"
    and object_size: "objects w x = Some d \<Longrightarrow> int (length d) \<le> max_object_size"
    and no_checksum: "length (cf_base64_decode cf []) \<noteq> 4"
    and memory: "cf_can_buffer cf amount"
begin

lemma impl_size:
  assumes "impl_GetObjectSize cf b k w = (n, w')"
  shows "objects w' = objects w \<and> parts w' = parts w \<and>
    (n \<noteq> -1 \<longrightarrow> (\<exists>d. objects w (b, k) = Some d \<and> n = int (length d)))"
proof -
  have "(objects w' = objects w \<and> parts w' = parts w) \<and>
      (n \<noteq> -1 \<longrightarrow> (\<exists>d. objects w (b, k) = Some d \<and> n = int (length d)))"
    using assms unfolding impl_GetObjectSize_def
  proof (rule retrying_rule [where P = "\<lambda>v. objects v = objects w \<and> parts v = parts w"
        and Q = "\<lambda>n v. n \<noteq> -1 \<longrightarrow> (\<exists>d. objects w (b, k) = Some d \<and> n = int (length d))"])
  qed (auto split: prod.splits outcome.splits dest!: head dest: failed_attempt_answer)
  then show ?thesis by blast
qed

lemma impl_presence:
  assumes "impl_CheckObjectPresence cf b k w = (q, w')"
  shows "objects w' = objects w \<and> parts w' = parts w \<and> (q = NotFound \<longrightarrow> objects w (b, k) = None) \<and>
     (q = Exists \<longrightarrow> objects w (b, k) \<noteq> None)"
proof -
  have probe: "objects v' = objects v \<and> parts v' = parts v \<and>
      (out = Success NotFound \<longrightarrow> objects v (b, k) = None) \<and> (out = Success Exists \<longrightarrow> objects v (b, k) \<noteq> None)"
    if "probe_bucket cf b k v = (out, v')" for v out v'
    using that list_names [of b k v _ v']
    by (auto simp: probe_bucket_def list_ex_iff image_iff split: prod.splits outcome.splits if_splits dest: list_objects)
  have step: "objects v' = objects v \<and> parts v' = parts v \<and>
      (a = Answer NotFound \<longrightarrow> objects v (b, k) = None) \<and> (a = Answer Exists \<longrightarrow> objects v (b, k) \<noteq> None)"
    if s: "presence_attempt cf b k n v = (a, v')" for n v a v'
  proof -
    obtain r v1 where h: "sdk_HeadObject (cf_client cf) b k v = (r, v1)" by fastforce
    obtain out v2 where p: "probe_bucket cf b k v1 = (out, v2)" by fastforce
    note hd = head [OF h] and pr = probe [OF p]
    show ?thesis
    proof (cases r)
      case (Success n)
      with s h hd show ?thesis by (auto simp: presence_attempt_def)
    next
      case (Raised what)
      with s h hd show ?thesis by (auto simp: presence_attempt_def dest: failed_attempt_const)
    next
      case (Failure e)
      with s h hd p pr show ?thesis
        by (cases out) (auto simp: presence_attempt_def split: if_splits dest: failed_attempt_const)
    qed
  qed
  have "(objects w' = objects w \<and> parts w' = parts w) \<and> (q = NotFound \<longrightarrow> objects w (b, k) = None) \<and>
     (q = Exists \<longrightarrow> objects w (b, k) \<noteq> None)"
    using assms unfolding impl_CheckObjectPresence_def
    by (rule retrying_rule [where P = "\<lambda>v. objects v = objects w \<and> parts v = parts w"
        and Q = "\<lambda>q v. (q = NotFound \<longrightarrow> objects w (b, k) = None) \<and> (q = Exists \<longrightarrow> objects w (b, k) \<noteq> None)"])
      (use step in fastforce)+
  then show ?thesis by blast
qed

end

text \<open>A header in the form S3 sends is understood.\<close>

lemma extract_nat: "v = [] \<or> \<not> is_digit (hd v) \<Longrightarrow> int n \<le> int64_max \<Longrightarrow> extract_int (show_nat n @ v) = Some (int n, v)"
proof -
  assume v: "v = [] \<or> \<not> is_digit (hd v)" and n: "int n \<le> int64_max"
  have ds: "\<forall>c \<in> set (show_nat n). is_digit c" using show_nat_digits by blast
  then have h: "is_digit (hd (show_nat n))" by simp
  from digit_not_space_sign [OF this]
  have "\<not> is_space (hd (show_nat n))" "hd (show_nat n) \<noteq> CHR ''-''" "hd (show_nat n) \<noteq> CHR ''+''" by simp_all
  moreover obtain c cs where "show_nat n = c # cs" by (cases "show_nat n") auto
  ultimately have d: "dropWhile is_space (show_nat n @ v) = show_nat n @ v"
      "hd (show_nat n @ v) \<noteq> CHR ''-''" "hd (show_nat n @ v) \<noteq> CHR ''+''"
    by simp_all
  have t: "takeWhile is_digit (show_nat n @ v) = show_nat n" "dropWhile is_digit (show_nat n @ v) = v"
    using ds v by (cases v; simp add: takeWhile_append dropWhile_append)+
  show ?thesis
    unfolding extract_int_def d(1) Let_def using d(2,3) t n by (simp add: int64_max_def)
qed

lemma honours_content_range:
  assumes "int b \<le> int64_max" "a \<le> b"
  shows "RangeResponseHonoursRequest (content_range a b len) start final allow \<longleftrightarrow> int a = start \<and> int b = final"
proof -
  let ?v = "content_range a b len" and ?r = "show_nat a @ ''-'' @ show_nat b @ ''/'' @ len"
  have v: "?v = CHR ''b'' # CHR ''y'' # CHR ''t'' # CHR ''e'' # CHR ''s'' # CHR '' '' # ?r" by (simp add: content_range_def)
  have sp: "dropWhile is_space ?v = ?v" by (simp add: v is_space_def)
  have "is_digit (hd (show_nat a))" using show_nat_digits [of a] by simp
  then have nsp: "\<not> is_space (hd (show_nat a))" using digit_not_space_sign by blast
  have r: "dropWhile is_space (CHR '' '' # ?r) = ?r"
    using nsp by (cases "show_nat a") (simp_all, simp add: is_space_def)
  have e1: "extract_int ?r = Some (int a, ''-'' @ show_nat b @ ''/'' @ len)"
    by (rule extract_nat) (use assms in \<open>simp_all add: is_digit_def\<close>)
  have e2: "extract_char (''-'' @ show_nat b @ ''/'' @ len) = Some (CHR ''-'', show_nat b @ ''/'' @ len)"
    by (simp add: extract_char_def is_space_def)
  have e3: "extract_int (show_nat b @ ''/'' @ len) = Some (int b, ''/'' @ len)"
    by (rule extract_nat) (use assms in \<open>simp_all add: is_digit_def\<close>)
  have u: "map to_lower (take (length ''bytes'') ?v) = ''bytes''" by (simp add: v to_lower_def)
  have "drop (length ''bytes'') ?v = CHR '' '' # ?r" by (simp add: v)
  then show ?thesis
    unfolding RangeResponseHonoursRequest_def sp Let_def
    using u r e1 e2 e3 by (simp add: v is_space_def del: append.simps)
qed

lemma prefix_full: "prefix xs ys \<Longrightarrow> length ys \<le> length xs \<Longrightarrow> xs = ys"
  by (metis prefix_length_prefix prefix_order.eq_iff)

text \<open>A body of the right length, under a header that was checked, is the range.\<close>

lemma range_answer_exact:
  assumes "range_answer d i j allow header body" "RangeResponseHonoursRequest header i j allow"
    and "0 \<le> i" "i \<le> j" "int (length body) = j - i + 1" "int (length d) \<le> int64_max"
  shows "j < int (length d) \<and> body = slice (nat i) (nat (j - i + 1)) d"
proof -
  have len: "length body = nat (j - i + 1)" using assms(5) by simp
  have part: ?thesis if "prefix body (slice (nat i) (nat (j - i + 1)) d)"
  proof -
    have "nat (j - i + 1) \<le> length (slice (nat i) (nat (j - i + 1)) d)"
      using prefix_length_le [OF that] len by simp
    then have "nat (j - i + 1) \<le> length d - nat i" by simp
    moreover from this have "nat i + nat (j - i + 1) \<le> length d" using assms(3,4) by linarith
    ultimately show ?thesis using prefix_full [OF that] len assms(3,4) by simp
  qed
  consider "header = []" "\<not> allow" "prefix body d" | "prefix body (slice (nat i) (nat (j - i + 1)) d)"
    | a b len' where "a \<le> b" "b < length d" "header = content_range a b len'" "prefix body (slice a (b - a + 1) d)"
    using assms(1) unfolding range_answer_def by blast
  then show ?thesis
  proof cases
    case 1
    then have "i = 0" using assms(2) by (auto simp: RangeResponseHonoursRequest_def split: if_splits)
    moreover have "body = take (nat (j + 1)) d"
      using 1(3) len \<open>i = 0\<close> by (metis add.commute append_eq_conv_conj diff_0_right prefix_def)
    ultimately show ?thesis using len prefix_length_le [OF 1(3)] assms(4) by (simp add: slice_def; linarith)
  next
    case 3
    have "int b \<le> int64_max" using 3(2) assms(6) by simp
    from honours_content_range [OF this 3(1)] assms(2) 3(3) have "int a = i" "int b = j" by auto
    then have "a = nat i" "b - a + 1 = nat (j - i + 1)" using 3(1) by auto
    with part 3(4) show ?thesis by simp
  qed (rule part)
qed

text \<open>The range requested for a chunk is the chunk.\<close>

lemma requested_chunk:
  assumes "0 < cs" "0 \<le> i" "i * cs < int (length d)"
  shows "slice (nat (i * cs)) (nat (min (i * cs + cs - 1) (int (length d) - 1) - i * cs + 1)) d = chunk_bytes cs d i"
proof (cases "i * cs + cs \<le> int (length d)")
  case True
  then show ?thesis by (simp add: chunk_bytes_def)
next
  case False
  let ?e = "min (i * cs + cs - 1) (int (length d) - 1)"
  from False have "length (drop (nat (i * cs)) d) \<le> nat (?e - i * cs + 1)" "length (drop (nat (i * cs)) d) \<le> nat cs"
    using assms by (auto simp: nat_diff_distrib)
  then show ?thesis by (simp add: chunk_bytes_def slice_def)
qed

text \<open>What a copy of one request does.\<close>

definition copied_to ::
  "store_view \<Rightarrow> string \<times> string \<Rightarrow> string \<times> string \<Rightarrow> bool \<Rightarrow> store_view \<Rightarrow> bool" where
  "copied_to v src dst ok v' \<longleftrightarrow>
     (case v src of None \<Rightarrow> \<not> ok \<and> v' = v | Some d \<Rightarrow> written_as v dst (Some d) ok v')"

lemma copied_to_source: "copied_to v src dst ok v' \<Longrightarrow> v' src = v src"
  by (auto simp: copied_to_def written_as_def split: option.splits if_splits)

lemma copied_to_again:
  "copied_to v src dst False v1 \<Longrightarrow> copied_to v1 src dst ok v2 \<Longrightarrow> copied_to v src dst ok v2"
  using copied_to_source [of v src dst False v1]
  by (auto simp: copied_to_def written_as_def split: option.splits if_splits)

context s3_service
begin

lemma impl_range_read:
  assumes "impl_GetObjectRange cf b k i j w = (d, w')"
  shows "objects w' = objects w \<and> parts w' = parts w \<and>
    (d \<noteq> [] \<longrightarrow> (\<exists>x. objects w (b, k) = Some x \<and> 0 \<le> i \<and> i \<le> j \<and> j < int (length x) \<and>
       d = slice (nat i) (nat (j - i + 1)) x))"
proof (cases "ValidateRange i j")
  case None
  with assms show ?thesis by (simp add: impl_GetObjectRange_def)
next
  case (Some n)
  then have r: "0 \<le> i" "i \<le> j" "n = j - i + 1" by (auto simp: ValidateRange_def split: if_splits)
  have step: "objects v' = objects v \<and> parts v' = parts v \<and>
      (\<forall>d. a = Answer d \<longrightarrow> d \<noteq> [] \<longrightarrow> (\<exists>x. objects v (b, k) = Some x \<and> j < int (length x) \<and>
         d = slice (nat i) (nat (j - i + 1)) x))"
    if s: "range_attempt cf b k i j n m v = (a, v')" for m v a v'
  proof -
    obtain q v1 where g: "sdk_GetObject (cf_client cf) b k (byte_range i j) v = (q, v1)" by fastforce
    note gt = get [OF g]
    show ?thesis
    proof (cases q)
      case (Success hb)
      obtain header body where hb: "hb = (header, body)" by fastforce
      from gt Success hb r obtain d where d: "objects v (b, k) = Some d" "range_answer d i j (cf_allow_unverified cf) header body"
        by auto
      have sz: "int (length d) \<le> int64_max"
        using object_size [OF d(1)] by (simp add: max_object_size_def int64_max_def)
      have "a = Answer body \<longrightarrow> body \<noteq> [] \<longrightarrow> j < int (length d) \<and> body = slice (nat i) (nat (j - i + 1)) d \<or> a = Answer []"
        using s g Success hb range_answer_exact [OF d(2) _ r(1,2) _ sz] r(3)
        by (auto simp: range_attempt_def split: if_splits)
      moreover have "a = Answer body \<or> a = Answer [] \<or> a = Again" "v' = v1"
        using s g Success hb by (auto simp: range_attempt_def split: if_splits)
      ultimately show ?thesis using gt d(1) by auto
    qed (use s g gt in \<open>auto simp: range_attempt_def dest: failed_attempt_answer\<close>)
  qed
  from assms Some have "retrying (cf_max_retries cf) (range_attempt cf b k i j n) [] w = (d, w')"
    by (simp add: impl_GetObjectRange_def)
  then have "(objects w' = objects w \<and> parts w' = parts w) \<and>
    (d \<noteq> [] \<longrightarrow> (\<exists>x. objects w (b, k) = Some x \<and> j < int (length x) \<and> d = slice (nat i) (nat (j - i + 1)) x))"
  proof (rule retrying_rule [where P = "\<lambda>v. objects v = objects w \<and> parts v = parts w"
        and Q = "\<lambda>d v. d \<noteq> [] \<longrightarrow> (\<exists>x. objects w (b, k) = Some x \<and> j < int (length x) \<and> d = slice (nat i) (nat (j - i + 1)) x)"])
    show "objects v' = objects w \<and> parts v' = parts w"
      if "range_attempt cf b k i j n m v = (a, v')" "objects v = objects w \<and> parts v = parts w" for m v a v'
      using step [OF that(1)] that(2) by simp
    show "d \<noteq> [] \<longrightarrow> (\<exists>x. objects w (b, k) = Some x \<and> j < int (length x) \<and> d = slice (nat i) (nat (j - i + 1)) x)"
      if "range_attempt cf b k i j n m v = (Answer d, v')" "objects v = objects w \<and> parts v = parts w" for m v d v'
      using step [OF that(1)] that(2) by simp
  qed simp_all
  with r show ?thesis by auto
qed

text \<open>The read into a buffer is the read that returns one.\<close>

lemma impl_range_into:
  "impl_GetObjectRangeInto cf b k i j w = (case impl_GetObjectRange cf b k i j w of (d, w') \<Rightarrow> ((d \<noteq> [], d), w'))"
proof (cases "ValidateRange i j")
  case None
  then show ?thesis by (simp add: impl_GetObjectRange_def impl_GetObjectRangeInto_def)
next
  case (Some n)
  then have n: "0 < n" by (auto simp: ValidateRange_def split: if_splits)
  have "range_into_attempt cf b k i j n a v =
      (case range_attempt cf b k i j n a v of (q, v') \<Rightarrow> (map_attempt (\<lambda>d. (d \<noteq> [], d)) q, v'))" for a v
  proof -
    obtain q v1 where g: "sdk_GetObject (cf_client cf) b k (byte_range i j) v = (q, v1)" by fastforce
    show ?thesis
    proof (cases q)
      case (Success hb)
      obtain header body where hb: "hb = (header, body)" by fastforce
      consider (long) "n < int (length body)" | (short) "int (length body) < n" | (exact) "int (length body) = n" by linarith
      then show ?thesis
      proof cases
        case long
        then have "drop (nat n) body \<noteq> []" "min (length body) (nat n) = nat n" using n by auto
        with long n show ?thesis
          by (simp add: range_into_attempt_def range_attempt_def g Success hb memory Let_def)
      next
        case short
        then have "nat n > length body" by linarith
        with short n show ?thesis
          by (simp add: range_into_attempt_def range_attempt_def g Success hb memory Let_def)
      next
        case exact
        then have "nat n = length body" "body \<noteq> []" using n by auto
        with exact n show ?thesis
          by (simp add: range_into_attempt_def range_attempt_def g Success hb memory Let_def)
      qed
    qed (auto simp: range_into_attempt_def range_attempt_def g failed_attempt_def)
  qed
  from retrying_map [where g = "\<lambda>d. (d \<noteq> [], d)" and after = "[]" and m = "cf_max_retries cf" and w = w, OF this]
  show ?thesis by (simp add: impl_GetObjectRange_def impl_GetObjectRangeInto_def Some)
qed

lemma impl_list:
  assumes "impl_ListObjects cf b p dl t n w = (r, w')"
  shows "objects w' = objects w \<and> parts w' = parts w"
proof -
  from assms have "retrying (cf_max_retries cf) (\<lambda>attempt w.
          case sdk_ListObjectsV2 (cf_client cf) b p dl t n w of
            (Success pg, w) \<Rightarrow> (Answer (list_result_of pg), w)
          | (out, w) \<Rightarrow>
              (failed_attempt (cf_max_retries cf) attempt out (\<lambda>msg. empty_list_result\<lparr>lr_error := msg\<rparr>)
                 (\<lambda>what. empty_list_result\<lparr>lr_error := ''Exception: '' @ what\<rparr>), w))
       empty_list_result w = (r, w')" by (simp add: impl_ListObjects_def)
  then have "(objects w' = objects w \<and> parts w' = parts w) \<and> True"
    by (rule retrying_rule [where P = "\<lambda>v. objects v = objects w \<and> parts v = parts w" and Q = "\<lambda>_ _. True"])
      (auto split: prod.splits outcome.splits dest!: list_objects)
  then show ?thesis by simp
qed

lemma succeeded_iff: "succeeded (r, w) = (ok, w') \<longleftrightarrow> w' = w \<and> (ok \<longleftrightarrow> (\<exists>a. r = Success a))"
  by (auto simp: succeeded_def split: outcome.splits)

lemma impl_put:
  assumes "succeeded (sdk_PutObject (cf_client cf) b k req w) = (ok, w')" "put_content_length req = int (length (put_body req))"
  shows "parts w' = parts w \<and> written_as (objects w) (b, k) (Some (put_body req)) ok (objects w')"
proof -
  obtain r w1 where p: "sdk_PutObject (cf_client cf) b k req w = (r, w1)" by fastforce
  with assms put [OF p] show ?thesis
    by (auto simp: succeeded_iff stored_def written_as_def split: outcome.splits if_splits)
qed

lemma impl_put_plain:
  assumes "impl_PutObject cf b k d w = (ok, w')"
  shows "parts w' = parts w \<and> written_as (objects w) (b, k) (Some d) ok (objects w')"
  using impl_put [OF assms [unfolded impl_PutObject_def]] by simp

lemma impl_put_file:
  assumes "impl_PutObjectFromFile cf b k p f w = (ok, w')"
  shows "parts w' = parts w \<and> (case f p of None \<Rightarrow> \<not> ok \<and> objects w' = objects w
     | Some d \<Rightarrow> written_as (objects w) (b, k) (Some d) ok (objects w'))"
proof (cases "f p")
  case None
  with assms show ?thesis by (simp add: impl_PutObjectFromFile_def)
next
  case (Some d)
  show ?thesis
  proof (cases "int (length d) > kMaxSinglePutBytes")
    case True
    with assms Some show ?thesis by (simp add: impl_PutObjectFromFile_def written_as_def)
  next
    case False
    with assms Some have "succeeded (sdk_PutObject (cf_client cf) b k \<lparr>put_body = d, put_content_length = int (length d),
        put_algorithm_crc32 = True, put_checksum_crc32 = []\<rparr> w) = (ok, w')"
      by (simp add: impl_PutObjectFromFile_def impl_PutObjectStreamed_def stream_body_exact)
    from impl_put [OF this] Some show ?thesis by simp
  qed
qed

lemma impl_delete:
  assumes "impl_DeleteObject cf b k w = (ok, w')"
  shows "parts w' = parts w \<and> written_as (objects w) (b, k) None ok (objects w')"
proof -
  obtain r w1 where p: "sdk_DeleteObject (cf_client cf) b k w = (r, w1)" by fastforce
  with assms delete [OF p] show ?thesis
    by (auto simp: impl_DeleteObject_def succeeded_iff stored_def written_as_def split: outcome.splits if_splits)
qed

lemma impl_delete_many:
  assumes "impl_DeleteObjects cf b ks w = (failed, w')"
  shows "parts w' = parts w \<and> set failed \<subseteq> set ks \<and> length failed \<le> length ks \<and>
     (\<forall>k. k \<in> set ks \<longrightarrow> k \<notin> set failed \<longrightarrow> objects w' (b, k) = None) \<and>
     only_removed (keys_in b ks) (objects w) (objects w')"
proof (cases "ks = []")
  case True
  with assms show ?thesis by (simp add: impl_DeleteObjects_def)
next
  case False
  obtain r w1 where p: "sdk_DeleteObjects (cf_client cf) b ks w = (r, w1)" by fastforce
  with False assms delete_many [OF p] show ?thesis by (cases r) (auto simp: impl_DeleteObjects_def)
qed

lemma impl_copy_simple:
  assumes "impl_CopyObjectSimple cf sb sk b k w = (ok, w')"
  shows "parts w' = parts w \<and> (\<forall>x. x \<noteq> (b, k) \<longrightarrow> objects w' x = objects w x) \<and>
     (CHR ''/'' \<notin> set sb \<longrightarrow> copied_to (objects w) (sb, sk) (b, k) ok (objects w'))"
proof -
  let ?body = "\<lambda>attempt w. case sdk_CopyObject (cf_client cf) b k (copy_source sb sk) w of
            (Success _, w) \<Rightarrow> (Answer True, w)
          | (out, w) \<Rightarrow> (failed_attempt (cf_max_retries cf) attempt out (\<lambda>_. False) (\<lambda>_. False), w)"
  let ?P = "\<lambda>v. parts v = parts w \<and> (\<forall>x. x \<noteq> (b, k) \<longrightarrow> objects v x = objects w x) \<and>
     (CHR ''/'' \<notin> set sb \<longrightarrow> copied_to (objects w) (sb, sk) (b, k) False (objects v))"
  let ?Q = "\<lambda>ok v. CHR ''/'' \<notin> set sb \<longrightarrow> copied_to (objects w) (sb, sk) (b, k) ok (objects v)"
  have weaken: "copied_to v src dst True v' \<Longrightarrow> copied_to v src dst False v'" for v src dst v'
    by (auto simp: copied_to_def written_as_def split: option.splits)
  have step: "?P v' \<and> (\<forall>ok. a = Answer ok \<longrightarrow> ?Q ok v')" if s: "?body n v = (a, v')" "?P v" for n v a v'
  proof -
    obtain r v1 where c: "sdk_CopyObject (cf_client cf) b k (copy_source sb sk) v = (r, v1)" by fastforce
    have v1: "v' = v1" "a = Answer True \<and> (\<exists>u. r = Success u) \<or> a = Answer False \<and> (\<forall>u. r \<noteq> Success u) \<or> a = Again \<and> (\<forall>u. r \<noteq> Success u)"
      using s(1) c by (auto simp: failed_attempt_def split: outcome.splits if_splits)
    have "copied_to (objects v) (sb, sk) (b, k) (\<exists>u. r = Success u) (objects v1)" if "CHR ''/'' \<notin> set sb"
      using copy [OF c that] by (auto simp: copied_to_def written_as_def stored_def split: option.splits outcome.splits)
    then have "copied_to (objects w) (sb, sk) (b, k) (\<exists>u. r = Success u) (objects v1)" if "CHR ''/'' \<notin> set sb"
      using s(2) that copied_to_again by blast
    with copy_frame [OF c] s(2) v1 weaken show ?thesis by (cases "\<exists>u. r = Success u") auto
  qed
  have refl: "copied_to v src dst False v" for v src dst
    by (auto simp: copied_to_def written_as_def split: option.splits)
  from assms have "retrying (cf_max_retries cf) ?body False w = (ok, w')" by (simp add: impl_CopyObjectSimple_def)
  then have "?P w' \<and> ?Q ok w'"
  proof (rule retrying_rule [where P = ?P and Q = ?Q])
    show "?P w" using refl by simp
    show "?P v'" if "?body n v = (a, v')" "?P v" for n v a v' using step [OF that] by (rule conjunct1)
    show "?Q ok v'" if "?body n v = (Answer ok, v')" "?P v" for n v ok v' using step [OF that] by blast
    show "?Q False v" if "?P v" for v using that by blast
  qed
  then show ?thesis by blast
qed

lemma impl_part_copy:
  assumes "impl_UploadPartCopy cf b k u n sb sk i j w = (r, w')"
  shows "objects w' = objects w \<and> (\<forall>x. x \<noteq> (b, k, u) \<longrightarrow> parts w' x = parts w x) \<and>
     (case parts w (b, k, u) of
        None \<Rightarrow> parts w' (b, k, u) = None
      | Some m \<Rightarrow> \<exists>m'. parts w' (b, k, u) = Some m' \<and> other_parts_kept n m m' \<and>
          (part_ok r \<longrightarrow> CHR ''/'' \<notin> set sb \<longrightarrow> (\<exists>d. objects w (sb, sk) = Some d \<and> 0 \<le> i \<and> i \<le> j \<and> j < int (length d) \<and>
             m' n = Some (slice (nat i) (nat (j - i + 1)) d))))"
proof -
  obtain q w1 where c: "sdk_UploadPartCopy (cf_client cf) b k u n (copy_source sb sk) (byte_range i j) w = (q, w1)" by fastforce
  have w': "w' = w1" using assms c by (auto simp: impl_UploadPartCopy_def part_of_def split: outcome.splits)
  note uc = upload_copy [OF c]
  have val: "\<exists>d. objects w (sb, sk) = Some d \<and> 0 \<le> i \<and> i \<le> j \<and> j < int (length d) \<and>
      (\<forall>m'. parts w1 (b, k, u) = Some m' \<longrightarrow> m' n = Some (slice (nat i) (nat (j - i + 1)) d))"
    if "part_ok r" "CHR ''/'' \<notin> set sb"
  proof -
    from assms c that(1) obtain p where q: "q = Success p"
      by (auto simp: impl_UploadPartCopy_def part_of_def split: outcome.splits)
    from upload_copied [OF c [unfolded q] that(2)] show ?thesis unfolding Let_def by blast
  qed
  show ?thesis
  proof (cases "parts w (b, k, u)")
    case None
    with uc w' show ?thesis by simp
  next
    case (Some m)
    with uc obtain m' where m': "parts w1 (b, k, u) = Some m'" "other_parts_kept n m m'" by auto
    with val Some uc w' show ?thesis by auto
  qed
qed

text \<open>The parts of a copy, whatever they hold, touch nothing but their upload.\<close>

definition upload_only :: "string \<times> string \<times> string \<Rightarrow> 'w \<Rightarrow> 'w \<Rightarrow> bool" where
  "upload_only x w w' \<longleftrightarrow> objects w' = objects w \<and> (\<forall>y. y \<noteq> x \<longrightarrow> parts w' y = parts w y) \<and>
     (parts w x = None \<longrightarrow> parts w' x = None)"

lemma upload_only_trans: "upload_only x w w1 \<Longrightarrow> upload_only x w1 w2 \<Longrightarrow> upload_only x w w2"
  by (simp add: upload_only_def)

lemma impl_part_copy_only: "impl_UploadPartCopy cf b k u n sb sk i j w = (r, w') \<Longrightarrow> upload_only (b, k, u) w w'"
  using impl_part_copy [of b k u n sb sk i j w r w'] by (auto simp: upload_only_def split: option.splits)

lemma part_retry_only:
  assumes "part_retry n request c w = (r, c', w')" "\<And>w r w'. request w = (r, w') \<Longrightarrow> upload_only x w w'"
  shows "upload_only x w w'"
  using assms(1)
proof (induction n arbitrary: c w)
  case 0
  then show ?case by (simp add: upload_only_def)
next
  case (Suc n)
  obtain stop c1 where p: "poll c = (stop, c1)" by fastforce
  obtain q w1 where q: "request w = (q, w1)" by fastforce
  from Suc.prems p q assms(2) [OF q] Suc.IH upload_only_trans show ?case
    by (auto simp: upload_only_def split: if_splits)
qed

lemma copy_parts_only:
  assumes "copy_parts cf request js qs c w = (res, c', w')" "\<And>i w r w'. request i w = (r, w') \<Longrightarrow> upload_only x w w'"
  shows "upload_only x w w'"
  using assms(1)
proof (induction js arbitrary: qs c w)
  case Nil
  then show ?case by (simp add: upload_only_def)
next
  case (Cons i js)
  obtain stop c1 where p: "poll c = (stop, c1)" by fastforce
  obtain r c2 w1 where q: "part_retry (nat (cf_max_retries cf + 1)) (request i) c1 w = (r, c2, w1)" by (metis surj_pair)
  from part_retry_only [OF q assms(2)] have "upload_only x w w1" .
  with Cons p q upload_only_trans show ?case by (auto simp: upload_only_def split: if_splits)
qed

lemma copy_request_stored:
  assumes "copy_part_request cf sb sk b k u n ps i w = (r, w')" "CHR ''/'' \<notin> set sb" "objects w (sb, sk) = Some d"
    and "n = int (length d)" "0 < ps" "0 \<le> i" "i * ps < n" "i + 1 < 2 ^ 31"
  shows "part_stored objects (\<lambda>w. parts w (b, k, u)) (i + 1) (chunk_bytes ps d i) (part_ok r) w w'"
proof -
  let ?e = "min (i * ps + ps - 1) (n - 1)"
  have id: "to_int32 (i + 1) = i + 1" using assms(6,8) by (simp add: to_int32_id)
  have "impl_UploadPartCopy cf b k u (i + 1) sb sk (i * ps) ?e w = (r, w')"
    using assms(1) by (simp add: copy_part_request_def id Let_def)
  note pc = impl_part_copy [OF this]
  have same: "slice (nat (i * ps)) (nat (?e - i * ps + 1)) d = chunk_bytes ps d i"
    unfolding assms(4) by (rule requested_chunk) (use assms in auto)
  have "\<exists>m'. parts w' (b, k, u) = Some m' \<and> other_parts_kept (i + 1) m m' \<and> (part_ok r \<longrightarrow> m' (i + 1) = Some (chunk_bytes ps d i))"
    if "parts w (b, k, u) = Some m" for m
  proof -
    from pc that obtain m' where "parts w' (b, k, u) = Some m'" "other_parts_kept (i + 1) m m'"
      "part_ok r \<longrightarrow> m' (i + 1) = Some (slice (nat (i * ps)) (nat (?e - i * ps + 1)) d)"
      using assms(2,3) by auto
    with same show ?thesis by auto
  qed
  with pc show ?thesis unfolding part_stored_def by blast
qed

lemma copy_parts_stored:
  assumes "copy_parts cf (copy_part_request cf sb sk b k u n ps) js qs c w = (res, c', w')"
    and "CHR ''/'' \<notin> set sb" "objects w (sb, sk) = Some d" "n = int (length d)" "0 < ps"
    and "\<forall>i \<in> set js. 0 \<le> i \<and> i * ps < n \<and> i + 1 < 2 ^ 31" "distinct js" "parts w (b, k, u) = Some m"
  shows "\<exists>m'. parts w' (b, k, u) = Some m' \<and> (\<forall>j. j - 1 \<notin> set js \<longrightarrow> m' j = m j) \<and>
     (\<forall>qs'. res = Copied qs' \<longrightarrow> (\<exists>rs. qs' = qs @ rs \<and> map fst rs = map (\<lambda>i. i + 1) js) \<and>
        (\<forall>i \<in> set js. m' (i + 1) = Some (chunk_bytes ps d i)))"
  using assms(1,3,6,7,8)
proof (induction js arbitrary: qs c w m)
  case Nil
  then show ?case by auto
next
  case (Cons i js)
  obtain stop c1 where p: "poll c = (stop, c1)" by fastforce
  obtain r c2 w1 where q: "part_retry (nat (cf_max_retries cf + 1)) (copy_part_request cf sb sk b k u n ps i) c1 w = (r, c2, w1)"
    by (metis surj_pair)
  have i: "0 \<le> i" "i * ps < n" "i + 1 < 2 ^ 31" using Cons.prems(3) by auto
  have st: "part_stored objects (\<lambda>w. parts w (b, k, u)) (i + 1) (chunk_bytes ps d i) (part_ok r) w w1"
  proof (rule part_retry_stored [where v = "objects w" and objects = objects and parts = "\<lambda>w. parts w (b, k, u)"
        and s = w and request = "copy_part_request cf sb sk b k u n ps i", OF q])
    show "part_stored objects (\<lambda>w. parts w (b, k, u)) (i + 1) (chunk_bytes ps d i) (part_ok r) t t'"
      if "copy_part_request cf sb sk b k u n ps i t = (r, t')" "objects t = objects w" for t r t'
      by (rule copy_request_stored [OF that(1) assms(2) _ assms(4,5) i]) (use that(2) Cons.prems(2) in simp)
  qed simp
  show ?case
  proof (cases "stop \<or> \<not> part_ok r")
    case True
    consider "stop" "w' = w" "res = CopyStopped" | "w' = w1" "res = CopyFailed"
      using Cons.prems(1) p q True by (auto split: if_splits)
    then show ?thesis
    proof cases
      case 1
      with Cons.prems(5) show ?thesis by auto
    next
      case 2
      from st Cons.prems(5) obtain m1 where "parts w1 (b, k, u) = Some m1" "other_parts_kept (i + 1) m m1"
        by (auto simp: part_stored_def)
      with 2 show ?thesis by (auto simp: other_parts_kept_def)
    qed
  next
    case False
    from st Cons.prems(5) False obtain m1 where m1: "parts w1 (b, k, u) = Some m1" "other_parts_kept (i + 1) m m1"
        "m1 (i + 1) = Some (chunk_bytes ps d i)" and o1: "objects w1 = objects w"
      by (auto simp: part_stored_def)
    have go: "copy_parts cf (copy_part_request cf sb sk b k u n ps) js (qs @ [(i + 1, r)]) c2 w1 = (res, c', w')"
      using Cons.prems(1) p q False i by (simp add: to_int32_id)
    have "objects w1 (sb, sk) = Some d" "\<forall>i \<in> set js. 0 \<le> i \<and> i * ps < n \<and> i + 1 < 2 ^ 31" "distinct js"
      using Cons.prems o1 by auto
    from Cons.IH [OF go this m1(1)] obtain m' where m': "parts w' (b, k, u) = Some m'" "\<forall>j. j - 1 \<notin> set js \<longrightarrow> m' j = m1 j"
      "\<forall>qs'. res = Copied qs' \<longrightarrow> (\<exists>rs. qs' = (qs @ [(i + 1, r)]) @ rs \<and> map fst rs = map (\<lambda>i. i + 1) js) \<and>
        (\<forall>i \<in> set js. m' (i + 1) = Some (chunk_bytes ps d i))" by blast
    have "m' (i + 1) = m1 (i + 1)" using m'(2) Cons.prems(4) by simp
    moreover have "\<exists>rs. qs' = qs @ rs \<and> map fst rs = map (\<lambda>i. i + 1) (i # js)" if "res = Copied qs'" for qs'
    proof -
      from m'(3) that obtain rs where "qs' = (qs @ [(i + 1, r)]) @ rs" "map fst rs = map (\<lambda>i. i + 1) js" by blast
      then show ?thesis by (intro exI [of _ "(i + 1, r) # rs"]) simp
    qed
    ultimately show ?thesis using m' m1 by (intro exI [of _ m']) (auto simp: other_parts_kept_def)
  qed
qed

text \<open>Of an object that is not there no part can be copied.\<close>

lemma part_retry_absent:
  assumes "part_retry m (copy_part_request cf sb sk b k u n ps i) c w = (r, c', w')" "CHR ''/'' \<notin> set sb" "objects w (sb, sk) = None"
    and "parts w (b, k, u) \<noteq> None"
  shows "\<not> part_ok r"
  using assms(1,3,4)
proof (induction m arbitrary: c w)
  case (Suc m)
  obtain stop c1 where p: "poll c = (stop, c1)" by fastforce
  obtain q w1 where q: "copy_part_request cf sb sk b k u n ps i w = (q, w1)" by fastforce
  then obtain e where "impl_UploadPartCopy cf b k u (to_int32 (i + 1)) sb sk (i * ps) e w = (q, w1)"
    by (auto simp: copy_part_request_def Let_def)
  from impl_part_copy [OF this] Suc.prems(2,3) assms(2)
  have "\<not> part_ok q \<and> objects w1 = objects w \<and> parts w1 (b, k, u) \<noteq> None" by auto
  with Suc p q show ?case by (auto split: if_splits)
qed simp

lemma copy_parts_absent:
  assumes "copy_parts cf (copy_part_request cf sb sk b k u n ps) (i # js) qs c w = (res, c', w')" "CHR ''/'' \<notin> set sb"
    and "objects w (sb, sk) = None" "parts w (b, k, u) \<noteq> None"
  shows "res \<noteq> Copied qs'"
proof -
  obtain stop c1 where p: "poll c = (stop, c1)" by fastforce
  obtain r c2 w1 where q: "part_retry (nat (cf_max_retries cf + 1)) (copy_part_request cf sb sk b k u n ps i) c1 w = (r, c2, w1)"
    by (metis surj_pair)
  from part_retry_absent [OF q assms(2-4)] assms(1) p q show ?thesis by (auto split: if_splits)
qed

lemma abort_or_keep_objects: "objects (ad_world (abort_or_keep cf b k u s)) = objects (ad_world s)"
proof -
  obtain r w where "sdk_AbortMultipartUpload (cf_client cf) b k u (ad_world s) = (r, w)" by fastforce
  from abort [OF this] this show ?thesis
    by (auto simp: abort_or_keep_def on_world_def impl_AbortMultipartUpload_def succeeded_def unregister_upload_def split: outcome.splits)
qed

lemma impl_complete:
  assumes "impl_CompleteMultipartUpload cf b k u ps w = (ok, w')"
  shows "(\<forall>x. x \<noteq> (b, k) \<longrightarrow> objects w' x = objects w x) \<and>
     (\<forall>m. parts w (b, k, u) = Some m \<longrightarrow> (ok \<longrightarrow> (\<forall>(n, q) \<in> set ps. m n \<noteq> None)) \<and>
        written_as (objects w) (b, k) (Some (parts_bytes m ps)) ok (objects w'))"
proof -
  obtain r w1 where c: "sdk_CompleteMultipartUpload (cf_client cf) b k u ps w = (r, w1)" by fastforce
  then have r: "w' = w1" "ok \<longleftrightarrow> (\<exists>a. r = Success a)" using assms by (auto simp: impl_CompleteMultipartUpload_def succeeded_iff)
  have "(ok \<longrightarrow> (\<forall>(n, q) \<in> set ps. m n \<noteq> None)) \<and> written_as (objects w) (b, k) (Some (parts_bytes m ps)) ok (objects w')"
    if "parts w (b, k, u) = Some m" for m
    using completed [OF c that] r by (cases r) (simp_all add: stored_def written_as_def)
  with complete [OF c] r show ?thesis by blast
qed

lemma copied_parts_bytes:
  assumes "map fst qs = map (\<lambda>i. i + 1) (whole_file_ids ps d)" "0 < ps"
    and "\<forall>i \<in> set (whole_file_ids ps d). m (i + 1) = Some (chunk_bytes ps d i)"
  shows "parts_bytes m qs = d"
proof -
  have "map (\<lambda>(n, _). the (m n)) qs = map (the \<circ> m) (map fst qs)" by (induction qs) auto
  also have "\<dots> = chunks ps d"
    unfolding assms(1) map_map chunks_def using assms(3) by (intro map_cong refl) (simp only: comp_apply option.sel)
  finally show ?thesis unfolding parts_bytes_def by (simp add: concat_chunks [OF assms(2)])
qed

lemma impl_copy_multipart:
  assumes "impl_CopyObjectMultipart cf sb sk b k n MULTIPART_PART_SIZE c s = ((ok, c'), s')" "0 < n"
  shows "(\<forall>x. x \<noteq> (b, k) \<longrightarrow> objects (ad_world s') x = objects (ad_world s) x) \<and>
     (CHR ''/'' \<notin> set sb \<longrightarrow> (\<forall>d. objects (ad_world s) (sb, sk) = Some d \<longrightarrow> n = int (length d)) \<longrightarrow>
        copied_to (objects (ad_world s)) (sb, sk) (b, k) ok (objects (ad_world s')))"
proof -
  let ?ps = "MULTIPART_PART_SIZE"
  have ps: "0 < ?ps" by (simp add: MULTIPART_PART_SIZE_def)
  define num where "num = (n + ?ps - 1) div ?ps"
  obtain r w1 where cr: "sdk_CreateMultipartUpload (cf_client cf) b k (ad_world s) = (r, w1)" by fastforce
  define u where "u = fst (impl_CreateMultipartUpload cf b k (ad_world s))"
  have uw: "impl_CreateMultipartUpload cf b k (ad_world s) = (u, w1)"
    using cr by (auto simp: u_def impl_CreateMultipartUpload_def split: outcome.splits)
  note created = create [OF cr]
  show ?thesis
  proof (cases "u = []")
    case True
    with assms(1) uw created show ?thesis
      by (auto simp: impl_CopyObjectMultipart_def on_world_def copied_to_def written_as_def split: option.splits)
  next
    case False
    then have p1: "parts w1 (b, k, u) = Some Map.empty" "objects w1 = objects (ad_world s)"
      using uw cr created by (auto simp: impl_CreateMultipartUpload_def split: outcome.splits)
    define s1 where "s1 = register_upload \<lparr>au_client = Some (cf_client cf), au_bucket = b, au_key = k, au_upload_id = u\<rparr>
        (s\<lparr>ad_world := w1\<rparr>)"
    have s1: "ad_world s1 = w1" by (simp add: s1_def register_upload_def)
    obtain res c2 w2 where cp: "copy_parts cf (copy_part_request cf sb sk b k u n ?ps) [0 .. num - 1] [] c w1 = (res, c2, w2)"
      by (metis surj_pair)
    have o2: "objects w2 = objects w1"
      using copy_parts_only [OF cp, of "(b, k, u)"] impl_part_copy_only
      by (auto simp: upload_only_def copy_part_request_def Let_def)
    note def = assms(1) [unfolded impl_CopyObjectMultipart_def on_world_def uw prod.case Let_def, folded s1_def num_def, unfolded s1 cp]
    show ?thesis
    proof (cases "\<exists>qs. res = Copied qs")
      case nc: False
      then have "\<not> ok \<and> s' = abort_or_keep cf b k u (s1\<lparr>ad_world := w2\<rparr>)"
        using def False by (cases res) auto
      then show ?thesis using o2 p1(2)
        by (auto simp: abort_or_keep_objects copied_to_def written_as_def split: option.splits)
    next
      case True
      then obtain qs where qs: "res = Copied qs" by blast
      obtain done3 w3 where cm: "impl_CompleteMultipartUpload cf b k u qs w2 = (done3, w3)" by fastforce
      have end3: "ok = done3" "objects (ad_world s') = objects w3"
        using def False qs cm by (auto simp: abort_or_keep_objects unregister_upload_def split: if_splits)
      note ic = impl_complete [OF cm]
      have "copied_to (objects (ad_world s)) (sb, sk) (b, k) ok (objects (ad_world s'))"
        if sb: "CHR ''/'' \<notin> set sb" and n: "\<forall>d. objects (ad_world s) (sb, sk) = Some d \<longrightarrow> n = int (length d)"
      proof (cases "objects (ad_world s) (sb, sk)")
        case None
        have "0 < num" using assms(2) ps by (simp add: num_def pos_imp_zdiv_pos_iff)
        then have "[0 .. num - 1] = 0 # [1 .. num - 1]" by (simp add: upto.simps)
        from copy_parts_absent [where qs' = qs, OF cp [unfolded this] sb] None p1 qs show ?thesis by simp
      next
        case (Some d)
        with n have n: "n = int (length d)" by blast
        have ids: "[0 .. num - 1] = whole_file_ids ?ps d"
          using n assms(2) by (simp add: whole_file_ids_def num_def ceil_div_def)
        have fits: "\<forall>i \<in> set [0 .. num - 1]. 0 \<le> i \<and> i * ?ps < n \<and> i + 1 < 2 ^ 31"
        proof
          fix i assume "i \<in> set [0 .. num - 1]"
          then have i: "0 \<le> i" "i < ceil_div n ?ps" using ids n by (simp_all add: whole_file_ids_def)
          with ps ceil_div_less_iff have "i * ?ps < n" by blast
          moreover from this object_size [OF Some] n have "i + 1 < 2 ^ 31"
            by (simp add: max_object_size_def MULTIPART_PART_SIZE_def)
          ultimately show "0 \<le> i \<and> i * ?ps < n \<and> i + 1 < 2 ^ 31" using i by simp
        qed
        from copy_parts_stored [OF cp sb _ n ps fits _ p1(1)] Some p1(2) qs obtain m' where
          m': "parts w2 (b, k, u) = Some m'" "map fst qs = map (\<lambda>i. i + 1) [0 .. num - 1]"
            "\<forall>i \<in> set [0 .. num - 1]. m' (i + 1) = Some (chunk_bytes ?ps d i)" by auto
        from copied_parts_bytes [OF m'(2) [unfolded ids] ps m'(3) [unfolded ids]] have "parts_bytes m' qs = d" .
        with ic m'(1) have "written_as (objects w2) (b, k) (Some d) ok (objects w3)" using end3 by simp
        with Some o2 p1(2) end3 show ?thesis by (simp add: copied_to_def)
      qed
      with ic end3 o2 p1(2) show ?thesis by simp
    qed
  qed
qed

lemma impl_copy:
  assumes "impl_CopyObject cf sb sk b k n c s = ((ok, c'), s')"
  shows "(\<forall>x. x \<noteq> (b, k) \<longrightarrow> objects (ad_world s') x = objects (ad_world s) x) \<and>
     (copy_request_ok sb n (objects (ad_world s) (sb, sk)) \<longrightarrow>
        copied_to (objects (ad_world s)) (sb, sk) (b, k) ok (objects (ad_world s')))"
proof -
  have same: "copied_to v x y False v" for v x y by (auto simp: copied_to_def written_as_def split: option.splits)
  obtain stop c1 where p: "poll c = (stop, c1)" by fastforce
  obtain m s1 where m: "(if n < 0 then on_world (impl_GetObjectSize cf sb sk) s else (n, s)) = (m, s1)" by fastforce
  have s1: "objects (ad_world s1) = objects (ad_world s)"
    using m impl_size by (fastforce simp: on_world_eq split: if_splits)
  have real: "m = int (length d)" if "n < 0" "\<not> m < 0" "objects (ad_world s) (sb, sk) = Some d" for d
    using m that impl_size by (fastforce simp: on_world_eq split: if_splits)
  consider "\<not> ok" "s' = s" | "\<not> stop" "m < 0" "\<not> ok" "s' = s1"
    | w where "\<not> stop" "0 \<le> m" "m \<le> FIVE_GB" "impl_CopyObjectSimple cf sb sk b k (ad_world s1) = (ok, w)" "s' = s1\<lparr>ad_world := w\<rparr>"
    | "\<not> stop" "FIVE_GB < m" "impl_CopyObjectMultipart cf sb sk b k m MULTIPART_PART_SIZE c1 s1 = ((ok, c'), s')"
    using assms p m unfolding impl_CopyObject_def
    by (fastforce simp: on_world_eq split: prod.splits if_splits)
  then show ?thesis
  proof cases
    case 3
    with impl_copy_simple [OF 3(4)] s1 show ?thesis by (auto simp: copy_request_ok_def)
  next
    case 4
    have "0 < m" using 4(2) by (simp add: FIVE_GB_def)
    have "m = int (length d)" if "copy_request_ok sb n (objects (ad_world s) (sb, sk))" "objects (ad_world s) (sb, sk) = Some d" for d
    proof (cases "n < 0")
      case True
      with real that 4(2) show ?thesis by (simp add: FIVE_GB_def)
    next
      case False
      with m 4(2) that show ?thesis by (simp add: copy_request_ok_def kMaxSinglePutBytes_def FIVE_GB_def)
    qed
    with impl_copy_multipart [OF 4(3) \<open>0 < m\<close>] s1 show ?thesis by (auto simp: copy_request_ok_def)
  qed (use s1 same in auto)
qed

text \<open>The checksums of the chunks.\<close>

lemma impl_hashes_served:
  assumes "objects w (b, k) = Some d" "n = int (length d)" "0 < cs" "CHR ''/'' \<notin> set b"
  shows "copier_served (\<lambda>t. objects t = objects w) (\<lambda>i. crc32_hw (cf_crc cf) (chunk_bytes cs d i))
     (make_copier (cf_client cf) (cf_base64_decode cf) b k dst n cs m)"
proof -
  let ?mc = "make_copier (cf_client cf) (cf_base64_decode cf) b k dst n cs m"
  have served: "objects t' = objects w \<and> (\<forall>a crc. chunk_answer_of ?mc a r = Checksum crc \<longrightarrow> crc = crc32_hw (cf_crc cf) (chunk_bytes cs d i))"
    if i: "0 \<le> i" "i < chunk_count_for_size n cs" and t: "objects t = objects w" and c: "copy_chunk ?mc u i t = (r, t')" for u i t r t'
  proof -
    let ?e = "min (i * cs + cs - 1) (n - 1)"
    have "i < ceil_div n cs" using i(2) chunk_count_ceil [of n cs] assms(2,3) by simp
    then have lt: "i * cs < n" using ceil_div_less_iff [OF assms(3)] by blast
    have sent: "sdk_UploadPartCopy (cf_client cf) b dst u (to_int32 (i + 1)) (copy_source b k) (byte_range (i * cs) ?e) t = (r, t')"
      using c assms(3) by (simp add: copy_chunk_def make_copier_def Let_def)
    have same: "slice (nat (i * cs)) (nat (?e - i * cs + 1)) d = chunk_bytes cs d i"
      unfolding assms(2) by (rule requested_chunk) (use lt assms(2,3) i(1) in auto)
    show ?thesis
    proof (cases r)
      case (Success part)
      from upload_copied [OF sent [unfolded Success] assms(4)] t assms(1) same
      have "pr_checksum part = [] \<or> cf_base64_decode cf (pr_checksum part) = big_endian (crc32_hw (cf_crc cf) (chunk_bytes cs d i))"
        by (auto simp: Let_def)
      with upload_copy [OF sent] t Success no_checksum show ?thesis
        by (auto simp: chunk_answer_of_def make_copier_def big_endian_def from_big_endian_bytes split: if_splits list.splits)
    qed (use upload_copy [OF sent] t in \<open>auto simp: chunk_answer_of_def split: if_splits\<close>)
  qed
  have sel: "mc_s3client ?mc = cf_client cf" "mc_filesize ?mc = n" "mc_chunk_size ?mc = cs"
    using assms(3) by (simp_all add: make_copier_def)
  show ?thesis unfolding copier_served_def sel
  proof (intro conjI allI impI)
    show "objects t' = objects w" if "objects t = objects w"
      "sdk_CreateMultipartUpload (cf_client cf) (mc_bucket ?mc) (mc_dst_key ?mc) t = (r, t')" for t r t'
      using create [OF that(2)] that(1) by simp
    show "objects t' = objects w" if "objects t = objects w"
      "sdk_AbortMultipartUpload (cf_client cf) (mc_bucket ?mc) (mc_dst_key ?mc) u t = (r, t')" for u t r t'
      using abort [OF that(2)] that(1) by simp
    show "objects t' = objects w" if "0 \<le> i" "i < chunk_count_for_size n cs" "objects t = objects w"
      "copy_chunk ?mc u i t = (r, t')" for u i t r t'
      using served [OF that] by (rule conjunct1)
    show "crc = crc32_hw (cf_crc cf) (chunk_bytes cs d i)" if "0 \<le> i" "i < chunk_count_for_size n cs" "objects t = objects w"
      "copy_chunk ?mc u i t = (r, t')" "chunk_answer_of ?mc a r = Checksum crc" for u i t r t' a crc
      using served [OF that(1-4)] that(5) by blast
  qed
qed

lemma impl_chunks:
  assumes "impl_GetChunkCRC32s cf b k n ids cs s = (crcs, s')" "0 < cs"
  shows "objects (ad_world s') = objects (ad_world s)"
    and "objects (ad_world s) (b, k) = Some d \<Longrightarrow> n = int (length d) \<Longrightarrow> CHR ''/'' \<notin> set b \<Longrightarrow> crcs \<noteq> [] \<Longrightarrow>
      crcs = map (\<lambda>i. crc32_hw (cf_crc cf) (chunk_bytes cs d i)) (if ids = [] then whole_file_ids cs d else ids)"
proof -
  define num where "num = (if n > 0 then n div cs + (if n mod cs \<noteq> 0 then 1 else 0) else 0)"
  define f where "f i = crc32_hw (cf_crc cf) (chunk_bytes cs d i)" for i
  have both: "objects (ad_world s') = objects (ad_world s) \<and>
     (objects (ad_world s) (b, k) = Some d \<longrightarrow> n = int (length d) \<longrightarrow> CHR ''/'' \<notin> set b \<longrightarrow> crcs \<noteq> [] \<longrightarrow>
      crcs = map f (if ids = [] then whole_file_ids cs d else ids))"
  proof (cases "list_ex (\<lambda>i. i < 0 \<or> i \<ge> num) ids")
    case True
    with assms show ?thesis by (simp add: impl_GetChunkCRC32s_def num_def)
  next
    case valid: False
    then have ids: "\<forall>i \<in> set ids. 0 \<le> i \<and> i < num" by (auto simp: list_ex_iff)
    show ?thesis
    proof (cases "n \<le> cs")
      case small: True
      show ?thesis
      proof (cases "n \<le> 0")
        case True
        with assms small valid show ?thesis by (simp add: impl_GetChunkCRC32s_def num_def)
      next
        case False
        obtain data w1 where r: "impl_GetObjectRange cf b k 0 (n - 1) (ad_world s) = (data, w1)" by fastforce
        note rd = impl_range_read [OF r]
        have one: "num = 1" using False small assms(2) by (cases "n = cs") (simp_all add: num_def)
        then have zero: "\<forall>i \<in> set ids. i = 0" using ids by fastforce
        have res: "s' = s\<lparr>ad_world := w1\<rparr>" "crcs = [] \<or> data \<noteq> [] \<and> crcs = (let crc = crc32_hw (cf_crc cf) data
            in if ids = [] then [crc] else replicate (length ids) crc)"
          using assms valid small False r
          by (auto simp: impl_GetChunkCRC32s_def num_def on_world_def Let_def split: if_splits)
        have "crcs = map f (if ids = [] then whole_file_ids cs d else ids)"
          if d: "objects (ad_world s) (b, k) = Some d" "n = int (length d)" and ne: "crcs \<noteq> []"
        proof -
          from rd d res ne have "data = d" by (auto simp: slice_def)
          moreover have "chunk_bytes cs d 0 = d" using small d(2) by (simp add: chunk_bytes_def slice_def)
          moreover have "whole_file_ids cs d = [0]"
          proof -
            have "ceil_div n cs = 1"
              using one chunk_count_ceil [of n cs] False assms(2) by (simp add: num_def chunk_count_for_size_def)
            then show ?thesis using d(2) by (simp add: whole_file_ids_def)
          qed
          moreover have "replicate (length ids) (f 0) = map f ids" using zero by (induction ids) auto
          ultimately show ?thesis using res ne by (auto simp: f_def Let_def)
        qed
        with rd res show ?thesis by simp
      qed
    next
      case large: False
      obtain sfx s1 where g: "GenerateUniqueSuffix s = (sfx, s1)" by fastforce
      then have s1: "ad_world s1 = ad_world s" by (auto simp: GenerateUniqueSuffix_def split: list.splits prod.splits)
      define mc where "mc = make_copier (cf_client cf) (cf_base64_decode cf) b k (k @ ''_crc32_tmp_'' @ sfx) n cs (cf_max_retries cf)"
      have h: "GetHashes mc ids (cf_num_threads cf) (cf_ramp_up cf) s1 = (crcs, s')"
        using assms valid large g by (simp add: impl_GetChunkCRC32s_def num_def mc_def)
      have "objects (ad_world s') = objects (ad_world s)"
        by (rule GetHashes_keeps [where ok = "\<lambda>w. objects w = objects (ad_world s)", OF h])
          (auto simp: s1 copy_chunk_def mc_def make_copier_def Let_def dest!: create abort upload_copy)
      moreover have "crcs = map f (if ids = [] then whole_file_ids cs d else ids)"
        if d: "objects (ad_world s) (b, k) = Some d" "n = int (length d)" "CHR ''/'' \<notin> set b" and ne: "crcs \<noteq> []"
      proof -
        from impl_hashes_served [OF d(1,2) assms(2) d(3)]
        have served: "copier_served (\<lambda>t. objects t = objects (ad_world s)) f mc" unfolding f_def mc_def .
        have num: "chunk_count_for_size (mc_filesize mc) (mc_chunk_size mc) = ceil_div (int (length d)) cs"
          using assms(2) d(2) by (simp add: mc_def make_copier_def chunk_count_ceil)
        from GetHashes_exact [OF h served] s1 ne show ?thesis unfolding num whole_file_ids_def by simp
      qed
      ultimately show ?thesis by blast
    qed
  qed
  then show "objects (ad_world s') = objects (ad_world s)" ..
  show "crcs = map (\<lambda>i. crc32_hw (cf_crc cf) (chunk_bytes cs d i)) (if ids = [] then whole_file_ids cs d else ids)"
    if "objects (ad_world s) (b, k) = Some d" "n = int (length d)" "CHR ''/'' \<notin> set b" "crcs \<noteq> []"
    using both that by (simp add: f_def [abs_def])
qed

lemma impl_create:
  assumes "impl_CreateMultipartUpload cf b k w = (u, w')"
  shows "objects w' = objects w \<and> (u \<noteq> [] \<longrightarrow> parts w' = (parts w)((b, k, u) := Some Map.empty))"
proof -
  obtain r w1 where c: "sdk_CreateMultipartUpload (cf_client cf) b k w = (r, w1)" by fastforce
  from create [OF c] c assms show ?thesis by (auto simp: impl_CreateMultipartUpload_def split: outcome.splits)
qed

lemma impl_part:
  assumes "impl_UploadPart cf b k u n d crc w = (r, w')"
  shows "objects w' = objects w \<and> (\<forall>m. parts w (b, k, u) = Some m \<longrightarrow>
     (\<exists>m'. parts w' (b, k, u) = Some m' \<and> other_parts_kept n m m' \<and> (part_ok r \<longrightarrow> m' n = Some d)))"
proof -
  obtain q w1 where c: "sdk_UploadPart (cf_client cf) b k u n d (Crc32ToBase64 (cf_base64_encode cf) crc) w = (q, w1)" by fastforce
  note up = upload [OF c]
  have r: "w' = w1" "part_ok r \<Longrightarrow> \<exists>p. q = Success p" using assms c by (auto simp: impl_UploadPart_def part_of_def split: outcome.splits)
  have "\<exists>m'. parts w' (b, k, u) = Some m' \<and> other_parts_kept n m m' \<and> (part_ok r \<longrightarrow> m' n = Some d)"
    if "parts w (b, k, u) = Some m" for m
    using up that r by (cases q) auto
  with up r show ?thesis by blast
qed

lemma impl_abort:
  assumes "impl_AbortMultipartUpload cf b k u w = (ok, w')"
  shows "objects w' = objects w"
proof -
  obtain r w1 where c: "sdk_AbortMultipartUpload (cf_client cf) b k u w = (r, w1)" by fastforce
  from abort [OF c] c assms show ?thesis by (auto simp: impl_AbortMultipartUpload_def succeeded_iff)
qed

end

section \<open>The client honours the contracts\<close>

sublocale s3_service \<subseteq> impl_store: object_store "impl_client cf" "\<lambda>s. objects (ad_world s)"
proof (unfold_locales, goal_cases)
  case (1 b k s n s')
  then show ?case using impl_size by (auto simp: on_world_eq)
next
  case (2 b k s n s')
  then show ?case using impl_size by (fastforce simp: on_world_eq)
next
  case (3 b k s q s')
  then show ?case using impl_presence by (auto simp: on_world_eq)
next
  case (4 b k s s')
  then show ?case using impl_presence by (fastforce simp: on_world_eq)
next
  case (5 b k s s')
  then show ?case using impl_presence by (fastforce simp: on_world_eq)
next
  case (6 b k i j s d s')
  then show ?case using impl_range_read by (auto simp: on_world_eq)
next
  case (7 b k i j s d s')
  then show ?case using impl_range_read by (fastforce simp: on_world_eq)
next
  case (8 b k i j s ok d s')
  then show ?case by (auto simp: on_world_eq impl_range_into split: prod.splits)
next
  case (9 b p dl t n s r s')
  then show ?case using impl_list by (auto simp: on_world_eq)
next
  case (10 b ks s failed s')
  then show ?case using impl_delete_many by (fastforce simp: on_world_eq)
next
  case (11 b k d s s')
  then show ?case using impl_put_plain [of b k d "ad_world s" True] by (auto simp: on_world_eq written_as_def)
next
  case (12 b k d s s')
  then show ?case using impl_put_plain [of b k d "ad_world s" False] by (auto simp: on_world_eq written_as_def)
next
  case (13 b k p f s s')
  then show ?case using impl_put_file [of b k p f "ad_world s" True]
    by (auto simp: on_world_eq written_as_def split: option.splits)
next
  case (14 b k p f s s')
  then show ?case using impl_put_file [of b k p f "ad_world s" False]
    by (auto simp: on_world_eq written_as_def split: option.splits)
next
  case (15 b k s s')
  then show ?case using impl_delete [of b k "ad_world s" True] by (auto simp: on_world_eq written_as_def)
next
  case (16 b k s s')
  then show ?case using impl_delete [of b k "ad_world s" False] by (auto simp: on_world_eq written_as_def)
next
  case (17 b k b' k' n c s ok c' s' x)
  then show ?case using impl_copy [of b k b' k' n c s ok c' s'] by (cases x) auto
next
  case (18 b k b' k' n c s c' s')
  then show ?case using impl_copy [of b k b' k' n c s True c' s']
    by (auto simp: copied_to_def written_as_def split: option.splits)
next
  case (19 b k b' k' n c s c' s')
  then show ?case using impl_copy [of b k b' k' n c s False c' s']
    by (auto simp: copied_to_def written_as_def split: option.splits)
qed

sublocale s3_service \<subseteq> impl_store: diff_store "impl_client cf" "\<lambda>s. objects (ad_world s)" "cf_crc cf"
  "\<lambda>s b k u. parts (ad_world s) (b, k, u)"
proof (unfold_locales, goal_cases)
  case (1 b k n ids cs s crcs s')
  then show ?case using impl_chunks(1) [of b k n ids cs s crcs s'] by simp
next
  case (2 b k n ids cs s crcs s' d)
  then show ?case using impl_chunks(2) [of b k n ids cs s crcs s' d] by simp
next
  case (3 b k s u s')
  then show ?case using impl_create by (fastforce simp: on_world_eq)
next
  case (4 b k u n d crc s r s')
  then show ?case using impl_part by (fastforce simp: on_world_eq)
next
  case (5 b k u n sb sk i j s r s')
  then obtain w where w: "impl_UploadPartCopy cf b k u n sb sk i j (ad_world s) = (r, w)" "s' = s\<lparr>ad_world := w\<rparr>"
    by (auto elim: on_worldE)
  from impl_part_copy [OF w(1)] w(2) show ?case by (auto split: option.splits)
next
  case (6 b k u ps s s' m)
  then obtain w where w: "impl_CompleteMultipartUpload cf b k u ps (ad_world s) = (True, w)" "s' = s\<lparr>ad_world := w\<rparr>"
    by (auto elim: on_worldE)
  from impl_complete [OF w(1)] w(2) 6(2) show ?case by (simp add: written_as_def)
next
  case (7 b k u ps s s' m)
  then obtain w where w: "impl_CompleteMultipartUpload cf b k u ps (ad_world s) = (False, w)" "s' = s\<lparr>ad_world := w\<rparr>"
    by (auto elim: on_worldE)
  from impl_complete [OF w(1)] w(2) 7(2) show ?case by (simp add: written_as_def)
next
  case (8 b k u s ok s')
  then show ?case using impl_abort by (auto simp: on_world_eq)
qed

section \<open>A service that pages\<close>

locale s3_pages =
  fixes cf :: "'w s3_config" and valid_world :: "'w \<Rightarrow> bool"
    and rest :: "'w \<Rightarrow> string \<Rightarrow> string \<Rightarrow> string \<Rightarrow> s3_object_info list"
  assumes page_keeps: "sdk_ListObjectsV2 (cf_client cf) b p [] t n w = (q, w') \<Longrightarrow> valid_world w \<Longrightarrow>
        valid_world w' \<and> rest w' = rest w"
    and page: "sdk_ListObjectsV2 (cf_client cf) b p [] t n w = (Success pg, w') \<Longrightarrow> valid_world w \<Longrightarrow> 0 < n \<Longrightarrow>
        rest w b p t = pg_contents pg @ (if pg_truncated pg then rest w b p (pg_next_token pg) else [])"
    and page_end: "sdk_ListObjectsV2 (cf_client cf) b p [] t n w = (Success pg, w') \<Longrightarrow> valid_world w \<Longrightarrow> 0 < n \<Longrightarrow>
        (if pg_truncated pg then pg_next_token pg \<noteq> [] \<and> pg_contents pg \<noteq> [] else pg_next_token pg = [])"
begin

text \<open>A listing that is tried again is a listing from the same point.\<close>

lemma impl_page:
  assumes "impl_ListObjects cf b p [] t n w = (r, w')" "valid_world w"
  shows "valid_world w' \<and> rest w' = rest w \<and> (\<not> lr_success r \<longrightarrow> \<not> lr_is_truncated r) \<and>
    (lr_success r \<longrightarrow> 0 < n \<longrightarrow> rest w b p t = lr_objects r @ (if lr_is_truncated r then rest w b p (lr_next_token r) else []) \<and>
       (if lr_is_truncated r then lr_next_token r \<noteq> [] \<and> lr_objects r \<noteq> [] else lr_next_token r = []))"
proof -
  let ?P = "\<lambda>v. valid_world v \<and> rest v = rest w"
  let ?Q = "\<lambda>(r :: s3_list_result) (v :: 'w). (\<not> lr_success r \<longrightarrow> \<not> lr_is_truncated r) \<and>
    (lr_success r \<longrightarrow> 0 < n \<longrightarrow> rest w b p t = lr_objects r @ (if lr_is_truncated r then rest w b p (lr_next_token r) else []) \<and>
       (if lr_is_truncated r then lr_next_token r \<noteq> [] \<and> lr_objects r \<noteq> [] else lr_next_token r = []))"
  let ?body = "\<lambda>attempt w.
          case sdk_ListObjectsV2 (cf_client cf) b p [] t n w of
            (Success pg, w) \<Rightarrow> (Answer (list_result_of pg), w)
          | (out, w) \<Rightarrow>
              (failed_attempt (cf_max_retries cf) attempt out (\<lambda>msg. empty_list_result\<lparr>lr_error := msg\<rparr>)
                 (\<lambda>what. empty_list_result\<lparr>lr_error := ''Exception: '' @ what\<rparr>), w)"
  have none: "?Q (empty_list_result\<lparr>lr_error := e\<rparr>) v" for e v by (simp add: empty_list_result_def)
  have step: "?P v' \<and> (\<forall>r. a = Answer r \<longrightarrow> ?Q r v')" if s: "?body m v = (a, v')" "?P v" for m v a v'
  proof -
    obtain q v1 where l: "sdk_ListObjectsV2 (cf_client cf) b p [] t n v = (q, v1)" by fastforce
    from page_keeps [OF l] s(2) have k: "?P v1" by simp
    show ?thesis
    proof (cases q)
      case (Success pg)
      with s l k page [OF l [unfolded Success]] page_end [OF l [unfolded Success]] show ?thesis
        by (auto simp: list_result_of_def)
    next
      case (Failure e)
      with s l k none show ?thesis by (auto dest!: failed_attempt_answer)
    next
      case (Raised e)
      with s l k none show ?thesis by (auto dest!: failed_attempt_answer)
    qed
  qed
  from assms have "retrying (cf_max_retries cf) ?body empty_list_result w = (r, w')" by (simp add: impl_ListObjects_def)
  then have "?P w' \<and> ?Q r w'"
  proof (rule retrying_rule [where P = ?P and Q = ?Q])
    show "?P w" using assms(2) by simp
    show "?P v'" if "?body m v = (a, v')" "?P v" for m v a v' using step [OF that] by (rule conjunct1)
    show "?Q r v'" if "?body m v = (Answer r, v')" "?P v" for m v r v' using step [OF that] by blast
    show "?Q empty_list_result v" if "?P v" for v by (simp add: empty_list_result_def)
  qed
  then show ?thesis by simp
qed

end

sublocale s3_pages \<subseteq> impl_pages: paged_store "impl_client cf" "\<lambda>s. valid_world (ad_world s)" "\<lambda>s. rest (ad_world s)"
proof (unfold_locales, goal_cases)
  case (1 b p t n s r s')
  then show ?case using impl_page by (auto simp: on_world_eq)
next
  case (2 b p t n s r s')
  then show ?case using impl_page by (fastforce simp: on_world_eq)
next
  case (3 b p t n s r s')
  then obtain w where w: "impl_ListObjects cf b p [] t n (ad_world s) = (r, w)" by (auto elim: on_worldE)
  from impl_page [OF w 3(2)] 3(3,4) show ?case by (auto split: if_splits)
next
  case (4 b p t n s r s')
  then obtain w where w: "impl_ListObjects cf b p [] t n (ad_world s) = (r, w)" by (auto elim: on_worldE)
  from impl_page [OF w 4(2)] 4(3-5) show ?case by (auto split: if_splits)
qed

end
