(* ===== verification/Upload_Tracking.thy ===== *)
theory Upload_Tracking
  imports S3_Contract
begin

text \<open>
  No upload is forgotten.  An upload that is left open holds its parts, which are paid for, until someone
  aborts it.  \<open>forgotten\<close> are the open uploads that the registry does not name; no operation of the client adds
  to them, and \<open>abort_all\<close> then leaves nothing else open on a service whose aborts succeed.
\<close>

definition registered :: "'w s3_config \<Rightarrow> 'w adapter \<Rightarrow> string \<times> string \<times> string \<Rightarrow> bool" where
  "registered cf s x \<longleftrightarrow> map_of (ad_uploads s) (snd (snd x)) =
     Some \<lparr>au_client = Some (cf_client cf), au_bucket = fst x, au_key = fst (snd x), au_upload_id = snd (snd x)\<rparr>"

definition forgotten ::
  "'w s3_config \<Rightarrow> ('w \<Rightarrow> string \<times> string \<times> string \<Rightarrow> (int \<rightharpoonup> byte list) option) \<Rightarrow> 'w adapter \<Rightarrow> (string \<times> string \<times> string) set" where
  "forgotten cf parts s = {x. parts (ad_world s) x \<noteq> None \<and> \<not> registered cf s x}"

definition registry_clients :: "'w s3_config \<Rightarrow> 'w adapter \<Rightarrow> bool" where
  "registry_clients cf s \<longleftrightarrow> (\<forall>a \<in> snd ` set (ad_uploads s). au_client a = None \<or> au_client a = Some (cf_client cf))"

text \<open>A service that grants the aborts sent to it while \<open>P\<close> holds.\<close>

definition grants_aborts :: "('w \<Rightarrow> bool) \<Rightarrow> 'w sdk \<Rightarrow> bool" where
  "grants_aborts P client \<longleftrightarrow> (\<forall>b k u w r w'. P w \<longrightarrow> sdk_AbortMultipartUpload client b k u w = (r, w') \<longrightarrow>
     P w' \<and> (\<exists>v. r = Success v))"

lemma registered_update_other: "snd (snd x) \<noteq> u \<Longrightarrow> ad_uploads s' = AList.update u a (ad_uploads s) \<Longrightarrow> registered cf s' x \<longleftrightarrow> registered cf s x"
  by (simp add: registered_def update_conv)

lemma set_update: "set (AList.update k v xs) \<subseteq> insert (k, v) (set xs)"
  by (induction xs) auto

context s3_service
begin

text \<open>
  The life of one upload: created and registered, then parts are sent, then it is still registered or closed
  and taken off the registry.
\<close>

lemma upload_life:
  assumes "sdk_CreateMultipartUpload (cf_client cf) b k (ad_world s) = (Success u, w1)"
    and "\<forall>x. x \<noteq> (b, k, u) \<longrightarrow> parts (ad_world s') x = parts w1 x"
    and "up = AList.update u \<lparr>au_client = Some (cf_client cf), au_bucket = b, au_key = k, au_upload_id = u\<rparr> (ad_uploads s)"
    and "ad_uploads s' = up \<or> ad_uploads s' = AList.delete u up \<and> parts (ad_world s') (b, k, u) = None"
  shows "forgotten cf parts s' \<subseteq> forgotten cf parts s"
proof
  fix x assume x: "x \<in> forgotten cf parts s'"
  obtain b' k' u' where xe: "x = (b', k', u')" by (cases x)
  from create [OF assms(1)] have w1: "parts w1 = (parts (ad_world s))((b, k, u) := Some Map.empty)"
    and fresh: "parts (ad_world s) (b', k', u) = None" by auto
  have "x \<noteq> (b, k, u)"
    using x assms(3,4) by (auto simp: forgotten_def registered_def update_conv')
  then have open1: "parts (ad_world s) x \<noteq> None" using x assms(2) w1 by (auto simp: forgotten_def)
  then have "u' \<noteq> u" using fresh xe by auto
  then have "map_of (ad_uploads s') u' = map_of (ad_uploads s) u'"
    using assms(3,4) by (auto simp: update_conv' delete_conv')
  with x open1 xe show "x \<in> forgotten cf parts s" by (simp add: forgotten_def registered_def)
qed

lemma upload_life_clients:
  assumes "registry_clients cf s" "ad_uploads s' = up \<or> ad_uploads s' = AList.delete u up"
    and "up = AList.update u \<lparr>au_client = Some (cf_client cf), au_bucket = b, au_key = k, au_upload_id = u\<rparr> (ad_uploads s)"
  shows "registry_clients cf s'"
proof -
  have "set up \<subseteq> insert (u, \<lparr>au_client = Some (cf_client cf), au_bucket = b, au_key = k, au_upload_id = u\<rparr>) (set (ad_uploads s))"
    unfolding assms(3) by (rule set_update)
  moreover have "set (ad_uploads s') \<subseteq> set up" using assms(2) by (auto simp: AList.delete_eq)
  ultimately have "snd ` set (ad_uploads s') \<subseteq> insert \<lparr>au_client = Some (cf_client cf), au_bucket = b, au_key = k, au_upload_id = u\<rparr>
      (snd ` set (ad_uploads s))" by fastforce
  moreover have ok: "au_client a = None \<or> au_client a = Some (cf_client cf)"
    if "a \<in> insert \<lparr>au_client = Some (cf_client cf), au_bucket = b, au_key = k, au_upload_id = u\<rparr> (snd ` set (ad_uploads s))" for a
  proof (cases "a \<in> snd ` set (ad_uploads s)")
    case True
    with assms(1) show ?thesis unfolding registry_clients_def by (rule bspec)
  qed (use that in simp)
  ultimately show ?thesis unfolding registry_clients_def by (intro ballI ok) (rule subsetD)
qed

lemma forgotten_same:
  assumes "parts (ad_world s') = parts (ad_world s)" "ad_uploads s' = ad_uploads s"
  shows "forgotten cf parts s' \<subseteq> forgotten cf parts s \<and> (registry_clients cf s \<longrightarrow> registry_clients cf s')"
  using assms by (simp add: forgotten_def registered_def registry_clients_def)

lemma GetHashes_tracks:
  assumes "GetHashes mc ids n ramp_up s = (crcs, s')" "mc_s3client mc = cf_client cf"
  shows "forgotten cf parts s' \<subseteq> forgotten cf parts s \<and> (registry_clients cf s \<longrightarrow> registry_clients cf s')"
proof (cases "chunk_request_is_valid ids (mc_filesize mc) (chunk_count_for_size (mc_filesize mc) (mc_chunk_size mc))")
  case False
  with assms show ?thesis by (simp add: GetHashes_def)
next
  case True
  let ?b = "mc_bucket mc" and ?k = "mc_dst_key mc"
  obtain r w1 where cr: "sdk_CreateMultipartUpload (cf_client cf) ?b ?k (ad_world s) = (r, w1)" by fastforce
  show ?thesis
  proof (cases "\<exists>u. r = Success u")
    case False
    then have "parts w1 = parts (ad_world s)" using create [OF cr] by (cases r) auto
    moreover have "s' = s\<lparr>ad_world := w1\<rparr>"
      using assms True cr False by (cases r) (auto simp: GetHashes_def create_copy_upload_def)
    ultimately show ?thesis using forgotten_same by simp
  next
    case True': True
    then obtain u where u: "r = Success u" by blast
    note c = cr [unfolded u]
    from create [OF c] have ne: "u \<noteq> []" by simp
    define s1 where "s1 = register_upload \<lparr>au_client = Some (cf_client cf), au_bucket = ?b, au_key = ?k, au_upload_id = u\<rparr>
        (s\<lparr>ad_world := w1\<rparr>)"
    obtain q s2 where p: "(if n > 0 then ParallelUploadPartCopyRequestsThreadPool mc u (nat n) ramp_up ids s1
        else ParallelUploadPartCopyRequests mc u ids s1) = (q, s2)" by fastforce
    have frame: "(\<forall>x. x \<noteq> (?b, ?k, u) \<longrightarrow> parts (ad_world s2) x = parts w1 x) \<and> ad_uploads s2 = ad_uploads s1"
    proof (rule pools_keep [where ok = "\<lambda>t. \<forall>x. x \<noteq> (?b, ?k, u) \<longrightarrow> parts t x = parts w1 x", OF p])
      show "\<forall>x. x \<noteq> (?b, ?k, u) \<longrightarrow> parts (ad_world s1) x = parts w1 x" by (simp add: s1_def register_upload_def)
      show "\<forall>x. x \<noteq> (?b, ?k, u) \<longrightarrow> parts t' x = parts w1 x"
        if "\<forall>x. x \<noteq> (?b, ?k, u) \<longrightarrow> parts t x = parts w1 x" "copy_chunk mc u i t = (out, t')" for i t out t'
        using that(1) upload_copy [OF that(2) [unfolded copy_chunk_def Let_def assms(2)]] by simp
    qed
    obtain a w3 where ab: "sdk_AbortMultipartUpload (cf_client cf) ?b ?k u (ad_world s2) = (a, w3)" by fastforce
    define ok where "ok \<longleftrightarrow> (\<exists>v. a = Success v)"
    have s': "s' = (if ok then unregister_upload u (s2\<lparr>ad_world := w3\<rparr>) else s2\<lparr>ad_world := w3\<rparr>)"
      using assms True cr u ne p [unfolded s1_def] ab
      by (cases a) (simp_all add: GetHashes_def create_copy_upload_def abort_copy_upload_def ok_def Let_def)
    have up: "ad_uploads s1 = AList.update u \<lparr>au_client = Some (cf_client cf), au_bucket = ?b, au_key = ?k, au_upload_id = u\<rparr> (ad_uploads s)"
      by (simp add: s1_def register_upload_def)
    have others: "\<forall>x. x \<noteq> (?b, ?k, u) \<longrightarrow> parts (ad_world s') x = parts w1 x"
      using abort [OF ab] frame s' by (simp add: unregister_upload_def)
    have reg: "ad_uploads s' = ad_uploads s1 \<or> ad_uploads s' = AList.delete u (ad_uploads s1) \<and> parts (ad_world s') (?b, ?k, u) = None"
      using abort [OF ab] frame s' by (auto simp: ok_def unregister_upload_def)
    from upload_life [OF c others up reg] upload_life_clients [OF _ _ up, of s'] reg show ?thesis by blast
  qed
qed

lemma chunk_checksums_track:
  assumes "impl_GetChunkCRC32s cf b k n ids cs s = (crcs, s')" "0 < cs"
  shows "forgotten cf parts s' \<subseteq> forgotten cf parts s \<and> (registry_clients cf s \<longrightarrow> registry_clients cf s')"
proof -
  obtain sfx s1 where g: "GenerateUniqueSuffix s = (sfx, s1)" by fastforce
  then have s1: "ad_world s1 = ad_world s" "ad_uploads s1 = ad_uploads s"
    by (auto simp: GenerateUniqueSuffix_def split: list.splits prod.splits)
  define bad where "bad \<longleftrightarrow> list_ex (\<lambda>i. i < 0 \<or> i \<ge> (if n > 0 then n div cs + (if n mod cs \<noteq> 0 then 1 else 0) else 0)) ids"
  define mc where "mc = make_copier (cf_client cf) (cf_base64_decode cf) b k (k @ ''_crc32_tmp_'' @ sfx) n cs (cf_max_retries cf)"
  obtain data w1 where r: "impl_GetObjectRange cf b k 0 (n - 1) (ad_world s) = (data, w1)" by fastforce
  note def = assms(1) [unfolded impl_GetChunkCRC32s_def on_world_def Let_def r g prod.case]
  have cs: "(if cs \<le> 0 then CHUNK_SIZE else cs) = cs" using assms(2) by simp
  note def = def [unfolded cs, folded bad_def mc_def]
  consider "s' = s" | "s' = s\<lparr>ad_world := w1\<rparr>" | "GetHashes mc ids (cf_num_threads cf) (cf_ramp_up cf) s1 = (crcs, s')"
    using def by (simp split: if_splits)
  then show ?thesis
  proof cases
    case 1
    then show ?thesis by simp
  next
    case 2
    with impl_range_read [OF r] show ?thesis using forgotten_same by simp
  next
    case 3
    have "mc_s3client mc = cf_client cf" by (simp add: mc_def make_copier_def)
    from GetHashes_tracks [OF 3 this] s1 show ?thesis
      by (simp add: forgotten_def registered_def registry_clients_def)
  qed
qed

lemma copy_multipart_tracks:
  assumes "impl_CopyObjectMultipart cf sb sk b k n ps c s = ((ok, c'), s')"
  shows "forgotten cf parts s' \<subseteq> forgotten cf parts s \<and> (registry_clients cf s \<longrightarrow> registry_clients cf s')"
proof -
  obtain r w1 where cr: "sdk_CreateMultipartUpload (cf_client cf) b k (ad_world s) = (r, w1)" by fastforce
  show ?thesis
  proof (cases "\<exists>u. r = Success u")
    case False
    then have "parts w1 = parts (ad_world s)" using create [OF cr] by (cases r) auto
    moreover have "s' = s\<lparr>ad_world := w1\<rparr>"
      using assms cr False
      by (cases r) (auto simp: impl_CopyObjectMultipart_def on_world_def impl_CreateMultipartUpload_def)
    ultimately show ?thesis using forgotten_same by simp
  next
    case True
    then obtain u where u: "r = Success u" by blast
    note cu = cr [unfolded u]
    from create [OF cu] have ne: "u \<noteq> []" by simp
    define s1 where "s1 = register_upload \<lparr>au_client = Some (cf_client cf), au_bucket = b, au_key = k, au_upload_id = u\<rparr>
        (s\<lparr>ad_world := w1\<rparr>)"
    have up: "ad_uploads s1 = AList.update u \<lparr>au_client = Some (cf_client cf), au_bucket = b, au_key = k, au_upload_id = u\<rparr> (ad_uploads s)"
      by (simp add: s1_def register_upload_def)
    have s1: "ad_world s1 = w1" by (simp add: s1_def register_upload_def)
    obtain res c2 w2 where cp: "copy_parts cf (copy_part_request cf sb sk b k u n ps) [0 .. (n + ps - 1) div ps - 1] [] c w1 = (res, c2, w2)"
      by (metis surj_pair)
    have p2: "\<forall>x. x \<noteq> (b, k, u) \<longrightarrow> parts w2 x = parts w1 x"
      using copy_parts_only [OF cp, of "(b, k, u)"] impl_part_copy_only
      by (auto simp: upload_only_def copy_part_request_def Let_def)
    note def = assms [unfolded impl_CopyObjectMultipart_def on_world_def impl_CreateMultipartUpload_def cu outcome.case prod.case Let_def,
        folded s1_def, unfolded s1 cp prod.case]
    define s2 where "s2 = s1\<lparr>ad_world := w2\<rparr>"
    have kept: "(\<forall>x. x \<noteq> (b, k, u) \<longrightarrow> parts (ad_world (abort_or_keep cf b k u t)) x = parts (ad_world t) x) \<and>
        (ad_uploads (abort_or_keep cf b k u t) = ad_uploads t \<or>
         ad_uploads (abort_or_keep cf b k u t) = AList.delete u (ad_uploads t) \<and> parts (ad_world (abort_or_keep cf b k u t)) (b, k, u) = None)" for t
    proof -
      obtain q w where "sdk_AbortMultipartUpload (cf_client cf) b k u (ad_world t) = (q, w)" by fastforce
      from abort [OF this] this show ?thesis
        by (cases q) (auto simp: abort_or_keep_def on_world_def impl_AbortMultipartUpload_def succeeded_def unregister_upload_def)
    qed
    have "(\<forall>x. x \<noteq> (b, k, u) \<longrightarrow> parts (ad_world s') x = parts w1 x) \<and>
        (ad_uploads s' = ad_uploads s1 \<or> ad_uploads s' = AList.delete u (ad_uploads s1) \<and> parts (ad_world s') (b, k, u) = None)"
    proof (cases "\<exists>qs. res = Copied qs")
      case False
      then have "s' = abort_or_keep cf b k u s2" using def ne by (cases res) (auto simp: s2_def)
      with kept [of s2] p2 show ?thesis by (simp add: s2_def)
    next
      case True
      then obtain qs where qs: "res = Copied qs" by blast
      obtain q w3 where cm: "sdk_CompleteMultipartUpload (cf_client cf) b k u qs w2 = (q, w3)" by fastforce
      define s3 where "s3 = s1\<lparr>ad_world := w3\<rparr>"
      have "(\<exists>v. q = Success v) \<and> s' = unregister_upload u s3 \<or> s' = abort_or_keep cf b k u s3"
        using def ne qs cm
        by (cases q) (auto simp: s3_def impl_CompleteMultipartUpload_def succeeded_def)
      with kept [of s3] p2 complete [OF cm] show ?thesis by (auto simp: s3_def unregister_upload_def)
    qed
    with upload_life [OF cu _ up] upload_life_clients [OF _ _ up, of s'] show ?thesis by blast
  qed
qed

lemma copies_track:
  assumes "impl_CopyObject cf sb sk b k n c s = ((ok, c'), s')"
  shows "forgotten cf parts s' \<subseteq> forgotten cf parts s \<and> (registry_clients cf s \<longrightarrow> registry_clients cf s')"
proof -
  obtain stop c1 where p: "poll c = (stop, c1)" by fastforce
  obtain m s1 where m: "(if n < 0 then on_world (impl_GetObjectSize cf sb sk) s else (n, s)) = (m, s1)" by fastforce
  have s1: "parts (ad_world s1) = parts (ad_world s)" "ad_uploads s1 = ad_uploads s"
    using m impl_size by (fastforce simp: on_world_eq split: if_splits)+
  consider "s' = s" | "s' = s1"
    | w where "impl_CopyObjectSimple cf sb sk b k (ad_world s1) = (ok, w)" "s' = s1\<lparr>ad_world := w\<rparr>"
    | "impl_CopyObjectMultipart cf sb sk b k m MULTIPART_PART_SIZE c1 s1 = ((ok, c'), s')"
    using assms p m unfolding impl_CopyObject_def
    by (fastforce simp: on_world_eq split: prod.splits if_splits)
  then show ?thesis
  proof cases
    case 3
    with impl_copy_simple [OF 3(1)] s1 show ?thesis using forgotten_same by simp
  next
    case 4
    from copy_multipart_tracks [OF 4] forgotten_same [OF s1] show ?thesis by blast
  qed (use forgotten_same s1 in auto)
qed

text \<open>What \<open>abort_all\<close> leaves.\<close>

lemma abort_all_keeps:
  assumes "registry_clients cf s"
  shows "ad_uploads (abort_all s) = [] \<and> objects (ad_world (abort_all s)) = objects (ad_world s) \<and>
    (\<forall>x. parts (ad_world s) x = None \<longrightarrow> parts (ad_world (abort_all s)) x = None)"
proof -
  have "objects (fold abort_one as w) = objects w \<and> (\<forall>x. parts w x = None \<longrightarrow> parts (fold abort_one as w) x = None)"
    if "\<forall>a \<in> set as. au_client a = None \<or> au_client a = Some (cf_client cf)" for as w
    using that
  proof (induction as arbitrary: w)
    case (Cons a as)
    obtain r w1 where "sdk_AbortMultipartUpload (cf_client cf) (au_bucket a) (au_key a) (au_upload_id a) w = (r, w1)" by fastforce
    note ab = abort [OF this] and r = this
    have "objects (abort_one a w) = objects w \<and> (parts w x = None \<longrightarrow> parts (abort_one a w) x = None)" for x
    proof (cases "au_client a")
      case (Some client)
      with Cons.prems have "client = cf_client cf" by simp
      with Some r ab show ?thesis
        by (cases x; cases "x = (au_bucket a, au_key a, au_upload_id a)") (auto simp: abort_one_def)
    qed (simp add: abort_one_def)
    with Cons.IH [of "abort_one a w"] Cons.prems show ?case by simp
  qed simp
  from this [of "map snd (ad_uploads s)"] assms show ?thesis by (auto simp: abort_all_def registry_clients_def Let_def)
qed

lemma abort_all_closes:
  assumes "registry_clients cf s" "grants_aborts P (cf_client cf)" "P (ad_world s)"
  shows "{x. parts (ad_world (abort_all s)) x \<noteq> None} \<subseteq> forgotten cf parts s"
proof -
  have closes: "parts (fold abort_one as w) x = None"
    if "P w" "\<forall>a \<in> set as. au_client a = None \<or> au_client a = Some (cf_client cf)"
      "parts w x = None \<or> \<lparr>au_client = Some (cf_client cf), au_bucket = fst x, au_key = fst (snd x), au_upload_id = snd (snd x)\<rparr> \<in> set as"
    for as w x
    using that
  proof (induction as arbitrary: w)
    case (Cons a as)
    obtain r w1 where r: "sdk_AbortMultipartUpload (cf_client cf) (au_bucket a) (au_key a) (au_upload_id a) w = (r, w1)" by fastforce
    with assms(2) Cons.prems(1) obtain v where v: "r = Success v" and w1: "P w1" unfolding grants_aborts_def by metis
    note ab = abort [OF r [unfolded v]]
    have "parts (abort_one a w) x = None \<or>
        \<lparr>au_client = Some (cf_client cf), au_bucket = fst x, au_key = fst (snd x), au_upload_id = snd (snd x)\<rparr> \<in> set as"
    proof (cases "au_client a = Some (cf_client cf)")
      case True
      with Cons.prems(3) ab r v show ?thesis
        by (cases x; cases "x = (au_bucket a, au_key a, au_upload_id a)") (auto simp: abort_one_def)
    next
      case False
      with Cons.prems show ?thesis by (auto simp: abort_one_def)
    qed
    moreover have "P (abort_one a w)" using Cons.prems(1,2) w1 r by (auto simp: abort_one_def)
    ultimately show ?case using Cons.IH Cons.prems(2) by simp
  qed simp
  show ?thesis
  proof
    fix x assume "x \<in> {x. parts (ad_world (abort_all s)) x \<noteq> None}"
    then have x: "parts (ad_world (abort_all s)) x \<noteq> None" by simp
    have "parts (ad_world s) x \<noteq> None" using conjunct2 [OF conjunct2 [OF abort_all_keeps [OF assms(1)]], rule_format, of x] x by metis
    moreover have "\<not> registered cf s x"
    proof
      assume "registered cf s x"
      then have "\<lparr>au_client = Some (cf_client cf), au_bucket = fst x, au_key = fst (snd x), au_upload_id = snd (snd x)\<rparr>
          \<in> set (map snd (ad_uploads s))"
        unfolding registered_def by (metis list.set_map map_of_SomeD rev_image_eqI snd_conv)
      from assms(1) have "\<forall>a \<in> set (map snd (ad_uploads s)). au_client a = None \<or> au_client a = Some (cf_client cf)"
        by (simp only: registry_clients_def list.set_map)
      from closes [OF assms(3) this disjI2 [OF \<open>_ \<in> set (map snd (ad_uploads s))\<close>]]
      have "parts (fold abort_one (map snd (ad_uploads s)) (ad_world s)) x = None" .
      moreover have "ad_uploads s \<noteq> []"
        using \<open>registered cf s x\<close> by (auto simp: registered_def)
      ultimately show False using x by (simp add: abort_all_def)
    qed
    ultimately show "x \<in> forgotten cf parts s" by (simp add: forgotten_def)
  qed
qed

end

end
