(* ===== verification/S3_Service.thy ===== *)
theory S3_Service
  imports Upload_Tracking
begin

text \<open>
  A service that the laws of \<open>s3_service\<close> and \<open>s3_pages\<close> describe, as requests over a record of objects and open
  uploads: it reads the \<^verbatim>\<open>Range\<close> and \<^verbatim>\<open>CopySource\<close> headers the client builds, and each request meets the next
  fate of a script: it is served, refused, broken off, served with its answer lost, cut short, or served without
  regard to the range.  The interpretations at the end are how the client's theorems reach
  a concrete run.
\<close>

section \<open>State and headers\<close>

datatype fate = Serve | Refuse s3_error | Break string | Lost string | Cut nat | WholeObject | Elsewhere nat

record service =
  sv_objects :: "((string \<times> string) \<times> byte list) list"
  sv_uploads :: "((string \<times> string \<times> string) \<times> (int \<times> byte list) list) list"
  sv_fates :: "fate list"

definition next_fate :: "service \<Rightarrow> fate \<times> service" where
  "next_fate w = (case sv_fates w of [] \<Rightarrow> (Serve, w) | f # fs \<Rightarrow> (f, w\<lparr>sv_fates := fs\<rparr>))"

definition svc_objects :: "service \<Rightarrow> store_view" where
  "svc_objects w x = (case map_of (sv_objects w) x of
      None \<Rightarrow> None | Some d \<Rightarrow> if int (length d) \<le> max_object_size then Some d else None)"

definition svc_parts :: "service \<Rightarrow> string \<times> string \<times> string \<Rightarrow> (int \<rightharpoonup> byte list) option" where
  "svc_parts w x = map_option map_of (map_of (sv_uploads w) x)"

definition parse_range :: "string \<Rightarrow> (nat \<times> nat) option" where
  "parse_range s =
     (let r = drop (length ''bytes='') s; i = takeWhile is_digit r; z = dropWhile is_digit r; j = tl z in
      if starts_with s ''bytes='' \<and> i \<noteq> [] \<and> z \<noteq> [] \<and> hd z = CHR ''-'' \<and> j \<noteq> [] \<and> list_all is_digit j \<and>
         digits_val i \<le> digits_val j
      then Some (digits_val i, digits_val j) else None)"

definition parse_source_header :: "string \<Rightarrow> (string \<times> string) option" where
  "parse_source_header s = map_option (\<lambda>i. (take i s, drop (Suc i) s)) (find_char CHR ''/'' s)"

lemma parse_byte_range: "parse_range (byte_range i j) = (if 0 \<le> i \<and> i \<le> j then Some (nat i, nat j) else None)"
proof (cases "0 \<le> i")
  case False
  then have "drop (length ''bytes='') (byte_range i j) = CHR ''-'' # show_nat (nat (- i)) @ ''-'' @ show_int j"
    by (simp add: byte_range_def show_int_def)
  with False show ?thesis by (simp add: parse_range_def Let_def is_digit_def)
next
  case True
  have r: "drop (length ''bytes='') (byte_range i j) = show_nat (nat i) @ CHR ''-'' # show_int j"
    using True by (simp add: byte_range_def show_int_def)
  have s: "starts_with (byte_range i j) ''bytes=''" unfolding byte_range_def by (rule starts_with_append)
  have t: "takeWhile is_digit (show_nat (nat i) @ CHR ''-'' # show_int j) = show_nat (nat i)"
    "dropWhile is_digit (show_nat (nat i) @ CHR ''-'' # show_int j) = CHR ''-'' # show_int j"
    using show_nat_digits by (simp_all add: takeWhile_append dropWhile_append is_digit_def)
  show ?thesis
  proof (cases "0 \<le> j")
    case True
    then have "list_all is_digit (show_int j)" using show_nat_digits by (simp add: show_int_def list_all_iff)
    with True \<open>0 \<le> i\<close> show ?thesis
      unfolding parse_range_def Let_def r t using s by (auto simp: show_int_def)
  next
    case False
    then have "\<not> list_all is_digit (show_int j)" by (simp add: show_int_def is_digit_def)
    with False True show ?thesis unfolding parse_range_def Let_def r t by simp
  qed
qed

lemma parse_copy_source: "CHR ''/'' \<notin> set sb \<Longrightarrow> parse_source_header (copy_source sb sk) = Some (sb, sk)"
  by (simp add: parse_source_header_def copy_source_def)

section \<open>Requests\<close>

definition missing_key :: s3_error where
  "missing_key = \<lparr>er_type = NO_SUCH_KEY, er_message = ''not found'', er_code = 404\<rparr>"

definition bad_request :: s3_error where
  "bad_request = \<lparr>er_type = OTHER_S3_ERROR, er_message = ''refused'', er_code = 400\<rparr>"

text \<open>The answer of a request that reads, and the answer and state of one that writes.\<close>

definition reply :: "fate \<Rightarrow> 'a outcome \<Rightarrow> 'a outcome" where
  "reply f out = (case f of Refuse e \<Rightarrow> Failure e | Break m \<Rightarrow> Raised m | Lost m \<Rightarrow> Raised m | _ \<Rightarrow> out)"

definition carry :: "fate \<Rightarrow> 'a \<Rightarrow> service \<Rightarrow> service \<Rightarrow> 'a outcome \<times> service" where
  "carry f out w w' = (case f of Refuse e \<Rightarrow> (Failure e, w) | Break m \<Rightarrow> (Raised m, w) | Lost m \<Rightarrow> (Raised m, w') | _ \<Rightarrow> (Success out, w'))"

definition svc_store :: "string \<times> string \<Rightarrow> byte list \<Rightarrow> service \<Rightarrow> service" where
  "svc_store x d w = w\<lparr>sv_objects := AList.update x d (sv_objects w)\<rparr>"

definition svc_HeadObject :: "string \<Rightarrow> string \<Rightarrow> service \<Rightarrow> int outcome \<times> service" where
  "svc_HeadObject b k w = (let (f, w) = next_fate w in
     (reply f (case svc_objects w (b, k) of None \<Rightarrow> Failure missing_key | Some d \<Rightarrow> Success (int (length d))), w))"

definition svc_range :: "fate \<Rightarrow> byte list \<Rightarrow> nat \<Rightarrow> nat \<Rightarrow> string \<times> byte list" where
  "svc_range f d i j =
     (let final = min j (length d - 1);
          named = (\<lambda>a. (content_range a final (show_nat (length d)), slice a (final - a + 1) d))
      in case f of
           WholeObject \<Rightarrow> ([], d)
         | Cut n \<Rightarrow> (fst (named i), take n (snd (named i)))
         | Elsewhere a \<Rightarrow> named (min a final)
         | _ \<Rightarrow> named i)"

definition svc_GetObject :: "string \<Rightarrow> string \<Rightarrow> string \<Rightarrow> service \<Rightarrow> (string \<times> byte list) outcome \<times> service" where
  "svc_GetObject b k rng w = (let (f, w) = next_fate w in
     (reply f (case (svc_objects w (b, k), parse_range rng) of
        (Some d, Some (i, j)) \<Rightarrow> if i < length d then Success (svc_range f d i j) else Failure bad_request
      | _ \<Rightarrow> Failure missing_key), w))"

definition svc_keys :: "string \<Rightarrow> service \<Rightarrow> string list" where
  "svc_keys b w = sort (remdups (map (snd \<circ> fst) (filter (\<lambda>(x, _). fst x = b \<and> svc_objects w x \<noteq> None) (sv_objects w))))"

definition svc_info :: "string \<Rightarrow> service \<Rightarrow> string \<Rightarrow> s3_object_info" where
  "svc_info b w k = \<lparr>oi_key = k, oi_size = int (length (the (svc_objects w (b, k)))), oi_last_modified = 0\<rparr>"

text \<open>
  The continuation token is the last key of the page, marked; a listing with a delimiter comes in one page.
\<close>

definition svc_rest :: "service \<Rightarrow> string \<Rightarrow> string \<Rightarrow> string \<Rightarrow> s3_object_info list" where
  "svc_rest w b p t = map (svc_info b w) (filter (\<lambda>k. starts_with k p \<and> (t = [] \<or> tl t < k)) (svc_keys b w))"

definition common_prefix_of :: "string \<Rightarrow> string \<Rightarrow> string \<Rightarrow> string option" where
  "common_prefix_of p delimiter k =
     map_option (\<lambda>i. take (length p + i + length delimiter) k) (find_str delimiter (drop (length p) k))"

definition svc_ListObjectsV2 :: "string \<Rightarrow> string \<Rightarrow> string \<Rightarrow> string \<Rightarrow> int \<Rightarrow> service \<Rightarrow> sdk_page outcome \<times> service" where
  "svc_ListObjectsV2 b p delimiter t n w = (let (f, w) = next_fate w; objs = svc_rest w b p t; page = take (nat n) objs in
     (reply f (if n \<le> 0 then Failure bad_request
       else if delimiter \<noteq> []
       then Success \<lparr>pg_contents = filter (\<lambda>obj. common_prefix_of p delimiter (oi_key obj) = None) objs,
              pg_prefixes = remdups (List.map_filter (common_prefix_of p delimiter \<circ> oi_key) objs),
              pg_truncated = False, pg_next_token = []\<rparr>
       else Success \<lparr>pg_contents = page, pg_prefixes = [], pg_truncated = nat n < length objs,
              pg_next_token = (if nat n < length objs then CHR ''k'' # oi_key (last page) else [])\<rparr>), w))"

definition svc_PutObject :: "string \<Rightarrow> string \<Rightarrow> put_request \<Rightarrow> service \<Rightarrow> unit outcome \<times> service" where
  "svc_PutObject b k req w = (let (f, w) = next_fate w in
     if put_content_length req \<noteq> int (length (put_body req)) \<or> max_object_size < put_content_length req
     then (Failure bad_request, w)
     else carry f () w (svc_store (b, k) (put_body req) w))"

definition svc_DeleteObject :: "string \<Rightarrow> string \<Rightarrow> service \<Rightarrow> unit outcome \<times> service" where
  "svc_DeleteObject b k w = (let (f, w) = next_fate w in
     carry f () w (w\<lparr>sv_objects := AList.delete (b, k) (sv_objects w)\<rparr>))"

definition svc_DeleteObjects :: "string \<Rightarrow> string list \<Rightarrow> service \<Rightarrow> string list outcome \<times> service" where
  "svc_DeleteObjects b ks w = (let (f, w) = next_fate w; n = (case f of Cut n \<Rightarrow> n | _ \<Rightarrow> length ks) in
     carry f (drop n ks) w (w\<lparr>sv_objects := filter (\<lambda>(x, _). \<not> keys_in b (take n ks) x) (sv_objects w)\<rparr>))"

definition svc_CopyObject :: "string \<Rightarrow> string \<Rightarrow> string \<Rightarrow> service \<Rightarrow> unit outcome \<times> service" where
  "svc_CopyObject b k source w = (let (f, w) = next_fate w in
     case (case parse_source_header source of None \<Rightarrow> None | Some x \<Rightarrow> svc_objects w x) of
       None \<Rightarrow> (Failure missing_key, w)
     | Some d \<Rightarrow> carry f () w (svc_store (b, k) d w))"

definition svc_CreateBucket :: "string \<Rightarrow> string option \<Rightarrow> service \<Rightarrow> unit outcome \<times> service" where
  "svc_CreateBucket b region w = (let (f, w) = next_fate w in carry f () w w)"

text \<open>An id longer than those of the open uploads; an upload whose id is lost in an answer is not recorded.\<close>

definition fresh_id :: "service \<Rightarrow> string" where
  "fresh_id w = replicate (Suc (sum_list (map (length \<circ> snd \<circ> snd \<circ> fst) (sv_uploads w)))) CHR ''u''"

definition svc_CreateMultipartUpload :: "string \<Rightarrow> string \<Rightarrow> service \<Rightarrow> string outcome \<times> service" where
  "svc_CreateMultipartUpload b k w = (let (f, w) = next_fate w; u = fresh_id w in
     case reply f (Success u) of
       Success _ \<Rightarrow> (Success u, w\<lparr>sv_uploads := AList.update (b, k, u) [] (sv_uploads w)\<rparr>)
     | out \<Rightarrow> (out, w))"

definition svc_store_part :: "string \<times> string \<times> string \<Rightarrow> int \<Rightarrow> byte list \<Rightarrow> service \<Rightarrow> service" where
  "svc_store_part x n d w = (case map_of (sv_uploads w) x of
     None \<Rightarrow> w | Some ps \<Rightarrow> w\<lparr>sv_uploads := AList.update x (AList.update n d ps) (sv_uploads w)\<rparr>)"

text \<open>The pair that stands for the SDK's base 64.\<close>

definition encode_bytes :: "byte list \<Rightarrow> string" where
  "encode_bytes = map (\<lambda>b. char_of (unat b))"

definition decode_bytes :: "string \<Rightarrow> byte list" where
  "decode_bytes = map (\<lambda>c. word_of_nat (of_char c))"

lemma decode_encode: "decode_bytes (encode_bytes bs) = bs"
proof -
  have "word_of_nat (of_char (char_of (unat b) :: char)) = b" for b :: byte
  proof -
    have "unat b < 256" using unsigned_less [where w = b and 'a = nat] by simp
    then show ?thesis by (simp add: of_char_of)
  qed
  then show ?thesis by (induction bs) (simp_all add: decode_bytes_def encode_bytes_def)
qed

definition svc_UploadPart ::
  "string \<Rightarrow> string \<Rightarrow> string \<Rightarrow> int \<Rightarrow> byte list \<Rightarrow> string \<Rightarrow> service \<Rightarrow> s3_part_result outcome \<times> service" where
  "svc_UploadPart b k u n d crc w = (let (f, w) = next_fate w in
     if map_of (sv_uploads w) (b, k, u) = None then (Failure bad_request, w)
     else carry f \<lparr>pr_etag = ''e'', pr_checksum = crc\<rparr> w (svc_store_part (b, k, u) n d w))"

definition svc_UploadPartCopy ::
  "zng_crc \<Rightarrow> string \<Rightarrow> string \<Rightarrow> string \<Rightarrow> int \<Rightarrow> string \<Rightarrow> string \<Rightarrow> service \<Rightarrow> s3_part_result outcome \<times> service" where
  "svc_UploadPartCopy z b k u n source rng w = (let (f, w) = next_fate w in
     case (case parse_source_header source of None \<Rightarrow> None | Some x \<Rightarrow> svc_objects w x, parse_range rng) of
       (Some d, Some (i, j)) \<Rightarrow>
         if j < length d \<and> map_of (sv_uploads w) (b, k, u) \<noteq> None
         then let x = slice i (j - i + 1) d in
           carry f \<lparr>pr_etag = ''e'', pr_checksum = encode_bytes (big_endian (crc32_hw z x))\<rparr> w (svc_store_part (b, k, u) n x w)
         else (Failure bad_request, w)
     | _ \<Rightarrow> (Failure missing_key, w))"

definition svc_CompleteMultipartUpload ::
  "string \<Rightarrow> string \<Rightarrow> string \<Rightarrow> (int \<times> s3_part_result) list \<Rightarrow> service \<Rightarrow> unit outcome \<times> service" where
  "svc_CompleteMultipartUpload b k u ps w = (let (f, w) = next_fate w in
     case svc_parts w (b, k, u) of
       None \<Rightarrow> (Failure bad_request, w)
     | Some m \<Rightarrow>
         if list_ex (\<lambda>(n, _). m n = None) ps \<or> max_object_size < int (length (parts_bytes m ps)) then (Failure bad_request, w)
         else carry f () w ((svc_store (b, k) (parts_bytes m ps) w)\<lparr>sv_uploads := AList.delete (b, k, u) (sv_uploads w)\<rparr>))"

definition svc_AbortMultipartUpload :: "string \<Rightarrow> string \<Rightarrow> string \<Rightarrow> service \<Rightarrow> unit outcome \<times> service" where
  "svc_AbortMultipartUpload b k u w = (let (f, w) = next_fate w in
     carry f () w (w\<lparr>sv_uploads := AList.delete (b, k, u) (sv_uploads w)\<rparr>))"

definition svc_ListMultipartUploads ::
  "string \<Rightarrow> string \<Rightarrow> string \<Rightarrow> string \<Rightarrow> int \<Rightarrow> service \<Rightarrow> sdk_uploads outcome \<times> service" where
  "svc_ListMultipartUploads b p key_marker id_marker n w = (let (f, w) = next_fate w in
     (reply f (Success \<lparr>up_uploads = map (\<lambda>((_, k, u), _). \<lparr>ui_key = k, ui_upload_id = u, ui_initiated = 0\<rparr>)
          (filter (\<lambda>((b', k, _), _). b' = b \<and> starts_with k p) (sv_uploads w)),
        up_truncated = False, up_next_key_marker = [], up_next_upload_id_marker = []\<rparr>), w))"

definition service_client :: "zng_crc \<Rightarrow> service sdk" where
  "service_client z = \<lparr>
     sdk_HeadObject = svc_HeadObject, sdk_GetObject = svc_GetObject, sdk_ListObjectsV2 = svc_ListObjectsV2,
     sdk_PutObject = svc_PutObject, sdk_DeleteObject = svc_DeleteObject, sdk_DeleteObjects = svc_DeleteObjects,
     sdk_CopyObject = svc_CopyObject, sdk_CreateBucket = svc_CreateBucket,
     sdk_CreateMultipartUpload = svc_CreateMultipartUpload, sdk_UploadPart = svc_UploadPart,
     sdk_UploadPartCopy = svc_UploadPartCopy z, sdk_CompleteMultipartUpload = svc_CompleteMultipartUpload,
     sdk_AbortMultipartUpload = svc_AbortMultipartUpload, sdk_ListMultipartUploads = svc_ListMultipartUploads\<rparr>"

definition service_config :: "zng_crc \<Rightarrow> int \<Rightarrow> int \<Rightarrow> bool \<Rightarrow> service s3_config" where
  "service_config z retries threads ramp_up = \<lparr>
     cf_client = service_client z, cf_region = ''us-east-1'', cf_max_retries = retries, cf_allow_unverified = False,
     cf_num_threads = threads, cf_ramp_up = ramp_up, cf_can_buffer = (\<lambda>_. True), cf_crc = z,
     cf_base64_encode = encode_bytes, cf_base64_decode = decode_bytes\<rparr>"

lemma service_config_sel [simp]:
  "cf_allow_unverified (service_config z n t r) = False" "cf_crc (service_config z n t r) = z"
  "cf_base64_decode (service_config z n t r) = decode_bytes" "cf_can_buffer (service_config z n t r) a"
  "sdk_HeadObject (cf_client (service_config z n t r)) = svc_HeadObject"
  "sdk_GetObject (cf_client (service_config z n t r)) = svc_GetObject"
  "sdk_ListObjectsV2 (cf_client (service_config z n t r)) = svc_ListObjectsV2"
  "sdk_PutObject (cf_client (service_config z n t r)) = svc_PutObject"
  "sdk_DeleteObject (cf_client (service_config z n t r)) = svc_DeleteObject"
  "sdk_DeleteObjects (cf_client (service_config z n t r)) = svc_DeleteObjects"
  "sdk_CopyObject (cf_client (service_config z n t r)) = svc_CopyObject"
  "sdk_CreateMultipartUpload (cf_client (service_config z n t r)) = svc_CreateMultipartUpload"
  "sdk_UploadPart (cf_client (service_config z n t r)) = svc_UploadPart"
  "sdk_UploadPartCopy (cf_client (service_config z n t r)) = svc_UploadPartCopy z"
  "sdk_CompleteMultipartUpload (cf_client (service_config z n t r)) = svc_CompleteMultipartUpload"
  "sdk_AbortMultipartUpload (cf_client (service_config z n t r)) = svc_AbortMultipartUpload"
  by (simp_all add: service_config_def service_client_def)

section \<open>The laws\<close>

lemma next_fate_view:
  assumes "next_fate w = (f, w')"
  shows "svc_objects w' = svc_objects w" "svc_parts w' = svc_parts w" "sv_objects w' = sv_objects w" "sv_uploads w' = sv_uploads w"
  using assms by (auto simp: next_fate_def svc_objects_def [abs_def] svc_parts_def [abs_def] split: list.splits)

lemma svc_store_view [simp]:
  "int (length d) \<le> max_object_size \<Longrightarrow> svc_objects (svc_store x d w) = (svc_objects w)(x \<mapsto> d)"
  "svc_parts (svc_store x d w) = svc_parts w"
  by (auto simp: svc_store_def svc_objects_def [abs_def] svc_parts_def [abs_def] update_conv' fun_eq_iff)

lemma carry_cases:
  assumes "carry f out w w' = (r, v)"
  obtains (served) "r = Success out" "v = w'" | (lost) "\<And>a. r \<noteq> Success a" "v = w'" | (refused) "\<And>a. r \<noteq> Success a" "v = w"
  using assms by (cases f) (auto simp: carry_def)

lemma reply_Success: "reply f out = Success a \<Longrightarrow> out = Success a"
  by (cases f) (auto simp: reply_def)

lemma map_of_filter_keys: "map_of (filter (\<lambda>(x, _). \<not> P x) xs) y = (if P y then None else map_of xs y)"
  by (induction xs) auto

lemma svc_uploads_view:
  "svc_parts (w\<lparr>sv_uploads := AList.delete x (sv_uploads w)\<rparr>) = (svc_parts w)(x := None)"
  "svc_objects (w\<lparr>sv_uploads := us\<rparr>) = svc_objects w"
  "svc_parts (w\<lparr>sv_objects := os\<rparr>) = svc_parts w"
  "svc_parts (w\<lparr>sv_uploads := AList.update x ps (sv_uploads w)\<rparr>) = (svc_parts w)(x \<mapsto> map_of ps)"
  by (auto simp: svc_objects_def [abs_def] svc_parts_def [abs_def] delete_conv' update_conv' fun_eq_iff)

lemma svc_head:
  assumes "svc_HeadObject b k w = (r, w')"
  shows "svc_objects w' = svc_objects w \<and> svc_parts w' = svc_parts w \<and>
    (case r of Success n \<Rightarrow> \<exists>d. svc_objects w (b, k) = Some d \<and> n = int (length d) | _ \<Rightarrow> True)"
proof -
  obtain f w1 where f: "next_fate w = (f, w1)" by fastforce
  from assms f next_fate_view [OF f] show ?thesis
    by (auto simp: svc_HeadObject_def split: outcome.splits option.splits dest!: reply_Success)
qed

lemma svc_range_answer:
  assumes "i < length d" "i \<le> j" "svc_range f d i j = (header, body)"
  shows "range_answer d (int i) (int j) False header body"
proof -
  define e where "e = min j (length d - 1)"
  have e: "e < length d" "i \<le> e" using assms(1,2) by (auto simp: e_def)
  have named: "range_answer d (int i) (int j) False (content_range a e (show_nat (length d))) (take n (slice a (e - a + 1) d))"
    if "a \<le> e" for a n
    unfolding range_answer_def using that e(1) take_is_prefix by blast
  have full: "range_answer d (int i) (int j) False (content_range a e (show_nat (length d))) (slice a (e - a + 1) d)"
    if "a \<le> e" for a
    using named [OF that, of "e - a + 1"] by (simp add: slice_def)
  show ?thesis
  proof (cases f)
    case WholeObject
    with assms(3) show ?thesis by (simp add: svc_range_def range_answer_def Let_def)
  next
    case (Cut n)
    with assms(3) named [of i n] e show ?thesis by (auto simp: svc_range_def Let_def e_def)
  next
    case (Elsewhere a)
    with assms(3) have "header = content_range (min a e) e (show_nat (length d))" "body = slice (min a e) (e - min a e + 1) d"
      by (simp_all add: svc_range_def Let_def e_def)
    with full [of "min a e"] show ?thesis by (simp only: min.cobounded2)
  qed (use assms(3) full [of i] e in \<open>auto simp: svc_range_def Let_def e_def\<close>)
qed

lemma svc_get:
  assumes "svc_GetObject b k (byte_range i j) w = (r, w')"
  shows "svc_objects w' = svc_objects w \<and> svc_parts w' = svc_parts w \<and>
    (case r of Success (header, body) \<Rightarrow> 0 \<le> i \<longrightarrow> i \<le> j \<longrightarrow>
       (\<exists>d. svc_objects w (b, k) = Some d \<and> range_answer d i j False header body) | _ \<Rightarrow> True)"
proof -
  obtain f w1 where f: "next_fate w = (f, w1)" by fastforce
  note view = next_fate_view [OF f]
  have "\<exists>d. svc_objects w (b, k) = Some d \<and> range_answer d i j False header body"
    if "r = Success (header, body)" "0 \<le> i" "i \<le> j" for header body
  proof -
    from assms f that have "(case (svc_objects w1 (b, k), Some (nat i, nat j)) of
        (Some d, Some (i, j)) \<Rightarrow> if i < length d then Success (svc_range f d i j) else Failure bad_request
      | _ \<Rightarrow> Failure missing_key) = Success (header, body)"
      by (auto simp: svc_GetObject_def parse_byte_range dest!: reply_Success)
    then obtain d where d: "svc_objects w (b, k) = Some d" "nat i < length d" "svc_range f d (nat i) (nat j) = (header, body)"
      using view by (auto split: option.splits if_splits)
    from svc_range_answer [OF d(2) _ d(3)] that d(1) show ?thesis by auto
  qed
  moreover have "svc_objects w' = svc_objects w \<and> svc_parts w' = svc_parts w"
    using assms f view by (simp add: svc_GetObject_def)
  ultimately show ?thesis by (auto split: outcome.splits)
qed

lemma svc_put:
  assumes "svc_PutObject b k req w = (r, w')"
  shows "svc_parts w' = svc_parts w \<and> (put_content_length req = int (length (put_body req)) \<longrightarrow>
     stored (svc_objects w) (b, k) (Some (put_body req)) r (svc_objects w'))"
proof -
  obtain f w1 where f: "next_fate w = (f, w1)" by fastforce
  note view = next_fate_view [OF f]
  show ?thesis
  proof (cases "put_content_length req \<noteq> int (length (put_body req)) \<or> max_object_size < put_content_length req")
    case True
    with assms f view show ?thesis by (auto simp: svc_PutObject_def stored_def)
  next
    case False
    with assms f have c: "carry f () w1 (svc_store (b, k) (put_body req) w1) = (r, w')" by (simp add: svc_PutObject_def)
    from c False view show ?thesis by (cases rule: carry_cases) (auto simp: stored_def split: outcome.splits)
  qed
qed

lemma svc_delete_view:
  "svc_objects (w\<lparr>sv_objects := AList.delete x (sv_objects w)\<rparr>) = (svc_objects w)(x := None)"
  by (auto simp: svc_objects_def [abs_def] delete_conv' fun_eq_iff)

lemma svc_delete:
  assumes "svc_DeleteObject b k w = (r, w')"
  shows "svc_parts w' = svc_parts w \<and> stored (svc_objects w) (b, k) None r (svc_objects w')"
proof -
  obtain f w1 where f: "next_fate w = (f, w1)" by fastforce
  note view = next_fate_view [OF f]
  with assms f have c: "carry f () w1 (w1\<lparr>sv_objects := AList.delete (b, k) (sv_objects w1)\<rparr>) = (r, w')"
    by (simp add: svc_DeleteObject_def)
  then show ?thesis
    by (cases rule: carry_cases) (use view(1,2) in \<open>auto simp: stored_def svc_delete_view svc_uploads_view split: outcome.splits\<close>)
qed

lemma svc_delete_many:
  assumes "svc_DeleteObjects b ks w = (r, w')"
  shows "svc_parts w' = svc_parts w \<and> only_removed (keys_in b ks) (svc_objects w) (svc_objects w') \<and>
    (case r of Success failed \<Rightarrow> set failed \<subseteq> set ks \<and> length failed \<le> length ks \<and>
       (\<forall>k. k \<in> set ks \<longrightarrow> k \<notin> set failed \<longrightarrow> svc_objects w' (b, k) = None) | _ \<Rightarrow> True)"
proof -
  obtain f w1 where f: "next_fate w = (f, w1)" by fastforce
  note view = next_fate_view [OF f]
  define n where "n = (case f of Cut n \<Rightarrow> n | _ \<Rightarrow> length ks)"
  define w2 where "w2 = w1\<lparr>sv_objects := filter (\<lambda>(x, _). \<not> keys_in b (take n ks) x) (sv_objects w1)\<rparr>"
  have c: "carry f (drop n ks) w1 w2 = (r, w')"
    using assms f by (simp add: svc_DeleteObjects_def n_def w2_def Let_def)
  have w2: "svc_objects w2 x = (if keys_in b (take n ks) x then None else svc_objects w x)" "svc_parts w2 = svc_parts w" for x
    using view by (simp_all add: w2_def svc_objects_def map_of_filter_keys svc_uploads_view)
  have rem: "only_removed (keys_in b ks) (svc_objects w) (svc_objects w2)"
    using w2(1) by (auto simp: only_removed_def keys_in_def dest: in_set_takeD)
  have gone: "svc_objects w2 (b, k) = None" if "k \<in> set ks" "k \<notin> set (drop n ks)" for k
  proof -
    have "k \<in> set (take n ks)" using that by (metis Un_iff append_take_drop_id set_append)
    then show ?thesis using w2(1) by simp
  qed
  from c show ?thesis
    by (cases rule: carry_cases) (use rem gone w2(2) view in \<open>auto dest: in_set_dropD split: outcome.splits\<close>)
qed

lemma svc_copy:
  assumes "svc_CopyObject b k src w = (r, w')"
  shows "svc_parts w' = svc_parts w" "x \<noteq> (b, k) \<Longrightarrow> svc_objects w' x = svc_objects w x"
    "src = copy_source sb sk \<Longrightarrow> CHR ''/'' \<notin> set sb \<Longrightarrow>
      (case svc_objects w (sb, sk) of None \<Rightarrow> svc_objects w' = svc_objects w \<and> (\<forall>u. r \<noteq> Success u)
       | Some d \<Rightarrow> stored (svc_objects w) (b, k) (Some d) r (svc_objects w'))"
proof -
  obtain f w1 where f: "next_fate w = (f, w1)" by fastforce
  note view = next_fate_view [OF f]
  have small: "svc_objects w y = Some d \<Longrightarrow> int (length d) \<le> max_object_size" for y d
    by (auto simp: svc_objects_def split: option.splits if_splits)
  define src_of where "src_of = (case parse_source_header src of None \<Rightarrow> None | Some x \<Rightarrow> svc_objects w x)"
  have r: "(case src_of of None \<Rightarrow> (Failure missing_key, w1) | Some d \<Rightarrow> carry f () w1 (svc_store (b, k) d w1)) = (r, w')"
    using assms f view(1) by (cases "parse_source_header src") (simp_all add: svc_CopyObject_def src_of_def)
  have all: "svc_parts w' = svc_parts w \<and> (\<forall>x. x \<noteq> (b, k) \<longrightarrow> svc_objects w' x = svc_objects w x) \<and>
     (case src_of of None \<Rightarrow> svc_objects w' = svc_objects w \<and> (\<forall>u. r \<noteq> Success u)
       | Some d \<Rightarrow> stored (svc_objects w) (b, k) (Some d) r (svc_objects w'))"
  proof (cases src_of)
    case None
    with r view show ?thesis by auto
  next
    case (Some d)
    with small have d: "int (length d) \<le> max_object_size" by (auto simp: src_of_def split: option.splits)
    from r Some have "carry f () w1 (svc_store (b, k) d w1) = (r, w')" by simp
    then show ?thesis
      by (cases rule: carry_cases) (use d Some view in \<open>auto simp: stored_def split: outcome.splits\<close>)
  qed
  then show "svc_parts w' = svc_parts w" "x \<noteq> (b, k) \<Longrightarrow> svc_objects w' x = svc_objects w x" by (cases x; auto)+
  show "case svc_objects w (sb, sk) of None \<Rightarrow> svc_objects w' = svc_objects w \<and> (\<forall>u. r \<noteq> Success u)
       | Some d \<Rightarrow> stored (svc_objects w) (b, k) (Some d) r (svc_objects w')"
    if "src = copy_source sb sk" "CHR ''/'' \<notin> set sb"
    using all that by (simp add: src_of_def parse_copy_source)
qed

lemma fresh_id: "fresh_id w \<noteq> []" "svc_parts w (b, k, fresh_id w) = None"
proof -
  show "fresh_id w \<noteq> []" by (simp add: fresh_id_def)
  have "length u \<le> sum_list (map (length \<circ> snd \<circ> snd \<circ> fst) (sv_uploads w))"
    if "((b, k, u), ps) \<in> set (sv_uploads w)" for u ps
    using that by (intro member_le_sum_list; force)
  then have "((b, k, fresh_id w), ps) \<notin> set (sv_uploads w)" for ps
    using length_replicate [of "Suc (sum_list (map (length \<circ> snd \<circ> snd \<circ> fst) (sv_uploads w)))" "CHR ''u''"]
    unfolding fresh_id_def by (metis Suc_n_not_le_n)
  then show "svc_parts w (b, k, fresh_id w) = None"
    unfolding svc_parts_def by (metis map_of_SomeD not_Some_eq option.map_disc_iff)
qed

lemma svc_create:
  assumes "svc_CreateMultipartUpload b k w = (r, w')"
  shows "svc_objects w' = svc_objects w \<and> (case r of
       Success u \<Rightarrow> u \<noteq> [] \<and> svc_parts w' = (svc_parts w)((b, k, u) := Some Map.empty) \<and> (\<forall>b' k'. svc_parts w (b', k', u) = None)
     | _ \<Rightarrow> svc_parts w' = svc_parts w)"
proof -
  obtain f w1 where f: "next_fate w = (f, w1)" by fastforce
  note view = next_fate_view [OF f]
  show ?thesis
  proof (cases "reply f (Success (fresh_id w1))")
    case (Success u)
    then have "u = fresh_id w1" by (auto dest: reply_Success)
    with assms f Success fresh_id [of w1] view(1,2) show ?thesis
      by (auto simp: svc_CreateMultipartUpload_def svc_uploads_view Let_def)
  next
    case (Failure e)
    with assms f have "r = Failure e" "w' = w1" by (auto simp: svc_CreateMultipartUpload_def Let_def)
    with view(1,2) show ?thesis by simp
  next
    case (Raised e)
    with assms f have "r = Raised e" "w' = w1" by (auto simp: svc_CreateMultipartUpload_def Let_def)
    with view(1,2) show ?thesis by simp
  qed
qed

lemma svc_store_part:
  "svc_objects (svc_store_part x n d w) = svc_objects w"
  "svc_parts (svc_store_part x n d w) y = (if y = x then map_option (\<lambda>m. m(n \<mapsto> d)) (svc_parts w x) else svc_parts w y)"
  by (auto simp: svc_store_part_def svc_objects_def [abs_def] svc_parts_def update_conv' split: option.splits)

lemma svc_part_step:
  assumes "carry f a w1 (svc_store_part x n d w1) = (r, w')" "svc_parts w1 = svc_parts w" "svc_objects w1 = svc_objects w"
  shows "svc_objects w' = svc_objects w \<and> (\<forall>y. y \<noteq> x \<longrightarrow> svc_parts w' y = svc_parts w y) \<and>
     (case svc_parts w x of None \<Rightarrow> svc_parts w' x = None
      | Some m \<Rightarrow> \<exists>m'. svc_parts w' x = Some m' \<and> other_parts_kept n m m' \<and> (\<forall>p. r = Success p \<longrightarrow> m' n = Some d))"
  using assms(1)
  by (cases rule: carry_cases)
    (use assms(2,3) in \<open>auto simp: svc_store_part other_parts_kept_def split: option.splits\<close>)

lemma svc_upload:
  assumes "svc_UploadPart b k u n d crc w = (r, w')"
  shows "svc_objects w' = svc_objects w \<and> (\<forall>x. x \<noteq> (b, k, u) \<longrightarrow> svc_parts w' x = svc_parts w x) \<and>
     (case svc_parts w (b, k, u) of None \<Rightarrow> svc_parts w' (b, k, u) = None
      | Some m \<Rightarrow> \<exists>m'. svc_parts w' (b, k, u) = Some m' \<and> other_parts_kept n m m' \<and> (\<forall>p. r = Success p \<longrightarrow> m' n = Some d))"
proof -
  obtain f w1 where f: "next_fate w = (f, w1)" by fastforce
  note view = next_fate_view [OF f]
  show ?thesis
  proof (cases "map_of (sv_uploads w1) (b, k, u) = None")
    case True
    then have "svc_parts w1 (b, k, u) = None" by (simp add: svc_parts_def)
    with True assms f view(1,2) show ?thesis by (auto simp: svc_UploadPart_def)
  next
    case False
    with assms f have "carry f \<lparr>pr_etag = ''e'', pr_checksum = crc\<rparr> w1 (svc_store_part (b, k, u) n d w1) = (r, w')"
      by (simp add: svc_UploadPart_def)
    from svc_part_step [OF this view(2,1)] show ?thesis .
  qed
qed

lemma svc_upload_copy:
  assumes "svc_UploadPartCopy z b k u n src rng w = (r, w')"
  shows "svc_objects w' = svc_objects w \<and> (\<forall>x. x \<noteq> (b, k, u) \<longrightarrow> svc_parts w' x = svc_parts w x) \<and>
     (case svc_parts w (b, k, u) of None \<Rightarrow> svc_parts w' (b, k, u) = None
      | Some m \<Rightarrow> \<exists>m'. svc_parts w' (b, k, u) = Some m' \<and> other_parts_kept n m m') \<and>
     (\<forall>p sb sk i j. r = Success p \<longrightarrow> src = copy_source sb sk \<longrightarrow> rng = byte_range i j \<longrightarrow> CHR ''/'' \<notin> set sb \<longrightarrow>
        (\<exists>d. svc_objects w (sb, sk) = Some d \<and> 0 \<le> i \<and> i \<le> j \<and> j < int (length d) \<and>
           (let x = slice (nat i) (nat (j - i + 1)) d in
             (\<forall>m'. svc_parts w' (b, k, u) = Some m' \<longrightarrow> m' n = Some x) \<and>
             decode_bytes (pr_checksum p) = big_endian (crc32_hw z x))))"
proof -
  obtain f w1 where f: "next_fate w = (f, w1)" by fastforce
  note view = next_fate_view [OF f]
  define so where "so = (case parse_source_header src of None \<Rightarrow> None | Some x \<Rightarrow> svc_objects w1 x)"
  consider (bad) e where "r = Failure e" "w' = w1"
    | (sent) d i j x where "so = Some d" "parse_range rng = Some (i, j)" "j < length d" "x = slice i (j - i + 1) d"
        "carry f \<lparr>pr_etag = ''e'', pr_checksum = encode_bytes (big_endian (crc32_hw z x))\<rparr> w1 (svc_store_part (b, k, u) n x w1) = (r, w')"
    using assms f unfolding svc_UploadPartCopy_def so_def [symmetric]
    by (cases so; cases "parse_range rng") (auto simp: so_def Let_def split: if_splits)
  then show ?thesis
  proof cases
    case bad
    with view(1,2) show ?thesis by (auto simp: other_parts_kept_def split: option.splits)
  next
    case sent
    note st = svc_part_step [OF sent(5) view(2,1)]
    have "\<exists>d. svc_objects w (sb, sk) = Some d \<and> 0 \<le> i' \<and> i' \<le> j' \<and> j' < int (length d) \<and>
           (let x = slice (nat i') (nat (j' - i' + 1)) d in
             (\<forall>m'. svc_parts w' (b, k, u) = Some m' \<longrightarrow> m' n = Some x) \<and>
             decode_bytes (pr_checksum p) = big_endian (crc32_hw z x))"
      if h: "r = Success p" "src = copy_source sb sk" "rng = byte_range i' j'" "CHR ''/'' \<notin> set sb" for p sb sk i' j'
    proof -
      have "svc_objects w (sb, sk) = Some d" using sent(1) h(2,4) view(1) by (simp add: so_def parse_copy_source)
      moreover have ij: "0 \<le> i'" "i' \<le> j'" "i = nat i'" "j = nat j'"
        using sent(2) h(3) by (auto simp: parse_byte_range split: if_splits)
      moreover have "x = slice (nat i') (nat (j' - i' + 1)) d"
      proof -
        have "nat (j' - i' + 1) = j - i + 1" using ij by linarith
        then show ?thesis using sent(4) ij(3) by simp
      qed
      moreover have "\<forall>m'. svc_parts w' (b, k, u) = Some m' \<longrightarrow> m' n = Some x"
        using st h(1) by (auto split: option.splits)
      moreover have "p = \<lparr>pr_etag = ''e'', pr_checksum = encode_bytes (big_endian (crc32_hw z x))\<rparr>"
        using sent(5) h(1) by (cases rule: carry_cases) auto
      ultimately show ?thesis using sent(3) by (auto simp: decode_encode)
    qed
    with st show ?thesis by (auto split: option.splits)
  qed
qed

lemma svc_complete:
  assumes "svc_CompleteMultipartUpload b k u ps w = (r, w')"
  shows "(\<forall>x. x \<noteq> (b, k) \<longrightarrow> svc_objects w' x = svc_objects w x) \<and> (\<forall>x. x \<noteq> (b, k, u) \<longrightarrow> svc_parts w' x = svc_parts w x) \<and>
    (svc_parts w' (b, k, u) = svc_parts w (b, k, u) \<or> svc_parts w' (b, k, u) = None) \<and>
    (\<forall>a. r = Success a \<longrightarrow> svc_parts w' (b, k, u) = None)"
    "svc_parts w (b, k, u) = Some m \<Longrightarrow> stored (svc_objects w) (b, k) (Some (parts_bytes m ps)) r (svc_objects w') \<and>
      (\<forall>a. r = Success a \<longrightarrow> (\<forall>(n, q) \<in> set ps. m n \<noteq> None))"
proof -
  obtain f w1 where f: "next_fate w = (f, w1)" by fastforce
  note view = next_fate_view [OF f]
  have all: "((\<forall>x. x \<noteq> (b, k) \<longrightarrow> svc_objects w' x = svc_objects w x) \<and> (\<forall>x. x \<noteq> (b, k, u) \<longrightarrow> svc_parts w' x = svc_parts w x) \<and>
    (svc_parts w' (b, k, u) = svc_parts w (b, k, u) \<or> svc_parts w' (b, k, u) = None) \<and>
    (\<forall>a. r = Success a \<longrightarrow> svc_parts w' (b, k, u) = None)) \<and>
    (svc_parts w (b, k, u) = Some m \<longrightarrow> stored (svc_objects w) (b, k) (Some (parts_bytes m ps)) r (svc_objects w') \<and>
      (\<forall>a. r = Success a \<longrightarrow> (\<forall>(n, q) \<in> set ps. m n \<noteq> None)))"
  proof (cases "svc_parts w (b, k, u)")
    case None
    with assms f view(1,2) show ?thesis by (auto simp: svc_CompleteMultipartUpload_def)
  next
    case (Some m')
    show ?thesis
    proof (cases "list_ex (\<lambda>(n, _). m' n = None) ps \<or> max_object_size < int (length (parts_bytes m' ps))")
      case True
      with assms f Some view(1,2) show ?thesis by (auto simp: svc_CompleteMultipartUpload_def stored_def)
    next
      case False
      then have ok: "int (length (parts_bytes m' ps)) \<le> max_object_size" "\<forall>(n, q) \<in> set ps. m' n \<noteq> None"
        by (auto simp: list_ex_iff)
      define w2 where "w2 = (svc_store (b, k) (parts_bytes m' ps) w1)\<lparr>sv_uploads := AList.delete (b, k, u) (sv_uploads w1)\<rparr>"
      have c: "carry f () w1 w2 = (r, w')"
        using assms f Some False view(2) by (simp add: svc_CompleteMultipartUpload_def w2_def)
      have o2: "svc_objects w2 = (svc_objects w)((b, k) \<mapsto> parts_bytes m' ps)"
        using ok(1) view(1) by (simp add: w2_def svc_uploads_view)
      have p2: "svc_parts w2 = (svc_parts w)((b, k, u) := None)"
        using view(2) by (auto simp: w2_def svc_parts_def [abs_def] svc_store_def delete_conv' fun_eq_iff)
      from c show ?thesis
        by (cases rule: carry_cases) (use view(1,2) Some ok(2) o2 p2 in \<open>auto simp: stored_def split: outcome.splits\<close>)
    qed
  qed
  then show "(\<forall>x. x \<noteq> (b, k) \<longrightarrow> svc_objects w' x = svc_objects w x) \<and> (\<forall>x. x \<noteq> (b, k, u) \<longrightarrow> svc_parts w' x = svc_parts w x) \<and>
    (svc_parts w' (b, k, u) = svc_parts w (b, k, u) \<or> svc_parts w' (b, k, u) = None) \<and>
    (\<forall>a. r = Success a \<longrightarrow> svc_parts w' (b, k, u) = None)" ..
  show "stored (svc_objects w) (b, k) (Some (parts_bytes m ps)) r (svc_objects w') \<and>
      (\<forall>a. r = Success a \<longrightarrow> (\<forall>(n, q) \<in> set ps. m n \<noteq> None))" if "svc_parts w (b, k, u) = Some m"
    using all that by blast
qed

lemma svc_abort:
  assumes "svc_AbortMultipartUpload b k u w = (r, w')"
  shows "svc_objects w' = svc_objects w \<and> (\<forall>x. x \<noteq> (b, k, u) \<longrightarrow> svc_parts w' x = svc_parts w x) \<and>
    (svc_parts w' (b, k, u) = svc_parts w (b, k, u) \<or> svc_parts w' (b, k, u) = None) \<and>
    (\<forall>a. r = Success a \<longrightarrow> svc_parts w' (b, k, u) = None)"
proof -
  obtain f w1 where f: "next_fate w = (f, w1)" by fastforce
  note view = next_fate_view [OF f]
  from assms f have c: "carry f () w1 (w1\<lparr>sv_uploads := AList.delete (b, k, u) (sv_uploads w1)\<rparr>) = (r, w')"
    by (simp add: svc_AbortMultipartUpload_def)
  then show ?thesis
    by (cases rule: carry_cases) (use view(1,2) in \<open>auto simp: svc_uploads_view\<close>)
qed

section \<open>Listings\<close>

lemma svc_keys: "sorted (svc_keys b w)" "distinct (svc_keys b w)" "k \<in> set (svc_keys b w) \<longleftrightarrow> svc_objects w (b, k) \<noteq> None"
proof -
  show "sorted (svc_keys b w)" "distinct (svc_keys b w)" by (simp_all add: svc_keys_def)
  show "k \<in> set (svc_keys b w) \<longleftrightarrow> svc_objects w (b, k) \<noteq> None"
    by (force simp: svc_keys_def svc_objects_def split: option.splits if_splits dest: map_of_SomeD)
qed

lemma prefix_le: "prefix p k \<Longrightarrow> p \<le> k" for p k :: string
  by (induction p arbitrary: k) (auto simp: prefix_def)

lemma svc_rest_view:
  assumes "sv_objects w' = sv_objects w"
  shows "svc_rest w' = svc_rest w"
proof -
  have "svc_objects w' = svc_objects w" using assms by (simp add: svc_objects_def [abs_def])
  with assms show ?thesis by (simp add: svc_rest_def [abs_def] svc_keys_def svc_info_def [abs_def])
qed

lemma svc_list:
  assumes "svc_ListObjectsV2 b p dl t n w = (r, w')"
  shows "svc_objects w' = svc_objects w" "svc_parts w' = svc_parts w" "sv_objects w' = sv_objects w"
    "r = Success pg \<Longrightarrow> dl = [] \<Longrightarrow> 0 < n \<and> pg_contents pg = take (nat n) (svc_rest w b p t) \<and>
       pg_truncated pg = (nat n < length (svc_rest w b p t)) \<and>
       pg_next_token pg = (if pg_truncated pg then CHR ''k'' # oi_key (last (pg_contents pg)) else [])"
proof -
  obtain f w1 where f: "next_fate w = (f, w1)" by fastforce
  note view = next_fate_view [OF f] and same = svc_rest_view [OF next_fate_view(3) [OF f]]
  from assms f view show "svc_objects w' = svc_objects w" "svc_parts w' = svc_parts w" "sv_objects w' = sv_objects w"
    by (auto simp: svc_ListObjectsV2_def Let_def)
  show "0 < n \<and> pg_contents pg = take (nat n) (svc_rest w b p t) \<and>
       pg_truncated pg = (nat n < length (svc_rest w b p t)) \<and>
       pg_next_token pg = (if pg_truncated pg then CHR ''k'' # oi_key (last (pg_contents pg)) else [])"
    if "r = Success pg" "dl = []"
    using assms f same that by (auto simp: svc_ListObjectsV2_def Let_def dest!: reply_Success split: if_splits)
qed

lemma svc_list_names:
  assumes "svc_ListObjectsV2 b p [] [] 1 w = (Success pg, w')"
  shows "svc_objects w (b, p) \<noteq> None \<longleftrightarrow> p \<in> oi_key ` set (pg_contents pg)"
proof -
  define ks where "ks = filter (\<lambda>k. starts_with k p) (svc_keys b w)"
  have s: "sorted ks" unfolding ks_def by (simp add: svc_keys(1) sorted_wrt_filter)
  have mem: "p \<in> set ks \<longleftrightarrow> svc_objects w (b, p) \<noteq> None" by (simp add: ks_def svc_keys(3))
  have "pg_contents pg = map (svc_info b w) (take 1 ks)"
    using svc_list(4) [OF assms refl refl] by (simp add: svc_rest_def ks_def take_map)
  then have c: "oi_key ` set (pg_contents pg) = set (take 1 ks)" by (force simp: svc_info_def)
  show ?thesis
  proof (cases ks)
    case Nil
    with mem c show ?thesis by simp
  next
    case (Cons a ks')
    then have "a \<in> set ks" by simp
    then have "starts_with a p" by (simp add: ks_def)
    then have "p \<le> a" using prefix_le by (simp add: starts_with_iff_prefix)
    moreover have "a \<le> p" if "p \<in> set ks" using that s Cons by auto
    ultimately show ?thesis using mem c Cons by auto
  qed
qed

lemma svc_page:
  assumes "svc_ListObjectsV2 b p [] t n w = (Success pg, w')" "0 < n"
  shows "svc_rest w b p t = pg_contents pg @ (if pg_truncated pg then svc_rest w b p (pg_next_token pg) else [])"
    "if pg_truncated pg then pg_next_token pg \<noteq> [] \<and> pg_contents pg \<noteq> [] else pg_next_token pg = []"
proof -
  define ks where "ks = filter (\<lambda>k. starts_with k p \<and> (t = [] \<or> tl t < k)) (svc_keys b w)"
  have rest: "svc_rest w b p t = map (svc_info b w) ks" by (simp add: svc_rest_def ks_def)
  note page = svc_list(4) [OF assms(1) refl refl]
  have s: "sorted ks" "distinct ks" unfolding ks_def by (simp_all add: svc_keys sorted_wrt_filter)
  show "if pg_truncated pg then pg_next_token pg \<noteq> [] \<and> pg_contents pg \<noteq> [] else pg_next_token pg = []"
    using page assms(2) by auto
  show "svc_rest w b p t = pg_contents pg @ (if pg_truncated pg then svc_rest w b p (pg_next_token pg) else [])"
  proof (cases "nat n < length ks")
    case False
    with page rest show ?thesis by simp
  next
    case True
    let ?l = "ks ! (nat n - 1)"
    have n: "0 < nat n" using assms(2) by simp
    have "last (take (nat n) ks) = take (nat n) ks ! (length (take (nat n) ks) - 1)" using True n by (intro last_conv_nth) auto
    then have "last (take (nat n) ks) = ?l" using True n by (simp add: min_def)
    moreover have "take (nat n) ks \<noteq> []" using True n by auto
    ultimately have "oi_key (last (map (svc_info b w) (take (nat n) ks))) = ?l" by (simp add: last_map svc_info_def)
    then have tok: "pg_next_token pg = CHR ''k'' # ?l"
      using page rest True by (simp add: take_map)
    have "?l \<in> set ks" using True n by (intro nth_mem) simp
    then have after: "t = [] \<or> tl t < ?l" by (simp add: ks_def)
    have "filter (\<lambda>k. starts_with k p \<and> l < k) (svc_keys b w) = filter (\<lambda>k. l < k) ks" if "t = [] \<or> tl t < l" for l
      unfolding ks_def filter_filter using that by (intro filter_cong refl) (auto dest: order.strict_trans)
    from this [OF after] have "filter (\<lambda>k. starts_with k p \<and> ?l < k) (svc_keys b w) = filter (\<lambda>k. ?l < k) ks" .
    also have "\<dots> = drop (nat n) ks" by (rule sorted_after_nth [OF s n True])
    finally have "svc_rest w b p (pg_next_token pg) = map (svc_info b w) (drop (nat n) ks)" by (simp add: svc_rest_def tok)
    with page rest True show ?thesis by (simp add: take_map drop_map flip: map_append)
  qed
qed

section \<open>The service obeys the laws\<close>

interpretation svc: s3_service "service_config z n t r" svc_objects svc_parts for z n t r
proof (unfold_locales, unfold service_config_sel, goal_cases)
  case (1 b k w q w')
  from svc_head [OF 1] show ?case .
next
  case (2 b k i j w rg w')
  from svc_get [OF 2] show ?case .
next
  case (3 b p dl tk m w q w')
  from svc_list(1,2) [OF 3] show ?case by simp
next
  case (4 b p w pg w')
  from svc_list_names [OF 4] show ?case .
next
  case (5 b k req w r0 w')
  from svc_put [OF 5] show ?case .
next
  case (6 b k w r0 w')
  from svc_delete [OF 6] show ?case .
next
  case (7 b ks w rs w')
  from svc_delete_many [OF 7] show ?case .
next
  case (8 b k src w r0 w')
  from svc_copy(1,2) [OF 8] show ?case by simp
next
  case (9 b k sb sk w r0 w')
  from svc_copy(3) [OF 9(1) refl 9(2)] show ?case .
next
  case (10 b k w ru w')
  from svc_create [OF 10] show ?case .
next
  case (11 b k u n d crc w rp w')
  from svc_upload [OF 11] show ?case by (auto split: option.splits outcome.splits)
next
  case (12 b k u n src h w rp w')
  from svc_upload_copy [OF 12] show ?case by blast
next
  case (13 b k u n sb sk i j w part w')
  from svc_upload_copy [OF 13(1)] 13(2) show ?case by (fastforce simp: Let_def)
next
  case (14 b k u ps w r0 w')
  from svc_complete(1) [OF 14] show ?case by (auto split: outcome.splits)
next
  case (15 b k u ps w r0 w' m)
  from svc_complete(2) [OF 15] show ?case by (auto split: outcome.splits)
next
  case (16 b k u w r0 w')
  from svc_abort [OF 16] show ?case by (auto split: outcome.splits)
next
  case (17 w x d)
  then show ?case by (auto simp: svc_objects_def split: option.splits if_splits)
next
  case 18
  then show ?case by (simp add: decode_bytes_def)
next
  case (19 a)
  then show ?case by simp
qed

interpretation svc_pages: s3_pages "service_config z n t r" "\<lambda>_. True" svc_rest for z n t r
proof (unfold_locales, unfold service_config_sel, goal_cases)
  case (1 b p tk m w q w')
  from svc_rest_view [OF svc_list(3) [OF 1(1)]] show ?case by simp
next
  case (2 b p tk m w pg w')
  from svc_page(1) [OF 2(1,3)] show ?case .
next
  case (3 b p tk m w pg w')
  from svc_page(2) [OF 3(1,3)] show ?case .
qed

section \<open>A service with one object\<close>

definition one_object :: "fate list \<Rightarrow> service" where
  "one_object fates = \<lparr>sv_objects = [((''b'', ''p/x''), [1, 2, 3])], sv_uploads = [], sv_fates = fates\<rparr>"

definition process_over :: "service \<Rightarrow> service adapter" where
  "process_over w = \<lparr>ad_world = w, ad_uploads = [], ad_shutdown = None, ad_choices = [], ad_suffixes = []\<rparr>"

abbreviation svc_config :: "service s3_config" where
  "svc_config \<equiv> service_config ieee_crc32 0 2 False"

end
