(* ===== verification/S3_Properties.thy ===== *)
theory S3_Properties
  imports S3_Service
begin

text \<open>
  The properties of \<^verbatim>\<open>S3ClientImpl\<close> and \<^verbatim>\<open>S3MultipartCopy\<close>, over any service that obeys the laws of
  \<open>s3_service\<close>, each with a run on the service of theory \<open>S3_Service\<close>.
\<close>

section \<open>The reachable states of the pool\<close>

inductive pool_reaches :: "'w copier \<Rightarrow> string \<Rightarrow> nat option \<Rightarrow> 'w pool \<Rightarrow> 'w pool \<Rightarrow> bool"
  for mc :: "'w copier" and u :: string and tracked :: "nat option" and st0 :: "'w pool"
  where
    pool_start: "pool_reaches mc u tracked st0 st0"
  | pool_next: "pool_reaches mc u tracked st0 st \<Longrightarrow> who \<in> set (possible_steps st) \<Longrightarrow>
      pool_reaches mc u tracked st0 (pool_step mc u tracked who st)"

inductive_cases pool_reachesE: "pool_reaches mc u tracked st0 st"

lemma pool_reaches_run:
  "run_pool mc u tracked choices st0 = (st', choices') \<Longrightarrow> pool_reaches mc u tracked st0 st'"
  using run_pool_rule [where P = "pool_reaches mc u tracked st0"] pool_start pool_next by metis

lemma pool_reaches_bounded:
  assumes "pool_reaches mc u (Some n) st0 st" "pool_bounded n st0"
  shows "pool_bounded n st"
  using assms by induction (auto intro: pool_step_bounded)

lemma initial_pool_bounded:
  "pool_bounded n (initial_pool num_chunks ids (if ramp_up then min 16 n else n) s)"
  by (auto simp: pool_bounded_def initial_pool_def)

context s3_service
begin

lemma honours_contract:
  "diff_store (impl_client cf) (\<lambda>s. objects (ad_world s)) (cf_crc cf) (\<lambda>s b k u. parts (ad_world s) (b, k, u))"
  by (rule impl_store.diff_store_axioms)

lemma operations_track:
  assumes "(\<exists>b k n ids cs crcs. 0 < cs \<and> impl_GetChunkCRC32s cf b k n ids cs s = (crcs, s')) \<or>
     (\<exists>sb sk b k n c ok c'. impl_CopyObject cf sb sk b k n c s = ((ok, c'), s'))"
  shows "forgotten cf parts s' \<subseteq> forgotten cf parts s \<and> (registry_clients cf s \<longrightarrow> registry_clients cf s')"
  using assms chunk_checksums_track copies_track by blast

lemma cleanup_leaves_nothing:
  assumes "(\<exists>b k n ids cs crcs. 0 < cs \<and> impl_GetChunkCRC32s cf b k n ids cs s = (crcs, s')) \<or>
     (\<exists>sb sk b k n c ok c'. impl_CopyObject cf sb sk b k n c s = ((ok, c'), s'))"
    and "registry_clients cf s" "grants_aborts P (cf_client cf)" "P (ad_world s')"
  shows "{x. parts (ad_world (abort_all s')) x \<noteq> None} \<subseteq> forgotten cf parts s \<and>
    objects (ad_world (abort_all s')) = objects (ad_world s') \<and> ad_uploads (abort_all s') = []"
proof -
  have t: "forgotten cf parts s' \<subseteq> forgotten cf parts s" "registry_clients cf s'"
    using operations_track [OF assms(1)] assms(2) by blast+
  from abort_all_closes [OF t(2) assms(3,4)] abort_all_keeps [OF t(2)] t(1) show ?thesis by blast
qed

end

context s3_pages
begin

lemma pages_contract: "paged_store (impl_client cf) (\<lambda>s. valid_world (ad_world s)) (\<lambda>s. rest (ad_world s))"
  by (rule impl_pages.paged_store_axioms)

end

section \<open>The contract\<close>

text \<open>
  C4: over any service that obeys S3's documented behaviour, with requests that fail, throw, lose their
  answer, cut a body short or ignore a range, the client of s3_client_impl.cpp honours the whole contract
  the rest of the program relies on: reads, writes, deletions and copies, chunk checksums and multipart uploads.
\<close>

theorem client_honours_contract:
  assumes "s3_service cf objects parts"
  shows "diff_store (impl_client cf) (\<lambda>s. objects (ad_world s)) (cf_crc cf) (\<lambda>s b k u. parts (ad_world s) (b, k, u))"
  by (rule s3_service.honours_contract [OF assms])

text \<open>
  C6: a range that the client returns is exactly the bytes asked for of the object, whatever range or status the
  service answered with; an answer that is cut short, too long or of another range is never handed on, and a
  request that is not a range sends nothing.
\<close>

theorem range_read_exact:
  assumes "s3_service cf objects parts" "impl_GetObjectRange cf b k i j w = (d, w')"
  shows "objects w' = objects w \<and> (if 0 \<le> i \<and> i \<le> j then True else d = [] \<and> w' = w) \<and>
    (d = [] \<or> (\<exists>x. objects w (b, k) = Some x \<and> j < int (length x) \<and> d = slice (nat i) (nat (j - i + 1)) x))"
proof -
  have "d = [] \<and> w' = w" if "\<not> (0 \<le> i \<and> i \<le> j)"
    using assms(2) that by (cases "0 \<le> i") (simp_all add: impl_GetObjectRange_def ValidateRange_def)
  with s3_service.impl_range_read [OF assms] show ?thesis by auto
qed

text \<open>
  the presence check says that an object is missing only if it is, and that it exists only if it does; every
  error, exception or doubtful answer in between comes out as \<^verbatim>\<open>Unknown\<close>.
\<close>

theorem presence_never_wrong:
  assumes "s3_service cf objects parts" "impl_CheckObjectPresence cf b k w = (q, w')"
  shows "objects w' = objects w \<and> (case q of
      NotFound \<Rightarrow> objects w (b, k) = None | Exists \<Rightarrow> objects w (b, k) \<noteq> None | Unknown \<Rightarrow> True)"
  using s3_service.impl_presence [OF assms] by (simp split: s3_presence.splits)


text \<open>
  C5: the checksums of an object's chunks that the service is made to compute, whatever the number of threads, the
  interleaving of their attempts and the failures among them, are none or the checksums of exactly the chunks asked for,
  in the order asked for.
\<close>

theorem chunk_checksums_exact:
  assumes "s3_service cf objects parts" "impl_GetChunkCRC32s cf b k n ids cs s = (crcs, s')" "0 < cs"
    and "objects (ad_world s) (b, k) = Some d" "n = int (length d)" "CHR ''/'' \<notin> set b"
  shows "objects (ad_world s') = objects (ad_world s) \<and>
    (crcs = [] \<or> crcs = map (\<lambda>i. crc32_hw (cf_crc cf) (chunk_bytes cs d i)) (if ids = [] then whole_file_ids cs d else ids))"
  using s3_service.impl_chunks [OF assms(1-3)] assms(4-6) by blast



text \<open>
  C19: the stream a file is sent from yields the first \<^verbatim>\<open>content_length\<close> bytes of the file, and yields them again
  after the SDK has rewound it to send the request again, however much it had read.
\<close>

theorem streamed_body_exact:
  assumes "0 \<le> n" "n \<le> int (length d)" "read_bytes next_byte m (open_bounded d n) = (xs, st)"
    and "seekpos 0 True st = (pos, st')"
  shows "xs = take m (take (nat n) d) \<and> pos = 0 \<and> fst (read_bytes next_byte (nat n) st') = take (nat n) d"
proof -
  note v = open_bounded_valid [OF assms(1,2)]
  note a = bounded.read_bytes_content [OF v assms(3)]
  from a have "bounded_valid st" "bounded_content st = take (nat n) d" by simp_all
  from seek_valid [OF this(1) order_refl _ assms(4)] this(2)
  have b: "pos = 0" "bounded_valid st'" "bounded_content st' = take (nat n) d" "bounded_position st' = 0" by simp_all
  obtain ys st2 where r: "read_bytes next_byte (nat n) st' = (ys, st2)" by fastforce
  from bounded.read_bytes_content [OF b(2) r] b r a show ?thesis by simp
qed

text \<open>
  the curl code that decides whether a failed request is worth another attempt is read back from a message exactly, as
  long as the marker stands in the message once and the number fits an \<^verbatim>\<open>int\<close>.
\<close>

theorem curl_code_roundtrip:
  assumes "\<And>i. i < length u \<Longrightarrow> \<not> starts_with (drop i (u @ ''curlCode: '' @ show_nat n @ v)) ''curlCode: ''"
    and "v = [] \<or> \<not> is_digit (hd v)" "int n < 2 ^ 31"
  shows "ExtractCurlCode (u @ ''curlCode: '' @ show_nat n @ v) = int n \<and>
    (n \<in> {6, 7, 28} \<longrightarrow> IsRetryableS3Error \<lparr>er_type = t, er_message = u @ ''curlCode: '' @ show_nat n @ v, er_code = c\<rparr>)"
proof -
  have "ExtractCurlCode (u @ ''curlCode: '' @ show_nat n @ v) = int n" by (rule curl_code_read [OF assms])
  then show ?thesis by (auto simp: IsRetryableS3Error_def)
qed

text \<open>
  a chunk number outside the object is refused before any request is sent: the service and the registry are as they were.
\<close>

theorem invalid_chunk_sends_nothing:
  assumes "i \<in> set ids" "i < 0 \<or> ceil_div n cs \<le> i" "0 < cs" "0 \<le> n"
  shows "impl_GetChunkCRC32s cf b k n ids cs s = ([], s)"
proof -
  have "(if n > 0 then n div cs + (if n mod cs \<noteq> 0 then 1 else 0) else 0) = ceil_div n cs"
    using chunk_count_ceil [OF assms(4,3)] assms(3,4) by (auto simp: chunk_count_for_size_def split: if_splits)
  then show ?thesis
    using assms by (auto simp: impl_GetChunkCRC32s_def Let_def list_ex_iff)
qed

section \<open>Runs over the service\<close>

definition busy :: fate where
  "busy = Refuse \<lparr>er_type = SLOW_DOWN, er_message = [], er_code = 503\<rparr>"

abbreviation patient_config :: "service s3_config" where
  "patient_config \<equiv> service_config ieee_crc32 1 2 False"

lemma range_run: "impl_GetObjectRange patient_config ''b'' ''p/x'' 1 2 (one_object [busy]) = ([2, 3], one_object [])"
  by code_simp

lemma presence_run: "impl_CheckObjectPresence patient_config ''b'' ''p'' (one_object [busy]) = (NotFound, one_object [])"
  by code_simp

lemma object_copy_run: "impl_CopyObject patient_config ''b'' ''p/x'' ''b'' ''q'' 3 None (process_over (one_object [busy])) =
    ((True, None), process_over (svc_store (''b'', ''q'') [1, 2, 3] (one_object [])))"
  by (simp add: impl_CopyObject_def impl_CopyObjectSimple_def retrying_def FIVE_GB_def service_config_def service_client_def
      on_world_def process_over_def one_object_def next_fate_def svc_objects_def max_object_size_def svc_CopyObject_def
      parse_copy_source carry_def svc_store_def busy_def failed_attempt_def IsRetryableS3Error_def numeral_2_eq_2)

text \<open>
  The service and the client compute their checksums with the same function; the run is quicker to evaluate with a
  sum of the bytes than with the bits of a CRC.
\<close>

definition byte_sum :: zng_crc where
  "byte_sum c xs = c + word_of_nat (sum_list (map unat xs))"

abbreviation sum_config :: "service s3_config" where
  "sum_config \<equiv> service_config byte_sum 1 2 False"

definition checksum_run :: "fate list \<Rightarrow> crc32 list \<times> service adapter" where
  "checksum_run fates = impl_GetChunkCRC32s sum_config ''b'' ''p/x'' 3 [] 2 (process_over (one_object fates))"

lemma checksums_come: "fst (checksum_run [Serve, busy]) \<noteq> []"
  by code_simp

lemma abort_refused: "ad_uploads (snd (checksum_run [Serve, Serve, Serve, busy])) \<noteq> []"
  by code_simp

lemma chunk_run: "impl_GetChunkCRC32s sum_config ''b'' ''p/x'' 3 [] 2 (process_over (one_object fates)) =
    (fst (checksum_run fates), snd (checksum_run fates))"
  by (simp add: checksum_run_def)

lemma one_object_content: "svc_objects (one_object fates) (''b'', ''p/x'') = Some [1, 2, 3]"
  by (simp add: one_object_def svc_objects_def max_object_size_def)

lemma process_over_state [simp]: "ad_world (process_over w) = w" "ad_uploads (process_over w) = []"
  by (simp_all add: process_over_def)

theorem client_honours_contract_witness:
  "diff_store (impl_client patient_config) (\<lambda>s. svc_objects (ad_world s)) ieee_crc32 (\<lambda>s b k u. svc_parts (ad_world s) (b, k, u))"
  using client_honours_contract [OF svc.s3_service_axioms, of ieee_crc32 1 2 False] by simp

theorem range_read_exact_witness:
  "[2, 3 :: byte] = slice 1 2 [1, 2, 3] \<and> svc_objects (one_object []) = svc_objects (one_object [busy])"
  using range_read_exact [OF svc.s3_service_axioms range_run] one_object_content by simp

theorem presence_never_wrong_witness: "svc_objects (one_object [busy]) (''b'', ''p'') = None"
  using presence_never_wrong [OF svc.s3_service_axioms presence_run] by simp


theorem chunk_checksums_exact_witness:
  "fst (checksum_run [Serve, busy]) = map (\<lambda>i. crc32_hw byte_sum (chunk_bytes 2 [1, 2, 3] i)) [0, 1]"
proof -
  have "whole_file_ids 2 [1, 2, 3 :: byte] = [0, 1]" by (simp add: whole_file_ids_def ceil_div_def upto.simps)
  with chunk_checksums_exact [OF svc.s3_service_axioms chunk_run, where d = "[1, 2, 3]", of "[Serve, busy]"] checksums_come
  show ?thesis by (simp add: one_object_content)
qed



theorem streamed_body_exact_witness:
  "fst (read_bytes next_byte 2 (snd (seekpos 0 True (snd (read_bytes next_byte 1 (open_bounded [1, 2, 3] 2)))))) = [1, 2]"
  using streamed_body_exact [of 2 "[1, 2, 3]" 1, OF _ _ surjective_pairing surjective_pairing] by (simp add: numeral_2_eq_2)

theorem curl_code_roundtrip_witness: "ExtractCurlCode (''e '' @ ''curlCode: '' @ show_nat 28 @ '', timeout'') = 28"
proof -
  have "\<not> starts_with (drop i (''e '' @ ''curlCode: '' @ show_nat 28 @ '', timeout'')) ''curlCode: ''" if "i < length ''e ''" for i
  proof -
    from that have "i = 0 \<or> i = 1" by auto
    then show ?thesis by (auto simp: starts_with_def)
  qed
  from curl_code_roundtrip [OF this] show ?thesis by (simp add: is_digit_def)
qed

theorem invalid_chunk_sends_nothing_witness:
  "impl_GetChunkCRC32s patient_config ''b'' ''p/x'' 3 [0, 2] 2 (process_over (one_object [])) = ([], process_over (one_object []))"
  by (rule invalid_chunk_sends_nothing [of 2]) (simp_all add: ceil_div_def)

end
