(* ===== verification/Sync_Through_S3.thy ===== *)
theory Sync_Through_S3
  imports S3_Properties Run_Sync
begin

text \<open>
  The parts together: a sync that uploads or copies, run with the threads of sync_task.cpp over the client of
  s3_client_impl.cpp over a service that obeys S3's documented behaviour.
\<close>

text \<open>
  C3: end to end: a sync to a bucket that reports success, over the real client and whatever the service answers on
  the way, has made the destination what the plan says, object by object, and changed no other object.
\<close>

theorem sync_through_s3_is_exact:
  assumes "s3_service cf objects parts"
    and "run_sync host cfg (Some (impl_client cf)) c fs s = Some (r, c', fs', s')" "sr_success r" "\<not> sc_dry_run cfg"
    and "ho_crc host = cf_crc cf" "chaining_crc (cf_crc cf)" "\<And>x. reads_file (ho_reader host x) x"
    and "bucket_plan (sync_env host cfg (Some (impl_client cf))) (objects (ad_world s)) fs' (actionable (sr_files r))"
  shows "store_between (sync_env host cfg (Some (impl_client cf))) (objects (ad_world s)) fs' (actionable (sr_files r))
       (objects (ad_world s')) \<and>
     list_all (\<lambda>f. objects (ad_world s') (object_of (sync_env host cfg (Some (impl_client cf))) f) =
         intended (sync_env host cfg (Some (impl_client cf))) (objects (ad_world s)) fs' f) (actionable (sr_files r))"
proof -
  have store: "diff_store (impl_client cf) (\<lambda>s. objects (ad_world s)) (ho_crc host) (\<lambda>s b k u. parts (ad_world s) (b, k, u))"
    unfolding assms(5) by (rule s3_service.honours_contract [OF assms(1)])
  have "chaining_crc (ho_crc host)" using assms(5,6) by simp
  from bucket_sync_exact [OF assms(2-4) store this assms(7,8)] show ?thesis by simp
qed

section \<open>A run over the service\<close>

abbreviation svc_client :: "service adapter s3_client" where
  "svc_client \<equiv> impl_client svc_config"

definition both_objects :: service where
  "both_objects = \<lparr>sv_objects = [((''b'', ''p/x''), [1, 2, 3]), ((''b'', ''q/x''), [1, 2, 3])], sv_uploads = [], sv_fates = []\<rparr>"

lemmas eval_service = service_config_def service_client_def on_world_def process_over_def one_object_def next_fate_def reply_def
  svc_objects_def max_object_size_def

lemma svc_listing:
  "svc_rest (one_object []) ''b'' ''p/'' [] = [\<lparr>oi_key = ''p/x'', oi_size = 3, oi_last_modified = 0\<rparr>]"
  "svc_rest (one_object []) ''b'' ''q/'' [] = []"
  by (simp_all add: svc_rest_def svc_keys_def svc_info_def eval_service starts_with_def)

lemma svc_lists:
  "ListObjects svc_client ''b'' ''q/'' ''/'' [] 1000 (process_over (one_object [])) =
     (empty_list_result\<lparr>lr_success := True\<rparr>, process_over (one_object []))"
  "ListObjects svc_client ''b'' ''p/'' ''/'' [] 1000 (process_over (one_object [])) =
     (empty_list_result\<lparr>lr_success := True, lr_objects := [\<lparr>oi_key = ''p/x'', oi_size = 3, oi_last_modified = 0\<rparr>]\<rparr>,
      process_over (one_object []))"
  using svc_listing
  by (simp_all add: impl_ListObjects_def retrying_def eval_service svc_ListObjectsV2_def list_result_of_def empty_list_result_def
      common_prefix_of_def map_filter_def starts_with_def Let_def)

lemma svc_listings:
  "parallel_enumerate_s3_prefix 3 (Some svc_client) ''b'' ''q'' True False None (process_over (one_object [])) =
     Some ([], True, None, process_over (one_object []))"
  "parallel_enumerate_s3_prefix 3 (Some svc_client) ''b'' ''p'' True False None (process_over (one_object [])) =
     Some ([\<lparr>de_path = ''x'', de_size = 3, de_mtime = 0\<rparr>], True, None, process_over (one_object []))"
  by (simp_all add: parallel_enumerate_s3_prefix_def numeral_3_eq_3 level_tasks_def process_prefix_def with_slash_def
      ends_with_char_def svc_lists empty_list_result_def relative_entry_def keeps_object_bfs_def starts_with_def del: impl_client_sel)

lemma svc_copies:
  "CopyObject svc_client ''b'' ''p/x'' ''b'' ''q/x'' 3 None (process_over (one_object [])) =
     ((True, None), process_over both_objects)"
  by (simp add: impl_CopyObject_def impl_CopyObjectSimple_def retrying_def FIVE_GB_def eval_service svc_CopyObject_def
      parse_copy_source carry_def svc_store_def both_objects_def)

text \<open>The run: one object copied to another key by the threads of the program.\<close>

definition svc_env :: "service adapter env" where
  "svc_env = sync_env (copy_host []) (en_cfg copy_env) (Some svc_client)"

definition svc_done :: "service adapter exec" where
  "svc_done = (initial_exec svc_env [file_x] None (small_fs []) (process_over (one_object [])))
     \<lparr>ex_next := 1, ex_successes := 1, ex_counts := no_counts\<lparr>ct_copy := 1\<rparr>, ex_server_side := 3, ex_world := process_over both_objects\<rparr>"

lemma svc_scan:
  "sync_scan (copy_host sched) (en_cfg copy_env) (Some svc_client) (Some svc_client) (Some svc_client) None fs
     (process_over (one_object [])) = Some (Inr ([file_x], True, None, process_over (one_object [])))"
  using svc_listings
  by (simp add: sync_scan_def copy_host_def copy_env_def scan_s3_to_s3_def file_x_def copy_x_def
      classify_files_s3_to_s3_def classify_copy_row_def default_sync_file_entry_def)

lemma svc_env_simps:
  "en_cfg svc_env = en_cfg copy_env" "en_client svc_env = Some svc_client" "en_threads svc_env = 4"
  "source_key svc_env file_x = ''p/x''" "dest_key svc_env file_x = ''q/x''"
  "sync_env (copy_host sched) (en_cfg copy_env) (Some svc_client) = svc_env"
  using file_x_simps
  by (simp_all add: svc_env_def sync_env_def copy_host_def copy_env_def effective_max_threads_def source_key_def dest_key_def)

lemma svc_done_simps:
  "ex_fs svc_done = small_fs []" "ex_world svc_done = process_over both_objects" "ex_cancelled svc_done = None"
  "ct_fail (ex_counts svc_done) = 0" "finished [file_x] svc_done"
  by (simp_all add: svc_done_def initial_exec_def no_counts_def finished_def)

lemma svc_steps:
  "sync_steps svc_env [file_x] [Submit, RunTask 0] (initial_exec svc_env [file_x] None (small_fs []) (process_over (one_object []))) =
     Some svc_done"
proof -
  have "copy_s3_object svc_client ''b'' ''p/x'' ''b'' ''q/x'' 3 None (process_over (one_object [])) =
      (True, 3, None, process_over both_objects)"
    by (simp add: copy_s3_object_def svc_copies del: impl_client_sel)
  then show ?thesis
    by (simp add: sync_step_def step_submit_def initial_exec_def max_concurrency_def prefetchable_def step_task_def
        process_file_def process_copy_def adapt_window_def book_def file_x_simps copy_env_simps svc_env_simps svc_done_def no_counts_def)
qed

lemma svc_run:
  "run_sync (copy_host [Submit, RunTask 0]) (en_cfg copy_env) (Some svc_client) None (small_fs []) (process_over (one_object [])) =
     Some ((sync_result_of [file_x] svc_done)\<lparr>sr_success := True\<rparr>, None, small_fs [], process_over both_objects)"
proof -
  have "ho_schedule (copy_host [Submit, RunTask 0] :: service adapter host) = [Submit, RunTask 0]" "actionable [file_x] = [file_x]"
    by (simp_all add: copy_host_def actionable_def file_x_simps)
  with svc_steps have "execute_plan (copy_host [Submit, RunTask 0]) (en_cfg copy_env) (Some svc_client) [file_x] None (small_fs [])
      (process_over (one_object [])) = Some svc_done"
    by (simp add: execute_plan_def Let_def svc_env_simps precreate_dirs_def copy_env_simps svc_done_simps
        del: sync_steps.simps)
  with svc_scan show ?thesis by (simp add: eval_run copy_env_simps svc_done_simps)
qed

theorem sync_through_s3_is_exact_witness:
  "svc_objects both_objects (''b'', ''q/x'') = Some [1, 2, 3] \<and>
   store_between svc_env (svc_objects (one_object [])) (small_fs []) [file_x] (svc_objects both_objects) \<and>
   svc_objects both_objects (object_of svc_env file_x) = intended svc_env (svc_objects (one_object [])) (small_fs []) file_x"
proof -
  have files: "actionable (sr_files (sync_result_of [file_x] svc_done)) = [file_x]"
    by (simp add: sync_result_of_def default_sync_result_def actionable_def file_x_simps)
  have plan: "bucket_plan svc_env (svc_objects (one_object [])) (small_fs []) [file_x]"
    by (simp add: bucket_plan_def plans_object_def svc_env_simps copy_env_simps file_x_simps object_of_def source_of_def copy_request_small
        kMaxSinglePutBytes_def)
  have host: "ho_crc (copy_host [Submit, RunTask 0] :: service adapter host) = cf_crc svc_config" "chaining_crc (cf_crc svc_config)"
      "reads_file (ho_reader (copy_host [Submit, RunTask 0] :: service adapter host) y) y" for y
    using ieee.chaining_crc_axioms by (simp_all add: copy_host_def reads_file_pread_of)
  have w: "ad_world (process_over v) = v" for v by (simp add: process_over_def)
  from sync_through_s3_is_exact [OF svc.s3_service_axioms svc_run _ _ host] plan
  have "store_between svc_env (svc_objects (one_object [])) (small_fs []) [file_x] (svc_objects both_objects) \<and>
     svc_objects both_objects (object_of svc_env file_x) = intended svc_env (svc_objects (one_object [])) (small_fs []) file_x"
    by (simp add: w files svc_env_simps copy_env_simps)
  then show ?thesis by (simp add: both_objects_def svc_objects_def max_object_size_def)
qed

end
