(* ===== verification/Cloud_Monitoring.thy ===== *)
theory Cloud_Monitoring
  imports Cloud_Metrics S3_Sdk
begin

text \<open>
  cloud_monitoring.cpp: the callbacks that the SDK makes around each request, which turn it into records
  of \<^verbatim>\<open>CloudMetrics\<close>.  A request is what the callbacks read of it, its headers and its path; a pointer
  that may be null is an option.  The latency that the SDK measured is a parameter, 0 when it
  measured none.  Times are milliseconds.
\<close>

record http_request =
  hr_header :: "string \<Rightarrow> string option"
  hr_path :: string

text \<open>The response as far as it is read: whether it succeeded, and its headers, if it is there.\<close>

record http_response =
  hp_success :: bool
  hp_headers :: "(string \<Rightarrow> string option) option"

definition isServerSideCopyType :: "s3_operation \<Rightarrow> bool" where
  "isServerSideCopyType op1 \<longleftrightarrow>
     op1 = OpUploadPartCopy \<or> op1 = OpUploadPartCopyRemote \<or> op1 = OpCopyObject \<or> op1 = OpCopyObjectRemote"

section \<open>Which buckets a copy is between\<close>

definition extractSourceBucket :: "string \<Rightarrow> string" where
  "extractSourceBucket copy_source1 =
     (if copy_source1 = [] then []
      else let source = (if hd copy_source1 = CHR ''/'' then tl copy_source1 else copy_source1) in
        case find_char CHR ''/'' source of
          None \<Rightarrow> source
        | Some slash_pos \<Rightarrow> take slash_pos source)"

definition host_bucket :: "http_request \<Rightarrow> string option" where
  "host_bucket request =
     (case hr_header request ''Host'' of
        None \<Rightarrow> None
      | Some host \<Rightarrow>
          (case find_str ''.s3.'' host of
             Some s3_pos \<Rightarrow> Some (take s3_pos host)
           | None \<Rightarrow> map_option (\<lambda>s3_pos. take s3_pos host) (find_str ''.s3-'' host)))"

definition path_bucket :: "string \<Rightarrow> string" where
  "path_bucket path =
     (if path \<noteq> [] \<and> hd path = CHR ''/'' then
        (case find_char CHR ''/'' (tl path) of
           Some n \<Rightarrow> take n (tl path)
         | None \<Rightarrow> if length path > 1 then tl path else [])
      else [])"

definition extractDestinationBucket :: "http_request option \<Rightarrow> string" where
  "extractDestinationBucket request =
     (case request of
        None \<Rightarrow> []
      | Some rq \<Rightarrow> (case host_bucket rq of Some b \<Rightarrow> b | None \<Rightarrow> path_bucket (hr_path rq)))"

text \<open>A header that is looked for in two spellings.\<close>

definition header_either :: "http_request \<Rightarrow> string \<Rightarrow> string \<Rightarrow> string option" where
  "header_either rq a b = (case hr_header rq a of Some v \<Rightarrow> Some v | None \<Rightarrow> hr_header rq b)"

definition isCrossBucketCopy :: "http_request option \<Rightarrow> bool" where
  "isCrossBucketCopy request =
     (case request of
        None \<Rightarrow> True
      | Some rq \<Rightarrow>
          let source_bucket = (case header_either rq ''x-amz-copy-source'' ''X-Amz-Copy-Source'' of
                                 None \<Rightarrow> [] | Some v \<Rightarrow> extractSourceBucket v) in
          if source_bucket = [] then True
          else let dest_bucket = extractDestinationBucket request in
            if dest_bucket = [] then True else source_bucket \<noteq> dest_bucket)"

section \<open>Sizes\<close>

text \<open>\<^verbatim>\<open>std::stoull\<close>: a sign is accepted and negates modulo \<open>2 ^ 64\<close>.\<close>

definition stoull :: "string \<Rightarrow> u64 option" where
  "stoull s =
     (let t = dropWhile is_space s;
          neg = (t \<noteq> [] \<and> hd t = CHR ''-'');
          u = (if t \<noteq> [] \<and> (hd t = CHR ''-'' \<or> hd t = CHR ''+'') then tl t else t);
          ds = takeWhile is_digit u
      in if ds = [] then None
         else if digits_val ds \<ge> 2 ^ 64 then None
         else Some (if neg then - of_nat (digits_val ds) else of_nat (digits_val ds)))"

definition content_length :: "string option \<Rightarrow> u64" where
  "content_length v = (case v of None \<Rightarrow> 0 | Some s \<Rightarrow> (case stoull s of None \<Rightarrow> 0 | Some n \<Rightarrow> n))"

definition extractBytesUploaded :: "http_request option \<Rightarrow> u64" where
  "extractBytesUploaded request =
     (case request of None \<Rightarrow> 0 | Some rq \<Rightarrow> content_length (hr_header rq ''content-length''))"

definition extractBytesDownloaded :: "http_response \<Rightarrow> u64" where
  "extractBytesDownloaded outcome =
     (if \<not> hp_success outcome then 0
      else case hp_headers outcome of None \<Rightarrow> 0 | Some h \<Rightarrow> content_length (h ''content-length''))"

text \<open>The size of a ranged copy, from \<^verbatim>\<open>bytes=START-END\<close>; 0 when the header says nothing usable.\<close>

definition copied_range_bytes :: "string \<Rightarrow> u64" where
  "copied_range_bytes range_str =
     (case find_char CHR ''='' range_str of
        None \<Rightarrow> 0
      | Some eq_pos \<Rightarrow>
          if eq_pos + 1 < length range_str then
            (case find_char CHR ''-'' (drop (eq_pos + 1) range_str) of
               None \<Rightarrow> 0
             | Some n \<Rightarrow>
                 let dash_pos = eq_pos + 1 + n in
                 if dash_pos > eq_pos + 1 \<and> dash_pos + 1 < length range_str then
                   (case (stoll (slice (eq_pos + 1) (dash_pos - eq_pos - 1) range_str), stoll (drop (dash_pos + 1) range_str)) of
                      (Some start, Some final) \<Rightarrow>
                        if start \<ge> 0 \<and> final \<ge> start then word_of_int (final - start + 1) else 0
                    | _ \<Rightarrow> 0)
                 else 0)
          else 0)"

section \<open>The callbacks\<close>

record request_context =
  rx_operation_type :: s3_operation
  rx_start_time :: int
  rx_service_name :: string
  rx_request_name :: string

definition OnRequestStarted ::
  "string \<Rightarrow> string \<Rightarrow> http_request option \<Rightarrow> int \<Rightarrow> cloud_metrics \<Rightarrow> request_context option \<times> cloud_metrics" where
  "OnRequestStarted serviceName requestName request now m =
     (if serviceName \<noteq> ''s3'' \<and> serviceName \<noteq> ''S3'' then (None, m)
      else let op1 = ParseS3OperationType requestName;
               op1 = (if op1 = OpUploadPartCopy then
                        if isCrossBucketCopy request then OpUploadPartCopyRemote else op1
                      else if op1 = OpCopyObject then
                        if isCrossBucketCopy request then OpCopyObjectRemote else op1
                      else op1)
           in (Some \<lparr>rx_operation_type = op1, rx_start_time = now, rx_service_name = serviceName,
                     rx_request_name = requestName\<rparr>, recordStart op1 m))"

definition latency :: "request_context \<Rightarrow> int \<Rightarrow> int \<Rightarrow> u64" where
  "latency ctx now core_latency =
     word_of_int (if core_latency > 0 then core_latency else now - rx_start_time ctx)"

definition OnRequestSucceeded ::
  "http_request option \<Rightarrow> http_response \<Rightarrow> int \<Rightarrow> int \<Rightarrow> request_context option \<Rightarrow> cloud_metrics \<Rightarrow> cloud_metrics" where
  "OnRequestSucceeded request outcome core_latency now context1 m =
     (case context1 of
        None \<Rightarrow> m
      | Some ctx \<Rightarrow>
          let latency_ms = latency ctx now core_latency;
              op1 = rx_operation_type ctx;
              bytes_down = (if op1 = OpGetObject then extractBytesDownloaded outcome else 0) in
          if isServerSideCopyType op1 then
            let range_header =
                  (case request of
                     None \<Rightarrow> []
                   | Some rq \<Rightarrow> (case header_either rq ''x-amz-copy-source-range'' ''X-Amz-Copy-Source-Range'' of
                                   None \<Rightarrow> [] | Some v \<Rightarrow> v));
                bytes_server_side = (if range_header \<noteq> [] then copied_range_bytes range_header else 0)
            in recordSuccess op1 latency_ms 0 bytes_down bytes_server_side m
          else recordSuccess op1 latency_ms (extractBytesUploaded request) bytes_down 0 m)"

definition OnRequestFailed :: "int \<Rightarrow> int \<Rightarrow> request_context option \<Rightarrow> cloud_metrics \<Rightarrow> cloud_metrics" where
  "OnRequestFailed core_latency now context1 m =
     (case context1 of
        None \<Rightarrow> m
      | Some ctx \<Rightarrow> recordFailure (rx_operation_type ctx) (latency ctx now core_latency) m)"

definition OnRequestRetry :: "request_context option \<Rightarrow> cloud_metrics \<Rightarrow> cloud_metrics" where
  "OnRequestRetry context1 m =
     (case context1 of None \<Rightarrow> m | Some ctx \<Rightarrow> recordRetry (rx_operation_type ctx) m)"

section \<open>What the client's copies count as\<close>

lemma stoll_show: "0 \<le> n \<Longrightarrow> n \<le> int64_max \<Longrightarrow> stoll (show_int n) = Some n"
  using sto_int_digits [of "show_nat (nat n)"] show_nat_digits
  by (simp add: stoll_def show_int_def int64_max_def)

lemma dash_notin_show: "0 \<le> n \<Longrightarrow> CHR ''-'' \<notin> set (show_int n)"
  by (simp add: show_int_def not_digit_notin_show_nat is_digit_def)

lemma show_int_not_Nil: "show_int n \<noteq> []"
  by (simp add: show_int_def)

lemma drop_prefix: "length xs = n \<Longrightarrow> drop n (xs @ ys) = ys"
  by auto

lemma copied_range_bytes_exact:
  assumes "0 \<le> a" "a \<le> b" "b \<le> int64_max"
  shows "copied_range_bytes (byte_range a b) = word_of_int (b - a + 1)"
proof -
  let ?r = "byte_range a b"
  have r: "?r = ''bytes'' @ CHR ''='' # show_int a @ CHR ''-'' # show_int b"
    by (simp add: byte_range_def)
  have e: "find_char CHR ''='' ?r = Some 5"
    unfolding r using find_char_append_Cons [of "CHR ''=''" "''bytes''"] by simp
  have tl1: "drop 6 ?r = show_int a @ CHR ''-'' # show_int b" by (simp add: r)
  have d: "find_char CHR ''-'' (drop 6 ?r) = Some (length (show_int a))"
    unfolding tl1 using dash_notin_show assms(1) by simp
  have l: "length ?r = 7 + length (show_int a) + length (show_int b)" by (simp add: r)
  have s: "slice 6 (length (show_int a)) ?r = show_int a" by (simp add: slice_def r)
  have "?r = (''bytes='' @ show_int a @ ''-'') @ show_int b" by (simp add: r)
  then have f: "drop (7 + length (show_int a)) ?r = show_int b"
    using drop_prefix [of "''bytes='' @ show_int a @ ''-''" "7 + length (show_int a)" "show_int b"] by simp
  show ?thesis
    using assms show_int_not_Nil [of a] show_int_not_Nil [of b]
    by (simp add: copied_range_bytes_def e d l s f stoll_show Let_def)
qed

lemma find_first_dot:
  assumes "CHR ''.'' \<notin> set xs" "p \<noteq> []" "hd p = CHR ''.''"
  shows "find_str p (xs @ p @ ys) = Some (length xs)"
  using assms
proof (induction xs)
  case Nil
  then show ?case by (simp add: find_str_0_iff)
next
  case (Cons x xs)
  then have "\<not> starts_with (x # xs @ p @ ys) p" by (cases p) (auto simp: starts_with_def)
  with Cons show ?case by simp
qed

lemma extractSourceBucket_copy_source:
  "CHR ''/'' \<notin> set b \<Longrightarrow> b \<noteq> [] \<Longrightarrow> extractSourceBucket (copy_source b k) = b"
  by (cases b) (auto simp: extractSourceBucket_def copy_source_def Let_def)

lemma isCrossBucketCopy_hosted:
  assumes "hr_header rq ''x-amz-copy-source'' = Some (copy_source src k)" "CHR ''/'' \<notin> set src" "src \<noteq> []"
    and "hr_header rq ''Host'' = Some (dst @ ''.s3.'' @ rest)" "CHR ''.'' \<notin> set dst" "dst \<noteq> []"
  shows "isCrossBucketCopy (Some rq) \<longleftrightarrow> src \<noteq> dst"
  using assms find_first_dot [OF assms(5), of "''.s3.''" rest] extractSourceBucket_copy_source [OF assms(2,3)]
  by (simp add: isCrossBucketCopy_def header_either_def extractDestinationBucket_def host_bucket_def)

lemma part_copy_tally:
  assumes "hr_header rq ''x-amz-copy-source'' = Some (copy_source src k)" "CHR ''/'' \<notin> set src" "src \<noteq> []"
    and "hr_header rq ''Host'' = Some (dst @ ''.s3.'' @ rest)" "CHR ''.'' \<notin> set dst" "dst \<noteq> []"
    and "hr_header rq ''x-amz-copy-source-range'' = Some (byte_range a b)" "0 \<le> a" "a \<le> b" "b \<le> int64_max"
    and "OnRequestStarted ''s3'' ''UploadPartCopy'' (Some rq) now m = (ctx, m1)"
    and "op1 \<noteq> OpCOUNT"
  shows "op_tally (cm_metrics (OnRequestSucceeded (Some rq) outcome core now' ctx m1) op1) =
    (if op1 = (if src = dst then OpUploadPartCopy else OpUploadPartCopyRemote)
     then add_tallies (op_tally (cm_metrics m op1))
            (zero_tallies\<lparr>tl_calls := 1, tl_success := 1, tl_server := word_of_int (b - a + 1)\<rparr>)
     else op_tally (cm_metrics m op1))"
proof -
  let ?op = "if src = dst then OpUploadPartCopy else OpUploadPartCopyRemote"
  have "ParseS3OperationType ''UploadPartCopy'' = OpUploadPartCopy" by (simp add: ParseS3OperationType_def)
  with assms(11) isCrossBucketCopy_hosted [OF assms(1-6)]
  have c: "m1 = apply_event (Started ?op) m" "\<exists>c. ctx = Some c \<and> rx_operation_type c = ?op"
    by (auto simp: OnRequestStarted_def Let_def split: if_splits)
  then obtain c where ctx: "ctx = Some c" "rx_operation_type c = ?op" by blast
  have "byte_range a b \<noteq> []" by (simp add: byte_range_def)
  then have fin: "OnRequestSucceeded (Some rq) outcome core now' ctx m1 =
      apply_event (Succeeded ?op (latency c now' core) 0 0 (word_of_int (b - a + 1))) m1"
    using assms(7) copied_range_bytes_exact [OF assms(8-10)]
    by (simp add: OnRequestSucceeded_def ctx header_either_def isServerSideCopyType_def Let_def)
  show ?thesis
    unfolding fin unfolding c(1) event_counts [OF assms(12)]
    by (simp add: add_tallies_def zero_tallies_def)
qed


definition remote_copy :: http_request where
  "remote_copy = \<lparr>hr_header = [''x-amz-copy-source'' \<mapsto> copy_source ''src'' ''dir/k'', ''Host'' \<mapsto> ''dst.s3.eu-west-2.amazonaws.com'',
     ''x-amz-copy-source-range'' \<mapsto> byte_range 8 15, ''content-length'' \<mapsto> ''0''], hr_path = ''/dir/k2''\<rparr>"


end
