(* ===== verification/Dns_Cache.thy ===== *)
theory Dns_Cache
  imports Core_Types
begin

text \<open>
  dns_cache.cpp and cached_dns_http_client.cpp: a cache of resolved host names that many threads share,
  and the lists of resolved addresses that curl is given raw pointers to.  The resolver is a
  parameter: \<open>getaddrinfo h\<close> is its answer for a host, \<^term>\<open>None\<close> an error, and an address is
  its printed form, \<^term>\<open>None\<close> when \<^verbatim>\<open>inet_ntop\<close> fails.  What the code does under one lock is one step.
\<close>

section \<open>Resolving\<close>

type_synonym dns_cache = "string \<rightharpoonup> string list"

definition ResolveHostname :: "(string \<Rightarrow> string option list option) \<Rightarrow> string \<Rightarrow> string list" where
  "ResolveHostname getaddrinfo hostname =
     (case getaddrinfo hostname of
        None \<Rightarrow> []
      | Some addrs \<Rightarrow> remdups_adj (sort (concat (map (\<lambda>a. case a of None \<Rightarrow> [] | Some ip \<Rightarrow> [ip]) addrs))))"

text \<open>The second critical section of \<^verbatim>\<open>Resolve\<close>: look again, then insert; with the answer to the caller.\<close>

definition resolve_insert :: "string \<Rightarrow> string list \<Rightarrow> dns_cache \<Rightarrow> string list \<times> dns_cache" where
  "resolve_insert hostname ips cache =
     (case cache hostname of
        Some cached \<Rightarrow> (cached, cache)
      | None \<Rightarrow> (ips, if ips \<noteq> [] then cache(hostname \<mapsto> ips) else cache))"

text \<open>\<^verbatim>\<open>Resolve\<close> with nobody else about.\<close>

definition dns_resolve ::
  "(string \<Rightarrow> string option list option) \<Rightarrow> string \<Rightarrow> dns_cache \<Rightarrow> string list \<times> dns_cache" where
  "dns_resolve getaddrinfo hostname cache =
     (case cache hostname of
        Some cached \<Rightarrow> (cached, cache)
      | None \<Rightarrow> resolve_insert hostname (ResolveHostname getaddrinfo hostname) cache)"

definition GetResolveString ::
  "(string \<Rightarrow> string option list option) \<Rightarrow> string \<Rightarrow> int \<Rightarrow> dns_cache \<Rightarrow> string \<times> dns_cache" where
  "GetResolveString getaddrinfo hostname port cache =
     (let (ips, cache) = dns_resolve getaddrinfo hostname cache in
      if ips = [] then ([], cache)
      else (hostname @ '':'' @ show_int port @ '':'' @ concat (hd ips # map ((@) '','') (tl ips)), cache))"

definition Warmup :: "(string \<Rightarrow> string option list option) \<Rightarrow> string \<Rightarrow> dns_cache \<Rightarrow> bool \<times> dns_cache" where
  "Warmup getaddrinfo hostname cache =
     (let (ips, cache) = dns_resolve getaddrinfo hostname cache in (ips \<noteq> [], cache))"

definition dns_clear :: "dns_cache \<Rightarrow> dns_cache" where
  "dns_clear cache = Map.empty"

definition GetS3Hostname :: "string \<Rightarrow> string \<Rightarrow> string" where
  "GetS3Hostname bucket region = bucket @ ''.s3.'' @ region @ ''.amazonaws.com''"

lemma remdups_adj_sorted:
  "sorted xs \<Longrightarrow> sorted_wrt (<) (remdups_adj (xs :: string list))"
  by (induction xs rule: remdups_adj.induct) (auto simp: less_le)

text \<open>The addresses of a host: those the resolver gave, in ascending order, none twice.\<close>

lemma ResolveHostname_set:
  "getaddrinfo h = Some addrs \<Longrightarrow> set (ResolveHostname getaddrinfo h) = {ip. Some ip \<in> set addrs}"
  by (force simp: ResolveHostname_def split: option.splits)

lemma ResolveHostname_sorted: "sorted_wrt (<) (ResolveHostname getaddrinfo h)"
  by (simp add: ResolveHostname_def remdups_adj_sorted split: option.splits)

section \<open>Many threads\<close>

datatype resolver = Asks string | Missed string | Resolved string "string list" | Answered string "string list"

record dns_state =
  ds_cache :: dns_cache
  ds_threads :: "nat \<Rightarrow> resolver option"

definition set_thread :: "nat \<Rightarrow> resolver \<Rightarrow> dns_state \<Rightarrow> dns_state" where
  "set_thread t r s = s\<lparr>ds_threads := (ds_threads s)(t \<mapsto> r)\<rparr>"

text \<open>
  A thread calls \<^verbatim>\<open>Resolve\<close>, reads the cache, asks the resolver outside the lock, whose answers may differ
  from call to call, and inserts.  Nothing clears the cache while requests are made.
\<close>

inductive dns_step :: "dns_state \<Rightarrow> dns_state \<Rightarrow> bool" where
  call: "ds_threads s t = None \<Longrightarrow> dns_step s (set_thread t (Asks h) s)"
| hit: "ds_threads s t = Some (Asks h) \<Longrightarrow> ds_cache s h = Some ips \<Longrightarrow> dns_step s (set_thread t (Answered h ips) s)"
| miss: "ds_threads s t = Some (Asks h) \<Longrightarrow> ds_cache s h = None \<Longrightarrow> dns_step s (set_thread t (Missed h) s)"
| lookup: "ds_threads s t = Some (Missed h) \<Longrightarrow> dns_step s (set_thread t (Resolved h (ResolveHostname answer h)) s)"
| insert: "ds_threads s t = Some (Resolved h ips) \<Longrightarrow> resolve_insert h ips (ds_cache s) = (r, cache) \<Longrightarrow>
    dns_step s (set_thread t (Answered h r) (s\<lparr>ds_cache := cache\<rparr>))"

inductive dns_reachable :: "dns_state \<Rightarrow> bool" where
  start: "dns_reachable \<lparr>ds_cache = Map.empty, ds_threads = (\<lambda>_. None)\<rparr>"
| step: "dns_reachable s \<Longrightarrow> dns_step s s' \<Longrightarrow> dns_reachable s'"

text \<open>What a thread was told is in the cache, unless it was told nothing.\<close>

definition dns_ok :: "dns_state \<Rightarrow> bool" where
  "dns_ok s \<longleftrightarrow>
     (\<forall>h. ds_cache s h \<noteq> Some []) \<and>
     (\<forall>t h ips. ds_threads s t = Some (Answered h ips) \<longrightarrow> ips \<noteq> [] \<longrightarrow> ds_cache s h = Some ips)"

lemma set_thread_sel [simp]:
  "ds_cache (set_thread t r s) = ds_cache s" "ds_threads (set_thread t r s) = (ds_threads s)(t \<mapsto> r)"
  by (simp_all add: set_thread_def)

lemma dns_step_ok: "dns_step s s' \<Longrightarrow> dns_ok s \<Longrightarrow> dns_ok s'"
proof (induction rule: dns_step.induct)
  case (insert s t h ips r cache)
  have c: "cache h' = ds_cache s h' \<or> h' = h \<and> ds_cache s h = None \<and> cache h = Some ips \<and> ips \<noteq> []" for h'
    using insert(2) by (auto simp: resolve_insert_def split: option.splits if_splits)
  have r: "r \<noteq> [] \<Longrightarrow> cache h = Some r"
    using insert(2) by (auto simp: resolve_insert_def split: option.splits if_splits)
  have "ds_cache s h' = Some v \<Longrightarrow> cache h' = Some v" for h' v
    using c [of h'] by auto
  moreover have "cache h' \<noteq> Some []" for h'
    using c [of h'] insert(3) by (auto simp: dns_ok_def)
  ultimately show ?case using insert(3) r by (auto simp: dns_ok_def)
qed (auto simp: dns_ok_def)

lemma dns_reachable_ok: "dns_reachable s \<Longrightarrow> dns_ok s"
proof (induction rule: dns_reachable.induct)
  case start
  then show ?case by (simp add: dns_ok_def)
qed (rule dns_step_ok)

text \<open>
  however the threads that resolve names interleave, and though the resolver may answer every one of
  them differently, all of them are told the same addresses of a host, those in the cache, or none.
\<close>

theorem dns_answers_agree:
  assumes "dns_reachable s" "ds_threads s t = Some (Answered h ips)" "ips \<noteq> []"
    and "ds_threads s t' = Some (Answered h ips')" "ips' \<noteq> []"
  shows "ips = ips' \<and> ds_cache s h = Some ips"
  using dns_reachable_ok [OF assms(1)] assms(2-) unfolding dns_ok_def by (metis option.inject)

text \<open>Two threads miss the same host; the slower one is told what the faster one found.\<close>

definition race :: dns_state where
  "race = \<lparr>ds_cache = [''h'' \<mapsto> [''1.1.1.1'']],
     ds_threads = [0 \<mapsto> Answered ''h'' [''1.1.1.1''], 1 \<mapsto> Answered ''h'' [''1.1.1.1'']]\<rparr>"

lemma race_reachable: "dns_reachable race"
proof -
  let ?t = "\<lambda>a b. \<lparr>ds_cache = Map.empty, ds_threads = [0 \<mapsto> a, 1 \<mapsto> b]\<rparr>"
  let ?u = "\<lambda>a b. \<lparr>ds_cache = [''h'' \<mapsto> [''1.1.1.1'']], ds_threads = [0 \<mapsto> a, 1 \<mapsto> b]\<rparr>"
  have "dns_reachable \<lparr>ds_cache = Map.empty, ds_threads = [0 \<mapsto> Asks ''h'']\<rparr>"
    using step [OF start call [of _ 0 "''h''"]] by (simp add: set_thread_def)
  from step [OF this call [of _ 1 "''h''"]] have "dns_reachable (?t (Asks ''h'') (Asks ''h''))"
    by (simp add: set_thread_def)
  from step [OF this miss [of _ 0 "''h''"]] have "dns_reachable (?t (Missed ''h'') (Asks ''h''))"
    by (simp add: set_thread_def fun_upd_twist)
  from step [OF this miss [of _ 1 "''h''"]] have "dns_reachable (?t (Missed ''h'') (Missed ''h''))"
    by (simp add: set_thread_def)
  from step [OF this lookup [of _ 0 "''h''" "\<lambda>_. Some [Some ''2.2.2.2'']"]]
  have "dns_reachable (?t (Resolved ''h'' [''2.2.2.2'']) (Missed ''h''))"
    by (simp add: set_thread_def fun_upd_twist ResolveHostname_def)
  from step [OF this lookup [of _ 1 "''h''" "\<lambda>_. Some [Some ''1.1.1.1'']"]]
  have "dns_reachable (?t (Resolved ''h'' [''2.2.2.2'']) (Resolved ''h'' [''1.1.1.1'']))"
    by (simp add: set_thread_def ResolveHostname_def)
  from step [OF this insert [of _ 1 "''h''" "[''1.1.1.1'']"]]
  have "dns_reachable (?u (Resolved ''h'' [''2.2.2.2'']) (Answered ''h'' [''1.1.1.1'']))"
    by (simp add: set_thread_def resolve_insert_def)
  from step [OF this insert [of _ 0 "''h''" "[''2.2.2.2'']"]] show ?thesis
    by (simp add: set_thread_def resolve_insert_def race_def fun_upd_twist)
qed

theorem dns_answers_agree_witness:
  "dns_reachable race \<and> ds_threads race 0 = Some (Answered ''h'' [''1.1.1.1'']) \<and> ds_cache race ''h'' = Some [''1.1.1.1'']"
  using dns_answers_agree [OF race_reachable, of 0 "''h''" "[''1.1.1.1'']" 1 "[''1.1.1.1'']"] race_reachable
  by (simp add: race_def)

section \<open>Lists that curl holds\<close>

text \<open>
  A \<^verbatim>\<open>curl_slist\<close> is named by its address; \<open>hd_lists\<close> are the lists that have not been freed.  A handle of the
  connection pool keeps the address it was given last.  A list lives as long as a shared pointer to
  it does, in \<^verbatim>\<open>s_resolveList\<close> or in \<^verbatim>\<open>s_oldLists\<close>.
\<close>

record curl_dns =
  hd_strings :: "string list"
  hd_current :: "nat option"
  hd_old :: "nat list"
  hd_lists :: "nat \<rightharpoonup> string list"
  hd_shutting_down :: bool
  hd_handles :: "nat \<rightharpoonup> nat"

definition no_curl_dns :: curl_dns where
  "no_curl_dns = \<lparr>hd_strings = [], hd_current = None, hd_old = [], hd_lists = Map.empty, hd_shutting_down = False,
     hd_handles = Map.empty\<rparr>"

definition shared :: "curl_dns \<Rightarrow> nat \<Rightarrow> bool" where
  "shared s a \<longleftrightarrow> hd_current s = Some a \<or> List.member (hd_old s) a"

text \<open>What has no shared pointer left is freed.\<close>

definition release :: "curl_dns \<Rightarrow> curl_dns" where
  "release s = s\<lparr>hd_lists := (\<lambda>a. if shared s a then hd_lists s a else None)\<rparr>"

text \<open>\<open>fresh\<close> is where the allocator puts the new list.\<close>

definition AddDnsEntry :: "nat \<Rightarrow> string \<Rightarrow> curl_dns \<Rightarrow> curl_dns" where
  "AddDnsEntry fresh resolveString s =
     (if resolveString = [] then s
      else if List.member (hd_strings s) resolveString then s
      else let s = s\<lparr>hd_strings := hd_strings s @ [resolveString]\<rparr>;
               s = (case hd_current s of None \<Rightarrow> s | Some a \<Rightarrow> s\<lparr>hd_old := hd_old s @ [a]\<rparr>)
           in release (s\<lparr>hd_lists := (hd_lists s)(fresh \<mapsto> hd_strings s), hd_current := Some fresh\<rparr>))"

definition PrepareForShutdown :: "curl_dns \<Rightarrow> curl_dns" where
  "PrepareForShutdown s = s\<lparr>hd_shutting_down := True\<rparr>"

definition OverrideOptionsOnConnectionHandle :: "nat \<Rightarrow> curl_dns \<Rightarrow> curl_dns" where
  "OverrideOptionsOnConnectionHandle handle s =
     (if hd_shutting_down s then s
      else case hd_current s of None \<Rightarrow> s | Some a \<Rightarrow> s\<lparr>hd_handles := (hd_handles s)(handle \<mapsto> a)\<rparr>)"

definition WarmupS3Dns ::
  "(string \<Rightarrow> string option list option) \<Rightarrow> nat \<Rightarrow> string \<Rightarrow> string \<Rightarrow> string \<Rightarrow> dns_cache \<Rightarrow> curl_dns \<Rightarrow>
   bool \<times> dns_cache \<times> curl_dns" where
  "WarmupS3Dns getaddrinfo fresh bucket region endpoint cache s =
     (if endpoint \<noteq> [] then (True, cache, s)
      else let hostname = GetS3Hostname bucket region;
               (warm, cache) = Warmup getaddrinfo hostname cache in
        if \<not> warm then (False, cache, s)
        else let (resolve443, cache) = GetResolveString getaddrinfo hostname 443 cache in
          (resolve443 \<noteq> [], cache, if resolve443 \<noteq> [] then AddDnsEntry fresh resolve443 s else s))"

inductive curl_step :: "curl_dns \<Rightarrow> curl_dns \<Rightarrow> bool" where
  add: "hd_lists s fresh = None \<Longrightarrow> curl_step s (AddDnsEntry fresh e s)"
| request: "curl_step s (OverrideOptionsOnConnectionHandle handle s)"
| shutdown: "curl_step s (PrepareForShutdown s)"

inductive curl_reachable :: "curl_dns \<Rightarrow> bool" where
  start: "curl_reachable no_curl_dns"
| step: "curl_reachable s \<Longrightarrow> curl_step s s' \<Longrightarrow> curl_reachable s'"

text \<open>Every address a handle holds is that of a live list, whose entries are the first of all entries.\<close>

definition curl_ok :: "curl_dns \<Rightarrow> bool" where
  "curl_ok s \<longleftrightarrow>
     (\<forall>a. shared s a \<longrightarrow> (\<exists>es. hd_lists s a = Some es \<and> prefix es (hd_strings s))) \<and>
     (\<forall>a. hd_current s = Some a \<longrightarrow> hd_lists s a = Some (hd_strings s)) \<and>
     (\<forall>h a. hd_handles s h = Some a \<longrightarrow> shared s a) \<and> distinct (hd_strings s)"

lemma AddDnsEntry_new:
  assumes "e \<noteq> []" "e \<notin> set (hd_strings s)"
  shows "AddDnsEntry fresh e s =
    (let old = hd_old s @ (case hd_current s of None \<Rightarrow> [] | Some a \<Rightarrow> [a]) in
     s\<lparr>hd_strings := hd_strings s @ [e], hd_current := Some fresh, hd_old := old,
       hd_lists := (\<lambda>a. if a = fresh then Some (hd_strings s @ [e]) else if a \<in> set old then hd_lists s a else None)\<rparr>)"
  using assms
  by (auto simp: AddDnsEntry_def release_def shared_def Let_def fun_eq_iff split: option.splits)

lemma curl_step_ok: "curl_step s s' \<Longrightarrow> curl_ok s \<Longrightarrow> curl_ok s'"
proof (induction rule: curl_step.induct)
  case (add s fresh e)
  show ?case
  proof (cases "e = [] \<or> e \<in> set (hd_strings s)")
    case True
    with add show ?thesis by (auto simp: AddDnsEntry_def)
  next
    case False
    let ?old = "hd_old s @ (case hd_current s of None \<Rightarrow> [] | Some a \<Rightarrow> [a])"
    have old: "a \<in> set ?old \<longleftrightarrow> shared s a" for a
      by (auto simp: shared_def split: option.splits)
    have keep: "\<exists>es. hd_lists s a = Some es \<and> prefix es (hd_strings s @ [e])" if "shared s a" for a
      using add(2) that prefix_prefix by (fastforce simp: curl_ok_def)
    have not_new: "\<not> shared s fresh" using add by (auto simp: curl_ok_def)
    show ?thesis
      using add(2) False old keep not_new
      by (auto simp: AddDnsEntry_new curl_ok_def Let_def shared_def split: if_splits)
  qed
next
  case (request s handle)
  have cur: "hd_current s = Some a \<Longrightarrow> shared s a" for a by (simp add: shared_def)
  let ?s = "OverrideOptionsOnConnectionHandle handle s"
  have sel: "hd_lists ?s = hd_lists s" "hd_strings ?s = hd_strings s" "hd_current ?s = hd_current s" "shared ?s = shared s"
    by (simp_all add: OverrideOptionsOnConnectionHandle_def shared_def fun_eq_iff split: option.splits)
  have "hd_handles ?s h = Some a \<Longrightarrow> hd_handles s h = Some a \<or> hd_current s = Some a" for h a
    by (auto simp: OverrideOptionsOnConnectionHandle_def split: option.splits if_splits)
  with request cur show ?case unfolding curl_ok_def sel by blast
qed (simp add: curl_ok_def shared_def PrepareForShutdown_def)

lemma curl_reachable_ok: "curl_reachable s \<Longrightarrow> curl_ok s"
proof (induction rule: curl_reachable.induct)
  case start
  then show ?case by (simp add: curl_ok_def no_curl_dns_def shared_def)
qed (rule curl_step_ok)

text \<open>
  whatever entries are added, requests made and shutdowns prepared, and in whatever order, a connection
  handle never holds the address of a list that was freed: the list is there, and its entries are
  entries of the cache.
\<close>

theorem resolve_lists_never_dangle:
  assumes "curl_reachable s" "hd_handles s handle = Some a"
  shows "\<exists>es. hd_lists s a = Some es \<and> set es \<subseteq> set (hd_strings s)"
proof -
  from curl_reachable_ok [OF assms(1)] assms(2) have "shared s a" by (auto simp: curl_ok_def)
  with curl_reachable_ok [OF assms(1)] obtain es where es: "hd_lists s a = Some es" "prefix es (hd_strings s)"
    unfolding curl_ok_def by blast
  from es(1) set_mono_prefix [OF es(2)] show ?thesis by blast
qed

theorem resolve_lists_never_dangle_witness:
  "\<exists>es. hd_lists (AddDnsEntry 8 ''b:443:2'' (OverrideOptionsOnConnectionHandle 1 (AddDnsEntry 7 ''a:443:1'' no_curl_dns))) 7
     = Some es \<and> set es \<subseteq> {''a:443:1'', ''b:443:2''}"
proof -
  let ?s1 = "AddDnsEntry 7 ''a:443:1'' no_curl_dns"
  let ?s2 = "OverrideOptionsOnConnectionHandle 1 ?s1"
  let ?s3 = "AddDnsEntry 8 ''b:443:2'' ?s2"
  note defs = AddDnsEntry_def no_curl_dns_def release_def shared_def OverrideOptionsOnConnectionHandle_def Let_def
  have "curl_reachable ?s1" by (rule curl_reachable.step [OF curl_reachable.start curl_step.add]) (simp add: no_curl_dns_def)
  then have "curl_reachable ?s2" by (rule curl_reachable.step) (rule curl_step.request)
  then have "curl_reachable ?s3" by (rule curl_reachable.step) (rule curl_step.add, simp add: defs)
  from resolve_lists_never_dangle [OF this, of 1 7] show ?thesis by (simp add: defs)
qed

end
